(* ===== verification/Prelude.thy ===== *)
theory Prelude
  imports "HOL-Library.Word"
begin

unbundle bit_operations_syntax

section \<open>Shared vocabulary of the development\<close>

text \<open>
  The names every other theory uses: machine integers, the ways a piece of kernel code can
  fail to return, operations on a state that may fail, weakest preconditions for them,
  and the generic facts on words, bytes and null-terminated index chains that the
  components share.
\<close>

subsection \<open>Machine integers\<close>

type_synonym byte = "8 word"
type_synonym u16 = "16 word"
type_synonym u32 = "32 word"
type_synonym u64 = "64 word"
type_synonym addr = "32 word"

text \<open>
  \<open>s32\<close> is what a C \<open>int\<close> holds after an unsigned or wider value has been stored in it on
  the i386: the low 32 bits, read as two's complement. \<open>u32_int\<close> is the conversion to
  \<open>t_32\<close>.
\<close>

definition s32 :: "int \<Rightarrow> int" where
  "s32 i = sint (word_of_int i :: u32)"

definition u32_int :: "int \<Rightarrow> u32" where
  "u32_int i = word_of_int i"

text \<open>The bytes of a string literal, without the null byte at its end.\<close>

definition ascii :: "string \<Rightarrow> byte list" where
  "ascii = map of_char"

text \<open>C's \<open>/\<close> and \<open>%\<close> on \<open>int\<close> truncate towards zero.\<close>

definition c_div :: "int \<Rightarrow> int \<Rightarrow> int" where
  "c_div a b = sgn a * sgn b * (\<bar>a\<bar> div \<bar>b\<bar>)"

definition c_mod :: "int \<Rightarrow> int \<Rightarrow> int" where
  "c_mod a b = a - b * c_div a b"

lemma c_div_nonneg [simp]: "0 \<le> a \<Longrightarrow> 0 < b \<Longrightarrow> c_div a b = a div b"
  by (cases "a = 0") (auto simp: c_div_def sgn_if)

lemma c_mod_nonneg [simp]: "0 \<le> a \<Longrightarrow> 0 < b \<Longrightarrow> c_mod a b = a mod b"
  by (simp add: c_mod_def minus_mult_div_eq_mod)

lemma s32_id: "- (2 ^ 31) \<le> i \<Longrightarrow> i < 2 ^ 31 \<Longrightarrow> s32 i = i"
  by (simp add: s32_def sint_sbintrunc' signed_take_bit_int_eq_self)

subsection \<open>How kernel code fails to return\<close>

text \<open>
  \<^item> \<open>Assert\<close>: \<open>assertion_failure\<close> of lib/err.c, which prints and then spins forever;
  \<^item> \<open>Panic\<close>: \<open>panic\<close> of lib/err.c, which executes an undefined instruction;
  \<^item> \<open>Wait\<close>: a busy loop that only an interrupt handler can end;
  \<^item> \<open>Spin\<close>: a loop that nothing ends;
  \<^item> \<open>Bad_access\<close>: a null dereference, or an index outside its array, where C has no
    defined behaviour.
\<close>

datatype fault =
    Assert string
  | Panic string
  | Wait string
  | Spin string
  | Bad_access string

text \<open>An operation takes the state and returns a fault, or a result and the new state.\<close>

type_synonym ('s, 'a) op = "'s \<Rightarrow> fault + ('a \<times> 's)"

definition ret :: "'a \<Rightarrow> ('s, 'a) op" where
  "ret x = (\<lambda>s. Inr (x, s))"

definition fail :: "fault \<Rightarrow> ('s, 'a) op" where
  "fail e = (\<lambda>s. Inl e)"

definition bindE :: "('s, 'a) op \<Rightarrow> ('a \<Rightarrow> ('s, 'b) op) \<Rightarrow> ('s, 'b) op" where
  "bindE m f = (\<lambda>s. case m s of Inl e \<Rightarrow> Inl e | Inr (x, t) \<Rightarrow> f x t)"

definition getsE :: "('s \<Rightarrow> 'a) \<Rightarrow> ('s, 'a) op" where
  "getsE f = (\<lambda>s. Inr (f s, s))"

definition modE :: "('s \<Rightarrow> 's) \<Rightarrow> ('s, unit) op" where
  "modE f = (\<lambda>s. Inr ((), f s))"

definition assertE :: "string \<Rightarrow> ('s \<Rightarrow> bool) \<Rightarrow> ('s, unit) op" where
  "assertE what P = (\<lambda>s. if P s then Inr ((), s) else Inl (Assert what))"

definition whenE :: "bool \<Rightarrow> ('s, unit) op \<Rightarrow> ('s, unit) op" where
  "whenE b m = (if b then m else ret ())"

text \<open>A block of statements, in order.\<close>

fun blockE :: "('s, unit) op list \<Rightarrow> ('s, unit) op" where
  "blockE [] = ret ()"
| "blockE (m # ms) = bindE m (\<lambda>_. blockE ms)"

text \<open>A \<open>for\<close> loop over a list of index values.\<close>

fun forE :: "'i list \<Rightarrow> ('i \<Rightarrow> ('s, unit) op) \<Rightarrow> ('s, unit) op" where
  "forE [] body = ret ()"
| "forE (i # is) body = bindE (body i) (\<lambda>_. forE is body)"

text \<open>
  A loop without a bound is a \<open>partial_function (option)\<close>; \<open>None\<close> is the loop that does
  not end, and becomes the fault given.
\<close>

definition loopE :: "fault \<Rightarrow> ('s \<Rightarrow> (fault + 'a) option) \<Rightarrow> ('s, 'a) op" where
  "loopE e f = (\<lambda>s. case f s of None \<Rightarrow> Inl e | Some (Inl e') \<Rightarrow> Inl e' | Some (Inr x) \<Rightarrow> Inr (x, s))"

named_theorems op_defs \<open>unfold the combinators on a state\<close>

lemma ret_apply [op_defs]: "ret x s = Inr (x, s)"
  by (simp add: ret_def)

lemma fail_apply [op_defs]: "fail e s = Inl e"
  by (simp add: fail_def)

lemma getsE_apply [op_defs]: "getsE f s = Inr (f s, s)"
  by (simp add: getsE_def)

lemma modE_apply [op_defs]: "modE f s = Inr ((), f s)"
  by (simp add: modE_def)

lemma assertE_apply [op_defs]: "assertE w P s = (if P s then Inr ((), s) else Inl (Assert w))"
  by (simp add: assertE_def)

lemma assertE_True [simp]: "P s \<Longrightarrow> assertE w P s = Inr ((), s)"
  by (simp add: assertE_def)

lemma assertE_False [simp]: "\<not> P s \<Longrightarrow> assertE w P s = Inl (Assert w)"
  by (simp add: assertE_def)

lemma bindE_Inr [simp]: "m s = Inr (x, t) \<Longrightarrow> bindE m f s = f x t"
  by (simp add: bindE_def)

lemma bindE_Inl [simp]: "m s = Inl e \<Longrightarrow> bindE m f s = Inl e"
  by (simp add: bindE_def)

lemma bindE_eq_Inr: "bindE m f s = Inr r \<longleftrightarrow> (\<exists>x t. m s = Inr (x, t) \<and> f x t = Inr r)"
  by (auto simp: bindE_def split: sum.splits)

lemma bindE_eq_Inl:
  "bindE m f s = Inl e \<longleftrightarrow> m s = Inl e \<or> (\<exists>x t. m s = Inr (x, t) \<and> f x t = Inl e)"
  by (auto simp: bindE_def split: sum.splits)

lemma bindE_assoc: "bindE (bindE m f) g = bindE m (\<lambda>x. bindE (f x) g)"
  by (rule ext) (simp add: bindE_def split: sum.splits)

lemma whenE_simps [simp]: "whenE True m = m" "whenE False m = ret ()"
  by (simp_all add: whenE_def)

subsection \<open>Weakest preconditions\<close>

text \<open>
  \<open>wp m Q s\<close>: run from \<open>s\<close>, \<open>m\<close> returns, and its result and final state satisfy \<open>Q\<close>.
  \<open>wlp\<close> is the same without the claim that it returns. The rules in \<open>wp_rules\<close> compute
  both over the combinators.
\<close>

definition wp :: "('s, 'a) op \<Rightarrow> ('a \<Rightarrow> 's \<Rightarrow> bool) \<Rightarrow> 's \<Rightarrow> bool" where
  "wp m Q s = (case m s of Inl _ \<Rightarrow> False | Inr (x, t) \<Rightarrow> Q x t)"

definition wlp :: "('s, 'a) op \<Rightarrow> ('a \<Rightarrow> 's \<Rightarrow> bool) \<Rightarrow> 's \<Rightarrow> bool" where
  "wlp m Q s = (case m s of Inl _ \<Rightarrow> True | Inr (x, t) \<Rightarrow> Q x t)"

named_theorems wp_rules \<open>weakest preconditions of the combinators\<close>

lemma wp_ret [wp_rules]: "wp (ret x) Q s = Q x s"
  by (simp add: wp_def op_defs)

lemma wp_fail [wp_rules]: "wp (fail e) Q s = False"
  by (simp add: wp_def op_defs)

lemma wp_bindE [wp_rules]: "wp (bindE m f) Q s = wp m (\<lambda>x. wp (f x) Q) s"
  by (simp add: wp_def bindE_def split: sum.splits)

lemma wp_getsE [wp_rules]: "wp (getsE f) Q s = Q (f s) s"
  by (simp add: wp_def op_defs)

lemma wp_modE [wp_rules]: "wp (modE f) Q s = Q () (f s)"
  by (simp add: wp_def op_defs)

lemma wp_assertE [wp_rules]: "wp (assertE w P) Q s = (P s \<and> Q () s)"
  by (simp add: wp_def assertE_def)

lemma wlp_ret [wp_rules]: "wlp (ret x) Q s = Q x s"
  by (simp add: wlp_def op_defs)

lemma wlp_fail [wp_rules]: "wlp (fail e) Q s = True"
  by (simp add: wlp_def op_defs)

lemma wlp_bindE [wp_rules]: "wlp (bindE m f) Q s = wlp m (\<lambda>x. wlp (f x) Q) s"
  by (simp add: wlp_def bindE_def split: sum.splits)

lemma wlp_getsE [wp_rules]: "wlp (getsE f) Q s = Q (f s) s"
  by (simp add: wlp_def op_defs)

lemma wlp_modE [wp_rules]: "wlp (modE f) Q s = Q () (f s)"
  by (simp add: wlp_def op_defs)

lemma wlp_assertE [wp_rules]: "wlp (assertE w P) Q s = (P s \<longrightarrow> Q () s)"
  by (simp add: wlp_def assertE_def)

lemma wp_cong_post: "wp m Q s \<Longrightarrow> (\<And>x t. m s = Inr (x, t) \<Longrightarrow> Q x t \<Longrightarrow> R x t) \<Longrightarrow> wp m R s"
  by (auto simp: wp_def split: sum.splits)

lemma wlp_cong_post: "wlp m Q s \<Longrightarrow> (\<And>x t. m s = Inr (x, t) \<Longrightarrow> Q x t \<Longrightarrow> R x t) \<Longrightarrow> wlp m R s"
  by (auto simp: wlp_def split: sum.splits)

lemma wp_iff: "wp m Q s \<longleftrightarrow> (\<exists>x t. m s = Inr (x, t) \<and> Q x t)"
  by (auto simp: wp_def split: sum.splits)

lemma wlp_iff: "wlp m Q s \<longleftrightarrow> (\<forall>x t. m s = Inr (x, t) \<longrightarrow> Q x t)"
  by (auto simp: wlp_def split: sum.splits)

text \<open>A loop that keeps an invariant of the state.\<close>

lemma wlp_forE_inv:
  assumes "\<And>i s. i \<in> set is \<Longrightarrow> I s \<Longrightarrow> wlp (body i) (\<lambda>_. I) s" and "I s"
  shows "wlp (forE is body) (\<lambda>_. I) s"
  using assms
proof (induction "is" arbitrary: s)
  case Nil
  then show ?case by (simp add: wp_rules)
next
  case (Cons i "is")
  have "wlp (body i) (\<lambda>_. I) s" using Cons.prems by simp
  moreover have "wlp (forE is body) (\<lambda>_. I) t" if "I t" for t
    using Cons.IH Cons.prems(1) that by simp
  ultimately show ?case by (auto simp: wp_rules intro: wlp_cong_post)
qed

subsection \<open>Flag words\<close>

lemma and_or_absorb [simp]: "((x :: 'a::len word) OR y) AND y = y"
  by (rule bit_eqI) (auto simp: bit_simps)

lemma and_not_and [simp]: "(x AND NOT y) AND (y :: 'a::len word) = 0"
  by (rule bit_eqI) (auto simp: bit_simps)

text \<open>Clearing the only flag that can be set leaves nothing.\<close>

lemma only_flag: "(f :: 'a::len word) AND NOT b = 0 \<Longrightarrow> f AND b = f"
  by (rule bit_eqI) (metis bit_0_eq bit_and_iff bit_not_iff bot_apply bot_bool_def)

end
