(* ===== verification/Memory.thy ===== *)
theory Memory
  imports Prelude
begin

section \<open>Memory and the string routines\<close>

text \<open>
  The flat 32-bit memory of the machine as a function from addresses to bytes, little-endian
  access to 32- and 64-bit values, the routines of lib/string.asm and lib/memstring.c
  as loops over that memory, and the layout of a \<open>MESSAGE\<close> (include/msg.h) in it.
  Addresses wrap at \<open>2 ^ 32\<close>, as the registers do. A region \<open>region a n\<close> is the
  \<open>n\<close> bytes from \<open>a\<close> on; the copy lemmas are stated over disjoint regions.
\<close>

type_synonym mem = "addr \<Rightarrow> byte"

definition region :: "addr \<Rightarrow> nat \<Rightarrow> addr set" where
  "region a n = {x. unat (x - a) < n}"

definition rd32 :: "mem \<Rightarrow> addr \<Rightarrow> u32" where
  "rd32 m a = ucast (m a) OR push_bit 8 (ucast (m (a + 1)))
     OR push_bit 16 (ucast (m (a + 2))) OR push_bit 24 (ucast (m (a + 3)))"

definition rd16 :: "mem \<Rightarrow> addr \<Rightarrow> u16" where
  "rd16 m a = ucast (m a) OR push_bit 8 (ucast (m (a + 1)))"

definition wr32 :: "mem \<Rightarrow> addr \<Rightarrow> u32 \<Rightarrow> mem" where
  "wr32 m a v = m(a := ucast v, a + 1 := ucast (drop_bit 8 v),
     a + 2 := ucast (drop_bit 16 v), a + 3 := ucast (drop_bit 24 v))"

definition rd64 :: "mem \<Rightarrow> addr \<Rightarrow> u64" where
  "rd64 m a = ucast (rd32 m a) OR push_bit 32 (ucast (rd32 m (a + 4)))"

definition wr64 :: "mem \<Rightarrow> addr \<Rightarrow> u64 \<Rightarrow> mem" where
  "wr64 m a v = wr32 (wr32 m a (ucast v)) (a + 4) (ucast (drop_bit 32 v))"

subsection \<open>lib/string.asm\<close>

text \<open>The counter \<open>ecx\<close> of the copy and fill loops is the \<open>nat\<close> argument.\<close>

fun memcpy :: "nat \<Rightarrow> addr \<Rightarrow> addr \<Rightarrow> mem \<Rightarrow> mem" where
  "memcpy 0 edi esi m = m"
| "memcpy (Suc ecx) edi esi m = memcpy ecx (edi + 1) (esi + 1) (m(edi := m esi))"

text \<open>The bytes of a local array.\<close>

primrec poke_bytes :: "mem \<Rightarrow> addr \<Rightarrow> byte list \<Rightarrow> mem" where
  "poke_bytes m a [] = m"
| "poke_bytes m a (b # bs) = poke_bytes (m(a := b)) (a + 1) bs"

fun memset :: "nat \<Rightarrow> addr \<Rightarrow> byte \<Rightarrow> mem \<Rightarrow> mem" where
  "memset 0 edi dl m = m"
| "memset (Suc ecx) edi dl m = memset ecx (edi + 1) dl (m(edi := dl))"

text \<open>\<open>phys_copy\<close> is \<open>memcpy\<close>; its size is an \<open>int\<close>, and the loop counts it down as 32 bits.\<close>

definition phys_copy :: "addr \<Rightarrow> addr \<Rightarrow> int \<Rightarrow> mem \<Rightarrow> mem" where
  "phys_copy dst src n m = memcpy (unat (u32_int n)) dst src m"

partial_function (option) strcpy :: "addr \<Rightarrow> addr \<Rightarrow> mem \<Rightarrow> mem option" where
  "strcpy edi esi m =
     (if m esi \<noteq> 0 then strcpy (edi + 1) (esi + 1) (m(edi := m esi))
      else Some (m(edi := m esi)))"

partial_function (option) strlen_from :: "u32 \<Rightarrow> addr \<Rightarrow> mem \<Rightarrow> u32 option" where
  "strlen_from eax esi m =
     (if m esi = 0 then Some eax else strlen_from (eax + 1) (esi + 1) m)"

definition strlen :: "addr \<Rightarrow> mem \<Rightarrow> u32 option" where
  "strlen p m = strlen_from 0 p m"

subsection \<open>lib/memstring.c\<close>

text \<open>\<open>char\<close> is signed on this target, so the differences are of signed bytes.\<close>

fun memcmp_loop :: "nat \<Rightarrow> addr \<Rightarrow> addr \<Rightarrow> mem \<Rightarrow> int" where
  "memcmp_loop 0 p1 p2 m = 0"
| "memcmp_loop (Suc n) p1 p2 m =
     (if m p1 \<noteq> m p2 then sint (m p1) - sint (m p2) else memcmp_loop n (p1 + 1) (p2 + 1) m)"

definition memcmp :: "addr \<Rightarrow> addr \<Rightarrow> int \<Rightarrow> mem \<Rightarrow> int" where
  "memcmp s1 s2 n m =
     (if s1 = 0 \<or> s2 = 0 then sint (s1 - s2) else memcmp_loop (nat n) s1 s2 m)"

partial_function (option) strcmp_loop :: "addr \<Rightarrow> addr \<Rightarrow> mem \<Rightarrow> int option" where
  "strcmp_loop p1 p2 m =
     (if m p1 \<noteq> 0 \<and> m p2 \<noteq> 0 \<and> m p1 = m p2 then strcmp_loop (p1 + 1) (p2 + 1) m
      else Some (sint (m p1) - sint (m p2)))"

definition strcmp :: "addr \<Rightarrow> addr \<Rightarrow> mem \<Rightarrow> int option" where
  "strcmp s1 s2 m = (if s1 = 0 \<or> s2 = 0 then Some (sint (s1 - s2)) else strcmp_loop s1 s2 m)"

partial_function (option) str_end :: "addr \<Rightarrow> mem \<Rightarrow> addr option" where
  "str_end p1 m = (if m p1 \<noteq> 0 then str_end (p1 + 1) m else Some p1)"

partial_function (option) strcat_loop :: "addr \<Rightarrow> addr \<Rightarrow> mem \<Rightarrow> mem option" where
  "strcat_loop p1 p2 m =
     (if m p2 \<noteq> 0 then strcat_loop (p1 + 1) (p2 + 1) (m(p1 := m p2)) else Some (m(p1 := 0)))"

text \<open>\<open>strcat\<close> returns its first argument, or null when an argument is null.\<close>

definition strcat :: "addr \<Rightarrow> addr \<Rightarrow> mem \<Rightarrow> (addr \<times> mem) option" where
  "strcat s1 s2 m =
     (if s1 = 0 \<or> s2 = 0 then Some (0, m)
      else case str_end s1 m of None \<Rightarrow> None
        | Some p1 \<Rightarrow> (case strcat_loop p1 s2 m of None \<Rightarrow> None | Some m' \<Rightarrow> Some (s1, m')))"

subsection \<open>MESSAGE (include/msg.h)\<close>

text \<open>
  The members of the union that the kernel uses are those of \<open>struct mess3\<close>; \<open>mess1\<close> and
  \<open>mess2\<close> are never accessed. Offsets are those of the i386 ABI: 48 bytes in all.
\<close>

record message =
  m_source :: int
  m_type :: int
  m3i1 :: int
  m3i2 :: int
  m3i3 :: int
  m3i4 :: int
  m3l1 :: u64
  m3l2 :: u64
  m3p1 :: addr
  m3p2 :: addr

abbreviation (input) MESSAGE_SIZE :: nat where
  "MESSAGE_SIZE \<equiv> 48"

definition get_msg :: "mem \<Rightarrow> addr \<Rightarrow> message" where
  "get_msg m a = \<lparr> m_source = sint (rd32 m a), m_type = sint (rd32 m (a + 4)),
     m3i1 = sint (rd32 m (a + 8)), m3i2 = sint (rd32 m (a + 12)),
     m3i3 = sint (rd32 m (a + 16)), m3i4 = sint (rd32 m (a + 20)),
     m3l1 = rd64 m (a + 24), m3l2 = rd64 m (a + 32),
     m3p1 = rd32 m (a + 40), m3p2 = rd32 m (a + 44) \<rparr>"

definition put_msg :: "mem \<Rightarrow> addr \<Rightarrow> message \<Rightarrow> mem" where
  "put_msg m a x =
     wr32 (wr32 (wr64 (wr64 (wr32 (wr32 (wr32 (wr32 (wr32 (wr32 m
       a (u32_int (m_source x))) (a + 4) (u32_int (m_type x)))
       (a + 8) (u32_int (m3i1 x))) (a + 12) (u32_int (m3i2 x)))
       (a + 16) (u32_int (m3i3 x))) (a + 20) (u32_int (m3i4 x)))
       (a + 24) (m3l1 x)) (a + 32) (m3l2 x)) (a + 40) (m3p1 x)) (a + 44) (m3p2 x)"

text \<open>The names include/msg.h gives the members.\<close>

abbreviation (input) msg_FD :: "message \<Rightarrow> int" where "msg_FD \<equiv> m3i1"
abbreviation (input) msg_FLAGS :: "message \<Rightarrow> int" where "msg_FLAGS \<equiv> m3i1"
abbreviation (input) msg_STATUS :: "message \<Rightarrow> int" where "msg_STATUS \<equiv> m3i1"
abbreviation (input) msg_RETVAL :: "message \<Rightarrow> int" where "msg_RETVAL \<equiv> m3i1"
abbreviation (input) msg_NAME_LEN :: "message \<Rightarrow> int" where "msg_NAME_LEN \<equiv> m3i2"
abbreviation (input) msg_CNT :: "message \<Rightarrow> int" where "msg_CNT \<equiv> m3i2"
abbreviation (input) msg_REQUEST :: "message \<Rightarrow> int" where "msg_REQUEST \<equiv> m3i2"
abbreviation (input) msg_PID :: "message \<Rightarrow> int" where "msg_PID \<equiv> m3i2"
abbreviation (input) msg_PROC_NR :: "message \<Rightarrow> int" where "msg_PROC_NR \<equiv> m3i3"
abbreviation (input) msg_BUF_LEN :: "message \<Rightarrow> int" where "msg_BUF_LEN \<equiv> m3i3"
abbreviation (input) msg_DEVICE :: "message \<Rightarrow> int" where "msg_DEVICE \<equiv> m3i4"
abbreviation (input) msg_POSITION :: "message \<Rightarrow> u64" where "msg_POSITION \<equiv> m3l1"
abbreviation (input) msg_PATHNAME :: "message \<Rightarrow> addr" where "msg_PATHNAME \<equiv> m3p1"
abbreviation (input) msg_BUF :: "message \<Rightarrow> addr" where "msg_BUF \<equiv> m3p2"

definition zero_msg :: message where
  "zero_msg = \<lparr> m_source = 0, m_type = 0, m3i1 = 0, m3i2 = 0, m3i3 = 0, m3i4 = 0,
     m3l1 = 0, m3l2 = 0, m3p1 = 0, m3p2 = 0 \<rparr>"

subsection \<open>Regions, copies and little-endian access\<close>

lemma region_0 [simp]: "region a 0 = {}"
  by (simp add: region_def)

lemma wrap_apart:
  fixes A B :: nat
  assumes A: "A = (B + D) mod M" and B: "B = (A + E) mod M" and n: "A < n" "B < n" "n \<le> D" "n \<le> E"
    and M: "D < M" "E < M"
  shows False
proof -
  have "A < M" "B < M" using n M by linarith+
  have "\<not> B + D < M"
  proof
    assume "B + D < M"
    then have "A = B + D" using A by simp
    then show False using n by linarith
  qed
  then have "A = B + D - M" using A \<open>B < M\<close> M by (simp add: mod_if)
  moreover have "\<not> A + E < M"
  proof
    assume "A + E < M"
    then have "B = A + E" using B by simp
    then show False using n by linarith
  qed
  then have "B = A + E - M" using B \<open>A < M\<close> M by (simp add: mod_if)
  ultimately show False using \<open>\<not> B + D < M\<close> \<open>\<not> A + E < M\<close> M by linarith
qed

lemma region_disjoint:
  assumes "n \<le> unat (b - a)" "n \<le> unat (a - b)"
  shows "region a n \<inter> region b n = {}"
proof -
  have False if x: "unat (x - a) < n" "unat (x - b) < n" for x
  proof (rule wrap_apart)
    show "unat (x - a) = (unat (x - b) + unat (b - a)) mod 2 ^ 32"
      using unat_word_ariths(1)[of "x - b" "b - a"] by simp
    show "unat (x - b) = (unat (x - a) + unat (a - b)) mod 2 ^ 32"
      using unat_word_ariths(1)[of "x - a" "a - b"] by simp
    show "unat (b - a) < 2 ^ 32" "unat (a - b) < 2 ^ 32"
      using unsigned_less[of "b - a"] unsigned_less[of "a - b"] by simp_all
  qed (use x assms in simp_all)
  then show ?thesis by (auto simp: region_def)
qed

lemma region_Suc: "Suc n \<le> 2 ^ 32 \<Longrightarrow> region a (Suc n) = insert a (region (a + 1) n)"
proof -
  assume n: "Suc n \<le> 2 ^ 32"
  have "unat (x - a) < Suc n \<longleftrightarrow> x = a \<or> unat (x - (a + 1)) < n" for x :: addr
  proof (cases "x = a")
    case False
    then have "x - a \<noteq> 0" by simp
    then have "unat (x - a - 1) = unat (x - a) - 1" by (rule unat_minus_one)
    moreover have "unat (x - a) \<noteq> 0" using \<open>x - a \<noteq> 0\<close> by (simp add: unat_eq_0)
    ultimately show ?thesis using False by (auto simp: diff_diff_add)
  qed auto
  then show ?thesis by (auto simp: region_def)
qed

lemma region_not_before: "Suc n \<le> 2 ^ 32 \<Longrightarrow> a \<notin> region (a + 1) n"
  by (simp add: region_def unsigned_minus_1_eq_mask mask_eq_exp_minus_1)

lemma memcpy_eq:
  assumes "n \<le> 2 ^ 32" "region d n \<inter> region s n = {}"
  shows "memcpy n d s m = (\<lambda>x. if x \<in> region d n then m (s + (x - d)) else m x)"
  using assms
proof (induction n d s m rule: memcpy.induct)
  case (1 d s m)
  then show ?case by simp
next
  case (2 n d s m)
  from 2(2,3) have sub: "n \<le> 2 ^ 32" "region (d + 1) n \<inter> region (s + 1) n = {}"
    by (auto simp: region_Suc)
  have "d \<notin> region (s + 1) n" "d \<noteq> s" using 2(2,3) by (auto simp: region_Suc)
  moreover have "s + 1 + (x - (d + 1)) \<in> region (s + 1) n \<longleftrightarrow> x \<in> region (d + 1) n" for x
    by (simp add: region_def diff_diff_add)
  moreover have "s + 1 + (x - (d + 1)) = s + (x - d)" for x by (simp add: algebra_simps)
  moreover have "s + (x - d) \<noteq> d" if "x \<in> region (d + 1) n" for x
    using that \<open>d \<notin> region (s + 1) n\<close>
      \<open>s + 1 + (x - (d + 1)) \<in> region (s + 1) n \<longleftrightarrow> x \<in> region (d + 1) n\<close>
    by (auto simp: algebra_simps)
  ultimately show ?case
    using 2(2) region_not_before[OF 2(2), of d]
    by (intro ext) (auto simp: region_Suc 2(1)[OF sub])
qed

lemma rd32_wr32_same [simp]: "rd32 (wr32 m a v) a = v"
proof (rule bit_word_eqI)
  fix n assume n: "n < LENGTH(32)"
  consider "n < 8" | "8 \<le> n" "n < 16" | "16 \<le> n" "n < 24" | "24 \<le> n" "n < 32" using n by force
  then show "bit (rd32 (wr32 m a v) a) n = bit v n"
    by cases (auto simp: rd32_def wr32_def bit_simps)
qed

lemma apart_ne: assumes "4 \<le> unat (a - b)" "4 \<le> unat (b - (a::addr))" "i < 4" "j < 4"
  shows "a + i \<noteq> b + j"
proof
  assume "a + i = b + j"
  then have e: "a - b = j - i" "b - a = i - j" by (simp_all add: algebra_simps)
  show False
  proof (cases "i \<le> j")
    case True
    then have "unat (j - i) \<le> unat j" by (simp add: unat_sub)
    then show False using e assms by (simp add: word_less_nat_alt)
  next
    case False
    then have "unat (i - j) \<le> unat i" by (simp add: unat_sub)
    then show False using e assms by (simp add: word_less_nat_alt)
  qed
qed

lemma rd32_wr32_other:
  assumes "4 \<le> unat (a - b)" "4 \<le> unat (b - a)"
  shows "rd32 (wr32 m b v) a = rd32 m a"
proof -
  note ne = apart_ne[OF assms]
  have "a \<noteq> b" "a + 1 \<noteq> b" "a + 2 \<noteq> b" "a + 3 \<noteq> b"
     "a \<noteq> b + 1" "a + 1 \<noteq> b + 1" "a + 2 \<noteq> b + 1" "a + 3 \<noteq> b + 1"
     "a \<noteq> b + 2" "a + 1 \<noteq> b + 2" "a + 2 \<noteq> b + 2" "a + 3 \<noteq> b + 2"
     "a \<noteq> b + 3" "a + 1 \<noteq> b + 3" "a + 2 \<noteq> b + 3" "a + 3 \<noteq> b + 3"
    using ne[of 0 0] ne[of 1 0] ne[of 2 0] ne[of 3 0] ne[of 0 1] ne[of 1 1] ne[of 2 1] ne[of 3 1]
       ne[of 0 2] ne[of 1 2] ne[of 2 2] ne[of 3 2] ne[of 0 3] ne[of 1 3] ne[of 2 3] ne[of 3 3]
    by simp_all
  then show ?thesis by (simp add: rd32_def wr32_def)
qed

lemma rd64_wr64_same [simp]: "rd64 (wr64 m a v) a = v"
proof (rule bit_word_eqI)
  fix n assume n: "n < LENGTH(64)"
  consider "n < 32" | "32 \<le> n" "n < 64" using n by force
  then show "bit (rd64 (wr64 m a v) a) n = bit v n"
    by cases (auto simp: rd64_def wr64_def rd32_wr32_other bit_simps)
qed

lemma rd32_cong: "m a = m' b \<Longrightarrow> m (a + 1) = m' (b + 1) \<Longrightarrow> m (a + 2) = m' (b + 2) \<Longrightarrow>
   m (a + 3) = m' (b + 3) \<Longrightarrow> rd32 m a = rd32 m' b"
  by (simp add: rd32_def)

text \<open>A copied message reads as the original.\<close>

lemma region_offset: "unat k < n \<Longrightarrow> a + k \<in> region a n"
  by (simp add: region_def)

lemma get_msg_memcpy:
  assumes "region d MESSAGE_SIZE \<inter> region s MESSAGE_SIZE = {}"
  shows "get_msg (memcpy MESSAGE_SIZE d s m) d = get_msg m s"
proof -
  have at: "memcpy MESSAGE_SIZE d s m (d + k) = m (s + k)" if "unat k < MESSAGE_SIZE" for k
    using that by (simp add: memcpy_eq assms region_offset)
  have "rd32 (memcpy MESSAGE_SIZE d s m) (d + k) = rd32 m (s + k)" if "unat k < 45" for k
  proof (rule rd32_cong)
    have "unat (k + j) < MESSAGE_SIZE" if "unat j < 4" for j
      using that \<open>unat k < 45\<close> by (simp add: unat_word_ariths)
    then show "memcpy MESSAGE_SIZE d s m (d + k) = m (s + k)"
      "memcpy MESSAGE_SIZE d s m (d + k + 1) = m (s + k + 1)"
      "memcpy MESSAGE_SIZE d s m (d + k + 2) = m (s + k + 2)"
      "memcpy MESSAGE_SIZE d s m (d + k + 3) = m (s + k + 3)"
      using that at[of k] at[of "k + 1"] at[of "k + 2"] at[of "k + 3"] by (simp_all add: add.assoc)
  qed
  from this[of 0] this show ?thesis by (simp add: get_msg_def rd64_def add.assoc)
qed

definition msg_ok :: "message \<Rightarrow> bool" where
  "msg_ok x = (\<forall>i \<in> {m_source x, m_type x, m3i1 x, m3i2 x, m3i3 x, m3i4 x}. s32 i = i)"

lemma rd32_wr64_other:
  assumes "4 \<le> unat (a - b)" "4 \<le> unat (b - a)" "4 \<le> unat (a - (b + 4))" "4 \<le> unat (b + 4 - a)"
  shows "rd32 (wr64 m b v) a = rd32 m a"
  using assms by (simp add: wr64_def rd32_wr32_other)

lemma split_u64: "ucast (ucast v :: u32) OR push_bit 32 (ucast (ucast (drop_bit 32 v) :: u32)) = (v :: u64)"
proof (rule bit_word_eqI)
  fix n assume n: "n < LENGTH(64)"
  consider "n < 32" | "32 \<le> n" "n < 64" using n by force
  then show "bit (ucast (ucast v :: u32) OR push_bit 32 (ucast (ucast (drop_bit 32 v) :: u32)) :: u64) n = bit v n"
    by cases (auto simp: bit_simps)
qed

lemma get_put_msg: "msg_ok x \<Longrightarrow> get_msg (put_msg m a x) a = x"
  by (cases x) (simp add: split_u64 get_msg_def put_msg_def msg_ok_def rd64_def wr64_def rd32_wr32_other u32_int_def s32_def)

lemma msg_ok_get_msg [simp]: "msg_ok (get_msg m a)"
  by (simp add: msg_ok_def get_msg_def s32_def)

subsection \<open>Strings in memory\<close>

text \<open>\<open>cstr m a bs\<close>: the bytes \<open>bs\<close>, none of them zero, lie at \<open>a\<close> followed by a zero byte.\<close>

fun cstr :: "mem \<Rightarrow> addr \<Rightarrow> byte list \<Rightarrow> bool" where
  "cstr m a [] = (m a = 0)"
| "cstr m a (b # bs) = (b \<noteq> 0 \<and> m a = b \<and> cstr m (a + 1) bs)"

lemma cstr_unique: "cstr m a xs \<Longrightarrow> cstr m a ys \<Longrightarrow> xs = ys"
proof (induction xs arbitrary: a ys)
  case Nil
  then show ?case by (cases ys) auto
next
  case (Cons x xs)
  then show ?case by (cases ys) auto
qed

lemma cstr_length: "cstr m a xs \<Longrightarrow> length xs < 2 ^ 32"
proof (rule ccontr)
  assume c: "cstr m a xs" and "\<not> length xs < 2 ^ 32"
  then have l: "2 ^ 32 \<le> length xs" by simp
  have nz: "i < length ys \<Longrightarrow> cstr m b ys \<Longrightarrow> m (b + of_nat i) \<noteq> 0" for i b ys
  proof (induction ys arbitrary: i b)
    case (Cons y ys)
    then show ?case by (cases i) (auto simp: add.assoc [symmetric] dest: Cons.IH)
  qed simp
  have e: "m (a + of_nat (length xs)) = 0" using c
    by (induction xs arbitrary: a) (auto simp: add.assoc [symmetric])
  have "unat (of_nat (length xs) :: addr) = unat (of_nat (length xs mod 2 ^ 32) :: addr)"
    by (simp add: unat_of_nat)
  then have "(of_nat (length xs) :: addr) = of_nat (length xs mod 2 ^ 32)"
    by (rule unsigned_word_eqI)
  moreover have "length xs mod 2 ^ 32 < length xs"
    using l by (intro less_le_trans[OF mod_less_divisor[of "2 ^ 32"]]) simp_all
  ultimately show False using nz[OF _ c, of "length xs mod 2 ^ 32"] e by simp
qed

lemma strlen_from_cstr: "cstr m a xs \<Longrightarrow> strlen_from n a m = Some (n + of_nat (length xs))"
  by (induction xs arbitrary: a n) (auto simp: strlen_from.simps algebra_simps)

lemma strlen_cstr: "cstr m a xs \<Longrightarrow> strlen a m = Some (of_nat (length xs))"
  by (simp add: strlen_def strlen_from_cstr)

fun str_diff :: "byte list \<Rightarrow> byte list \<Rightarrow> int" where
  "str_diff (x # xs) (y # ys) = (if x = y then str_diff xs ys else sint x - sint y)"
| "str_diff [] (y # ys) = - sint y"
| "str_diff (x # xs) [] = sint x"
| "str_diff [] [] = 0"

lemma strcmp_loop_cstr:
  "cstr m a xs \<Longrightarrow> cstr m b ys \<Longrightarrow> strcmp_loop a b m = Some (str_diff xs ys)"
  by (induction xs ys arbitrary: a b rule: str_diff.induct) (auto simp: strcmp_loop.simps)

lemma str_diff_eq_0: "0 \<notin> set xs \<Longrightarrow> 0 \<notin> set ys \<Longrightarrow> str_diff xs ys = 0 \<longleftrightarrow> xs = ys"
  by (induction xs ys rule: str_diff.induct) (auto simp: signed_eq_0_iff dest: signed_word_eqI)

lemma cstr_nonzero: "cstr m a xs \<Longrightarrow> 0 \<notin> set xs"
  by (induction xs arbitrary: a) auto

lemma cstr_upd_other: "cstr m a xs \<Longrightarrow> p \<notin> region a (Suc (length xs)) \<Longrightarrow> cstr (m(p := b)) a xs"
proof (induction xs arbitrary: a)
  case Nil
  then show ?case by (auto simp: region_def)
next
  case (Cons x xs)
  then have l: "Suc (length xs) < 2 ^ 32" using cstr_length[OF Cons.prems(1)] by simp
  then show ?case using Cons by (auto simp: region_Suc[of "Suc (length xs)"])
qed

text \<open>
  \<open>strcpy\<close> and the loop of \<open>strcat\<close> are the same loop: copy the bytes before the terminator, then
  write a terminator.
\<close>

lemma copy_loop_cstr:
  assumes f: "\<And>d s m. f d s m = (if m s \<noteq> 0 then f (d + 1) (s + 1) (m(d := m s)) else Some (m(d := 0)))"
  shows "cstr m s xs \<Longrightarrow> region d (Suc (length xs)) \<inter> region s (Suc (length xs)) = {} \<Longrightarrow>
    \<exists>m'. f d s m = Some m' \<and> cstr m' d xs \<and> (\<forall>x. x \<notin> region d (Suc (length xs)) \<longrightarrow> m' x = m x)"
proof (induction xs arbitrary: d s m)
  case Nil
  then show ?case by (auto simp: f[of d s m] region_def)
next
  case (Cons x xs)
  have len: "Suc (Suc (length xs)) \<le> 2 ^ 32" using cstr_length[OF Cons.prems(1)] by simp
  note reg = region_Suc[OF len]
  have dis: "region (d + 1) (Suc (length xs)) \<inter> region (s + 1) (Suc (length xs)) = {}"
    and d: "d \<notin> region (s + 1) (Suc (length xs))" using Cons.prems(2) by (auto simp: reg)
  have "cstr (m(d := x)) (s + 1) xs" using Cons.prems(1) d by (simp add: cstr_upd_other)
  from Cons.IH[OF this dis] obtain m' where m': "f (d + 1) (s + 1) (m(d := x)) = Some m'"
    "cstr m' (d + 1) xs" "\<forall>y. y \<notin> region (d + 1) (Suc (length xs)) \<longrightarrow> m' y = (m(d := x)) y" by blast
  moreover have "m' d = x" using m'(3) region_not_before[OF len] by simp
  ultimately show ?case using Cons.prems(1) by (auto simp: f[of d s m] reg)
qed

lemma strcpy_cstr:
  assumes "cstr m s xs" "region d (Suc (length xs)) \<inter> region s (Suc (length xs)) = {}"
  shows "\<exists>m'. strcpy d s m = Some m' \<and> cstr m' d xs \<and>
    (\<forall>x. x \<notin> region d (Suc (length xs)) \<longrightarrow> m' x = m x)"
  by (rule copy_loop_cstr[OF _ assms]) (subst strcpy.simps, simp)

lemma strcat_loop_cstr:
  assumes "cstr m s xs" "region d (Suc (length xs)) \<inter> region s (Suc (length xs)) = {}"
  shows "\<exists>m'. strcat_loop d s m = Some m' \<and> cstr m' d xs \<and>
    (\<forall>x. x \<notin> region d (Suc (length xs)) \<longrightarrow> m' x = m x)"
  by (rule copy_loop_cstr[OF _ assms]) (subst strcat_loop.simps, simp)

lemma str_end_cstr: "cstr m a xs \<Longrightarrow> str_end a m = Some (a + of_nat (length xs))"
  by (induction xs arbitrary: a) (auto simp: str_end.simps algebra_simps)

lemma cstr_append:
  "cstr m (a + of_nat (length xs)) ys \<Longrightarrow> (\<forall>i<length xs. m (a + of_nat i) = xs ! i \<and> xs ! i \<noteq> 0) \<Longrightarrow>
   cstr m a (xs @ ys)"
proof (induction xs arbitrary: a)
  case (Cons x xs)
  have "cstr m (a + 1) (xs @ ys)"
    using Cons.prems by (intro Cons.IH) (auto simp: add.assoc dest: spec[of _ "Suc _"])
  then show ?case using Cons.prems by force
qed simp

lemma cstr_nth: "cstr m a xs \<Longrightarrow> i < length xs \<Longrightarrow> m (a + of_nat i) = xs ! i \<and> xs ! i \<noteq> 0"
proof (induction xs arbitrary: a i)
  case (Cons x xs)
  then show ?case by (cases i) (auto simp: add.assoc [symmetric] dest: Cons.IH)
qed simp


lemma unat_of_nat_add: "n + unat k < 2 ^ 32 \<Longrightarrow> unat (of_nat n + k :: addr) = n + unat k"
  by (simp add: unat_word_ariths unat_of_nat)

lemma region_tail:
  assumes "n + k \<le> 2 ^ 32" "x \<in> region (a + of_nat n) k"
  shows "x \<in> region a (n + k)" and "i < n \<Longrightarrow> x \<noteq> a + of_nat i"
proof -
  let ?d = "x - (a + of_nat n)"
  have "n + unat ?d < 2 ^ 32" using assms by (simp add: region_def)
  then have "unat (of_nat n + ?d) = n + unat ?d" by (rule unat_of_nat_add)
  moreover have "of_nat n + ?d = x - a" by simp
  ultimately have u: "unat (x - a) = n + unat ?d" by simp
  then show "x \<in> region a (n + k)" using assms(2) by (simp add: region_def)
  show "i < n \<Longrightarrow> x \<noteq> a + of_nat i"
    using u assms by (auto simp: unat_of_nat)
qed

lemma strcat_cstr:
  assumes "cstr m s1 xs" "cstr m s2 ys" "s1 \<noteq> 0" "s2 \<noteq> 0"
    and "length xs + length ys < 2 ^ 32"
    and "region s1 (length xs + Suc (length ys)) \<inter> region s2 (Suc (length ys)) = {}"
  shows "\<exists>m'. strcat s1 s2 m = Some (s1, m') \<and> cstr m' s1 (xs @ ys) \<and>
    (\<forall>x. x \<notin> region s1 (length xs + Suc (length ys)) \<longrightarrow> m' x = m x)"
proof -
  let ?e = "s1 + of_nat (length xs)"
  have len: "length xs + Suc (length ys) \<le> 2 ^ 32" using assms(5) by simp
  note tail = region_tail[OF len]
  have "region ?e (Suc (length ys)) \<inter> region s2 (Suc (length ys)) = {}" using tail(1) assms(6) by blast
  from strcat_loop_cstr[OF assms(2) this] obtain m' where
    m': "strcat_loop ?e s2 m = Some m'" "cstr m' ?e ys"
      "\<forall>x. x \<notin> region ?e (Suc (length ys)) \<longrightarrow> m' x = m x" by blast
  have "cstr m' s1 (xs @ ys)"
    using m'(2,3) cstr_nth[OF assms(1)] tail(2) by (intro cstr_append) force+
  then show ?thesis using m' tail(1) assms(3,4) by (auto simp: strcat_def str_end_cstr[OF assms(1)])
qed

subsection \<open>Regions, and what a write leaves alone\<close>

lemma region_iff: "n \<le> 2 ^ 32 \<Longrightarrow> x \<in> region a n \<longleftrightarrow> (\<exists>j < n. x = a + of_nat j)"
proof
  assume "n \<le> 2 ^ 32" "x \<in> region a n"
  then show "\<exists>j < n. x = a + of_nat j" by (intro exI[of _ "unat (x - a)"]) (simp add: region_def)
qed (auto simp: region_def unat_of_nat)

lemma region_apart:
  assumes "k + n \<le> l" "l + p \<le> 2 ^ 32"
  shows "region (a + of_nat k) n \<inter> region (a + of_nat l) p = {}"
proof -
  have "of_nat (k + i) \<noteq> (of_nat (l + j) :: addr)" if "i < n" "j < p" for i j
  proof -
    have "unat (of_nat (k + i) :: addr) = k + i" "unat (of_nat (l + j) :: addr) = l + j"
      using that assms by (simp_all only: unat_of_nat, simp_all)
    then show ?thesis using that assms(1) by auto
  qed
  then show ?thesis using assms by (fastforce simp: region_iff add.assoc of_nat_add [symmetric] simp del: of_nat_add)
qed

lemma region_sub:
  assumes "b = a + of_nat k" "k + n \<le> N" "N \<le> 2 ^ 32"
  shows "region b n \<subseteq> region a N"
proof
  fix x assume "x \<in> region b n"
  then have "x \<in> region a (k + n)" using assms by (intro region_tail(1)) simp_all
  then show "x \<in> region a N" using assms(2) by (simp add: region_def)
qed

lemma wr32_other: "x \<notin> region p 4 \<Longrightarrow> wr32 m p v x = m x"
  by (auto simp: wr32_def region_def)

lemma rd32_region: "\<forall>x \<in> region p 4. m' x = m x \<Longrightarrow> rd32 m' p = rd32 m p"
  by (rule rd32_cong) (auto simp: region_def)

lemma cstr_region: "cstr m a xs \<Longrightarrow> \<forall>x \<in> region a (Suc (length xs)). m' x = m x \<Longrightarrow> cstr m' a xs"
proof (induction xs arbitrary: a)
  case Nil
  then show ?case by (simp add: region_def)
next
  case (Cons x xs)
  have "Suc (Suc (length xs)) \<le> 2 ^ 32" using cstr_length[OF Cons.prems(1)] by simp
  from region_Suc[OF this] show ?case using Cons by simp
qed

lemma cstr_end: "cstr m a xs \<Longrightarrow> m (a + of_nat (length xs)) = 0"
  by (induction xs arbitrary: a) (auto simp: add.assoc [symmetric])

lemma wr32_outside: "x \<notin> region a N \<Longrightarrow> unat k + 4 \<le> N \<Longrightarrow> N \<le> 2 ^ 32 \<Longrightarrow> wr32 m (a + k) v x = m x"
  using region_sub[of "a + k" a "unat k" 4 N] by (intro wr32_other) auto

lemma put_msg_other: "x \<notin> region a MESSAGE_SIZE \<Longrightarrow> put_msg m a msg x = m x"
  using wr32_outside[of x a MESSAGE_SIZE 0] wr32_outside[of x a MESSAGE_SIZE]
  by (simp add: put_msg_def wr64_def add.assoc)

lemma cstrI: "(\<And>i. i < length xs \<Longrightarrow> m (a + of_nat i) = xs ! i \<and> xs ! i \<noteq> 0) \<Longrightarrow> m (a + of_nat (length xs)) = 0 \<Longrightarrow> cstr m a xs"
  using cstr_append[of m a xs "[]"] by simp

end
