(* ===== verification/Protect.thy ===== *)
theory Protect
  imports Memory
begin

section \<open>Segment descriptors, gates and the protected-mode tables\<close>

text \<open>
  include/protect.h and kernel/protect.c: the eight-byte descriptor with its split base and
  limit, the gates of the interrupt descriptor table, and \<open>init_prot\<close>, which fills the
  interrupt table, the TSS descriptor and one LDT descriptor per process. Link-time
  addresses (of the handlers, of \<open>tss\<close> and of \<open>proc_table[i].ldts\<close>) are parameters.
\<close>

record descriptor =
  limit_low :: u16
  base_low :: u16
  base_mid :: byte
  attr1 :: byte
  limit_high_attr2 :: byte
  base_high :: byte

record gate =
  offset_low :: u16
  selector :: u16
  dcount :: byte
  attr :: byte
  offset_high :: u16

abbreviation (input) INDEX_TSS :: nat where "INDEX_TSS \<equiv> 4"
abbreviation (input) INDEX_LDT_FIRST :: nat where "INDEX_LDT_FIRST \<equiv> 5"
abbreviation (input) SELECTOR_FLAT_C :: u16 where "SELECTOR_FLAT_C \<equiv> 0x08"
abbreviation (input) SELECTOR_FLAT_RW :: u16 where "SELECTOR_FLAT_RW \<equiv> 0x10"
abbreviation (input) SELECTOR_LDT_FIRST :: u16 where "SELECTOR_LDT_FIRST \<equiv> 0x28"
abbreviation (input) SELECTOR_KERNEL_CS :: u16 where "SELECTOR_KERNEL_CS \<equiv> SELECTOR_FLAT_C"
abbreviation (input) SELECTOR_KERNEL_DS :: u16 where "SELECTOR_KERNEL_DS \<equiv> SELECTOR_FLAT_RW"
abbreviation (input) DA_32 :: u16 where "DA_32 \<equiv> 0x4000"
abbreviation (input) DA_LIMIT_4K :: u16 where "DA_LIMIT_4K \<equiv> 0x8000"
abbreviation (input) DA_DRW :: u16 where "DA_DRW \<equiv> 0x92"
abbreviation (input) DA_C :: u16 where "DA_C \<equiv> 0x98"
abbreviation (input) DA_LDT :: u16 where "DA_LDT \<equiv> 0x82"
abbreviation (input) DA_386TSS :: u16 where "DA_386TSS \<equiv> 0x89"
abbreviation (input) DA_386IGate :: byte where "DA_386IGate \<equiv> 0x8E"
abbreviation (input) PRIVILEGE_KRNL :: byte where "PRIVILEGE_KRNL \<equiv> 0"
abbreviation (input) PRIVILEGE_TASK :: byte where "PRIVILEGE_TASK \<equiv> 1"
abbreviation (input) PRIVILEGE_USER :: byte where "PRIVILEGE_USER \<equiv> 3"

definition init_descriptor :: "u32 \<Rightarrow> u32 \<Rightarrow> u16 \<Rightarrow> descriptor" where
  "init_descriptor base limit attribute =
     \<lparr> limit_low = ucast (limit AND 0x0FFFF),
       base_low = ucast (base AND 0x0FFFF),
       base_mid = ucast (drop_bit 16 base AND 0x0FF),
       attr1 = ucast (attribute AND 0xFF),
       limit_high_attr2 = ucast ((drop_bit 16 limit AND 0x0F)
         OR ucast (drop_bit 8 attribute AND 0xF0)),
       base_high = ucast (drop_bit 24 base AND 0x0FF) \<rparr>"

text \<open>The base as \<open>ldt_reg_linear\<close> and \<open>seg2linear\<close> put it together.\<close>

definition descriptor_base :: "descriptor \<Rightarrow> u32" where
  "descriptor_base d = push_bit 24 (ucast (base_high d)) OR push_bit 16 (ucast (base_mid d))
     OR ucast (base_low d)"

text \<open>The \<open>reassembly\<close> macro, which adds instead.\<close>

definition reassembly :: "u32 \<Rightarrow> nat \<Rightarrow> u32 \<Rightarrow> nat \<Rightarrow> u32 \<Rightarrow> u32" where
  "reassembly high high_shift mid mid_shift low =
     push_bit high_shift high + push_bit mid_shift mid + low"

definition reassembled_base :: "descriptor \<Rightarrow> u32" where
  "reassembled_base d = reassembly (ucast (base_high d)) 24 (ucast (base_mid d)) 16 (ucast (base_low d))"

definition reassembled_limit :: "descriptor \<Rightarrow> u32" where
  "reassembled_limit d =
     reassembly 0 0 (ucast (limit_high_attr2 d AND 0xF)) 16 (ucast (limit_low d))"

text \<open>\<open>(limit + 1) * (granularity ? 4096 : 1)\<close>, as \<open>do_fork\<close> computes a segment's size.\<close>

definition segment_size :: "descriptor \<Rightarrow> u32" where
  "segment_size d = (reassembled_limit d + 1) *
     (if limit_high_attr2 d AND ucast (drop_bit 8 DA_LIMIT_4K) \<noteq> 0 then 4096 else 1)"

subsection \<open>Gates\<close>

definition init_idt_desc :: "byte \<Rightarrow> u32 \<Rightarrow> byte \<Rightarrow> gate" where
  "init_idt_desc desc_type handler privilege =
     \<lparr> offset_low = ucast (handler AND 0xFFFF),
       selector = SELECTOR_KERNEL_CS,
       dcount = 0,
       attr = desc_type OR push_bit 5 privilege,
       offset_high = ucast (drop_bit 16 handler AND 0xFFFF) \<rparr>"

datatype handler =
    divide_error | single_step_exception | nmi | breakpoint_exception | overflow
  | bounds_check | inval_opcode | copr_not_available | double_fault | copr_seg_overrun
  | inval_tss | segment_not_present | stack_exception | general_protection | page_fault
  | copr_error | hwint nat | sys_call

text \<open>The calls of \<open>init_idt_desc\<close> in \<open>init_prot\<close>, in order: vector, handler, privilege.\<close>

definition idt_calls :: "(nat \<times> handler \<times> byte) list" where
  "idt_calls =
    [ (0x0, divide_error, PRIVILEGE_KRNL),
      (0x1, single_step_exception, PRIVILEGE_KRNL),
      (0x2, nmi, PRIVILEGE_KRNL),
      (0x3, breakpoint_exception, PRIVILEGE_USER),
      (0x4, overflow, PRIVILEGE_USER),
      (0x5, bounds_check, PRIVILEGE_KRNL),
      (0x6, inval_opcode, PRIVILEGE_KRNL),
      (0x7, copr_not_available, PRIVILEGE_KRNL),
      (0x8, double_fault, PRIVILEGE_KRNL),
      (0x9, copr_seg_overrun, PRIVILEGE_KRNL),
      (0xA, inval_tss, PRIVILEGE_KRNL),
      (0xB, segment_not_present, PRIVILEGE_KRNL),
      (0xC, stack_exception, PRIVILEGE_KRNL),
      (0xD, general_protection, PRIVILEGE_KRNL),
      (0xE, page_fault, PRIVILEGE_KRNL),
      (0x10, copr_error, PRIVILEGE_KRNL),
      (0x20 + 0, hwint 0, PRIVILEGE_KRNL), (0x20 + 1, hwint 1, PRIVILEGE_KRNL),
      (0x20 + 2, hwint 2, PRIVILEGE_KRNL), (0x20 + 3, hwint 3, PRIVILEGE_KRNL),
      (0x20 + 4, hwint 4, PRIVILEGE_KRNL), (0x20 + 5, hwint 5, PRIVILEGE_KRNL),
      (0x20 + 6, hwint 6, PRIVILEGE_KRNL), (0x20 + 7, hwint 7, PRIVILEGE_KRNL),
      (0x28 + 0, hwint 8, PRIVILEGE_KRNL), (0x28 + 1, hwint 9, PRIVILEGE_KRNL),
      (0x28 + 2, hwint 10, PRIVILEGE_KRNL), (0x28 + 3, hwint 11, PRIVILEGE_KRNL),
      (0x28 + 4, hwint 12, PRIVILEGE_KRNL), (0x28 + 5, hwint 13, PRIVILEGE_KRNL),
      (0x28 + 6, hwint 14, PRIVILEGE_KRNL), (0x28 + 7, hwint 15, PRIVILEGE_KRNL),
      (0x90, sys_call, PRIVILEGE_USER) ]"

fun fill_idt :: "(handler \<Rightarrow> u32) \<Rightarrow> (nat \<times> handler \<times> byte) list \<Rightarrow> (nat \<Rightarrow> gate) \<Rightarrow> nat \<Rightarrow> gate" where
  "fill_idt addr_of [] idt = idt"
| "fill_idt addr_of ((vec, h, priv) # cs) idt =
     fill_idt addr_of cs (idt(vec := init_idt_desc DA_386IGate (addr_of h) priv))"

subsection \<open>seg2linear and init_prot\<close>

type_synonym gdt = "nat \<Rightarrow> descriptor"

definition seg2linear :: "gdt \<Rightarrow> u16 \<Rightarrow> u32" where
  "seg2linear gdt seg = descriptor_base (gdt (unat (drop_bit 3 seg)))"

definition virt2linear :: "gdt \<Rightarrow> u16 \<Rightarrow> u32 \<Rightarrow> u32" where
  "virt2linear gdt seg off = seg2linear gdt seg + off"

text \<open>
  The loop over the processes. The assertion keeps the LDT descriptors inside the table;
  \<open>sizeof(tss)\<close> is 104 and an LDT holds two descriptors of eight bytes.
\<close>

abbreviation (input) GDT_SIZE :: nat where "GDT_SIZE \<equiv> 128"
abbreviation (input) NR_PROCS_nat :: nat where "NR_PROCS_nat \<equiv> 37"
abbreviation (input) TSS_SIZE :: u32 where "TSS_SIZE \<equiv> 104"

definition ldt_sel_of :: "nat \<Rightarrow> u16" where
  "ldt_sel_of i = SELECTOR_LDT_FIRST + push_bit 3 (of_nat i)"

fun init_ldt_descs :: "(nat \<Rightarrow> u32) \<Rightarrow> nat list \<Rightarrow> (gdt, unit) op" where
  "init_ldt_descs ldts_addr [] = ret ()"
| "init_ldt_descs ldts_addr (i # is) =
     bindE (assertE ''INDEX_LDT_FIRST +i < GDT_SIZE'' (\<lambda>_. INDEX_LDT_FIRST + i < GDT_SIZE)) (\<lambda>_.
     bindE (modE (\<lambda>gdt. gdt(INDEX_LDT_FIRST + i :=
         init_descriptor (virt2linear gdt SELECTOR_KERNEL_DS (ldts_addr i)) (2 * 8 - 1) DA_LDT))) (\<lambda>_.
     init_ldt_descs ldts_addr is))"

definition init_prot_gdt :: "u32 \<Rightarrow> (nat \<Rightarrow> u32) \<Rightarrow> (gdt, unit) op" where
  "init_prot_gdt tss_addr ldts_addr =
     bindE (modE (\<lambda>gdt. gdt(INDEX_TSS :=
       init_descriptor (virt2linear gdt SELECTOR_KERNEL_DS tss_addr) (TSS_SIZE - 1) DA_386TSS))) (\<lambda>_.
     init_ldt_descs ldts_addr [0..<NR_PROCS_nat])"

definition init_prot_idt :: "(handler \<Rightarrow> u32) \<Rightarrow> (nat \<Rightarrow> gate) \<Rightarrow> nat \<Rightarrow> gate" where
  "init_prot_idt addr_of idt = fill_idt addr_of idt_calls idt"

subsection \<open>What the tables hold\<close>

lemma descriptor_base_init [simp]: "descriptor_base (init_descriptor base limit attribute) = base"
proof (rule bit_word_eqI)
  fix n assume n: "n < LENGTH(32)"
  have m: "(0xFFFF::u32) = mask 16" "(0xFF::u32) = mask 8" by (simp_all add: mask_eq_exp_minus_1)
  consider "n < 16" | "16 \<le> n" "n < 24" | "24 \<le> n" "n < 32" using n by force
  then show "bit (descriptor_base (init_descriptor base limit attribute)) n = bit base n"
    by cases (auto simp: descriptor_base_def init_descriptor_def m bit_simps)
qed

lemma reassembled_base_eq [simp]: "reassembled_base d = descriptor_base d"
proof -
  have "push_bit 24 (ucast (base_high d)) + push_bit 16 (ucast (base_mid d)) =
     (push_bit 24 (ucast (base_high d)) OR push_bit 16 (ucast (base_mid d)) :: u32)"
    by (rule disjunctive_add) (auto simp: bit_simps dest!: bit_imp_le_length)
  moreover have "(push_bit 24 (ucast (base_high d)) OR push_bit 16 (ucast (base_mid d))) + ucast (base_low d) =
     (push_bit 24 (ucast (base_high d)) OR push_bit 16 (ucast (base_mid d))) OR (ucast (base_low d) :: u32)"
    by (rule disjunctive_add) (auto simp: bit_simps dest!: bit_imp_le_length)
  ultimately show ?thesis
    by (simp add: reassembled_base_def reassembly_def descriptor_base_def or.assoc)
qed

lemma reassembled_limit_init [simp]:
  "reassembled_limit (init_descriptor base limit attribute) = limit AND mask 20"
proof -
  let ?d = "init_descriptor base limit attribute"
  have m: "(0xFFFF::u32) = mask 16" "(0xF::u32) = mask 4" "(0xF::byte) = mask 4" "(0xF0::u16) = push_bit 4 (mask 4)"
    by (simp_all add: mask_eq_exp_minus_1)
  have "reassembled_limit ?d = push_bit 16 (ucast (limit_high_attr2 ?d AND 0xF)) OR ucast (limit_low ?d)"
    unfolding reassembled_limit_def reassembly_def
    by (simp, rule disjunctive_add) (auto simp: bit_simps dest!: bit_imp_le_length)
  also have "\<dots> = limit AND mask 20"
  proof (rule bit_word_eqI)
    fix n assume n: "n < LENGTH(32)"
    consider "n < 16" | "16 \<le> n" "n < 20" | "20 \<le> n" "n < 32" using n by force
    then show "bit (push_bit 16 (ucast (limit_high_attr2 ?d AND 0xF)) OR ucast (limit_low ?d) :: u32) n = bit (limit AND mask 20) n"
      by cases (auto simp: init_descriptor_def m bit_simps)
  qed
  finally show ?thesis .
qed


lemma granularity_init:
  "limit_high_attr2 (init_descriptor base limit attribute) AND ucast (drop_bit 8 DA_LIMIT_4K) \<noteq> 0
     \<longleftrightarrow> attribute AND DA_LIMIT_4K \<noteq> 0"
proof -
  have k: "ucast (drop_bit 8 DA_LIMIT_4K) = (0x80 :: byte)" by simp
  have m: "(0xF::u32) = mask 4" "(0xF0::u16) = push_bit 4 (mask 4)" by (simp_all add: mask_eq_exp_minus_1)
  have "limit_high_attr2 (init_descriptor base limit attribute) AND 0x80 \<noteq> 0
     \<longleftrightarrow> bit (limit_high_attr2 (init_descriptor base limit attribute)) 7"
    using and_exp_eq_0_iff_not_bit[of "limit_high_attr2 (init_descriptor base limit attribute)" 7] by simp
  also have "\<dots> \<longleftrightarrow> bit attribute 15"
    by (simp add: init_descriptor_def m bit_simps)
  also have "\<dots> \<longleftrightarrow> attribute AND DA_LIMIT_4K \<noteq> 0"
    using and_exp_eq_0_iff_not_bit[of attribute 15] by simp
  finally show ?thesis unfolding k .
qed

text \<open>A page-granular segment of \<open>n\<close> pages, \<open>n \<le> 2 ^ 20\<close>, has \<open>4096 * n\<close> bytes.\<close>

lemma segment_size_init_4K:
  assumes "attribute AND DA_LIMIT_4K \<noteq> 0"
  shows "segment_size (init_descriptor base limit attribute) = ((limit AND mask 20) + 1) * 4096"
  using assms granularity_init[of base limit attribute] by (simp add: segment_size_def)

definition gate_offset :: "gate \<Rightarrow> u32" where
  "gate_offset g = ucast (offset_low g) OR push_bit 16 (ucast (offset_high g))"

definition gate_dpl :: "gate \<Rightarrow> nat" where
  "gate_dpl g = unat (drop_bit 5 (attr g) AND 3)"

definition descriptor_dpl :: "descriptor \<Rightarrow> nat" where
  "descriptor_dpl d = unat (drop_bit 5 (attr1 d) AND 3)"

lemma gate_offset_init [simp]: "gate_offset (init_idt_desc ty h p) = h"
proof (rule bit_word_eqI)
  fix n assume n: "n < LENGTH(32)"
  have m: "(0xFFFF::u32) = mask 16" by (simp add: mask_eq_exp_minus_1)
  consider "n < 16" | "16 \<le> n" "n < 32" using n by force
  then show "bit (gate_offset (init_idt_desc ty h p)) n = bit h n"
    by cases (auto simp: gate_offset_def init_idt_desc_def m bit_simps)
qed

lemma gate_dpl_init [simp]:
  "gate_dpl (init_idt_desc DA_386IGate h 0) = 0" "gate_dpl (init_idt_desc DA_386IGate h 3) = 3"
  by (simp_all add: gate_dpl_def init_idt_desc_def)

lemma fill_idt_other: "v \<notin> fst ` set cs \<Longrightarrow> fill_idt addr_of cs idt v = idt v"
  by (induction addr_of cs idt rule: fill_idt.induct) auto

lemma fill_idt_lookup:
  "distinct (map fst cs) \<Longrightarrow> (v, h, p) \<in> set cs \<Longrightarrow>
   fill_idt addr_of cs idt v = init_idt_desc DA_386IGate (addr_of h) p"
  by (induction addr_of cs idt rule: fill_idt.induct) (auto simp: fill_idt_other)

lemma idt_calls_distinct: "distinct (map fst idt_calls)"
  by (simp add: idt_calls_def)

lemma init_ldt_descs_ok:
  "\<forall>i \<in> set is. INDEX_LDT_FIRST + i < GDT_SIZE \<Longrightarrow> distinct is \<Longrightarrow>
   \<exists>g'. init_ldt_descs a is g = Inr ((), g') \<and>
     (\<forall>i \<in> set is. g' (INDEX_LDT_FIRST + i) =
        init_descriptor (virt2linear g SELECTOR_KERNEL_DS (a i)) 15 DA_LDT) \<and>
     (\<forall>j. j \<notin> (+) INDEX_LDT_FIRST ` set is \<longrightarrow> g' j = g j)"
proof (induction "is" arbitrary: g)
  case Nil
  then show ?case by (simp add: op_defs)
next
  case (Cons i "is")
  let ?g = "g(INDEX_LDT_FIRST + i := init_descriptor (virt2linear g SELECTOR_KERNEL_DS (a i)) 15 DA_LDT)"
  have v: "virt2linear ?g SELECTOR_KERNEL_DS x = virt2linear g SELECTOR_KERNEL_DS x" for x
    by (simp add: virt2linear_def seg2linear_def)
  from Cons.prems have "\<forall>i \<in> set is. INDEX_LDT_FIRST + i < GDT_SIZE" "distinct is" by simp_all
  from Cons.IH[OF this, of ?g] obtain g' where g': "init_ldt_descs a is ?g = Inr ((), g')"
    "\<forall>i \<in> set is. g' (INDEX_LDT_FIRST + i) = init_descriptor (virt2linear g SELECTOR_KERNEL_DS (a i)) 15 DA_LDT"
    "\<forall>j. j \<notin> (+) INDEX_LDT_FIRST ` set is \<longrightarrow> g' j = ?g j"
    unfolding v by blast
  have "init_ldt_descs a (i # is) g = Inr ((), g')"
    using Cons.prems(1) g'(1) by (simp add: bindE_def op_defs)
  moreover have "g' (INDEX_LDT_FIRST + i) = ?g (INDEX_LDT_FIRST + i)"
  proof -
    have "INDEX_LDT_FIRST + i \<notin> (+) INDEX_LDT_FIRST ` set is" using Cons.prems(2) by auto
    then show ?thesis using g'(3) by blast
  qed
  ultimately show ?case using g'(2,3) by auto
qed


lemma descriptor_dpl_init:
  "p \<in> {PRIVILEGE_KRNL, PRIVILEGE_TASK, PRIVILEGE_USER} \<Longrightarrow>
   descriptor_dpl (init_descriptor base limit (DA_LIMIT_4K OR DA_32 OR DA_C OR ucast (push_bit 5 p))) = unat p"
  by (auto simp: descriptor_dpl_def init_descriptor_def)

lemma segment_size_init:
  "segment_size (init_descriptor base limit attribute) =
     ((limit AND 0xFFFFF) + 1) * (if attribute AND DA_LIMIT_4K \<noteq> 0 then 4096 else 1)"
proof -
  have m: "mask 20 = (0xFFFFF :: u32)" by (simp add: mask_eq_exp_minus_1)
  show ?thesis
    using granularity_init[of base limit attribute] by (simp add: segment_size_def m)
qed

text \<open>
  C10. A descriptor that \<open>init_descriptor\<close> fills in reads back, by the layout the processor
  and the \<open>reassembly\<close> macro use, as the 32-bit base it was given, the low twenty bits of the
  limit, and a segment of limit plus one units of a byte or of 4 KB by the granularity bit of
  the attribute.
\<close>

theorem init_descriptor_fields:
  "descriptor_base (init_descriptor base limit attribute) = base \<and>
   reassembled_base (init_descriptor base limit attribute) = base \<and>
   reassembled_limit (init_descriptor base limit attribute) = limit AND 0xFFFFF \<and>
   segment_size (init_descriptor base limit attribute) =
     ((limit AND 0xFFFFF) + 1) * (if attribute AND DA_LIMIT_4K \<noteq> 0 then 4096 else 1)"
proof -
  have m: "mask 20 = (0xFFFFF :: u32)" by (simp add: mask_eq_exp_minus_1)
  show ?thesis by (simp add: segment_size_init m)
qed

lemma selector_init_idt [simp]: "selector (init_idt_desc ty h p) = SELECTOR_KERNEL_CS"
  by (simp add: init_idt_desc_def)

text \<open>
  The interrupt vectors of the processor and of the machine: the exceptions by their number (15 is
  reserved), the sixteen lines of the two interrupt controllers from 0x20 on, and the vector of the
  system call.
\<close>

definition exception_handler_of :: "nat \<Rightarrow> handler option" where
  "exception_handler_of v =
     (if v < 15 then Some ([divide_error, single_step_exception, nmi, breakpoint_exception, overflow, bounds_check,
        inval_opcode, copr_not_available, double_fault, copr_seg_overrun, inval_tss, segment_not_present,
        stack_exception, general_protection, page_fault] ! v)
      else if v = 16 then Some copr_error else None)"

definition gate_handler :: "nat \<Rightarrow> handler option" where
  "gate_handler v =
     (if v < 0x20 then exception_handler_of v
      else if v < 0x30 then Some (hwint (v - 0x20))
      else if v = 0x90 then Some sys_call else None)"

definition user_vector :: "nat \<Rightarrow> bool" where
  "user_vector v = (v = 3 \<or> v = 4 \<or> v = 0x90)"

lemma idt_calls_gates:
  "case gate_handler v of None \<Rightarrow> v \<notin> fst ` set idt_calls
   | Some h \<Rightarrow> (v, h, if user_vector v then 3 else 0) \<in> set idt_calls"
proof (cases "v < 0x91")
  case True
  have "\<forall>v \<in> set [0..<0x91]. case gate_handler v of None \<Rightarrow> v \<notin> fst ` set idt_calls
   | Some h \<Rightarrow> (v, h, if user_vector v then 3 else 0) \<in> set idt_calls" by code_simp
  then show ?thesis using True by simp
next
  case False
  have "\<forall>c \<in> set idt_calls. fst c < 0x91" by code_simp
  then show ?thesis using False by (auto simp: gate_handler_def)
qed

lemma present_gate: "p \<in> {0, 3} \<Longrightarrow> attr (init_idt_desc DA_386IGate h p) AND 0x8F = DA_386IGate"
  by (auto simp: init_idt_desc_def)

text \<open>
  C11. After \<open>init_prot\<close> each of the processor's exceptions, each line of the interrupt controllers
  and the system call vector has a present interrupt gate to the handler for it, in the kernel's
  code segment, and every other vector is as it was; user code can raise exactly the breakpoint,
  the overflow and the system call vectors itself.
\<close>

theorem user_gates:
  "case gate_handler v of
     None \<Rightarrow> init_prot_idt addr_of idt v = idt v
   | Some h \<Rightarrow> gate_offset (init_prot_idt addr_of idt v) = addr_of h \<and>
       selector (init_prot_idt addr_of idt v) = SELECTOR_KERNEL_CS \<and>
       attr (init_prot_idt addr_of idt v) AND 0x8F = DA_386IGate \<and>
       gate_dpl (init_prot_idt addr_of idt v) = (if user_vector v then 3 else 0)"
proof (cases "gate_handler v")
  case None
  then show ?thesis using idt_calls_gates[of v] fill_idt_other[of v idt_calls] by (simp add: init_prot_idt_def)
next
  case (Some h)
  then have "init_prot_idt addr_of idt v = init_idt_desc DA_386IGate (addr_of h) (if user_vector v then 3 else 0)"
    unfolding init_prot_idt_def using idt_calls_gates[of v] by (intro fill_idt_lookup[OF idt_calls_distinct]) simp
  then show ?thesis using Some by (simp add: present_gate)
qed

text \<open>The system call vector, 0x90, and the vector of the second interrupt line.\<close>

theorem user_gates_witness:
  "gate_dpl (init_prot_idt (\<lambda>h. if h = sys_call then 0x4242 else 0x1000) (\<lambda>_. init_idt_desc 0 0 0) 0x90) = 3 \<and>
   gate_offset (init_prot_idt (\<lambda>h. if h = sys_call then 0x4242 else 0x1000) (\<lambda>_. init_idt_desc 0 0 0) 0x90) = 0x4242 \<and>
   gate_offset (init_prot_idt (\<lambda>h. if h = hwint 1 then 0x4343 else 0x1000) (\<lambda>_. init_idt_desc 0 0 0) 0x21) = 0x4343"
  using user_gates[of "\<lambda>h. if h = sys_call then 0x4242 else 0x1000" "\<lambda>_. init_idt_desc 0 0 0" "0x90"]
    user_gates[of "\<lambda>h. if h = hwint 1 then 0x4343 else 0x1000" "\<lambda>_. init_idt_desc 0 0 0" "0x21"]
  by (simp add: gate_handler_def user_vector_def)

text \<open>
  \<open>init_prot\<close> stays inside the global descriptor table, gives every process of the table
  its own slot, with a selector that names it and a segment of exactly the size of its two
  local descriptors at their linear address, points the TSS descriptor at the TSS, and leaves
  the descriptors that the boot code set up alone.
\<close>

lemma init_prot_gdt_ok:
  "\<exists>g. init_prot_gdt tss_addr ldts_addr gdt = Inr ((), g) \<and>
     descriptor_base (g INDEX_TSS) = seg2linear gdt SELECTOR_KERNEL_DS + tss_addr \<and>
     (\<forall>i < NR_PROCS_nat. unat (drop_bit 3 (ldt_sel_of i)) = INDEX_LDT_FIRST + i \<and>
        descriptor_base (g (unat (drop_bit 3 (ldt_sel_of i)))) = seg2linear gdt SELECTOR_KERNEL_DS + ldts_addr i \<and>
        segment_size (g (unat (drop_bit 3 (ldt_sel_of i)))) = 16) \<and>
     (\<forall>j. j < INDEX_TSS \<longrightarrow> g j = gdt j)"
proof -
  let ?g = "gdt(INDEX_TSS := init_descriptor (virt2linear gdt SELECTOR_KERNEL_DS tss_addr) (TSS_SIZE - 1) DA_386TSS)"
  have v: "virt2linear ?g SELECTOR_KERNEL_DS x = seg2linear gdt SELECTOR_KERNEL_DS + x" for x
    by (simp add: virt2linear_def seg2linear_def)
  have v4: "virt2linear gdt SELECTOR_KERNEL_DS tss_addr = seg2linear gdt SELECTOR_KERNEL_DS + tss_addr"
    by (simp add: virt2linear_def)
  have "\<forall>i \<in> set [0..<NR_PROCS_nat]. INDEX_LDT_FIRST + i < GDT_SIZE" "distinct [0..<NR_PROCS_nat]" by auto
  from init_ldt_descs_ok[OF this, of ldts_addr ?g] obtain g where
    g: "init_ldt_descs ldts_addr [0..<NR_PROCS_nat] ?g = Inr ((), g)"
      "\<forall>i < NR_PROCS_nat. g (INDEX_LDT_FIRST + i) =
         init_descriptor (seg2linear gdt SELECTOR_KERNEL_DS + ldts_addr i) 15 DA_LDT"
      "\<forall>j. j \<notin> (+) INDEX_LDT_FIRST ` {0..<NR_PROCS_nat} \<longrightarrow> g j = ?g j"
    unfolding v by auto
  have sel: "unat (drop_bit 3 (ldt_sel_of i)) = INDEX_LDT_FIRST + i" if "i < NR_PROCS_nat" for i
  proof -
    have "i \<in> set [0..<NR_PROCS_nat]" using that by simp
    moreover have "\<forall>i \<in> set [0..<NR_PROCS_nat]. unat (drop_bit 3 (ldt_sel_of i)) = INDEX_LDT_FIRST + i"
      by (simp add: ldt_sel_of_def upt_rec)
    ultimately show ?thesis by blast
  qed
  have "init_prot_gdt tss_addr ldts_addr gdt = Inr ((), g)"
    using g(1) by (simp add: init_prot_gdt_def bindE_def op_defs)
  moreover have "segment_size (init_descriptor b 15 DA_LDT) = 16" for b
    by (simp add: segment_size_init)
  ultimately show ?thesis using g(2,3) sel by (auto simp: v4)
qed

end
