(* ===== verification/Proc.thy ===== *)
theory Proc
  imports Protect
begin

section \<open>The process table\<close>

text \<open>
  \<open>struct proc\<close> and the constants of include/proc.h, the kernel's global state, and the
  address translation of kernel/proc.c. A pointer into \<open>proc_table\<close> is the index of the
  entry (\<open>proc2pid\<close>), a null pointer is \<open>None\<close>; an index that is not one of the
  \<open>NR_PROCS\<close> entries is a \<open>Bad_access\<close>. The states are polymorphic in the fields that other
  components add, so every server works on the same table and the same memory.
\<close>

abbreviation (input) NR_TASKS :: int where "NR_TASKS \<equiv> 5"
abbreviation (input) NR_NATIVE_PROCS :: int where "NR_NATIVE_PROCS \<equiv> 4"
abbreviation (input) NR_PROCS :: int where "NR_PROCS \<equiv> 37"
abbreviation (input) INVALID_DRIVER :: int where "INVALID_DRIVER \<equiv> -20"
abbreviation (input) INTERRUPT :: int where "INTERRUPT \<equiv> -10"
abbreviation (input) TASK_TTY :: int where "TASK_TTY \<equiv> 0"
abbreviation (input) TASK_SYS :: int where "TASK_SYS \<equiv> 1"
abbreviation (input) TASK_HD :: int where "TASK_HD \<equiv> 2"
abbreviation (input) TASK_FS :: int where "TASK_FS \<equiv> 3"
abbreviation (input) TASK_MM :: int where "TASK_MM \<equiv> 4"
abbreviation (input) INIT :: int where "INIT \<equiv> 5"
abbreviation (input) ANY :: int where "ANY \<equiv> 47"
abbreviation (input) NO_TASK :: int where "NO_TASK \<equiv> 57"

abbreviation (input) RUNNING :: u32 where "RUNNING \<equiv> 0x0"
abbreviation (input) SENDING :: u32 where "SENDING \<equiv> 0x02"
abbreviation (input) RECEIVING :: u32 where "RECEIVING \<equiv> 0x04"
abbreviation (input) WAITING :: u32 where "WAITING \<equiv> 0x08"
abbreviation (input) HANGING :: u32 where "HANGING \<equiv> 0x10"
abbreviation (input) FREE_SLOT :: u32 where "FREE_SLOT \<equiv> 0x20"

abbreviation (input) INDEX_LDT_C :: nat where "INDEX_LDT_C \<equiv> 0"
abbreviation (input) INDEX_LDT_RW :: nat where "INDEX_LDT_RW \<equiv> 1"
abbreviation (input) NR_FILES :: nat where "NR_FILES \<equiv> 64"

text \<open>Message types (include/msg.h) and the functions of \<open>sendrec\<close>.\<close>

abbreviation (input) F_SEND :: int where "F_SEND \<equiv> 1"
abbreviation (input) F_RECEIVE :: int where "F_RECEIVE \<equiv> 2"
abbreviation (input) F_BOTH :: int where "F_BOTH \<equiv> 3"
abbreviation (input) HARD_INT :: int where "HARD_INT \<equiv> 1"
abbreviation (input) GET_TICKS :: int where "GET_TICKS \<equiv> 2"
abbreviation (input) GET_PID :: int where "GET_PID \<equiv> 3"
abbreviation (input) OPEN :: int where "OPEN \<equiv> 5"
abbreviation (input) CLOSE :: int where "CLOSE \<equiv> 6"
abbreviation (input) READ :: int where "READ \<equiv> 7"
abbreviation (input) WRITE :: int where "WRITE \<equiv> 8"
abbreviation (input) STAT :: int where "STAT \<equiv> 10"
abbreviation (input) UNLINK :: int where "UNLINK \<equiv> 11"
abbreviation (input) SUSPEND_PROC :: int where "SUSPEND_PROC \<equiv> 12"
abbreviation (input) RESUME_PROC :: int where "RESUME_PROC \<equiv> 13"
abbreviation (input) EXEC :: int where "EXEC \<equiv> 14"
abbreviation (input) WAIT :: int where "WAIT \<equiv> 15"
abbreviation (input) FORK :: int where "FORK \<equiv> 16"
abbreviation (input) EXIT :: int where "EXIT \<equiv> 17"
abbreviation (input) SYSCALL_RET :: int where "SYSCALL_RET \<equiv> 18"
abbreviation (input) DEV_OPEN :: int where "DEV_OPEN \<equiv> 1001"
abbreviation (input) DEV_CLOSE :: int where "DEV_CLOSE \<equiv> 1002"
abbreviation (input) DEV_READ :: int where "DEV_READ \<equiv> 1003"
abbreviation (input) DEV_WRITE :: int where "DEV_WRITE \<equiv> 1004"
abbreviation (input) DEV_IOCTL :: int where "DEV_IOCTL \<equiv> 1005"

record stackframe =
  reg_gs :: u32
  reg_fs :: u32
  reg_es :: u32
  reg_ds :: u32
  reg_edi :: u32
  reg_esi :: u32
  reg_ebp :: u32
  reg_kernel_esp :: u32
  reg_ebx :: u32
  reg_edx :: u32
  reg_ecx :: u32
  reg_eax :: u32
  reg_retaddr :: u32
  reg_eip :: u32
  reg_cs :: u32
  reg_eflags :: u32
  reg_esp :: u32
  reg_ss :: u32

record proc =
  regs :: stackframe
  ldt_sel :: u16
  ldts :: "nat \<Rightarrow> descriptor"
  p_ticks :: int
  priority :: int
  pid :: int
  p_parent :: int
  p_name :: "byte list"
  is_msg_critical_allowed :: int
  exit_status :: int
  p_flags :: u32
  p_msg :: addr
  p_recvfrom :: int
  p_sendto :: int
  has_int_msg :: int
  q_sending :: "int option"
  next_sending :: "int option"
  filp :: "nat \<Rightarrow> nat option"

type_synonym proc_tab = "int \<Rightarrow> proc"

record kstate =
  proc_table :: proc_tab
  p_proc_ready :: int
  k_reenter :: u32
  kticks :: int
  cnt :: int
  key_pressed :: int
  int_enabled :: bool
  kmem :: mem
  disp_pos :: int

definition pids :: "int set" where
  "pids = {0..<NR_PROCS}"

definition proc_list :: "int list" where
  "proc_list = [0..NR_PROCS - 1]"

definition sending :: "proc \<Rightarrow> bool" where
  "sending p = (p_flags p AND SENDING \<noteq> 0)"

definition receiving :: "proc \<Rightarrow> bool" where
  "receiving p = (p_flags p AND RECEIVING \<noteq> 0)"

text \<open>Dereferencing a pointer into the table, and assigning to a field of an entry.\<close>

definition procE :: "int \<Rightarrow> ('a kstate_scheme, proc) op" where
  "procE i = (\<lambda>s. if i \<in> pids then Inr (proc_table s i, s) else Inl (Bad_access ''proc_table''))"

definition updP :: "int \<Rightarrow> (proc \<Rightarrow> proc) \<Rightarrow> ('a kstate_scheme, unit) op" where
  "updP i f = modE (\<lambda>s. s\<lparr>proc_table := (proc_table s)(i := f (proc_table s i))\<rparr>)"

definition disable_int :: "('a kstate_scheme, unit) op" where
  "disable_int = modE (\<lambda>s. s\<lparr>int_enabled := False\<rparr>)"

definition enable_int :: "('a kstate_scheme, unit) op" where
  "enable_int = modE (\<lambda>s. s\<lparr>int_enabled := True\<rparr>)"

definition ldt_reg_linear :: "proc \<Rightarrow> nat \<Rightarrow> u32" where
  "ldt_reg_linear p index = descriptor_base (ldts p index)"

definition va2la :: "int \<Rightarrow> addr \<Rightarrow> ('a kstate_scheme, addr) op" where
  "va2la i va =
     bindE (procE i) (\<lambda>p.
     let la = ldt_reg_linear p INDEX_LDT_RW + va in
     bindE (whenE (i < NR_TASKS + NR_NATIVE_PROCS)
       (assertE ''la==(t_32)va'' (\<lambda>_. la = va))) (\<lambda>_.
     ret la))"

text \<open>\<open>phys_copy(va2la(dst_pid, dst), va2la(src_pid, src), n)\<close>, the idiom of every server.\<close>

definition copy_between :: "int \<Rightarrow> addr \<Rightarrow> int \<Rightarrow> addr \<Rightarrow> int \<Rightarrow> ('a kstate_scheme, unit) op" where
  "copy_between dpid dst spid src n =
     bindE (va2la dpid dst) (\<lambda>d.
     bindE (va2la spid src) (\<lambda>sl.
     modE (\<lambda>s. s\<lparr>kmem := phys_copy d sl n (kmem s)\<rparr>)))"

text \<open>
  A remote call: \<open>send_recv(BOTH, task, &msg)\<close> as the caller sees it, from the message sent to
  the message that comes back.
\<close>

type_synonym 's rpc = "int \<Rightarrow> message \<Rightarrow> ('s, message) op"

text \<open>The linear address of a virtual one, and the condition the native processes live under.\<close>

definition linear :: "proc_tab \<Rightarrow> int \<Rightarrow> addr \<Rightarrow> addr" where
  "linear pt i va = ldt_reg_linear (pt i) INDEX_LDT_RW + va"

definition flat_natives :: "proc_tab \<Rightarrow> bool" where
  "flat_natives pt = (\<forall>i \<in> {0..<NR_TASKS + NR_NATIVE_PROCS}. ldt_reg_linear (pt i) INDEX_LDT_RW = 0)"

subsection \<open>Facts about the table\<close>

lemma procE_ok [simp]: "i \<in> pids \<Longrightarrow> procE i s = Inr (proc_table s i, s)"
  by (simp add: procE_def)

lemma procE_bad [simp]: "i \<notin> pids \<Longrightarrow> procE i s = Inl (Bad_access ''proc_table'')"
  by (simp add: procE_def)

lemma updP_apply: "updP i f s = Inr ((), s\<lparr>proc_table := (proc_table s)(i := f (proc_table s i))\<rparr>)"
  by (simp add: updP_def op_defs)

lemma finite_pids [simp]: "finite pids"
  by (simp add: pids_def)

lemma card_pids: "card pids = 37"
  by (simp add: pids_def)

lemma set_proc_list [simp]: "set proc_list = pids"
  by (auto simp: proc_list_def pids_def)

lemma va2la_ok:
  assumes "i \<in> pids" "flat_natives (proc_table s)"
  shows "va2la i va s = Inr (linear (proc_table s) i va, s)"
proof -
  have "i < NR_TASKS + NR_NATIVE_PROCS \<Longrightarrow> ldt_reg_linear (proc_table s i) INDEX_LDT_RW = 0"
    using assms by (simp add: flat_natives_def pids_def)
  then show ?thesis
    using assms(1) by (cases "i < NR_TASKS + NR_NATIVE_PROCS") (simp_all add: va2la_def linear_def op_defs)
qed

lemma copy_between_ok:
  assumes "d \<in> pids" "sp \<in> pids" "flat_natives (proc_table s)"
  shows "copy_between d dst sp src n s =
    Inr ((), s\<lparr>kmem := phys_copy (linear (proc_table s) d dst) (linear (proc_table s) sp src) n (kmem s)\<rparr>)"
  using assms by (simp add: copy_between_def va2la_ok op_defs)

lemma flat_natives_upd [simp]:
  "ldts p = ldts (pt i) \<Longrightarrow> flat_natives (pt(i := p)) = flat_natives pt"
  by (auto simp: flat_natives_def ldt_reg_linear_def)

lemma linear_upd [simp]: "ldts p = ldts (pt i) \<Longrightarrow> linear (pt(i := p)) j va = linear pt j va"
  by (simp add: linear_def ldt_reg_linear_def)

subsection \<open>A concrete kernel state\<close>

text \<open>
  All processes idle, with flat segments and no slice left; the sixth is the current one.
\<close>

definition idle_proc :: proc where
  "idle_proc = \<lparr> regs = \<lparr> reg_gs = 0, reg_fs = 0, reg_es = 0, reg_ds = 0, reg_edi = 0, reg_esi = 0, reg_ebp = 0,
       reg_kernel_esp = 0, reg_ebx = 0, reg_edx = 0, reg_ecx = 0, reg_eax = 0, reg_retaddr = 0, reg_eip = 0,
       reg_cs = 0, reg_eflags = 0x202, reg_esp = 0, reg_ss = 0 \<rparr>,
     ldt_sel = SELECTOR_LDT_FIRST, ldts = (\<lambda>_. init_descriptor 0 0xFFFFF DA_DRW), p_ticks = 0, priority = 3,
     pid = 0, p_parent = 0, p_name = [], is_msg_critical_allowed = 1, exit_status = 0, p_flags = RUNNING,
     p_msg = 0, p_recvfrom = NO_TASK, p_sendto = NO_TASK, has_int_msg = 0, q_sending = None,
     next_sending = None, filp = (\<lambda>_. None) \<rparr>"

definition idle_state :: kstate where
  "idle_state = \<lparr> proc_table = (\<lambda>_. idle_proc), p_proc_ready = INIT, k_reenter = 0, kticks = 0, cnt = 0,
     key_pressed = 0, int_enabled = True, kmem = (\<lambda>_. 0), disp_pos = 0 \<rparr>"

lemma idle_proc_fields [simp]:
  "p_flags idle_proc = 0" "p_msg idle_proc = 0" "p_recvfrom idle_proc = NO_TASK" "p_sendto idle_proc = NO_TASK"
  "q_sending idle_proc = None" "next_sending idle_proc = None" "has_int_msg idle_proc = 0"
  "p_ticks idle_proc = 0" "priority idle_proc = 3" "filp idle_proc = (\<lambda>_. None)"
  "ldt_reg_linear idle_proc i = 0" "p_parent idle_proc = 0" "exit_status idle_proc = 0"
  by (simp_all add: idle_proc_def ldt_reg_linear_def)

lemma idle_state_fields [simp]:
  "proc_table idle_state = (\<lambda>_. idle_proc)" "p_proc_ready idle_state = INIT" "k_reenter idle_state = 0"
  "key_pressed idle_state = 0" "kmem idle_state = (\<lambda>_. 0)" "disp_pos idle_state = 0"
  by (simp_all add: idle_state_def)

lemma flat_idle [simp]: "flat_natives (\<lambda>_. idle_proc)"
  by (simp add: flat_natives_def)

lemma linear_idle [simp]: "linear (\<lambda>_. idle_proc) i va = va"
  by (simp add: linear_def)

end
