(* ===== verification/Stdio.thy ===== *)
theory Stdio
  imports Proc
begin

section \<open>Formatted output and numbers\<close>

text \<open>
  lib/stdio.c and lib/klib.c. The format of \<open>vsprintf\<close> is the list of its characters
  without the terminator, the arguments are the 32-bit words on the stack; a \<open>%s\<close> argument is
  an address in memory. The result is the list of characters written before the terminating
  null character. Reading past the terminator or the last argument, and writing past
  \<open>inner_buf\<close>, is a \<open>Bad_access\<close>.
\<close>

abbreviation (input) STR_DEFAULT_LEN :: nat where "STR_DEFAULT_LEN \<equiv> 1024"

subsection \<open>Numbers (i2a, itoa)\<close>

definition digit_char :: "int \<Rightarrow> byte" where
  "digit_char m = (if m < 10 then word_of_int (m + 0x30) else word_of_int (m - 10 + 0x41))"

text \<open>The recursion ends for the bases it is called with, 10 and 16.\<close>

function i2a :: "int \<Rightarrow> int \<Rightarrow> byte list" where
  "i2a val base =
     (let m = c_mod val base; q = c_div val base
      in (if q \<noteq> 0 \<and> 1 < base then i2a q base else []) @ [digit_char m])"
  by auto
termination
proof (relation "measure (\<lambda>(val, base). nat \<bar>val\<bar>)")
  fix val base q :: int and m
  assume "q = c_div val base" "q \<noteq> 0 \<and> 1 < base"
  then have q: "c_div val base \<noteq> 0" "1 < base" "q = c_div val base" by simp_all
  then have "val \<noteq> 0" by (auto simp: c_div_def)
  have "\<bar>c_div val base\<bar> = \<bar>val\<bar> div base" using q(2) \<open>val \<noteq> 0\<close> by (simp add: c_div_def abs_mult pos_imp_zdiv_nonneg_iff)
  also have "\<dots> < \<bar>val\<bar>" using \<open>val \<noteq> 0\<close> q(2) by (intro int_div_less_self) auto
  finally show "((q, base), (val, base)) \<in> measure (\<lambda>(val, base). nat \<bar>val\<bar>)" using q(3) by simp
qed simp

declare i2a.simps [simp del]

text \<open>\<open>itoa\<close> of lib/klib.c: the loop over the eight nibbles, \<open>flag\<close> set by the first nonzero one.\<close>

definition nibble_char :: "int \<Rightarrow> byte" where
  "nibble_char ch = (if ch + 0x30 > 0x39 then word_of_int (ch + 0x30 + 7) else word_of_int (ch + 0x30))"

fun itoa_loop :: "u32 \<Rightarrow> nat list \<Rightarrow> bool \<Rightarrow> byte list" where
  "itoa_loop num [] flag = []"
| "itoa_loop num (i # is) flag =
     (let ch = uint (drop_bit i num AND 0xF)
      in if flag \<or> ch > 0 then nibble_char ch # itoa_loop num is True else itoa_loop num is flag)"

definition itoa :: "int \<Rightarrow> byte list" where
  "itoa num = [0x30, 0x78] @ (if num = 0 then [0x30] else itoa_loop (u32_int num) [28, 24, 20, 16, 12, 8, 4, 0] False)"

subsection \<open>vsprintf\<close>

definition read_arg :: "u32 list \<Rightarrow> fault + (u32 \<times> u32 list)" where
  "read_arg args = (case args of [] \<Rightarrow> Inl (Bad_access ''args'') | a # as \<Rightarrow> Inr (a, as))"

text \<open>The characters of the width: the value and the rest of the format.\<close>

fun read_width :: "byte list \<Rightarrow> int \<Rightarrow> int \<times> byte list" where
  "read_width [] n = (n, [])"
| "read_width (c # fmt) n = (if 0x30 \<le> c \<and> c \<le> 0x39 then read_width fmt (s32 (s32 (n * 10) + (uint c - 0x30))) else (n, c # fmt))"

lemma read_width_length: "length (snd (read_width fmt n)) \<le> length fmt"
  by (induction fmt n rule: read_width.induct) (auto intro: le_SucI)

text \<open>The switch: what it puts in \<open>inner_buf\<close> and the arguments that are left.\<close>

definition str_at :: "mem \<Rightarrow> addr \<Rightarrow> nat \<Rightarrow> byte list" where
  "str_at m a n = map (\<lambda>k. m (a + of_nat k)) [0..<n]"

definition convert :: "mem \<Rightarrow> byte \<Rightarrow> u32 list \<Rightarrow> fault + (byte list \<times> u32 list)" where
  "convert mem c args =
     (if c = 0x63 then (case read_arg args of Inl e \<Rightarrow> Inl e | Inr (a, as) \<Rightarrow> Inr ([ucast a], as))
      else if c = 0x78 then (case read_arg args of Inl e \<Rightarrow> Inl e | Inr (a, as) \<Rightarrow> Inr (i2a (sint a) 16, as))
      else if c = 0x64 then
        (case read_arg args of Inl e \<Rightarrow> Inl e
         | Inr (a, as) \<Rightarrow> Inr (if sint a < 0 then 0x2D # i2a (s32 (sint a * -1)) 10 else i2a (sint a) 10, as))
      else if c = 0x73 then
        (case read_arg args of Inl e \<Rightarrow> Inl e
         | Inr (a, as) \<Rightarrow>
             (case strlen a mem of
                None \<Rightarrow> Inl (Spin ''strcpy'')
              | Some n \<Rightarrow> if unat n < STR_DEFAULT_LEN then Inr (str_at mem a (unat n), as)
                          else Inl (Bad_access ''inner_buf'')))
      else Inr ([], args))"

text \<open>\<open>strlen\<close> of \<open>inner_buf\<close>, and the copy of it, stop at a null character.\<close>

definition pad_inner :: "byte \<Rightarrow> int \<Rightarrow> byte list \<Rightarrow> byte list" where
  "pad_inner cs align_nr inner =
     (let s = takeWhile (\<lambda>b. b \<noteq> 0) inner
      in replicate (if align_nr > int (length s) then nat (align_nr - int (length s)) else 0) cs @ s)"

function vsprintf :: "mem \<Rightarrow> byte list \<Rightarrow> u32 list \<Rightarrow> fault + byte list" where
  "vsprintf mem [] args = Inr []"
| "vsprintf mem (c # fmt) args =
     (if c \<noteq> 0x25 then (case vsprintf mem fmt args of Inl e \<Rightarrow> Inl e | Inr out \<Rightarrow> Inr (c # out))
      else (case fmt of
          [] \<Rightarrow> Inl (Bad_access ''fmt'')
        | d # fmt1 \<Rightarrow>
            if d = 0x25 then (case vsprintf mem fmt1 args of Inl e \<Rightarrow> Inl e | Inr out \<Rightarrow> Inr (d # out))
            else
              let cs = (if d = 0x30 then 0x30 else 0x20);
                  (align_nr, fmt2) = read_width (if d = 0x30 then fmt1 else fmt) 0
              in (case fmt2 of
                    [] \<Rightarrow> Inl (Bad_access ''fmt'')
                  | conv # fmt3 \<Rightarrow>
                      (case convert mem conv args of
                         Inl e \<Rightarrow> Inl e
                       | Inr (inner, args') \<Rightarrow>
                           (case vsprintf mem fmt3 args' of
                              Inl e \<Rightarrow> Inl e
                            | Inr out \<Rightarrow> Inr (pad_inner cs align_nr inner @ out))))))"
  by pat_completeness auto
termination
proof (relation "measure (\<lambda>(mem, fmt, args). length fmt)", goal_cases)
  case (4 mem c fmt args d fmt1 cs x align_nr fmt2 conv fmt3 r inner args')
  have "fmt2 = snd (read_width (if d = 0x30 then fmt1 else fmt) 0)" using 4(5,6) by (metis snd_conv)
  moreover have "length fmt1 \<le> length fmt" using 4(2) by simp
  ultimately have "length fmt2 \<le> length fmt"
    using read_width_length[of fmt 0] read_width_length[of fmt1 0] by (auto split: if_splits)
  then show ?case using 4(7) by simp
qed auto


subsection \<open>Numbers read back\<close>

text \<open>The value of a digit string, most significant digit first.\<close>

definition char_value :: "byte \<Rightarrow> int" where
  "char_value c = (if c \<le> 0x39 then uint c - 0x30 else uint c - 0x41 + 10)"

definition digits_value :: "int \<Rightarrow> byte list \<Rightarrow> int" where
  "digits_value base cs = foldl (\<lambda>v c. v * base + char_value c) 0 cs"

definition digit_of :: "int \<Rightarrow> byte \<Rightarrow> bool" where
  "digit_of base c = (\<exists>m. 0 \<le> m \<and> m < base \<and> c = digit_char m)"

lemma uint_digit: "0 \<le> m \<Longrightarrow> m < 36 \<Longrightarrow> uint (digit_char m) = (if m < 10 then m + 0x30 else m - 10 + 0x41)"
  by (cases "m < 10") (simp_all only: digit_char_def uint_word_of_int if_True if_False, simp_all)

lemma char_value_digit: "0 \<le> m \<Longrightarrow> m < 36 \<Longrightarrow> char_value (digit_char m) = m"
  by (auto simp: char_value_def word_le_def uint_digit)

lemma digits_value_snoc: "digits_value base (cs @ [c]) = digits_value base cs * base + char_value c"
  by (simp add: digits_value_def)

text \<open>
  The conversion of numbers of \<open>vsprintf\<close> is faithful: \<open>i2a\<close> of a number that is not negative
  writes at least one digit, only digits of the base, and they read back as the number.
\<close>

lemma i2a_value:
  assumes "0 \<le> val" "1 < base" "base \<le> 36"
  shows "digits_value base (i2a val base) = val \<and> i2a val base \<noteq> [] \<and> (\<forall>c \<in> set (i2a val base). digit_of base c)"
  using assms
proof (induction val base rule: i2a.induct)
  case (1 val base)
  have m: "0 \<le> val mod base" "val mod base < base" using 1(3) by simp_all
  have d: "digit_of base (digit_char (val mod base))" unfolding digit_of_def using m by blast
  have v: "char_value (digit_char (val mod base)) = val mod base" using m 1(4) by (intro char_value_digit) simp_all
  have e: "i2a val base = (if val div base \<noteq> 0 then i2a (val div base) base else []) @ [digit_char (val mod base)]"
    using 1(2,3) by (subst i2a.simps) (simp add: Let_def)
  show ?case
  proof (cases "val div base = 0")
    case True
    then have "val mod base = val" using mult_div_mod_eq[of base val] by simp
    then show ?thesis using True e v d by (simp add: digits_value_def)
  next
    case False
    have "0 \<le> val div base" using 1(2,3) by (simp add: pos_imp_zdiv_nonneg_iff)
    then have "digits_value base (i2a (val div base) base) = val div base \<and> (\<forall>c \<in> set (i2a (val div base) base). digit_of base c)"
      using 1(1)[OF refl refl] False 1(2-4) by simp
    then show ?thesis using False e v d by (auto simp: digits_value_snoc)
  qed
qed

text \<open>Hexadecimal output of a negative number is not hexadecimal: -1 is written as a slash.\<close>

lemma i2a_negative: "i2a (-1) 16 = [0x2F]"
  by (subst i2a.simps) (simp add: c_div_def c_mod_def digit_char_def)

text \<open>Text without a percent sign is copied, and the conversion that names a forked process.\<close>

lemma vsprintf_plain: "0x25 \<notin> set xs \<Longrightarrow>
  vsprintf mem (xs @ fmt) args = (case vsprintf mem fmt args of Inl e \<Rightarrow> Inl e | Inr out \<Rightarrow> Inr (xs @ out))"
  by (induction xs) (auto split: sum.splits)

lemma digit_nonzero: "digit_of base c \<Longrightarrow> base \<le> 36 \<Longrightarrow> c \<noteq> 0"
proof -
  assume "digit_of base c" "base \<le> 36"
  then obtain m where "0 \<le> m" "m < 36" "c = digit_char m" by (auto simp: digit_of_def)
  then have "uint c \<noteq> 0" using uint_digit[of m] by simp
  then show ?thesis by auto
qed

lemma pad_inner_0: "0 \<notin> set s \<Longrightarrow> pad_inner cs 0 s = s"
  by (simp add: pad_inner_def Let_def takeWhile_eq_all_conv) (metis takeWhile_eq_all_conv)

lemma strlen_str_at: "cstr mem p nm \<Longrightarrow> length nm < STR_DEFAULT_LEN \<Longrightarrow>
  \<exists>n. strlen p mem = Some n \<and> unat n = length nm \<and> str_at mem p (unat n) = nm"
  using strlen_cstr[of mem p nm] cstr_nth[of mem p nm]
  by (auto simp: unat_of_nat str_at_def intro!: nth_equalityI)

lemma vsprintf_name_number:
  assumes "cstr mem p nm" "length nm < STR_DEFAULT_LEN" "0 \<le> n" "n < 2 ^ 31"
  shows "vsprintf mem [0x25, 0x73, 0x5F, 0x25, 0x64] [p, u32_int n] = Inr (nm @ [0x5F] @ i2a n 10)"
proof -
  obtain k where k: "strlen p mem = Some k" "unat k = length nm" "str_at mem p (unat k) = nm"
    using strlen_str_at[OF assms(1,2)] by blast
  have nm: "0 \<notin> set nm" by (rule cstr_nonzero[OF assms(1)])
  have "0 \<notin> set (i2a n 10)" using i2a_value[OF assms(3), of 10] digit_nonzero[of 10] by auto
  moreover have "sint (u32_int n) = n" using assms(3,4) s32_id[of n] by (simp add: s32_def u32_int_def)
  ultimately show ?thesis
    using k assms(2,3) nm by (simp add: convert_def read_arg_def pad_inner_0)
qed

end
