(* ===== verification/Disp.thy ===== *)
theory Disp
  imports Stdio
begin

section \<open>Text straight to the screen\<close>

text \<open>
  \<open>disp_str\<close> and \<open>disp_color_str\<close> of lib/klib.asm and \<open>disp_int\<close> of lib/klib.c (\<open>itoa\<close> is in
  Stdio), with which the kernel prints beside the consoles. They write to the video memory at
  0xB8000 through the segment \<open>gs\<close>, which has 0x10000 bytes, at the offset \<open>disp_pos\<close>: a byte for
  the character and one for its colours. A string is the list of its characters up to the null
  byte.
\<close>

abbreviation (input) VIDEO :: addr where "VIDEO \<equiv> 0xB8000"

text \<open>
  The loop of both routines; \<open>edi\<close> is the offset, \<open>ah\<close> the colours. A newline divides the low
  16 bits of the offset by 160: a quotient of more than eight bits is the processor's divide error.
\<close>

fun disp_chars :: "byte \<Rightarrow> byte list \<Rightarrow> u32 \<Rightarrow> mem \<Rightarrow> fault + u32 \<times> mem" where
  "disp_chars ah [] edi m = Inr (edi, m)"
| "disp_chars ah (c # cs) edi m =
     (if c = 0 then Inr (edi, m)
      else if c = 0x0A then
        (let q = (edi AND 0xFFFF) div 160 in
         if q > 0xFF then Inl (Panic ''#DE'') else disp_chars ah cs (((q + 1) AND 0xFF) * 160) m)
      else if edi < 0xFFFF then disp_chars ah cs (edi + 2) (m(VIDEO + edi := c, VIDEO + edi + 1 := ah))
      else Inl (Bad_access ''gs''))"

definition disp_color_str :: "byte list \<Rightarrow> byte \<Rightarrow> ('a kstate_scheme, unit) op" where
  "disp_color_str info color s =
     (case disp_chars color info (u32_int (disp_pos s)) (kmem s) of
        Inl e \<Rightarrow> Inl e
      | Inr (edi, m) \<Rightarrow> Inr ((), s\<lparr>kmem := m, disp_pos := sint edi\<rparr>))"

definition disp_str :: "byte list \<Rightarrow> ('a kstate_scheme, unit) op" where
  "disp_str info = disp_color_str info 0x0F"

definition disp_int :: "int \<Rightarrow> ('a kstate_scheme, unit) op" where
  "disp_int input = disp_str (itoa input)"

subsection \<open>itoa writes the number\<close>

definition hex_value :: "byte list \<Rightarrow> nat" where
  "hex_value ds = foldl (\<lambda>v c. 16 * v + (if c \<le> 0x39 then unat c - 0x30 else unat c - 0x37)) 0 ds"

definition hex_digit :: "byte \<Rightarrow> bool" where
  "hex_digit c = (0x30 \<le> c \<and> c \<le> 0x39 \<or> 0x41 \<le> c \<and> c \<le> 0x46)"

lemma hex_value_snoc: "hex_value (ds @ [c]) = 16 * hex_value ds + (if c \<le> 0x39 then unat c - 0x30 else unat c - 0x37)"
  by (simp add: hex_value_def)

lemma nibble_cases: "(n :: nat) < 16 \<Longrightarrow> n \<in> {0, 1, 2, 3, 4, 5, 6, 7, 8, 9, 10, 11, 12, 13, 14, 15}"
  by (simp, arith)

definition hex_char :: "nat \<Rightarrow> byte" where
  "hex_char n = (let c = of_nat n + 0x30 :: byte in if c > 0x39 then c + 7 else c)"

lemma hex_char:
  assumes "n < 16"
  shows "hex_digit (hex_char n)" "(if hex_char n \<le> 0x39 then unat (hex_char n) - 0x30 else unat (hex_char n) - 0x37) = n"
  using nibble_cases[OF assms] by (auto simp: hex_char_def hex_digit_def)

text \<open>A step of the loop, with what it has written so far.\<close>

definition itoa_digit :: "u32 \<Rightarrow> bool \<times> byte list \<Rightarrow> nat \<Rightarrow> bool \<times> byte list" where
  "itoa_digit num = (\<lambda>(flag, out) i.
     let ch = uint (drop_bit i num AND 0xF) in if flag \<or> ch > 0 then (True, out @ [nibble_char ch]) else (flag, out))"

lemma itoa_loop_foldl: "snd (foldl (itoa_digit num) (flag, out) is) = out @ itoa_loop num is flag"
  by (induction "is" arbitrary: flag out) (simp_all add: itoa_digit_def Let_def)

lemma itoa_digit_hex:
  "itoa_digit num (flag, out) i =
     (let n = unat num div 2 ^ i mod 16 in if flag \<or> n > 0 then (True, out @ [hex_char n]) else (flag, out))"
proof -
  let ?n = "unat num div 2 ^ i mod 16"
  have "drop_bit i num AND 0xF = take_bit 4 (drop_bit i num)" by (simp add: take_bit_eq_mask mask_numeral)
  moreover have "unat (take_bit 4 (drop_bit i num)) = take_bit 4 (drop_bit i (unat num))"
    by (simp only: unsigned_take_bit_eq unat_drop_bit_eq)
  then have "unat (take_bit 4 (drop_bit i num)) = ?n" by (simp only: take_bit_eq_mod drop_bit_eq_div) simp
  ultimately have "unat (drop_bit i num AND 0xF) = ?n" by simp
  then have u: "uint (drop_bit i num AND 0xF) = int ?n" by (metis uint_nat)
  moreover have "nibble_char (int ?n) = hex_char ?n"
    using nibble_cases[of ?n] by (auto simp: nibble_char_def hex_char_def)
  ultimately show ?thesis unfolding itoa_digit_def prod.case u Let_def by simp
qed

text \<open>After the digits from bit \<open>k\<close> on, what is written is the number without its low \<open>k\<close> bits.\<close>

definition itoa_upto :: "u32 \<Rightarrow> nat \<Rightarrow> bool \<times> byte list \<Rightarrow> bool" where
  "itoa_upto num k = (\<lambda>(flag, out). hex_value out = unat num div 2 ^ k \<and> (flag \<longleftrightarrow> 0 < unat num div 2 ^ k) \<and>
     (\<forall>c \<in> set out. hex_digit c) \<and> length out * 4 \<le> 32 - k)"

lemma itoa_upto_step:
  assumes "itoa_upto num (k + 4) r" "k + 4 \<le> 32"
  shows "itoa_upto num k (itoa_digit num r k)"
proof -
  obtain flag out where r: "r = (flag, out)" by (cases r)
  let ?n = "unat num div 2 ^ k mod 16"
  have split: "unat num div 2 ^ k = 16 * (unat num div 2 ^ (k + 4)) + ?n"
    by (simp add: power_add div_mult2_eq)
  have n: "?n < 16" by simp
  note h = assms(1)[unfolded itoa_upto_def r prod.case]
  show ?thesis
  proof (cases "flag \<or> ?n > 0")
    case True
    then have pos: "0 < unat num div 2 ^ k" using h split by linarith
    have "itoa_digit num r k = (True, out @ [hex_char ?n])" using True by (simp add: r itoa_digit_hex Let_def)
    moreover have "hex_value (out @ [hex_char ?n]) = unat num div 2 ^ k"
      using split h unfolding hex_value_snoc hex_char(2)[OF n] by simp
    ultimately show ?thesis using h pos hex_char(1)[OF n] assms(2) by (auto simp: itoa_upto_def)
  next
    case False
    then have "itoa_digit num r k = r" by (simp add: r itoa_digit_hex Let_def)
    moreover have z: "unat num div 2 ^ (k + 4) = 0" "hex_value out = 0" "\<not> flag" using False h by simp_all
    then have "unat num div 2 ^ k = 0" using False split by simp
    moreover have "length out * 4 \<le> 32 - k" using h by linarith
    ultimately show ?thesis using z h by (simp only: itoa_upto_def r prod.case) simp
  qed
qed

lemma itoa_value: "hex_value (drop 2 (itoa n)) = unat (u32_int n)" "\<forall>c \<in> set (drop 2 (itoa n)). hex_digit c"
  "length (itoa n) \<le> 10" "take 2 (itoa n) = [0x30, 0x78]"
proof -
  define num where "num = u32_int n"
  have zero: "u32_int 0 = 0" by (simp add: u32_int_def)
  have "unat num < 2 ^ 32" using unsigned_less[of num] by simp
  then have "unat num div 2 ^ 32 = 0" by (rule div_less)
  then have "itoa_upto num 32 (False, [])" by (simp add: itoa_upto_def hex_value_def)
  then have "itoa_upto num 0 (foldl (itoa_digit num) (False, []) [28, 24, 20, 16, 12, 8, 4, 0])"
    by (simp add: itoa_upto_step)
  then have "itoa_upto num 0 (fst (foldl (itoa_digit num) (False, []) [28, 24, 20, 16, 12, 8, 4, 0]),
      snd (foldl (itoa_digit num) (False, []) [28, 24, 20, 16, 12, 8, 4, 0]))" by (simp only: prod.collapse)
  then have "itoa_upto num 0 (fst (foldl (itoa_digit num) (False, []) [28, 24, 20, 16, 12, 8, 4, 0]),
      itoa_loop num [28, 24, 20, 16, 12, 8, 4, 0] False)" by (simp only: itoa_loop_foldl append_Nil)
  then show "hex_value (drop 2 (itoa n)) = unat (u32_int n)" "\<forall>c \<in> set (drop 2 (itoa n)). hex_digit c"
    "length (itoa n) \<le> 10" "take 2 (itoa n) = [0x30, 0x78]"
    unfolding itoa_def num_def by (auto simp: zero itoa_upto_def hex_value_def hex_digit_def)
qed

subsection \<open>Where text goes\<close>

text \<open>\<open>printed s p bs t\<close>: from \<open>s\<close>, with the position at \<open>p\<close>, the characters \<open>bs\<close> have been written.\<close>

definition cells :: "mem \<Rightarrow> nat \<Rightarrow> byte list \<Rightarrow> bool" where
  "cells m p bs = (\<forall>i < length bs. m (VIDEO + of_nat (p + 2 * i)) = bs ! i)"

definition printed :: "'a kstate_scheme \<Rightarrow> nat \<Rightarrow> byte list \<Rightarrow> 'a kstate_scheme \<Rightarrow> bool" where
  "printed s p bs t = (disp_pos t = int (p + 2 * length bs) \<and> cells (kmem t) p bs \<and>
     (\<forall>x. x \<notin> region (VIDEO + of_nat p) (2 * length bs) \<longrightarrow> kmem t x = kmem s x) \<and>
     t = s\<lparr>kmem := kmem t, disp_pos := disp_pos t\<rparr>)"

definition plain_text :: "byte list \<Rightarrow> bool" where
  "plain_text bs = (0 \<notin> set bs \<and> 0x0A \<notin> set bs)"

lemma printed_Nil: "disp_pos s = int p \<Longrightarrow> printed s p [] s"
  by (simp add: printed_def cells_def)

lemma video_apart:
  assumes "i \<noteq> j" "i < 0x10000" "j < 0x10000"
  shows "VIDEO + of_nat i \<noteq> (VIDEO + of_nat j :: addr)"
proof -
  have "unat (of_nat i :: addr) = i" "unat (of_nat j :: addr) = j" using assms(2,3) by (simp_all add: unat_of_nat)
  then show ?thesis using assms(1) by auto
qed

lemma printed_frame:
  assumes "t = s\<lparr>kmem := kmem t, disp_pos := disp_pos t\<rparr>"
  shows "t\<lparr>kmem := m, disp_pos := d\<rparr> = s\<lparr>kmem := m, disp_pos := d\<rparr>"
proof -
  have "t\<lparr>kmem := m, disp_pos := d\<rparr> = (s\<lparr>kmem := kmem t, disp_pos := disp_pos t\<rparr>)\<lparr>kmem := m, disp_pos := d\<rparr>"
    using arg_cong[OF assms, of "\<lambda>t. t\<lparr>kmem := m, disp_pos := d\<rparr>"] .
  then show ?thesis by simp
qed

lemma printed_char:
  assumes "printed s p bs t" "p + 2 * length bs < 0xFFF0" "c \<noteq> 0" "c \<noteq> 0x0A"
  shows "\<exists>u. disp_color_str [c] col t = Inr ((), u) \<and> printed s p (bs @ [c]) u"
proof -
  let ?q = "p + 2 * length bs"
  let ?m = "(kmem t)(VIDEO + of_nat ?q := c, VIDEO + of_nat (?q + 1) := col)"
  let ?u = "t\<lparr>kmem := ?m, disp_pos := int (?q + 2)\<rparr>"
  have q: "u32_int (disp_pos t) = of_nat ?q" using assms(1) by (simp add: printed_def u32_int_def)
  have un: "unat (of_nat ?q :: u32) = ?q" using assms(2) by (simp only: unat_of_nat) simp
  have si: "sint (of_nat (?q + 2) :: u32) = int (?q + 2)" using assms(2) s32_id[of "int (?q + 2)"] by (simp add: s32_def)
  have "(of_nat ?q :: u32) < 0xFFFF" using un assms(2) by (simp only: word_less_nat_alt) simp
  then have "disp_chars col [c] (of_nat ?q) (kmem t) = Inr (of_nat (?q + 2), ?m)" using assms(3,4) by (simp add: ac_simps)
  then have "disp_color_str [c] col t = Inr ((), ?u)" unfolding disp_color_str_def q by (simp only: sum.case prod.case si)
  moreover have "cells ?m p (bs @ [c])"
    unfolding cells_def
  proof (intro allI impI)
    fix i assume "i < length (bs @ [c])"
    then consider "i < length bs" | "i = length bs" by fastforce
    then show "?m (VIDEO + of_nat (p + 2 * i)) = (bs @ [c]) ! i"
    proof cases
      case 1
      have "VIDEO + of_nat (p + 2 * i) \<noteq> (VIDEO + of_nat ?q :: addr)" "VIDEO + of_nat (p + 2 * i) \<noteq> (VIDEO + of_nat (?q + 1) :: addr)"
        using 1 assms(2) by (intro video_apart; simp)+
      then show ?thesis using 1 assms(1) by (simp add: printed_def cells_def nth_append del: of_nat_add)
    next
      case 2
      have "VIDEO + of_nat ?q \<noteq> (VIDEO + of_nat (?q + 1) :: addr)" using assms(2) by (intro video_apart) simp_all
      then show ?thesis using 2 by (simp del: of_nat_add)
    qed
  qed
  moreover have "?m x = kmem s x" if x: "x \<notin> region (VIDEO + of_nat p) (2 * length (bs @ [c]))" for x
  proof -
    have sub: "region (VIDEO + of_nat p) (2 * length bs) \<subseteq> region (VIDEO + of_nat p) (2 * length (bs @ [c]))"
      by (auto simp: region_def)
    have "VIDEO + of_nat (?q + j) \<in> region (VIDEO + of_nat p) (2 * length (bs @ [c]))" if "j < 2" for j
    proof -
      have "VIDEO + of_nat (?q + j) = VIDEO + of_nat p + (of_nat (2 * length bs + j) :: addr)" by simp
      moreover have "unat (of_nat (2 * length bs + j) :: addr) = 2 * length bs + j"
        using assms(2) that by (simp only: unat_of_nat) simp
      ultimately show ?thesis using that by (intro region_offset[THEN back_subst[of "\<lambda>a. a \<in> region _ _"]]) simp_all
    qed
    from this[of 0] this[of 1] have "x \<noteq> VIDEO + of_nat ?q" "x \<noteq> VIDEO + of_nat (?q + 1)" using x by auto
    moreover have "kmem t x = kmem s x" using assms(1) sub x unfolding printed_def by blast
    ultimately show ?thesis by simp
  qed
  moreover have "?u = s\<lparr>kmem := ?m, disp_pos := int (?q + 2)\<rparr>"
    by (rule printed_frame) (use assms(1)[unfolded printed_def] in blast)
  ultimately show ?thesis
    unfolding printed_def by (intro exI[of _ ?u]) simp
qed

lemma disp_color_str_Cons:
  assumes "c \<noteq> 0" "c \<noteq> 0x0A"
  shows "disp_color_str (c # cs) col t = bindE (disp_color_str [c] col) (\<lambda>_. disp_color_str cs col) t"
  using assms by (auto simp: disp_color_str_def bindE_def u32_int_def split: sum.splits)

lemma printed_text:
  assumes "printed s p bs t" "p + 2 * (length bs + length cs) < 0xFFF0" "plain_text cs"
  shows "\<exists>u. disp_color_str cs col t = Inr ((), u) \<and> printed s p (bs @ cs) u"
  using assms
proof (induction cs arbitrary: bs t)
  case Nil
  have "sint (of_nat (p + 2 * length bs) :: u32) = int (p + 2 * length bs)"
    using Nil s32_id[of "int (p + 2 * length bs)"] by (simp add: s32_def)
  moreover have "disp_pos t = int (p + 2 * length bs)" using Nil by (simp add: printed_def)
  ultimately have "disp_color_str [] col t = Inr ((), t\<lparr>kmem := kmem t, disp_pos := disp_pos t\<rparr>)"
    by (simp add: disp_color_str_def u32_int_def)
  then show ?case using Nil by simp
next
  case (Cons c cs)
  then obtain u where u: "disp_color_str [c] col t = Inr ((), u)" "printed s p (bs @ [c]) u"
    using printed_char[of s p bs t c col] by (auto simp: plain_text_def)
  with Cons.IH[OF u(2)] Cons.prems obtain v where "disp_color_str cs col u = Inr ((), v)" "printed s p (bs @ c # cs) v"
    by (auto simp: plain_text_def)
  then show ?case using disp_color_str_Cons[of c cs col t] u(1) Cons.prems(3) by (auto simp: plain_text_def)
qed

text \<open>Several strings in a row, each in its colours.\<close>

lemma printed_block:
  assumes "printed s p bs t" "\<forall>(cs, col) \<in> set ps. plain_text cs" "p + 2 * (length bs + length (concat (map fst ps))) < 0xFFF0"
  shows "\<exists>u. blockE (map (\<lambda>(cs, col). disp_color_str cs col) ps @ rest) t = blockE rest u \<and> printed s p (bs @ concat (map fst ps)) u"
  using assms
proof (induction ps arbitrary: bs t)
  case (Cons x ps)
  obtain cs col where x: "x = (cs, col)" by (cases x)
  obtain u where u: "disp_color_str cs col t = Inr ((), u)" "printed s p (bs @ cs) u"
    using printed_text[OF Cons.prems(1), of cs col] Cons.prems(2,3) x by auto
  from Cons.IH[OF u(2)] Cons.prems(2,3) x show ?case by (auto simp: u(1))
qed auto

lemma itoa_plain: "plain_text (itoa num)"
proof -
  have e: "itoa num = [0x30, 0x78] @ drop 2 (itoa num)" using append_take_drop_id[of 2 "itoa num"] itoa_value(4)[of num] by simp
  have "plain_text (drop 2 (itoa num))" using itoa_value(2)[of num] by (auto simp: plain_text_def hex_digit_def)
  then show ?thesis by (subst e) (auto simp: plain_text_def)
qed

text \<open>A number at a given position: its digits are there, and nothing else has changed.\<close>

lemma disp_int_printed:
  assumes "p < 0xFF00"
  shows "\<exists>u. disp_int n (s\<lparr>disp_pos := int p\<rparr>) = Inr ((), u) \<and> printed (s\<lparr>disp_pos := int p\<rparr>) p (itoa n) u"
  using printed_text[OF printed_Nil, of "s\<lparr>disp_pos := int p\<rparr>" p "itoa n" "0x0F"] assms itoa_value(3)[of n] itoa_plain[of n]
  by (simp add: disp_int_def disp_str_def)

end
