(* ===== verification/Sched.thy ===== *)
theory Sched
  imports Disp
begin

section \<open>The scheduler\<close>

text \<open>
  \<open>schedule\<close> and \<open>block\<close> of kernel/proc.c. The scan keeps the best time slice seen and the
  entry that has it (\<open>greatest_ticks\<close>, \<open>p_proc_ready\<close>); when no running process has a slice
  left, every running process gets its priority as a new slice and the scan is repeated.
  The outer loop has no bound: \<open>None\<close> is the idle kernel, which only an interrupt handler
  that makes a process runnable can end. Every refill also prints \<open>cnt\<close> on the first row of the
  screen.
\<close>

fun pick_loop :: "proc_tab \<Rightarrow> int list \<Rightarrow> int \<times> int \<Rightarrow> int \<times> int" where
  "pick_loop pt [] gr = gr"
| "pick_loop pt (p # ps) (greatest_ticks, ready) =
     (if p_ticks (pt p) \<le> 0 \<or> p_flags (pt p) \<noteq> RUNNING then pick_loop pt ps (greatest_ticks, ready)
      else if p_ticks (pt p) > greatest_ticks then pick_loop pt ps (p_ticks (pt p), p)
      else pick_loop pt ps (greatest_ticks, ready))"

fun replenish_loop :: "int list \<Rightarrow> proc_tab \<Rightarrow> proc_tab" where
  "replenish_loop [] pt = pt"
| "replenish_loop (p # ps) pt =
     replenish_loop ps
       (if p_flags (pt p) = 0 then pt(p := (pt p)\<lparr>p_ticks := priority (pt p)\<rparr>) else pt)"

text \<open>The branch taken when no slice was left.\<close>

definition sched_refill :: "('a kstate_scheme, unit) op" where
  "sched_refill = blockE [
     modE (\<lambda>s. s\<lparr>proc_table := replenish_loop proc_list (proc_table s)\<rparr>),
     modE (\<lambda>s. s\<lparr>disp_pos := 20\<rparr>),
     bindE (getsE cnt) disp_int,
     modE (\<lambda>s. s\<lparr>cnt := s32 (cnt s + 1)\<rparr>)]"

partial_function (option) sched_loop :: "int \<Rightarrow> 'a kstate_scheme \<Rightarrow> (fault + unit \<times> 'a kstate_scheme) option" where
  "sched_loop greatest_ticks s =
     (let (g, r) = pick_loop (proc_table s) proc_list (greatest_ticks, p_proc_ready s) in
      if g \<le> 0 then
        (case sched_refill (s\<lparr>p_proc_ready := r\<rparr>) of
           Inl e \<Rightarrow> Some (Inl e)
         | Inr (_, t) \<Rightarrow> sched_loop g t)
      else Some (Inr ((), s\<lparr>p_proc_ready := r\<rparr>)))"

definition schedule :: "'a kstate_scheme \<Rightarrow> (fault + unit \<times> 'a kstate_scheme) option" where
  "schedule s =
     (if p_ticks (proc_table s (p_proc_ready s)) > 0 \<and> p_flags (proc_table s (p_proc_ready s)) = RUNNING
      then Some (Inr ((), s))
      else sched_loop 0 (s\<lparr>int_enabled := True\<rparr>))"

definition scheduleE :: "('a kstate_scheme, unit) op" where
  "scheduleE s = (case schedule s of None \<Rightarrow> Inl (Wait ''schedule'') | Some r \<Rightarrow> r)"

definition block :: "int \<Rightarrow> ('a kstate_scheme, unit) op" where
  "block p =
     bindE (assertE ''p->p_flags'' (\<lambda>s. p_flags (proc_table s p) \<noteq> 0)) (\<lambda>_. scheduleE)"

definition unblock :: "int \<Rightarrow> ('a kstate_scheme, unit) op" where
  "unblock p = assertE ''p->p_flags==0'' (\<lambda>s. p_flags (proc_table s p) = 0)"

subsection \<open>The scan and the refill\<close>

definition runnable :: "proc \<Rightarrow> bool" where
  "runnable p = (p_flags p = RUNNING \<and> 0 < p_ticks p)"

definition refill :: "proc \<Rightarrow> proc" where
  "refill p = (if p_flags p = 0 then p\<lparr>p_ticks := priority p\<rparr> else p)"

text \<open>
  \<open>best pt ps p\<close>: \<open>p\<close> is the first entry of \<open>ps\<close> that is runnable with the greatest slice.
\<close>

definition best :: "proc_tab \<Rightarrow> int list \<Rightarrow> int \<Rightarrow> bool" where
  "best pt ps p = (\<exists>us vs. ps = us @ p # vs \<and> runnable (pt p) \<and>
     (\<forall>q \<in> set us. runnable (pt q) \<longrightarrow> p_ticks (pt q) < p_ticks (pt p)) \<and>
     (\<forall>q \<in> set vs. runnable (pt q) \<longrightarrow> p_ticks (pt q) \<le> p_ticks (pt p)))"

lemma pick_loop_Cons:
  "pick_loop pt (p # ps) (g, r) =
     (if runnable (pt p) \<and> g < p_ticks (pt p) then pick_loop pt ps (p_ticks (pt p), p)
      else pick_loop pt ps (g, r))"
  by (auto simp: runnable_def)

lemma pick_loop_append: "pick_loop pt (us @ vs) gr = pick_loop pt vs (pick_loop pt us gr)"
  by (induction us arbitrary: gr) auto

lemma pick_loop_keep:
  "\<forall>p \<in> set ps. runnable (pt p) \<longrightarrow> p_ticks (pt p) \<le> g \<Longrightarrow> pick_loop pt ps (g, r) = (g, r)"
  by (induction ps) (auto simp: pick_loop_Cons simp del: pick_loop.simps(2))

lemma pick_loop_below:
  "g < m \<Longrightarrow> \<forall>p \<in> set ps. runnable (pt p) \<longrightarrow> p_ticks (pt p) < m \<Longrightarrow>
   fst (pick_loop pt ps (g, r)) < m"
  by (induction ps arbitrary: g r) (auto simp: pick_loop_Cons simp del: pick_loop.simps(2))

lemma pick_loop_best:
  assumes "best pt ps p"
  shows "pick_loop pt ps (0, r) = (p_ticks (pt p), p)"
proof -
  obtain us vs where ps: "ps = us @ p # vs" "runnable (pt p)"
    "\<forall>q \<in> set us. runnable (pt q) \<longrightarrow> p_ticks (pt q) < p_ticks (pt p)"
    "\<forall>q \<in> set vs. runnable (pt q) \<longrightarrow> p_ticks (pt q) \<le> p_ticks (pt p)"
    using assms by (auto simp: best_def)
  obtain g' r' where u: "pick_loop pt us (0, r) = (g', r')" by (cases "pick_loop pt us (0, r)")
  have "g' < p_ticks (pt p)"
    using pick_loop_below[OF _ ps(3), of 0 r] ps(2) u by (simp add: runnable_def)
  then show ?thesis
    using ps by (simp add: pick_loop_append u pick_loop_Cons pick_loop_keep del: pick_loop.simps(2))
qed

lemma best_exists:
  assumes "q \<in> set ps" "runnable (pt q)"
  shows "\<exists>p. best pt ps p"
proof -
  let ?T = "p_ticks ` pt ` {p \<in> set ps. runnable (pt p)}"
  have fin: "finite ?T" "?T \<noteq> {}" using assms by auto
  then have "Max ?T \<in> ?T" by (rule Max_in)
  then have "\<exists>p \<in> set ps. runnable (pt p) \<and> p_ticks (pt p) = Max ?T" by auto
  from split_list_first_prop[OF this] obtain us p vs where
    p: "ps = us @ p # vs" "runnable (pt p)" "p_ticks (pt p) = Max ?T"
      "\<forall>y \<in> set us. \<not> (runnable (pt y) \<and> p_ticks (pt y) = Max ?T)" by auto
  have "p_ticks (pt y) \<le> p_ticks (pt p)" if "y \<in> set ps" "runnable (pt y)" for y
    unfolding p(3) using that fin by (intro Max_ge) auto
  then have "best pt ps p" using p unfolding best_def
    by - (rule exI[of _ us], rule exI[of _ vs], force simp: less_le)
  then show ?thesis ..
qed

lemma pick_loop_none:
  "\<forall>p \<in> set ps. \<not> runnable (pt p) \<Longrightarrow> pick_loop pt ps (0, r) = (0, r)"
  by (rule pick_loop_keep) auto

lemma replenish_loop_eq: "distinct ps \<Longrightarrow>
   replenish_loop ps pt = (\<lambda>p. if p \<in> set ps then refill (pt p) else pt p)"
  by (induction ps arbitrary: pt) (auto simp: refill_def fun_eq_iff)

lemma distinct_proc_list [simp]: "distinct proc_list"
  by (simp add: proc_list_def)

lemma replenish_procs:
  "replenish_loop proc_list pt = (\<lambda>p. if p \<in> pids then refill (pt p) else pt p)"
  by (simp add: replenish_loop_eq)

text \<open>A process that a refill would let run: it is running, and has a slice or a priority.\<close>

definition schedulable :: "proc \<Rightarrow> bool" where
  "schedulable p = (p_flags p = RUNNING \<and> (0 < p_ticks p \<or> 0 < priority p))"

lemma schedulable_refill: "schedulable (refill p) \<Longrightarrow> schedulable p"
  by (auto simp: schedulable_def refill_def split: if_splits)

lemma runnable_schedulable: "runnable p \<Longrightarrow> schedulable p"
  by (simp add: runnable_def schedulable_def)

lemma runnable_refill: "\<not> runnable p \<Longrightarrow> runnable (refill p) = schedulable p"
  by (auto simp: schedulable_def refill_def runnable_def)

text \<open>What the refill does besides: the count is shown from offset 20 on, and goes up by one.\<close>

definition counted :: "'a kstate_scheme \<Rightarrow> 'a kstate_scheme \<Rightarrow> bool" where
  "counted s t = (cells (kmem t) 20 (itoa (cnt s)) \<and>
     (\<forall>x. x \<notin> region (VIDEO + 20) (2 * length (itoa (cnt s))) \<longrightarrow> kmem t x = kmem s x) \<and>
     t = s\<lparr>proc_table := proc_table t, p_proc_ready := p_proc_ready t, cnt := s32 (cnt s + 1), kmem := kmem t,
       disp_pos := int (20 + 2 * length (itoa (cnt s)))\<rparr>)"

lemma sched_refill_ok:
  "\<exists>t. sched_refill s = Inr ((), t) \<and> counted s t \<and> p_proc_ready t = p_proc_ready s \<and>
     proc_table t = replenish_loop proc_list (proc_table s)"
proof -
  let ?s = "s\<lparr>proc_table := replenish_loop proc_list (proc_table s)\<rparr>"
  obtain u where u: "disp_int (cnt s) (?s\<lparr>disp_pos := 20\<rparr>) = Inr ((), u)" "printed (?s\<lparr>disp_pos := 20\<rparr>) 20 (itoa (cnt s)) u"
    using disp_int_printed[of 20 "cnt s" ?s] by auto
  have again: "(?s\<lparr>disp_pos := 20\<rparr>)\<lparr>kmem := m, disp_pos := d\<rparr> = ?s\<lparr>kmem := m, disp_pos := d\<rparr>" for m d by simp
  have "u = ?s\<lparr>kmem := kmem u, disp_pos := disp_pos u\<rparr>" using u(2) unfolding printed_def again by (elim conjE)
  then obtain m d where m: "u = ?s\<lparr>kmem := m, disp_pos := d\<rparr>" ..
  have d: "d = int (20 + 2 * length (itoa (cnt s)))" "cells m 20 (itoa (cnt s))"
    "\<forall>x. x \<notin> region (VIDEO + 20) (2 * length (itoa (cnt s))) \<longrightarrow> m x = kmem s x"
    using u(2) unfolding printed_def m by simp_all
  have "sched_refill s = Inr ((), u\<lparr>cnt := s32 (cnt s + 1)\<rparr>)"
    using u(1) by (simp add: sched_refill_def op_defs m)
  then show ?thesis using d by (intro exI[of _ "u\<lparr>cnt := s32 (cnt s + 1)\<rparr>"]) (simp add: counted_def m)
qed

lemma sched_loop_idle:
  assumes "sched_loop g s = Some r"
  shows "g \<le> 0 \<longrightarrow> (\<forall>p \<in> pids. \<not> schedulable (proc_table s p)) \<longrightarrow> False"
proof (rule sched_loop.raw_induct[OF _ assms])
  fix f :: "int \<Rightarrow> 'a kstate_scheme \<Rightarrow> (fault + unit \<times> 'a kstate_scheme) option" and g s y
  assume IH: "\<And>g s y. f g s = Some y \<Longrightarrow>
      g \<le> 0 \<longrightarrow> (\<forall>p \<in> pids. \<not> schedulable (proc_table s p)) \<longrightarrow> False"
    and step: "(let (g, r) = pick_loop (proc_table s) proc_list (g, p_proc_ready s) in
      if g \<le> 0 then (case sched_refill (s\<lparr>p_proc_ready := r\<rparr>) of
           Inl e \<Rightarrow> Some (Inl e)
         | Inr (_, t) \<Rightarrow> f g t)
      else Some (Inr ((), s\<lparr>p_proc_ready := r\<rparr>))) = Some y"
  show "g \<le> 0 \<longrightarrow> (\<forall>p \<in> pids. \<not> schedulable (proc_table s p)) \<longrightarrow> False"
  proof (intro impI)
    assume g: "g \<le> 0" and none: "\<forall>p \<in> pids. \<not> schedulable (proc_table s p)"
    have "pick_loop (proc_table s) proc_list (g, p_proc_ready s) = (g, p_proc_ready s)"
      using none by (intro pick_loop_keep) (auto dest: runnable_schedulable)
    moreover obtain t where t: "sched_refill (s\<lparr>p_proc_ready := p_proc_ready s\<rparr>) = Inr ((), t)"
      "proc_table t = replenish_loop proc_list (proc_table s)"
      using sched_refill_ok[of "s\<lparr>p_proc_ready := p_proc_ready s\<rparr>"] by auto
    ultimately have "f g t = Some y" using step g by simp
    from IH[OF this] g none show False
      by (auto simp: t(2) replenish_procs dest: schedulable_refill)
  qed
qed

lemma sched_loop_ready:
  assumes "best (proc_table s) proc_list p"
  shows "sched_loop 0 s = Some (Inr ((), s\<lparr>p_proc_ready := p\<rparr>))"
  using pick_loop_best[OF assms] assms
  by (subst sched_loop.simps) (auto simp: best_def runnable_def)

lemma best_pids: "best pt proc_list p \<Longrightarrow> p \<in> pids \<and> runnable (pt p)"
proof -
  assume "best pt proc_list p"
  then obtain us vs where "proc_list = us @ p # vs" "runnable (pt p)" by (auto simp: best_def)
  then show ?thesis by (metis in_set_conv_decomp set_proc_list)
qed

text \<open>The table the scheduler decides on: as it is, or after the refill.\<close>

definition sched_table :: "proc_tab \<Rightarrow> proc_tab" where
  "sched_table pt = (if \<exists>p \<in> pids. runnable (pt p) then pt
     else (\<lambda>p. if p \<in> pids then refill (pt p) else pt p))"

text \<open>The state in which the choice is made.\<close>

definition sched_from :: "'a kstate_scheme \<Rightarrow> 'a kstate_scheme \<Rightarrow> bool" where
  "sched_from s u = (if \<exists>p \<in> pids. runnable (proc_table s p) then u = s
     else counted s u \<and> p_proc_ready u = p_proc_ready s \<and> proc_table u = sched_table (proc_table s))"

lemma sched_from_table: "sched_from s u \<Longrightarrow> proc_table u = sched_table (proc_table s)"
  by (auto simp: sched_from_def sched_table_def split: if_splits)

lemma sched_loop_some:
  assumes "\<exists>p \<in> pids. schedulable (proc_table s p)"
  obtains p u where "best (sched_table (proc_table s)) proc_list p" "sched_from s u"
    "sched_loop 0 s = Some (Inr ((), u\<lparr>p_proc_ready := p\<rparr>))"
proof (cases "\<exists>p \<in> pids. runnable (proc_table s p)")
  case True
  then obtain p where p: "best (proc_table s) proc_list p"
    using best_exists[of _ proc_list "proc_table s"] by auto
  then show ?thesis using that[of p s] True sched_loop_ready[OF p] by (simp add: sched_table_def sched_from_def)
next
  case False
  obtain u where u: "sched_refill s = Inr ((), u)" "counted s u" "p_proc_ready u = p_proc_ready s"
    "proc_table u = replenish_loop proc_list (proc_table s)"
    using sched_refill_ok by blast
  have tab: "proc_table u = sched_table (proc_table s)"
    using False by (simp add: u(4) sched_table_def replenish_procs)
  have "\<exists>p \<in> pids. runnable (proc_table u p)"
    using assms False by (auto simp: tab sched_table_def runnable_refill)
  then obtain p where p: "best (proc_table u) proc_list p"
    using best_exists[of _ proc_list "proc_table u"] by auto
  have "pick_loop (proc_table s) proc_list (0, p_proc_ready s) = (0, p_proc_ready s)"
    using False by (intro pick_loop_none) auto
  then have "sched_loop 0 s = sched_loop 0 u"
    using u(1) by (subst sched_loop.simps) simp
  then show ?thesis using that[of p u] sched_loop_ready[OF p] p tab u False by (simp add: sched_from_def)
qed

lemma schedule_eq_None:
  "schedule s = None \<longleftrightarrow> \<not> runnable (proc_table s (p_proc_ready s)) \<and>
     (\<forall>p \<in> pids. \<not> schedulable (proc_table s p))"
proof -
  let ?s = "s\<lparr>int_enabled := True\<rparr>"
  have "sched_loop 0 ?s = None \<longleftrightarrow> (\<forall>p \<in> pids. \<not> schedulable (proc_table s p))"
  proof
    assume none: "sched_loop 0 ?s = None"
    show "\<forall>p \<in> pids. \<not> schedulable (proc_table s p)"
    proof (rule ccontr)
      assume "\<not> ?thesis"
      then have "\<exists>p \<in> pids. schedulable (proc_table ?s p)" by simp
      from sched_loop_some[OF this] none show False by (metis option.distinct(1))
    qed
  next
    assume "\<forall>p \<in> pids. \<not> schedulable (proc_table s p)"
    then show "sched_loop 0 ?s = None"
      using sched_loop_idle[of 0 ?s] by (cases "sched_loop 0 ?s") simp_all
  qed
  then show ?thesis by (auto simp: schedule_def runnable_def)
qed

lemma schedule_some_cases:
  assumes "schedule s = Some r"
  obtains "runnable (proc_table s (p_proc_ready s))" "r = Inr ((), s)"
  | p u where "\<not> runnable (proc_table s (p_proc_ready s))" "best (sched_table (proc_table s)) proc_list p"
      "sched_from (s\<lparr>int_enabled := True\<rparr>) u" "r = Inr ((), u\<lparr>p_proc_ready := p\<rparr>)"
proof (cases "runnable (proc_table s (p_proc_ready s))")
  case True
  then have "schedule s = Some (Inr ((), s))" unfolding schedule_def runnable_def by auto
  with assms have "r = Inr ((), s)" by simp
  then show ?thesis by (rule that(1)[OF True])
next
  case False
  let ?s = "s\<lparr>int_enabled := True\<rparr>"
  have "\<exists>p \<in> pids. schedulable (proc_table ?s p)"
    using schedule_eq_None[of s] assms False by auto
  from sched_loop_some[OF this] obtain p u where
    p: "best (sched_table (proc_table ?s)) proc_list p" "sched_from ?s u" and
    loop: "sched_loop 0 ?s = Some (Inr ((), u\<lparr>p_proc_ready := p\<rparr>))" .
  have "schedule s = sched_loop 0 ?s"
    using False unfolding schedule_def runnable_def by auto
  with assms loop have r: "r = Inr ((), u\<lparr>p_proc_ready := p\<rparr>)" by simp
  show ?thesis by (rule that(2)[OF False _ p(2) r]) (use p(1) in simp)
qed

lemma schedule_no_fault: "schedule s \<noteq> Some (Inl e)"
  by (auto elim: schedule_some_cases)

lemma schedule_some: "schedule s \<noteq> None \<Longrightarrow> \<exists>t. schedule s = Some (Inr ((), t))"
  by (auto elim: schedule_some_cases)

subsection \<open>What the scheduler guarantees\<close>

text \<open>
  C8. The scheduler's unbounded loop returns exactly when the current process may go on, or
  some entry of the table is running and has a slice left or a positive priority; otherwise
  the kernel spins until an interrupt handler makes a process runnable. It never faults.
\<close>

theorem schedule_returns_iff:
  "((\<exists>t. schedule s = Some (Inr ((), t))) \<longleftrightarrow> runnable (proc_table s (p_proc_ready s)) \<or>
     (\<exists>p \<in> pids. schedulable (proc_table s p))) \<and> (\<forall>e. schedule s \<noteq> Some (Inl e))"
proof -
  have "(\<exists>t. schedule s = Some (Inr ((), t))) \<longleftrightarrow> schedule s \<noteq> None"
    by (auto elim: schedule_some_cases)
  then show ?thesis using schedule_eq_None[of s] schedule_no_fault by auto
qed

lemma schedule_cases:
  assumes "schedule s = Some (Inr ((), t))"
  obtains "runnable (proc_table s (p_proc_ready s))" "t = s"
  | p u where "\<not> runnable (proc_table s (p_proc_ready s))" "best (sched_table (proc_table s)) proc_list p"
      "sched_from (s\<lparr>int_enabled := True\<rparr>) u" "t = u\<lparr>p_proc_ready := p\<rparr>"
  using assms by (cases rule: schedule_some_cases) auto

text \<open>
  C9. When the scheduler switches, it picks the first of the runnable processes with the longest
  slice. If some runnable process has a slice, nothing else changes but the interrupt flag,
  which is set; if none has, the table is refilled, once, the idle counter is shown in the video
  memory from offset 20 on, where the next text will go behind it, and goes up by one, and no
  other byte of the memory changes. A current process that is still runnable is kept and
  nothing changes.
\<close>

theorem schedule_picks_best:
  assumes "schedule s = Some (Inr ((), t))"
  shows "if runnable (proc_table s (p_proc_ready s)) then t = s
    else if \<exists>q \<in> pids. runnable (proc_table s q) then
      \<exists>p. best (proc_table s) proc_list p \<and> t = s\<lparr>int_enabled := True, p_proc_ready := p\<rparr>
    else \<exists>p m. best (\<lambda>i. if i \<in> pids then refill (proc_table s i) else proc_table s i) proc_list p \<and>
      cells m 20 (itoa (cnt s)) \<and>
      (\<forall>x. x \<notin> region (VIDEO + 20) (2 * length (itoa (cnt s))) \<longrightarrow> m x = kmem s x) \<and>
      t = s\<lparr>int_enabled := True, proc_table := \<lambda>i. if i \<in> pids then refill (proc_table s i) else proc_table s i,
        p_proc_ready := p, cnt := s32 (cnt s + 1), kmem := m, disp_pos := int (20 + 2 * length (itoa (cnt s)))\<rparr>"
  using assms
proof (cases rule: schedule_cases)
  case 1
  then show ?thesis by simp
next
  case (2 p u)
  show ?thesis
  proof (cases "\<exists>q \<in> pids. runnable (proc_table s q)")
    case True
    then show ?thesis using 2 by (auto simp: sched_from_def sched_table_def)
  next
    case False
    then have tab: "sched_table (proc_table s) = (\<lambda>i. if i \<in> pids then refill (proc_table s i) else proc_table s i)"
      by (simp add: sched_table_def)
    have u: "counted (s\<lparr>int_enabled := True\<rparr>) u" "proc_table u = sched_table (proc_table s)" "p_proc_ready u = p_proc_ready s"
      using 2(3) False by (simp_all add: sched_from_def)
    define m where "m = kmem u"
    have c: "cells m 20 (itoa (cnt s))" "\<forall>x. x \<notin> region (VIDEO + 20) (2 * length (itoa (cnt s))) \<longrightarrow> m x = kmem s x"
      using u(1) by (simp_all add: counted_def m_def)
    have "u = (s\<lparr>int_enabled := True\<rparr>)\<lparr>proc_table := proc_table u, p_proc_ready := p_proc_ready u, cnt := s32 (cnt (s\<lparr>int_enabled := True\<rparr>) + 1),
        kmem := kmem u, disp_pos := int (20 + 2 * length (itoa (cnt (s\<lparr>int_enabled := True\<rparr>))))\<rparr>"
      using u(1) unfolding counted_def by (elim conjE)
    note eq = this[unfolded u(2,3) tab, folded m_def]
    have "t = s\<lparr>int_enabled := True, proc_table := \<lambda>i. if i \<in> pids then refill (proc_table s i) else proc_table s i,
        p_proc_ready := p, cnt := s32 (cnt s + 1), kmem := m, disp_pos := int (20 + 2 * length (itoa (cnt s)))\<rparr>"
      unfolding 2(4) by (subst eq) simp
    then show ?thesis using 2(1,2) False c unfolding tab by (simp only: if_False) blast
  qed
qed

text \<open>The refill and the choice of the first process, from the idle state.\<close>

theorem schedule_picks_best_witness:
  "\<exists>p m. best (\<lambda>i. if i \<in> pids then refill idle_proc else idle_proc) proc_list p \<and> cells m 20 [0x30, 0x78, 0x30] \<and>
     schedule idle_state = Some (Inr ((), idle_state\<lparr>int_enabled := True,
       proc_table := (\<lambda>i. if i \<in> pids then refill idle_proc else idle_proc), p_proc_ready := p, cnt := 1, kmem := m, disp_pos := 26\<rparr>))"
proof -
  have "schedule idle_state \<noteq> None"
    by (simp add: schedule_eq_None schedulable_def) (auto simp: pids_def intro!: bexI[of _ 0])
  then obtain t where t: "schedule idle_state = Some (Inr ((), t))" by (auto elim: schedule_some_cases)
  have facts: "cnt idle_state = 0" "proc_table idle_state = (\<lambda>i. idle_proc)" "\<not> runnable idle_proc" "s32 1 = 1"
    "itoa 0 = [0x30, 0x78, 0x30]"
    by (simp_all add: idle_state_def runnable_def s32_def itoa_def u32_int_def)
  obtain p m where "best (\<lambda>i. if i \<in> pids then refill idle_proc else idle_proc) proc_list p" "cells m 20 [0x30, 0x78, 0x30]"
    "t = idle_state\<lparr>int_enabled := True, proc_table := (\<lambda>i. if i \<in> pids then refill idle_proc else idle_proc),
       p_proc_ready := p, cnt := 1, kmem := m, disp_pos := 26\<rparr>"
    using schedule_picks_best[OF t] by (auto simp: facts cong: if_cong)
  then show ?thesis using t by blast
qed

text \<open>The fields other than the slice are those of the table before.\<close>

lemma sched_table_fields [simp]:
  "p_flags (sched_table pt p) = p_flags (pt p)"
  "p_msg (sched_table pt p) = p_msg (pt p)"
  "p_recvfrom (sched_table pt p) = p_recvfrom (pt p)"
  "p_sendto (sched_table pt p) = p_sendto (pt p)"
  "has_int_msg (sched_table pt p) = has_int_msg (pt p)"
  "q_sending (sched_table pt p) = q_sending (pt p)"
  "next_sending (sched_table pt p) = next_sending (pt p)"
  "ldts (sched_table pt p) = ldts (pt p)"
  "priority (sched_table pt p) = priority (pt p)"
  "p_parent (sched_table pt p) = p_parent (pt p)"
  by (simp_all add: sched_table_def refill_def)

lemma sched_from_fields:
  assumes "sched_from s u"
  shows "int_enabled u = int_enabled s" "k_reenter u = k_reenter s" "key_pressed u = key_pressed s" "kticks u = kticks s"
proof -
  have "u = s \<or> counted s u" using assms by (auto simp: sched_from_def split: if_splits)
  then have "int_enabled u = int_enabled s \<and> k_reenter u = k_reenter s \<and> key_pressed u = key_pressed s \<and> kticks u = kticks s"
  proof
    assume "counted s u"
    then have "u = s\<lparr>proc_table := proc_table u, p_proc_ready := p_proc_ready u, cnt := s32 (cnt s + 1), kmem := kmem u,
       disp_pos := int (20 + 2 * length (itoa (cnt s)))\<rparr>" unfolding counted_def by (elim conjE)
    from arg_cong[OF this, of int_enabled] arg_cong[OF this, of k_reenter] arg_cong[OF this, of key_pressed] arg_cong[OF this, of kticks]
    show ?thesis by simp
  qed simp
  then show "int_enabled u = int_enabled s" "k_reenter u = k_reenter s" "key_pressed u = key_pressed s" "kticks u = kticks s"
    by blast+
qed

lemma schedule_table:
  assumes "schedule s = Some (Inr ((), t))"
  shows "proc_table t = proc_table s \<or> proc_table t = sched_table (proc_table s)"
  using assms by (cases rule: schedule_cases) (simp_all add: sched_from_table)

lemma schedule_ready:
  assumes "schedule s = Some (Inr ((), t))" "p_proc_ready s \<in> pids"
  shows "p_proc_ready t \<in> pids \<and> runnable (proc_table t (p_proc_ready t))"
  using assms(1)
proof (cases rule: schedule_cases)
  case 1
  then show ?thesis using assms(2) by simp
next
  case (2 p u)
  then show ?thesis using best_pids[OF 2(2)] by (simp add: sched_from_table)
qed

end
