(* ===== verification/Ipc.thy ===== *)
theory Ipc
  imports Sched
begin

section \<open>Message passing\<close>

text \<open>
  \<open>sys_sendrec\<close>, \<open>msg_send\<close>, \<open>msg_receive\<close>, \<open>deadlock\<close> and \<open>inform_int\<close> of
  kernel/proc.c. A process that waits to deliver is linked into the sending queue of its
  destination, a list threaded through the process table (\<open>q_sending\<close>, \<open>next_sending\<close>).
  \<open>msg_send\<close> and \<open>msg_receive\<close> are split at their call of \<open>block\<close>: the \<open>_enter\<close> part
  returns whether the caller has to block. The \<open>CRITICAL\<close> sections are compiled out in
  the source. The chain that \<open>deadlock\<close> prints is walked, not printed.
\<close>

definition assertP :: "string \<Rightarrow> int \<Rightarrow> (proc \<Rightarrow> bool) \<Rightarrow> ('a kstate_scheme, unit) op" where
  "assertP what i P = assertE what (\<lambda>s. P (proc_table s i))"

subsection \<open>Deadlock detection\<close>

text \<open>The \<open>do ... while\<close> loop that prints the chain.\<close>

partial_function (option) chain_loop :: "proc_tab \<Rightarrow> int \<Rightarrow> int \<Rightarrow> (fault + unit) option" where
  "chain_loop pt src p =
     (if p \<notin> pids then Some (Inl (Bad_access ''proc_table''))
      else if p_msg (pt p) = 0 then Some (Inl (Assert ''p->p_msg''))
      else if p_sendto (pt p) = src then Some (Inr ())
      else chain_loop pt src (p_sendto (pt p)))"

partial_function (option) deadlock_loop ::
    "proc_tab \<Rightarrow> int \<Rightarrow> int \<Rightarrow> int \<Rightarrow> (fault + bool) option" where
  "deadlock_loop pt src dest p =
     (if p \<notin> pids then Some (Inl (Bad_access ''proc_table''))
      else if sending (pt p) then
        (if p_sendto (pt p) = src then
          (case chain_loop pt src dest of
             None \<Rightarrow> None
           | Some (Inl e) \<Rightarrow> Some (Inl e)
           | Some (Inr _) \<Rightarrow> Some (Inr True))
         else deadlock_loop pt src dest (p_sendto (pt p)))
      else Some (Inr False))"

definition deadlock :: "int \<Rightarrow> int \<Rightarrow> ('a kstate_scheme, bool) op" where
  "deadlock src dest = loopE (Spin ''deadlock'') (\<lambda>s. deadlock_loop (proc_table s) src dest dest)"

subsection \<open>Sending\<close>

text \<open>\<open>while(p->next_sending) p=p->next_sending;\<close>\<close>

partial_function (option) queue_last :: "proc_tab \<Rightarrow> int \<Rightarrow> (fault + int) option" where
  "queue_last pt p =
     (if p \<notin> pids then Some (Inl (Bad_access ''proc_table''))
      else if next_sending (pt p) = None then Some (Inr p)
      else queue_last pt (the (next_sending (pt p))))"

definition append_sender :: "int \<Rightarrow> int \<Rightarrow> ('a kstate_scheme, unit) op" where
  "append_sender dest sender =
     bindE (bindE (procE dest) (\<lambda>pd.
       case q_sending pd of
         Some p \<Rightarrow>
           bindE (loopE (Spin ''msg_send'') (\<lambda>s. queue_last (proc_table s) p)) (\<lambda>l.
           updP l (\<lambda>x. x\<lparr>next_sending := Some sender\<rparr>))
       | None \<Rightarrow> updP dest (\<lambda>x. x\<lparr>q_sending := Some sender\<rparr>))) (\<lambda>_.
     updP sender (\<lambda>x. x\<lparr>next_sending := None\<rparr>))"

definition deliver_to :: "int \<Rightarrow> int \<Rightarrow> addr \<Rightarrow> ('a kstate_scheme, unit) op" where
  "deliver_to dest sender m = blockE [
     assertP ''p_dest->p_msg'' dest (\<lambda>p. p_msg p \<noteq> 0),
     assertE ''m'' (\<lambda>_. m \<noteq> 0),
     bindE (procE dest) (\<lambda>pd. copy_between dest (p_msg pd) sender m (int MESSAGE_SIZE)),
     updP dest (\<lambda>p. p\<lparr>p_msg := 0\<rparr>),
     updP dest (\<lambda>p. p\<lparr>p_flags := p_flags p AND NOT RECEIVING\<rparr>),
     updP dest (\<lambda>p. p\<lparr>p_recvfrom := NO_TASK\<rparr>),
     unblock dest,
     assertP ''p_dest->p_flags ==0'' dest (\<lambda>p. p_flags p = 0),
     assertP ''p_dest->p_msg ==0'' dest (\<lambda>p. p_msg p = 0),
     assertP ''p_dest->p_recvfrom== NO_TASK'' dest (\<lambda>p. p_recvfrom p = NO_TASK),
     assertP ''p_dest->p_sendto== NO_TASK'' dest (\<lambda>p. p_sendto p = NO_TASK),
     assertP ''sender->p_flags == 0'' sender (\<lambda>p. p_flags p = 0),
     assertP ''sender->p_msg ==  0'' sender (\<lambda>p. p_msg p = 0),
     assertP ''sender->p_recvfrom == NO_TASK'' sender (\<lambda>p. p_recvfrom p = NO_TASK),
     assertP ''sender->p_sendto == NO_TASK'' sender (\<lambda>p. p_sendto p = NO_TASK)]"

definition enqueue_at :: "int \<Rightarrow> int \<Rightarrow> addr \<Rightarrow> ('a kstate_scheme, unit) op" where
  "enqueue_at dest sender m = blockE [
     updP sender (\<lambda>p. p\<lparr>p_flags := p_flags p OR SENDING\<rparr>),
     assertP ''sender->p_flags == SENDING'' sender (\<lambda>p. p_flags p = SENDING),
     updP sender (\<lambda>p. p\<lparr>p_sendto := dest\<rparr>),
     updP sender (\<lambda>p. p\<lparr>p_msg := m\<rparr>),
     append_sender dest sender]"

definition msg_send_enter :: "int \<Rightarrow> int \<Rightarrow> addr \<Rightarrow> ('a kstate_scheme, bool) op" where
  "msg_send_enter sender dest m =
     bindE (assertE ''proc2pid(sender)!=dest'' (\<lambda>_. sender \<noteq> dest)) (\<lambda>_.
     bindE (deadlock sender dest) (\<lambda>d.
     bindE (whenE d (fail (Panic ''>>DEADLOCK<<''))) (\<lambda>_.
     bindE disable_int (\<lambda>_.
     bindE (procE dest) (\<lambda>p_dest.
     if receiving p_dest \<and> (p_recvfrom p_dest = sender \<or> p_recvfrom p_dest = ANY)
     then bindE (deliver_to dest sender m) (\<lambda>_. ret False)
     else bindE (enqueue_at dest sender m) (\<lambda>_. ret True))))))"

definition msg_send :: "int \<Rightarrow> int \<Rightarrow> addr \<Rightarrow> ('a kstate_scheme, unit) op" where
  "msg_send sender dest m = bindE (msg_send_enter sender dest m) (\<lambda>b. whenE b (block sender))"

subsection \<open>Receiving\<close>

text \<open>
  The loop that looks for \<open>src\<close> in the queue; its result is \<open>prev\<close>. When \<open>src\<close> is not
  in the queue the loop ends with \<open>prev\<close> at the last entry.
\<close>

partial_function (option) find_sender ::
    "proc_tab \<Rightarrow> int \<Rightarrow> int option \<Rightarrow> int option \<Rightarrow> (fault + int option) option" where
  "find_sender pt src prev p =
     (if p = None then Some (Inr prev)
      else if \<not> sending (pt src) then Some (Inl (Assert ''p_from->p_flags & SENDING''))
      else if the p = src then Some (Inr prev)
      else if the p \<notin> pids then Some (Inl (Bad_access ''proc_table''))
      else find_sender pt src p (next_sending (pt (the p))))"

definition rendezvous_asserts :: "int \<Rightarrow> int \<Rightarrow> ('a kstate_scheme, unit) op" where
  "rendezvous_asserts who p_from = blockE [
     assertP ''who_want_to_receive->p_flags==0'' who (\<lambda>p. p_flags p = 0),
     assertP ''who_want_to_receive->p_msg==0'' who (\<lambda>p. p_msg p = 0),
     assertP ''who_want_to_receive->p_recvfrom ==NO_TASK'' who (\<lambda>p. p_recvfrom p = NO_TASK),
     assertP ''who_want_to_receive->p_sendto == NO_TASK'' who (\<lambda>p. p_sendto p = NO_TASK),
     assertP ''who_want_to_receive->q_sending !=0'' who (\<lambda>p. q_sending p \<noteq> None),
     assertP ''p_from->p_flags == SENDING'' p_from (\<lambda>p. p_flags p = SENDING),
     assertP ''p_from->p_msg !=0'' p_from (\<lambda>p. p_msg p \<noteq> 0),
     assertP ''p_from->p_recvfrom == NO_TASK'' p_from (\<lambda>p. p_recvfrom p = NO_TASK),
     assertP ''p_from->p_sendto == proc2pid(who_want_to_receive)'' p_from (\<lambda>p. p_sendto p = who)]"

text \<open>
  The sender to take the message from and the entry before it in the queue (\<open>p_from\<close>,
  \<open>prev\<close>); \<open>None\<close> is \<open>copy_enable == 0\<close>.
\<close>

definition pick_sender :: "int \<Rightarrow> int \<Rightarrow> ('a kstate_scheme, (int \<times> int option) option) op" where
  "pick_sender who src =
     (if src = ANY then
        bindE (procE who) (\<lambda>w.
        case q_sending w of
          None \<Rightarrow> ret None
        | Some p_from \<Rightarrow>
            bindE (procE p_from) (\<lambda>_.
            bindE (rendezvous_asserts who p_from) (\<lambda>_. ret (Some (p_from, None)))))
      else if src = INTERRUPT then ret None
      else
        bindE (procE src) (\<lambda>f.
        if sending f \<and> p_sendto f = who then
          bindE (procE who) (\<lambda>w.
          bindE (assertE ''p'' (\<lambda>_. q_sending w \<noteq> None)) (\<lambda>_.
          bindE (loopE (Spin ''msg_receive'')
            (\<lambda>s. find_sender (proc_table s) src None (q_sending w))) (\<lambda>prev.
          bindE (rendezvous_asserts who src) (\<lambda>_. ret (Some (src, prev))))))
        else ret None))"

definition unlink_sender :: "int \<Rightarrow> int \<Rightarrow> int option \<Rightarrow> ('a kstate_scheme, unit) op" where
  "unlink_sender who p_from prev =
     bindE (procE who) (\<lambda>w.
     bindE (procE p_from) (\<lambda>f.
     if q_sending w = Some p_from then blockE [
       assertE ''prev==0'' (\<lambda>_. prev = None),
       updP who (\<lambda>x. x\<lparr>q_sending := next_sending f\<rparr>),
       updP p_from (\<lambda>x. x\<lparr>next_sending := None\<rparr>)]
     else blockE [
       assertE ''prev'' (\<lambda>_. prev \<noteq> None),
       updP (the prev) (\<lambda>x. x\<lparr>next_sending := next_sending f\<rparr>),
       updP p_from (\<lambda>x. x\<lparr>next_sending := None\<rparr>)]))"

definition take_from :: "int \<Rightarrow> int \<Rightarrow> addr \<Rightarrow> ('a kstate_scheme, unit) op" where
  "take_from who p_from m = blockE [
     assertE ''m'' (\<lambda>_. m \<noteq> 0),
     assertP ''p_from->p_msg'' p_from (\<lambda>p. p_msg p \<noteq> 0),
     bindE (procE p_from) (\<lambda>f. copy_between who m p_from (p_msg f) (int MESSAGE_SIZE)),
     updP p_from (\<lambda>p. p\<lparr>p_msg := 0\<rparr>),
     updP p_from (\<lambda>p. p\<lparr>p_sendto := NO_TASK\<rparr>),
     updP p_from (\<lambda>p. p\<lparr>p_flags := p_flags p AND NOT SENDING\<rparr>),
     unblock p_from]"

definition take_interrupt :: "int \<Rightarrow> addr \<Rightarrow> ('a kstate_scheme, unit) op" where
  "take_interrupt who m = blockE [
     assertE ''m'' (\<lambda>_. m \<noteq> 0),
     bindE (va2la who m) (\<lambda>d. modE (\<lambda>s. s\<lparr>kmem :=
       put_msg (kmem s) d (zero_msg\<lparr>m_source := INTERRUPT, m_type := HARD_INT\<rparr>)\<rparr>)),
     updP who (\<lambda>p. p\<lparr>has_int_msg := 0\<rparr>),
     assertP ''who_want_to_receive->p_flags==0'' who (\<lambda>p. p_flags p = 0),
     assertP ''who_want_to_receive->p_msg == 0'' who (\<lambda>p. p_msg p = 0),
     assertP ''who_want_to_receive->p_sendto == NO_TASK'' who (\<lambda>p. p_sendto p = NO_TASK),
     assertP ''who_want_to_receive->has_int_msg == 0'' who (\<lambda>p. has_int_msg p = 0)]"

definition wait_for :: "int \<Rightarrow> int \<Rightarrow> addr \<Rightarrow> ('a kstate_scheme, unit) op" where
  "wait_for who src m = blockE [
     updP who (\<lambda>p. p\<lparr>p_flags := p_flags p OR RECEIVING\<rparr>),
     updP who (\<lambda>p. p\<lparr>p_msg := m\<rparr>),
     updP who (\<lambda>p. p\<lparr>p_recvfrom := src\<rparr>)]"

definition msg_receive_enter :: "int \<Rightarrow> int \<Rightarrow> addr \<Rightarrow> ('a kstate_scheme, bool) op" where
  "msg_receive_enter who src m =
     bindE (assertE ''proc2pid(current_pro)!=src'' (\<lambda>_. who \<noteq> src)) (\<lambda>_.
     bindE disable_int (\<lambda>_.
     bindE (procE who) (\<lambda>w.
     if has_int_msg w \<noteq> 0 \<and> (src = ANY \<or> src = INTERRUPT)
     then bindE (take_interrupt who m) (\<lambda>_. ret False)
     else
       bindE (pick_sender who src) (\<lambda>c.
       case c of
         Some (p_from, prev) \<Rightarrow>
           bindE (unlink_sender who p_from prev) (\<lambda>_.
           bindE (take_from who p_from m) (\<lambda>_. ret False))
       | None \<Rightarrow> bindE (wait_for who src m) (\<lambda>_. ret True)))))"

definition msg_receive :: "int \<Rightarrow> int \<Rightarrow> addr \<Rightarrow> ('a kstate_scheme, unit) op" where
  "msg_receive who src m = bindE (msg_receive_enter who src m) (\<lambda>b. whenE b (block who))"

subsection \<open>The system call and the interrupt notification\<close>

text \<open>\<open>src_dest\<close> is checked against the table, \<open>ANY\<close> and \<open>INTERRUPT\<close>, for both functions.\<close>

definition sys_sendrec :: "int \<Rightarrow> int \<Rightarrow> addr \<Rightarrow> int \<Rightarrow> ('a kstate_scheme, int) op" where
  "sys_sendrec func src_dest m p =
     bindE (assertE ''k_reenter>=0'' (\<lambda>s. 0 \<le> uint (k_reenter s))) (\<lambda>_.
     bindE (assertE ''src_dest'' (\<lambda>_. (0 \<le> src_dest \<and> src_dest < NR_PROCS) \<or>
       src_dest = ANY \<or> src_dest = INTERRUPT)) (\<lambda>_.
     bindE (va2la p m) (\<lambda>mla.
     bindE (modE (\<lambda>s. s\<lparr>kmem := wr32 (kmem s) mla (u32_int p)\<rparr>)) (\<lambda>_.
     bindE (assertE ''mla->source != src_dest'' (\<lambda>s. sint (rd32 (kmem s) mla) \<noteq> src_dest)) (\<lambda>_.
     bindE (if func = F_SEND then msg_send p src_dest m
            else if func = F_RECEIVE then msg_receive p src_dest m
            else fail (Panic ''{sys_sendrec} invalid function'')) (\<lambda>_.
     ret 0))))))"

text \<open>
  The message words are stored through \<open>p_msg\<close> itself, without \<open>va2la\<close>: the source relies
  on the receiver being one of the flat native processes.
\<close>

definition inform_int :: "int \<Rightarrow> ('a kstate_scheme, unit) op" where
  "inform_int task_nr =
     bindE (procE task_nr) (\<lambda>p.
     if receiving p \<and> (p_recvfrom p = INTERRUPT \<or> p_recvfrom p = ANY) then blockE [
       modE (\<lambda>s. s\<lparr>kmem := wr32 (kmem s) (p_msg p) (u32_int INTERRUPT)\<rparr>),
       modE (\<lambda>s. s\<lparr>kmem := wr32 (kmem s) (p_msg p + 4) (u32_int HARD_INT)\<rparr>),
       updP task_nr (\<lambda>p. p\<lparr>p_msg := 0\<rparr>),
       updP task_nr (\<lambda>p. p\<lparr>has_int_msg := 0\<rparr>),
       updP task_nr (\<lambda>p. p\<lparr>p_flags := p_flags p AND NOT RECEIVING\<rparr>),
       updP task_nr (\<lambda>p. p\<lparr>p_recvfrom := NO_TASK\<rparr>),
       assertP ''p->p_flags == 0'' task_nr (\<lambda>p. p_flags p = 0),
       unblock task_nr,
       assertP ''p->p_msg == 0'' task_nr (\<lambda>p. p_msg p = 0),
       assertP ''p->p_recvfrom == NO_TASK'' task_nr (\<lambda>p. p_recvfrom p = NO_TASK),
       assertP ''p->p_sendto == NO_TASK'' task_nr (\<lambda>p. p_sendto p = NO_TASK)]
     else updP task_nr (\<lambda>p. p\<lparr>has_int_msg := 1\<rparr>))"

end
