(* ===== verification/Ipc_Inv.thy ===== *)
theory Ipc_Inv
  imports Ipc
begin

section \<open>The sending queues and the invariant of message passing\<close>

text \<open>
  The lists that \<open>append_sender\<close> and \<open>unlink_sender\<close> thread through the table, the invariant
  \<open>ipc_wf\<close> that relates them to the flags of the processes, and what each operation of
  kernel/proc.c does to a table that satisfies it.
\<close>

subsection \<open>Sending queues as lists in the table\<close>

text \<open>
  \<open>queue_seg pt p xs e\<close>: following \<open>next_sending\<close> from the pointer \<open>p\<close> visits the entries
  \<open>xs\<close> and arrives at the pointer \<open>e\<close>.
\<close>

fun queue_seg :: "proc_tab \<Rightarrow> int option \<Rightarrow> int list \<Rightarrow> int option \<Rightarrow> bool" where
  "queue_seg pt p [] e = (p = e)"
| "queue_seg pt p (x # xs) e = (p = Some x \<and> queue_seg pt (next_sending (pt x)) xs e)"

text \<open>\<open>Q r\<close> is the sending queue of \<open>r\<close>; no process is in two queues.\<close>

definition queues :: "proc_tab \<Rightarrow> (int \<Rightarrow> int list) \<Rightarrow> bool" where
  "queues pt Q =
     ((\<forall>r \<in> pids. queue_seg pt (q_sending (pt r)) (Q r) None \<and> distinct (Q r) \<and> set (Q r) \<subseteq> pids) \<and>
      (\<forall>r \<in> pids. \<forall>r' \<in> pids. r \<noteq> r' \<longrightarrow> set (Q r) \<inter> set (Q r') = {}))"

lemma queues_simps:
  assumes "queues pt Q" "r \<in> pids"
  shows "queue_seg pt (q_sending (pt r)) (Q r) None" "distinct (Q r)" "set (Q r) \<subseteq> pids"
  using assms by (auto simp: queues_def)

lemma queue_seg_append:
  "queue_seg pt p (xs @ ys) e \<longleftrightarrow> (\<exists>q. queue_seg pt p xs q \<and> queue_seg pt q ys e)"
  by (induction xs arbitrary: p) auto

lemma queue_seg_cong:
  "(\<And>x. x \<in> set xs \<Longrightarrow> next_sending (pt x) = next_sending (pt' x)) \<Longrightarrow>
   queue_seg pt p xs e = queue_seg pt' p xs e"
  by (induction xs arbitrary: p) auto

lemma queue_seg_same: "queue_seg pt p xs e \<Longrightarrow>
   (\<And>x. x \<in> set xs \<Longrightarrow> next_sending (pt' x) = next_sending (pt x)) \<Longrightarrow> queue_seg pt' p xs e"
  using queue_seg_cong by metis

lemma queue_seg_hd: "queue_seg pt p xs None \<Longrightarrow> p = (if xs = [] then None else Some (hd xs))"
  by (cases xs) auto

lemma queue_seg_next:
  "queue_seg pt p (us @ f # vs) None \<Longrightarrow> next_sending (pt f) = (if vs = [] then None else Some (hd vs))"
  by (auto simp: queue_seg_append dest: queue_seg_hd)

lemma queue_last_seg:
  "queue_seg pt (Some p) xs None \<Longrightarrow> set xs \<subseteq> pids \<Longrightarrow> queue_last pt p = Some (Inr (last xs))"
proof (induction xs arbitrary: p)
  case Nil
  then show ?case by simp
next
  case (Cons x xs)
  then have x: "p = x" "x \<in> pids" "queue_seg pt (next_sending (pt x)) xs None" by auto
  show ?case
  proof (cases xs)
    case Nil
    then show ?thesis using x by (subst queue_last.simps) simp
  next
    case (Cons y ys)
    then have "next_sending (pt x) = Some y" using x by simp
    then show ?thesis
      using x Cons.IH[of y] Cons.prems Cons by (subst queue_last.simps) simp
  qed
qed

lemma find_sender_seg:
  "queue_seg pt p (us @ src # vs) e \<Longrightarrow> src \<notin> set us \<Longrightarrow> set us \<subseteq> pids \<Longrightarrow> sending (pt src) \<Longrightarrow>
   find_sender pt src prev p = Some (Inr (if us = [] then prev else Some (last us)))"
proof (induction us arbitrary: p prev)
  case Nil
  then show ?case by (subst find_sender.simps) simp
next
  case (Cons u us)
  then have "find_sender pt src (Some u) (next_sending (pt u)) = Some (Inr (Some (last (u # us))))"
    using Cons.IH[of "next_sending (pt u)" "Some u"] by simp
  then show ?case using Cons.prems by (subst find_sender.simps) auto
qed

subsection \<open>Linking and unlinking\<close>

text \<open>What \<open>append_sender\<close> and \<open>unlink_sender\<close> do to the table.\<close>

definition link_last :: "int list \<Rightarrow> int \<Rightarrow> int \<Rightarrow> proc_tab \<Rightarrow> proc_tab" where
  "link_last q dest x pt =
     (let pt' = (if q = [] then pt(dest := (pt dest)\<lparr>q_sending := Some x\<rparr>)
                 else pt(last q := (pt (last q))\<lparr>next_sending := Some x\<rparr>))
      in pt'(x := (pt' x)\<lparr>next_sending := None\<rparr>))"

definition unlink :: "int \<Rightarrow> int \<Rightarrow> int list \<Rightarrow> proc_tab \<Rightarrow> proc_tab" where
  "unlink who f us pt =
     (let pt' = (if us = [] then pt(who := (pt who)\<lparr>q_sending := next_sending (pt f)\<rparr>)
                 else pt(last us := (pt (last us))\<lparr>next_sending := next_sending (pt f)\<rparr>))
      in pt'(f := (pt' f)\<lparr>next_sending := None\<rparr>))"

text \<open>The tables differ in the links alone.\<close>

definition no_links :: "proc \<Rightarrow> proc" where
  "no_links p = p\<lparr>q_sending := None, next_sending := None\<rparr>"

definition links_only :: "proc_tab \<Rightarrow> proc_tab \<Rightarrow> bool" where
  "links_only pt pt' = (\<forall>p. no_links (pt' p) = no_links (pt p))"

lemma no_links_upd [simp]:
  "no_links (p\<lparr>q_sending := q\<rparr>) = no_links p" "no_links (p\<lparr>next_sending := q\<rparr>) = no_links p"
  by (simp_all add: no_links_def)

lemma no_links_fields:
  assumes "no_links p' = no_links p"
  shows "p_flags p' = p_flags p" "p_msg p' = p_msg p" "p_recvfrom p' = p_recvfrom p"
    "p_sendto p' = p_sendto p" "has_int_msg p' = has_int_msg p" "ldts p' = ldts p"
    "p_ticks p' = p_ticks p" "priority p' = priority p"
  using arg_cong[OF assms, of p_flags] arg_cong[OF assms, of p_msg] arg_cong[OF assms, of p_recvfrom]
    arg_cong[OF assms, of p_sendto] arg_cong[OF assms, of has_int_msg] arg_cong[OF assms, of ldts]
    arg_cong[OF assms, of p_ticks] arg_cong[OF assms, of priority]
  by (simp_all add: no_links_def)

lemma links_only_fields:
  assumes "links_only pt pt'"
  shows "p_flags (pt' p) = p_flags (pt p)" "p_msg (pt' p) = p_msg (pt p)"
    "p_recvfrom (pt' p) = p_recvfrom (pt p)" "p_sendto (pt' p) = p_sendto (pt p)"
    "has_int_msg (pt' p) = has_int_msg (pt p)" "ldts (pt' p) = ldts (pt p)"
  using assms by (auto simp: links_only_def dest: no_links_fields)

lemma links_only_link: "links_only pt (link_last q d x pt)"
  by (simp add: links_only_def link_last_def Let_def)

lemma links_only_unlink: "links_only pt (unlink w f us pt)"
  by (simp add: links_only_def unlink_def Let_def)

lemma append_sender_eq:
  assumes "queues (proc_table s) Q" "dest \<in> pids"
  shows "append_sender dest x s = Inr ((), s\<lparr>proc_table := link_last (Q dest) dest x (proc_table s)\<rparr>)"
proof -
  note q = queues_simps[OF assms]
  show ?thesis
  proof (cases "Q dest")
    case Nil
    then show ?thesis using q assms(2) by (simp add: append_sender_def link_last_def updP_apply)
  next
    case (Cons y ys)
    then have "queue_last (proc_table s) y = Some (Inr (last (Q dest)))"
      using q queue_last_seg[of "proc_table s" y "Q dest"] by simp
    then show ?thesis
      using Cons q assms(2)
      by (simp add: append_sender_def link_last_def updP_apply loopE_def)
  qed
qed

lemma queues_link:
  assumes q: "queues pt Q" and d: "dest \<in> pids" and x: "x \<in> pids" "\<forall>r \<in> pids. x \<notin> set (Q r)"
  shows "queues (link_last (Q dest) dest x pt) (Q(dest := Q dest @ [x]))"
proof -
  let ?pt = "link_last (Q dest) dest x pt"
  have other: "queue_seg ?pt (q_sending (?pt r)) (Q r) None" if r: "r \<in> pids" "r \<noteq> dest" for r
  proof -
    have "last (Q dest) \<notin> set (Q r)" if "Q dest \<noteq> []"
      using q d r that last_in_set[OF that] unfolding queues_def by blast
    then have "\<And>y. y \<in> set (Q r) \<Longrightarrow> next_sending (?pt y) = next_sending (pt y)"
      using x(2) r by (auto simp: link_last_def Let_def)
    moreover have "q_sending (?pt r) = q_sending (pt r)" using r by (simp add: link_last_def Let_def)
    ultimately show ?thesis using queue_seg_same[OF queues_simps(1)[OF q r(1)]] by simp
  qed
  have this_q: "queue_seg ?pt (q_sending (?pt dest)) (Q dest @ [x]) None"
  proof (cases "Q dest" rule: rev_cases)
    case Nil
    then show ?thesis by (simp add: link_last_def)
  next
    case (snoc ys l)
    have seg: "queue_seg pt (q_sending (pt dest)) (ys @ [l]) None" "distinct (ys @ [l])"
      using queues_simps[OF q d] snoc by auto
    have "x \<noteq> l" "x \<notin> set ys" using x(2) d snoc by auto
    have "queue_seg ?pt (q_sending (pt dest)) ys (Some l)"
      using seg \<open>x \<notin> set ys\<close> snoc
      by (auto simp: queue_seg_append link_last_def Let_def intro!: queue_seg_same[of pt])
    then show ?thesis
      using snoc \<open>x \<noteq> l\<close> by (auto simp: queue_seg_append link_last_def Let_def)
  qed
  show ?thesis
    using other this_q q d x unfolding queues_def by (auto split: if_splits)
qed

lemma unlink_sender_eq:
  assumes "queues (proc_table s) Q" "who \<in> pids" "Q who = us @ f # vs"
  shows "unlink_sender who f (if us = [] then None else Some (last us)) s =
    Inr ((), s\<lparr>proc_table := unlink who f us (proc_table s)\<rparr>)"
proof -
  note q = queues_simps[OF assms(1,2)]
  have f: "f \<in> pids" using q(3) assms(3) by auto
  have "q_sending (proc_table s who) = Some f \<longleftrightarrow> us = []"
    using q assms(3) queue_seg_hd[OF q(1)] by (cases us) auto
  then show ?thesis
    using assms(2) f by (auto simp: unlink_sender_def unlink_def updP_apply op_defs bindE_def)
qed

lemma unlink_fields:
  "q_sending (unlink w f us pt r) = (if r = w \<and> us = [] then next_sending (pt f) else q_sending (pt r))"
  "next_sending (unlink w f us pt y) = (if y = f then None
     else if us \<noteq> [] \<and> y = last us then next_sending (pt f) else next_sending (pt y))"
  by (simp_all add: unlink_def Let_def)

lemma queues_unlink:
  assumes q: "queues pt Q" and w: "who \<in> pids" and us: "Q who = us @ f # vs"
  shows "queues (unlink who f us pt) (Q(who := us @ vs))"
proof -
  let ?pt = "unlink who f us pt"
  note qw = queues_simps[OF q w]
  have fd: "f \<notin> set us" "f \<notin> set vs" "set us \<inter> set vs = {}" "distinct us" "distinct vs"
    using qw(2) us by auto
  have other: "queue_seg ?pt (q_sending (?pt r)) (Q r) None" if r: "r \<in> pids" "r \<noteq> who" for r
  proof -
    have "set (Q who) \<inter> set (Q r) = {}" using q w r by (simp add: queues_def)
    then have "f \<notin> set (Q r)" "set us \<inter> set (Q r) = {}" using us by auto
    then have "y \<noteq> f \<and> (us \<noteq> [] \<longrightarrow> y \<noteq> last us)" if "y \<in> set (Q r)" for y
      using that by (metis disjoint_iff last_in_set)
    then have "\<And>y. y \<in> set (Q r) \<Longrightarrow> next_sending (?pt y) = next_sending (pt y)"
      by (auto simp: unlink_fields)
    moreover have "q_sending (?pt r) = q_sending (pt r)" using r by (simp add: unlink_fields)
    ultimately show ?thesis using queue_seg_same[OF queues_simps(1)[OF q r(1)]] by simp
  qed
  have seg: "queue_seg pt (q_sending (pt who)) us (Some f)" "queue_seg pt (next_sending (pt f)) vs None"
    using qw(1) us by (auto simp: queue_seg_append)
  have vs: "queue_seg ?pt (next_sending (pt f)) vs None"
  proof (rule queue_seg_same[OF seg(2)])
    fix y assume "y \<in> set vs"
    then have "y \<noteq> f" "us \<noteq> [] \<longrightarrow> y \<noteq> last us" using fd last_in_set[of us] by (blast, metis disjoint_iff)
    then show "next_sending (?pt y) = next_sending (pt y)" by (auto simp: unlink_fields)
  qed
  have this_q: "queue_seg ?pt (q_sending (?pt who)) (us @ vs) None"
  proof (cases us rule: rev_cases)
    case Nil
    then show ?thesis using vs by (simp add: unlink_fields)
  next
    case (snoc ys l)
    have "queue_seg ?pt (q_sending (pt who)) ys (Some l)"
      using seg(1) fd snoc
      by (auto simp: queue_seg_append unlink_fields intro!: queue_seg_same[of pt])
    moreover have "next_sending (?pt l) = next_sending (pt f)" "q_sending (?pt who) = q_sending (pt who)"
      using snoc fd by (auto simp: unlink_fields)
    ultimately show ?thesis using vs snoc by (auto simp: queue_seg_append)
  qed
  have sub: "set (us @ vs) \<subseteq> set (Q who)" using us by auto
  have wf: "distinct (us @ vs)" "set (us @ vs) \<subseteq> pids" using fd qw(3) us by auto
  have disj: "set (us @ vs) \<inter> set (Q r) = {}" if "r \<in> pids" "r \<noteq> who" for r
  proof -
    have "set (Q who) \<inter> set (Q r) = {}" using q w that by (simp add: queues_def)
    with sub show ?thesis by blast
  qed
  let ?Q = "Q(who := us @ vs)"
  have "queue_seg ?pt (q_sending (?pt r)) (?Q r) None \<and> distinct (?Q r) \<and> set (?Q r) \<subseteq> pids"
    if "r \<in> pids" for r
    using other[of r] this_q wf queues_simps[OF q that] that by (cases "r = who") simp_all
  moreover have "set (?Q r) \<inter> set (?Q r') = {}" if "r \<in> pids" "r' \<in> pids" "r \<noteq> r'" for r r'
  proof -
    have "set (Q r) \<inter> set (Q r') = {}" using q that by (simp add: queues_def)
    then show ?thesis using disj[of r] disj[of r'] that by (auto simp: Int_commute)
  qed
  ultimately show ?thesis unfolding queues_def by blast
qed

subsection \<open>The invariant\<close>

text \<open>Who waits for whom to receive.\<close>

definition waits :: "proc_tab \<Rightarrow> (int \<times> int) set" where
  "waits pt = {(x, p_sendto (pt x)) | x. x \<in> pids \<and> sending (pt x)}"

text \<open>
  The fields of an entry that is idle, sending or receiving; other flags (\<open>WAITING\<close>,
  \<open>HANGING\<close>, \<open>FREE_SLOT\<close>) are set by the memory manager on processes that do not send.
\<close>

definition proc_ok :: "int \<Rightarrow> proc \<Rightarrow> bool" where
  "proc_ok i p =
     ((sending p \<longrightarrow> p_flags p = SENDING) \<and>
      (p_flags p = 0 \<longrightarrow> p_msg p = 0 \<and> p_recvfrom p = NO_TASK \<and> p_sendto p = NO_TASK) \<and>
      (p_flags p = SENDING \<longrightarrow> p_msg p \<noteq> 0 \<and> p_recvfrom p = NO_TASK \<and> p_sendto p \<in> pids) \<and>
      (p_flags p = RECEIVING \<longrightarrow> p_msg p \<noteq> 0 \<and> p_sendto p = NO_TASK))"

text \<open>
  No rendezvous and no interrupt is lost: a process blocked in a receive has no queued
  sender, and no pending interrupt, that the receive would accept.
\<close>

definition no_lost :: "proc_tab \<Rightarrow> (int \<Rightarrow> int list) \<Rightarrow> bool" where
  "no_lost pt Q = (\<forall>r \<in> pids. p_flags (pt r) = RECEIVING \<longrightarrow>
     (p_recvfrom (pt r) = ANY \<longrightarrow> Q r = []) \<and>
     p_recvfrom (pt r) \<notin> set (Q r) \<and>
     (p_recvfrom (pt r) \<in> {ANY, INTERRUPT} \<longrightarrow> has_int_msg (pt r) = 0))"

definition senders_to :: "proc_tab \<Rightarrow> int \<Rightarrow> int set" where
  "senders_to pt r = {x \<in> pids. p_flags (pt x) = SENDING \<and> p_sendto (pt x) = r}"

definition ipc_wf :: "proc_tab \<Rightarrow> (int \<Rightarrow> int list) \<Rightarrow> bool" where
  "ipc_wf pt Q =
     (queues pt Q \<and> (\<forall>r \<in> pids. set (Q r) = senders_to pt r) \<and> (\<forall>i \<in> pids. proc_ok i (pt i)) \<and>
      no_lost pt Q \<and> acyclic (waits pt))"

lemma sending_SENDING [simp]: "p_flags p = SENDING \<Longrightarrow> sending p"
  by (simp add: sending_def)

lemma sending_flags0 [simp]: "p_flags p = 0 \<Longrightarrow> \<not> sending p"
  by (simp add: sending_def)

lemma ipc_wfD:
  assumes "ipc_wf pt Q"
  shows "queues pt Q" "\<And>r. r \<in> pids \<Longrightarrow> set (Q r) = senders_to pt r" "no_lost pt Q" "acyclic (waits pt)"
    "\<And>i. i \<in> pids \<Longrightarrow> sending (pt i) \<Longrightarrow> p_flags (pt i) = SENDING"
    "\<And>i. i \<in> pids \<Longrightarrow> p_flags (pt i) = 0 \<Longrightarrow> p_msg (pt i) = 0 \<and> p_recvfrom (pt i) = NO_TASK \<and> p_sendto (pt i) = NO_TASK"
    "\<And>i. i \<in> pids \<Longrightarrow> p_flags (pt i) = SENDING \<Longrightarrow>
       p_msg (pt i) \<noteq> 0 \<and> p_recvfrom (pt i) = NO_TASK \<and> p_sendto (pt i) \<in> pids"
    "\<And>i. i \<in> pids \<Longrightarrow> p_flags (pt i) = RECEIVING \<Longrightarrow> p_msg (pt i) \<noteq> 0 \<and> p_sendto (pt i) = NO_TASK"
  using assms unfolding ipc_wf_def proc_ok_def by (blast, blast, blast, blast, blast, blast, blast, blast)

subsection \<open>Deadlock detection\<close>

lemma waits_iff: "(p, q) \<in> waits pt \<longleftrightarrow> p \<in> pids \<and> sending (pt p) \<and> q = p_sendto (pt p)"
  by (auto simp: waits_def)

lemma finite_waits: "finite (waits pt)"
proof -
  have "waits pt = (\<lambda>x. (x, p_sendto (pt x))) ` {x \<in> pids. sending (pt x)}" by (auto simp: waits_def)
  then show ?thesis by simp
qed

lemma wf_waits: "acyclic (waits pt) \<Longrightarrow> wf ((waits pt)\<inverse>)"
  using finite_acyclic_wf_converse[OF finite_waits] by blast

lemma waits_trancl:
  "(p, q) \<in> (waits pt)\<^sup>+ \<longleftrightarrow>
   p \<in> pids \<and> sending (pt p) \<and> (p_sendto (pt p) = q \<or> (p_sendto (pt p), q) \<in> (waits pt)\<^sup>+)"
  (is "?l \<longleftrightarrow> ?r")
proof
  assume ?l
  then obtain y where y: "(p, y) \<in> waits pt" "(y, q) \<in> (waits pt)\<^sup>*" by (meson tranclD)
  then show ?r using rtranclD[OF y(2)] by (auto simp: waits_iff)
next
  assume ?r
  moreover from this have "(p, p_sendto (pt p)) \<in> waits pt" by (simp add: waits_iff)
  ultimately show ?l by (auto intro: trancl_into_trancl2)
qed

lemma chain_loop_ok:
  assumes wf: "ipc_wf pt Q" and p: "(p, src) \<in> (waits pt)\<^sup>+"
  shows "chain_loop pt src p = Some (Inr ())"
  using p
proof (induction p rule: wf_induct[OF wf_waits[OF ipc_wfD(4)[OF wf]]])
  case (1 p)
  then have p: "p \<in> pids" "sending (pt p)"
    "p_sendto (pt p) = src \<or> (p_sendto (pt p), src) \<in> (waits pt)\<^sup>+" by (simp_all add: waits_trancl[of p])
  then have "p_msg (pt p) \<noteq> 0" using ipc_wfD(5,7)[OF wf] by blast
  moreover have "(p, p_sendto (pt p)) \<in> waits pt" using p by (simp add: waits_iff)
  ultimately show ?case
    using 1(1) p by (subst chain_loop.simps) auto
qed

lemma deadlock_loop_ok:
  assumes wf: "ipc_wf pt Q" and p: "p \<in> pids" "(dest, p) \<in> (waits pt)\<^sup>*"
  shows "deadlock_loop pt src dest p = Some (Inr ((p, src) \<in> (waits pt)\<^sup>+))"
  using p
proof (induction p rule: wf_induct[OF wf_waits[OF ipc_wfD(4)[OF wf]]])
  case (1 p)
  show ?case
  proof (cases "sending (pt p)")
    case False
    then show ?thesis using 1(2) by (subst deadlock_loop.simps) (simp add: waits_trancl[of p])
  next
    case True
    then have step: "(p, p_sendto (pt p)) \<in> waits pt" using 1(2) by (simp add: waits_iff)
    have to: "p_sendto (pt p) \<in> pids" using ipc_wfD(5,7)[OF wf] 1(2) True by blast
    show ?thesis
    proof (cases "p_sendto (pt p) = src")
      case src: True
      then have "(dest, src) \<in> (waits pt)\<^sup>+" using 1(3) step by (meson rtrancl_into_trancl1)
      then show ?thesis
        using 1(2) True src chain_loop_ok[OF wf] by (subst deadlock_loop.simps) (simp add: waits_trancl[of p])
    next
      case False
      have "(dest, p_sendto (pt p)) \<in> (waits pt)\<^sup>*" using 1(3) step by (rule rtrancl_into_rtrancl)
      then have "deadlock_loop pt src dest (p_sendto (pt p)) =
          Some (Inr ((p_sendto (pt p), src) \<in> (waits pt)\<^sup>+))"
        using 1(1) step to by blast
      then show ?thesis
        using 1(2) True False by (subst deadlock_loop.simps) (simp add: waits_trancl[of p])
    qed
  qed
qed

lemma deadlock_ok:
  assumes "ipc_wf (proc_table s) Q" "dest \<in> pids"
  shows "deadlock src dest s = Inr ((dest, src) \<in> (waits (proc_table s))\<^sup>+, s)"
  using deadlock_loop_ok[OF assms(1,2)] by (simp add: deadlock_def loopE_def)

subsection \<open>What the operations compute\<close>

lemma queues_same:
  assumes "queues pt Q" "\<And>p. q_sending (pt' p) = q_sending (pt p)" "\<And>p. next_sending (pt' p) = next_sending (pt p)"
  shows "queues pt' Q"
proof -
  have "queue_seg pt' p xs e = queue_seg pt p xs e" for p xs e
    by (rule queue_seg_cong) (simp add: assms)
  then show ?thesis using assms(1) unfolding queues_def by (simp add: assms(2))
qed

lemma assertP_apply [op_defs]:
  "assertP w i P s = (if P (proc_table s i) then Inr ((), s) else Inl (Assert w))"
  by (simp add: assertP_def op_defs)

lemma deliver_to_eq:
  assumes d: "dest \<in> pids" "sender \<in> pids" "dest \<noteq> sender" and fl: "flat_natives (proc_table s)"
    and m: "m \<noteq> 0" "p_msg (proc_table s dest) \<noteq> 0"
    and pd: "p_flags (proc_table s dest) = RECEIVING" "p_sendto (proc_table s dest) = NO_TASK"
    and ps: "p_flags (proc_table s sender) = 0" "p_msg (proc_table s sender) = 0"
       "p_recvfrom (proc_table s sender) = NO_TASK" "p_sendto (proc_table s sender) = NO_TASK"
  shows "deliver_to dest sender m s = Inr ((),
    s\<lparr>proc_table := (proc_table s)(dest := (proc_table s dest)\<lparr>p_msg := 0, p_flags := 0, p_recvfrom := NO_TASK\<rparr>),
      kmem := phys_copy (linear (proc_table s) dest (p_msg (proc_table s dest)))
        (linear (proc_table s) sender m) (int MESSAGE_SIZE) (kmem s)\<rparr>)"
  unfolding deliver_to_def
  using assms by (simp add: op_defs copy_between_ok updP_apply unblock_def)

lemma enqueue_at_eq:
  assumes q: "queues (proc_table s) Q" and d: "dest \<in> pids" "sender \<in> pids" "dest \<noteq> sender"
    and ps: "p_flags (proc_table s sender) = 0"
  shows "enqueue_at dest sender m s = Inr ((),
    s\<lparr>proc_table := link_last (Q dest) dest sender
       ((proc_table s)(sender := (proc_table s sender)\<lparr>p_flags := SENDING, p_sendto := dest, p_msg := m\<rparr>))\<rparr>)"
proof -
  let ?s = "s\<lparr>proc_table := (proc_table s)(sender :=
     (proc_table s sender)\<lparr>p_flags := SENDING, p_sendto := dest, p_msg := m\<rparr>)\<rparr>"
  have "queues (proc_table ?s) Q"
    by (rule queues_same[OF q]) simp_all
  from append_sender_eq[OF this d(1), of sender] show ?thesis
    using assms(2-) by (simp add: enqueue_at_def op_defs updP_apply)
qed

lemma take_interrupt_eq:
  assumes "who \<in> pids" "flat_natives (proc_table s)" "m \<noteq> 0" "p_flags (proc_table s who) = 0"
    "p_msg (proc_table s who) = 0" "p_sendto (proc_table s who) = NO_TASK"
  shows "take_interrupt who m s = Inr ((),
    s\<lparr>proc_table := (proc_table s)(who := (proc_table s who)\<lparr>has_int_msg := 0\<rparr>),
      kmem := put_msg (kmem s) (linear (proc_table s) who m) (zero_msg\<lparr>m_source := INTERRUPT, m_type := HARD_INT\<rparr>)\<rparr>)"
  using assms by (simp add: take_interrupt_def op_defs va2la_ok updP_apply)

lemma wait_for_eq:
  "wait_for who src m s = Inr ((), s\<lparr>proc_table := (proc_table s)(who := (proc_table s who)
     \<lparr>p_flags := p_flags (proc_table s who) OR RECEIVING, p_msg := m, p_recvfrom := src\<rparr>)\<rparr>)"
  by (simp add: wait_for_def op_defs updP_apply)

lemma take_from_eq:
  assumes "who \<in> pids" "f \<in> pids" "flat_natives (proc_table s)" "m \<noteq> 0"
    "p_flags (proc_table s f) = SENDING" "p_msg (proc_table s f) \<noteq> 0"
  shows "take_from who f m s = Inr ((),
    s\<lparr>proc_table := (proc_table s)(f := (proc_table s f)\<lparr>p_msg := 0, p_sendto := NO_TASK, p_flags := 0\<rparr>),
      kmem := phys_copy (linear (proc_table s) who m)
        (linear (proc_table s) f (p_msg (proc_table s f))) (int MESSAGE_SIZE) (kmem s)\<rparr>)"
  using assms by (simp add: take_from_def op_defs copy_between_ok updP_apply unblock_def)

lemma rendezvous_asserts_ok:
  assumes "p_flags (proc_table s who) = 0" "p_msg (proc_table s who) = 0"
    "p_recvfrom (proc_table s who) = NO_TASK" "p_sendto (proc_table s who) = NO_TASK"
    "q_sending (proc_table s who) \<noteq> None" "p_flags (proc_table s f) = SENDING"
    "p_msg (proc_table s f) \<noteq> 0" "p_recvfrom (proc_table s f) = NO_TASK" "p_sendto (proc_table s f) = who"
  shows "rendezvous_asserts who f s = Inr ((), s)"
  using assms by (simp add: rendezvous_asserts_def op_defs)

subsection \<open>The invariant is kept\<close>

lemma ipc_wfI:
  assumes "queues pt Q" "\<And>r. r \<in> pids \<Longrightarrow> set (Q r) = senders_to pt r" "\<And>i. i \<in> pids \<Longrightarrow> proc_ok i (pt i)"
    "no_lost pt Q" "acyclic (waits pt)"
  shows "ipc_wf pt Q"
  using assms unfolding ipc_wf_def by blast

lemma ipc_wf_proc_ok: "ipc_wf pt Q \<Longrightarrow> i \<in> pids \<Longrightarrow> proc_ok i (pt i)"
  unfolding ipc_wf_def by blast

lemma receiving_not_sending: "p_flags p = RECEIVING \<Longrightarrow> \<not> sending p"
  by (simp add: sending_def)

lemma ipc_wf_not_sending:
  assumes wf: "ipc_wf pt Q" and i: "i \<in> pids" "\<not> sending (pt i)" "\<not> sending p"
    and same: "q_sending p = q_sending (pt i)" "next_sending p = next_sending (pt i)"
    and ok: "proc_ok i p" "no_lost (pt(i := p)) Q"
  shows "ipc_wf (pt(i := p)) Q"
proof (rule ipc_wfI)
  let ?pt = "pt(i := p)"
  show "queues ?pt Q" by (rule queues_same[OF ipc_wfD(1)[OF wf]]) (simp_all add: same)
  have "senders_to ?pt r = senders_to pt r" for r
    using i unfolding senders_to_def by (auto dest: sending_SENDING)
  then show "set (Q r) = senders_to ?pt r" if "r \<in> pids" for r
    using ipc_wfD(2)[OF wf that] by simp
  show "proc_ok j (?pt j)" if "j \<in> pids" for j
    using ok(1) ipc_wf_proc_ok[OF wf that] by simp
  have "waits ?pt = waits pt" using i unfolding waits_def by auto
  then show "acyclic (waits ?pt)" using ipc_wfD(4)[OF wf] by simp
qed (fact ok(2))

lemma no_lost_upd:
  assumes "no_lost pt Q" "i \<in> pids"
    and "p_flags p = RECEIVING \<Longrightarrow> (p_recvfrom p = ANY \<longrightarrow> Q i = []) \<and> p_recvfrom p \<notin> set (Q i) \<and>
      (p_recvfrom p \<in> {ANY, INTERRUPT} \<longrightarrow> has_int_msg p = 0)"
  shows "no_lost (pt(i := p)) Q"
  using assms unfolding no_lost_def by (simp add: fun_upd_apply)

lemma ipc_wf_deliver:
  assumes wf: "ipc_wf pt Q" and d: "dest \<in> pids" "p_flags (pt dest) = RECEIVING"
  shows "ipc_wf (pt(dest := (pt dest)\<lparr>p_msg := 0, p_flags := 0, p_recvfrom := NO_TASK\<rparr>)) Q"
proof (rule ipc_wf_not_sending[OF wf d(1)])
  show "proc_ok dest ((pt dest)\<lparr>p_msg := 0, p_flags := 0, p_recvfrom := NO_TASK\<rparr>)"
    using ipc_wfD(8)[OF wf d] by (simp add: proc_ok_def sending_def)
  show "no_lost (pt(dest := (pt dest)\<lparr>p_msg := 0, p_flags := 0, p_recvfrom := NO_TASK\<rparr>)) Q"
    by (rule no_lost_upd[OF ipc_wfD(3)[OF wf] d(1)]) simp
qed (use d in \<open>simp_all add: sending_def\<close>)

lemma ipc_wf_interrupt:
  assumes wf: "ipc_wf pt Q" and d: "dest \<in> pids" "p_flags (pt dest) = RECEIVING"
  shows "ipc_wf (pt(dest := (pt dest)\<lparr>p_msg := 0, has_int_msg := 0, p_flags := 0, p_recvfrom := NO_TASK\<rparr>)) Q"
proof (rule ipc_wf_not_sending[OF wf d(1)])
  show "proc_ok dest ((pt dest)\<lparr>p_msg := 0, has_int_msg := 0, p_flags := 0, p_recvfrom := NO_TASK\<rparr>)"
    using ipc_wfD(8)[OF wf d] by (simp add: proc_ok_def sending_def)
  show "no_lost (pt(dest := (pt dest)\<lparr>p_msg := 0, has_int_msg := 0, p_flags := 0, p_recvfrom := NO_TASK\<rparr>)) Q"
    by (rule no_lost_upd[OF ipc_wfD(3)[OF wf] d(1)]) simp
qed (use d in \<open>simp_all add: sending_def\<close>)

lemma ipc_wf_has_int:
  assumes wf: "ipc_wf pt Q" and i: "i \<in> pids"
    and v: "p_flags (pt i) = RECEIVING \<Longrightarrow> p_recvfrom (pt i) \<in> {ANY, INTERRUPT} \<Longrightarrow> v = 0"
  shows "ipc_wf (pt(i := (pt i)\<lparr>has_int_msg := v\<rparr>)) Q"
proof (rule ipc_wfI)
  let ?pt = "pt(i := (pt i)\<lparr>has_int_msg := v\<rparr>)"
  have same: "p_flags (?pt j) = p_flags (pt j)" "p_sendto (?pt j) = p_sendto (pt j)" for j by simp_all
  show "queues ?pt Q" by (rule queues_same[OF ipc_wfD(1)[OF wf]]) simp_all
  show "set (Q r) = senders_to ?pt r" if "r \<in> pids" for r
    using ipc_wfD(2)[OF wf that] by (simp only: senders_to_def same)
  show "proc_ok j (?pt j)" if "j \<in> pids" for j
    using ipc_wf_proc_ok[OF wf that] by (cases "j = i") (simp_all add: proc_ok_def sending_def)
  show "no_lost ?pt Q"
    using ipc_wfD(3)[OF wf] v i by (intro no_lost_upd) (auto simp: no_lost_def)
  have "waits ?pt = waits pt" by (simp only: waits_def sending_def same)
  then show "acyclic (waits ?pt)" using ipc_wfD(4)[OF wf] by simp
qed

lemma ipc_wf_wait:
  assumes wf: "ipc_wf pt Q" and i: "i \<in> pids" "p_flags (pt i) = 0" and m: "m \<noteq> 0"
    and none: "src = ANY \<Longrightarrow> Q i = []" "src \<notin> set (Q i)" "src \<in> {ANY, INTERRUPT} \<Longrightarrow> has_int_msg (pt i) = 0"
  shows "ipc_wf (pt(i := (pt i)\<lparr>p_flags := RECEIVING, p_msg := m, p_recvfrom := src\<rparr>)) Q"
proof (rule ipc_wf_not_sending[OF wf i(1)])
  let ?p = "(pt i)\<lparr>p_flags := RECEIVING, p_msg := m, p_recvfrom := src\<rparr>"
  show "proc_ok i ?p" using ipc_wfD(6)[OF wf i] m by (simp add: proc_ok_def sending_def)
  show "no_lost (pt(i := ?p)) Q"
    using none by (intro no_lost_upd[OF ipc_wfD(3)[OF wf] i(1)]) auto
qed (use i in \<open>simp_all add: sending_def\<close>)

lemma ipc_wf_enqueue:
  assumes wf: "ipc_wf pt Q" and p: "dest \<in> pids" "sender \<in> pids" "dest \<noteq> sender"
    and idle: "p_flags (pt sender) = 0" and m: "m \<noteq> 0" and dl: "(dest, sender) \<notin> (waits pt)\<^sup>+"
    and busy: "\<not> (p_flags (pt dest) = RECEIVING \<and> (p_recvfrom (pt dest) = sender \<or> p_recvfrom (pt dest) = ANY))"
  shows "ipc_wf (link_last (Q dest) dest sender
      (pt(sender := (pt sender)\<lparr>p_flags := SENDING, p_sendto := dest, p_msg := m\<rparr>)))
    (Q(dest := Q dest @ [sender]))" (is "ipc_wf ?pt ?Q")
proof -
  let ?p = "(pt sender)\<lparr>p_flags := SENDING, p_sendto := dest, p_msg := m\<rparr>"
  let ?pt1 = "pt(sender := ?p)"
  have "links_only ?pt1 ?pt" by (rule links_only_link)
  note same = links_only_fields[OF this]
  have q1: "queues ?pt1 Q" by (rule queues_same[OF ipc_wfD(1)[OF wf]]) simp_all
  have fresh: "\<forall>r \<in> pids. sender \<notin> set (Q r)"
    using ipc_wfD(2)[OF wf] idle by (simp add: senders_to_def)
  show ?thesis
  proof (rule ipc_wfI)
    show "queues ?pt ?Q" by (rule queues_link[OF q1 p(1,2) fresh])
    show "set (?Q r) = senders_to ?pt r" if r: "r \<in> pids" for r
    proof -
      have "senders_to ?pt r = senders_to ?pt1 r" by (simp only: senders_to_def same)
      also have "\<dots> = (if r = dest then insert sender (senders_to pt r) else senders_to pt r)"
        using p(2) idle by (auto simp: senders_to_def)
      also have "\<dots> = set (?Q r)" using ipc_wfD(2)[OF wf r] by (cases "r = dest") simp_all
      finally show ?thesis ..
    qed
    show "proc_ok j (?pt j)" if j: "j \<in> pids" for j
    proof -
      have "proc_ok j (?pt1 j)"
        using ipc_wf_proc_ok[OF wf j] ipc_wfD(6)[OF wf p(2) idle] p m by (simp add: proc_ok_def sending_def)
      then show ?thesis by (simp only: proc_ok_def sending_def same)
    qed
    show "no_lost ?pt ?Q"
    proof -
      have "no_lost ?pt1 ?Q"
        using ipc_wfD(3)[OF wf] busy p unfolding no_lost_def by (auto simp: fun_upd_apply)
      then show ?thesis by (simp only: no_lost_def same)
    qed
    have "waits ?pt = waits ?pt1" by (simp only: waits_def sending_def same)
    also have "\<dots> = insert (sender, dest) (waits pt)"
    proof (rule set_eqI, clarify)
      fix x y
      show "(x, y) \<in> waits ?pt1 \<longleftrightarrow> (x, y) \<in> insert (sender, dest) (waits pt)"
        using p idle by (cases "x = sender") (auto simp: waits_iff)
    qed
    finally show "acyclic (waits ?pt)"
      using ipc_wfD(4)[OF wf] dl p(3) by (simp add: acyclic_insert rtrancl_eq_or_trancl)
  qed
qed

lemma ipc_wf_take:
  assumes wf: "ipc_wf pt Q" and w: "who \<in> pids" "p_flags (pt who) = 0" and us: "Q who = us @ f # vs"
  shows "ipc_wf ((unlink who f us pt)(f := (unlink who f us pt f)\<lparr>p_msg := 0, p_sendto := NO_TASK, p_flags := 0\<rparr>))
    (Q(who := us @ vs))" (is "ipc_wf ?pt ?Q")
proof -
  let ?pt1 = "unlink who f us pt"
  have "links_only pt ?pt1" by (rule links_only_unlink)
  note same = links_only_fields[OF this]
  have "f \<in> set (Q who)" using us by simp
  then have f: "f \<in> pids" "p_flags (pt f) = SENDING" "p_sendto (pt f) = who"
    using ipc_wfD(2)[OF wf w(1)] by (auto simp: senders_to_def)
  have fwho: "f \<noteq> who" using f w by auto
  have d: "distinct (us @ f # vs)" using queues_simps(2)[OF ipc_wfD(1)[OF wf] w(1)] us by simp
  have send: "senders_to ?pt r = senders_to pt r - {f}" for r
    by (auto simp: senders_to_def same)
  show ?thesis
  proof (rule ipc_wfI)
    show "queues ?pt ?Q"
      by (rule queues_same[OF queues_unlink[OF ipc_wfD(1)[OF wf] w(1) us]]) simp_all
    show "set (?Q r) = senders_to ?pt r" if r: "r \<in> pids" for r
    proof (cases "r = who")
      case True
      then show ?thesis using d us ipc_wfD(2)[OF wf r] by (simp add: send) blast
    next
      case False
      then have "f \<notin> senders_to pt r" using f by (simp add: senders_to_def)
      then show ?thesis using False ipc_wfD(2)[OF wf r] by (simp add: send)
    qed
    show "proc_ok j (?pt j)" if j: "j \<in> pids" for j
      using ipc_wf_proc_ok[OF wf j] ipc_wfD(7)[OF wf f(1,2)] by (simp add: proc_ok_def sending_def same)
    show "no_lost ?pt ?Q"
      using ipc_wfD(3)[OF wf] w(2) unfolding no_lost_def by (simp add: same)
    have "waits ?pt \<subseteq> waits pt" by (auto simp: waits_def sending_def same)
    then show "acyclic (waits ?pt)" using ipc_wfD(4)[OF wf] by (rule acyclic_subset[rotated])
  qed
qed

subsection \<open>The mailboxes the code implements\<close>

text \<open>
  The abstract state: the queue of blocked senders of each process, what a process blocked
  in a receive expects, and whether an interrupt is pending for it. \<open>abs_send\<close>,
  \<open>abs_receive\<close> and \<open>abs_notify\<close> return whether the caller blocks; \<open>abs_source\<close> is where a
  receive that does not block takes its message from.
\<close>

record mailbox =
  queue :: "int \<Rightarrow> int list"
  expects :: "int \<Rightarrow> int option"
  pending :: "int \<Rightarrow> bool"

definition abs_send :: "int \<Rightarrow> int \<Rightarrow> mailbox \<Rightarrow> bool \<times> mailbox" where
  "abs_send x r a =
     (if expects a r \<in> {Some x, Some ANY} then (False, a\<lparr>expects := (expects a)(r := None)\<rparr>)
      else (True, a\<lparr>queue := (queue a)(r := queue a r @ [x])\<rparr>))"

definition abs_source :: "int \<Rightarrow> int \<Rightarrow> mailbox \<Rightarrow> int option" where
  "abs_source r src a =
     (if src = ANY then (case queue a r of [] \<Rightarrow> None | x # _ \<Rightarrow> Some x)
      else if src \<in> set (queue a r) then Some src else None)"

definition abs_receive :: "int \<Rightarrow> int \<Rightarrow> mailbox \<Rightarrow> bool \<times> mailbox" where
  "abs_receive r src a =
     (if pending a r \<and> src \<in> {ANY, INTERRUPT} then (False, a\<lparr>pending := (pending a)(r := False)\<rparr>)
      else case abs_source r src a of
        Some x \<Rightarrow> (False, a\<lparr>queue := (queue a)(r := remove1 x (queue a r))\<rparr>)
      | None \<Rightarrow> (True, a\<lparr>expects := (expects a)(r := Some src)\<rparr>))"

definition abs_notify :: "int \<Rightarrow> mailbox \<Rightarrow> mailbox" where
  "abs_notify r a =
     (if expects a r \<in> {Some INTERRUPT, Some ANY}
      then a\<lparr>expects := (expects a)(r := None), pending := (pending a)(r := False)\<rparr>
      else a\<lparr>pending := (pending a)(r := True)\<rparr>)"

definition abs_rel :: "proc_tab \<Rightarrow> mailbox \<Rightarrow> bool" where
  "abs_rel pt a = (ipc_wf pt (queue a) \<and>
     (\<forall>r \<in> pids. expects a r = (if p_flags (pt r) = RECEIVING then Some (p_recvfrom (pt r)) else None)) \<and>
     (\<forall>r \<in> pids. pending a r = (has_int_msg (pt r) \<noteq> 0)))"

lemma abs_relD:
  assumes "abs_rel pt a"
  shows "ipc_wf pt (queue a)"
    "\<And>r. r \<in> pids \<Longrightarrow> expects a r = (if p_flags (pt r) = RECEIVING then Some (p_recvfrom (pt r)) else None)"
    "\<And>r. r \<in> pids \<Longrightarrow> pending a r = (has_int_msg (pt r) \<noteq> 0)"
  using assms unfolding abs_rel_def by blast+

lemma abs_relI:
  assumes "ipc_wf pt (queue a)"
    "\<And>r. r \<in> pids \<Longrightarrow> expects a r = (if p_flags (pt r) = RECEIVING then Some (p_recvfrom (pt r)) else None)"
    "\<And>r. r \<in> pids \<Longrightarrow> pending a r = (has_int_msg (pt r) \<noteq> 0)"
  shows "abs_rel pt a"
  using assms unfolding abs_rel_def by blast

subsection \<open>msg_send\<close>

definition accepts :: "proc \<Rightarrow> int \<Rightarrow> bool" where
  "accepts p x = (receiving p \<and> (p_recvfrom p = x \<or> p_recvfrom p = ANY))"

text \<open>A process that is receiving has no other flag set: it was not suspended by the memory manager.\<close>

definition plain :: "proc \<Rightarrow> bool" where
  "plain p = (receiving p \<longrightarrow> p_flags p = RECEIVING)"

lemma receiving_RECEIVING [simp]: "p_flags p = RECEIVING \<Longrightarrow> receiving p"
  by (simp add: receiving_def)

lemma plain_receiving: "plain p \<Longrightarrow> receiving p \<longleftrightarrow> p_flags p = RECEIVING"
  by (auto simp: plain_def)

lemma plain_accepts: "plain p \<Longrightarrow> accepts p x \<Longrightarrow> p_flags p = RECEIVING"
  by (simp add: accepts_def plain_def)

definition delivered :: "int \<Rightarrow> int \<Rightarrow> addr \<Rightarrow> 'a kstate_scheme \<Rightarrow> 'a kstate_scheme" where
  "delivered dest sender m s = s\<lparr>int_enabled := False,
     proc_table := (proc_table s)(dest := (proc_table s dest)\<lparr>p_msg := 0, p_flags := 0, p_recvfrom := NO_TASK\<rparr>),
     kmem := phys_copy (linear (proc_table s) dest (p_msg (proc_table s dest)))
        (linear (proc_table s) sender m) (int MESSAGE_SIZE) (kmem s)\<rparr>"

definition enqueued :: "int list \<Rightarrow> int \<Rightarrow> int \<Rightarrow> addr \<Rightarrow> 'a kstate_scheme \<Rightarrow> 'a kstate_scheme" where
  "enqueued q dest sender m s = s\<lparr>int_enabled := False, proc_table := link_last q dest sender
     ((proc_table s)(sender := (proc_table s sender)\<lparr>p_flags := SENDING, p_sendto := dest, p_msg := m\<rparr>))\<rparr>"

lemma msg_send_enter_eq:
  assumes wf: "ipc_wf (proc_table s) Q" and fl: "flat_natives (proc_table s)"
    and p: "sender \<in> pids" "dest \<in> pids" "sender \<noteq> dest" and m: "m \<noteq> 0"
    and idle: "p_flags (proc_table s sender) = 0"
    and plain: "accepts (proc_table s dest) sender \<Longrightarrow> p_flags (proc_table s dest) = RECEIVING"
  shows "msg_send_enter sender dest m s =
    (if (dest, sender) \<in> (waits (proc_table s))\<^sup>+ then Inl (Panic ''>>DEADLOCK<<'')
     else if accepts (proc_table s dest) sender then Inr (False, delivered dest sender m s)
     else Inr (True, enqueued (Q dest) dest sender m s))"
proof (cases "(dest, sender) \<in> (waits (proc_table s))\<^sup>+")
  case True
  then show ?thesis using p deadlock_ok[OF wf p(2), of sender] by (simp add: msg_send_enter_def op_defs)
next
  case False
  let ?s = "s\<lparr>int_enabled := False\<rparr>"
  note dl = deadlock_ok[OF wf p(2), of sender]
  show ?thesis
  proof (cases "accepts (proc_table s dest) sender")
    case acc: True
    then have r: "p_flags (proc_table s dest) = RECEIVING" using plain by blast
    have "deliver_to dest sender m ?s = Inr ((), delivered dest sender m s)"
      unfolding delivered_def
      using deliver_to_eq[of dest sender ?s m] p m fl r ipc_wfD(8)[OF wf p(2) r] ipc_wfD(6)[OF wf p(1) idle] idle
      by simp
    then show ?thesis
      using p dl False acc by (simp add: msg_send_enter_def op_defs disable_int_def accepts_def)
  next
    case nacc: False
    have "enqueue_at dest sender m ?s = Inr ((), enqueued (Q dest) dest sender m s)"
      unfolding enqueued_def using enqueue_at_eq[of ?s Q dest sender m] ipc_wfD(1)[OF wf] p idle by simp
    then show ?thesis
      using p dl False nacc by (auto simp: msg_send_enter_def op_defs disable_int_def accepts_def)
  qed
qed

text \<open>
  A process that waits for this sender, and that the memory manager has marked besides: the
  message is copied, and then \<open>unblock\<close> finds the mark.
\<close>

lemma msg_send_enter_marked:
  assumes fl: "flat_natives (proc_table s)" and p: "sender \<in> pids" "dest \<in> pids" "sender \<noteq> dest" and m: "m \<noteq> 0"
    and d: "accepts (proc_table s dest) sender" "\<not> sending (proc_table s dest)" "p_msg (proc_table s dest) \<noteq> 0"
      "p_flags (proc_table s dest) AND NOT RECEIVING \<noteq> 0"
  shows "msg_send_enter sender dest m s = Inl (Assert ''p->p_flags==0'')"
proof -
  have "deadlock sender dest s = Inr (False, s)"
    using p(2) d(2) by (simp add: deadlock_def loopE_def deadlock_loop.simps)
  moreover have "deliver_to dest sender m (s\<lparr>int_enabled := False\<rparr>) = Inl (Assert ''p->p_flags==0'')"
    using p m fl d by (simp add: deliver_to_def op_defs copy_between_ok updP_apply unblock_def)
  ultimately show ?thesis
    using p d(1) by (simp add: msg_send_enter_def op_defs disable_int_def accepts_def)
qed

lemma send_refines_aux:
  assumes rel: "abs_rel (proc_table s) a"
    and p: "sender \<in> pids" "dest \<in> pids" "sender \<noteq> dest" and m: "m \<noteq> 0"
    and idle: "p_flags (proc_table s sender) = 0"
    and plain: "accepts (proc_table s dest) sender \<Longrightarrow> p_flags (proc_table s dest) = RECEIVING"
    and dl: "(dest, sender) \<notin> (waits (proc_table s))\<^sup>+"
  shows "if accepts (proc_table s dest) sender
    then fst (abs_send sender dest a) = False \<and> abs_rel (proc_table (delivered dest sender m s)) (snd (abs_send sender dest a))
    else fst (abs_send sender dest a) = True \<and> abs_rel (proc_table (enqueued (queue a dest) dest sender m s)) (snd (abs_send sender dest a))"
proof (cases "accepts (proc_table s dest) sender")
  case True
  then have r: "p_flags (proc_table s dest) = RECEIVING" using plain by blast
  have e: "expects a dest \<in> {Some sender, Some ANY}"
    using abs_relD(2)[OF rel p(2)] r True by (simp add: accepts_def)
  have "abs_rel (proc_table (delivered dest sender m s)) (a\<lparr>expects := (expects a)(dest := None)\<rparr>)"
    using ipc_wf_deliver[OF abs_relD(1)[OF rel] p(2) r] abs_relD(2,3)[OF rel]
    by (intro abs_relI) (simp_all add: delivered_def)
  then show ?thesis using True e by (simp add: abs_send_def)
next
  case False
  let ?pt1 = "(proc_table s)(sender := (proc_table s sender)\<lparr>p_flags := SENDING, p_sendto := dest, p_msg := m\<rparr>)"
  have e: "expects a dest \<notin> {Some sender, Some ANY}"
    using abs_relD(2)[OF rel p(2)] False by (auto simp: accepts_def)
  have busy: "\<not> (p_flags (proc_table s dest) = RECEIVING \<and>
      (p_recvfrom (proc_table s dest) = sender \<or> p_recvfrom (proc_table s dest) = ANY))"
    using False by (auto simp: accepts_def)
  have "links_only ?pt1 (link_last (queue a dest) dest sender ?pt1)" by (rule links_only_link)
  note same = links_only_fields[OF this]
  have "abs_rel (proc_table (enqueued (queue a dest) dest sender m s))
      (a\<lparr>queue := (queue a)(dest := queue a dest @ [sender])\<rparr>)"
    using ipc_wf_enqueue[OF abs_relD(1)[OF rel] p(2,1) p(3)[symmetric] idle m dl busy] abs_relD(2,3)[OF rel] idle
    by (intro abs_relI) (simp_all add: enqueued_def same)
  then show ?thesis using False e by (simp add: abs_send_def)
qed

subsection \<open>msg_receive\<close>

definition waiting_for :: "int \<Rightarrow> int \<Rightarrow> addr \<Rightarrow> 'a kstate_scheme \<Rightarrow> 'a kstate_scheme" where
  "waiting_for who src m s = s\<lparr>int_enabled := False, proc_table := (proc_table s)(who :=
     (proc_table s who)\<lparr>p_flags := RECEIVING, p_msg := m, p_recvfrom := src\<rparr>)\<rparr>"

definition taken_int :: "int \<Rightarrow> addr \<Rightarrow> 'a kstate_scheme \<Rightarrow> 'a kstate_scheme" where
  "taken_int who m s = s\<lparr>int_enabled := False,
     proc_table := (proc_table s)(who := (proc_table s who)\<lparr>has_int_msg := 0\<rparr>),
     kmem := put_msg (kmem s) (linear (proc_table s) who m)
       (zero_msg\<lparr>m_source := INTERRUPT, m_type := HARD_INT\<rparr>)\<rparr>"

definition taken_table :: "int \<Rightarrow> int \<Rightarrow> int list \<Rightarrow> proc_tab \<Rightarrow> proc_tab" where
  "taken_table who f us pt = (unlink who f us pt)(f :=
     (unlink who f us pt f)\<lparr>p_msg := 0, p_sendto := NO_TASK, p_flags := 0\<rparr>)"

definition taken :: "int \<Rightarrow> int \<Rightarrow> addr \<Rightarrow> int list \<Rightarrow> 'a kstate_scheme \<Rightarrow> 'a kstate_scheme" where
  "taken who f m us s = s\<lparr>int_enabled := False, proc_table := taken_table who f us (proc_table s),
     kmem := phys_copy (linear (proc_table s) who m)
       (linear (proc_table s) f (p_msg (proc_table s f))) (int MESSAGE_SIZE) (kmem s)\<rparr>"

lemma queue_head:
  assumes "queues pt Q" "r \<in> pids"
  shows "q_sending (pt r) = (if Q r = [] then None else Some (hd (Q r)))"
  using queue_seg_hd[OF queues_simps(1)[OF assms]] .

lemma pick_sender_some:
  assumes wf: "ipc_wf (proc_table s) Q" and w: "who \<in> pids" "p_flags (proc_table s who) = 0"
    and q: "Q who = us @ f # vs" and src: "src = ANY \<and> us = [] \<or> src = f"
  shows "pick_sender who src s = Inr (Some (f, if us = [] then None else Some (last us)), s)"
proof -
  have "f \<in> set (Q who)" using q by simp
  then have f: "f \<in> pids" "p_flags (proc_table s f) = SENDING" "p_sendto (proc_table s f) = who"
    using ipc_wfD(2)[OF wf w(1)] by (auto simp: senders_to_def)
  have hd: "q_sending (proc_table s who) = Some (hd (Q who))"
    using queue_head[OF ipc_wfD(1)[OF wf] w(1)] q by simp
  have asserts: "rendezvous_asserts who f s = Inr ((), s)"
    using ipc_wfD(6)[OF wf w] ipc_wfD(7)[OF wf f(1,2)] f w hd by (intro rendezvous_asserts_ok) simp_all
  have seg: "queue_seg (proc_table s) (q_sending (proc_table s who)) (us @ f # vs) None"
    "f \<notin> set us" "set us \<subseteq> pids"
    using queues_simps[OF ipc_wfD(1)[OF wf] w(1)] q by auto
  note find = find_sender_seg[OF seg sending_SENDING[OF f(2)], of None]
  show ?thesis
  proof (cases "src = ANY")
    case True
    then have "us = []" using src f(1) by (auto simp: pids_def)
    then show ?thesis using True w hd q f asserts by (simp add: pick_sender_def op_defs)
  next
    case False
    then have "src = f" "src \<noteq> INTERRUPT" using src f(1) by (auto simp: pids_def)
    then show ?thesis
      using False w hd f asserts find by (simp add: pick_sender_def op_defs loopE_def)
  qed
qed

lemma pick_sender_none:
  assumes wf: "ipc_wf (proc_table s) Q" and w: "who \<in> pids" and src: "src \<in> insert ANY (insert INTERRUPT pids)"
    and none: "src = ANY \<Longrightarrow> Q who = []" "src \<notin> set (Q who)"
  shows "pick_sender who src s = Inr (None, s)"
proof -
  consider "src = ANY" | "src = INTERRUPT" | "src \<in> pids" "src \<noteq> ANY" "src \<noteq> INTERRUPT" using src by auto
  then show ?thesis
  proof cases
    case 1
    then show ?thesis using none(1) queue_head[OF ipc_wfD(1)[OF wf] w] w by (simp add: pick_sender_def op_defs)
  next
    case 2
    then show ?thesis by (simp add: pick_sender_def op_defs)
  next
    case 3
    have "\<not> (sending (proc_table s src) \<and> p_sendto (proc_table s src) = who)"
    proof
      assume f: "sending (proc_table s src) \<and> p_sendto (proc_table s src) = who"
      then have "p_flags (proc_table s src) = SENDING" using ipc_wfD(5)[OF wf 3(1)] by blast
      then have "src \<in> senders_to (proc_table s) who" using 3(1) f by (simp add: senders_to_def)
      then show False using none(2) ipc_wfD(2)[OF wf w] by simp
    qed
    then show ?thesis using 3 by (auto simp: pick_sender_def op_defs)
  qed
qed

lemma abs_source_split:
  assumes "abs_source r src a = Some f"
  obtains us vs where "queue a r = us @ f # vs" "f \<notin> set us" "src = ANY \<and> us = [] \<or> src = f"
proof (cases "src = ANY")
  case True
  then obtain vs where "queue a r = [] @ f # vs" using assms by (auto simp: abs_source_def split: list.splits)
  then show ?thesis by (rule that) (simp_all add: True)
next
  case False
  then have f: "src = f" "f \<in> set (queue a r)" using assms by (auto simp: abs_source_def split: if_splits)
  from split_list_first[OF f(2)] obtain us vs where "queue a r = us @ f # vs" "f \<notin> set us" by blast
  then show ?thesis by (rule that) (simp add: f)
qed

lemma msg_receive_enter_taken:
  assumes wf: "ipc_wf (proc_table s) Q" and fl: "flat_natives (proc_table s)"
    and w: "who \<in> pids" "p_flags (proc_table s who) = 0" "who \<noteq> src" and m: "m \<noteq> 0"
    and int: "\<not> (has_int_msg (proc_table s who) \<noteq> 0 \<and> src \<in> {ANY, INTERRUPT})"
    and q: "Q who = us @ f # vs" "src = ANY \<and> us = [] \<or> src = f"
  shows "msg_receive_enter who src m s = Inr (False, taken who f m us s)"
proof -
  let ?s = "s\<lparr>int_enabled := False\<rparr>"
  let ?pt = "unlink who f us (proc_table s)"
  let ?t = "?s\<lparr>proc_table := ?pt\<rparr>"
  have "f \<in> set (Q who)" using q by simp
  then have f: "f \<in> pids" "p_flags (proc_table s f) = SENDING"
    using ipc_wfD(2)[OF wf w(1)] by (auto simp: senders_to_def)
  have pick: "pick_sender who src ?s = Inr (Some (f, if us = [] then None else Some (last us)), ?s)"
    using pick_sender_some[of ?s Q who us f vs src, OF _ w(1) _ q] wf w by simp
  have un: "unlink_sender who f (if us = [] then None else Some (last us)) ?s = Inr ((), ?t)"
    using unlink_sender_eq[of ?s Q who us f vs, OF _ w(1) q(1)] ipc_wfD(1)[OF wf] by simp
  have lo: "links_only (proc_table s) ?pt" by (rule links_only_unlink)
  note same = links_only_fields[OF lo]
  have fl': "flat_natives ?pt" using fl by (simp add: flat_natives_def ldt_reg_linear_def same)
  have take: "take_from who f m ?t = Inr ((), taken who f m us s)"
    using take_from_eq[of who f ?t m] w f m fl' ipc_wfD(7)[OF wf f]
    by (simp add: taken_def taken_table_def same linear_def ldt_reg_linear_def)
  show ?thesis
    using w int pick un take by (auto simp: msg_receive_enter_def op_defs disable_int_def)
qed

lemma msg_receive_enter_int:
  assumes wf: "ipc_wf (proc_table s) Q" and fl: "flat_natives (proc_table s)"
    and w: "who \<in> pids" "p_flags (proc_table s who) = 0" and m: "m \<noteq> 0"
    and int: "has_int_msg (proc_table s who) \<noteq> 0" "src \<in> {ANY, INTERRUPT}"
  shows "msg_receive_enter who src m s = Inr (False, taken_int who m s)"
proof -
  let ?s = "s\<lparr>int_enabled := False\<rparr>"
  have "who \<noteq> src" using int w by (auto simp: pids_def)
  moreover have "take_interrupt who m ?s = Inr ((), taken_int who m s)"
    unfolding taken_int_def using take_interrupt_eq[of who ?s m] w m fl ipc_wfD(6)[OF wf w(1,2)] by simp
  ultimately show ?thesis
    using w int by (auto simp: msg_receive_enter_def op_defs disable_int_def)
qed

lemma msg_receive_enter_wait:
  assumes wf: "ipc_wf (proc_table s) Q"
    and w: "who \<in> pids" "p_flags (proc_table s who) = 0" "who \<noteq> src"
    and src: "src \<in> insert ANY (insert INTERRUPT pids)"
    and int: "\<not> (has_int_msg (proc_table s who) \<noteq> 0 \<and> src \<in> {ANY, INTERRUPT})"
    and none: "src = ANY \<Longrightarrow> Q who = []" "src \<notin> set (Q who)"
  shows "msg_receive_enter who src m s = Inr (True, waiting_for who src m s)"
proof -
  let ?s = "s\<lparr>int_enabled := False\<rparr>"
  have pick: "pick_sender who src ?s = Inr (None, ?s)"
    using pick_sender_none[of ?s Q who src, OF _ w(1) src none] wf by simp
  have wait: "wait_for who src m ?s = Inr ((), waiting_for who src m s)"
    using w by (simp add: wait_for_eq waiting_for_def)
  show ?thesis
    using w int pick wait by (auto simp: msg_receive_enter_def op_defs disable_int_def)
qed

text \<open>
  What every operation leaves alone: the segments, the running process, and the entries whose
  flags are not those of message passing, but for their links, their interrupt flag and their
  slice; a caller that does not block stays running.
\<close>

definition kept :: "proc_tab \<Rightarrow> proc_tab \<Rightarrow> bool" where
  "kept pt pt' = (\<forall>i. ldts (pt' i) = ldts (pt i) \<and>
     (p_flags (pt i) \<in> {0, SENDING, RECEIVING} \<and> p_flags (pt' i) \<in> {0, SENDING, RECEIVING} \<or>
      p_flags (pt' i) = p_flags (pt i) \<and> p_msg (pt' i) = p_msg (pt i) \<and> p_recvfrom (pt' i) = p_recvfrom (pt i) \<and>
      p_sendto (pt' i) = p_sendto (pt i)))"

definition entered :: "int \<Rightarrow> bool \<Rightarrow> 'a kstate_scheme \<Rightarrow> 'a kstate_scheme \<Rightarrow> bool" where
  "entered p b s t = (kept (proc_table s) (proc_table t) \<and> p_proc_ready t = p_proc_ready s \<and>
     (b \<or> p_flags (proc_table t p) = 0))"

lemma kept_refl [simp]: "kept pt pt"
  by (simp add: kept_def)

lemma kept_trans: "kept pt pt' \<Longrightarrow> kept pt' pt'' \<Longrightarrow> kept pt pt''"
  unfolding kept_def by (metis (no_types, lifting))

lemma kept_links: "links_only pt pt' \<Longrightarrow> kept pt pt'"
  by (simp add: kept_def links_only_fields)

lemma kept_upd: "p_flags (pt i) \<in> {0, SENDING, RECEIVING} \<Longrightarrow> p_flags p \<in> {0, SENDING, RECEIVING} \<Longrightarrow>
   ldts p = ldts (pt i) \<Longrightarrow> kept pt (pt(i := p))"
  by (simp add: kept_def)

lemma entered_delivered:
  "p_flags (proc_table s x) = 0 \<Longrightarrow> p_flags (proc_table s r) = RECEIVING \<Longrightarrow> entered x b s (delivered r x m s)"
  by (simp add: entered_def delivered_def kept_upd)

lemma entered_enqueued: "p_flags (proc_table s x) = 0 \<Longrightarrow> entered x True s (enqueued q r x m s)"
  by (auto simp: entered_def enqueued_def intro!: kept_trans[OF kept_upd kept_links[OF links_only_link]])

lemma entered_waiting: "p_flags (proc_table s r) = 0 \<Longrightarrow> entered r True s (waiting_for r src m s)"
  by (simp add: entered_def waiting_for_def kept_upd)

lemma entered_int: "p_flags (proc_table s r) = 0 \<Longrightarrow> entered r b s (taken_int r m s)"
  by (simp add: entered_def taken_int_def kept_upd)

lemma entered_taken:
  assumes "p_flags (proc_table s r) = 0" "p_flags (proc_table s f) = SENDING"
  shows "entered r b s (taken r f m us s)"
proof -
  let ?u = "unlink r f us (proc_table s)"
  have "kept (proc_table s) ?u" by (rule kept_links[OF links_only_unlink])
  moreover have "p_flags (?u f) = SENDING" "p_flags (?u r) = 0"
    using assms links_only_fields[OF links_only_unlink] by simp_all
  then have "kept ?u (taken_table r f us (proc_table s))" unfolding taken_table_def by (intro kept_upd) simp_all
  ultimately have "kept (proc_table s) (taken_table r f us (proc_table s))" by (rule kept_trans)
  then show ?thesis using \<open>p_flags (?u r) = 0\<close> by (simp add: entered_def taken_def taken_table_def)
qed

text \<open>
  Every receive by an idle process returns, with the outcome the mailbox has.
\<close>

lemma msg_receive_enter_refines:
  assumes rel: "abs_rel (proc_table s) a" and fl: "flat_natives (proc_table s)"
    and w: "who \<in> pids" "p_flags (proc_table s who) = 0" "who \<noteq> src" and m: "m \<noteq> 0"
    and src: "src \<in> insert ANY (insert INTERRUPT pids)"
  shows "\<exists>t. msg_receive_enter who src m s = Inr (fst (abs_receive who src a), t) \<and>
    abs_rel (proc_table t) (snd (abs_receive who src a)) \<and> entered who (fst (abs_receive who src a)) s t"
proof -
  note wf = abs_relD(1)[OF rel]
  have pend: "pending a who = (has_int_msg (proc_table s who) \<noteq> 0)" using abs_relD(3)[OF rel w(1)] .
  consider (int) "pending a who" "src \<in> {ANY, INTERRUPT}"
    | (tak) f where "\<not> (pending a who \<and> src \<in> {ANY, INTERRUPT})" "abs_source who src a = Some f"
    | (wait) "\<not> (pending a who \<and> src \<in> {ANY, INTERRUPT})" "abs_source who src a = None"
    by (cases "abs_source who src a") auto
  then show ?thesis
  proof cases
    case int
    then have "msg_receive_enter who src m s = Inr (False, taken_int who m s)"
      using msg_receive_enter_int[OF wf fl w(1,2) m] pend by simp
    moreover have "abs_rel (proc_table (taken_int who m s)) (a\<lparr>pending := (pending a)(who := False)\<rparr>)"
      using ipc_wf_has_int[OF wf w(1), of 0] abs_relD(2,3)[OF rel] w
      by (intro abs_relI) (simp_all add: taken_int_def)
    ultimately show ?thesis using int entered_int[of s who] w by (simp add: abs_receive_def)
  next
    case (tak f)
    from abs_source_split[OF tak(2)] obtain us vs where
      q: "queue a who = us @ f # vs" "f \<notin> set us" "src = ANY \<and> us = [] \<or> src = f" .
    have f: "f \<in> pids" "p_flags (proc_table s f) = SENDING"
      using ipc_wfD(2)[OF wf w(1)] q(1) by (auto simp: senders_to_def)
    have "links_only (proc_table s) (unlink who f us (proc_table s))" by (rule links_only_unlink)
    note same = links_only_fields[OF this]
    have "msg_receive_enter who src m s = Inr (False, taken who f m us s)"
      using msg_receive_enter_taken[OF wf fl w m _ q(1,3)] tak(1) pend by simp
    moreover have "remove1 f (queue a who) = us @ vs" using q by (simp add: remove1_append)
    moreover have "abs_rel (proc_table (taken who f m us s)) (a\<lparr>queue := (queue a)(who := us @ vs)\<rparr>)"
      using ipc_wf_take[OF wf w(1,2) q(1)] abs_relD(2,3)[OF rel] f
      by (intro abs_relI) (simp_all add: taken_def taken_table_def same)
    ultimately show ?thesis using tak entered_taken[where s = s and r = who and f = f] f(2) w by (auto simp: abs_receive_def)
  next
    case wait
    have none: "src = ANY \<Longrightarrow> queue a who = []" "src \<notin> set (queue a who)"
    proof -
      show "src = ANY \<Longrightarrow> queue a who = []" using wait(2) by (auto simp: abs_source_def split: list.splits)
      show "src \<notin> set (queue a who)"
      proof (cases "src = ANY")
        case True
        then show ?thesis using wait(2) by (auto simp: abs_source_def split: list.splits)
      next
        case False
        then show ?thesis using wait(2) by (auto simp: abs_source_def split: if_splits)
      qed
    qed
    have "msg_receive_enter who src m s = Inr (True, waiting_for who src m s)"
      using msg_receive_enter_wait[OF wf w src _ none] wait(1) pend by blast
    moreover have "abs_rel (proc_table (waiting_for who src m s)) (a\<lparr>expects := (expects a)(who := Some src)\<rparr>)"
      using ipc_wf_wait[OF wf w(1,2) m none] abs_relD(2,3)[OF rel] wait(1) pend
      by (intro abs_relI) (auto simp: waiting_for_def)
    ultimately show ?thesis using wait entered_waiting[OF w(2)] by (auto simp: abs_receive_def)
  qed
qed

subsection \<open>inform_int\<close>

lemma inform_int_refines:
  assumes rel: "abs_rel (proc_table s) a" and i: "i \<in> pids" 
    and plain: "receiving (proc_table s i) \<Longrightarrow> p_recvfrom (proc_table s i) \<in> {INTERRUPT, ANY} \<Longrightarrow> p_flags (proc_table s i) = RECEIVING"
  shows "\<exists>t. inform_int i s = Inr ((), t) \<and> abs_rel (proc_table t) (abs_notify i a) \<and>
    kept (proc_table s) (proc_table t) \<and> p_proc_ready t = p_proc_ready s"
proof (cases "receiving (proc_table s i) \<and> p_recvfrom (proc_table s i) \<in> {INTERRUPT, ANY}")
  case True
  then have r: "p_flags (proc_table s i) = RECEIVING" using plain by blast
  let ?pt = "(proc_table s)(i := (proc_table s i)\<lparr>p_msg := 0, has_int_msg := 0, p_flags := 0, p_recvfrom := NO_TASK\<rparr>)"
  have "\<exists>k. inform_int i s = Inr ((), s\<lparr>kmem := k, proc_table := ?pt\<rparr>)"
    using True i r ipc_wfD(8)[OF abs_relD(1)[OF rel] i r]
    by (auto simp: inform_int_def op_defs updP_apply unblock_def)
  moreover have "abs_rel ?pt (abs_notify i a)"
    using ipc_wf_interrupt[OF abs_relD(1)[OF rel] i r] abs_relD(2,3)[OF rel] True i r
    by (intro abs_relI) (auto simp: abs_notify_def)
  moreover have "kept (proc_table s) ?pt" by (rule kept_upd) (simp_all add: r)
  ultimately show ?thesis by auto
next
  case False
  let ?pt = "(proc_table s)(i := (proc_table s i)\<lparr>has_int_msg := 1\<rparr>)"
  have "inform_int i s = Inr ((), s\<lparr>proc_table := ?pt\<rparr>)"
    using False i by (auto simp: inform_int_def op_defs updP_apply)
  moreover have "abs_rel ?pt (abs_notify i a)"
  proof -
    have "expects a i \<notin> {Some INTERRUPT, Some ANY}"
      using False abs_relD(2)[OF rel i] by auto
    moreover have "ipc_wf ?pt (queue a)"
      using False by (intro ipc_wf_has_int[OF abs_relD(1)[OF rel] i]) auto
    ultimately show ?thesis using abs_relD(2,3)[OF rel] by (intro abs_relI) (auto simp: abs_notify_def)
  qed
  moreover have "kept (proc_table s) ?pt" by (simp add: kept_def)
  ultimately show ?thesis by auto
qed

text \<open>A task that waits for an interrupt and is marked besides stops the handler.\<close>

lemma inform_int_marked:
  assumes "receiving (proc_table s i)" "p_recvfrom (proc_table s i) \<in> {INTERRUPT, ANY}"
    "p_flags (proc_table s i) AND NOT RECEIVING \<noteq> 0"
  shows "inform_int i s \<noteq> Inr ((), t)"
  using assms by (cases "i \<in> pids") (auto simp: inform_int_def op_defs updP_apply)

subsection \<open>FIFO queues\<close>

text \<open>
  What a client of the sending queues relies on: \<open>enq\<close> puts an element that is \<open>ready\<close> and
  in no queue behind the others, \<open>deq\<close> takes an element out and keeps the order of the
  rest.
\<close>

locale fifo_queues =
  fixes repr :: "'s \<Rightarrow> ('r \<Rightarrow> 'x list) \<Rightarrow> bool"
    and ready :: "'s \<Rightarrow> 'x \<Rightarrow> bool"
    and owners :: "'r set"
    and enq :: "'r \<Rightarrow> 'x \<Rightarrow> ('s, unit) op"
    and deq :: "'r \<Rightarrow> 'x \<Rightarrow> ('s, unit) op"
  assumes enq_ok: "repr s Q \<Longrightarrow> r \<in> owners \<Longrightarrow> ready s x \<Longrightarrow> (\<And>r'. r' \<in> owners \<Longrightarrow> x \<notin> set (Q r')) \<Longrightarrow>
      \<exists>t. enq r x s = Inr ((), t) \<and> repr t (Q(r := Q r @ [x])) \<and> (\<forall>y. ready t y = ready s y)"
    and deq_ok: "repr s Q \<Longrightarrow> r \<in> owners \<Longrightarrow> x \<in> set (Q r) \<Longrightarrow>
      \<exists>t. deq r x s = Inr ((), t) \<and> repr t (Q(r := remove1 x (Q r))) \<and> (\<forall>y. ready t y = ready s y)"
begin

lemma enq_all:
  assumes "repr s Q" "r \<in> owners" "distinct xs" "\<forall>x \<in> set xs. ready s x"
    "\<forall>x \<in> set xs. \<forall>r' \<in> owners. x \<notin> set (Q r')"
  shows "\<exists>t. forE xs (enq r) s = Inr ((), t) \<and> repr t (Q(r := Q r @ xs)) \<and> (\<forall>y. ready t y = ready s y)"
  using assms
proof (induction xs arbitrary: s Q)
  case Nil
  then show ?case by (simp add: op_defs)
next
  case (Cons x xs)
  from enq_ok[of s Q r x] Cons.prems obtain t where
    t: "enq r x s = Inr ((), t)" "repr t (Q(r := Q r @ [x]))" "\<forall>y. ready t y = ready s y" by auto
  let ?Q = "Q(r := Q r @ [x])"
  have "\<exists>u. forE xs (enq r) t = Inr ((), u) \<and>
      repr u (?Q(r := ?Q r @ xs)) \<and> (\<forall>y. ready u y = ready t y)"
    by (rule Cons.IH[OF t(2)]) (use Cons.prems t(3) in auto)
  moreover have "?Q(r := ?Q r @ xs) = Q(r := Q r @ x # xs)" by (simp add: fun_eq_iff)
  ultimately obtain u where
    u: "forE xs (enq r) t = Inr ((), u)" "repr u (Q(r := Q r @ x # xs))" "\<forall>y. ready u y = ready t y"
    by metis
  have "forE (x # xs) (enq r) s = Inr ((), u)" using t(1) u(1) by simp
  with u(2,3) t(3) show ?case by metis
qed

lemma deq_all:
  assumes "repr s Q" "r \<in> owners"
  shows "\<exists>t. forE (Q r) (deq r) s = Inr ((), t) \<and> repr t (Q(r := []))"
  using assms
proof (induction "Q r" arbitrary: s Q)
  case Nil
  then show ?case by (metis (no_types, lifting) forE.simps(1) fun_upd_triv ret_apply)
next
  case (Cons x xs)
  have "x \<in> set (Q r)" unfolding Cons.hyps(2)[symmetric] by simp
  from deq_ok[OF Cons.prems this] obtain t where
    t: "deq r x s = Inr ((), t)" "repr t (Q(r := xs))" unfolding Cons.hyps(2)[symmetric] by auto
  from Cons.hyps(1)[of "Q(r := xs)" t] t(2) Cons.prems(2) obtain u where
    "forE xs (deq r) t = Inr ((), u)" "repr u (Q(r := []))" by auto
  then show ?case unfolding Cons.hyps(2)[symmetric] using t(1) by simp
qed

text \<open>First in, first out.\<close>

lemma fifo_order:
  assumes "repr s Q" "r \<in> owners" "Q r = []" "distinct xs" "\<forall>x \<in> set xs. ready s x"
    "\<forall>x \<in> set xs. \<forall>r' \<in> owners. x \<notin> set (Q r')"
  shows "\<exists>t u. forE xs (enq r) s = Inr ((), t) \<and> repr t (Q(r := xs)) \<and>
    forE xs (deq r) t = Inr ((), u) \<and> repr u Q"
proof -
  from enq_all[OF assms(1,2,4,5,6)] assms(3) obtain t where
    t: "forE xs (enq r) s = Inr ((), t)" "repr t (Q(r := xs))" by auto
  from deq_all[OF t(2) assms(2)] assms(3) obtain u where "forE xs (deq r) t = Inr ((), u)" "repr u Q"
    by (auto simp: fun_upd_idem)
  with t show ?thesis by blast
qed

end

text \<open>The model's queues: \<open>append_sender\<close>, and the search of \<open>msg_receive\<close> with the unlinking.\<close>

definition dequeue_sender :: "int \<Rightarrow> int \<Rightarrow> ('a kstate_scheme, unit) op" where
  "dequeue_sender who src =
     bindE (procE who) (\<lambda>w.
     bindE (loopE (Spin ''msg_receive'') (\<lambda>s. find_sender (proc_table s) src None (q_sending w)))
       (unlink_sender who src))"

definition sender_queues :: "'a kstate_scheme \<Rightarrow> (int \<Rightarrow> int list) \<Rightarrow> bool" where
  "sender_queues s Q = (queues (proc_table s) Q \<and>
     (\<forall>r \<in> pids. \<forall>x \<in> set (Q r). sending (proc_table s x)))"

definition ready_sender :: "'a kstate_scheme \<Rightarrow> int \<Rightarrow> bool" where
  "ready_sender s x = (x \<in> pids \<and> sending (proc_table s x))"

lemma dequeue_sender_eq:
  assumes "sender_queues s Q" "who \<in> pids" "f \<in> set (Q who)"
  obtains us vs where "Q who = us @ f # vs" "f \<notin> set us"
    "dequeue_sender who f s = Inr ((), s\<lparr>proc_table := unlink who f us (proc_table s)\<rparr>)"
proof -
  have q: "queues (proc_table s) Q" and send: "sending (proc_table s f)"
    using assms unfolding sender_queues_def by blast+
  from split_list_first[OF assms(3)] obtain us vs where us: "Q who = us @ f # vs" "f \<notin> set us" by blast
  have "queue_seg (proc_table s) (q_sending (proc_table s who)) (us @ f # vs) None" "set us \<subseteq> pids"
    using queues_simps[OF q assms(2)] us(1) by auto
  from find_sender_seg[OF this(1) us(2) this(2) send, of None]
  have "dequeue_sender who f s = unlink_sender who f (if us = [] then None else Some (last us)) s"
    using assms(2) by (simp add: dequeue_sender_def loopE_def)
  with unlink_sender_eq[of s Q who us f vs, OF q assms(2) us(1)] that us show ?thesis by simp
qed

lemma sending_links: "links_only pt pt' \<Longrightarrow> sending (pt' x) = sending (pt x)"
  by (simp add: sending_def links_only_fields)

interpretation sq: fifo_queues sender_queues ready_sender pids append_sender dequeue_sender
proof
  fix s :: "'a kstate_scheme" and Q r x
  assume repr: "sender_queues s Q" and r: "r \<in> pids" and x: "ready_sender s x"
    and fresh: "\<And>r'. r' \<in> pids \<Longrightarrow> x \<notin> set (Q r')"
  let ?pt = "link_last (Q r) r x (proc_table s)"
  have "append_sender r x s = Inr ((), s\<lparr>proc_table := ?pt\<rparr>)"
    using append_sender_eq[of s Q r x, OF _ r] repr by (simp add: sender_queues_def)
  moreover have "sender_queues (s\<lparr>proc_table := ?pt\<rparr>) (Q(r := Q r @ [x]))"
  proof -
    have "queues ?pt (Q(r := Q r @ [x]))"
      using queues_link[of "proc_table s" Q r x] repr r x fresh by (simp add: sender_queues_def ready_sender_def)
    then show ?thesis
      using repr x by (auto simp: sender_queues_def ready_sender_def sending_links[OF links_only_link])
  qed
  ultimately show "\<exists>t. append_sender r x s = Inr ((), t) \<and> sender_queues t (Q(r := Q r @ [x])) \<and>
      (\<forall>y. ready_sender t y = ready_sender s y)"
    by (auto simp: ready_sender_def sending_links[OF links_only_link])
next
  fix s :: "'a kstate_scheme" and Q r x
  assume repr: "sender_queues s Q" and r: "r \<in> pids" and x: "x \<in> set (Q r)"
  from dequeue_sender_eq[OF repr r x] obtain us vs where us: "Q r = us @ x # vs" "x \<notin> set us" and
    deq: "dequeue_sender r x s = Inr ((), s\<lparr>proc_table := unlink r x us (proc_table s)\<rparr>)" .
  have "queues (unlink r x us (proc_table s)) (Q(r := us @ vs))"
    using queues_unlink[of "proc_table s" Q r us x vs] repr r us by (simp add: sender_queues_def)
  moreover have "remove1 x (Q r) = us @ vs" using us by (simp add: remove1_append)
  moreover have "\<forall>y \<in> set (us @ vs). sending (proc_table s y)" using repr us r by (auto simp: sender_queues_def)
  ultimately have "sender_queues (s\<lparr>proc_table := unlink r x us (proc_table s)\<rparr>) (Q(r := remove1 x (Q r)))"
    using repr by (auto simp: sender_queues_def sending_links[OF links_only_unlink])
  with deq show "\<exists>t. dequeue_sender r x s = Inr ((), t) \<and> sender_queues t (Q(r := remove1 x (Q r))) \<and>
      (\<forall>y. ready_sender t y = ready_sender s y)"
    by (auto simp: ready_sender_def sending_links[OF links_only_unlink])
qed

end
