(* ===== verification/Clock.thy ===== *)
theory Clock
  imports Ipc_Inv
begin

section \<open>The clock\<close>

text \<open>
  \<open>clock_handler\<close> of kernel/clock.c: it counts the tick, takes one from the slice of the
  interrupted process, wakes the terminal task when a key is pending, and calls the scheduler
  unless it interrupted the kernel or the process may go on. It prints \<open>cnt\<close> at the top of the
  screen, and at offset 500 when it has interrupted the kernel.
  The theorem at the end is that round-robin under the clock starves no runnable process.
\<close>

abbreviation (input) MAX_TICKS :: int where "MAX_TICKS \<equiv> 0x7FFFABCD"

definition clock_handler :: "('a kstate_scheme, unit) op" where
  "clock_handler =
     bindE (blockE [
       modE (\<lambda>s. s\<lparr>disp_pos := 0\<rparr>),
       bindE (getsE cnt) disp_int,
       modE (\<lambda>s. s\<lparr>cnt := s32 (cnt s + 1)\<rparr>),
       modE (\<lambda>s. s\<lparr>kticks := s32 (kticks s + 1)\<rparr>),
       modE (\<lambda>s. s\<lparr>kticks := (if kticks s > MAX_TICKS then 0 else kticks s)\<rparr>),
       bindE (getsE p_proc_ready) (\<lambda>r. bindE (procE r) (\<lambda>p.
         whenE (p_ticks p > 0) (updP r (\<lambda>p. p\<lparr>p_ticks := p_ticks p - 1\<rparr>)))),
       bindE (getsE key_pressed) (\<lambda>k. whenE (k \<noteq> 0) (inform_int TASK_TTY))]) (\<lambda>_.
     bindE (getsE k_reenter) (\<lambda>k.
     if k \<noteq> 0 then blockE [modE (\<lambda>s. s\<lparr>disp_pos := 500\<rparr>), bindE (getsE cnt) disp_int]
     else bindE (getsE p_proc_ready) (\<lambda>r. bindE (procE r) (\<lambda>p.
       if p_ticks p \<noteq> 0 \<and> p_flags p = RUNNING then ret () else scheduleE))))"

subsection \<open>No runnable process starves\<close>

text \<open>The slices the running processes have left in all.\<close>

definition total_slice :: "proc_tab \<Rightarrow> nat" where
  "total_slice pt = (\<Sum>p \<in> pids. if p_flags (pt p) = RUNNING then nat (p_ticks (pt p)) else 0)"

text \<open>Ticks that find the processor in user code, with no key pending.\<close>

fun clock_ticks :: "nat \<Rightarrow> ('a kstate_scheme, unit) op" where
  "clock_ticks 0 = ret ()"
| "clock_ticks (Suc n) = bindE clock_handler (\<lambda>_. clock_ticks n)"

definition undisturbed :: "'a kstate_scheme \<Rightarrow> bool" where
  "undisturbed s = (k_reenter s = 0 \<and> key_pressed s = 0 \<and> p_proc_ready s \<in> pids \<and>
     runnable (proc_table s (p_proc_ready s)))"

definition decrement :: "int \<Rightarrow> proc_tab \<Rightarrow> proc_tab" where
  "decrement r pt = pt(r := (pt r)\<lparr>p_ticks := p_ticks (pt r) - 1\<rparr>)"

lemma total_slice_decrement:
  assumes "r \<in> pids" "runnable (pt r)"
  shows "Suc (total_slice (decrement r pt)) = total_slice pt"
proof -
  let ?f = "\<lambda>pt p. if p_flags (pt p) = RUNNING then nat (p_ticks (pt p)) else 0"
  have "total_slice pt = ?f pt r + (\<Sum>p \<in> pids - {r}. ?f pt p)"
    "total_slice (decrement r pt) = ?f (decrement r pt) r + (\<Sum>p \<in> pids - {r}. ?f (decrement r pt) p)"
    unfolding total_slice_def using assms(1) by (simp_all add: sum.remove)
  moreover have "(\<Sum>p \<in> pids - {r}. ?f (decrement r pt) p) = (\<Sum>p \<in> pids - {r}. ?f pt p)"
    by (rule sum.cong) (simp_all add: decrement_def)
  moreover have "Suc (?f (decrement r pt) r) = ?f pt r"
    using assms(2) by (auto simp: decrement_def runnable_def)
  ultimately show ?thesis by simp
qed

lemma schedule_keeps_regs:
  assumes "schedule s = Some (Inr ((), t))"
  shows "k_reenter t = k_reenter s" "key_pressed t = key_pressed s"
  using assms by (cases rule: schedule_cases; auto dest: sched_from_fields)+

text \<open>The count at a position of the screen changes the memory and the position only.\<close>

lemma disp_int_at:
  assumes "p < 0xFF00"
  shows "\<exists>m d. disp_int n (s\<lparr>disp_pos := int p\<rparr>) = Inr ((), s\<lparr>kmem := m, disp_pos := d\<rparr>)"
proof -
  have again: "(s\<lparr>disp_pos := int p\<rparr>)\<lparr>kmem := m, disp_pos := d\<rparr> = s\<lparr>kmem := m, disp_pos := d\<rparr>" for m d by simp
  obtain u where u: "disp_int n (s\<lparr>disp_pos := int p\<rparr>) = Inr ((), u)" "printed (s\<lparr>disp_pos := int p\<rparr>) p (itoa n) u"
    using disp_int_printed[OF assms] by blast
  have "u = s\<lparr>kmem := kmem u, disp_pos := disp_pos u\<rparr>" using u(2) unfolding printed_def again by (elim conjE)
  then show ?thesis using u(1) by auto
qed

text \<open>The state after the count has been shown, and gone up.\<close>

definition ticked :: "mem \<Rightarrow> int \<Rightarrow> 'a kstate_scheme \<Rightarrow> 'a kstate_scheme" where
  "ticked m d s = s\<lparr>kmem := m, disp_pos := d, cnt := s32 (cnt s + 1),
     kticks := (if s32 (kticks s + 1) > MAX_TICKS then 0 else s32 (kticks s + 1))\<rparr>"

lemma ticked_fields [simp]:
  "proc_table (ticked m d s) = proc_table s" "p_proc_ready (ticked m d s) = p_proc_ready s"
  "k_reenter (ticked m d s) = k_reenter s" "key_pressed (ticked m d s) = key_pressed s"
  by (simp_all add: ticked_def)

text \<open>What the handler does after that.\<close>

definition clock_tail :: "('a kstate_scheme, unit) op" where
  "clock_tail = bindE (getsE k_reenter) (\<lambda>k.
     if k \<noteq> 0 then blockE [modE (\<lambda>s. s\<lparr>disp_pos := 500\<rparr>), bindE (getsE cnt) disp_int]
     else bindE (getsE p_proc_ready) (\<lambda>r. bindE (procE r) (\<lambda>p.
       if p_ticks p \<noteq> 0 \<and> p_flags p = RUNNING then ret () else scheduleE)))"

definition clock_rest :: "('a kstate_scheme, unit) op" where
  "clock_rest = bindE (blockE [
       bindE (getsE p_proc_ready) (\<lambda>r. bindE (procE r) (\<lambda>p.
         whenE (p_ticks p > 0) (updP r (\<lambda>p. p\<lparr>p_ticks := p_ticks p - 1\<rparr>)))),
       bindE (getsE key_pressed) (\<lambda>k. whenE (k \<noteq> 0) (inform_int TASK_TTY))]) (\<lambda>_. clock_tail)"

lemma clock_handler_eq:
  "\<exists>m d. clock_handler s = clock_rest (ticked m d s)"
proof -
  obtain m d where m: "disp_int (cnt s) (s\<lparr>disp_pos := 0\<rparr>) = Inr ((), s\<lparr>kmem := m, disp_pos := d\<rparr>)"
    using disp_int_at[of 0 "cnt s" s] by auto
  show ?thesis
    unfolding clock_handler_def clock_rest_def clock_tail_def blockE.simps bindE_assoc
    by (rule exI[of _ m], rule exI[of _ d]) (simp add: op_defs m ticked_def cong: if_cong)
qed

lemma clock_handler_step:
  assumes u: "undisturbed s" and q: "q \<in> pids" "runnable (proc_table s q)" "q \<noteq> p_proc_ready s"
  shows "\<exists>t. clock_handler s = Inr ((), t) \<and> undisturbed t \<and>
    proc_table t = decrement (p_proc_ready s) (proc_table s)"
proof -
  let ?r = "p_proc_ready s"
  let ?pt = "decrement ?r (proc_table s)"
  have r: "?r \<in> pids" "p_flags (proc_table s ?r) = 0" "0 < p_ticks (proc_table s ?r)" "k_reenter s = 0" "key_pressed s = 0"
    using u by (simp_all add: undisturbed_def runnable_def)
  obtain m d where step: "clock_handler s = clock_rest (ticked m d s)"
    using clock_handler_eq by blast
  define s1 where "s1 = (ticked m d s)\<lparr>proc_table := ?pt\<rparr>"
  have mid: "clock_handler s = (if p_ticks (?pt ?r) \<noteq> 0 then Inr ((), s1) else scheduleE s1)"
    unfolding step clock_rest_def clock_tail_def using r by (simp add: op_defs updP_apply decrement_def s1_def)
  have s1: "proc_table s1 = ?pt" "p_proc_ready s1 = ?r" "k_reenter s1 = 0" "key_pressed s1 = 0"
    using r by (simp_all add: s1_def)
  show ?thesis
  proof (cases "p_ticks (?pt ?r) \<noteq> 0")
    case True
    then have "undisturbed s1" using r s1 by (simp add: undisturbed_def runnable_def decrement_def)
    then show ?thesis using True mid s1 by (intro exI[of _ s1]) simp
  next
    case False
    have run: "runnable (?pt q)" using q by (simp add: decrement_def)
    then have "\<exists>p \<in> pids. schedulable (proc_table s1 p)" using q(1) runnable_schedulable s1(1) by metis
    then obtain t where t: "schedule s1 = Some (Inr ((), t))"
      using schedule_eq_None[of s1] schedule_some[of s1] by blast
    have "sched_table ?pt = ?pt" using run q(1) by (auto simp: sched_table_def)
    then have "proc_table t = ?pt" using schedule_table[OF t] s1(1) by metis
    moreover have "undisturbed t"
      using schedule_ready[OF t] schedule_keeps_regs[OF t] r(1) s1 by (simp add: undisturbed_def)
    moreover have "clock_handler s = Inr ((), t)"
      using mid False t by (simp add: scheduleE_def)
    ultimately show ?thesis by blast
  qed
qed

text \<open>
  C7. No runnable process starves under the clock: while the processes only compute, with no
  system call and no key pressed, every runnable process becomes the current one within as
  many clock ticks as the running processes have left in their slices.
\<close>

theorem no_starvation:
  assumes "undisturbed s" "p \<in> pids" "runnable (proc_table s p)"
  shows "\<exists>n t. n < total_slice (proc_table s) \<and> clock_ticks n s = Inr ((), t) \<and> p_proc_ready t = p"
  using assms
proof (induction "total_slice (proc_table s)" arbitrary: s rule: less_induct)
  case less
  let ?r = "p_proc_ready s"
  have r: "?r \<in> pids" "runnable (proc_table s ?r)" using less.prems by (simp_all add: undisturbed_def)
  note dec = total_slice_decrement[of ?r "proc_table s", OF r]
  show ?case
  proof (cases "?r = p")
    case True
    then show ?thesis using dec by (intro exI[of _ 0] exI[of _ s]) (simp add: op_defs)
  next
    case False
    from clock_handler_step[OF less.prems(1,2,3)] False obtain t where
      t: "clock_handler s = Inr ((), t)" "undisturbed t" "proc_table t = decrement ?r (proc_table s)" by auto
    have "runnable (proc_table t p)" using less.prems(3) False t(3) by (simp add: decrement_def)
    moreover have "total_slice (proc_table t) < total_slice (proc_table s)" using dec t(3) by simp
    ultimately obtain n u where
      "n < total_slice (proc_table t)" "clock_ticks n t = Inr ((), u)" "p_proc_ready u = p"
      using less.hyps[OF _ t(2) less.prems(2)] by blast
    then show ?thesis using t(1,3) dec by (intro exI[of _ "Suc n"] exI[of _ u]) simp
  qed
qed

text \<open>Every process computing, with three ticks each: within 111 ticks the eighth runs.\<close>

theorem no_starvation_witness:
  "\<exists>n t. n < 111 \<and> clock_ticks n (idle_state\<lparr>proc_table := (\<lambda>_. idle_proc\<lparr>p_ticks := 3\<rparr>)\<rparr>) = Inr ((), t) \<and>
    p_proc_ready t = 7"
  using no_starvation[of "idle_state\<lparr>proc_table := (\<lambda>_. idle_proc\<lparr>p_ticks := 3\<rparr>)\<rparr>" 7]
  by (simp add: undisturbed_def runnable_def total_slice_def card_pids pids_def)

end
