(* ===== verification/Ipc_Sys.thy ===== *)
theory Ipc_Sys
  imports Clock
begin

section \<open>The system call and the reachable states\<close>

text \<open>
  \<open>sys_sendrec\<close> as a whole, scheduling included, against the mailboxes; what a delivered
  message holds. The states the kernel reaches are in Ipc_Reach.
\<close>

subsection \<open>Scheduling does not touch the mailboxes\<close>

lemma no_links_cong_rel:
  assumes rel: "abs_rel pt a"
    and same: "\<And>p. p_flags (pt' p) = p_flags (pt p)" "\<And>p. p_msg (pt' p) = p_msg (pt p)"
      "\<And>p. p_recvfrom (pt' p) = p_recvfrom (pt p)" "\<And>p. p_sendto (pt' p) = p_sendto (pt p)"
      "\<And>p. has_int_msg (pt' p) = has_int_msg (pt p)" "\<And>p. q_sending (pt' p) = q_sending (pt p)"
      "\<And>p. next_sending (pt' p) = next_sending (pt p)"
  shows "abs_rel pt' a"
proof (rule abs_relI)
  note wf = abs_relD(1)[OF rel]
  have s: "sending (pt' p) = sending (pt p)" for p by (simp add: sending_def same)
  show "ipc_wf pt' (queue a)"
  proof (rule ipc_wfI)
    show "queues pt' (queue a)" by (rule queues_same[OF ipc_wfD(1)[OF wf]]) (simp_all add: same)
    show "set (queue a r) = senders_to pt' r" if "r \<in> pids" for r
      using ipc_wfD(2)[OF wf that] by (simp only: senders_to_def same)
    show "proc_ok i (pt' i)" if "i \<in> pids" for i
      using ipc_wf_proc_ok[OF wf that] by (simp only: proc_ok_def s same)
    show "no_lost pt' (queue a)" using ipc_wfD(3)[OF wf] by (simp only: no_lost_def same)
    have "waits pt' = waits pt" by (simp only: waits_def s same)
    then show "acyclic (waits pt')" using ipc_wfD(4)[OF wf] by simp
  qed
qed (simp_all only: same abs_relD[OF rel])

lemma abs_rel_sched_table: "abs_rel pt a \<Longrightarrow> abs_rel (sched_table pt) a"
  by (erule no_links_cong_rel) simp_all

lemma schedule_rel: "schedule s = Some (Inr ((), t)) \<Longrightarrow> abs_rel (proc_table s) a \<Longrightarrow> abs_rel (proc_table t) a"
  using schedule_table abs_rel_sched_table by metis

lemma schedule_kept: "schedule s = Some (Inr ((), t)) \<Longrightarrow> kept (proc_table s) (proc_table t)"
  using schedule_table[of s t] by (auto simp: kept_def)

text \<open>The running process is an entry of the table and has no flag set.\<close>

definition current_ok :: "'a kstate_scheme \<Rightarrow> bool" where
  "current_ok s = (p_proc_ready s \<in> pids \<and> p_flags (proc_table s (p_proc_ready s)) = 0)"

lemma block_cases:
  assumes "p_flags (proc_table s p) \<noteq> 0" "abs_rel (proc_table s) a"
  shows "block p s = Inl (Wait ''schedule'') \<or>
    (\<exists>t. block p s = Inr ((), t) \<and> abs_rel (proc_table t) a \<and>
      (p_proc_ready s \<in> pids \<longrightarrow> current_ok t \<and> kept (proc_table s) (proc_table t)))"
proof (cases "schedule s")
  case None
  then show ?thesis using assms by (simp add: block_def scheduleE_def)
next
  case (Some r)
  then obtain t where t: "schedule s = Some (Inr ((), t))" using schedule_some[of s] by auto
  then have "block p s = Inr ((), t)" using assms by (simp add: block_def scheduleE_def)
  then show ?thesis
    using schedule_rel[OF t assms(2)] schedule_ready[OF t] schedule_kept[OF t] by (auto simp: current_ok_def runnable_def)
qed

subsection \<open>sys_sendrec\<close>

lemma sint_u32_pid: "p \<in> pids \<Longrightarrow> sint (u32_int p) = p"
  using s32_id[of p] by (simp add: pids_def u32_int_def s32_def)

text \<open>The state after the kernel has filled in the source of the message.\<close>

definition stamped :: "int \<Rightarrow> addr \<Rightarrow> 'a kstate_scheme \<Rightarrow> 'a kstate_scheme" where
  "stamped p m s = s\<lparr>kmem := wr32 (kmem s) (linear (proc_table s) p m) (u32_int p)\<rparr>"

lemma stamped_table [simp]: "proc_table (stamped p m s) = proc_table s"
  by (simp add: stamped_def)

lemma sys_sendrec_eq:
  assumes "p \<in> pids" "flat_natives (proc_table s)" "sd \<in> insert ANY (insert INTERRUPT pids)" "sd \<noteq> p"
  shows "sys_sendrec f sd m p s =
    bindE (if f = F_SEND then msg_send p sd m
           else if f = F_RECEIVE then msg_receive p sd m
           else fail (Panic ''{sys_sendrec} invalid function'')) (\<lambda>_. ret 0) (stamped p m s)"
proof -
  have "0 \<le> sd \<and> sd < NR_PROCS \<or> sd = ANY \<or> sd = INTERRUPT" using assms(3) by (auto simp: pids_def)
  then show ?thesis
    using assms(1,2,4) sint_u32_pid[OF assms(1)]
    by (simp add: sys_sendrec_def op_defs va2la_ok stamped_def)
qed

lemma link_last_flags: "p_flags (link_last q d x pt p) = p_flags (pt p)"
  using links_only_fields(1)[OF links_only_link] by simp

text \<open>What a system call of the running process keeps.\<close>

definition call_keeps :: "int \<Rightarrow> 'a kstate_scheme \<Rightarrow> 'a kstate_scheme \<Rightarrow> bool" where
  "call_keeps p s t = (p = p_proc_ready s \<longrightarrow> current_ok t \<and> kept (proc_table s) (proc_table t))"

lemma call_keeps_entered:
  assumes e: "entered p b (stamped p m s) t" and p: "p \<in> pids"
  shows "\<not> b \<Longrightarrow> call_keeps p s t"
    "(p_proc_ready t \<in> pids \<longrightarrow> current_ok u \<and> kept (proc_table t) (proc_table u)) \<Longrightarrow> call_keeps p s u"
proof -
  have "p_proc_ready t = p_proc_ready s" "kept (proc_table s) (proc_table t)"
    using e by (simp_all add: entered_def stamped_def)
  then show "\<not> b \<Longrightarrow> call_keeps p s t"
    "(p_proc_ready t \<in> pids \<longrightarrow> current_ok u \<and> kept (proc_table t) (proc_table u)) \<Longrightarrow> call_keeps p s u"
    using e p kept_trans[of "proc_table s" "proc_table t" "proc_table u"]
    by (auto simp: call_keeps_def current_ok_def entered_def)
qed

lemma sys_send_aux:
  assumes rel: "abs_rel (proc_table s) a" and fl: "flat_natives (proc_table s)"
    and p: "p \<in> pids" "dest \<in> pids" "p \<noteq> dest" "p_flags (proc_table s p) = 0"
    and m: "m \<noteq> 0" and plain: "accepts (proc_table s dest) p \<Longrightarrow> p_flags (proc_table s dest) = RECEIVING"
  shows "if (dest, p) \<in> (waits (proc_table s))\<^sup>+
    then sys_sendrec F_SEND dest m p s = Inl (Panic ''>>DEADLOCK<<'')
    else (\<exists>t. sys_sendrec F_SEND dest m p s = Inr (0, t) \<and>
            abs_rel (proc_table t) (snd (abs_send p dest a)) \<and> call_keeps p s t) \<or>
         fst (abs_send p dest a) \<and> sys_sendrec F_SEND dest m p s = Inl (Wait ''schedule'')"
proof -
  let ?s = "stamped p m s"
  have call: "sys_sendrec F_SEND dest m p s = bindE (msg_send p dest m) (\<lambda>_. ret 0) ?s"
    using sys_sendrec_eq[of p s dest F_SEND m] p fl by simp
  have enter: "msg_send_enter p dest m ?s =
    (if (dest, p) \<in> (waits (proc_table s))\<^sup>+ then Inl (Panic ''>>DEADLOCK<<'')
     else if accepts (proc_table s dest) p then Inr (False, delivered dest p m ?s)
     else Inr (True, enqueued (queue a dest) dest p m ?s))"
    using msg_send_enter_eq[of ?s "queue a" p dest m] abs_relD(1)[OF rel] fl p m plain by simp
  show ?thesis
  proof (cases "(dest, p) \<in> (waits (proc_table s))\<^sup>+")
    case True
    then show ?thesis using enter by (simp add: call msg_send_def)
  next
    case False
    note aux = send_refines_aux[of ?s a p dest m, simplified, OF rel p(1-3) m p(4) _ False]
    show ?thesis
    proof (cases "accepts (proc_table s dest) p")
      case True
      have "entered p False ?s (delivered dest p m ?s)" using p plain[OF True] by (intro entered_delivered) simp_all
      then have "call_keeps p s (delivered dest p m ?s)" by (rule call_keeps_entered(1)[OF _ p(1)]) simp
      then show ?thesis using True False enter aux plain by (simp add: call msg_send_def op_defs)
    next
      case nacc: False
      let ?t = "enqueued (queue a dest) dest p m ?s"
      have r: "fst (abs_send p dest a)" "abs_rel (proc_table ?t) (snd (abs_send p dest a))"
        using aux nacc plain by simp_all
      have "p_flags (proc_table ?t p) \<noteq> 0" by (simp add: enqueued_def link_last_flags)
      have "entered p True ?s ?t" using p by (intro entered_enqueued) simp
      note keeps = call_keeps_entered(2)[OF this p(1)]
      from block_cases[OF \<open>p_flags (proc_table ?t p) \<noteq> 0\<close> r(2)] False nacc enter r keeps show ?thesis
        by (auto simp: call msg_send_def op_defs)
    qed
  qed
qed

lemma sys_receive_aux:
  assumes rel: "abs_rel (proc_table s) a" and fl: "flat_natives (proc_table s)"
    and p: "p \<in> pids" "p \<noteq> src" "p_flags (proc_table s p) = 0" and m: "m \<noteq> 0"
    and src: "src \<in> insert ANY (insert INTERRUPT pids)"
  shows "(\<exists>t. sys_sendrec F_RECEIVE src m p s = Inr (0, t) \<and>
            abs_rel (proc_table t) (snd (abs_receive p src a)) \<and> call_keeps p s t) \<or>
         fst (abs_receive p src a) \<and> sys_sendrec F_RECEIVE src m p s = Inl (Wait ''schedule'')"
proof -
  let ?s = "stamped p m s"
  have call: "sys_sendrec F_RECEIVE src m p s = bindE (msg_receive p src m) (\<lambda>_. ret 0) ?s"
    using sys_sendrec_eq[of p s src F_RECEIVE m] p fl src by auto
  from msg_receive_enter_refines[of ?s a p src m] rel fl p m src obtain t where
    enter: "msg_receive_enter p src m ?s = Inr (fst (abs_receive p src a), t)" and
    t: "abs_rel (proc_table t) (snd (abs_receive p src a))" and
    e: "entered p (fst (abs_receive p src a)) ?s t" by auto
  show ?thesis
  proof (cases "fst (abs_receive p src a)")
    case False
    then show ?thesis using enter t call_keeps_entered(1)[OF e p(1)] by (simp add: call msg_receive_def op_defs)
  next
    case True
    then have "expects (snd (abs_receive p src a)) p \<noteq> None"
      by (auto simp: abs_receive_def split: if_splits option.splits)
    then have "p_flags (proc_table t p) \<noteq> 0" using abs_relD(2)[OF t p(1)] by (auto split: if_splits)
    from block_cases[OF this t] enter True t call_keeps_entered(2)[OF e p(1)] show ?thesis
      by (auto simp: call msg_receive_def op_defs)
  qed
qed

text \<open>
  C3. A send system call by an idle process to another process of the table, with a message,
  halts the kernel exactly when the destination waits, through a chain of blocked senders,
  for the caller; otherwise it does to the table what sending to the destination's mailbox
  does, and returns 0, unless the caller blocks and no process is left to run. No assertion
  of \<open>msg_send\<close> fails and no queue pointer is wrong.
\<close>

theorem sys_send_refines:
  assumes rel: "abs_rel (proc_table s) a" and fl: "flat_natives (proc_table s)"
    and p: "p \<in> pids" "dest \<in> pids" "p \<noteq> dest" "p_flags (proc_table s p) = 0"
    and m: "m \<noteq> 0" and plain: "plain (proc_table s dest)"
  shows "if (dest, p) \<in> (waits (proc_table s))\<^sup>+
    then sys_sendrec F_SEND dest m p s = Inl (Panic ''>>DEADLOCK<<'')
    else (\<exists>t. sys_sendrec F_SEND dest m p s = Inr (0, t) \<and>
            abs_rel (proc_table t) (snd (abs_send p dest a))) \<or>
         fst (abs_send p dest a) \<and> sys_sendrec F_SEND dest m p s = Inl (Wait ''schedule'')"
  using sys_send_aux[OF rel fl p m plain_accepts[OF plain, of p]] by (auto split: if_splits)

text \<open>
  C4. A receive system call by an idle process, from any process, from a given one or from
  an interrupt, takes a pending interrupt, or else the first queued sender, or the given one,
  exactly as the mailbox does, and returns 0; when there is none the caller blocks and the
  call returns once another process can run. No assertion of \<open>msg_receive\<close> fails.
\<close>

theorem sys_receive_refines:
  assumes rel: "abs_rel (proc_table s) a" and fl: "flat_natives (proc_table s)"
    and p: "p \<in> pids" "p \<noteq> src" "p_flags (proc_table s p) = 0" and m: "m \<noteq> 0"
    and src: "src \<in> insert ANY (insert INTERRUPT pids)"
  shows "(\<exists>t. sys_sendrec F_RECEIVE src m p s = Inr (0, t) \<and>
            abs_rel (proc_table t) (snd (abs_receive p src a))) \<or>
         fst (abs_receive p src a) \<and> sys_sendrec F_RECEIVE src m p s = Inl (Wait ''schedule'')"
  using sys_receive_aux[OF assms] by blast

subsection \<open>What a message holds when it arrives\<close>

lemma region_msg_stamp:
  assumes "region a MESSAGE_SIZE \<inter> region b MESSAGE_SIZE = {}"
  shows "get_msg (wr32 m b v) a = get_msg m a"
proof -
  have "wr32 m b v (a + k) = m (a + k)" if "unat k < MESSAGE_SIZE" for k
  proof -
    have "a + k \<notin> region b MESSAGE_SIZE" using assms region_offset[OF that, of a] by blast
    moreover have "b \<in> region b MESSAGE_SIZE" "b + 1 \<in> region b MESSAGE_SIZE"
      "b + 2 \<in> region b MESSAGE_SIZE" "b + 3 \<in> region b MESSAGE_SIZE"
      by (simp_all add: region_def)
    ultimately have "a + k \<noteq> b" "a + k \<noteq> b + 1" "a + k \<noteq> b + 2" "a + k \<noteq> b + 3" by metis+
    then show ?thesis by (simp add: wr32_def)
  qed
  note at = this
  have "rd32 (wr32 m b v) (a + k) = rd32 m (a + k)" if "unat k < 45" for k
  proof (rule rd32_cong)
    have "unat (k + j) < MESSAGE_SIZE" if "unat j < 4" for j
      using that \<open>unat k < 45\<close> by (simp add: unat_word_ariths)
    from at[OF this[of 0]] at[OF this[of 1]] at[OF this[of 2]] at[OF this[of 3]]
    show "wr32 m b v (a + k) = m (a + k)" "wr32 m b v (a + k + 1) = m (a + k + 1)"
      "wr32 m b v (a + k + 2) = m (a + k + 2)" "wr32 m b v (a + k + 3) = m (a + k + 3)"
      by (simp_all add: add.assoc)
  qed
  from this[of 0] this[of 4] this[of 8] this[of 12] this[of 16] this[of 20] this[of 24] this[of 28]
    this[of 32] this[of 36] this[of 40] this[of 44]
  show ?thesis by (simp add: get_msg_def rd64_def add.assoc)
qed

lemma get_msg_stamp:
  assumes "p \<in> pids"
  shows "get_msg (wr32 m a (u32_int p)) a = (get_msg m a)\<lparr>m_source := p\<rparr>"
  by (simp add: get_msg_def rd64_def rd32_wr32_other sint_u32_pid[OF assms])

text \<open>
  C5. A send to a process that is waiting for it copies the whole message into the buffer the
  receiver named, with the sender's number as its source whatever the caller had written
  there, and makes the receiver runnable; the caller goes on.
\<close>

theorem sys_send_delivers:
  assumes wf: "ipc_wf (proc_table s) Q" and fl: "flat_natives (proc_table s)"
    and p: "p \<in> pids" "dest \<in> pids" "p \<noteq> dest" "p_flags (proc_table s p) = 0"
    and m: "m \<noteq> 0" and plain: "plain (proc_table s dest)" and acc: "accepts (proc_table s dest) p"
    and apart: "region (linear (proc_table s) dest (p_msg (proc_table s dest))) MESSAGE_SIZE \<inter>
      region (linear (proc_table s) p m) MESSAGE_SIZE = {}"
  shows "\<exists>t. sys_sendrec F_SEND dest m p s = Inr (0, t) \<and>
    get_msg (kmem t) (linear (proc_table s) dest (p_msg (proc_table s dest))) =
      (get_msg (kmem s) (linear (proc_table s) p m))\<lparr>m_source := p\<rparr> \<and>
    p_flags (proc_table t dest) = RUNNING \<and> p_proc_ready t = p_proc_ready s"
proof -
  let ?s = "stamped p m s"
  have r: "p_flags (proc_table s dest) = RECEIVING" using plain_accepts[OF plain acc] .
  then have "(dest, p) \<notin> (waits (proc_table s))\<^sup>+" by (simp add: waits_trancl[of dest] receiving_not_sending)
  then have enter: "msg_send_enter p dest m ?s = Inr (False, delivered dest p m ?s)"
    using msg_send_enter_eq[of ?s Q p dest m] wf fl p m r acc by simp
  have call: "sys_sendrec F_SEND dest m p s = bindE (msg_send p dest m) (\<lambda>_. ret 0) ?s"
    using sys_sendrec_eq[of p s dest F_SEND m] p fl by simp
  have "sys_sendrec F_SEND dest m p s = Inr (0, delivered dest p m ?s)"
    using enter by (simp add: call msg_send_def op_defs bindE_def)
  moreover have "get_msg (kmem (delivered dest p m ?s)) (linear (proc_table s) dest (p_msg (proc_table s dest))) =
      get_msg (kmem ?s) (linear (proc_table s) p m)"
    using get_msg_memcpy[OF apart] by (simp add: delivered_def phys_copy_def u32_int_def)
  ultimately show ?thesis
    by (intro exI[of _ "delivered dest p m ?s"]) (simp add: stamped_def get_msg_stamp[OF p(1)] delivered_def)
qed

text \<open>
  C6. A receive that finds a sender in its queue copies that sender's whole message into the
  caller's buffer and makes the sender runnable again.
\<close>

theorem sys_receive_delivers:
  assumes wf: "ipc_wf (proc_table s) Q" and fl: "flat_natives (proc_table s)"
    and p: "p \<in> pids" "p_flags (proc_table s p) = 0" "p \<noteq> src" and m: "m \<noteq> 0"
    and src: "src \<in> insert ANY (insert INTERRUPT pids)"
    and int: "\<not> (has_int_msg (proc_table s p) \<noteq> 0 \<and> src \<in> {ANY, INTERRUPT})"
    and q: "Q p = us @ f # vs" "src = ANY \<and> us = [] \<or> src = f"
    and apart: "region (linear (proc_table s) p m) MESSAGE_SIZE \<inter>
      region (linear (proc_table s) f (p_msg (proc_table s f))) MESSAGE_SIZE = {}"
  shows "\<exists>t. sys_sendrec F_RECEIVE src m p s = Inr (0, t) \<and>
    get_msg (kmem t) (linear (proc_table s) p m) =
      get_msg (kmem s) (linear (proc_table s) f (p_msg (proc_table s f))) \<and>
    p_flags (proc_table t f) = RUNNING \<and> p_proc_ready t = p_proc_ready s"
proof -
  let ?s = "stamped p m s"
  have enter: "msg_receive_enter p src m ?s = Inr (False, taken p f m us ?s)"
    using msg_receive_enter_taken[of ?s Q p src m us f vs] wf fl p m int q by simp
  have call: "sys_sendrec F_RECEIVE src m p s = bindE (msg_receive p src m) (\<lambda>_. ret 0) ?s"
    using sys_sendrec_eq[of p s src F_RECEIVE m] p fl src by auto
  have "sys_sendrec F_RECEIVE src m p s = Inr (0, taken p f m us ?s)"
    using enter by (simp add: call msg_receive_def op_defs bindE_def)
  moreover have "get_msg (kmem (taken p f m us ?s)) (linear (proc_table s) p m) =
      get_msg (kmem ?s) (linear (proc_table s) f (p_msg (proc_table s f)))"
    using get_msg_memcpy[OF apart] by (simp add: taken_def phys_copy_def u32_int_def)
  moreover have "get_msg (kmem ?s) (linear (proc_table s) f (p_msg (proc_table s f))) =
      get_msg (kmem s) (linear (proc_table s) f (p_msg (proc_table s f)))"
    using apart by (simp add: stamped_def region_msg_stamp Int_commute)
  ultimately show ?thesis
    by (intro exI[of _ "taken p f m us ?s"]) (simp add: taken_def taken_table_def stamped_def)
qed

subsection \<open>The state after boot\<close>

text \<open>
  The state \<open>tinix_main\<close> leaves: the native processes idle, the other slots free.
\<close>

definition boot_ok :: "'a kstate_scheme \<Rightarrow> bool" where
  "boot_ok s = ((\<forall>i \<in> pids. q_sending (proc_table s i) = None \<and>
       (p_flags (proc_table s i) = 0 \<and> p_msg (proc_table s i) = 0 \<and>
        p_recvfrom (proc_table s i) = NO_TASK \<and> p_sendto (proc_table s i) = NO_TASK \<or>
        p_flags (proc_table s i) = FREE_SLOT)) \<and>
     flat_natives (proc_table s) \<and> current_ok s)"

definition empty_mailbox :: "(int \<Rightarrow> bool) \<Rightarrow> mailbox" where
  "empty_mailbox pend = \<lparr>queue = (\<lambda>_. []), expects = (\<lambda>_. None), pending = pend\<rparr>"

lemma boot_flags: "boot_ok s \<Longrightarrow> i \<in> pids \<Longrightarrow> p_flags (proc_table s i) \<in> {0, FREE_SLOT}"
  unfolding boot_ok_def by blast

lemma abs_rel_boot:
  assumes "boot_ok s"
  shows "abs_rel (proc_table s) (empty_mailbox (\<lambda>i. has_int_msg (proc_table s i) \<noteq> 0))"
proof -
  let ?pt = "proc_table s"
  have fl: "\<And>i. i \<in> pids \<Longrightarrow> p_flags (?pt i) \<in> {0, FREE_SLOT}" using boot_flags[OF assms] .
  have ns: "\<not> sending (?pt i)" "p_flags (?pt i) \<noteq> SENDING" "p_flags (?pt i) \<noteq> RECEIVING" if "i \<in> pids" for i
    using fl[OF that] by (auto simp: sending_def)
  have "ipc_wf ?pt (\<lambda>_. [])"
  proof (rule ipc_wfI)
    show "queues ?pt (\<lambda>_. [])" using assms by (simp add: queues_def boot_ok_def)
    show "set [] = senders_to ?pt r" for r using ns by (auto simp: senders_to_def)
    show "proc_ok i (?pt i)" if "i \<in> pids" for i
      using ns[OF that] assms that unfolding boot_ok_def proc_ok_def by fastforce
    show "no_lost ?pt (\<lambda>_. [])" using ns by (simp add: no_lost_def)
    have "waits ?pt = {}" using ns by (auto simp: waits_def)
    then show "acyclic (waits ?pt)" by (simp add: acyclic_def)
  qed
  then show ?thesis using ns by (intro abs_relI) (simp_all add: empty_mailbox_def)
qed

subsection \<open>The theorems on concrete states\<close>

lemma boot_idle: "boot_ok idle_state"
  by (simp add: boot_ok_def current_ok_def pids_def)

lemma rel_idle: "abs_rel (\<lambda>_. idle_proc) (empty_mailbox (\<lambda>_. False))"
  using abs_rel_boot[OF boot_idle] by simp

lemma wf_idle: "ipc_wf (\<lambda>_. idle_proc) (\<lambda>_. [])"
  using abs_relD(1)[OF rel_idle] by (simp add: empty_mailbox_def)

lemma waits_idle: "waits (\<lambda>_. idle_proc) = {}"
  by (simp add: waits_def)

lemma plain_idle [simp]: "plain idle_proc"
  by (simp add: plain_def receiving_def)

text \<open>Init sends to the file system, which is not waiting: it is queued there.\<close>

theorem sys_send_refines_witness:
  "(\<exists>t. sys_sendrec F_SEND TASK_FS 0x1000 INIT idle_state = Inr (0, t) \<and>
      abs_rel (proc_table t) ((empty_mailbox (\<lambda>_. False))\<lparr>queue := (\<lambda>_. [])(TASK_FS := [INIT])\<rparr>)) \<or>
   sys_sendrec F_SEND TASK_FS 0x1000 INIT idle_state = Inl (Wait ''schedule'')"
  using sys_send_refines[of idle_state "empty_mailbox (\<lambda>_. False)" INIT TASK_FS "0x1000"] rel_idle
  by (simp add: pids_def waits_idle abs_send_def empty_mailbox_def)

theorem sys_receive_refines_witness:
  "(\<exists>t. sys_sendrec F_RECEIVE ANY 0x1000 INIT idle_state = Inr (0, t) \<and>
      abs_rel (proc_table t) ((empty_mailbox (\<lambda>_. False))\<lparr>expects := (\<lambda>_. None)(INIT := Some ANY)\<rparr>)) \<or>
   sys_sendrec F_RECEIVE ANY 0x1000 INIT idle_state = Inl (Wait ''schedule'')"
  using sys_receive_refines[of idle_state "empty_mailbox (\<lambda>_. False)" INIT ANY "0x1000"] rel_idle
  by (simp add: pids_def abs_receive_def abs_source_def empty_mailbox_def)

text \<open>The file system waits for any message, at address 0x2000.\<close>

definition receiving_table :: proc_tab where
  "receiving_table = (\<lambda>_. idle_proc)(TASK_FS := idle_proc\<lparr>p_flags := RECEIVING, p_msg := 0x2000, p_recvfrom := ANY\<rparr>)"

lemma wf_receiving: "ipc_wf receiving_table (\<lambda>_. [])"
  unfolding receiving_table_def using ipc_wf_wait[OF wf_idle, of TASK_FS "0x2000" ANY] by (simp add: pids_def)

lemma linear_receiving: "linear receiving_table i va = va"
  by (simp add: linear_def receiving_table_def ldt_reg_linear_def idle_proc_def)

lemma flat_receiving: "flat_natives receiving_table"
  by (simp add: flat_natives_def receiving_table_def ldt_reg_linear_def idle_proc_def)

theorem sys_send_delivers_witness:
  "\<exists>t. sys_sendrec F_SEND TASK_FS 0x1000 INIT (idle_state\<lparr>proc_table := receiving_table\<rparr>) = Inr (0, t) \<and>
    get_msg (kmem t) 0x2000 = zero_msg\<lparr>m_source := INIT\<rparr> \<and>
    p_flags (proc_table t TASK_FS) = RUNNING \<and> p_proc_ready t = INIT"
proof -
  let ?s = "idle_state\<lparr>proc_table := receiving_table\<rparr>"
  have fs: "p_msg (receiving_table TASK_FS) = 0x2000" "plain (receiving_table TASK_FS)"
    "accepts (receiving_table TASK_FS) INIT" "p_flags (receiving_table INIT) = 0"
    by (simp_all add: receiving_table_def plain_def accepts_def)
  have apart: "region (0x2000 :: addr) MESSAGE_SIZE \<inter> region 0x1000 MESSAGE_SIZE = {}"
    by (rule region_disjoint) simp_all
  have "get_msg (\<lambda>_. 0) 0x1000 = zero_msg" by (simp add: get_msg_def zero_msg_def rd32_def rd64_def)
  then show ?thesis
    using sys_send_delivers[of ?s "\<lambda>_. []" INIT TASK_FS "0x1000"] wf_receiving flat_receiving fs apart
    by (simp add: pids_def linear_receiving)
qed

text \<open>Init is queued at the file system with a message at address 0x1000.\<close>

definition queued_table :: proc_tab where
  "queued_table = link_last [] TASK_FS INIT
     ((\<lambda>_. idle_proc)(INIT := idle_proc\<lparr>p_flags := SENDING, p_sendto := TASK_FS, p_msg := 0x1000\<rparr>))"

lemma wf_queued: "ipc_wf queued_table ((\<lambda>_. [])(TASK_FS := [INIT]))"
  unfolding queued_table_def
  using ipc_wf_enqueue[OF wf_idle, of TASK_FS INIT "0x1000"] by (simp add: pids_def waits_idle)

lemma queued_fields:
  "p_flags (queued_table TASK_FS) = 0" "p_msg (queued_table INIT) = 0x1000" "has_int_msg (queued_table TASK_FS) = 0"
  "linear queued_table i va = va" "flat_natives queued_table"
  by (simp_all add: queued_table_def link_last_def linear_def flat_natives_def ldt_reg_linear_def idle_proc_def)

theorem sys_receive_delivers_witness:
  "\<exists>t. sys_sendrec F_RECEIVE ANY 0x2000 TASK_FS (idle_state\<lparr>proc_table := queued_table\<rparr>) = Inr (0, t) \<and>
    get_msg (kmem t) 0x2000 = get_msg (\<lambda>_. 0) 0x1000 \<and>
    p_flags (proc_table t INIT) = RUNNING \<and> p_proc_ready t = INIT"
proof -
  let ?s = "idle_state\<lparr>proc_table := queued_table\<rparr>"
  have apart: "region (0x2000 :: addr) MESSAGE_SIZE \<inter> region 0x1000 MESSAGE_SIZE = {}"
    by (rule region_disjoint) simp_all
  show ?thesis
    using sys_receive_delivers[of ?s "(\<lambda>_. [])(TASK_FS := [INIT])" TASK_FS ANY "0x2000" "[]" INIT "[]"]
      wf_queued queued_fields apart
    by (simp add: pids_def)
qed

end
