(* ===== verification/Ipc_Reach.thy ===== *)
theory Ipc_Reach
  imports Ipc_Sys
begin

section \<open>The states the kernel reaches\<close>

text \<open>
  A step relation with all that changes the process table after boot: the \<open>sendrec\<close> system calls
  of the running process, the notifications of interrupt handlers, the clock, the scheduler, and
  the writes of the servers, above all those of the memory manager in mm/fork2exit.c, which
  copies entries, marks them \<open>WAITING\<close> and \<open>HANGING\<close> and frees them without message passing. The
  invariant \<open>kinv\<close> holds along every run of it.

  What a run is allowed to do: a call names a message (\<open>m \<noteq> 0\<close>); the memory manager copies the
  entry of a process that is not blocked in a send, and only while no process is queued at it or
  at the free slot (without that the copy puts the same queue into two entries); it marks and
  frees only processes that are not blocked in a send; and the copy of the entry is one step.
\<close>

subsection \<open>The steps\<close>

text \<open>The fields of an entry that message passing uses.\<close>

definition ipc_part :: "proc \<Rightarrow> (u32 \<times> addr \<times> int \<times> int) \<times> int \<times> int option \<times> int option" where
  "ipc_part p = ((p_flags p, p_msg p, p_recvfrom p, p_sendto p), has_int_msg p, q_sending p, next_sending p)"

definition set_flags :: "int \<Rightarrow> u32 \<Rightarrow> 'a kstate_scheme \<Rightarrow> 'a kstate_scheme" where
  "set_flags i v s = s\<lparr>proc_table := (proc_table s)(i := (proc_table s i)\<lparr>p_flags := v\<rparr>)\<rparr>"

text \<open>
  \<open>step_call\<close>: the running process makes a \<open>sendrec\<close> call, with any function and partner, that
  returns. \<open>step_other\<close>: anything but the table and the running process changes. \<open>step_fields\<close>:
  a server writes the other fields of the entries (registers, names, files, parents, exit codes,
  the segments of the processes that are not native). The rest are the memory manager's steps,
  taken while it is the running process: the copy of the parent's entry to the free slot in
  \<open>do_fork\<close>, the flags set and cleared in \<open>do_wait\<close> and \<open>do_exit\<close>, and the end of \<open>cleanup\<close>.
\<close>

inductive kstep :: "'a kstate_scheme \<Rightarrow> 'a kstate_scheme \<Rightarrow> bool" where
  step_call: "m \<noteq> 0 \<Longrightarrow> sys_sendrec f sd m (p_proc_ready s) s = Inr (r, t) \<Longrightarrow> kstep s t"
| step_int: "inform_int i s = Inr ((), t) \<Longrightarrow> kstep s t"
| step_clock: "clock_handler s = Inr ((), t) \<Longrightarrow> kstep s t"
| step_sched: "schedule s = Some (Inr ((), t)) \<Longrightarrow> kstep s t"
| step_other: "proc_table t = proc_table s \<Longrightarrow> p_proc_ready t = p_proc_ready s \<Longrightarrow> kstep s t"
| step_fields: "(\<forall>i. ipc_part (pt i) = ipc_part (proc_table s i)) \<Longrightarrow> flat_natives pt \<Longrightarrow>
    kstep s (s\<lparr>proc_table := pt\<rparr>)"
| step_fork: "p_proc_ready s = TASK_MM \<Longrightarrow> parent \<in> pids \<Longrightarrow> child \<in> {NR_TASKS + NR_NATIVE_PROCS..<NR_PROCS} \<Longrightarrow>
    p_flags (proc_table s child) = FREE_SLOT \<Longrightarrow> q_sending (proc_table s child) = None \<Longrightarrow>
    \<not> sending (proc_table s parent) \<Longrightarrow> q_sending (proc_table s parent) = None \<Longrightarrow>
    ipc_part x = ipc_part (proc_table s parent) \<Longrightarrow> kstep s (s\<lparr>proc_table := (proc_table s)(child := x)\<rparr>)"
| step_mark: "p_proc_ready s = TASK_MM \<Longrightarrow> i \<in> pids \<Longrightarrow> i \<noteq> TASK_MM \<Longrightarrow> \<not> sending (proc_table s i) \<Longrightarrow>
    p_flags (proc_table s i) \<noteq> FREE_SLOT \<Longrightarrow> b \<in> {WAITING, HANGING} \<Longrightarrow>
    kstep s (set_flags i (p_flags (proc_table s i) OR b) s)"
| step_unmark: "p_proc_ready s = TASK_MM \<Longrightarrow> i \<in> pids \<Longrightarrow> i \<noteq> TASK_MM \<Longrightarrow> \<not> sending (proc_table s i) \<Longrightarrow>
    p_flags (proc_table s i) \<noteq> FREE_SLOT \<Longrightarrow> b \<in> {WAITING, HANGING} \<Longrightarrow>
    kstep s (set_flags i (p_flags (proc_table s i) AND NOT b) s)"
| step_free: "p_proc_ready s = TASK_MM \<Longrightarrow> i \<in> pids \<Longrightarrow> i \<noteq> TASK_MM \<Longrightarrow> \<not> sending (proc_table s i) \<Longrightarrow>
    kstep s (set_flags i FREE_SLOT s)"

inductive_cases kstepE: "kstep s t"

subsection \<open>The entries\<close>

text \<open>The flags without the memory manager's marks.\<close>

definition unmarked :: "u32 \<Rightarrow> u32" where
  "unmarked f = f AND NOT (WAITING OR HANGING)"

lemma unmarked_simps [simp]: "unmarked 0 = 0" "unmarked SENDING = SENDING" "unmarked RECEIVING = RECEIVING" "unmarked FREE_SLOT = FREE_SLOT"
  by (simp_all add: unmarked_def)

lemma unmarked_or: "b \<in> {WAITING, HANGING} \<Longrightarrow> unmarked (f OR b) = unmarked f"
  by (auto simp: unmarked_def bit.conj_disj_distrib2)

lemma unmarked_and_not: "b \<in> {WAITING, HANGING} \<Longrightarrow> unmarked (f AND NOT b) = unmarked f"
  by (auto simp: unmarked_def and.assoc)

lemma unmarked_and: "k AND NOT (WAITING OR HANGING) = k \<Longrightarrow> f AND k = unmarked f AND k"
  by (metis and.assoc and.commute unmarked_def)

lemma unmarked_sending: "sending p \<longleftrightarrow> unmarked (p_flags p) AND SENDING \<noteq> 0"
  using unmarked_and[of SENDING "p_flags p"] by (simp add: sending_def)

lemma unmarked_receiving: "receiving p \<longleftrightarrow> unmarked (p_flags p) AND RECEIVING \<noteq> 0"
  using unmarked_and[of RECEIVING "p_flags p"] by (simp add: receiving_def)

lemma marked_more:
  assumes "unmarked f = RECEIVING" "f \<noteq> RECEIVING"
  shows "f AND NOT RECEIVING \<noteq> 0"
proof
  assume "f AND NOT RECEIVING = 0"
  moreover have "f = (f AND RECEIVING) OR (f AND NOT RECEIVING)" by (simp add: bit.conj_disj_distrib[symmetric])
  moreover have "f AND RECEIVING = RECEIVING" using unmarked_and[of RECEIVING f] assms(1) by simp
  ultimately show False using assms(2) by simp
qed

text \<open>The flags of a process that waits in a receive, with a mark or without.\<close>

lemma unmarked_RECEIVING:
  assumes "unmarked f = RECEIVING"
  shows "f \<in> {RECEIVING, RECEIVING OR WAITING, RECEIVING OR HANGING, RECEIVING OR WAITING OR HANGING}"
proof -
  have f: "f = unmarked f OR (f AND (WAITING OR HANGING))"
    by (simp add: unmarked_def bit.conj_disj_distrib[symmetric])
  have split: "f AND (WAITING OR HANGING) = (f AND WAITING) OR (f AND HANGING)"
    by (simp only: bit.conj_disj_distrib)
  have bit: "f AND 2 ^ n = (if bit f n then 2 ^ n else 0)" for n
    by (rule bit_word_eqI) (auto simp: bit_and_iff bit_exp_iff)
  have "f AND 8 \<in> {0, 8}" "f AND 0x10 \<in> {0, 0x10}"
    using bit[of 3] bit[of 4] by (auto split: if_splits)
  then show ?thesis using f split assms by auto
qed

text \<open>
  What holds of an entry whose sending queue is \<open>q\<close>. A mark does not change the fields: the
  process is idle or blocked in a receive underneath, and no sender and no interrupt that it
  would accept is kept waiting.
\<close>

definition idle_fields :: "proc \<Rightarrow> bool" where
  "idle_fields p = (p_msg p = 0 \<and> p_recvfrom p = NO_TASK \<and> p_sendto p = NO_TASK)"

definition wait_fields :: "int list \<Rightarrow> proc \<Rightarrow> bool" where
  "wait_fields q p = (p_msg p \<noteq> 0 \<and> p_sendto p = NO_TASK \<and> (p_recvfrom p = ANY \<longrightarrow> q = []) \<and>
     p_recvfrom p \<notin> set q \<and> (p_recvfrom p \<in> {ANY, INTERRUPT} \<longrightarrow> has_int_msg p = 0))"

definition entry_ok :: "int list \<Rightarrow> proc \<Rightarrow> bool" where
  "entry_ok q p = (unmarked (p_flags p) = 0 \<and> idle_fields p \<or> unmarked (p_flags p) = RECEIVING \<and> wait_fields q p \<or>
     p_flags p = SENDING \<or> p_flags p = FREE_SLOT)"

lemma entry_not_sending: "entry_ok q p \<Longrightarrow> p_flags p \<noteq> SENDING \<Longrightarrow> \<not> sending p"
  by (auto simp: entry_ok_def unmarked_sending)

lemma entry_receiving: "entry_ok q p \<Longrightarrow> receiving p \<Longrightarrow> unmarked (p_flags p) = RECEIVING \<and> wait_fields q p \<and> \<not> sending p"
  by (auto simp: entry_ok_def unmarked_receiving unmarked_sending)

lemma entry_ok_plain:
  assumes "ipc_wf pt Q" "i \<in> pids" "p_flags (pt i) \<in> {0, SENDING, RECEIVING}"
  shows "entry_ok (Q i) (pt i)"
  using assms(3) ipc_wfD(6,8)[OF assms(1,2)] ipc_wfD(3)[OF assms(1)] assms(2)
  by (auto simp: entry_ok_def idle_fields_def wait_fields_def no_lost_def)

lemma entry_proc_ok: "entry_ok q p \<Longrightarrow> \<not> sending p \<Longrightarrow> proc_ok i p"
  unfolding entry_ok_def
proof (elim disjE conjE)
  assume "unmarked (p_flags p) = 0" "idle_fields p" "\<not> sending p"
  moreover from this(1) have "p_flags p \<noteq> RECEIVING" "p_flags p \<noteq> SENDING" by auto
  ultimately show "proc_ok i p" by (simp add: proc_ok_def idle_fields_def)
next
  assume "unmarked (p_flags p) = RECEIVING" "wait_fields q p" "\<not> sending p"
  moreover from this(1) have "p_flags p \<noteq> 0" "p_flags p \<noteq> SENDING" by auto
  ultimately show "proc_ok i p" by (simp add: proc_ok_def wait_fields_def)
qed (simp_all add: proc_ok_def)

lemma entry_wait: "entry_ok q p \<Longrightarrow> p_flags p = RECEIVING \<Longrightarrow> wait_fields q p"
  by (simp add: entry_ok_def)

text \<open>An entry that takes no part in a send is replaced by another.\<close>

lemma abs_rel_entry:
  assumes rel: "abs_rel pt a" and c: "c \<in> pids" "\<not> sending (pt c)" "\<not> sending x" "q_sending x = q_sending (pt c)"
    and ok: "entry_ok (queue a c) x"
  shows "abs_rel (pt(c := x)) (a\<lparr>expects := (expects a)(c := if p_flags x = RECEIVING then Some (p_recvfrom x) else None),
     pending := (pending a)(c := has_int_msg x \<noteq> 0)\<rparr>)"
proof -
  let ?pt = "pt(c := x)"
  note wf = abs_relD(1)[OF rel]
  have ns: "p_flags (pt c) \<noteq> SENDING" "p_flags x \<noteq> SENDING" using c(2,3) by auto
  have send: "senders_to ?pt r = senders_to pt r" for r
    using ns by (auto simp: senders_to_def)
  have "ipc_wf ?pt (queue a)"
  proof (rule ipc_wfI)
    have "queue_seg ?pt (q_sending (?pt r)) (queue a r) None" if r: "r \<in> pids" for r
    proof -
      have "c \<notin> set (queue a r)" using ipc_wfD(2)[OF wf r] ns(1) by (simp add: senders_to_def)
      then have "next_sending (?pt y) = next_sending (pt y)" if "y \<in> set (queue a r)" for y using that by auto
      then have "queue_seg ?pt (q_sending (pt r)) (queue a r) None"
        by (rule queue_seg_same[OF queues_simps(1)[OF ipc_wfD(1)[OF wf] r]])
      then show ?thesis using c(4) by (cases "r = c") simp_all
    qed
    then show "queues ?pt (queue a)" using ipc_wfD(1)[OF wf] unfolding queues_def by blast
    show "set (queue a r) = senders_to ?pt r" if "r \<in> pids" for r
      using ipc_wfD(2)[OF wf that] by (simp only: send)
    show "proc_ok i (?pt i)" if "i \<in> pids" for i
      using ipc_wf_proc_ok[OF wf that] entry_proc_ok[OF ok c(3)] by (cases "i = c") simp_all
    show "no_lost ?pt (queue a)"
      using entry_wait[OF ok] by (intro no_lost_upd[OF ipc_wfD(3)[OF wf] c(1)]) (simp add: wait_fields_def)
    have "waits ?pt = waits pt" using c unfolding waits_def by auto
    then show "acyclic (waits ?pt)" using ipc_wfD(4)[OF wf] by simp
  qed
  then show ?thesis using abs_relD(2,3)[OF rel] by (intro abs_relI) simp_all
qed

subsection \<open>The invariant\<close>

definition kinv :: "'a kstate_scheme \<Rightarrow> mailbox \<Rightarrow> bool" where
  "kinv s a = (abs_rel (proc_table s) a \<and> flat_natives (proc_table s) \<and> current_ok s \<and>
     (\<forall>i \<in> pids. entry_ok (queue a i) (proc_table s i)))"

lemma kinvD:
  assumes "kinv s a"
  shows "abs_rel (proc_table s) a" "flat_natives (proc_table s)" "current_ok s" "p_proc_ready s \<in> pids"
    "p_flags (proc_table s (p_proc_ready s)) = 0" "\<And>i. i \<in> pids \<Longrightarrow> entry_ok (queue a i) (proc_table s i)"
  using assms by (simp_all add: kinv_def current_ok_def)

lemma kinv_boot:
  assumes "boot_ok s"
  shows "kinv s (empty_mailbox (\<lambda>i. has_int_msg (proc_table s i) \<noteq> 0))"
  using abs_rel_boot[OF assms] assms
  by (auto simp: kinv_def boot_ok_def entry_ok_def idle_fields_def)

text \<open>
  The operations of the kernel: a process that waits under a mark gets no sender and no pending
  interrupt that it would accept.
\<close>

definition fair_to :: "mailbox \<Rightarrow> mailbox \<Rightarrow> int \<Rightarrow> proc \<Rightarrow> bool" where
  "fair_to a a' i p = ((\<forall>x \<in> set (queue a' i). x \<in> set (queue a i) \<or> x \<noteq> p_recvfrom p \<and> p_recvfrom p \<noteq> ANY) \<and>
     (p_recvfrom p \<in> {ANY, INTERRUPT} \<longrightarrow> pending a' i \<longrightarrow> pending a i))"

lemma fair_to_refl [simp]: "fair_to a a i p"
  by (simp add: fair_to_def)

lemma kinv_kept:
  assumes inv: "kinv s a" and k: "kept (proc_table s) (proc_table t)" and rel: "abs_rel (proc_table t) a'"
    and cur: "current_ok t"
    and fair: "\<And>i. i \<in> pids \<Longrightarrow> receiving (proc_table s i) \<Longrightarrow> p_flags (proc_table s i) \<noteq> RECEIVING \<Longrightarrow> fair_to a a' i (proc_table s i)"
  shows "kinv t a'"
proof -
  have "entry_ok (queue a' i) (proc_table t i)" if i: "i \<in> pids" for i
  proof (cases "p_flags (proc_table t i) \<in> {0, SENDING, RECEIVING}")
    case True
    then show ?thesis by (rule entry_ok_plain[OF abs_relD(1)[OF rel] i])
  next
    case False
    then have same: "p_flags (proc_table t i) = p_flags (proc_table s i)" "p_msg (proc_table t i) = p_msg (proc_table s i)"
      "p_recvfrom (proc_table t i) = p_recvfrom (proc_table s i)" "p_sendto (proc_table t i) = p_sendto (proc_table s i)"
      using k unfolding kept_def by blast+
    show ?thesis
    proof (cases "receiving (proc_table s i)")
      case nr: False
      then have "unmarked (p_flags (proc_table s i)) \<noteq> RECEIVING" by (auto simp: unmarked_receiving)
      then show ?thesis using kinvD(6)[OF inv i] by (simp add: entry_ok_def idle_fields_def same)
    next
      case rc: True
      from entry_receiving[OF kinvD(6)[OF inv i] this] have
        e: "unmarked (p_flags (proc_table s i)) = RECEIVING" "wait_fields (queue a i) (proc_table s i)" by auto
      have f: "fair_to a a' i (proc_table s i)" using fair[OF i rc] False same by simp
      have "pending a i = (has_int_msg (proc_table s i) \<noteq> 0)" "pending a' i = (has_int_msg (proc_table t i) \<noteq> 0)"
        using abs_relD(3)[OF kinvD(1)[OF inv] i] abs_relD(3)[OF rel i] by auto
      then have "wait_fields (queue a' i) (proc_table t i)"
        using e(2) f unfolding wait_fields_def fair_to_def same by (auto simp: neq_Nil_conv)
      then show ?thesis using e(1) by (simp add: entry_ok_def same)
    qed
  qed
  moreover have "flat_natives (proc_table t)"
    using kinvD(2)[OF inv] k by (simp add: flat_natives_def ldt_reg_linear_def kept_def)
  ultimately show ?thesis using rel cur unfolding kinv_def by blast
qed

text \<open>A system call that returns has a function, a partner and a caller that make sense.\<close>

definition well_formed :: "int \<Rightarrow> int \<Rightarrow> int \<Rightarrow> bool" where
  "well_formed p f sd = ((f = F_SEND \<and> sd \<in> pids \<or> f = F_RECEIVE \<and> sd \<in> insert ANY (insert INTERRUPT pids)) \<and> sd \<noteq> p)"

lemma returning_well_formed:
  assumes p: "p \<in> pids" "flat_natives (proc_table s)" and call: "sys_sendrec f sd m p s = Inr (r, t)"
  shows "well_formed p f sd"
proof -
  have sd: "sd \<in> insert ANY (insert INTERRUPT pids)"
  proof (rule ccontr)
    assume "sd \<notin> insert ANY (insert INTERRUPT pids)"
    then have "\<not> (0 \<le> sd \<and> sd < NR_PROCS \<or> sd = ANY \<or> sd = INTERRUPT)" by (auto simp: pids_def)
    then show False using call by (simp add: sys_sendrec_def op_defs)
  qed
  have ne: "sd \<noteq> p"
  proof
    assume "sd = p"
    then show False using call p sint_u32_pid[OF p(1)]
      by (auto simp: sys_sendrec_def op_defs va2la_ok bindE_eq_Inr split: if_splits)
  qed
  have f: "f = F_SEND \<or> f = F_RECEIVE"
    using call by (auto simp: sys_sendrec_def op_defs bindE_eq_Inr split: if_splits)
  have "sd \<in> pids" if f: "f = F_SEND"
  proof (rule ccontr)
    assume sdn: "sd \<notin> pids"
    have "deadlock_loop (proc_table s) p sd sd = Some (Inl (Bad_access ''proc_table''))"
      using sdn by (subst deadlock_loop.simps) simp
    then have "msg_send p sd m (stamped p m s) = Inl (Bad_access ''proc_table'')"
      using ne by (simp add: msg_send_def msg_send_enter_def op_defs deadlock_def loopE_def)
    then show False using sys_sendrec_eq[OF p sd ne, of F_SEND m] call f by simp
  qed
  then show ?thesis using sd ne f by (auto simp: well_formed_def)
qed

text \<open>A message to a process that waits for it under a mark of the memory manager.\<close>

lemma send_marked:
  assumes inv: "kinv s a" and m: "m \<noteq> 0" and d: "dest \<in> pids" "dest \<noteq> p_proc_ready s"
    and acc: "accepts (proc_table s dest) (p_proc_ready s)" "p_flags (proc_table s dest) \<noteq> RECEIVING"
  shows "sys_sendrec F_SEND dest m (p_proc_ready s) s = Inl (Assert ''p->p_flags==0'')"
proof -
  let ?p = "p_proc_ready s" and ?s = "stamped (p_proc_ready s) m s"
  note k = kinvD[OF inv]
  have e: "unmarked (p_flags (proc_table s dest)) = RECEIVING" "p_msg (proc_table s dest) \<noteq> 0" "\<not> sending (proc_table s dest)"
    using entry_receiving[OF k(6)[OF d(1)]] acc(1) by (auto simp: accepts_def wait_fields_def)
  have "msg_send_enter ?p dest m ?s = Inl (Assert ''p->p_flags==0'')"
    using msg_send_enter_marked[of ?s ?p dest m] k(2,4) d m acc(1) e marked_more[OF e(1) acc(2)] by simp
  then show ?thesis
    using sys_sendrec_eq[OF k(4,2) _ d(2), of F_SEND m] d(1) by (simp add: msg_send_def)
qed

lemma kinv_send:
  assumes inv: "kinv s a" and m: "m \<noteq> 0" and call: "sys_sendrec F_SEND sd m (p_proc_ready s) s = Inr (r, t)"
  shows "\<exists>a'. kinv t a'"
proof -
  let ?p = "p_proc_ready s"
  note k = kinvD[OF inv]
  have sd: "sd \<in> pids" "sd \<noteq> ?p"
    using returning_well_formed[OF k(4,2) call] by (auto simp: well_formed_def)
  have open_dest: "p_flags (proc_table s sd) = RECEIVING" if "accepts (proc_table s sd) ?p"
    using send_marked[OF inv m sd that] call by auto
  from sys_send_aux[OF k(1,2,4) sd(1) sd(2)[symmetric] k(5) m open_dest] call
  have t: "abs_rel (proc_table t) (snd (abs_send ?p sd a))" "call_keeps ?p s t"
    by (auto split: if_splits)
  have "fair_to a (snd (abs_send ?p sd a)) i (proc_table s i)"
    if i: "receiving (proc_table s i)" "p_flags (proc_table s i) \<noteq> RECEIVING" for i
  proof (cases "i = sd")
    case True
    then have "\<not> accepts (proc_table s i) ?p" using open_dest i(2) by auto
    then show ?thesis using i(1) by (auto simp: abs_send_def fair_to_def accepts_def)
  qed (auto simp: abs_send_def fair_to_def)
  then show ?thesis using kinv_kept[OF inv _ t(1)] t(2) by (auto simp: call_keeps_def)
qed

lemma kinv_receive:
  assumes inv: "kinv s a" and m: "m \<noteq> 0" and call: "sys_sendrec F_RECEIVE sd m (p_proc_ready s) s = Inr (r, t)"
  shows "\<exists>a'. kinv t a'"
proof -
  let ?p = "p_proc_ready s"
  note k = kinvD[OF inv]
  have sd: "sd \<in> insert ANY (insert INTERRUPT pids)" "?p \<noteq> sd"
    using returning_well_formed[OF k(4,2) call] by (auto simp: well_formed_def)
  from sys_receive_aux[OF k(1,2,4) sd(2) k(5) m sd(1)] call
  have t: "abs_rel (proc_table t) (snd (abs_receive ?p sd a))" "call_keeps ?p s t" by auto
  have "fair_to a (snd (abs_receive ?p sd a)) i x" for i x
    by (auto simp: fair_to_def abs_receive_def split: option.splits dest: notin_set_remove1)
  then show ?thesis using kinv_kept[OF inv _ t(1)] t(2) by (auto simp: call_keeps_def)
qed

lemma kinv_notify:
  assumes inv: "kinv s a" and call: "inform_int i s = Inr ((), t)"
  shows "kinv t (abs_notify i a)"
proof -
  note k = kinvD[OF inv]
  have i: "i \<in> pids" using call by (cases "i \<in> pids") (simp_all add: inform_int_def)
  have open_task: "p_flags (proc_table s i) = RECEIVING"
    if "receiving (proc_table s i)" "p_recvfrom (proc_table s i) \<in> {INTERRUPT, ANY}"
    using inform_int_marked[OF that, of t] call entry_receiving[OF k(6)[OF i] that(1)] marked_more by blast
  from inform_int_refines[OF k(1) i open_task] call
  have t: "abs_rel (proc_table t) (abs_notify i a)" "kept (proc_table s) (proc_table t)"
    "p_proc_ready t = p_proc_ready s" by auto
  have "p_flags (proc_table t (p_proc_ready s)) = 0"
  proof (cases "p_proc_ready s = i")
    case True
    then have "t = s\<lparr>proc_table := (proc_table s)(i := (proc_table s i)\<lparr>has_int_msg := 1\<rparr>)\<rparr>"
      using call i k(5) by (simp add: inform_int_def op_defs updP_apply receiving_def)
    then show ?thesis using True k(5) by simp
  next
    case False
    then have "proc_table t (p_proc_ready s) = proc_table s (p_proc_ready s)"
      using call i by (auto simp: inform_int_def op_defs updP_apply unblock_def bindE_eq_Inr split: if_splits)
    then show ?thesis using k(5) by simp
  qed
  then have "current_ok t" using t(3) k(4) by (simp add: current_ok_def)
  moreover have "fair_to a (abs_notify i a) j (proc_table s j)"
    if "j \<in> pids" "receiving (proc_table s j)" "p_flags (proc_table s j) \<noteq> RECEIVING" for j
    using open_task that by (auto simp: abs_notify_def fair_to_def)
  ultimately show ?thesis using kinv_kept[OF inv t(2,1)] by blast
qed

lemma kinv_schedule:
  assumes inv: "kinv s a" and call: "schedule s = Some (Inr ((), t))"
  shows "kinv t a"
proof (rule kinv_kept[OF inv schedule_kept[OF call]])
  show "abs_rel (proc_table t) a" using schedule_rel[OF call kinvD(1)[OF inv]] .
  show "current_ok t" using schedule_ready[OF call] kinvD(4)[OF inv] by (simp add: current_ok_def runnable_def)
qed simp

lemma kinv_cong: "kinv s a \<Longrightarrow> proc_table t = proc_table s \<Longrightarrow> p_proc_ready t = p_proc_ready s \<Longrightarrow> kinv t a"
  by (simp add: kinv_def current_ok_def)

lemma kinv_ticks:
  assumes "kinv s a"
  shows "kinv (s\<lparr>proc_table := (proc_table s)(i := (proc_table s i)\<lparr>p_ticks := n\<rparr>)\<rparr>) a" (is "kinv ?t a")
proof (rule kinv_kept[OF assms])
  show "kept (proc_table s) (proc_table ?t)" by (simp add: kept_def)
  show "abs_rel (proc_table ?t) a" by (rule no_links_cong_rel[OF kinvD(1)[OF assms]]) simp_all
  show "current_ok ?t" using kinvD(4,5)[OF assms] by (auto simp: current_ok_def)
qed simp

lemma kinv_tail:
  assumes inv: "kinv s a" and call: "clock_tail s = Inr ((), t)"
  shows "kinv t a"
proof (cases "k_reenter s \<noteq> 0")
  case True
  obtain m d where "disp_int (cnt s) (s\<lparr>disp_pos := 500\<rparr>) = Inr ((), s\<lparr>kmem := m, disp_pos := d\<rparr>)"
    using disp_int_at[of 500 "cnt s" s] by auto
  then have "t = s\<lparr>kmem := m, disp_pos := d\<rparr>" using call True by (simp add: clock_tail_def op_defs)
  then show ?thesis by (intro kinv_cong[OF inv]) simp_all
next
  case False
  then have "t = s \<or> scheduleE s = Inr ((), t)"
    using call kinvD(4)[OF inv] by (simp add: clock_tail_def op_defs split: if_splits)
  then show ?thesis using kinv_schedule[OF inv] inv by (auto simp: scheduleE_def split: option.splits)
qed

lemma kinv_clock:
  assumes inv: "kinv s a" and call: "clock_handler s = Inr ((), t)"
  shows "\<exists>a'. kinv t a'"
proof -
  let ?r = "p_proc_ready s"
  obtain m d where eq: "clock_handler s = clock_rest (ticked m d s)" using clock_handler_eq by blast
  define s0 where "s0 = ticked m d s"
  define s1 where "s1 = (if p_ticks (proc_table s ?r) > 0 then
      s0\<lparr>proc_table := (proc_table s)(?r := (proc_table s ?r)\<lparr>p_ticks := p_ticks (proc_table s ?r) - 1\<rparr>)\<rparr> else s0)"
  have inv0: "kinv s0 a" by (rule kinv_cong[OF inv]) (simp_all add: s0_def)
  have inv1: "kinv s1 a" using kinv_ticks[OF inv0, of ?r] inv0 by (simp add: s1_def s0_def)
  have key: "key_pressed s1 = key_pressed s" by (simp add: s1_def s0_def)
  have "clock_rest s0 = bindE (whenE (key_pressed s \<noteq> 0) (inform_int TASK_TTY)) (\<lambda>_. clock_tail) s1"
    using kinvD(4)[OF inv] unfolding clock_rest_def blockE.simps bindE_assoc
    by (simp add: op_defs updP_apply s1_def s0_def) (simp add: bindE_def op_defs split: sum.splits)
  then have "bindE (whenE (key_pressed s \<noteq> 0) (inform_int TASK_TTY)) (\<lambda>_. clock_tail) s1 = Inr ((), t)"
    using call eq by (simp add: s0_def)
  then obtain s2 where s2: "whenE (key_pressed s \<noteq> 0) (inform_int TASK_TTY) s1 = Inr ((), s2)" "clock_tail s2 = Inr ((), t)"
    by (auto simp: bindE_eq_Inr)
  have "\<exists>a2. kinv s2 a2"
  proof (cases "key_pressed s \<noteq> 0")
    case True
    then show ?thesis using kinv_notify[OF inv1] s2(1) by (auto simp: whenE_def)
  next
    case False
    then show ?thesis using inv1 s2(1) by (auto simp: whenE_def op_defs)
  qed
  then show ?thesis using kinv_tail[OF _ s2(2)] by blast
qed

subsection \<open>The steps of the servers\<close>

lemma kinv_entry:
  assumes inv: "kinv s a" and c: "c \<in> pids" "c \<noteq> p_proc_ready s" "\<not> sending (proc_table s c)" "\<not> sending x"
      "q_sending x = q_sending (proc_table s c)"
    and ok: "entry_ok (queue a c) x" and flat: "flat_natives ((proc_table s)(c := x))"
  shows "\<exists>a'. kinv (s\<lparr>proc_table := (proc_table s)(c := x)\<rparr>) a'"
proof -
  note k = kinvD[OF inv]
  show ?thesis
    using abs_rel_entry[OF k(1) c(1,3,4,5) ok] flat k(4-6) c(2) ok
    unfolding kinv_def current_ok_def by (intro exI conjI ballI) (auto simp: fun_upd_apply)
qed

lemma flat_upd: "flat_natives pt \<Longrightarrow> c \<in> {NR_TASKS + NR_NATIVE_PROCS..<NR_PROCS} \<or> ldts x = ldts (pt c) \<Longrightarrow> flat_natives (pt(c := x))"
  by (auto simp: flat_natives_def ldt_reg_linear_def)

text \<open>New flags that leave the entry as it is underneath, or free it.\<close>

lemma kinv_set_flags:
  assumes inv: "kinv s a" and i: "i \<in> pids" "i \<noteq> p_proc_ready s" "\<not> sending (proc_table s i)"
    and v: "v = FREE_SLOT \<or> p_flags (proc_table s i) \<noteq> FREE_SLOT \<and> unmarked v = unmarked (p_flags (proc_table s i))"
  shows "\<exists>a'. kinv (set_flags i v s) a'"
  unfolding set_flags_def
proof (rule kinv_entry[OF inv i])
  let ?p = "proc_table s i"
  have e: "entry_ok (queue a i) ?p" using kinvD(6)[OF inv i(1)] .
  have ns: "p_flags ?p \<noteq> SENDING" using i(3) by auto
  show ok: "entry_ok (queue a i) (?p\<lparr>p_flags := v\<rparr>)"
    using v e ns by (auto simp: entry_ok_def idle_fields_def wait_fields_def)
  show "\<not> sending (?p\<lparr>p_flags := v\<rparr>)"
    using v e ns by (auto simp: entry_ok_def unmarked_sending)
  show "flat_natives ((proc_table s)(i := ?p\<lparr>p_flags := v\<rparr>))" by (rule flat_upd[OF kinvD(2)[OF inv]]) simp
qed simp

lemma ipc_part_fields:
  assumes "ipc_part x = ipc_part p"
  shows "p_flags x = p_flags p" "p_msg x = p_msg p" "p_recvfrom x = p_recvfrom p" "p_sendto x = p_sendto p"
    "has_int_msg x = has_int_msg p" "q_sending x = q_sending p" "next_sending x = next_sending p"
  using assms by (simp_all add: ipc_part_def)

lemma entry_ok_part:
  assumes "ipc_part x = ipc_part p"
  shows "entry_ok q x = entry_ok q p"
  by (simp only: entry_ok_def idle_fields_def wait_fields_def ipc_part_fields[OF assms])

text \<open>The copy of an entry nobody is queued at.\<close>

lemma kinv_fork:
  assumes inv: "kinv s a" and cur: "p_proc_ready s = TASK_MM"
    and p: "parent \<in> pids" "\<not> sending (proc_table s parent)" "q_sending (proc_table s parent) = None"
    and c: "child \<in> {NR_TASKS + NR_NATIVE_PROCS..<NR_PROCS}" "p_flags (proc_table s child) = FREE_SLOT" "q_sending (proc_table s child) = None"
    and x: "ipc_part x = ipc_part (proc_table s parent)"
  shows "\<exists>a'. kinv (s\<lparr>proc_table := (proc_table s)(child := x)\<rparr>) a'"
proof (rule kinv_entry[OF inv])
  have empty: "queue a r = []" if "r \<in> pids" "q_sending (proc_table s r) = None" for r
    using queue_head[OF ipc_wfD(1)[OF abs_relD(1)[OF kinvD(1)[OF inv]]] that(1)] that(2) by (simp split: if_splits)
  show child: "child \<in> pids" "child \<noteq> p_proc_ready s" using c(1) cur by (auto simp: pids_def)
  show "\<not> sending (proc_table s child)" using c(2) by (simp add: sending_def)
  show "\<not> sending x" using p(2) unfolding sending_def ipc_part_fields[OF x] .
  show "q_sending x = q_sending (proc_table s child)" using p(3) c(3) by (simp only: ipc_part_fields[OF x])
  have "queue a child = queue a parent" using empty child(1) p c(3) by simp
  then show "entry_ok (queue a child) x" using kinvD(6)[OF inv p(1)] entry_ok_part[OF x] by simp
  show "flat_natives ((proc_table s)(child := x))" using flat_upd[OF kinvD(2)[OF inv]] c(1) by blast
qed

lemma kinv_fields:
  assumes inv: "kinv s a" and same: "\<forall>i. ipc_part (pt i) = ipc_part (proc_table s i)" and flat: "flat_natives pt"
  shows "kinv (s\<lparr>proc_table := pt\<rparr>) a"
proof -
  note f = ipc_part_fields[OF same[rule_format]]
  have "abs_rel pt a" by (rule no_links_cong_rel[OF kinvD(1)[OF inv]]) (simp_all only: f)
  then show ?thesis
    using kinvD[OF inv] flat entry_ok_part[OF same[rule_format]] by (simp add: kinv_def current_ok_def f)
qed

subsection \<open>Every reachable state\<close>

lemma kinv_step:
  assumes "kinv s a" "kstep s t"
  shows "\<exists>a'. kinv t a'"
  using assms(2)
proof cases
  case (step_call m f sd r)
  have "well_formed (p_proc_ready s) f sd"
    using returning_well_formed[OF kinvD(4,2)[OF assms(1)] step_call(2)] .
  then show ?thesis using kinv_send[OF assms(1)] kinv_receive[OF assms(1)] step_call by (auto simp: well_formed_def)
next
  case (step_int i)
  then show ?thesis using kinv_notify[OF assms(1)] by blast
next
  case step_clock
  then show ?thesis using kinv_clock[OF assms(1)] by blast
next
  case step_sched
  then show ?thesis using kinv_schedule[OF assms(1)] by blast
next
  case step_other
  then show ?thesis using kinv_cong[OF assms(1), of t] by auto
next
  case (step_fields pt)
  then show ?thesis using kinv_fields[OF assms(1)] by blast
next
  case (step_fork parent child x)
  then show ?thesis using kinv_fork[OF assms(1)] by blast
next
  case (step_mark i b)
  then show ?thesis using kinv_set_flags[OF assms(1), of i] unmarked_or[of b] by simp
next
  case (step_unmark i b)
  then show ?thesis using kinv_set_flags[OF assms(1), of i] unmarked_and_not[of b] by simp
next
  case (step_free i)
  then show ?thesis using kinv_set_flags[OF assms(1), of i FREE_SLOT] by simp
qed

lemma kinv_reachable:
  assumes "kstep\<^sup>*\<^sup>* s0 s" "boot_ok s0"
  shows "\<exists>a. kinv s a"
  using assms
proof (induction rule: rtranclp_induct)
  case base
  then show ?case using kinv_boot by blast
next
  case (step s t)
  then show ?case using kinv_step by blast
qed

text \<open>
  C2. In every state that a run of \<open>kstep\<close> reaches from boot, the blocked senders never wait for
  each other in a circle, the running process is an entry of the table with no flag set, and the
  sending queues are lists without repetition that hold exactly the processes blocked in a send to
  their owner. The steps are the system calls with a message, interrupts, clock ticks, scheduling,
  any change outside the table and the fields message passing uses, and the memory manager's writes
  to the table, on the conditions \<open>kstep\<close> states: nobody is queued at a process whose entry is
  copied, nor at the free slot, and a process that is copied, marked or freed is not blocked in a
  send. Without the first the copy of the queue pointer at mm/fork2exit.c:40 breaks the claim.
\<close>

theorem reachable_no_circular_wait:
  assumes "boot_ok s0" "kstep\<^sup>*\<^sup>* s0 s"
  shows "acyclic (waits (proc_table s)) \<and> current_ok s \<and>
    (\<exists>Q. \<forall>r \<in> pids. queue_seg (proc_table s) (q_sending (proc_table s r)) (Q r) None \<and>
       distinct (Q r) \<and> set (Q r) = senders_to (proc_table s) r)"
proof -
  obtain a where a: "kinv s a" using kinv_reachable[OF assms(2,1)] ..
  then have wf: "ipc_wf (proc_table s) (queue a)" by (simp add: kinv_def abs_relD)
  have "\<forall>r \<in> pids. queue_seg (proc_table s) (q_sending (proc_table s r)) (queue a r) None \<and>
       distinct (queue a r) \<and> set (queue a r) = senders_to (proc_table s) r"
    using queues_simps[OF ipc_wfD(1)[OF wf]] ipc_wfD(2)[OF wf] by blast
  then show ?thesis using a ipc_wfD(4)[OF wf] unfolding kinv_def by blast
qed

text \<open>
  C1. In every state that a run of \<open>kstep\<close> reaches from boot (see C2 for the runs), take any
  \<open>sendrec\<close> call of the running process with a message. It returns only if it is well formed: a
  send to an entry of the table or a receive from an entry, from any process or from an interrupt,
  the partner not the caller; then it returns 0. A well-formed call that does not return idles
  because no process can run, or stops the kernel at the deadlock check with a circle of waiting
  senders, or is a send to a process that waits for it and that the memory manager has marked, at
  which \<open>unblock\<close> stops. No other assertion of \<open>sys_sendrec\<close>, \<open>msg_send\<close>, \<open>msg_receive\<close>, \<open>va2la\<close>,
  \<open>block\<close> and \<open>unblock\<close> fails, no pointer is wrong and no loop over the queues runs forever.
\<close>

theorem reachable_calls_safe:
  assumes "boot_ok s0" "kstep\<^sup>*\<^sup>* s0 s" "m \<noteq> 0"
  shows "case sys_sendrec f sd m (p_proc_ready s) s of
      Inr (r, t) \<Rightarrow> well_formed (p_proc_ready s) f sd \<and> r = 0
    | Inl e \<Rightarrow> \<not> well_formed (p_proc_ready s) f sd \<or> e = Wait ''schedule'' \<or>
        e = Panic ''>>DEADLOCK<<'' \<and> f = F_SEND \<and> (sd, p_proc_ready s) \<in> (waits (proc_table s))\<^sup>+ \<or>
        e = Assert ''p->p_flags==0'' \<and> f = F_SEND \<and> accepts (proc_table s sd) (p_proc_ready s) \<and>
          p_flags (proc_table s sd) \<in> {RECEIVING OR WAITING, RECEIVING OR HANGING, RECEIVING OR WAITING OR HANGING}"
proof (cases "well_formed (p_proc_ready s) f sd")
  case False
  obtain a where "kinv s a" using kinv_reachable[OF assms(2,1)] ..
  note k = kinvD[OF this]
  show ?thesis using returning_well_formed[OF k(4,2)] False by (auto split: sum.splits)
next
  case True
  let ?p = "p_proc_ready s"
  obtain a where a: "kinv s a" using kinv_reachable[OF assms(2,1)] ..
  note k = kinvD[OF a]
  from True have sd: "sd \<noteq> ?p" "f = F_SEND \<and> sd \<in> pids \<or> f = F_RECEIVE \<and> sd \<in> insert ANY (insert INTERRUPT pids)"
    by (auto simp: well_formed_def)
  from sd(2) show ?thesis
  proof
    assume f: "f = F_SEND \<and> sd \<in> pids"
    show ?thesis
    proof (cases "accepts (proc_table s sd) ?p \<and> p_flags (proc_table s sd) \<noteq> RECEIVING")
      case marked: True
      then have "unmarked (p_flags (proc_table s sd)) = RECEIVING"
        using entry_receiving[OF k(6)] f by (simp add: accepts_def)
      then have "p_flags (proc_table s sd) \<in> {RECEIVING OR WAITING, RECEIVING OR HANGING, RECEIVING OR WAITING OR HANGING}"
        using marked by (auto dest: unmarked_RECEIVING)
      then show ?thesis using send_marked[OF a assms(3) _ sd(1)] f marked by simp
    next
      case False
      with sys_send_aux[OF k(1,2,4) _ sd(1)[symmetric] k(5) assms(3)] f True
      show ?thesis by (auto split: if_splits)
    qed
  next
    assume f: "f = F_RECEIVE \<and> sd \<in> insert ANY (insert INTERRUPT pids)"
    with sys_receive_aux[OF k(1,2,4) sd(1)[symmetric] k(5) assms(3)] True show ?thesis by auto
  qed
qed

text \<open>
  A run with the memory manager's steps: from a table in which it is the running process, it copies
  the entry of init to the first free slot and then marks init \<open>WAITING\<close>.
\<close>

definition mm_start :: kstate where
  "mm_start = idle_state\<lparr>p_proc_ready := TASK_MM,
     proc_table := (\<lambda>i. if i < NR_TASKS + NR_NATIVE_PROCS then idle_proc else idle_proc\<lparr>p_flags := FREE_SLOT\<rparr>)\<rparr>"

definition mm_forked :: kstate where
  "mm_forked = mm_start\<lparr>proc_table := (proc_table mm_start)(9 := idle_proc\<lparr>p_parent := INIT\<rparr>)\<rparr>"

definition mm_marked :: kstate where
  "mm_marked = set_flags INIT WAITING mm_forked"

lemma mm_start_ok: "boot_ok mm_start"
  by (simp add: boot_ok_def mm_start_def current_ok_def flat_natives_def ldt_reg_linear_def idle_state_def idle_proc_def)
    (auto simp: pids_def)

lemma mm_marked_reached: "kstep\<^sup>*\<^sup>* mm_start mm_marked"
proof -
  have "kstep mm_start mm_forked"
    unfolding mm_forked_def by (rule step_fork[where parent = INIT]) (simp_all add: mm_start_def ipc_part_def pids_def sending_def)
  moreover have "kstep mm_forked mm_marked"
    using step_mark[of mm_forked INIT WAITING]
    by (simp add: mm_marked_def mm_forked_def mm_start_def pids_def sending_def)
  ultimately show ?thesis by (meson rtranclp.rtrancl_refl rtranclp.rtrancl_into_rtrancl)
qed

lemma mm_marked_fields: "p_proc_ready mm_marked = TASK_MM" "waits (proc_table mm_marked) = {}"
  "p_flags (proc_table mm_marked INIT) = WAITING" "\<not> accepts (proc_table mm_marked INIT) TASK_MM"
  by (auto simp: mm_marked_def mm_forked_def mm_start_def set_flags_def accepts_def receiving_def waits_def sending_def)

theorem reachable_no_circular_wait_witness:
  "acyclic (waits (proc_table mm_marked)) \<and> current_ok mm_marked \<and> p_flags (proc_table mm_marked INIT) = WAITING"
  using reachable_no_circular_wait[OF mm_start_ok mm_marked_reached] mm_marked_fields by blast

text \<open>There the memory manager sends to init: the call returns 0 or idles.\<close>

theorem reachable_calls_safe_witness:
  "case sys_sendrec F_SEND INIT 0x1000 TASK_MM mm_marked of
      Inr (r, t) \<Rightarrow> r = 0
    | Inl e \<Rightarrow> e = Wait ''schedule''"
  using reachable_calls_safe[OF mm_start_ok mm_marked_reached, of "0x1000" F_SEND INIT]
  by (simp add: mm_marked_fields well_formed_def pids_def split: sum.splits prod.splits)

end
