(* ===== verification/Ports.thy ===== *)
theory Ports
  imports Proc
begin

section \<open>Input and output ports, and the interrupt controller\<close>

text \<open>
  \<open>out_byte\<close> and \<open>in_byte\<close> of lib/klib.asm, kernel/i8259.c and the timer set-up of
  kernel/clock.c. The hardware is not under src/: it is the argument \<open>hw\<close>, which gives the
  byte that a read of a port yields after a history of accesses. The state keeps that
  history, newest access first.
\<close>

datatype io_event = Out u16 byte | In u16

type_synonym hardware = "io_event list \<Rightarrow> u16 \<Rightarrow> byte"

text \<open>The handlers that the kernel puts into \<open>irq_table\<close>.\<close>

datatype irq_handler = Spurious_irq | Clock_handler | Keyboard_handler | Hd_handler

record iostate = kstate +
  io_log :: "io_event list"
  irq_table :: "nat \<Rightarrow> irq_handler"

abbreviation (input) INT_M_CTL :: u16 where "INT_M_CTL \<equiv> 0x20"
abbreviation (input) INT_M_CTLMASK :: u16 where "INT_M_CTLMASK \<equiv> 0x21"
abbreviation (input) INT_S_CTL :: u16 where "INT_S_CTL \<equiv> 0xA0"
abbreviation (input) INT_S_CTLMASK :: u16 where "INT_S_CTLMASK \<equiv> 0xA1"
abbreviation (input) TIMER_MODE :: u16 where "TIMER_MODE \<equiv> 0x43"
abbreviation (input) TIMER0 :: u16 where "TIMER0 \<equiv> 0x40"
abbreviation (input) RATE_GENERATOR :: byte where "RATE_GENERATOR \<equiv> 0x34"
abbreviation (input) TIMER_FREQ :: int where "TIMER_FREQ \<equiv> 1193182"
abbreviation (input) HZ :: int where "HZ \<equiv> 100"
abbreviation (input) NR_IRQ :: nat where "NR_IRQ \<equiv> 16"
abbreviation (input) CLOCK_IRQ :: nat where "CLOCK_IRQ \<equiv> 0"
abbreviation (input) KEYBOARD_IRQ :: nat where "KEYBOARD_IRQ \<equiv> 1"

definition out_byte :: "u16 \<Rightarrow> byte \<Rightarrow> ('a iostate_scheme, unit) op" where
  "out_byte port v = modE (\<lambda>s. s\<lparr>io_log := Out port v # io_log s\<rparr>)"

definition in_byte :: "hardware \<Rightarrow> u16 \<Rightarrow> ('a iostate_scheme, byte) op" where
  "in_byte hw port = (\<lambda>s. Inr (hw (io_log s) port, s\<lparr>io_log := In port # io_log s\<rparr>))"

text \<open>A loop that polls a port: it ends when the byte read satisfies \<open>done\<close>, or never.\<close>

partial_function (option) poll_loop :: "hardware \<Rightarrow> u16 \<Rightarrow> (byte \<Rightarrow> bool) \<Rightarrow> io_event list \<Rightarrow> io_event list option" where
  "poll_loop hw port ready l =
     (if ready (hw l port) then Some (In port # l) else poll_loop hw port ready (In port # l))"

definition poll :: "hardware \<Rightarrow> u16 \<Rightarrow> (byte \<Rightarrow> bool) \<Rightarrow> ('a iostate_scheme, unit) op" where
  "poll hw port ready = (\<lambda>s. case poll_loop hw port ready (io_log s) of
     None \<Rightarrow> Inl (Spin ''poll'')
   | Some l \<Rightarrow> Inr ((), s\<lparr>io_log := l\<rparr>))"

subsection \<open>The 8259\<close>

definition ctlmask :: "nat \<Rightarrow> u16" where
  "ctlmask irq = (if irq < 8 then INT_M_CTLMASK else INT_S_CTLMASK)"

definition irq_bit :: "nat \<Rightarrow> byte" where
  "irq_bit irq = push_bit (irq mod 8) 1"

definition disable_irq :: "hardware \<Rightarrow> nat \<Rightarrow> ('a iostate_scheme, bool) op" where
  "disable_irq hw irq =
     bindE (in_byte hw (ctlmask irq)) (\<lambda>al.
     if al AND irq_bit irq \<noteq> 0 then ret False
     else bindE (out_byte (ctlmask irq) (al OR irq_bit irq)) (\<lambda>_. ret True))"

definition enable_irq :: "hardware \<Rightarrow> nat \<Rightarrow> ('a iostate_scheme, unit) op" where
  "enable_irq hw irq =
     bindE (in_byte hw (ctlmask irq)) (\<lambda>al. out_byte (ctlmask irq) (al AND NOT (irq_bit irq)))"

definition put_irq_handler :: "hardware \<Rightarrow> nat \<Rightarrow> irq_handler \<Rightarrow> ('a iostate_scheme, unit) op" where
  "put_irq_handler hw irq h =
     bindE (disable_irq hw irq) (\<lambda>_.
     if irq < NR_IRQ then modE (\<lambda>s. s\<lparr>irq_table := (irq_table s)(irq := h)\<rparr>)
     else fail (Bad_access ''irq_table''))"

definition init_8259A :: "('a iostate_scheme, unit) op" where
  "init_8259A = blockE [
     out_byte INT_M_CTL 0x11, out_byte INT_S_CTL 0x11,
     out_byte INT_M_CTLMASK 0x20, out_byte INT_S_CTLMASK 0x28,
     out_byte INT_M_CTLMASK 0x4, out_byte INT_S_CTLMASK 0x2,
     out_byte INT_M_CTLMASK 0x1, out_byte INT_S_CTLMASK 0x1,
     out_byte INT_M_CTLMASK 0xFF, out_byte INT_S_CTLMASK 0xFF,
     forE [0..<NR_IRQ] (\<lambda>i. modE (\<lambda>s. s\<lparr>irq_table := (irq_table s)(i := Spurious_irq)\<rparr>))]"

subsection \<open>The timer\<close>

definition init_clock :: "hardware \<Rightarrow> ('a iostate_scheme, unit) op" where
  "init_clock hw = blockE [
     out_byte TIMER_MODE RATE_GENERATOR,
     out_byte TIMER0 (word_of_int (c_div TIMER_FREQ HZ)),
     out_byte TIMER0 (word_of_int (c_div TIMER_FREQ HZ div 2 ^ 8)),
     put_irq_handler hw CLOCK_IRQ Clock_handler,
     enable_irq hw CLOCK_IRQ]"

subsection \<open>Facts about the mask registers\<close>

text \<open>
  The documented behaviour of the 8259 after its initialisation: a read of a mask port
  yields the byte last written to it.
\<close>

fun last_out :: "u16 \<Rightarrow> io_event list \<Rightarrow> byte option" where
  "last_out p [] = None"
| "last_out p (Out q v # l) = (if p = q then Some v else last_out p l)"
| "last_out p (In q # l) = last_out p l"

definition pic_ok :: "hardware \<Rightarrow> bool" where
  "pic_ok hw = (\<forall>l v p. p \<in> {INT_M_CTLMASK, INT_S_CTLMASK} \<longrightarrow> last_out p l = Some v \<longrightarrow> hw l p = v)"

definition masked :: "'a iostate_scheme \<Rightarrow> nat \<Rightarrow> bool" where
  "masked s irq = (case last_out (ctlmask irq) (io_log s) of None \<Rightarrow> False | Some v \<Rightarrow> v AND irq_bit irq \<noteq> 0)"

lemma out_byte_apply: "out_byte p v s = Inr ((), s\<lparr>io_log := Out p v # io_log s\<rparr>)"
  by (simp add: out_byte_def op_defs)

lemma in_byte_apply: "in_byte hw p s = Inr (hw (io_log s) p, s\<lparr>io_log := In p # io_log s\<rparr>)"
  by (simp add: in_byte_def)

lemmas io_defs = out_byte_apply in_byte_apply

lemma pic_okD: "pic_ok hw \<Longrightarrow> last_out (ctlmask irq) l = Some v \<Longrightarrow> hw l (ctlmask irq) = v"
  by (auto simp: pic_ok_def ctlmask_def)

lemma irq_bit_nz [simp]: "irq_bit i \<noteq> 0"
proof -
  have "bit (irq_bit i) (i mod 8)"
    unfolding irq_bit_def bit_push_bit_iff by simp
  then show ?thesis by auto
qed

lemma irq_bit_apart:
  assumes "ctlmask i = ctlmask j" "i \<noteq> j" "i < NR_IRQ" "j < NR_IRQ"
  shows "irq_bit i AND irq_bit j = 0"
proof -
  have "i mod 8 \<noteq> j mod 8"
    using assms by (auto simp: ctlmask_def mod_if split: if_splits)
  then show ?thesis
    unfolding irq_bit_def
    by (intro bit_word_eqI) (auto simp: bit_and_iff bit_push_bit_iff bit_1_iff simp del: push_bit_of_1)
qed

lemma masks_apart: "b AND c = 0 \<Longrightarrow> (a OR b) AND (c :: byte) = a AND c"
  "b AND c = 0 \<Longrightarrow> (a AND NOT b) AND (c :: byte) = a AND c"
  by (simp add: bit.conj_disj_distrib2)
     (rule bit_word_eqI, drule_tac f = "\<lambda>x. bit x n" in arg_cong, auto simp: bit_simps)

text \<open>Enabling one line unmasks it and leaves every other line as it was.\<close>

lemma enable_irq_masks:
  assumes "pic_ok hw" "last_out (ctlmask i) (io_log s) = Some v" "i < NR_IRQ" "j < NR_IRQ"
  obtains t where "enable_irq hw i s = Inr ((), t)" "irq_table t = irq_table s"
    "masked t j = (j \<noteq> i \<and> masked s j)"
    "last_out (ctlmask i) (io_log t) = Some (v AND NOT (irq_bit i))"
proof -
  let ?t = "s\<lparr>io_log := Out (ctlmask i) (v AND NOT (irq_bit i)) # In (ctlmask i) # io_log s\<rparr>"
  have "enable_irq hw i s = Inr ((), ?t)"
    using pic_okD[OF assms(1,2)] by (simp add: enable_irq_def bindE_def io_defs)
  moreover have "masked ?t j = (j \<noteq> i \<and> masked s j)"
  proof (cases "ctlmask j = ctlmask i \<and> j \<noteq> i")
    case True
    then have "irq_bit i AND irq_bit j = 0"
      using irq_bit_apart assms(3,4) by simp
    then show ?thesis using True assms(2) by (simp add: masked_def masks_apart)
  next
    case False
    then show ?thesis using assms(2) by (auto simp: masked_def)
  qed
  ultimately show ?thesis by (intro that[of ?t]) simp_all
qed

lemma forE_irq_table:
  "forE is (\<lambda>i. modE (\<lambda>s. s\<lparr>irq_table := (irq_table s)(i := h)\<rparr>)) s =
     Inr ((), s\<lparr>irq_table := (\<lambda>j. if j \<in> set is then h else irq_table s j)\<rparr>)"
proof (induction "is" arbitrary: s)
  case Nil
  then show ?case by (simp add: op_defs)
next
  case (Cons i "is")
  then show ?case by (simp add: bindE_def op_defs) (rule arg_cong[where f = "\<lambda>x. s\<lparr>irq_table := x\<rparr>"], auto)
qed

lemma init_8259A_ok:
  "init_8259A s = Inr ((), s\<lparr>io_log := [Out INT_S_CTLMASK 0xFF, Out INT_M_CTLMASK 0xFF, Out INT_S_CTLMASK 0x1,
     Out INT_M_CTLMASK 0x1, Out INT_S_CTLMASK 0x2, Out INT_M_CTLMASK 0x4, Out INT_S_CTLMASK 0x28,
     Out INT_M_CTLMASK 0x20, Out INT_S_CTL 0x11, Out INT_M_CTL 0x11] @ io_log s,
     irq_table := (\<lambda>j. if j < NR_IRQ then Spurious_irq else irq_table s j)\<rparr>)"
  unfolding init_8259A_def by (simp add: bindE_def op_defs io_defs forE_irq_table atLeast0LessThan cong: if_cong)

lemma mask_FF [simp]: "(0xFF :: byte) AND x = x"
proof -
  have "(0xFF :: byte) = - 1" by simp
  then show ?thesis by (metis and.left_neutral)
qed

lemma irq_line_disabled:
  assumes "pic_ok hw" "last_out (ctlmask irq) (io_log s) = Some v" "v AND irq_bit irq \<noteq> 0"
  shows "disable_irq hw irq s = Inr (False, s\<lparr>io_log := In (ctlmask irq) # io_log s\<rparr>)"
  using pic_okD[OF assms(1,2)] assms(3) by (simp add: disable_irq_def bindE_def io_defs op_defs)

definition idle_io :: iostate where
  "idle_io = kstate.extend idle_state (iostate.fields [] (\<lambda>_. Hd_handler))"

text \<open>
  C15. The 8259 and the timer are brought up so that the clock is the only interrupt that can
  come: after \<open>init_8259A\<close> and \<open>init_clock\<close> line 0 is open and served by the clock handler,
  the fifteen others are masked and served by the spurious handler, and the timer has been
  given the divisor 11931 (100 interrupts a second), low byte first. The hypothesis is the
  documented behaviour of the controller: a mask port reads back what was written to it.
\<close>

theorem only_clock_enabled:
  assumes "pic_ok hw"
  shows "\<exists>t. bindE init_8259A (\<lambda>_. init_clock hw) s = Inr ((), t) \<and>
    (\<forall>j < NR_IRQ. masked t j = (j \<noteq> CLOCK_IRQ) \<and>
       irq_table t j = (if j = CLOCK_IRQ then Clock_handler else Spurious_irq)) \<and>
    filter (\<lambda>e. \<exists>v. e = Out TIMER0 v) (io_log t) =
      [Out TIMER0 0x2E, Out TIMER0 0x9B] @
      filter (\<lambda>e. \<exists>v. e = Out TIMER0 v) (io_log s)"
proof -
  obtain a where a: "init_8259A s = Inr ((), a)" "last_out INT_M_CTLMASK (io_log a) = Some 0xFF"
    "last_out INT_S_CTLMASK (io_log a) = Some 0xFF" "\<forall>j < NR_IRQ. irq_table a j = Spurious_irq"
    "filter (\<lambda>e. \<exists>v. e = Out TIMER0 v) (io_log a) = filter (\<lambda>e. \<exists>v. e = Out TIMER0 v) (io_log s)"
    by (simp add: init_8259A_ok)
  let ?b = "a\<lparr>io_log := [Out TIMER0 46, Out TIMER0 11931,
    Out TIMER_MODE RATE_GENERATOR] @ io_log a\<rparr>"
  let ?c = "?b\<lparr>io_log := In INT_M_CTLMASK # io_log ?b, irq_table := (irq_table a)(0 := Clock_handler)\<rparr>"
  have la: "last_out INT_M_CTLMASK (io_log ?b) = Some 0xFF" "last_out INT_S_CTLMASK (io_log ?b) = Some 0xFF"
    using a by simp_all
  have lc: "last_out INT_M_CTLMASK (io_log ?c) = Some 0xFF" "last_out INT_S_CTLMASK (io_log ?c) = Some 0xFF"
    using a by simp_all
  have b: "ctlmask 0 = INT_M_CTLMASK" by (simp add: ctlmask_def)
  have dis: "disable_irq hw 0 ?b = Inr (False, ?b\<lparr>io_log := In INT_M_CTLMASK # io_log ?b\<rparr>)"
    using irq_line_disabled[OF assms, of 0 ?b "0xFF"] la by (simp add: b)
  have put: "put_irq_handler hw 0 Clock_handler ?b = Inr ((), ?c)"
    unfolding put_irq_handler_def using dis by (simp add: bindE_def op_defs)
  have mc: "masked ?c j" for j
    using lc by (simp add: masked_def ctlmask_def)
  obtain t where t: "enable_irq hw 0 ?c = Inr ((), t)" "irq_table t = irq_table ?c"
    and log: "io_log t = Out INT_M_CTLMASK (0xFF AND NOT (irq_bit 0)) # In INT_M_CTLMASK # io_log ?c"
    using pic_okD[OF assms, of 0 "io_log ?c" "0xFF"] lc b by (simp add: enable_irq_def bindE_def io_defs)
  have "masked t j = (j \<noteq> 0)" if "j < NR_IRQ" for j
    by (rule enable_irq_masks[OF assms, of 0 ?c "0xFF" j]) (use lc b that t(1) mc in auto)
  moreover have "bindE init_8259A (\<lambda>_. init_clock hw) s = Inr ((), t)"
    using a(1) put t(1) by (simp add: init_clock_def bindE_def op_defs io_defs)
  ultimately show ?thesis
    using t(2) log a by auto
qed

theorem only_clock_enabled_witness:
  "pic_ok (\<lambda>l p. case last_out p l of None \<Rightarrow> 0 | Some v \<Rightarrow> v) \<and>
   (\<exists>t. bindE init_8259A (\<lambda>_. init_clock (\<lambda>l p. case last_out p l of None \<Rightarrow> 0 | Some v \<Rightarrow> v))
       idle_io = Inr ((), t) \<and>
     \<not> masked t 0 \<and> masked t 14 \<and> irq_table t 14 = Spurious_irq)"
proof -
  let ?hw = "\<lambda>l p. case last_out p l of None \<Rightarrow> 0 | Some v \<Rightarrow> v"
  have ok: "pic_ok ?hw" by (simp add: pic_ok_def)
  have "0 < NR_IRQ" "14 < NR_IRQ" by simp_all
  then show ?thesis
    using ok only_clock_enabled[OF ok, of idle_io]
    by (metis (lifting) numeral_eq_iff zero_neq_numeral)
qed

end
