(* ===== verification/Console.thy ===== *)
theory Console
  imports Ports
begin

section \<open>The consoles\<close>

text \<open>
  kernel/console.c. The video memory of 0x8000 bytes at 0xB8000 is cut into one window per
  console, all positions are counted in character cells of two bytes. A pointer into
  \<open>console_table\<close> is its index. The loop of \<open>out_char\<close> that scrolls until the cursor is
  visible has no bound in the code and is a \<open>partial_function\<close>; its termination is proved.
\<close>

abbreviation (input) V_MEM_BASE :: addr where "V_MEM_BASE \<equiv> 0xB8000"
abbreviation (input) V_MEM_SIZE :: int where "V_MEM_SIZE \<equiv> 0x8000"
abbreviation (input) SCREEN_WIDETH :: u32 where "SCREEN_WIDETH \<equiv> 80"
abbreviation (input) SCREEN_SIZE :: u32 where "SCREEN_SIZE \<equiv> 80 * 25"
abbreviation (input) NR_CONSOLES :: nat where "NR_CONSOLES \<equiv> 3"
abbreviation (input) SCROLL_UP :: int where "SCROLL_UP \<equiv> 1"
abbreviation (input) SCROLL_DOWN :: int where "SCROLL_DOWN \<equiv> - 1"
abbreviation (input) COLOR :: byte where "COLOR \<equiv> 0x0C"
abbreviation (input) CRTC_ADDR_REG :: u16 where "CRTC_ADDR_REG \<equiv> 0x3D4"
abbreviation (input) CRTC_DATA_REG :: u16 where "CRTC_DATA_REG \<equiv> 0x3D5"

record console =
  begin_adr :: u32
  current_start_addr :: u32
  cursor_location :: u32
  vmem_limit :: u32

record constate = iostate +
  console_table :: "nat \<Rightarrow> console"
  current_tty :: nat

definition conE :: "nat \<Rightarrow> ('a constate_scheme, console) op" where
  "conE c = (\<lambda>s. if c < NR_CONSOLES then Inr (console_table s c, s) else Inl (Bad_access ''console_table''))"

definition updC :: "nat \<Rightarrow> (console \<Rightarrow> console) \<Rightarrow> ('a constate_scheme, unit) op" where
  "updC c f = modE (\<lambda>s. s\<lparr>console_table := (console_table s)(c := f (console_table s c))\<rparr>)"

definition pokeE :: "addr \<Rightarrow> byte \<Rightarrow> ('a kstate_scheme, unit) op" where
  "pokeE a b = modE (\<lambda>s. s\<lparr>kmem := (kmem s)(a := b)\<rparr>)"

subsection \<open>The video controller\<close>

definition crtc_pair :: "byte \<Rightarrow> byte \<Rightarrow> u32 \<Rightarrow> ('a iostate_scheme, unit) op" where
  "crtc_pair high low a = blockE [
     disable_int,
     out_byte CRTC_ADDR_REG high, out_byte CRTC_DATA_REG (ucast (drop_bit 8 a AND 0xFF)),
     out_byte CRTC_ADDR_REG low, out_byte CRTC_DATA_REG (ucast (a AND 0xFF)),
     enable_int]"

definition set_console_start_addr :: "u32 \<Rightarrow> ('a iostate_scheme, unit) op" where
  "set_console_start_addr a = crtc_pair 0xC 0xD a"

definition set_cursor_location :: "u32 \<Rightarrow> ('a iostate_scheme, unit) op" where
  "set_cursor_location a = crtc_pair 0xE 0xF a"

definition set_cursor_length :: "('a iostate_scheme, unit) op" where
  "set_cursor_length = blockE [
     disable_int,
     out_byte CRTC_ADDR_REG 0xA0, out_byte CRTC_DATA_REG 0x00,
     out_byte CRTC_ADDR_REG 0xB0, out_byte CRTC_DATA_REG 0x61,
     enable_int]"

definition set_cursor :: "u32 \<Rightarrow> ('a iostate_scheme, unit) op" where
  "set_cursor a = bindE (set_cursor_location a) (\<lambda>_. set_cursor_length)"

subsection \<open>Scrolling and output\<close>

definition scroll_screen :: "nat \<Rightarrow> int \<Rightarrow> ('a constate_scheme, unit) op" where
  "scroll_screen c direction =
     bindE (conE c) (\<lambda>con.
     bindE (if direction = SCROLL_UP then
              whenE (begin_adr con \<le> current_start_addr con - SCREEN_WIDETH)
                (updC c (\<lambda>x. x\<lparr>current_start_addr := current_start_addr x - SCREEN_WIDETH\<rparr>))
            else if direction = SCROLL_DOWN then
              whenE (current_start_addr con + SCREEN_WIDETH \<le> begin_adr con + vmem_limit con)
                (updC c (\<lambda>x. x\<lparr>current_start_addr := current_start_addr x + SCREEN_WIDETH\<rparr>))
            else ret ()) (\<lambda>_.
     bindE (conE c) (\<lambda>con.
     bindE (set_console_start_addr (current_start_addr con)) (\<lambda>_.
     set_cursor (cursor_location con)))))"

partial_function (option) scroll_loop ::
    "nat \<Rightarrow> 'a constate_scheme \<Rightarrow> (fault + unit \<times> 'a constate_scheme) option" where
  "scroll_loop c s =
     (if current_start_addr (console_table s c) + SCREEN_SIZE \<le> cursor_location (console_table s c) then
        (case scroll_screen c SCROLL_DOWN s of
           Inl e \<Rightarrow> Some (Inl e)
         | Inr (_, t) \<Rightarrow> scroll_loop c t)
      else Some (Inr ((), s)))"

definition scroll_to_cursor :: "nat \<Rightarrow> ('a constate_scheme, unit) op" where
  "scroll_to_cursor c = (\<lambda>s. case scroll_loop c s of None \<Rightarrow> Inl (Spin ''out_char'') | Some r \<Rightarrow> r)"

definition vmem :: "u32 \<Rightarrow> addr" where
  "vmem cell = V_MEM_BASE + cell * 2"

definition put_cell :: "addr \<Rightarrow> byte \<Rightarrow> ('a kstate_scheme, unit) op" where
  "put_cell a ch = bindE (pokeE a ch) (\<lambda>_. pokeE (a + 1) COLOR)"

text \<open>The \<open>switch\<close> of \<open>out_char\<close>, then \<open>out_char\<close> itself.\<close>

definition out_switch :: "nat \<Rightarrow> byte \<Rightarrow> ('a constate_scheme, unit) op" where
  "out_switch c ch =
     bindE (conE c) (\<lambda>con.
     let vmem_p = vmem (cursor_location con) in
     if ch = 0x0A then
       whenE (cursor_location con + SCREEN_WIDETH < begin_adr con + vmem_limit con)
         (let line = (cursor_location con - begin_adr con) div SCREEN_WIDETH + 1 in
          updC c (\<lambda>x. x\<lparr>cursor_location := line * SCREEN_WIDETH + begin_adr x\<rparr>))
     else if ch = 0x08 then
       whenE (begin_adr con < cursor_location con)
         (bindE (updC c (\<lambda>x. x\<lparr>cursor_location := cursor_location x - 1\<rparr>)) (\<lambda>_.
          bindE (pokeE (vmem_p - 2) 0x20) (\<lambda>_. pokeE (vmem_p - 1) COLOR)))
     else if cursor_location con < begin_adr con + vmem_limit con then
       bindE (put_cell vmem_p ch) (\<lambda>_. updC c (\<lambda>x. x\<lparr>cursor_location := cursor_location x + 1\<rparr>))
     else
       bindE (updC c (\<lambda>x. x\<lparr>cursor_location := begin_adr x\<rparr>)) (\<lambda>_.
       put_cell (vmem (begin_adr con)) ch))"

definition out_char :: "nat \<Rightarrow> byte \<Rightarrow> ('a constate_scheme, unit) op" where
  "out_char c ch =
     bindE (modE (\<lambda>s. s\<lparr>disp_pos := 0\<rparr>)) (\<lambda>_.
     bindE (out_switch c ch) (\<lambda>_.
     bindE (scroll_to_cursor c) (\<lambda>_.
     bindE (conE c) (\<lambda>con.
     set_cursor (cursor_location con)))))"

text \<open>Where the cursor of a new console is: after the boot messages, or after its prompt.\<close>

definition init_cursor :: "nat \<Rightarrow> ('a constate_scheme, unit) op" where
  "init_cursor c =
     (if c = 0 then
        bindE (getsE disp_pos) (\<lambda>d. updC c (\<lambda>x. x\<lparr>cursor_location := u32_int (c_div d 2)\<rparr>))
      else
        bindE (out_char c (of_nat c + 0x30)) (\<lambda>_. out_char c 0x23))"

definition init_console :: "nat \<Rightarrow> ('a constate_scheme, unit) op" where
  "init_console c =
     bindE (conE c) (\<lambda>_.
     let video_in_double_bytes = c_div V_MEM_SIZE 2;
         limit = u32_int (c_div video_in_double_bytes (int NR_CONSOLES));
         base = limit * of_nat c
     in
     bindE (updC c (\<lambda>_. \<lparr>begin_adr = base, current_start_addr = base, cursor_location = base, vmem_limit = limit\<rparr>)) (\<lambda>_.
     bindE (init_cursor c) (\<lambda>_.
     bindE (conE c) (\<lambda>con.
     bindE (set_console_start_addr (current_start_addr con)) (\<lambda>_.
     set_cursor (cursor_location con))))))"

definition switch_console :: "nat \<Rightarrow> ('a constate_scheme, unit) op" where
  "switch_console c =
     (if NR_CONSOLES \<le> c then ret ()
      else bindE (modE (\<lambda>s. s\<lparr>current_tty := c\<rparr>)) (\<lambda>_.
           bindE (conE c) (\<lambda>con.
           bindE (set_cursor (cursor_location con)) (\<lambda>_.
           set_console_start_addr (current_start_addr con)))))"

subsection \<open>What a console promises\<close>

text \<open>
  The window of a console lies in the video memory; the first cell shown and the cursor lie
  in the window, or just behind it.
\<close>

definition con_ok :: "console \<Rightarrow> bool" where
  "con_ok x = (unat (begin_adr x) + unat (vmem_limit x) \<le> 16384 \<and> 0 < vmem_limit x \<and>
     unat (begin_adr x) \<le> unat (current_start_addr x) \<and>
     unat (current_start_addr x) \<le> unat (begin_adr x) + unat (vmem_limit x) \<and>
     unat (begin_adr x) \<le> unat (cursor_location x) \<and>
     unat (cursor_location x) \<le> unat (begin_adr x) + unat (vmem_limit x))"

text \<open>
  The abstract console: the cursor and the first cell shown, counted from the start of the
  window, and the characters of the window.
\<close>

record screen =
  sc_limit :: nat
  sc_cur :: nat
  sc_top :: nat
  sc_cells :: "nat \<Rightarrow> byte"

definition scrolls :: "nat \<Rightarrow> nat" where
  "scrolls d = (if d < 2000 then 0 else (d - 2000) div 80 + 1)"

definition screen_put :: "byte \<Rightarrow> screen \<Rightarrow> screen" where
  "screen_put ch x =
     (if ch = 0x0A then
        (if sc_cur x + 80 < sc_limit x then x\<lparr>sc_cur := (sc_cur x div 80 + 1) * 80\<rparr> else x)
      else if ch = 0x08 then
        (if 0 < sc_cur x then x\<lparr>sc_cur := sc_cur x - 1, sc_cells := (sc_cells x)(sc_cur x - 1 := 0x20)\<rparr> else x)
      else if sc_cur x < sc_limit x then x\<lparr>sc_cur := sc_cur x + 1, sc_cells := (sc_cells x)(sc_cur x := ch)\<rparr>
      else x\<lparr>sc_cur := 0, sc_cells := (sc_cells x)(0 := ch)\<rparr>)"

definition screen_scroll :: "screen \<Rightarrow> screen" where
  "screen_scroll x = x\<lparr>sc_top := sc_top x + 80 * scrolls (sc_cur x - sc_top x)\<rparr>"

definition window :: "console \<Rightarrow> mem \<Rightarrow> nat \<Rightarrow> byte" where
  "window x m k = (if k < unat (vmem_limit x) then m (vmem (begin_adr x + of_nat k)) else 0)"

definition screen_of :: "'a constate_scheme \<Rightarrow> nat \<Rightarrow> screen" where
  "screen_of s c = (let x = console_table s c in
     \<lparr> sc_limit = unat (vmem_limit x), sc_cur = unat (cursor_location x) - unat (begin_adr x),
       sc_top = unat (current_start_addr x) - unat (begin_adr x), sc_cells = window x (kmem s) \<rparr>)"

definition window_bytes :: "console \<Rightarrow> addr set" where
  "window_bytes x = {a. unat V_MEM_BASE + 2 * unat (begin_adr x) \<le> unat a \<and>
     unat a < unat V_MEM_BASE + 2 * (unat (begin_adr x) + unat (vmem_limit x))}"

subsection \<open>The controller's registers\<close>

lemma crtc_pair_ok: "\<exists>l. crtc_pair h lo a s = Inr ((), s\<lparr>io_log := l, int_enabled := True\<rparr>)"
  by (simp add: crtc_pair_def bindE_def op_defs io_defs disable_int_def enable_int_def) (rule exI, rule refl)

lemma set_start_ok: "\<exists>l. set_console_start_addr a s = Inr ((), s\<lparr>io_log := l, int_enabled := True\<rparr>)"
  unfolding set_console_start_addr_def by (rule crtc_pair_ok)

lemma set_cursor_ok: "\<exists>l. set_cursor a s = Inr ((), s\<lparr>io_log := l, int_enabled := True\<rparr>)"
proof -
  obtain l where "set_cursor_location a s = Inr ((), s\<lparr>io_log := l, int_enabled := True\<rparr>)"
    unfolding set_cursor_location_def using crtc_pair_ok by blast
  then show ?thesis
    by (simp add: set_cursor_def set_cursor_length_def bindE_def op_defs io_defs disable_int_def enable_int_def)
       (rule exI, rule refl)
qed

lemma scroll_down_ok:
  assumes "c < NR_CONSOLES" "x = console_table s c"
    "current_start_addr x + SCREEN_WIDETH \<le> begin_adr x + vmem_limit x"
  shows "\<exists>l. scroll_screen c SCROLL_DOWN s = Inr ((), s\<lparr>console_table := (console_table s)
    (c := x\<lparr>current_start_addr := current_start_addr x + SCREEN_WIDETH\<rparr>), io_log := l, int_enabled := True\<rparr>)"
proof -
  let ?s = "s\<lparr>console_table := (console_table s)(c := x\<lparr>current_start_addr := current_start_addr x + SCREEN_WIDETH\<rparr>)\<rparr>"
  obtain l where l: "set_console_start_addr (current_start_addr x + SCREEN_WIDETH) ?s =
      Inr ((), ?s\<lparr>io_log := l, int_enabled := True\<rparr>)"
    using set_start_ok by blast
  obtain l' where "set_cursor (cursor_location x) (?s\<lparr>io_log := l, int_enabled := True\<rparr>) =
      Inr ((), ?s\<lparr>io_log := l, int_enabled := True, io_log := l', int_enabled := True\<rparr>)"
    using set_cursor_ok by blast
  with l assms show ?thesis
    by (auto simp: scroll_screen_def bindE_def conE_def updC_def op_defs)
qed

lemma small_add: "unat (a :: u32) + unat b < 2 ^ 32 \<Longrightarrow> unat (a + b) = unat a + unat b"
  by (simp add: unat_word_ariths)

lemma scrolls_step: "2000 \<le> d \<Longrightarrow> scrolls d = Suc (scrolls (d - 80))"
  by (auto simp: scrolls_def div_if)

text \<open>The loop of \<open>out_char\<close> ends, after as many scrolls as the distance takes.\<close>

lemma scroll_loop_ok:
  assumes "c < NR_CONSOLES" "con_ok (console_table s c)"
    "d = unat (cursor_location (console_table s c)) - unat (current_start_addr (console_table s c))"
  shows "\<exists>l b. scroll_loop c s = Some (Inr ((), s\<lparr>console_table := (console_table s)
    (c := (console_table s c)\<lparr>current_start_addr := current_start_addr (console_table s c) + of_nat (80 * scrolls d)\<rparr>),
     io_log := l, int_enabled := b\<rparr>))"
  using assms
proof (induction d arbitrary: s rule: less_induct)
  case (less d)
  let ?x = "console_table s c"
  have b: "unat (begin_adr ?x) + unat (vmem_limit ?x) \<le> 16384"
    "unat (current_start_addr ?x) \<le> unat (begin_adr ?x) + unat (vmem_limit ?x)"
    "unat (cursor_location ?x) \<le> unat (begin_adr ?x) + unat (vmem_limit ?x)"
    "unat (begin_adr ?x) \<le> unat (current_start_addr ?x)"
    using less.prems(2) by (simp_all add: con_ok_def)
  have u: "unat (current_start_addr ?x + SCREEN_SIZE) = unat (current_start_addr ?x) + 2000"
    "unat (current_start_addr ?x + SCREEN_WIDETH) = unat (current_start_addr ?x) + 80"
    "unat (begin_adr ?x + vmem_limit ?x) = unat (begin_adr ?x) + unat (vmem_limit ?x)"
    using b by (subst small_add; simp)+
  have cond: "(current_start_addr ?x + SCREEN_SIZE \<le> cursor_location ?x) = (2000 \<le> d)"
    using u less.prems(3) by (simp add: word_le_nat_alt) linarith
  show ?case
  proof (cases "2000 \<le> d")
    case False
    then have "scroll_loop c s = Some (Inr ((), s))"
      using cond by (subst scroll_loop.simps) simp
    moreover have "s = s\<lparr>console_table := (console_table s)(c := ?x\<lparr>current_start_addr := current_start_addr ?x + of_nat (80 * scrolls d)\<rparr>),
        io_log := io_log s, int_enabled := int_enabled s\<rparr>"
      using False by (simp add: scrolls_def)
    ultimately show ?thesis by metis
  next
    case True
    have "current_start_addr ?x + SCREEN_WIDETH \<le> begin_adr ?x + vmem_limit ?x"
      using True u b less.prems(3) by (simp add: word_le_nat_alt)
    from scroll_down_ok[OF less.prems(1) refl this] obtain l where
      sc: "scroll_screen c SCROLL_DOWN s = Inr ((), s\<lparr>console_table := (console_table s)
        (c := ?x\<lparr>current_start_addr := current_start_addr ?x + SCREEN_WIDETH\<rparr>), io_log := l, int_enabled := True\<rparr>)"
      (is "_ = Inr ((), ?t)") by blast
    have ok: "con_ok (console_table ?t c)"
      using less.prems(2) True less.prems(3) u by (auto simp: con_ok_def)
    have d: "d - 80 = unat (cursor_location (console_table ?t c)) - unat (current_start_addr (console_table ?t c))"
      using less.prems(3) u by simp
    have "d - 80 < d" using True by simp
    from less.IH[OF this less.prems(1) ok d] obtain l' b' where
      "scroll_loop c ?t = Some (Inr ((), ?t\<lparr>console_table := (console_table ?t)
        (c := (console_table ?t c)\<lparr>current_start_addr := current_start_addr (console_table ?t c) + of_nat (80 * scrolls (d - 80))\<rparr>),
         io_log := l', int_enabled := b'\<rparr>))" by blast
    moreover have "current_start_addr ?x + 80 + of_nat (80 * scrolls (d - 80)) = current_start_addr ?x + of_nat (80 * scrolls d)"
      using scrolls_step[OF True] by (simp add: algebra_simps)
    ultimately have "scroll_loop c s = Some (Inr ((), s\<lparr>console_table := (console_table s)
      (c := ?x\<lparr>current_start_addr := current_start_addr ?x + of_nat (80 * scrolls d)\<rparr>), io_log := l', int_enabled := b'\<rparr>))"
      using cond True sc by (subst scroll_loop.simps) (simp add: add.assoc)
    then show ?thesis by blast
  qed
qed

subsection \<open>One character\<close>

text \<open>What an operation on console \<open>c\<close> may change.\<close>

definition con_frame :: "nat \<Rightarrow> 'a constate_scheme \<Rightarrow> 'a constate_scheme \<Rightarrow> bool" where
  "con_frame c s t = (t = s\<lparr>int_enabled := int_enabled t, kmem := kmem t, io_log := io_log t, disp_pos := disp_pos t,
       console_table := (console_table s)(c := console_table t c)\<rparr> \<and>
     begin_adr (console_table t c) = begin_adr (console_table s c) \<and>
     vmem_limit (console_table t c) = vmem_limit (console_table s c) \<and>
     (\<forall>a. a \<notin> window_bytes (console_table s c) \<longrightarrow> kmem t a = kmem s a))"

lemma con_frame_trans: "con_frame c s t \<Longrightarrow> con_frame c t u \<Longrightarrow> con_frame c s u"
  unfolding con_frame_def window_bytes_def by (cases s, cases t, cases u) (simp, metis fun_upd_upd)

lemma unat_cell:
  assumes "con_ok x" "k < unat (vmem_limit x)"
  shows "unat (vmem (begin_adr x + of_nat k)) = unat V_MEM_BASE + 2 * (unat (begin_adr x) + k)"
proof -
  have b: "unat (begin_adr x) + k < 16384"
    using assms by (simp add: con_ok_def)
  then have "unat (of_nat k :: u32) = k"
    by (simp add: unat_of_nat)
  then have "unat (begin_adr x + of_nat k) = unat (begin_adr x) + k"
    using b by (subst small_add) simp_all
  moreover have "unat (vmem q) = unat V_MEM_BASE + 2 * unat q" if "unat q < 16384" for q
    using that by (simp add: vmem_def unat_word_ariths)
  ultimately show ?thesis using b by simp
qed

lemma cell_color: "con_ok x \<Longrightarrow> k < unat (vmem_limit x) \<Longrightarrow>
   unat (vmem (begin_adr x + of_nat k) + 1) = unat V_MEM_BASE + 2 * (unat (begin_adr x) + k) + 1"
  using unat_cell[of x k] by (subst small_add) (auto simp: con_ok_def)

lemma window_put:
  assumes "con_ok x" "k < unat (vmem_limit x)"
  shows "window x (m(vmem (begin_adr x + of_nat k) := ch, vmem (begin_adr x + of_nat k) + 1 := col)) =
     (window x m)(k := ch)"
proof
  fix j
  show "window x (m(vmem (begin_adr x + of_nat k) := ch, vmem (begin_adr x + of_nat k) + 1 := col)) j =
     ((window x m)(k := ch)) j"
  proof (cases "j < unat (vmem_limit x)")
    case True
    have "vmem (begin_adr x + of_nat j) = vmem (begin_adr x + of_nat k) \<longleftrightarrow> j = k"
      using unat_cell[OF assms] unat_cell[OF assms(1) True] by auto
    moreover have "unat (vmem (begin_adr x + of_nat j)) \<noteq> unat (vmem (begin_adr x + of_nat k) + 1)"
      unfolding unat_cell[OF assms(1) True] cell_color[OF assms] by presburger
    ultimately show ?thesis using True by (auto simp: window_def)
  qed (use assms(2) in \<open>auto simp: window_def\<close>)
qed

lemma window_put_outside:
  assumes "con_ok x" "k < unat (vmem_limit x)" "a \<notin> window_bytes x"
  shows "a \<noteq> vmem (begin_adr x + of_nat k)" "a \<noteq> vmem (begin_adr x + of_nat k) + 1"
  using assms(3) unat_cell[OF assms(1,2)] cell_color[OF assms(1,2)] assms(2)
  by (auto simp: window_bytes_def)

lemma screen_of_eq:
  "screen_of t c = \<lparr> sc_limit = unat (vmem_limit (console_table t c)),
     sc_cur = unat (cursor_location (console_table t c)) - unat (begin_adr (console_table t c)),
     sc_top = unat (current_start_addr (console_table t c)) - unat (begin_adr (console_table t c)),
     sc_cells = window (console_table t c) (kmem t) \<rparr>"
  by (simp add: screen_of_def Let_def)

lemma window_cong: "begin_adr x = begin_adr y \<Longrightarrow> vmem_limit x = vmem_limit y \<Longrightarrow> window x m = window y m"
  by (simp add: window_def fun_eq_iff)

lemma unat_line:
  assumes "con_ok x" "unat (cursor_location x) + 80 < unat (begin_adr x) + unat (vmem_limit x)"
  shows "unat (((cursor_location x - begin_adr x) div SCREEN_WIDETH + 1) * SCREEN_WIDETH + begin_adr x) =
     unat (begin_adr x) + ((unat (cursor_location x) - unat (begin_adr x)) div 80 + 1) * 80"
proof -
  define d where "d = cursor_location x - begin_adr x"
  have d: "unat d = unat (cursor_location x) - unat (begin_adr x)"
    unfolding d_def using assms(1) by (simp add: con_ok_def unat_sub word_le_nat_alt)
  then have "unat d < 16384" using assms unfolding con_ok_def by linarith
  then have "unat ((d div SCREEN_WIDETH + 1) * SCREEN_WIDETH) = (unat d div 80 + 1) * 80"
    by (simp add: unat_word_ariths unat_div)
  moreover have "(unat d div 80 + 1) * 80 + unat (begin_adr x) < 2 ^ 32"
  proof -
    define q where "q = unat d div 80"
    have "q * 80 \<le> unat d" by (simp add: q_def)
    moreover have "unat (begin_adr x) \<le> 16384" using assms(1) by (simp add: con_ok_def)
    ultimately show ?thesis
      using \<open>unat d < 16384\<close> unfolding q_def[symmetric] by simp
  qed
  ultimately show ?thesis
    unfolding d_def[symmetric] by (subst small_add) (simp_all add: d)
qed

lemma con_bounds:
  assumes "con_ok x"
  shows "unat (begin_adr x) + unat (vmem_limit x) \<le> 16384" "unat (begin_adr x) \<le> unat (cursor_location x)"
    "unat (cursor_location x) \<le> unat (begin_adr x) + unat (vmem_limit x)" "0 < unat (vmem_limit x)"
    "unat (begin_adr x + vmem_limit x) = unat (begin_adr x) + unat (vmem_limit x)"
    "unat (cursor_location x + SCREEN_WIDETH) = unat (cursor_location x) + 80"
    "cursor_location x = begin_adr x + of_nat (unat (cursor_location x) - unat (begin_adr x))"
proof -
  show b: "unat (begin_adr x) + unat (vmem_limit x) \<le> 16384" "unat (begin_adr x) \<le> unat (cursor_location x)"
    "unat (cursor_location x) \<le> unat (begin_adr x) + unat (vmem_limit x)" "0 < unat (vmem_limit x)"
    using assms by (simp_all add: con_ok_def word_less_nat_alt)
  show "unat (begin_adr x + vmem_limit x) = unat (begin_adr x) + unat (vmem_limit x)"
    "unat (cursor_location x + SCREEN_WIDETH) = unat (cursor_location x) + 80"
    using b by (subst small_add; simp)+
  show "cursor_location x = begin_adr x + of_nat (unat (cursor_location x) - unat (begin_adr x))"
    using b(2) by (simp add: of_nat_diff)
qed

lemmas out_switch_defs = out_switch_def bindE_def conE_def updC_def op_defs pokeE_def put_cell_def

text \<open>What the \<open>switch\<close> of \<open>out_char\<close> leaves to show in each of its cases.\<close>

definition put_done :: "nat \<Rightarrow> byte \<Rightarrow> 'a constate_scheme \<Rightarrow> bool" where
  "put_done c ch s = (\<exists>t. out_switch c ch s = Inr ((), t) \<and> con_frame c s t \<and> con_ok (console_table t c) \<and>
    screen_of t c = screen_put ch (screen_of s c))"

lemma put_doneI:
  "out_switch c ch s = Inr ((), t) \<Longrightarrow> con_frame c s t \<Longrightarrow> con_ok (console_table t c) \<Longrightarrow>
    screen_of t c = screen_put ch (screen_of s c) \<Longrightarrow> put_done c ch s"
  unfolding put_done_def by blast

lemma out_newline_ok:
  assumes c: "c < NR_CONSOLES" and ok: "con_ok (console_table s c)" and nl: "ch = 0x0A"
  shows "put_done c ch s"
proof -
  let ?x = "console_table s c"
  define k where "k = unat (cursor_location ?x) - unat (begin_adr ?x)"
  note b = con_bounds(1-4)[OF ok] and u = con_bounds(5,6)[OF ok] and cur = con_bounds(7)[OF ok, folded k_def]
  show ?thesis
  proof (cases "unat (cursor_location ?x) + 80 < unat (begin_adr ?x) + unat (vmem_limit ?x)")
    case True
    let ?y = "?x\<lparr>cursor_location := ((cursor_location ?x - begin_adr ?x) div SCREEN_WIDETH + 1) * SCREEN_WIDETH + begin_adr ?x\<rparr>"
    let ?t = "s\<lparr>console_table := (console_table s)(c := ?y)\<rparr>"
    have le: "(k div 80 + 1) * 80 \<le> k + 80" by simp
    have uy: "unat (cursor_location ?y) = unat (begin_adr ?x) + (k div 80 + 1) * 80"
      using unat_line[OF ok True] by (simp add: k_def)
    have "out_switch c ch s = Inr ((), ?t)"
      using nl c True u by (simp add: out_switch_defs word_less_nat_alt Let_def)
    moreover have "con_ok ?y"
      using ok uy le True unfolding con_ok_def k_def by simp
    moreover have "screen_of ?t c = screen_put ch (screen_of s c)"
      using nl True b(2) uy by (simp add: screen_of_eq screen_put_def k_def window_def fun_eq_iff)
    ultimately show ?thesis by (intro put_doneI[of _ _ _ ?t]) (simp_all add: con_frame_def)
  next
    case False
    then have "out_switch c ch s = Inr ((), s)"
      using nl c u by (simp add: out_switch_defs word_less_nat_alt)
    moreover have "screen_of s c = screen_put ch (screen_of s c)"
      using nl False b(2) by (simp add: screen_of_eq screen_put_def)
    ultimately show ?thesis using ok by (intro put_doneI[of _ _ _ s]) (simp_all add: con_frame_def)
  qed
qed

lemma out_backspace_ok:
  assumes c: "c < NR_CONSOLES" and ok: "con_ok (console_table s c)" and bs: "ch = 0x08"
  shows "put_done c ch s"
proof -
  let ?x = "console_table s c"
  define k where "k = unat (cursor_location ?x) - unat (begin_adr ?x)"
  note b = con_bounds(1-4)[OF ok] and u = con_bounds(5,6)[OF ok] and cur = con_bounds(7)[OF ok, folded k_def]
  show ?thesis
  proof (cases "0 < k")
    case True
    let ?y = "?x\<lparr>cursor_location := cursor_location ?x - 1\<rparr>"
    have km: "k - 1 < unat (vmem_limit ?x)" using b True by (simp add: k_def)
    have one: "of_nat (k - 1) = of_nat k - (1 :: u32)" using True by (simp add: of_nat_diff)
    have va: "vmem (cursor_location ?x) - 2 = vmem (begin_adr ?x + of_nat (k - 1))"
      "vmem (cursor_location ?x) - 1 = vmem (begin_adr ?x + of_nat (k - 1)) + 1"
      unfolding cur one by (simp_all add: vmem_def algebra_simps)
    let ?m = "(kmem s)(vmem (begin_adr ?x + of_nat (k - 1)) := 0x20, vmem (begin_adr ?x + of_nat (k - 1)) + 1 := COLOR)"
    let ?t = "s\<lparr>kmem := ?m, console_table := (console_table s)(c := ?y)\<rparr>"
    have uy: "unat (cursor_location ?y) = unat (begin_adr ?x) + (k - 1)"
      using True b(2) by (simp add: k_def unat_sub word_le_nat_alt unat_gt_0)
    have "out_switch c ch s = Inr ((), ?t)"
      using bs c True va by (simp add: out_switch_defs word_less_nat_alt k_def add.commute)
    moreover have "con_ok ?y"
      using ok uy True b unfolding con_ok_def k_def by (simp, intro conjI; linarith)
    moreover have "screen_of ?t c = screen_put ch (screen_of s c)"
      using bs True b(2) uy window_put[OF ok km, of "kmem s" "0x20" COLOR]
      by (simp add: screen_of_eq screen_put_def k_def window_cong[of ?y ?x])
    ultimately show ?thesis
      using window_put_outside[OF ok km] by (intro put_doneI[of _ _ _ ?t]) (simp_all add: con_frame_def)
  next
    case False
    then have "out_switch c ch s = Inr ((), s)"
      using bs c b(2) by (simp add: out_switch_defs word_less_nat_alt k_def)
    moreover have "screen_of s c = screen_put ch (screen_of s c)"
      using bs False by (simp add: screen_of_eq screen_put_def k_def)
    ultimately show ?thesis using ok by (intro put_doneI[of _ _ _ s]) (simp_all add: con_frame_def)
  qed
qed

lemma out_plain_ok:
  assumes c: "c < NR_CONSOLES" and ok: "con_ok (console_table s c)" and char: "ch \<noteq> 0x0A" "ch \<noteq> 0x08"
  shows "put_done c ch s"
proof -
  let ?x = "console_table s c"
  define k where "k = unat (cursor_location ?x) - unat (begin_adr ?x)"
  note b = con_bounds(1-4)[OF ok] and u = con_bounds(5,6)[OF ok] and cur = con_bounds(7)[OF ok, folded k_def]
  show ?thesis
  proof (cases "k < unat (vmem_limit ?x)")
    case True
    let ?y = "?x\<lparr>cursor_location := cursor_location ?x + 1\<rparr>"
    let ?m = "(kmem s)(vmem (begin_adr ?x + of_nat k) := ch, vmem (begin_adr ?x + of_nat k) + 1 := COLOR)"
    let ?t = "s\<lparr>kmem := ?m, console_table := (console_table s)(c := ?y)\<rparr>"
    have uy: "unat (cursor_location ?y) = unat (begin_adr ?x) + (k + 1)"
      using b True by (simp add: k_def) (subst small_add; simp)
    have "cursor_location ?x < begin_adr ?x + vmem_limit ?x"
      using True u b(2) by (simp add: word_less_nat_alt k_def)
    then have "out_switch c ch s = Inr ((), ?t)"
      using char c by (simp add: out_switch_defs flip: cur)
    moreover have "con_ok ?y"
      using ok uy True b by (simp add: con_ok_def k_def)
    moreover have "screen_of ?t c = screen_put ch (screen_of s c)"
      using char True b(2) uy window_put[OF ok True, of "kmem s" ch COLOR]
      by (simp add: screen_of_eq screen_put_def k_def window_cong[of ?y ?x])
    ultimately show ?thesis
      using window_put_outside[OF ok True] by (intro put_doneI[of _ _ _ ?t]) (simp_all add: con_frame_def)
  next
    case False
    let ?y = "?x\<lparr>cursor_location := begin_adr ?x\<rparr>"
    let ?m = "(kmem s)(vmem (begin_adr ?x) := ch, vmem (begin_adr ?x) + 1 := COLOR)"
    let ?t = "s\<lparr>kmem := ?m, console_table := (console_table s)(c := ?y)\<rparr>"
    have "out_switch c ch s = Inr ((), ?t)"
      using char c False u b(2) by (simp add: out_switch_defs word_less_nat_alt k_def)
    moreover have "con_ok ?y"
      using ok by (simp add: con_ok_def)
    moreover have "screen_of ?t c = screen_put ch (screen_of s c)"
      using char False window_put[OF ok b(4), of "kmem s" ch COLOR]
      by (simp add: screen_of_eq screen_put_def k_def window_cong[of ?y ?x])
    ultimately show ?thesis
      using window_put_outside[OF ok b(4)] by (intro put_doneI[of _ _ _ ?t]) (simp_all add: con_frame_def)
  qed
qed

text \<open>
  The \<open>switch\<close> of \<open>out_char\<close> does to the abstract console what \<open>screen_put\<close> does, and
  touches nothing but the console and its window.
\<close>

lemma out_switch_ok:
  assumes c: "c < NR_CONSOLES" and ok: "con_ok (console_table s c)"
  obtains t where "out_switch c ch s = Inr ((), t)" "con_frame c s t" "con_ok (console_table t c)"
    "screen_of t c = screen_put ch (screen_of s c)"
proof -
  have "put_done c ch s"
    using out_newline_ok[OF assms] out_backspace_ok[OF assms] out_plain_ok[OF assms] by blast
  then show ?thesis using that unfolding put_done_def by blast
qed

lemma scrolls_le: "80 * scrolls d \<le> d"
proof (cases "d < 2000")
  case False
  have "(d - 2000) div 80 * 80 \<le> d - 2000" by simp
  then show ?thesis using False by (simp add: scrolls_def)
qed (simp add: scrolls_def)

lemma scrolls_visible: "d - 80 * scrolls d < 2000"
proof (cases "d < 2000")
  case False
  define q where "q = (d - 2000) div 80"
  have "d - 2000 < q * 80 + 80"
    using div_mult_mod_eq[of "d - 2000" 80] mod_less_divisor[of 80 "d - 2000"] unfolding q_def by linarith
  then show ?thesis using False unfolding scrolls_def q_def[symmetric] by simp
qed (simp add: scrolls_def)

lemma screen_scroll_visible: "sc_cur (screen_scroll x) < sc_top (screen_scroll x) + 2000"
  using scrolls_visible[of "sc_cur x - sc_top x"] by (simp add: screen_scroll_def)

lemma con_frameD:
  assumes "con_frame c s t"
  shows "console_table t = (console_table s)(c := console_table t c)" "proc_table t = proc_table s"
    "current_tty t = current_tty s" "constate.more t = constate.more s"
    "a \<notin> window_bytes (console_table s c) \<Longrightarrow> kmem t a = kmem s a"
  using assms unfolding con_frame_def by (cases s, cases t, simp)+

lemma con_frame_refl [simp]: "con_frame c s s"
  by (simp add: con_frame_def)

lemma con_frame_io: "con_frame c s (s\<lparr>io_log := l, int_enabled := b\<rparr>)"
  by (simp add: con_frame_def)

lemma scroll_to_cursor_ok:
  assumes c: "c < NR_CONSOLES" and ok: "con_ok (console_table s c)"
  obtains t where "scroll_to_cursor c s = Inr ((), t)" "con_frame c s t" "con_ok (console_table t c)"
    "screen_of t c = screen_scroll (screen_of s c)"
proof -
  let ?x = "console_table s c"
  define d where "d = unat (cursor_location ?x) - unat (current_start_addr ?x)"
  let ?y = "?x\<lparr>current_start_addr := current_start_addr ?x + of_nat (80 * scrolls d)\<rparr>"
  obtain l b where l: "scroll_loop c s = Some (Inr ((), s\<lparr>console_table := (console_table s)(c := ?y),
      io_log := l, int_enabled := b\<rparr>))" (is "_ = Some (Inr ((), ?t))")
    using scroll_loop_ok[OF c ok d_def] by blast
  have bd: "unat (current_start_addr ?x) \<le> 16384" "unat (cursor_location ?x) \<le> 16384"
    using ok by (auto simp: con_ok_def)
  have le: "80 * scrolls d \<le> d" "d \<le> 16384" using scrolls_le bd by (auto simp: d_def)
  then have "unat (of_nat (80 * scrolls d) :: u32) = 80 * scrolls d"
    by (simp add: unat_of_nat del: of_nat_mult)
  then have uy: "unat (current_start_addr ?y) = unat (current_start_addr ?x) + 80 * scrolls d"
    using bd le by (simp del: of_nat_mult) (subst small_add; simp)
  have "con_ok ?y"
    using ok uy le(1) by (cases "scrolls d = 0") (auto simp: con_ok_def d_def)
  moreover have "screen_of ?t c = screen_scroll (screen_of s c)"
  proof -
    have "(unat (cursor_location ?x) - unat (begin_adr ?x)) - (unat (current_start_addr ?x) - unat (begin_adr ?x)) = d"
      using ok by (auto simp: con_ok_def d_def)
    moreover have "window ?y m = window ?x m" for m by (rule window_cong) simp_all
    ultimately show ?thesis
      using uy ok by (simp add: screen_of_eq screen_scroll_def con_ok_def del: of_nat_mult)
  qed
  moreover have "con_frame c s ?t" by (simp add: con_frame_def)
  ultimately show ?thesis
    by (intro that[of ?t]) (simp_all add: scroll_to_cursor_def l)
qed

text \<open>A whole \<open>out_char\<close>.\<close>

lemma out_char_ok:
  assumes c: "c < NR_CONSOLES" and ok: "con_ok (console_table s c)"
  obtains t where "out_char c ch s = Inr ((), t)" "con_frame c s t" "con_ok (console_table t c)"
    "screen_of t c = screen_scroll (screen_put ch (screen_of s c))"
proof -
  let ?a = "s\<lparr>disp_pos := 0\<rparr>"
  have ok': "con_ok (console_table ?a c)" and fr: "con_frame c s ?a" and sa: "screen_of ?a c = screen_of s c"
    using ok by (simp_all add: con_frame_def screen_of_def)
  obtain t where t: "out_switch c ch ?a = Inr ((), t)" "con_frame c ?a t" "con_ok (console_table t c)"
    "screen_of t c = screen_put ch (screen_of ?a c)"
    by (rule out_switch_ok[OF c ok'])
  obtain u where u: "scroll_to_cursor c t = Inr ((), u)" "con_frame c t u" "con_ok (console_table u c)"
    "screen_of u c = screen_scroll (screen_of t c)"
    by (rule scroll_to_cursor_ok[OF c t(3)])
  obtain l where l: "set_cursor (cursor_location (console_table u c)) u = Inr ((), u\<lparr>io_log := l, int_enabled := True\<rparr>)"
    using set_cursor_ok by blast
  have "out_char c ch s = Inr ((), u\<lparr>io_log := l, int_enabled := True\<rparr>)"
    using c t(1) u(1) l by (simp add: out_char_def bindE_def conE_def op_defs)
  moreover have "con_frame c s (u\<lparr>io_log := l, int_enabled := True\<rparr>)"
    by (rule con_frame_trans[OF con_frame_trans[OF con_frame_trans[OF fr t(2)] u(2)] con_frame_io])
  moreover have "screen_of (u\<lparr>io_log := l, int_enabled := True\<rparr>) c = screen_of u c"
    by (simp add: screen_of_def)
  ultimately show ?thesis
    using u(3,4) t(4) sa by (intro that[of "u\<lparr>io_log := l, int_enabled := True\<rparr>"]) simp_all
qed

text \<open>
  C12. \<open>out_char\<close> always returns: its scrolling loop ends. It does to the console what the
  abstract screen does (newline, backspace, printing, wrapping at the end of the window, then
  scrolling by whole lines until the cursor is visible), keeps the console well-formed, leaves
  the cursor not below the 25 lines shown (after a wrap it is above them, for the code does not
  scroll back), and writes no byte of memory outside the console's own window.
\<close>

theorem out_char_refines:
  assumes "c < NR_CONSOLES" "con_ok (console_table s c)"
  shows "\<exists>t. out_char c ch s = Inr ((), t) \<and>
    screen_of t c = screen_scroll (screen_put ch (screen_of s c)) \<and>
    con_ok (console_table t c) \<and>
    sc_cur (screen_of t c) < sc_top (screen_of t c) + 2000 \<and>
    (\<forall>a. a \<notin> window_bytes (console_table s c) \<longrightarrow> kmem t a = kmem s a) \<and>
    (\<forall>d. d \<noteq> c \<longrightarrow> console_table t d = console_table s d) \<and> proc_table t = proc_table s"
proof -
  obtain t where t: "out_char c ch s = Inr ((), t)" "con_frame c s t" "con_ok (console_table t c)"
    "screen_of t c = screen_scroll (screen_put ch (screen_of s c))"
    by (rule out_char_ok[OF assms])
  then show ?thesis
    using screen_scroll_visible[of "screen_put ch (screen_of s c)"] con_frameD[OF t(2)]
    by (metis fun_upd_other)
qed

text \<open>A state in which console \<open>c\<close> has its window and nothing is on the screen.\<close>

definition idle_con :: constate where
  "idle_con = iostate.extend idle_io (constate.fields
     (\<lambda>c. \<lparr>begin_adr = 5461 * of_nat c, current_start_addr = 5461 * of_nat c,
        cursor_location = 5461 * of_nat c, vmem_limit = 5461\<rparr>) 0)"

lemma idle_con_fields [simp]:
  "console_table idle_con c = \<lparr>begin_adr = 5461 * of_nat c, current_start_addr = 5461 * of_nat c,
     cursor_location = 5461 * of_nat c, vmem_limit = 5461\<rparr>"
  "kmem idle_con = (\<lambda>_. 0)" "disp_pos idle_con = 0" "proc_table idle_con = (\<lambda>_. idle_proc)"
  by (simp_all add: idle_con_def idle_io_def idle_state_def constate.fields_def iostate.defs kstate.defs)

theorem out_char_refines_witness:
  "\<exists>t. out_char 1 0x41 idle_con = Inr ((), t) \<and> sc_cur (screen_of t 1) = 1 \<and> sc_cells (screen_of t 1) 0 = 0x41"
proof -
  have "con_ok (console_table idle_con 1)" by (simp add: con_ok_def)
  moreover have "sc_cur (screen_of idle_con 1) = 0" "sc_limit (screen_of idle_con 1) = 5461"
    by (simp_all add: screen_of_def)
  ultimately show ?thesis
    using out_char_refines[of 1 idle_con "0x41"] by (auto simp: screen_put_def screen_scroll_def)
qed

subsection \<open>Bringing the consoles up\<close>

lemma limit_5461: "c_div (c_div V_MEM_SIZE 2) (int NR_CONSOLES) = 5461"
  by simp

lemma fresh_con_ok:
  assumes "c < NR_CONSOLES" "k \<le> 5461"
  shows "con_ok \<lparr>begin_adr = 5461 * of_nat c, current_start_addr = 5461 * of_nat c,
     cursor_location = 5461 * of_nat c + of_nat k, vmem_limit = 5461\<rparr>"
proof -
  have "unat (5461 * of_nat c :: u32) = 5461 * c"
    using assms(1) by (simp add: unat_word_ariths unat_of_nat)
  moreover have "unat (of_nat k :: u32) = k"
    using assms(2) by (simp add: unat_of_nat)
  moreover have "unat (5461 * of_nat c + of_nat k :: u32) = 5461 * c + k"
    using assms calculation by (subst small_add) simp_all
  ultimately show ?thesis
    using assms by (simp add: con_ok_def)
qed

text \<open>
  \<open>init_console\<close> gives console \<open>c\<close> the \<open>c\<close>-th third of the video memory as its window, so
  the windows do not overlap and lie in the video memory; the console is well-formed, provided
  (for console 0, which continues the boot messages) that the boot messages end in the window;
  the other consoles show their number and a prompt. Nothing outside the window changes.
\<close>

lemma init_console_ok:
  assumes "c < NR_CONSOLES" "c = 0 \<longrightarrow> 0 \<le> disp_pos s \<and> disp_pos s \<le> 2 * 5461"
  shows "\<exists>t. init_console c s = Inr ((), t) \<and> con_ok (console_table t c) \<and>
    window_bytes (console_table t c) = {a. 0xB8000 + 10922 * c \<le> unat a \<and> unat a < 0xB8000 + 10922 * (c + 1)} \<and>
    (0 < c \<longrightarrow> sc_cur (screen_of t c) = 2 \<and> sc_top (screen_of t c) = 0 \<and>
       sc_cells (screen_of t c) 0 = of_nat c + 0x30 \<and> sc_cells (screen_of t c) 1 = 0x23) \<and>
    (\<forall>a. a \<notin> window_bytes (console_table t c) \<longrightarrow> kmem t a = kmem s a) \<and>
    (\<forall>d. d \<noteq> c \<longrightarrow> console_table t d = console_table s d)"
proof -
  let ?x = "\<lparr>begin_adr = 5461 * of_nat c, current_start_addr = 5461 * of_nat c,
     cursor_location = 5461 * of_nat c, vmem_limit = 5461\<rparr> :: console"
  let ?a = "s\<lparr>console_table := (console_table s)(c := ?x)\<rparr>"
  have ok: "con_ok (console_table ?a c)" using fresh_con_ok[OF assms(1), of 0] by simp
  have ub: "unat (5461 * of_nat c :: u32) = 5461 * c"
    using assms(1) by (simp add: unat_word_ariths unat_of_nat)
  have wb: "window_bytes y = {a. 0xB8000 + 10922 * c \<le> unat a \<and> unat a < 0xB8000 + 10922 * (c + 1)}"
    if "begin_adr y = begin_adr ?x" "vmem_limit y = vmem_limit ?x" for y
    using that ub by (auto simp: window_bytes_def)
  obtain b where b: "init_cursor c ?a = Inr ((), b)"
    "con_frame c ?a b" "con_ok (console_table b c)"
    "0 < c \<Longrightarrow> sc_cur (screen_of b c) = 2 \<and> sc_top (screen_of b c) = 0 \<and>
       sc_cells (screen_of b c) 0 = of_nat c + 0x30 \<and> sc_cells (screen_of b c) 1 = 0x23"
  proof (cases "c = 0")
    case True
    define k where "k = nat (disp_pos s div 2)"
    have k: "k \<le> 5461" "u32_int (c_div (disp_pos s) 2) = of_nat k"
      using assms(2) True by (auto simp: k_def u32_int_def)
    show ?thesis
      using fresh_con_ok[OF assms(1) k(1)] True k(2)
      by (intro that[of "?a\<lparr>console_table := (console_table ?a)(c := ?x\<lparr>cursor_location := of_nat k\<rparr>)\<rparr>"])
         (simp_all add: init_cursor_def bindE_def updC_def op_defs con_frame_def)
  next
    case False
    obtain p where p: "out_char c (of_nat c + 0x30) ?a = Inr ((), p)" "con_frame c ?a p" "con_ok (console_table p c)"
      "screen_of p c = screen_scroll (screen_put (of_nat c + 0x30) (screen_of ?a c))"
      by (rule out_char_ok[OF assms(1) ok])
    obtain q where q: "out_char c 0x23 p = Inr ((), q)" "con_frame c p q" "con_ok (console_table q c)"
      "screen_of q c = screen_scroll (screen_put 0x23 (screen_of p c))"
      by (rule out_char_ok[OF assms(1) p(3)])
    have "(of_nat c + 0x30 :: byte) \<noteq> 0x0A" "(of_nat c + 0x30 :: byte) \<noteq> 0x08"
      using False assms(1) by (auto simp: numeral_3_eq_3 less_Suc_eq)
    moreover have "sc_cur (screen_of ?a c) = 0" "sc_top (screen_of ?a c) = 0" "sc_limit (screen_of ?a c) = 5461"
      by (simp_all add: screen_of_def)
    ultimately have "sc_cur (screen_of q c) = 2 \<and> sc_top (screen_of q c) = 0 \<and>
       sc_cells (screen_of q c) 0 = of_nat c + 0x30 \<and> sc_cells (screen_of q c) 1 = 0x23"
      by (simp add: p(4) q(4) screen_put_def screen_scroll_def scrolls_def)
    then show ?thesis
      using False p(1) q(1,3) con_frame_trans[OF p(2) q(2)] by (intro that[of q]) (simp_all add: init_cursor_def bindE_def)
  qed
  obtain l where l: "set_console_start_addr (current_start_addr (console_table b c)) b = Inr ((), b\<lparr>io_log := l, int_enabled := True\<rparr>)"
    using set_start_ok by blast
  obtain l' where l': "set_cursor (cursor_location (console_table b c)) (b\<lparr>io_log := l, int_enabled := True\<rparr>) =
      Inr ((), b\<lparr>io_log := l, int_enabled := True, io_log := l', int_enabled := True\<rparr>)"
    using set_cursor_ok by blast
  let ?t = "b\<lparr>io_log := l', int_enabled := True\<rparr>"
  have "init_console c s = Inr ((), ?t)"
    using assms(1) b(1) l l' by (simp add: init_console_def bindE_def conE_def updC_def op_defs u32_int_def Let_def)
  moreover have "window_bytes (console_table ?t c) = {a. 0xB8000 + 10922 * c \<le> unat a \<and> unat a < 0xB8000 + 10922 * (c + 1)}"
    using wb b(2) by (simp add: con_frame_def)
  moreover have "window_bytes (console_table ?t c) = window_bytes (console_table ?a c)"
    using b(2) by (simp add: con_frame_def window_bytes_def)
  moreover have "screen_of ?t c = screen_of b c" by (simp add: screen_of_def)
  moreover have "console_table b d = console_table s d" if "d \<noteq> c" for d
    using con_frameD(1)[OF b(2)] that by (metis constate.select_convs(1) constate.surjective constate.update_convs(1) fun_upd_other)
  ultimately show ?thesis
    using b(3,4) con_frameD(5)[OF b(2)] by (intro exI[of _ ?t]) simp
qed

end
