(* ===== verification/Ring.thy ===== *)
theory Ring
  imports Prelude
begin

section \<open>Ring buffers\<close>

text \<open>
  The keyboard's \<open>KB_INPUT\<close> (include/keyboard.h) and the first members of \<open>TTY\<close>
  (include/tty.h) are the same structure: an array, a head where the producer writes, a tail
  where the consumer reads, and a count. A pointer into the array is the index. The locale
  states what a bounded queue promises its clients; it is interpreted on both rings where
  their operations are modelled.
\<close>

record 'x ring =
  r_buf :: "'x list"
  r_head :: nat
  r_tail :: nat
  r_count :: int

definition ring_advance :: "nat \<Rightarrow> nat \<Rightarrow> nat" where
  "ring_advance sz p = (if p + 1 = sz then 0 else p + 1)"

definition ring_put :: "nat \<Rightarrow> 'x \<Rightarrow> 'x ring \<Rightarrow> 'x ring" where
  "ring_put sz x r =
     (if r_count r < int sz then
        r\<lparr>r_buf := (r_buf r)[r_head r := x], r_head := ring_advance sz (r_head r), r_count := r_count r + 1\<rparr>
      else r)"

definition ring_get :: "nat \<Rightarrow> 'x ring \<Rightarrow> 'x \<times> 'x ring" where
  "ring_get sz r =
     (r_buf r ! r_tail r, r\<lparr>r_tail := ring_advance sz (r_tail r), r_count := r_count r - 1\<rparr>)"

text \<open>The invariant, and the queue that a ring stands for.\<close>

definition ring_ok :: "nat \<Rightarrow> 'x ring \<Rightarrow> bool" where
  "ring_ok sz r = (0 < sz \<and> length (r_buf r) = sz \<and> r_tail r < sz \<and> 0 \<le> r_count r \<and>
     r_count r \<le> int sz \<and> r_head r = (r_tail r + nat (r_count r)) mod sz)"

definition ring_items :: "nat \<Rightarrow> 'x ring \<Rightarrow> 'x list" where
  "ring_items sz r = map (\<lambda>k. r_buf r ! ((r_tail r + k) mod sz)) [0..<nat (r_count r)]"

definition empty_ring :: "nat \<Rightarrow> 'x \<Rightarrow> 'x ring" where
  "empty_ring sz x = \<lparr> r_buf = replicate sz x, r_head = 0, r_tail = 0, r_count = 0 \<rparr>"

lemma ring_advance_mod: "p < sz \<Longrightarrow> ring_advance sz p = (p + 1) mod sz"
  by (auto simp: ring_advance_def)

lemma empty_ring_ok [simp]: "0 < sz \<Longrightarrow> ring_ok sz (empty_ring sz x)"
  by (simp add: ring_ok_def empty_ring_def)

lemma empty_ring_items [simp]: "ring_items sz (empty_ring sz x) = []"
  by (simp add: ring_items_def empty_ring_def)

lemma length_ring_items [simp]: "length (ring_items sz r) = nat (r_count r)"
  by (simp add: ring_items_def)

lemma ring_reset_items [simp]: "r_count r = 0 \<Longrightarrow> ring_items sz r = []"
  by (simp add: ring_items_def)

lemma ring_put_ok:
  assumes "ring_ok sz r"
  shows "ring_ok sz (ring_put sz x r)"
    "ring_items sz (ring_put sz x r) =
       (if r_count r < int sz then ring_items sz r @ [x] else ring_items sz r)"
proof -
  let ?n = "nat (r_count r)"
  have h: "r_head r = (r_tail r + ?n) mod sz" "r_tail r < sz" "length (r_buf r) = sz" "0 \<le> r_count r"
    using assms by (simp_all add: ring_ok_def)
  have hs: "r_head r < sz" using h by simp
  show "ring_ok sz (ring_put sz x r)"
    using assms by (auto simp: ring_ok_def ring_put_def ring_advance_mod nat_add_distrib mod_Suc_eq)
  show "ring_items sz (ring_put sz x r) =
       (if r_count r < int sz then ring_items sz r @ [x] else ring_items sz r)"
  proof (cases "r_count r < int sz")
    case True
    then have n: "?n < sz" using h(4) by simp
    have "(r_tail r + k) mod sz \<noteq> (r_tail r + ?n) mod sz" if "k < ?n" for k
    proof
      assume "(r_tail r + k) mod sz = (r_tail r + ?n) mod sz"
      then have "k mod sz = ?n mod sz" by (simp add: mod_add_cong nat_mod_eq_iff)
      then show False using that n by simp
    qed
    then have "map (\<lambda>k. (r_buf r)[r_head r := x] ! ((r_tail r + k) mod sz)) [0..<?n] = ring_items sz r"
      by (simp add: ring_items_def h(1)) (metis atLeastLessThan_iff nth_list_update_neq)
    moreover have "(r_buf r)[r_head r := x] ! ((r_tail r + ?n) mod sz) = x"
      using hs h by simp
    moreover have "nat (r_count r + 1) = Suc ?n" using h(4) by simp
    ultimately show ?thesis
      using True by (simp add: ring_items_def ring_put_def)
  qed (simp add: ring_put_def)
qed

lemma ring_get_ok:
  assumes "ring_ok sz r" "0 < r_count r"
  shows "ring_ok sz (snd (ring_get sz r))"
    "ring_items sz r = fst (ring_get sz r) # ring_items sz (snd (ring_get sz r))"
proof -
  have h: "r_tail r < sz" "0 < r_count r" using assms by (simp_all add: ring_ok_def)
  obtain n where n: "r_count r = int (Suc n)"
    using h(2) by (metis Suc_pred' zero_less_imp_eq_int)
  have m: "nat (r_count r) = Suc n" "nat (r_count r - 1) = n" using n by simp_all
  show "ring_ok sz (snd (ring_get sz r))"
    using assms n by (auto simp: ring_ok_def ring_get_def ring_advance_mod mod_simps nat_add_distrib)
  have "ring_items sz r = map (\<lambda>k. r_buf r ! ((r_tail r + k) mod sz)) (0 # map Suc [0..<n])"
    by (simp add: ring_items_def m map_Suc_upt upt_conv_Cons del: upt_Suc)
  also have "\<dots> = fst (ring_get sz r) # ring_items sz (snd (ring_get sz r))"
    using h(1) by (simp add: ring_get_def ring_items_def m ring_advance_mod mod_simps)
  finally show "ring_items sz r = fst (ring_get sz r) # ring_items sz (snd (ring_get sz r))" .
qed

subsection \<open>The contract of a bounded queue\<close>

text \<open>
  A queue of at most \<open>cap\<close> items held in a part of the state: \<open>put\<close> appends, or drops the
  item when the queue is full; \<open>get\<close> takes the oldest item.
\<close>

locale bounded_fifo =
  fixes cap :: nat
    and ok :: "'s \<Rightarrow> bool"
    and items :: "'s \<Rightarrow> 'x list"
    and put :: "'x \<Rightarrow> 's \<Rightarrow> 's"
    and get :: "'s \<Rightarrow> 'x \<times> 's"
  assumes put_ok: "ok s \<Longrightarrow> ok (put x s)"
    and put_items: "ok s \<Longrightarrow> items (put x s) = (if length (items s) < cap then items s @ [x] else items s)"
    and get_ok: "ok s \<Longrightarrow> items s \<noteq> [] \<Longrightarrow> ok (snd (get s))"
    and get_items: "ok s \<Longrightarrow> items s \<noteq> [] \<Longrightarrow> items s = fst (get s) # items (snd (get s))"
    and bounded: "ok s \<Longrightarrow> length (items s) \<le> cap"
begin

lemma put_all:
  "ok s \<Longrightarrow> ok (fold put xs s) \<and> items (fold put xs s) = items s @ take (cap - length (items s)) xs"
proof (induction xs arbitrary: s)
  case (Cons x xs)
  then show ?case
    using put_ok[of s x] put_items[of s x] bounded[of s]
    by (auto simp: take_Cons' Suc_diff_Suc)
qed simp

text \<open>\<open>n\<close> reads.\<close>

fun get_n :: "nat \<Rightarrow> 's \<Rightarrow> 'x list \<times> 's" where
  "get_n 0 s = ([], s)"
| "get_n (Suc n) s = (let (x, t) = get s; (xs, u) = get_n n t in (x # xs, u))"

lemma get_all:
  "ok s \<Longrightarrow> n \<le> length (items s) \<Longrightarrow>
   fst (get_n n s) = take n (items s) \<and> items (snd (get_n n s)) = drop n (items s) \<and> ok (snd (get_n n s))"
proof (induction n arbitrary: s)
  case (Suc n)
  then have ne: "items s \<noteq> []" by auto
  show ?case
    using Suc.IH[OF get_ok[OF Suc.prems(1) ne]] Suc.prems get_items[OF Suc.prems(1) ne]
    by (auto simp: case_prod_beta Let_def)
qed simp

text \<open>What goes in comes out, in order, as far as it fits.\<close>

lemma round_trip:
  assumes "ok s" "items s = []" "length xs \<le> cap"
  shows "fst (get_n (length xs) (fold put xs s)) = xs"
  using put_all[OF assms(1), of xs] get_all[of "fold put xs s" "length xs"] assms by simp

end

end
