(* ===== verification/Keyboard.thy ===== *)
theory Keyboard
  imports Console Ring
begin

section \<open>The keyboard driver\<close>

text \<open>
  kernel/keyboard.c with include/keymap.h and include/keyboard.h, and the part of
  kernel/tty.c that takes a key (\<open>put_key2tty\<close>, \<open>in_process\<close>). The interrupt handler puts scan
  codes into the ring \<open>kb_in\<close>; \<open>keyboard_read\<close> takes them out, decodes them and hands the key to
  the terminal. A read from the empty ring waits for the next interrupt (\<open>Wait\<close>). The local
  variable \<open>key\<close> of \<open>keyboard_read\<close> is compared before it is assigned when the scan code is
  an ordinary one: the argument \<open>junk\<close> gives what the stack holds there. A pointer into \<open>tty_table\<close> or
  \<open>console_table\<close> is its index; \<open>console_p\<close> is null until \<open>init_tty\<close>.
\<close>

abbreviation (input) KB_IN_BYTES :: nat where "KB_IN_BYTES \<equiv> 32"
abbreviation (input) TTY_BUFFER_SIZE :: nat where "TTY_BUFFER_SIZE \<equiv> 256"
abbreviation (input) NR_TTY :: nat where "NR_TTY \<equiv> 3"
abbreviation (input) KB_DATA :: u16 where "KB_DATA \<equiv> 0x60"
abbreviation (input) PORT_8042_CONTROL :: u16 where "PORT_8042_CONTROL \<equiv> 0x64"
abbreviation (input) PORT_8042_DATA :: u16 where "PORT_8042_DATA \<equiv> 0x60"
abbreviation (input) LED_CODE :: byte where "LED_CODE \<equiv> 0xED"
abbreviation (input) KB_ACK :: byte where "KB_ACK \<equiv> 0xFA"
abbreviation (input) FLAG_BREAK :: byte where "FLAG_BREAK \<equiv> 0x80"
abbreviation (input) FLAG_EXT :: u32 where "FLAG_EXT \<equiv> 0x100"
abbreviation (input) FLAG_SHIFT_L :: u32 where "FLAG_SHIFT_L \<equiv> 0x200"
abbreviation (input) FLAG_SHIFT_R :: u32 where "FLAG_SHIFT_R \<equiv> 0x400"
abbreviation (input) FLAG_CTRL_L :: u32 where "FLAG_CTRL_L \<equiv> 0x800"
abbreviation (input) FLAG_CTRL_R :: u32 where "FLAG_CTRL_R \<equiv> 0x1000"
abbreviation (input) FLAG_ALT_L :: u32 where "FLAG_ALT_L \<equiv> 0x2000"
abbreviation (input) FLAG_ALT_R :: u32 where "FLAG_ALT_R \<equiv> 0x4000"
abbreviation (input) MASK_RAW :: u32 where "MASK_RAW \<equiv> 0x1FF"

text \<open>The special keys (\<open>K_END\<close> is \<open>END\<close> in the source).\<close>

abbreviation (input) ESC :: u32 where "ESC \<equiv> 0x101"
abbreviation (input) TAB :: u32 where "TAB \<equiv> 0x102"
abbreviation (input) ENTER :: u32 where "ENTER \<equiv> 0x103"
abbreviation (input) BACKSPACE :: u32 where "BACKSPACE \<equiv> 0x104"
abbreviation (input) GUI_L :: u32 where "GUI_L \<equiv> 0x105"
abbreviation (input) GUI_R :: u32 where "GUI_R \<equiv> 0x106"
abbreviation (input) APPS :: u32 where "APPS \<equiv> 0x107"
abbreviation (input) SHIFT_L :: u32 where "SHIFT_L \<equiv> 0x108"
abbreviation (input) SHIFT_R :: u32 where "SHIFT_R \<equiv> 0x109"
abbreviation (input) CTRL_L :: u32 where "CTRL_L \<equiv> 0x10A"
abbreviation (input) CTRL_R :: u32 where "CTRL_R \<equiv> 0x10B"
abbreviation (input) ALT_L :: u32 where "ALT_L \<equiv> 0x10C"
abbreviation (input) ALT_R :: u32 where "ALT_R \<equiv> 0x10D"
abbreviation (input) CAPS_LOCK :: u32 where "CAPS_LOCK \<equiv> 0x10E"
abbreviation (input) NUM_LOCK :: u32 where "NUM_LOCK \<equiv> 0x10F"
abbreviation (input) SCROLL_LOCK :: u32 where "SCROLL_LOCK \<equiv> 0x110"
abbreviation (input) F1 :: u32 where "F1 \<equiv> 0x111"
abbreviation (input) F2 :: u32 where "F2 \<equiv> 0x112"
abbreviation (input) F3 :: u32 where "F3 \<equiv> 0x113"
abbreviation (input) F4 :: u32 where "F4 \<equiv> 0x114"
abbreviation (input) F5 :: u32 where "F5 \<equiv> 0x115"
abbreviation (input) F6 :: u32 where "F6 \<equiv> 0x116"
abbreviation (input) F7 :: u32 where "F7 \<equiv> 0x117"
abbreviation (input) F8 :: u32 where "F8 \<equiv> 0x118"
abbreviation (input) F9 :: u32 where "F9 \<equiv> 0x119"
abbreviation (input) F10 :: u32 where "F10 \<equiv> 0x11A"
abbreviation (input) F11 :: u32 where "F11 \<equiv> 0x11B"
abbreviation (input) F12 :: u32 where "F12 \<equiv> 0x11C"
abbreviation (input) PRINTSCREEN :: u32 where "PRINTSCREEN \<equiv> 0x11D"
abbreviation (input) PAUSEBREAK :: u32 where "PAUSEBREAK \<equiv> 0x11E"
abbreviation (input) INSERT :: u32 where "INSERT \<equiv> 0x11F"
abbreviation (input) DELETE :: u32 where "DELETE \<equiv> 0x120"
abbreviation (input) HOME :: u32 where "HOME \<equiv> 0x121"
abbreviation (input) K_END :: u32 where "K_END \<equiv> 0x122"
abbreviation (input) PAGEUP :: u32 where "PAGEUP \<equiv> 0x123"
abbreviation (input) PAGEDOWN :: u32 where "PAGEDOWN \<equiv> 0x124"
abbreviation (input) UP :: u32 where "UP \<equiv> 0x125"
abbreviation (input) DOWN :: u32 where "DOWN \<equiv> 0x126"
abbreviation (input) LEFT :: u32 where "LEFT \<equiv> 0x127"
abbreviation (input) RIGHT :: u32 where "RIGHT \<equiv> 0x128"
abbreviation (input) PAD_SLASH :: u32 where "PAD_SLASH \<equiv> 0x12C"
abbreviation (input) PAD_STAR :: u32 where "PAD_STAR \<equiv> 0x12D"
abbreviation (input) PAD_MINUS :: u32 where "PAD_MINUS \<equiv> 0x12E"
abbreviation (input) PAD_PLUS :: u32 where "PAD_PLUS \<equiv> 0x12F"
abbreviation (input) PAD_ENTER :: u32 where "PAD_ENTER \<equiv> 0x130"
abbreviation (input) PAD_DOT :: u32 where "PAD_DOT \<equiv> 0x131"
abbreviation (input) PAD_0 :: u32 where "PAD_0 \<equiv> 0x132"
abbreviation (input) PAD_1 :: u32 where "PAD_1 \<equiv> 0x133"
abbreviation (input) PAD_2 :: u32 where "PAD_2 \<equiv> 0x134"
abbreviation (input) PAD_3 :: u32 where "PAD_3 \<equiv> 0x135"
abbreviation (input) PAD_4 :: u32 where "PAD_4 \<equiv> 0x136"
abbreviation (input) PAD_5 :: u32 where "PAD_5 \<equiv> 0x137"
abbreviation (input) PAD_6 :: u32 where "PAD_6 \<equiv> 0x138"
abbreviation (input) PAD_7 :: u32 where "PAD_7 \<equiv> 0x139"
abbreviation (input) PAD_8 :: u32 where "PAD_8 \<equiv> 0x13A"
abbreviation (input) PAD_9 :: u32 where "PAD_9 \<equiv> 0x13B"
abbreviation (input) PAD_UP :: u32 where "PAD_UP \<equiv> 0x13A"
abbreviation (input) PAD_DOWN :: u32 where "PAD_DOWN \<equiv> 0x134"
abbreviation (input) PAD_LEFT :: u32 where "PAD_LEFT \<equiv> 0x136"
abbreviation (input) PAD_RIGHT :: u32 where "PAD_RIGHT \<equiv> 0x138"
abbreviation (input) PAD_HOME :: u32 where "PAD_HOME \<equiv> 0x139"
abbreviation (input) PAD_END :: u32 where "PAD_END \<equiv> 0x133"
abbreviation (input) PAD_PAGEUP :: u32 where "PAD_PAGEUP \<equiv> 0x13B"
abbreviation (input) PAD_PAGEDOWN :: u32 where "PAD_PAGEDOWN \<equiv> 0x135"
abbreviation (input) PAD_INS :: u32 where "PAD_INS \<equiv> 0x132"
abbreviation (input) PAD_MID :: u32 where "PAD_MID \<equiv> 0x137"

text \<open>A row per scan code: plain, with shift, after \<open>0xE0\<close>.\<close>

definition keymap :: "(u32 \<times> u32 \<times> u32) list" where
  "keymap = [(0, 0, 0), (ESC, ESC, 0), (0x31, 0x21, 0), (0x32, 0x40, 0), (0x33, 0x23, 0), (0x34, 0x24, 0),
     (0x35, 0x25, 0), (0x36, 0x5E, 0), (0x37, 0x26, 0), (0x38, 0x2A, 0), (0x39, 0x28, 0), (0x30, 0x29, 0),
     (0x2D, 0x5F, 0), (0x3D, 0x2B, 0), (BACKSPACE, BACKSPACE, 0), (TAB, TAB, 0), (0x71, 0x51, 0),
     (0x77, 0x57, 0), (0x65, 0x45, 0), (0x72, 0x52, 0), (0x74, 0x54, 0), (0x79, 0x59, 0), (0x75, 0x55, 0),
     (0x69, 0x49, 0), (0x6F, 0x4F, 0), (0x70, 0x50, 0), (0x5B, 0x7B, 0), (0x5D, 0x7D, 0),
     (ENTER, ENTER, PAD_ENTER), (CTRL_L, CTRL_L, CTRL_R), (0x61, 0x41, 0), (0x73, 0x53, 0), (0x64, 0x44, 0),
     (0x66, 0x46, 0), (0x67, 0x47, 0), (0x68, 0x48, 0), (0x6A, 0x4A, 0), (0x6B, 0x4B, 0), (0x6C, 0x4C, 0),
     (0x3B, 0x3A, 0), (0x27, 0x22, 0), (0x60, 0x7E, 0), (SHIFT_L, SHIFT_L, 0), (0x5C, 0x7C, 0),
     (0x7A, 0x5A, 0), (0x78, 0x58, 0), (0x63, 0x43, 0), (0x76, 0x56, 0), (0x62, 0x42, 0), (0x6E, 0x4E, 0),
     (0x6D, 0x4D, 0), (0x2C, 0x3C, 0), (0x2E, 0x3E, 0), (0x2F, 0x3F, PAD_SLASH), (SHIFT_R, SHIFT_R, 0),
     (0x2A, 0x2A, 0), (ALT_L, ALT_L, ALT_R), (0x20, 0x20, 0), (CAPS_LOCK, CAPS_LOCK, 0), (F1, F1, 0),
     (F2, F2, 0), (F3, F3, 0), (F4, F4, 0), (F5, F5, 0), (F6, F6, 0), (F7, F7, 0), (F8, F8, 0), (F9, F9, 0),
     (F10, F10, 0), (NUM_LOCK, NUM_LOCK, 0), (SCROLL_LOCK, SCROLL_LOCK, 0), (PAD_HOME, 0x37, HOME),
     (PAD_UP, 0x38, UP), (PAD_PAGEUP, 0x39, PAGEUP), (PAD_MINUS, 0x2D, 0), (PAD_LEFT, 0x34, LEFT),
     (PAD_MID, 0x35, 0), (PAD_RIGHT, 0x36, RIGHT), (PAD_PLUS, 0x2B, 0), (PAD_END, 0x31, K_END),
     (PAD_DOWN, 0x32, DOWN), (PAD_PAGEDOWN, 0x33, PAGEDOWN), (PAD_INS, 0x30, INSERT), (PAD_DOT, 0x2E, DELETE),
     (0, 0, 0), (0, 0, 0), (0, 0, 0), (F11, F11, 0), (F12, F12, 0), (0, 0, 0), (0, 0, 0), (0, 0, GUI_L),
     (0, 0, GUI_R), (0, 0, APPS), (0, 0, 0), (0, 0, 0), (0, 0, 0), (0, 0, 0), (0, 0, 0), (0, 0, 0), (0, 0, 0),
     (0, 0, 0), (0, 0, 0), (0, 0, 0), (0, 0, 0), (0, 0, 0), (0, 0, 0), (0, 0, 0), (0, 0, 0), (0, 0, 0),
     (0, 0, 0), (0, 0, 0), (0, 0, 0), (0, 0, 0), (0, 0, 0), (0, 0, 0), (0, 0, 0), (0, 0, 0), (0, 0, 0),
     (0, 0, 0), (0, 0, 0), (0, 0, 0), (0, 0, 0), (0, 0, 0), (0, 0, 0), (0, 0, 0), (0, 0, 0), (0, 0, 0)]"

record tty =
  t_ring :: "u32 ring"
  t_caller :: int
  proc2tty :: int
  reqer_buf :: addr
  reqed_cnt :: int
  sended_cnt :: int
  console_p :: "nat option"

record tstate = constate +
  tty_table :: "nat \<Rightarrow> tty"
  kb_in :: "byte ring"
  code_with_E0 :: bool
  shift_l :: bool
  shift_r :: bool
  alt_l :: bool
  alt_r :: bool
  ctrl_l :: bool
  ctrl_r :: bool
  caps_lock :: bool
  num_lock :: bool
  scroll_lock :: bool
  tty_sent :: "(int \<times> message) list"

definition ttyE :: "nat \<Rightarrow> ('a tstate_scheme, tty) op" where
  "ttyE i = (\<lambda>s. if i < NR_TTY then Inr (tty_table s i, s) else Inl (Bad_access ''tty_table''))"

definition updT :: "nat \<Rightarrow> (tty \<Rightarrow> tty) \<Rightarrow> ('a tstate_scheme, unit) op" where
  "updT i f = modE (\<lambda>s. s\<lparr>tty_table := (tty_table s)(i := f (tty_table s i))\<rparr>)"

definition tty_console :: "nat \<Rightarrow> ('a tstate_scheme, nat) op" where
  "tty_console i = bindE (ttyE i) (\<lambda>t.
     if console_p t = None then fail (Bad_access ''console_p'') else ret (the (console_p t)))"

subsection \<open>The scan code ring\<close>

definition kb_put :: "byte \<Rightarrow> 'a tstate_scheme \<Rightarrow> 'a tstate_scheme" where
  "kb_put scan_code s = s\<lparr>kb_in := ring_put KB_IN_BYTES scan_code (kb_in s)\<rparr>"

definition kb_get :: "'a tstate_scheme \<Rightarrow> byte \<times> 'a tstate_scheme" where
  "kb_get s = (fst (ring_get KB_IN_BYTES (kb_in s)), s\<lparr>kb_in := snd (ring_get KB_IN_BYTES (kb_in s))\<rparr>)"

definition keyboard_handler :: "hardware \<Rightarrow> ('a tstate_scheme, unit) op" where
  "keyboard_handler hw =
     bindE (in_byte hw KB_DATA) (\<lambda>scan_code.
     bindE (modE (kb_put scan_code)) (\<lambda>_.
     modE (\<lambda>s. s\<lparr>key_pressed := 1\<rparr>)))"

definition get_byte_from_kbuf :: "('a tstate_scheme, byte) op" where
  "get_byte_from_kbuf =
     bindE (getsE (\<lambda>s. r_count (kb_in s))) (\<lambda>n.
     if n \<le> 0 then fail (Wait ''kb_in'')
     else
       bindE disable_int (\<lambda>_.
       bindE (\<lambda>s. Inr (kb_get s)) (\<lambda>scan_code.
       bindE enable_int (\<lambda>_.
       ret scan_code))))"

subsection \<open>The lights\<close>

definition kb_wait :: "hardware \<Rightarrow> ('a tstate_scheme, unit) op" where
  "kb_wait hw = poll hw PORT_8042_CONTROL (\<lambda>b. b AND 0x02 = 0)"

definition kb_ack :: "hardware \<Rightarrow> ('a tstate_scheme, unit) op" where
  "kb_ack hw = poll hw PORT_8042_DATA (\<lambda>b. b = KB_ACK)"

definition leds :: "'a tstate_scheme \<Rightarrow> byte" where
  "leds s = push_bit 2 (of_bool (caps_lock s)) OR push_bit 1 (of_bool (num_lock s)) OR of_bool (scroll_lock s)"

definition set_leds :: "hardware \<Rightarrow> ('a tstate_scheme, unit) op" where
  "set_leds hw =
     bindE (getsE leds) (\<lambda>b. blockE [
       kb_wait hw, out_byte PORT_8042_DATA LED_CODE, kb_ack hw,
       kb_wait hw, out_byte PORT_8042_DATA b, kb_ack hw])"

definition init_keyboard :: "hardware \<Rightarrow> ('a tstate_scheme, unit) op" where
  "init_keyboard hw = blockE [
     modE (\<lambda>s. s\<lparr>kb_in := (kb_in s)\<lparr>r_count := 0, r_head := 0, r_tail := 0\<rparr>,
       shift_l := False, shift_r := False, alt_l := False, alt_r := False, ctrl_l := False, ctrl_r := False,
       caps_lock := True, num_lock := False, scroll_lock := False\<rparr>),
     set_leds hw,
     put_irq_handler hw KEYBOARD_IRQ Keyboard_handler,
     enable_irq hw KEYBOARD_IRQ]"

subsection \<open>A key for the terminal\<close>

definition tty_put :: "nat \<Rightarrow> u32 \<Rightarrow> 'a tstate_scheme \<Rightarrow> 'a tstate_scheme" where
  "tty_put i key s = s\<lparr>tty_table := (tty_table s)(i := (tty_table s i)
     \<lparr>t_ring := ring_put TTY_BUFFER_SIZE key (t_ring (tty_table s i))\<rparr>)\<rparr>"

definition tty_get :: "nat \<Rightarrow> 'a tstate_scheme \<Rightarrow> u32 \<times> 'a tstate_scheme" where
  "tty_get i s =
     (fst (ring_get TTY_BUFFER_SIZE (t_ring (tty_table s i))),
      s\<lparr>tty_table := (tty_table s)(i := (tty_table s i)
        \<lparr>t_ring := snd (ring_get TTY_BUFFER_SIZE (t_ring (tty_table s i)))\<rparr>)\<rparr>)"

definition put_key2tty :: "nat \<Rightarrow> u32 \<Rightarrow> ('a tstate_scheme, unit) op" where
  "put_key2tty i key = bindE (ttyE i) (\<lambda>_. modE (tty_put i key))"

definition shifted :: "u32 \<Rightarrow> bool" where
  "shifted key = (key AND FLAG_SHIFT_L \<noteq> 0 \<or> key AND FLAG_SHIFT_R \<noteq> 0)"

definition in_process :: "nat \<Rightarrow> u32 \<Rightarrow> ('a tstate_scheme, unit) op" where
  "in_process i key =
     (if key AND FLAG_EXT = 0 then put_key2tty i key
      else
        let raw_code = key AND MASK_RAW;
            scroll = (\<lambda>d. whenE (shifted key)
              (bindE (getsE current_tty) (\<lambda>cur. bindE (tty_console cur) (\<lambda>c. scroll_screen c d))))
        in
        if raw_code = UP then scroll SCROLL_UP
        else if raw_code = DOWN then scroll SCROLL_DOWN
        else if raw_code = ENTER then put_key2tty i 0x0A
        else if raw_code = BACKSPACE then put_key2tty i 0x08
        else if F1 \<le> raw_code \<and> raw_code \<le> F12 then
          whenE (shifted key) (bindE (tty_console (unat (raw_code - F1))) switch_console)
        else ret ())"

subsection \<open>Decoding\<close>

fun pause_loop :: "byte list \<Rightarrow> ('a tstate_scheme, bool) op" where
  "pause_loop [] = ret True"
| "pause_loop (b # bs) = bindE get_byte_from_kbuf (\<lambda>x. if x \<noteq> b then ret False else pause_loop bs)"

text \<open>The first part of \<open>keyboard_read\<close>: the scan code to decode, and the value of \<open>key\<close>.\<close>

definition read_scan_code :: "u32 \<Rightarrow> ('a tstate_scheme, byte \<times> u32) op" where
  "read_scan_code key =
     bindE get_byte_from_kbuf (\<lambda>scan_code.
     if scan_code = 0xE1 then
       bindE (pause_loop [0x1D, 0x45, 0xE1, 0x9D, 0xC5]) (\<lambda>is_pause_make.
       ret (scan_code, if is_pause_make then PAUSEBREAK else key))
     else if scan_code = 0xE0 then
       bindE get_byte_from_kbuf (\<lambda>scan_code.
       if scan_code = 0x2A then
         bindE get_byte_from_kbuf (\<lambda>b.
         if b = 0xE0 then
           bindE get_byte_from_kbuf (\<lambda>b. ret (scan_code, if b = 0x37 then PRINTSCREEN else key))
         else ret (scan_code, key))
       else if scan_code = 0xB7 then
         bindE get_byte_from_kbuf (\<lambda>b.
         if b = 0xE0 then
           bindE get_byte_from_kbuf (\<lambda>b. ret (scan_code, if b = 0xAA then PRINTSCREEN else key))
         else ret (scan_code, key))
       else bindE (modE (\<lambda>s. s\<lparr>code_with_E0 := True\<rparr>)) (\<lambda>_. ret (scan_code, key)))
     else ret (scan_code, key))"

text \<open>The row, then the column.\<close>

definition caps :: "'a tstate_scheme \<Rightarrow> u32 \<Rightarrow> bool" where
  "caps s c0 =
     (let x = (shift_l s \<or> shift_r s) in if caps_lock s \<and> 0x61 \<le> c0 \<and> c0 \<le> 0x7A then \<not> x else x)"

definition look_up_key :: "byte \<Rightarrow> ('a tstate_scheme, u32) op" where
  "look_up_key scan_code =
     (case keymap ! unat (scan_code AND 0x7F) of (c0, c1, c2) \<Rightarrow>
        bindE (getsE (\<lambda>s. (code_with_E0 s, caps s c0))) (\<lambda>(e0, upper).
        if e0 then bindE (modE (\<lambda>s. s\<lparr>code_with_E0 := False\<rparr>)) (\<lambda>_. ret c2)
        else ret (if upper then c1 else c0)))"

text \<open>The \<open>switch\<close> on modifiers and locks: the key that is left.\<close>

definition modifiers :: "hardware \<Rightarrow> bool \<Rightarrow> u32 \<Rightarrow> ('a tstate_scheme, u32) op" where
  "modifiers hw is_make key =
     (if key = SHIFT_L then bindE (modE (\<lambda>s. s\<lparr>shift_l := is_make\<rparr>)) (\<lambda>_. ret 0)
      else if key = SHIFT_R then bindE (modE (\<lambda>s. s\<lparr>shift_r := is_make\<rparr>)) (\<lambda>_. ret 0)
      else if key = CTRL_L then bindE (modE (\<lambda>s. s\<lparr>ctrl_l := is_make\<rparr>)) (\<lambda>_. ret 0)
      else if key = CTRL_R then bindE (modE (\<lambda>s. s\<lparr>ctrl_r := is_make\<rparr>)) (\<lambda>_. ret 0)
      else if key = ALT_L then bindE (modE (\<lambda>s. s\<lparr>alt_l := is_make\<rparr>)) (\<lambda>_. ret 0)
      else if key = ALT_R then bindE (modE (\<lambda>s. s\<lparr>alt_r := is_make\<rparr>)) (\<lambda>_. ret 0)
      else
        bindE (whenE is_make
          (if key = CAPS_LOCK then bindE (modE (\<lambda>s. s\<lparr>caps_lock := \<not> caps_lock s\<rparr>)) (\<lambda>_. set_leds hw)
           else if key = NUM_LOCK then bindE (modE (\<lambda>s. s\<lparr>num_lock := \<not> num_lock s\<rparr>)) (\<lambda>_. set_leds hw)
           else if key = SCROLL_LOCK then bindE (modE (\<lambda>s. s\<lparr>scroll_lock := \<not> scroll_lock s\<rparr>)) (\<lambda>_. set_leds hw)
           else ret ())) (\<lambda>_. ret key))"

definition pad_key :: "bool \<Rightarrow> u32 \<Rightarrow> u32" where
  "pad_key num key =
     (if PAD_SLASH \<le> key \<and> key \<le> PAD_9 then
        if key = PAD_SLASH then 0x5C
        else if key = PAD_STAR then 0x2A
        else if key = PAD_MINUS then 0x2D
        else if key = PAD_PLUS then 0x2B
        else if key = PAD_ENTER then ENTER
        else if num \<and> PAD_0 \<le> key \<and> key \<le> PAD_9 then key - PAD_0 + 0x30
        else if num \<and> key = PAD_DOT then 0x2E
        else if key = PAD_7 then HOME
        else if key = PAD_1 then K_END
        else if key = PAD_9 then PAGEUP
        else if key = PAD_3 then PAGEDOWN
        else if key = PAD_0 then INSERT
        else if key = PAD_8 then UP
        else if key = PAD_2 then DOWN
        else if key = PAD_4 then LEFT
        else if key = PAD_6 then RIGHT
        else if key = PAD_DOT then DELETE
        else key
      else key)"

definition key_flags :: "'a tstate_scheme \<Rightarrow> u32" where
  "key_flags s =
     (if shift_l s then FLAG_SHIFT_L else 0) OR (if shift_r s then FLAG_SHIFT_R else 0) OR
     (if ctrl_l s then FLAG_CTRL_L else 0) OR (if ctrl_r s then FLAG_CTRL_R else 0) OR
     (if alt_l s then FLAG_ALT_L else 0) OR (if alt_r s then FLAG_ALT_R else 0)"

definition decode_key :: "hardware \<Rightarrow> nat \<Rightarrow> byte \<Rightarrow> ('a tstate_scheme, unit) op" where
  "decode_key hw i scan_code =
     (let is_make = (scan_code AND FLAG_BREAK = 0) in
      bindE (look_up_key scan_code) (\<lambda>key.
      bindE (modifiers hw is_make key) (\<lambda>key.
      whenE is_make
        (bindE (getsE (\<lambda>s. pad_key (num_lock s) key OR key_flags s)) (\<lambda>key. in_process i key)))))"

definition keyboard_read :: "hardware \<Rightarrow> ('a tstate_scheme \<Rightarrow> u32) \<Rightarrow> nat \<Rightarrow> ('a tstate_scheme, unit) op" where
  "keyboard_read hw junk i =
     bindE (getsE (\<lambda>s. (r_count (kb_in s), junk s))) (\<lambda>(n, key0).
     whenE (0 < n)
       (bindE (read_scan_code key0) (\<lambda>(scan_code, key).
        whenE (key \<noteq> PAUSEBREAK \<and> key \<noteq> PRINTSCREEN) (decode_key hw i scan_code))))"

subsection \<open>The rings keep their promise\<close>

definition kb_ok :: "'a tstate_scheme \<Rightarrow> bool" where
  "kb_ok s = ring_ok KB_IN_BYTES (kb_in s)"

definition kb_items :: "'a tstate_scheme \<Rightarrow> byte list" where
  "kb_items s = ring_items KB_IN_BYTES (kb_in s)"

definition tty_ok :: "nat \<Rightarrow> 'a tstate_scheme \<Rightarrow> bool" where
  "tty_ok i s = ring_ok TTY_BUFFER_SIZE (t_ring (tty_table s i))"

definition tty_items :: "nat \<Rightarrow> 'a tstate_scheme \<Rightarrow> u32 list" where
  "tty_items i s = ring_items TTY_BUFFER_SIZE (t_ring (tty_table s i))"

lemma kb_count: "kb_ok s \<Longrightarrow> r_count (kb_in s) = int (length (kb_items s))"
  by (simp add: kb_ok_def kb_items_def ring_ok_def)

lemma tty_count: "tty_ok i s \<Longrightarrow> r_count (t_ring (tty_table s i)) = int (length (tty_items i s))"
  by (simp add: tty_ok_def tty_items_def ring_ok_def)

interpretation kbq: bounded_fifo KB_IN_BYTES kb_ok kb_items kb_put kb_get
proof
  fix s :: "'a tstate_scheme" and x
  assume ok: "kb_ok s"
  note r = ok[unfolded kb_ok_def]
  show "kb_ok (kb_put x s)"
    using ring_put_ok(1)[OF r] by (simp add: kb_ok_def kb_put_def)
  show "kb_items (kb_put x s) = (if length (kb_items s) < KB_IN_BYTES then kb_items s @ [x] else kb_items s)"
    using ring_put_ok(2)[OF r, of x] r by (simp add: kb_items_def kb_put_def ring_ok_def nat_less_iff)
  show "length (kb_items s) \<le> KB_IN_BYTES"
    using r by (simp add: kb_items_def ring_ok_def nat_le_iff)
  assume ne: "kb_items s \<noteq> []"
  then have c: "0 < r_count (kb_in s)" using kb_count[OF ok] by simp
  show "kb_ok (snd (kb_get s))"
    using ring_get_ok(1)[OF r c] by (simp add: kb_ok_def kb_get_def)
  show "kb_items s = fst (kb_get s) # kb_items (snd (kb_get s))"
    unfolding kb_items_def kb_get_def using ring_get_ok(2)[OF r c] by simp
qed

interpretation tyq: bounded_fifo TTY_BUFFER_SIZE "tty_ok i" "tty_items i" "tty_put i" "tty_get i" for i
proof
  fix s :: "'a tstate_scheme" and x
  assume ok: "tty_ok i s"
  note r = ok[unfolded tty_ok_def]
  show "tty_ok i (tty_put i x s)"
    using ring_put_ok(1)[OF r] by (simp add: tty_ok_def tty_put_def)
  show "tty_items i (tty_put i x s) = (if length (tty_items i s) < TTY_BUFFER_SIZE then tty_items i s @ [x] else tty_items i s)"
    using ring_put_ok(2)[OF r, of x] r by (simp add: tty_items_def tty_put_def ring_ok_def nat_less_iff)
  show "length (tty_items i s) \<le> TTY_BUFFER_SIZE"
    using r by (simp add: tty_items_def ring_ok_def nat_le_iff)
  assume ne: "tty_items i s \<noteq> []"
  then have c: "0 < r_count (t_ring (tty_table s i))" using tty_count[OF ok] by simp
  show "tty_ok i (snd (tty_get i s))"
    using ring_get_ok(1)[OF r c] by (simp add: tty_ok_def tty_get_def)
  show "tty_items i s = fst (tty_get i s) # tty_items i (snd (tty_get i s))"
    unfolding tty_items_def tty_get_def using ring_get_ok(2)[OF r c]
    by simp
qed

lemma get_byte_ok:
  assumes "kb_ok s" "kb_items s = x # xs"
  obtains t where "get_byte_from_kbuf s = Inr (x, t)" "kb_ok t" "kb_items t = xs"
    "t = s\<lparr>kb_in := kb_in t, int_enabled := True\<rparr>"
proof -
  let ?u = "s\<lparr>int_enabled := False\<rparr>"
  have u: "kb_ok ?u" "kb_items ?u = x # xs" using assms by (simp_all add: kb_ok_def kb_items_def)
  have "get_byte_from_kbuf s = Inr (x, (snd (kb_get ?u))\<lparr>int_enabled := True\<rparr>)"
    using kbq.get_items[of ?u] u kb_count[OF assms(1)] assms(2)
    by (simp add: get_byte_from_kbuf_def bindE_def op_defs disable_int_def enable_int_def kb_get_def)
  moreover have "kb_ok (snd (kb_get ?u))" "kb_items (snd (kb_get ?u)) = xs"
    using kbq.get_ok[of ?u] kbq.get_items[of ?u] u by simp_all
  ultimately show ?thesis
    by (intro that[of "(snd (kb_get ?u))\<lparr>int_enabled := True\<rparr>"]) (simp_all add: kb_ok_def kb_items_def kb_get_def)
qed

lemma get_byte_empty: "kb_ok s \<Longrightarrow> kb_items s = [] \<Longrightarrow> get_byte_from_kbuf s = Inl (Wait ''kb_in'')"
  using kb_count[of s] by (simp add: get_byte_from_kbuf_def bindE_def op_defs)

text \<open>
  C14. The scan code ring is a queue of at most 32 bytes: an interrupt appends the byte read
  from the keyboard, or drops it when the ring is full, and sets \<open>key_pressed\<close>; a read
  takes the oldest byte with interrupts enabled again, or waits when there is none; the
  bytes of up to 32 interrupts come out of an empty ring in the order they came in.
\<close>

theorem keyboard_ring_fifo:
  assumes "kb_ok s"
  shows "(\<exists>t. keyboard_handler hw s = Inr ((), t) \<and> kb_ok t \<and> key_pressed t = 1 \<and>
       kb_items t = (if length (kb_items s) < 32 then kb_items s @ [hw (io_log s) KB_DATA] else kb_items s)) \<and>
    (case kb_items s of
       [] \<Rightarrow> get_byte_from_kbuf s = Inl (Wait ''kb_in'')
     | x # xs \<Rightarrow> \<exists>t. get_byte_from_kbuf s = Inr (x, t) \<and> kb_ok t \<and> kb_items t = xs \<and> int_enabled t) \<and>
    (kb_items s = [] \<longrightarrow> length xs \<le> 32 \<longrightarrow> kb_items (fold kb_put xs s) = xs)"
proof -
  let ?u = "s\<lparr>io_log := In KB_DATA # io_log s\<rparr>"
  let ?t = "(kb_put (hw (io_log s) KB_DATA) ?u)\<lparr>key_pressed := 1\<rparr>"
  have u: "kb_ok ?u" "kb_items ?u = kb_items s" using assms by (simp_all add: kb_ok_def kb_items_def)
  have "keyboard_handler hw s = Inr ((), ?t)"
    by (simp add: keyboard_handler_def bindE_def io_defs op_defs)
  moreover have "kb_ok ?t" "kb_items ?t = (if length (kb_items s) < 32 then kb_items s @ [hw (io_log s) KB_DATA] else kb_items s)"
    using kbq.put_ok[OF u(1)] kbq.put_items[OF u(1), of "hw (io_log s) KB_DATA"] u(2)
    by (simp_all add: kb_ok_def kb_items_def)
  moreover have "case kb_items s of
       [] \<Rightarrow> get_byte_from_kbuf s = Inl (Wait ''kb_in'')
     | x # xs \<Rightarrow> \<exists>t. get_byte_from_kbuf s = Inr (x, t) \<and> kb_ok t \<and> kb_items t = xs \<and> int_enabled t"
  proof (cases "kb_items s")
    case Nil
    then show ?thesis using get_byte_empty[OF assms] by simp
  next
    case (Cons x xs)
    obtain t where "get_byte_from_kbuf s = Inr (x, t)" "kb_ok t" "kb_items t = xs"
      "t = s\<lparr>kb_in := kb_in t, int_enabled := True\<rparr>"
      by (rule get_byte_ok[OF assms Cons])
    moreover from this(4) have "int_enabled t" by (metis kstate.select_convs(7) kstate.surjective kstate.update_convs(7))
    ultimately show ?thesis using Cons by auto
  qed
  moreover have "kb_items s = [] \<Longrightarrow> length xs \<le> 32 \<Longrightarrow> kb_items (fold kb_put xs s) = xs"
    using kbq.put_all[OF assms, of xs] by simp
  ultimately show ?thesis by auto
qed

text \<open>Nothing typed yet: the state after \<open>init_keyboard\<close> and \<open>init_tty\<close>.\<close>

definition idle_tty :: tty where
  "idle_tty = \<lparr> t_ring = empty_ring TTY_BUFFER_SIZE 0, t_caller = 0, proc2tty = 0, reqer_buf = 0, reqed_cnt = 0,
     sended_cnt = 0, console_p = None \<rparr>"

definition idle_ts :: tstate where
  "idle_ts = constate.extend idle_con (tstate.fields (\<lambda>i. idle_tty\<lparr>console_p := Some i\<rparr>)
     (empty_ring KB_IN_BYTES 0) False False False False False False False True False False [])"

lemma idle_ts_fields [simp]:
  "kb_in idle_ts = empty_ring KB_IN_BYTES 0" "tty_table idle_ts i = idle_tty\<lparr>console_p := Some i\<rparr>"
  "shift_l idle_ts = False" "shift_r idle_ts = False" "caps_lock idle_ts = True" "code_with_E0 idle_ts = False"
  "ctrl_l idle_ts = False" "ctrl_r idle_ts = False" "alt_l idle_ts = False" "alt_r idle_ts = False"
  "num_lock idle_ts = False" "console_table idle_ts = console_table idle_con" "kmem idle_ts = (\<lambda>_. 0)"
  "proc_table idle_ts = (\<lambda>_. idle_proc)" "tty_sent idle_ts = []" "current_tty idle_ts = 0"
  by (simp_all add: idle_ts_def constate.defs tstate.fields_def fun_eq_iff)
     (simp_all add: idle_con_def idle_io_def idle_state_def iostate.defs kstate.defs constate.fields_def)

lemma idle_ts_ok [simp]: "kb_ok idle_ts" "kb_items idle_ts = []" "tty_ok i idle_ts" "tty_items i idle_ts = []"
  by (simp_all add: kb_ok_def kb_items_def tty_ok_def tty_items_def idle_tty_def)

theorem keyboard_ring_fifo_witness:
  "kb_items (fold kb_put [0x1E, 0x30] idle_ts) = [0x1E, 0x30] \<and>
   get_byte_from_kbuf idle_ts = Inl (Wait ''kb_in'')"
  using keyboard_ring_fifo[of idle_ts "\<lambda>_ _. 0" "[0x1E, 0x30]"] by simp

subsection \<open>Typing\<close>

text \<open>The key that a scan code stands for, on a given state of the modifiers.\<close>

definition plain_key :: "'a tstate_scheme \<Rightarrow> byte \<Rightarrow> u32" where
  "plain_key s scan_code = (case keymap ! unat (scan_code AND 0x7F) of (c0, c1, c2) \<Rightarrow> if caps s c0 then c1 else c0)"

text \<open>
  The American layout of the keys that type a character: the scan code of the first key of a run
  of keys, the characters of the run, and its characters with shift. Caps lock turns the sense of
  shift around for the letters. On the keypad the digits, the signs and the point are typed with
  shift down.
\<close>

definition us_runs :: "(nat \<times> string \<times> string) list" where
  "us_runs =
    [ (0x02, ''1234567890-='', ''!@#$%^&*()_+''),
      (0x10, ''qwertyuiop[]'', ''QWERTYUIOP{}''),
      (0x1E, ''asdfghjkl;'' @ [CHR 0x27, CHR 0x60], ''ASDFGHJKL:'' @ [CHR 0x22, CHR 0x7E]),
      (0x2B, CHR 0x5C # ''zxcvbnm,./'', ''|ZXCVBNM<>?''),
      (0x37, ''*'', ''*''),
      (0x39, '' '', '' '') ]"

definition us_letter :: "char \<Rightarrow> bool" where
  "us_letter c = (c \<in> set ''abcdefghijklmnopqrstuvwxyz'')"

definition us_char :: "nat \<Rightarrow> bool \<Rightarrow> bool \<Rightarrow> char option" where
  "us_char code shift lock =
     (case find (\<lambda>(first, low, up). first \<le> code \<and> code < first + length low) us_runs of
        Some (first, low, up) \<Rightarrow>
          (let c = low ! (code - first) in
           Some (if shift \<noteq> (lock \<and> us_letter c) then up ! (code - first) else c))
      | None \<Rightarrow> if shift \<and> 0x47 \<le> code \<and> code < 0x54 then Some (''789-456+1230.'' ! (code - 0x47)) else None)"

definition printable_key :: "u32 \<Rightarrow> bool" where
  "printable_key c = (0x20 \<le> c \<and> c \<le> 0x7E)"

lemma printable_not_ext: "printable_key c \<Longrightarrow> c AND FLAG_EXT = 0"
proof -
  assume "printable_key c"
  then have "unat c < 128" by (simp add: printable_key_def word_le_nat_alt)
  then have "unat (drop_bit 8 c) = 0" by (simp add: unat_drop_bit_eq drop_bit_eq_div unat_div)
  then have "drop_bit 8 c = 0" by (metis unsigned_eq_0_iff)
  then have "\<not> bit c 8" by (simp add: bit_iff_odd_drop_bit)
  then show ?thesis using and_exp_eq_0_iff_not_bit[of c 8] by simp
qed

lemma key_flags_char: "(ucast (c OR key_flags s) :: byte) = ucast c"
proof -
  have z: "(ucast (if b then FLAG_SHIFT_L else 0 :: u32) :: byte) = 0" "(ucast (if b then FLAG_SHIFT_R else 0 :: u32) :: byte) = 0"
    "(ucast (if b then FLAG_CTRL_L else 0 :: u32) :: byte) = 0" "(ucast (if b then FLAG_CTRL_R else 0 :: u32) :: byte) = 0"
    "(ucast (if b then FLAG_ALT_L else 0 :: u32) :: byte) = 0" "(ucast (if b then FLAG_ALT_R else 0 :: u32) :: byte) = 0" for b
    by simp_all
  show ?thesis unfolding key_flags_def unsigned_or_eq z by simp
qed

lemma key_flags_ext: "c AND FLAG_EXT = 0 \<Longrightarrow> (c OR key_flags s) AND FLAG_EXT = 0"
  by (simp add: key_flags_def bit.conj_disj_distrib2)

lemma printable_modifiers:
  "printable_key c \<Longrightarrow> modifiers hw m c s = Inr (c, s)"
proof -
  assume c: "printable_key c"
  have "c \<noteq> k" if "0x7F \<le> k" for k
    using c that by (auto simp: printable_key_def word_le_nat_alt)
  then show ?thesis
    by (cases m) (simp_all add: modifiers_def bindE_def op_defs)
qed

lemma printable_pad: "printable_key c \<Longrightarrow> pad_key n c = c"
proof -
  assume c: "printable_key c"
  have "\<not> PAD_SLASH \<le> c"
    using c by (auto simp: printable_key_def not_le elim: le_less_trans)
  then show ?thesis by (simp add: pad_key_def)
qed

lemma low_scan_code:
  assumes "unat (sc :: byte) < 0x80"
  shows "sc AND 0x7F = sc \<and> sc AND 0x80 = 0"
proof -
  have "unat (take_bit 7 sc) = unat sc" using assms by (simp add: unsigned_take_bit_eq take_bit_nat_eq_self)
  then have "take_bit 7 sc = sc" by (rule unsigned_word_eqI)
  then have m: "sc AND 0x7F = sc" by (simp add: take_bit_eq_mask mask_numeral)
  have "(sc AND 0x7F) AND 0x80 = 0" by (simp add: and.assoc)
  then show ?thesis unfolding m by (simp add: m)
qed

text \<open>The map and the choice of the column are the layout.\<close>

lemma keymap_layout:
  assumes "us_char code shift lock = Some ch"
  shows "\<exists>c0 c1 c2. code < 0x80 \<and> keymap ! code = (c0, c1, c2) \<and> printable_key (of_char ch) \<and>
    of_char ch = (if (if lock \<and> 0x61 \<le> c0 \<and> c0 \<le> 0x7A then \<not> shift else shift) then c1 else c0)"
proof -
  have "code < 0x54"
    using assms by (auto simp: us_char_def us_runs_def split: if_splits)
  then have "code \<in> set [0..<0x54]" "shift \<in> {True, False}" "lock \<in> {True, False}" by auto
  moreover have "\<forall>code \<in> set [0..<0x54]. \<forall>shift \<in> {True, False}. \<forall>lock \<in> {True, False}.
     case us_char code shift lock of None \<Rightarrow> True
     | Some ch \<Rightarrow> (case keymap ! code of (c0, c1, c2) \<Rightarrow> printable_key (of_char ch) \<and>
        of_char ch = (if (if lock \<and> 0x61 \<le> c0 \<and> c0 \<le> 0x7A then \<not> shift else shift) then c1 else c0))"
    by code_simp
  ultimately have "case us_char code shift lock of None \<Rightarrow> True
     | Some ch \<Rightarrow> (case keymap ! code of (c0, c1, c2) \<Rightarrow> printable_key (of_char ch) \<and>
        of_char ch = (if (if lock \<and> 0x61 \<le> c0 \<and> c0 \<le> 0x7A then \<not> shift else shift) then c1 else c0))"
    by blast
  moreover obtain c0 c1 c2 where row: "keymap ! code = (c0, c1, c2)" by (metis prod_cases3)
  ultimately have "printable_key (of_char ch) \<and>
     of_char ch = (if (if lock \<and> 0x61 \<le> c0 \<and> c0 \<le> 0x7A then \<not> shift else shift) then c1 else c0)"
    unfolding assms row option.case prod.case by -
  moreover have "code < 0x80" using \<open>code < 0x54\<close> by simp
  ultimately show ?thesis using row by blast
qed

lemma plain_key_layout:
  assumes "us_char (unat sc) (shift_l s \<or> shift_r s) (caps_lock s) = Some ch"
  shows "plain_key s sc = of_char ch" "printable_key (plain_key s sc)" "sc AND FLAG_BREAK = 0"
proof -
  obtain c0 c1 c2 where k: "unat sc < 0x80" "keymap ! unat sc = (c0, c1, c2)" "printable_key (of_char ch)"
    "of_char ch = (if (if caps_lock s \<and> 0x61 \<le> c0 \<and> c0 \<le> 0x7A then \<not> (shift_l s \<or> shift_r s) else shift_l s \<or> shift_r s) then c1 else c0)"
    using keymap_layout[OF assms] by blast
  have m: "sc AND 0x7F = sc" and b: "sc AND FLAG_BREAK = 0"
    using k(1) low_scan_code by blast+
  show "plain_key s sc = of_char ch" unfolding plain_key_def m k(2) k(4) by (simp add: caps_def)
  then show "printable_key (plain_key s sc)" using k(3) by simp
  show "sc AND FLAG_BREAK = 0" by (rule b)
qed

lemma ordinary_scan_code:
  "sc AND 0x80 = 0 \<Longrightarrow> sc \<noteq> (0xE0 :: byte) \<and> sc \<noteq> 0xE1"
  by auto

lemma read_ordinary:
  assumes "kb_ok s" "kb_items s = sc # rest" "sc \<noteq> 0xE0" "sc \<noteq> 0xE1"
  obtains t where "read_scan_code key s = Inr ((sc, key), t)" "kb_ok t" "kb_items t = rest"
    "t = s\<lparr>kb_in := kb_in t, int_enabled := True\<rparr>"
proof -
  obtain t where t: "get_byte_from_kbuf s = Inr (sc, t)" "kb_ok t" "kb_items t = rest"
    "t = s\<lparr>kb_in := kb_in t, int_enabled := True\<rparr>"
    by (rule get_byte_ok[OF assms(1,2)])
  then have "read_scan_code key s = Inr ((sc, key), t)"
    using assms(3,4) by (simp add: read_scan_code_def bindE_def op_defs)
  then show ?thesis using that t by blast
qed

lemma typed_key:
  assumes "i < NR_TTY" "kb_ok s" "kb_items s = sc # rest" "sc AND FLAG_BREAK = 0" "\<not> code_with_E0 s"
    "printable_key (plain_key s sc)" "junk s \<noteq> PAUSEBREAK" "junk s \<noteq> PRINTSCREEN"
    "tty_ok i s" "length (tty_items i s) < TTY_BUFFER_SIZE"
  shows "\<exists>t key. keyboard_read hw junk i s = Inr ((), t) \<and> kb_ok t \<and> kb_items t = rest \<and>
    tty_ok i t \<and> tty_items i t = tty_items i s @ [key] \<and> ucast key = (ucast (plain_key s sc) :: byte) \<and>
    caps_lock t = caps_lock s \<and> key_flags t = key_flags s"
proof -
  have pos: "0 < r_count (kb_in s)" using kb_count[OF assms(2)] assms(3) by simp
  obtain t where t: "read_scan_code (junk s) s = Inr ((sc, junk s), t)" "kb_ok t" "kb_items t = rest"
    "t = s\<lparr>kb_in := kb_in t, int_enabled := True\<rparr>"
    by (rule read_ordinary[OF assms(2,3)]) (use ordinary_scan_code[OF assms(4)] in auto)
  obtain c0 c1 c2 where row: "keymap ! unat (sc AND 0x7F) = (c0, c1, c2)"
    by (metis prod_cases3)
  define c where "c = plain_key s sc"
  have c: "c = (if caps s c0 then c1 else c0)" "printable_key c"
    using row assms(6) by (simp_all add: plain_key_def c_def)
  obtain ki where st: "t = s\<lparr>kb_in := ki, int_enabled := True\<rparr>" using t(4) by blast
  have same: "code_with_E0 t = code_with_E0 s" "caps t c0 = caps s c0" "key_flags t = key_flags s" "caps_lock t = caps_lock s"
    "tty_table t = tty_table s"
    by (simp_all add: st caps_def key_flags_def)
  have look: "look_up_key sc t = Inr (c, t)"
    using assms(5) same by (simp add: look_up_key_def row bindE_def op_defs c(1))
  let ?u = "tty_put i (c OR key_flags s) t"
  have "in_process i (c OR key_flags s) t = Inr ((), ?u)"
    using key_flags_ext[OF printable_not_ext[OF c(2)], of s] assms(1)
    by (simp add: in_process_def put_key2tty_def ttyE_def bindE_def op_defs)
  then have "decode_key hw i sc t = Inr ((), ?u)"
    using assms(4) same
    by (simp add: decode_key_def Let_def bindE_def look printable_modifiers[OF c(2)] printable_pad[OF c(2)] op_defs)
  then have "keyboard_read hw junk i s = Inr ((), ?u)"
    using pos t(1) assms(7,8) by (simp add: keyboard_read_def bindE_def op_defs)
  moreover have tt: "tty_ok i t" "tty_items i t = tty_items i s" using assms(9) same by (simp_all add: tty_ok_def tty_items_def)
  moreover have "kb_ok ?u" "kb_items ?u = rest" "caps_lock ?u = caps_lock s" "key_flags ?u = key_flags s"
    using t(2,3) same by (simp_all add: kb_ok_def kb_items_def tty_put_def key_flags_def)
  ultimately show ?thesis
    using tyq.put_ok[OF tt(1)] tyq.put_items[OF tt(1), of "c OR key_flags s"] assms(10) key_flags_char[of c s]
    unfolding c_def[symmetric] by auto
qed

text \<open>
  C13. When the next scan code is the make code of a key that types a character on an American
  keyboard with the shift keys and the caps lock as they are, \<open>keyboard_read\<close> takes it out and
  puts that character, with the modifiers in the upper bits, behind the keys the terminal has; the
  locks and the modifiers stay. The hypotheses on \<open>junk\<close> are that the uninitialised \<open>key\<close> is not one
  of the two values that make the code skip the decoding.
\<close>

theorem typed_char:
  assumes "i < NR_TTY" "kb_ok s" "kb_items s = sc # rest" "\<not> code_with_E0 s"
    "us_char (unat sc) (shift_l s \<or> shift_r s) (caps_lock s) = Some ch"
    "junk s \<noteq> PAUSEBREAK" "junk s \<noteq> PRINTSCREEN" "tty_ok i s" "length (tty_items i s) < TTY_BUFFER_SIZE"
  shows "\<exists>t key. keyboard_read hw junk i s = Inr ((), t) \<and> kb_ok t \<and> kb_items t = rest \<and>
    tty_ok i t \<and> tty_items i t = tty_items i s @ [key] \<and> ucast key = (of_char ch :: byte) \<and>
    caps_lock t = caps_lock s \<and> key_flags t = key_flags s"
proof -
  note k = plain_key_layout[OF assms(5)]
  have n: "(of_char ch :: nat) mod 256 = of_char ch" by (rule of_char_mod_256)
  have "(of_char ch :: nat) < 256" using mod_less_divisor[of 256 "of_char ch :: nat"] unfolding n by simp
  then have "(of_char ch :: nat) < 2 ^ 32" by (rule less_trans) simp
  then have "(ucast (of_nat (of_char ch) :: u32) :: byte) = of_nat (of_char ch)"
    by (simp add: unsigned_of_nat take_bit_nat_eq_self del: of_nat_of_char)
  then have "(ucast (of_char ch :: u32) :: byte) = of_char ch" by (simp only: of_nat_of_char)
  then show ?thesis
    using typed_key[where junk = junk and hw = hw, OF assms(1-3) k(3) assms(4) k(2) assms(6-9)] unfolding k(1) by simp
qed

text \<open>The key 'a' with caps lock on, as at boot, types 'A'; with the right shift key down besides, 'a'.\<close>

theorem typed_char_witness:
  "(\<exists>t. keyboard_read (\<lambda>_ _. 0) (\<lambda>_. 0) 0 (kb_put 0x1E idle_ts) = Inr ((), t) \<and> map ucast (tty_items 0 t) = [0x41 :: byte]) \<and>
   (\<exists>t. keyboard_read (\<lambda>_ _. 0) (\<lambda>_. 0) 0 (kb_put 0x1E (idle_ts\<lparr>shift_r := True\<rparr>)) = Inr ((), t) \<and>
     map ucast (tty_items 0 t) = [0x61 :: byte])"
proof
  let ?s = "kb_put 0x1E idle_ts"
  have s: "kb_ok ?s" "kb_items ?s = [0x1E]" using kbq.put_ok[of idle_ts] kbq.put_items[of idle_ts] by simp_all
  have k: "us_char (unat (0x1E :: byte)) (shift_l ?s \<or> shift_r ?s) (caps_lock ?s) = Some (CHR 0x41)"
    by (simp add: us_char_def us_runs_def us_letter_def kb_put_def)
  have t: "tty_ok 0 ?s" "tty_items 0 ?s = []" "\<not> code_with_E0 ?s"
    by (simp_all add: kb_put_def tty_ok_def tty_items_def idle_tty_def)
  show "\<exists>t. keyboard_read (\<lambda>_ _. 0) (\<lambda>_. 0) 0 ?s = Inr ((), t) \<and> map ucast (tty_items 0 t) = [0x41 :: byte]"
    using typed_char[of 0 ?s "0x1E" "[]" "CHR 0x41" "\<lambda>_. 0" "\<lambda>_ _. 0"] s k t by auto
next
  let ?i = "idle_ts\<lparr>shift_r := True\<rparr>"
  let ?s = "kb_put 0x1E ?i"
  have "kb_ok ?i" "kb_items ?i = []" using idle_ts_ok by (simp_all add: kb_ok_def kb_items_def)
  then have s: "kb_ok ?s" "kb_items ?s = [0x1E]" using kbq.put_ok[of ?i] kbq.put_items[of ?i] by simp_all
  have k: "us_char (unat (0x1E :: byte)) (shift_l ?s \<or> shift_r ?s) (caps_lock ?s) = Some (CHR 0x61)"
    by (simp add: us_char_def us_runs_def us_letter_def kb_put_def)
  have t: "tty_ok 0 ?s" "tty_items 0 ?s = []" "\<not> code_with_E0 ?s"
    by (simp_all add: kb_put_def tty_ok_def tty_items_def idle_tty_def)
  show "\<exists>t. keyboard_read (\<lambda>_ _. 0) (\<lambda>_. 0) 0 ?s = Inr ((), t) \<and> map ucast (tty_items 0 t) = [0x61 :: byte]"
    using typed_char[of 0 ?s "0x1E" "[]" "CHR 0x61" "\<lambda>_. 0" "\<lambda>_ _. 0"] s k t by auto
qed

text \<open>What the release of a key may change.\<close>

definition released :: "'a tstate_scheme \<Rightarrow> 'a tstate_scheme \<Rightarrow> bool" where
  "released s t = (tty_table t = tty_table s \<and> console_table t = console_table s \<and> kmem t = kmem s \<and>
     caps_lock t = caps_lock s \<and> num_lock t = num_lock s \<and> (shift_l t \<longrightarrow> shift_l s) \<and> (shift_r t \<longrightarrow> shift_r s))"

lemma modifiers_release:
  "\<exists>c' v. modifiers hw False c u = Inr (c', v) \<and> kb_in v = kb_in u \<and> released u v"
  by (simp add: modifiers_def bindE_def op_defs released_def)

text \<open>
  Releasing a key types nothing: for every break code of an ordinary key \<open>keyboard_read\<close>
  returns, the scan code is consumed, and no terminal changes; at most a modifier key's
  state is cleared.
\<close>

lemma release_types_nothing:
  assumes "kb_ok s" "kb_items s = sc # rest" "sc AND FLAG_BREAK \<noteq> 0" "sc \<noteq> 0xE0" "sc \<noteq> 0xE1"
  shows "\<exists>t. keyboard_read hw junk i s = Inr ((), t) \<and> kb_ok t \<and> kb_items t = rest \<and> released s t"
proof -
  have pos: "0 < r_count (kb_in s)" using kb_count[OF assms(1)] assms(2) by simp
  obtain t where t: "read_scan_code (junk s) s = Inr ((sc, junk s), t)" "kb_ok t" "kb_items t = rest"
    "t = s\<lparr>kb_in := kb_in t, int_enabled := True\<rparr>"
    by (rule read_ordinary[OF assms(1,2,4,5)])
  obtain c0 c1 c2 where row: "keymap ! unat (sc AND 0x7F) = (c0, c1, c2)"
    by (metis prod_cases3)
  obtain ki where st: "t = s\<lparr>kb_in := ki, int_enabled := True\<rparr>" using t(4) by blast
  obtain c u where u: "look_up_key sc t = Inr (c, u)" "u = t \<or> u = t\<lparr>code_with_E0 := False\<rparr>"
    by (cases "code_with_E0 t") (auto simp: look_up_key_def row bindE_def op_defs)
  obtain c' v where v: "modifiers hw False c u = Inr (c', v)" "kb_in v = kb_in u" "released u v"
    using modifiers_release by blast
  have "decode_key hw i sc t = Inr ((), v)"
    using assms(3) by (simp add: decode_key_def Let_def bindE_def u(1) v(1) op_defs)
  then consider "keyboard_read hw junk i s = Inr ((), v)" | "keyboard_read hw junk i s = Inr ((), t)"
    using pos t(1) by (cases "junk s \<noteq> PAUSEBREAK \<and> junk s \<noteq> PRINTSCREEN") (auto simp: keyboard_read_def bindE_def op_defs)
  moreover have "kb_in v = kb_in t" using u(2) v(2) by auto
  then have "kb_ok v" "kb_items v = rest" using t(2,3) by (simp_all add: kb_ok_def kb_items_def)
  moreover have "released s t" by (simp add: st released_def)
  moreover have "released t u" using u(2) by (auto simp: released_def)
  then have "released s v" using v(3) \<open>released s t\<close> by (simp add: released_def)
  ultimately show ?thesis
    using t(2,3) by metis
qed

end
