(* ===== verification/Tty.thy ===== *)
theory Tty
  imports Keyboard
begin

section \<open>The terminal task\<close>

text \<open>
  kernel/tty.c: the task that serves the three terminals, and \<open>sys_printx\<close>. A call
  \<open>send_recv(SEND, p, &msg)\<close> is recorded in \<open>tty_sent\<close>, newest first; what the kernel does with
  the message is theory \<open>Ipc\<close>'s subject. The loops of the task have no bound in the code and are
  \<open>partial_function\<close>s. The local array \<open>buf\<close> of \<open>tty_do_write\<close> is at the address \<open>buf\<close>. Members of a local
  message that are not assigned are zero here.
\<close>

abbreviation (input) TTY_OUT_BUF_LEN :: int where "TTY_OUT_BUF_LEN \<equiv> 2"
abbreviation (input) MAG_CH_ASSERT :: byte where "MAG_CH_ASSERT \<equiv> 0x02"
abbreviation (input) MAG_CH_PANIC :: byte where "MAG_CH_PANIC \<equiv> 0x03"
abbreviation (input) GRAY_CHAR :: byte where "GRAY_CHAR \<equiv> 0x08"
abbreviation (input) RED_CHAR :: byte where "RED_CHAR \<equiv> 0x1C"

definition send_msg :: "int \<Rightarrow> message \<Rightarrow> ('a tstate_scheme, unit) op" where
  "send_msg dest msg = modE (\<lambda>s. s\<lparr>tty_sent := (dest, msg) # tty_sent s\<rparr>)"

definition run_loop :: "string \<Rightarrow> ('s \<Rightarrow> (fault + unit \<times> 's) option) \<Rightarrow> ('s, unit) op" where
  "run_loop name f = (\<lambda>s. case f s of None \<Rightarrow> Inl (Spin name) | Some r \<Rightarrow> r)"

definition init_tty :: "nat \<Rightarrow> ('a tstate_scheme, unit) op" where
  "init_tty i =
     bindE (ttyE i) (\<lambda>_.
     bindE (updT i (\<lambda>t. t\<lparr>t_ring := (t_ring t)\<lparr>r_count := 0, r_head := 0, r_tail := 0\<rparr>, console_p := Some i\<rparr>)) (\<lambda>_.
     init_console i))"

subsection \<open>Input\<close>

partial_function (option) tty_read_loop ::
    "hardware \<Rightarrow> ('a tstate_scheme \<Rightarrow> u32) \<Rightarrow> nat \<Rightarrow> 'a tstate_scheme \<Rightarrow> (fault + unit \<times> 'a tstate_scheme) option" where
  "tty_read_loop hw junk i s =
     (if 0 < r_count (kb_in s) then
        (case keyboard_read hw junk i s of
           Inl e \<Rightarrow> Some (Inl e)
         | Inr (_, t) \<Rightarrow> tty_read_loop hw junk i t)
      else Some (Inr ((), s)))"

definition tty_read :: "hardware \<Rightarrow> ('a tstate_scheme \<Rightarrow> u32) \<Rightarrow> nat \<Rightarrow> ('a tstate_scheme, unit) op" where
  "tty_read hw junk i =
     bindE (getsE current_tty) (\<lambda>cur. whenE (i = cur) (run_loop ''tty_read'' (tty_read_loop hw junk i)))"

subsection \<open>Echo, and the characters for the reader\<close>

definition echo :: "nat \<Rightarrow> byte \<Rightarrow> ('a tstate_scheme, unit) op" where
  "echo i ch = bindE (tty_console i) (\<lambda>c. out_char c ch)"

text \<open>
  One character taken from the ring while a reader waits: it is stored, or takes the last one
  back; a newline or the last character wanted completes the request.
\<close>

definition tty_store :: "nat \<Rightarrow> byte \<Rightarrow> ('a tstate_scheme, unit) op" where
  "tty_store i ch =
     bindE (ttyE i) (\<lambda>t.
     if 0x20 \<le> ch \<and> ch \<le> 0x7E then
       bindE (echo i ch) (\<lambda>_.
       bindE (pokeE (reqer_buf t + u32_int (sended_cnt t)) ch) (\<lambda>_.
       updT i (\<lambda>t. t\<lparr>sended_cnt := sended_cnt t + 1, reqed_cnt := reqed_cnt t - 1\<rparr>)))
     else if ch = 0x08 \<and> sended_cnt t \<noteq> 0 then
       bindE (echo i ch) (\<lambda>_.
       updT i (\<lambda>t. t\<lparr>sended_cnt := sended_cnt t - 1, reqed_cnt := reqed_cnt t + 1\<rparr>))
     else ret ())"

definition tty_complete :: "nat \<Rightarrow> byte \<Rightarrow> ('a tstate_scheme, unit) op" where
  "tty_complete i ch =
     bindE (ttyE i) (\<lambda>t.
     whenE (ch = 0x0A \<or> reqed_cnt t = 0)
       (bindE (echo i ch) (\<lambda>_.
        bindE (ttyE i) (\<lambda>t.
        bindE (send_msg (t_caller t) (zero_msg\<lparr>m_type := RESUME_PROC, m3i3 := proc2tty t, m3i2 := sended_cnt t\<rparr>)) (\<lambda>_.
        updT i (\<lambda>t. t\<lparr>reqed_cnt := 0\<rparr>))))))"

definition tty_take :: "nat \<Rightarrow> byte \<Rightarrow> ('a tstate_scheme, unit) op" where
  "tty_take i ch = bindE (tty_store i ch) (\<lambda>_. tty_complete i ch)"

definition tty_write_step :: "nat \<Rightarrow> ('a tstate_scheme, unit) op" where
  "tty_write_step i =
     bindE (\<lambda>s. Inr (tty_get i s)) (\<lambda>key.
     bindE (ttyE i) (\<lambda>t.
     whenE (reqed_cnt t \<noteq> 0) (tty_take i (ucast key))))"

partial_function (option) tty_write_loop ::
    "nat \<Rightarrow> 'a tstate_scheme \<Rightarrow> (fault + unit \<times> 'a tstate_scheme) option" where
  "tty_write_loop i s =
     (if 0 < r_count (t_ring (tty_table s i)) then
        (case tty_write_step i s of
           Inl e \<Rightarrow> Some (Inl e)
         | Inr (_, t) \<Rightarrow> tty_write_loop i t)
      else Some (Inr ((), s)))"

definition tty_write :: "nat \<Rightarrow> ('a tstate_scheme, unit) op" where
  "tty_write i = bindE (ttyE i) (\<lambda>_. run_loop ''tty_write'' (tty_write_loop i))"

subsection \<open>Output\<close>

text \<open>\<open>write_tty\<close>: \<open>len\<close> characters from \<open>buf\<close>.\<close>

partial_function (option) write_tty_loop ::
    "nat \<Rightarrow> addr \<Rightarrow> int \<Rightarrow> 'a tstate_scheme \<Rightarrow> (fault + unit \<times> 'a tstate_scheme) option" where
  "write_tty_loop i p n s =
     (if n \<noteq> 0 then
        (case echo i (kmem s p) s of
           Inl e \<Rightarrow> Some (Inl e)
         | Inr (_, t) \<Rightarrow> write_tty_loop i (p + 1) (s32 (n - 1)) t)
      else Some (Inr ((), s)))"

definition write_tty :: "nat \<Rightarrow> addr \<Rightarrow> int \<Rightarrow> ('a tstate_scheme, unit) op" where
  "write_tty i buf len = run_loop ''write_tty'' (write_tty_loop i buf len)"

definition tty_do_read :: "nat \<Rightarrow> message \<Rightarrow> ('a tstate_scheme, unit) op" where
  "tty_do_read i msg =
     bindE (ttyE i) (\<lambda>_.
     bindE (updT i (\<lambda>t. t\<lparr>t_caller := m_source msg, proc2tty := msg_PROC_NR msg\<rparr>)) (\<lambda>_.
     bindE (va2la (msg_PROC_NR msg) (msg_BUF msg)) (\<lambda>la.
     bindE (updT i (\<lambda>t. t\<lparr>reqer_buf := la, sended_cnt := 0, reqed_cnt := msg_CNT msg\<rparr>)) (\<lambda>_.
     send_msg (m_source msg) (msg\<lparr>m_type := SUSPEND_PROC\<rparr>)))))"

text \<open>One chunk of \<open>tty_do_write\<close>, and the loop over the chunks.\<close>

definition write_chunk :: "nat \<Rightarrow> addr \<Rightarrow> addr \<Rightarrow> int \<Rightarrow> ('a tstate_scheme, unit) op" where
  "write_chunk i buf p bytes =
     bindE (va2la TASK_TTY buf) (\<lambda>la.
     bindE (modE (\<lambda>s. s\<lparr>kmem := phys_copy la p bytes (kmem s)\<rparr>)) (\<lambda>_.
     forE [0..<nat bytes] (\<lambda>j. bindE (getsE (\<lambda>s. kmem s (buf + of_nat j))) (echo i))))"

partial_function (option) do_write_loop ::
    "nat \<Rightarrow> addr \<Rightarrow> addr \<Rightarrow> int \<Rightarrow> 'a tstate_scheme \<Rightarrow> (fault + unit \<times> 'a tstate_scheme) option" where
  "do_write_loop i buf p n s =
     (if n \<noteq> 0 then
        (case write_chunk i buf p (min TTY_OUT_BUF_LEN n) s of
           Inl e \<Rightarrow> Some (Inl e)
         | Inr (_, t) \<Rightarrow> do_write_loop i buf (p + u32_int (min TTY_OUT_BUF_LEN n)) (n - min TTY_OUT_BUF_LEN n) t)
      else Some (Inr ((), s)))"

definition tty_do_write :: "addr \<Rightarrow> nat \<Rightarrow> message \<Rightarrow> ('a tstate_scheme, unit) op" where
  "tty_do_write buf i msg =
     bindE (va2la (msg_PROC_NR msg) (msg_BUF msg)) (\<lambda>p.
     bindE (run_loop ''tty_do_write'' (do_write_loop i buf p (msg_CNT msg))) (\<lambda>_.
     send_msg (m_source msg) (msg\<lparr>m_type := SYSCALL_RET\<rparr>)))"

subsection \<open>The task\<close>

definition task_tty_init :: "hardware \<Rightarrow> ('a tstate_scheme, unit) op" where
  "task_tty_init hw = blockE [
     init_keyboard hw,
     set_cursor_length,
     forE [0..<NR_TTY] init_tty,
     modE (\<lambda>s. s\<lparr>current_tty := 0\<rparr>),
     bindE (tty_console 0) switch_console]"

partial_function (option) tty_poll_loop ::
    "hardware \<Rightarrow> ('a tstate_scheme \<Rightarrow> u32) \<Rightarrow> nat \<Rightarrow> 'a tstate_scheme \<Rightarrow> (fault + unit \<times> 'a tstate_scheme) option" where
  "tty_poll_loop hw junk i s =
     (case bindE (tty_read hw junk i) (\<lambda>_. tty_write i) s of
        Inl e \<Rightarrow> Some (Inl e)
      | Inr (_, t) \<Rightarrow> if r_count (t_ring (tty_table t i)) \<noteq> 0 then tty_poll_loop hw junk i t else Some (Inr ((), t)))"

definition tty_poll_all :: "hardware \<Rightarrow> ('a tstate_scheme \<Rightarrow> u32) \<Rightarrow> ('a tstate_scheme, unit) op" where
  "tty_poll_all hw junk = forE [0..<NR_TTY] (\<lambda>i. run_loop ''task_tty'' (tty_poll_loop hw junk i))"

text \<open>The \<open>switch\<close> on a received message; \<open>dump_msg\<close> only prints.\<close>

definition tty_request :: "addr \<Rightarrow> message \<Rightarrow> ('a tstate_scheme, unit) op" where
  "tty_request buf msg =
     bindE (assertE ''src != TASK_TTY'' (\<lambda>_. m_source msg \<noteq> TASK_TTY)) (\<lambda>_.
     if m_type msg = DEV_OPEN then send_msg (m_source msg) (zero_msg\<lparr>m_type := SYSCALL_RET\<rparr>)
     else if m_type msg = DEV_READ then
       (if 0 \<le> msg_DEVICE msg then tty_do_read (nat (msg_DEVICE msg)) msg else fail (Bad_access ''tty_table''))
     else if m_type msg = DEV_WRITE then
       (if 0 \<le> msg_DEVICE msg then tty_do_write buf (nat (msg_DEVICE msg)) msg else fail (Bad_access ''tty_table''))
     else if m_type msg = HARD_INT then modE (\<lambda>s. s\<lparr>key_pressed := 0\<rparr>)
     else ret ())"

subsection \<open>\<open>sys_printx\<close>\<close>

text \<open>The red screen: the message over and over, each copy padded to 16 lines with grey.\<close>

partial_function (option) fill_gray :: "int \<Rightarrow> mem \<Rightarrow> (int \<times> mem) option" where
  "fill_gray v m =
     (if v mod (80 * 16) \<noteq> 0 then fill_gray (v + 2) (m(V_MEM_BASE + u32_int (v + 1) := GRAY_CHAR))
      else Some (v, m))"

partial_function (option) panic_fill :: "addr \<Rightarrow> addr \<Rightarrow> int \<Rightarrow> mem \<Rightarrow> mem option" where
  "panic_fill first q v m =
     (if v < V_MEM_SIZE then
        (let m1 = m(V_MEM_BASE + u32_int v := m q) in
         let m2 = m1(V_MEM_BASE + u32_int (v + 1) := RED_CHAR) in
         if m2 (q + 1) \<noteq> 0 then panic_fill first (q + 1) (v + 2) m2
         else (case fill_gray (v + 2) m2 of
                 None \<Rightarrow> None
               | Some r \<Rightarrow> panic_fill first first (fst r) (snd r)))
      else Some m)"

partial_function (option) printx_loop ::
    "addr \<Rightarrow> 'a tstate_scheme \<Rightarrow> (fault + unit \<times> 'a tstate_scheme) option" where
  "printx_loop p s =
     (if kmem s p = 0 then Some (Inr ((), s))
      else if kmem s p = MAG_CH_PANIC \<or> kmem s p = MAG_CH_ASSERT then printx_loop (p + 1) s
      else (case echo 0 (kmem s p) s of
              Inl e \<Rightarrow> Some (Inl e)
            | Inr (_, t) \<Rightarrow> printx_loop (p + 1) t))"

definition sys_printx :: "addr \<Rightarrow> int \<Rightarrow> ('a tstate_scheme, int) op" where
  "sys_printx str proc_p =
     bindE (getsE k_reenter) (\<lambda>k.
     bindE (if k = 0 then va2la proc_p str else ret str) (\<lambda>p.
     bindE (getsE (\<lambda>s. kmem s p = MAG_CH_PANIC \<or> kmem s p = MAG_CH_ASSERT \<and> p_proc_ready s < NR_TASKS)) (\<lambda>red.
     bindE (whenE red
       (bindE disable_int (\<lambda>_. \<lambda>s. case panic_fill (p + 1) (p + 1) 0 (kmem s) of
          None \<Rightarrow> Inl (Spin ''sys_printx'')
        | Some m \<Rightarrow> Inr ((), s\<lparr>kmem := m\<rparr>)))) (\<lambda>_.
     bindE (run_loop ''sys_printx'' (printx_loop p)) (\<lambda>_.
     ret 0)))))"

subsection \<open>The line discipline\<close>

text \<open>
  What a waiting reader gets: the characters collected so far and how many more it wants. A
  step appends a printable character, or takes the last one back on a backspace, and
  completes the line on a newline or when nothing more is wanted.
\<close>

definition line_step :: "byte \<Rightarrow> byte list \<times> nat \<Rightarrow> (byte list \<times> nat) \<times> bool" where
  "line_step ch = (\<lambda>(acc, req).
     let r = (if 0x20 \<le> ch \<and> ch \<le> 0x7E then (acc @ [ch], req - 1)
              else if ch = 0x08 \<and> acc \<noteq> [] then (butlast acc, req + 1) else (acc, req))
     in if ch = 0x0A \<or> snd r = 0 then ((fst r, 0), True) else (r, False))"

fun line_run :: "byte list \<Rightarrow> byte list \<times> nat \<Rightarrow> (byte list \<times> nat) \<times> bool" where
  "line_run [] st = (st, False)"
| "line_run (ch # chs) st =
     (if snd st = 0 then (st, False)
      else if snd (line_step ch st) then (fst (line_step ch st), True)
      else line_run chs (fst (line_step ch st)))"

text \<open>
  What the person at the keyboard sees: a character that is stored, and a backspace that takes one
  back, are shown; so is the character that completes the line, which is shown again when it was
  stored as the last one wanted. Characters after the line are not shown.
\<close>

definition shown :: "byte \<Rightarrow> byte list \<times> nat \<Rightarrow> byte list" where
  "shown ch = (\<lambda>(acc, req).
     (if 0x20 \<le> ch \<and> ch \<le> 0x7E \<or> ch = 0x08 \<and> acc \<noteq> [] then [ch] else []) @
     (if snd (line_step ch (acc, req)) then [ch] else []))"

fun line_echo :: "byte list \<Rightarrow> byte list \<times> nat \<Rightarrow> byte list" where
  "line_echo [] st = []"
| "line_echo (ch # chs) st =
     (if snd st = 0 then []
      else if snd (line_step ch st) then shown ch st
      else shown ch st @ line_echo chs (fst (line_step ch st)))"

definition screen_shows :: "byte list \<Rightarrow> screen \<Rightarrow> screen" where
  "screen_shows bs x = fold (\<lambda>ch x. screen_scroll (screen_put ch x)) bs x"

lemma screen_shows_simps [simp]:
  "screen_shows [] x = x" "screen_shows (ch # bs) x = screen_shows bs (screen_scroll (screen_put ch x))"
  "screen_shows (bs @ cs) x = screen_shows cs (screen_shows bs x)"
  by (simp_all add: screen_shows_def)

definition reader_at :: "nat \<Rightarrow> 'a tstate_scheme \<Rightarrow> byte list \<Rightarrow> nat \<Rightarrow> bool" where
  "reader_at i s acc req =
     (sended_cnt (tty_table s i) = int (length acc) \<and> reqed_cnt (tty_table s i) = int req \<and>
      (\<forall>k < length acc. kmem s (reqer_buf (tty_table s i) + of_nat k) = acc ! k))"

text \<open>
  The terminal has its console, and the reader's buffer of \<open>cap\<close> bytes does not overlap the
  console's window.
\<close>

definition tty_ready :: "nat \<Rightarrow> nat \<Rightarrow> nat \<Rightarrow> 'a tstate_scheme \<Rightarrow> bool" where
  "tty_ready i c cap s =
     (i < NR_TTY \<and> console_p (tty_table s i) = Some c \<and> c < NR_CONSOLES \<and> con_ok (console_table s c) \<and>
      cap < 2 ^ 31 \<and> region (reqer_buf (tty_table s i)) cap \<inter> window_bytes (console_table s c) = {})"

lemma con_frame_tty:
  assumes "con_frame c s t"
  shows "tty_table t = tty_table s" "tty_sent t = tty_sent s" "kb_in t = kb_in s"
    "window_bytes (console_table t c) = window_bytes (console_table s c)"
  using assms unfolding con_frame_def window_bytes_def by (cases s, cases t, simp)+

lemma echo_ok:
  assumes "tty_ready i c cap s" "reader_at i s acc req" "length acc \<le> cap"
  obtains t where "echo i ch s = Inr ((), t)" "con_frame c s t" "tty_ready i c cap t" "reader_at i t acc req"
    "screen_of t c = screen_scroll (screen_put ch (screen_of s c))"
proof -
  have r: "i < NR_TTY" "console_p (tty_table s i) = Some c" "c < NR_CONSOLES" "con_ok (console_table s c)"
    "region (reqer_buf (tty_table s i)) cap \<inter> window_bytes (console_table s c) = {}" "cap < 2 ^ 31"
    using assms(1) by (simp_all add: tty_ready_def)
  obtain t where t: "out_char c ch s = Inr ((), t)" "con_frame c s t" "con_ok (console_table t c)"
    "screen_of t c = screen_scroll (screen_put ch (screen_of s c))"
    by (rule out_char_ok[OF r(3,4)])
  have "echo i ch s = Inr ((), t)"
    using r t(1) by (simp add: echo_def tty_console_def ttyE_def bindE_def op_defs)
  moreover have "kmem t (reqer_buf (tty_table s i) + of_nat k) = kmem s (reqer_buf (tty_table s i) + of_nat k)"
    if "k < length acc" for k
  proof -
    have "k < cap" using that assms(3) by simp
    moreover from this have "unat (of_nat k :: u32) = k" using r(6) by (simp add: unat_of_nat)
    ultimately have "reqer_buf (tty_table s i) + of_nat k \<in> region (reqer_buf (tty_table s i)) cap"
      using region_offset[of "of_nat k" cap] by simp
    then show ?thesis using r(5) con_frameD(5)[OF t(2)] by blast
  qed
  then have "reader_at i t acc req"
    using assms(2) con_frame_tty[OF t(2)] by (simp add: reader_at_def)
  moreover have "tty_ready i c cap t"
    using assms(1) t(3) con_frame_tty[OF t(2)] by (simp add: tty_ready_def)
  ultimately show ?thesis using that t(2,4) by blast
qed

text \<open>What \<open>tty_take\<close> leaves alone.\<close>

definition take_frame :: "nat \<Rightarrow> nat \<Rightarrow> nat \<Rightarrow> 'a tstate_scheme \<Rightarrow> 'a tstate_scheme \<Rightarrow> bool" where
  "take_frame i c cap s t =
     (t_ring (tty_table t i) = t_ring (tty_table s i) \<and> t_caller (tty_table t i) = t_caller (tty_table s i) \<and>
      proc2tty (tty_table t i) = proc2tty (tty_table s i) \<and> reqer_buf (tty_table t i) = reqer_buf (tty_table s i) \<and>
      (\<forall>j. j \<noteq> i \<longrightarrow> tty_table t j = tty_table s j) \<and>
      window_bytes (console_table t c) = window_bytes (console_table s c) \<and>
      (\<forall>a. a \<notin> window_bytes (console_table s c) \<longrightarrow> a \<notin> region (reqer_buf (tty_table s i)) cap \<longrightarrow>
         kmem t a = kmem s a))"

lemma take_frame_refl [simp]: "take_frame i c cap s s"
  by (simp add: take_frame_def)

lemma take_frame_trans: "take_frame i c cap s t \<Longrightarrow> take_frame i c cap t u \<Longrightarrow> take_frame i c cap s u"
  by (simp add: take_frame_def)

lemma take_frame_con: "con_frame c s t \<Longrightarrow> take_frame i c cap s t"
  using con_frame_tty[of c s t] con_frameD(5)[of c s t] by (simp add: take_frame_def)

lemma updT_apply:
  "updT i f s = Inr ((), s\<lparr>tty_table := (tty_table s)(i := f (tty_table s i))\<rparr>)"
  by (simp add: updT_def op_defs)

text \<open>The resume message of a completed request.\<close>

definition resume_msg :: "int \<Rightarrow> nat \<Rightarrow> message" where
  "resume_msg who n = zero_msg\<lparr>m_type := RESUME_PROC, m3i3 := who, m3i2 := int n\<rparr>"

lemma tty_complete_ok:
  assumes "tty_ready i c cap s" "reader_at i s acc req" "length acc \<le> cap"
  obtains t where "tty_complete i ch s = Inr ((), t)" "tty_ready i c cap t" "take_frame i c cap s t"
    "reader_at i t acc (if ch = 0x0A \<or> req = 0 then 0 else req)"
    "tty_sent t = (if ch = 0x0A \<or> req = 0 then [(t_caller (tty_table s i), resume_msg (proc2tty (tty_table s i)) (length acc))]
       else []) @ tty_sent s"
    "screen_of t c = screen_shows (if ch = 0x0A \<or> req = 0 then [ch] else []) (screen_of s c)"
proof (cases "ch = 0x0A \<or> req = 0")
  case False
  then have "tty_complete i ch s = Inr ((), s)"
    using assms(1,2) by (simp add: tty_complete_def ttyE_def bindE_def op_defs tty_ready_def reader_at_def)
  then show ?thesis using that[of s] False assms by simp
next
  case True
  obtain u where u: "echo i ch s = Inr ((), u)" "con_frame c s u" "tty_ready i c cap u" "reader_at i u acc req"
    "screen_of u c = screen_scroll (screen_put ch (screen_of s c))"
    by (rule echo_ok[OF assms])
  let ?m = "resume_msg (proc2tty (tty_table u i)) (length acc)"
  let ?t = "u\<lparr>tty_sent := (t_caller (tty_table u i), ?m) # tty_sent u,
    tty_table := (tty_table u)(i := (tty_table u i)\<lparr>reqed_cnt := 0\<rparr>)\<rparr>"
  have "tty_complete i ch s = Inr ((), ?t)"
    using True assms(1,2) u(1,3,4)
    by (simp add: tty_complete_def ttyE_def bindE_def op_defs tty_ready_def reader_at_def send_msg_def updT_apply resume_msg_def)
  moreover have "tty_ready i c cap ?t" using u(3) by (simp add: tty_ready_def)
  moreover have "reader_at i ?t acc 0" using u(4) by (simp add: reader_at_def)
  moreover have "take_frame i c cap u ?t" by (simp add: take_frame_def)
  then have "take_frame i c cap s ?t" using take_frame_con[OF u(2)] take_frame_trans by blast
  moreover have "screen_of ?t c = screen_of u c" by (simp add: screen_of_def)
  ultimately show ?thesis
    using True con_frame_tty[OF u(2)] u(5) by (intro that[of ?t]) simp_all
qed

lemma region_inj: "j < n \<Longrightarrow> k < n \<Longrightarrow> n \<le> 2 ^ 32 \<Longrightarrow> (a :: addr) + of_nat j = a + of_nat k \<longleftrightarrow> j = k"
  unfolding add_left_cancel by (simp add: word_unat_eq_iff unat_of_nat)

lemma window_poke: "con_ok x \<Longrightarrow> a \<notin> window_bytes x \<Longrightarrow> window x (m(a := v)) = window x m"
  using window_put_outside(1)[of x _ a] by (auto simp: window_def fun_eq_iff)

lemma tty_store_ok:
  assumes "tty_ready i c cap s" "reader_at i s acc req" "0 < req" "length acc + req = cap"
  obtains t acc' req' where "tty_store i ch s = Inr ((), t)" "tty_ready i c cap t" "take_frame i c cap s t"
    "reader_at i t acc' req'" "tty_sent t = tty_sent s" "length acc' + req' = cap"
    "(acc', req') = (if 0x20 \<le> ch \<and> ch \<le> 0x7E then (acc @ [ch], req - 1)
       else if ch = 0x08 \<and> acc \<noteq> [] then (butlast acc, req + 1) else (acc, req))"
    "screen_of t c = screen_shows (if 0x20 \<le> ch \<and> ch \<le> 0x7E \<or> ch = 0x08 \<and> acc \<noteq> [] then [ch] else []) (screen_of s c)"
proof -
  have i: "i < NR_TTY" and cap: "cap < 2 ^ 31" using assms(1) by (simp_all add: tty_ready_def)
  have sc: "sended_cnt (tty_table s i) = int (length acc)" "reqed_cnt (tty_table s i) = int req"
    using assms(2) by (simp_all add: reader_at_def)
  consider (char) "0x20 \<le> ch \<and> ch \<le> 0x7E" | (bs) "ch = 0x08" "acc \<noteq> []"
    | (other) "\<not> (0x20 \<le> ch \<and> ch \<le> 0x7E)" "ch \<noteq> 0x08 \<or> acc = []" by blast
  then show ?thesis
  proof cases
    case char
    obtain u where u: "echo i ch s = Inr ((), u)" "con_frame c s u" "tty_ready i c cap u" "reader_at i u acc req"
      "screen_of u c = screen_scroll (screen_put ch (screen_of s c))"
      by (rule echo_ok[OF assms(1,2)]) (use assms(4) in auto)
    note tt = con_frame_tty[OF u(2)]
    let ?b = "reqer_buf (tty_table s i)"
    let ?a = "?b + of_nat (length acc)"
    let ?t = "u\<lparr>kmem := (kmem u)(?a := ch), tty_table := (tty_table u)(i := (tty_table u i)
      \<lparr>sended_cnt := sended_cnt (tty_table u i) + 1, reqed_cnt := reqed_cnt (tty_table u i) - 1\<rparr>)\<rparr>"
    have st: "tty_store i ch s = Inr ((), ?t)"
      using char i u(1) sc(1) by (simp add: tty_store_def ttyE_def bindE_def op_defs pokeE_def updT_apply u32_int_def)
    have la: "length acc < cap" using assms(3,4) by simp
    have ina: "?a \<in> region ?b cap"
      using region_offset[of "of_nat (length acc)" cap ?b] la cap by (simp add: unat_of_nat)
    have rd: "reader_at i ?t (acc @ [ch]) (req - 1)"
      using u(4) tt(1) assms(3) la cap region_inj[of _ cap "length acc" ?b]
      by (auto simp: reader_at_def nth_append less_Suc_eq)
    have "take_frame i c cap u ?t"
      using ina tt by (auto simp: take_frame_def)
    then have fr: "take_frame i c cap s ?t" using take_frame_con[OF u(2)] take_frame_trans by blast
    have rdy: "tty_ready i c cap ?t" using u(3) by (simp add: tty_ready_def)
    have "?a \<notin> window_bytes (console_table u c)" using ina u(3) tt(1) by (auto simp: tty_ready_def)
    then have scr: "screen_of ?t c = screen_of u c"
      using window_poke u(3) by (simp add: screen_of_def tty_ready_def)
    show ?thesis
      by (rule that[OF st rdy fr rd]) (use tt char assms(3,4) u(5) scr in auto)
  next
    case bs
    obtain u where u: "echo i ch s = Inr ((), u)" "con_frame c s u" "tty_ready i c cap u" "reader_at i u acc req"
      "screen_of u c = screen_scroll (screen_put ch (screen_of s c))"
      by (rule echo_ok[OF assms(1,2)]) (use assms(4) in auto)
    note tt = con_frame_tty[OF u(2)]
    let ?t = "u\<lparr>tty_table := (tty_table u)(i := (tty_table u i)
      \<lparr>sended_cnt := sended_cnt (tty_table u i) - 1, reqed_cnt := reqed_cnt (tty_table u i) + 1\<rparr>)\<rparr>"
    have st: "tty_store i ch s = Inr ((), ?t)"
      using bs i u(1) sc(1) by (simp add: tty_store_def ttyE_def bindE_def op_defs updT_apply)
    have rd: "reader_at i ?t (butlast acc) (req + 1)"
      using u(4) bs(2) by (auto simp: reader_at_def nth_butlast of_nat_diff Suc_leI)
    have "take_frame i c cap u ?t" by (simp add: take_frame_def)
    then have fr: "take_frame i c cap s ?t" using take_frame_con[OF u(2)] take_frame_trans by blast
    have rdy: "tty_ready i c cap ?t" using u(3) by (simp add: tty_ready_def)
    have scr: "screen_of ?t c = screen_of u c" by (simp add: screen_of_def)
    show ?thesis
      by (rule that[OF st rdy fr rd]) (use tt bs assms(4) u(5) scr in auto)
  next
    case other
    have st: "tty_store i ch s = Inr ((), s)"
      using other i sc(1) by (auto simp: tty_store_def ttyE_def bindE_def op_defs)
    show ?thesis
      by (rule that[OF st assms(1) take_frame_refl assms(2)]) (use other assms(4) in auto)
  qed
qed

lemma tty_take_ok:
  assumes "tty_ready i c cap s" "reader_at i s acc req" "0 < req" "length acc + req = cap"
  obtains t acc' req' where "tty_take i ch s = Inr ((), t)" "tty_ready i c cap t" "take_frame i c cap s t"
    "reader_at i t acc' req'" "fst (line_step ch (acc, req)) = (acc', req')" "length acc' + req' \<le> cap"
    "\<not> snd (line_step ch (acc, req)) \<Longrightarrow> length acc' + req' = cap"
    "tty_sent t = (if snd (line_step ch (acc, req))
       then [(t_caller (tty_table s i), resume_msg (proc2tty (tty_table s i)) (length acc'))] else []) @ tty_sent s"
    "screen_of t c = screen_shows (shown ch (acc, req)) (screen_of s c)"
proof -
  obtain u acc' req' where u: "tty_store i ch s = Inr ((), u)" "tty_ready i c cap u" "take_frame i c cap s u"
    "reader_at i u acc' req'" "tty_sent u = tty_sent s" "length acc' + req' = cap"
    "(acc', req') = (if 0x20 \<le> ch \<and> ch \<le> 0x7E then (acc @ [ch], req - 1)
       else if ch = 0x08 \<and> acc \<noteq> [] then (butlast acc, req + 1) else (acc, req))"
    "screen_of u c = screen_shows (if 0x20 \<le> ch \<and> ch \<le> 0x7E \<or> ch = 0x08 \<and> acc \<noteq> [] then [ch] else []) (screen_of s c)"
    by (rule tty_store_ok[OF assms])
  have "length acc' \<le> cap" using u(6) by simp
  from tty_complete_ok[OF u(2,4) this, of ch] obtain t where t: "tty_complete i ch u = Inr ((), t)" "tty_ready i c cap t"
    "take_frame i c cap u t" "reader_at i t acc' (if ch = 0x0A \<or> req' = 0 then 0 else req')"
    "tty_sent t = (if ch = 0x0A \<or> req' = 0 then [(t_caller (tty_table u i), resume_msg (proc2tty (tty_table u i)) (length acc'))]
       else []) @ tty_sent u"
    "screen_of t c = screen_shows (if ch = 0x0A \<or> req' = 0 then [ch] else []) (screen_of u c)" by blast
  have ls: "line_step ch (acc, req) = (if ch = 0x0A \<or> req' = 0 then ((acc', 0), True) else ((acc', req'), False))"
    unfolding line_step_def Let_def prod.case u(7)[symmetric] by simp
  have st: "tty_take i ch s = Inr ((), t)" using u(1) t(1) by (simp add: tty_take_def bindE_def)
  have fr: "take_frame i c cap s t" by (rule take_frame_trans[OF u(3) t(3)])
  have scr: "screen_of t c = screen_shows (shown ch (acc, req)) (screen_of s c)"
    unfolding shown_def prod.case ls screen_shows_simps(3) u(8)[symmetric] t(6) by simp
  show ?thesis
    by (rule that[OF st t(2) fr t(4)]) (use ls u(3,5,6) t(5) scr in \<open>auto simp: take_frame_def\<close>)
qed

lemma tty_get_frame:
  assumes "snd (tty_get i s) = t"
  shows "tty_ready i c cap t = tty_ready i c cap s" "reader_at i t acc req = reader_at i s acc req"
    "tty_sent t = tty_sent s" "t_caller (tty_table t i) = t_caller (tty_table s i)"
    "proc2tty (tty_table t i) = proc2tty (tty_table s i)" "reqer_buf (tty_table t i) = reqer_buf (tty_table s i)"
    "window_bytes (console_table t c) = window_bytes (console_table s c)" "kmem t = kmem s"
    "j \<noteq> i \<Longrightarrow> tty_table t j = tty_table s j" "screen_of t c = screen_of s c"
  unfolding assms[symmetric] by (simp_all add: tty_get_def tty_ready_def reader_at_def screen_of_def)

lemma take_frame_items:
  "take_frame i c cap s t \<Longrightarrow> tty_ok i t = tty_ok i s \<and> tty_items i t = tty_items i s"
  by (simp add: take_frame_def tty_ok_def tty_items_def)

lemma line_step_req: "0 < snd (fst (line_step ch st)) \<or> snd (line_step ch st)"
  by (auto simp: line_step_def Let_def split: prod.split)

text \<open>What the loop leaves of a ring with \<open>keys\<close> in it: the line editor has run over them.\<close>

definition line_taken :: "nat \<Rightarrow> nat \<Rightarrow> nat \<Rightarrow> 'a tstate_scheme \<Rightarrow> byte list \<Rightarrow> nat \<Rightarrow> u32 list \<Rightarrow> 'a tstate_scheme \<Rightarrow> bool" where
  "line_taken i c cap s acc req keys t = (tty_ok i t \<and> tty_items i t = [] \<and> tty_ready i c cap t \<and>
    (case line_run (map ucast keys) (acc, req) of ((acc', req'), full) \<Rightarrow>
       reader_at i t acc' req' \<and>
       tty_sent t = (if full then [(t_caller (tty_table s i), resume_msg (proc2tty (tty_table s i)) (length acc'))]
         else []) @ tty_sent s) \<and>
    screen_of t c = screen_shows (line_echo (map ucast keys) (acc, req)) (screen_of s c))"

lemma line_echo_idle [simp]: "line_echo xs (acc, 0) = []"
  by (cases xs) simp_all

lemma line_run_idle [simp]: "line_run xs (acc, 0) = ((acc, 0), False)"
  by (cases xs) simp_all

lemma line_taken_cong:
  "t_caller (tty_table s i) = t_caller (tty_table u i) \<Longrightarrow> proc2tty (tty_table s i) = proc2tty (tty_table u i) \<Longrightarrow>
    tty_sent s = tty_sent u \<Longrightarrow> screen_of s c = screen_of u c \<Longrightarrow> line_taken i c cap s acc req keys t = line_taken i c cap u acc req keys t"
  by (simp only: line_taken_def)

lemma line_taken_Cons:
  assumes "0 < req" "fst (line_step (ucast key) (acc, req)) = (acc', req')"
    "tty_sent t = (if snd (line_step (ucast key) (acc, req))
       then [(t_caller (tty_table s i), resume_msg (proc2tty (tty_table s i)) (length acc'))] else []) @ tty_sent s"
    "t_caller (tty_table t i) = t_caller (tty_table s i)" "proc2tty (tty_table t i) = proc2tty (tty_table s i)"
    "line_taken i c cap t acc' req' keys v" "screen_of t c = screen_shows (shown (ucast key) (acc, req)) (screen_of s c)"
  shows "line_taken i c cap s acc req (key # keys) v"
proof (cases "snd (line_step (ucast key) (acc, req))")
  case True
  then have "req' = 0" using assms(2) by (auto simp: line_step_def Let_def split: if_splits)
  then show ?thesis using assms True by (simp add: line_taken_def)
next
  case False
  then have "line_run (map ucast (key # keys)) (acc, req) = line_run (map ucast keys) (acc', req')"
    using assms(1,2) by simp
  moreover have "line_echo (map ucast (key # keys)) (acc, req) = shown (ucast key) (acc, req) @ line_echo (map ucast keys) (acc', req')"
    using False assms(1,2) by simp
  moreover have "tty_sent t = tty_sent s" using assms(3) False by simp
  ultimately show ?thesis using assms(6) unfolding line_taken_def assms(4,5,7) by (simp only: screen_shows_simps(3))
qed

lemma tty_write_loop_ok:
  assumes "tty_ok i s" "tty_ready i c cap s" "reader_at i s acc req" "length acc + req \<le> cap"
    "0 < req \<longrightarrow> length acc + req = cap"
  shows "\<exists>t. tty_write_loop i s = Some (Inr ((), t)) \<and> line_taken i c cap s acc req (tty_items i s) t"
  using assms
proof (induction "tty_items i s" arbitrary: s acc req)
  case Nil
  then have "\<not> 0 < r_count (t_ring (tty_table s i))" using tty_count[OF Nil.prems(1)] by simp
  then show ?case using Nil unfolding line_taken_def by (subst tty_write_loop.simps) (simp flip: Nil.hyps)
next
  case (Cons key keys)
  have pos: "0 < r_count (t_ring (tty_table s i))" using tty_count[OF Cons.prems(1)] Cons.hyps(2)[symmetric] by simp
  have ne: "tty_items i s \<noteq> []" using Cons.hyps(2) by auto
  define u where "u = snd (tty_get i s)"
  have g: "tty_get i s = (key, u)" "tty_items i u = keys" "tty_ok i u"
    using tyq.get_items[OF Cons.prems(1) ne] tyq.get_ok[OF Cons.prems(1) ne] Cons.hyps(2)
    by (auto simp: u_def prod_eq_iff)
  note uf = tty_get_frame[OF u_def[symmetric]]
  have i: "i < NR_TTY" using Cons.prems(2) by (simp add: tty_ready_def)
  have ru: "reqed_cnt (tty_table u i) = int req" using Cons.prems(3) uf(2)[of acc req] unfolding reader_at_def by blast
  have rdy: "tty_ready i c cap u" "reader_at i u acc req" using Cons.prems(2,3) uf by simp_all
  show ?case
  proof (cases "req = 0")
    case True
    then have "tty_write_step i s = Inr ((), u)"
      using g i ru by (simp add: tty_write_step_def bindE_def ttyE_def op_defs)
    then have lp: "tty_write_loop i s = tty_write_loop i u"
      using pos by (subst tty_write_loop.simps) simp
    from Cons.hyps(1)[OF g(2)[symmetric] g(3) rdy Cons.prems(4,5)] obtain v where
      "tty_write_loop i u = Some (Inr ((), v))" "line_taken i c cap s acc req keys v"
      unfolding g(2) using line_taken_cong[of s i u c] uf(3-5,10) by metis
    then show ?thesis unfolding lp Cons.hyps(2)[symmetric] True by (intro exI[of _ v]) (simp add: line_taken_def)
  next
    case False
    then have rq: "0 < req" and eq: "length acc + req = cap" using Cons.prems(5) by simp_all
    let ?ch = "ucast key :: byte"
    obtain t acc' req' where t: "tty_take i ?ch u = Inr ((), t)" "tty_ready i c cap t" "take_frame i c cap u t"
      "reader_at i t acc' req'" "fst (line_step ?ch (acc, req)) = (acc', req')" "length acc' + req' \<le> cap"
      "\<not> snd (line_step ?ch (acc, req)) \<Longrightarrow> length acc' + req' = cap"
      "tty_sent t = (if snd (line_step ?ch (acc, req))
         then [(t_caller (tty_table u i), resume_msg (proc2tty (tty_table u i)) (length acc'))] else []) @ tty_sent u"
      "screen_of t c = screen_shows (shown ?ch (acc, req)) (screen_of u c)"
      using tty_take_ok[OF rdy rq eq] by metis
    have "tty_write_step i s = Inr ((), t)"
      using g i ru False t(1) by (simp add: tty_write_step_def bindE_def ttyE_def op_defs)
    then have lp: "tty_write_loop i s = tty_write_loop i t"
      using pos by (subst tty_write_loop.simps) simp
    have it: "tty_ok i t" "tty_items i t = keys" using take_frame_items[OF t(3)] g by simp_all
    have tf: "t_caller (tty_table t i) = t_caller (tty_table s i)" "proc2tty (tty_table t i) = proc2tty (tty_table s i)"
      using t(3) uf by (simp_all add: take_frame_def)
    have "req' = 0" if "snd (line_step ?ch (acc, req))"
      using t(5) that by (auto simp: line_step_def Let_def split: if_splits)
    then have p: "0 < req' \<longrightarrow> length acc' + req' = cap" using t(7) by auto
    from Cons.hyps(1)[OF it(2)[symmetric] it(1) t(2,4,6) p] obtain v where
      v: "tty_write_loop i t = Some (Inr ((), v))" "line_taken i c cap t acc' req' keys v"
      unfolding it(2) by (elim exE conjE)
    have "line_taken i c cap s acc req (key # keys) v"
      by (rule line_taken_Cons[OF rq t(5) _ tf v(2)]) (use t(8,9) uf(3-5,10) in simp_all)
    then show ?thesis unfolding lp Cons.hyps(2)[symmetric] using v(1) by blast
  qed
qed

text \<open>A line of printable characters goes through as it is.\<close>

lemma line_run_plain:
  "\<forall>ch \<in> set xs. 0x20 \<le> ch \<and> ch \<le> 0x7E \<Longrightarrow> length xs < req \<Longrightarrow>
   line_run (xs @ [0x0A]) (acc, req) = ((acc @ xs, 0), True)"
proof (induction xs arbitrary: acc req)
  case Nil
  then show ?case by (simp add: line_step_def Let_def)
next
  case (Cons x xs)
  then have x: "0x20 \<le> x \<and> x \<le> 0x7E" and r: "0 < req" "req - 1 \<noteq> 0" "length xs < req - 1" by auto
  from x have nl: "x \<noteq> 0x0A" by auto
  have "line_step x (acc, req) = ((acc @ [x], req - 1), False)"
    using x nl r(2) by (simp add: line_step_def)
  then show ?case using Cons.IH[OF _ r(3), of "acc @ [x]"] Cons.prems(1) r(1) by simp
qed

text \<open>
  C17. Line editing: \<open>tty_write\<close> empties the terminal's ring and does to the waiting reader what
  the abstract line discipline does to the characters taken from the ring: the reader's buffer
  holds exactly the collected characters, a backspace takes the last one back, and when the
  line is complete exactly one resume message, with the number of characters, goes to the
  process that forwarded the request; what follows in the ring is dropped. The terminal's screen is
  the one before with the echoed characters put on it one after the other: each character stored
  or taken back, and the one that completes the line, which appears twice when it was also stored.
  The loop ends.
\<close>

theorem tty_write_refines_line:
  assumes "tty_ok i s" "tty_ready i c cap s" "reader_at i s acc req" "length acc + req \<le> cap"
    "0 < req \<longrightarrow> length acc + req = cap"
  shows "\<exists>t. tty_write i s = Inr ((), t) \<and> tty_items i t = [] \<and>
    (case line_run (map ucast (tty_items i s)) (acc, req) of ((acc', req'), full) \<Rightarrow>
       reader_at i t acc' req' \<and>
       tty_sent t = (if full then [(t_caller (tty_table s i), resume_msg (proc2tty (tty_table s i)) (length acc'))]
         else []) @ tty_sent s) \<and>
    screen_of t c = screen_shows (line_echo (map ucast (tty_items i s)) (acc, req)) (screen_of s c)"
proof -
  have "i < NR_TTY" using assms(2) by (simp add: tty_ready_def)
  then have "tty_write i s = Inr ((), t)" if "tty_write_loop i s = Some (Inr ((), t))" for t
    using that by (simp add: tty_write_def ttyE_def bindE_def op_defs run_loop_def)
  moreover obtain t where t: "tty_write_loop i s = Some (Inr ((), t))" "tty_items i t = []"
    "case line_run (map ucast (tty_items i s)) (acc, req) of ((acc', req'), full) \<Rightarrow>
       reader_at i t acc' req' \<and>
       tty_sent t = (if full then [(t_caller (tty_table s i), resume_msg (proc2tty (tty_table s i)) (length acc'))]
         else []) @ tty_sent s"
    "screen_of t c = screen_shows (line_echo (map ucast (tty_items i s)) (acc, req)) (screen_of s c)"
    using tty_write_loop_ok[OF assms] unfolding line_taken_def by (elim exE conjE)
  ultimately show ?thesis by (intro exI[of _ t] conjI)
qed

lemma region_unat:
  assumes "unat a + n \<le> 2 ^ 32"
  shows "x \<in> region a n \<longleftrightarrow> unat a \<le> unat x \<and> unat x < unat a + n"
proof
  assume "x \<in> region a n"
  then have "unat (x - a) < n" by (simp add: region_def)
  moreover from this have "unat (a + (x - a)) = unat a + unat (x - a)"
    using assms by (subst small_add) simp_all
  ultimately show "unat a \<le> unat x \<and> unat x < unat a + n" by simp
next
  assume x: "unat a \<le> unat x \<and> unat x < unat a + n"
  then have "unat (x - a) = unat x - unat a" by (simp add: unat_sub word_le_nat_alt)
  then show "x \<in> region a n" using x unfolding region_def by simp linarith
qed

text \<open>A reader of ten characters on terminal 1; "ls" and enter are in the ring.\<close>

definition ls_typed :: tstate where
  "ls_typed = fold (tty_put 1) [0x6C, 0x73, 0x0A] (idle_ts\<lparr>tty_table := (tty_table idle_ts)(1 := (tty_table idle_ts 1)
     \<lparr>t_caller := TASK_FS, proc2tty := 8, reqer_buf := 0x300000, reqed_cnt := 10\<rparr>)\<rparr>)"

lemma ls_typed_ready: "tty_ready 1 1 10 ls_typed" "reader_at 1 ls_typed [] 10" "tty_ok 1 ls_typed"
  "tty_items 1 ls_typed = [0x6C, 0x73, 0x0A]" "t_caller (tty_table ls_typed 1) = TASK_FS"
  "proc2tty (tty_table ls_typed 1) = 8" "tty_sent ls_typed = []" "reqer_buf (tty_table ls_typed 1) = 0x300000"
proof -
  let ?s = "idle_ts\<lparr>tty_table := (tty_table idle_ts)(1 := (tty_table idle_ts 1)
     \<lparr>t_caller := TASK_FS, proc2tty := 8, reqer_buf := 0x300000, reqed_cnt := 10\<rparr>)\<rparr>"
  have ok: "tty_ok 1 ?s" "tty_items 1 ?s = []" by (simp_all add: tty_ok_def tty_items_def idle_tty_def)
  show "tty_ok 1 ls_typed" "tty_items 1 ls_typed = [0x6C, 0x73, 0x0A]"
    using tyq.put_all[OF ok(1), of "[0x6C, 0x73, 0x0A]"] ok(2) by (simp_all add: ls_typed_def)
  have "region 0x300000 10 \<inter> window_bytes (console_table idle_con 1) = {}"
    using region_unat[of "0x300000" 10] by (auto simp: window_bytes_def)
  then show "tty_ready 1 1 10 ls_typed"
    by (simp add: tty_ready_def ls_typed_def tty_put_def con_ok_def)
  show "reader_at 1 ls_typed [] 10" "t_caller (tty_table ls_typed 1) = TASK_FS"
    "proc2tty (tty_table ls_typed 1) = 8" "tty_sent ls_typed = []" "reqer_buf (tty_table ls_typed 1) = 0x300000"
    by (simp_all add: reader_at_def ls_typed_def tty_put_def idle_tty_def)
qed

theorem tty_write_refines_line_witness:
  "\<exists>t. tty_write 1 ls_typed = Inr ((), t) \<and> reader_at 1 t [0x6C, 0x73] 0 \<and> tty_sent t = [(TASK_FS, resume_msg 8 2)] \<and>
     screen_of t 1 = screen_shows [0x6C, 0x73, 0x0A] (screen_of ls_typed 1)"
proof -
  have "line_run ([0x6C, 0x73] @ [0x0A]) ([], 10) = (([] @ [0x6C, 0x73], 0), True)"
    by (rule line_run_plain) simp_all
  then have run: "line_run (map ucast (tty_items 1 ls_typed)) ([], 10) = (([0x6C, 0x73], 0), True)"
    unfolding ls_typed_ready(4) by simp
  have "length ([] :: byte list) + 10 \<le> 10" "0 < (10::nat) \<longrightarrow> length ([] :: byte list) + 10 = 10" by simp_all
  from tty_write_refines_line[OF ls_typed_ready(3,1,2) this]
  obtain t where "tty_write 1 ls_typed = Inr ((), t)" "reader_at 1 t [0x6C, 0x73] 0"
    "tty_sent t = [(TASK_FS, resume_msg 8 2)]"
    "screen_of t 1 = screen_shows (line_echo (map ucast (tty_items 1 ls_typed)) ([], 10)) (screen_of ls_typed 1)"
    unfolding run using ls_typed_ready(5-7) by (auto simp: numeral_2_eq_2)
  moreover have "line_echo (map ucast (tty_items 1 ls_typed)) ([], 10) = [0x6C, 0x73, 0x0A]"
    unfolding ls_typed_ready(4) by (simp add: line_step_def shown_def)
  ultimately show ?thesis by auto
qed

end
