(* ===== verification/Err.thy ===== *)
theory Err
  imports Tty Stdio
begin

section \<open>Panics and failed assertions\<close>

text \<open>
  lib/err.c and \<open>printl\<close> of lib/stdio.c: a message formatted into a local array and handed to the
  system call \<open>printx\<close>, whose trap counts \<open>k_reenter\<close> up and down. The arrays of 256 characters are
  at the addresses \<open>buf\<close> and \<open>msg\<close>; a longer message would be written behind them. \<open>proc_p\<close> is
  the caller.
\<close>

definition printx :: "int \<Rightarrow> addr \<Rightarrow> ('a tstate_scheme, int) op" where
  "printx proc_p str =
     bindE (modE (\<lambda>s. s\<lparr>k_reenter := k_reenter s + 1\<rparr>)) (\<lambda>_.
     bindE (sys_printx str proc_p) (\<lambda>r.
     bindE (modE (\<lambda>s. s\<lparr>k_reenter := k_reenter s - 1\<rparr>)) (\<lambda>_.
     ret r)))"

definition format_into :: "addr \<Rightarrow> byte list \<Rightarrow> u32 list \<Rightarrow> ('a tstate_scheme, int) op" where
  "format_into buf fmt args =
     bindE (getsE kmem) (\<lambda>m.
     case vsprintf m fmt args of
       Inl e \<Rightarrow> fail e
     | Inr out \<Rightarrow>
         if length out < 256 then
           bindE (modE (\<lambda>s. s\<lparr>kmem := poke_bytes (kmem s) buf (out @ [0])\<rparr>)) (\<lambda>_. ret (int (length out)))
         else fail (Bad_access ''buf''))"

definition printl :: "int \<Rightarrow> addr \<Rightarrow> byte list \<Rightarrow> u32 list \<Rightarrow> ('a tstate_scheme, int) op" where
  "printl proc_p buf fmt args =
     bindE (format_into buf fmt args) (\<lambda>i.
     bindE (printx proc_p buf) (\<lambda>_.
     ret i))"

definition spin :: "int \<Rightarrow> addr \<Rightarrow> addr \<Rightarrow> ('a tstate_scheme, unit) op" where
  "spin proc_p buf funcname =
     bindE (printl proc_p buf ([0x0A] @ ascii ''spin in %s. . . '' @ [0x0A]) [funcname]) (\<lambda>_.
     fail (Spin ''spin''))"

definition assertion_failure :: "int \<Rightarrow> addr \<Rightarrow> addr \<Rightarrow> addr \<Rightarrow> addr \<Rightarrow> addr \<Rightarrow> int \<Rightarrow> ('a tstate_scheme, unit) op" where
  "assertion_failure proc_p buf here exp file base_file line =
     bindE (printl proc_p buf (ascii ''%c  assert(%s) failed: file: %s, base_file: %s,ln%d'')
       [ucast MAG_CH_ASSERT, exp, file, base_file, u32_int line]) (\<lambda>_.
     bindE (spin proc_p buf here) (\<lambda>_.
     fail (Panic ''ud2'')))"

definition panic :: "int \<Rightarrow> addr \<Rightarrow> addr \<Rightarrow> byte list \<Rightarrow> u32 list \<Rightarrow> ('a tstate_scheme, unit) op" where
  "panic proc_p buf msg fmt args =
     bindE (format_into msg fmt args) (\<lambda>i.
     bindE (printl proc_p buf (ascii ''%c !!panic!! %s'') [ucast MAG_CH_PANIC, msg]) (\<lambda>_.
     fail (Panic ''ud2'')))"

subsection \<open>The red screen\<close>

text \<open>
  What the first loop of \<open>sys_printx\<close> leaves at offset \<open>x\<close> of the video memory: in each group of
  eight lines the message in red, and the rest of the group in grey.
\<close>

definition panic_cell :: "byte list \<Rightarrow> nat \<Rightarrow> byte option" where
  "panic_cell msg x =
     (if x < 2 * length msg then Some (if even x then msg ! (x div 2) else RED_CHAR)
      else if odd x then Some GRAY_CHAR else None)"

definition painted :: "byte list \<Rightarrow> nat \<Rightarrow> mem \<Rightarrow> mem" where
  "painted msg n m = (\<lambda>a. let x = unat (a - V_MEM_BASE) in
     if x < n then (case panic_cell msg (x mod 1280) of Some b \<Rightarrow> b | None \<Rightarrow> m a) else m a)"

lemma painted_0 [simp]: "painted msg 0 m = m"
  by (simp add: painted_def)

lemma unat_video: "n < 2 ^ 31 \<Longrightarrow> unat (V_MEM_BASE + u32_int (int n) - V_MEM_BASE) = n"
  by (simp add: u32_int_def unat_of_nat)

lemma video_eq: "n < 2 ^ 31 \<Longrightarrow> a = V_MEM_BASE + u32_int (int n) \<longleftrightarrow> unat (a - V_MEM_BASE) = n"
proof
  assume n: "n < 2 ^ 31" and "unat (a - V_MEM_BASE) = n"
  moreover have "of_nat (unat (a - V_MEM_BASE)) = a - V_MEM_BASE" by simp
  ultimately have "a - V_MEM_BASE = u32_int (int n)" by (simp add: u32_int_def)
  then show "a = V_MEM_BASE + u32_int (int n)" by (simp add: algebra_simps)
qed (use unat_video in blast)

lemma even_mod:
  assumes "even n"
  shows "(n + 1) mod 1280 = n mod 1280 + (1 :: nat)" "even (n mod 1280)"
proof -
  obtain k where k: "n = 2 * k" using assms by blast
  have r: "n mod 1280 = 2 * (k mod 640)" using mult_mod_right[of 2 k 640] k by simp
  then show "even (n mod 1280)" by simp
  have "Suc (2 * j) \<noteq> 1280" for j :: nat using even_Suc[of "2 * j"] by fastforce
  then show "(n + 1) mod 1280 = n mod 1280 + 1" using r by (simp add: mod_Suc)
qed

lemma painted_step:
  assumes "n + 1 < 2 ^ 31" "even n"
  shows "painted msg (n + 2) m =
    (if n mod 1280 < 2 * length msg
     then (painted msg n m)(V_MEM_BASE + u32_int (int n) := msg ! (n mod 1280 div 2), V_MEM_BASE + u32_int (int n + 1) := RED_CHAR)
     else (painted msg n m)(V_MEM_BASE + u32_int (int n + 1) := GRAY_CHAR))"
proof (rule ext)
  fix a :: addr
  let ?x = "unat (a - V_MEM_BASE)"
  have e: "(a = V_MEM_BASE + u32_int (int n)) = (?x = n)" "(a = V_MEM_BASE + u32_int (int n + 1)) = (?x = n + 1)"
    using video_eq[of n a] video_eq[of "n + 1" a] assms(1) by (simp_all add: add.commute)
  have m: "(n + 1) mod 1280 = n mod 1280 + 1" "even (n mod 1280)"
    by (rule even_mod[OF assms(2)])+
  have "?x < n + 2 \<longleftrightarrow> ?x < n \<or> ?x = n \<or> ?x = n + 1" by linarith
  then show "painted msg (n + 2) m a = (if n mod 1280 < 2 * length msg
     then (painted msg n m)(V_MEM_BASE + u32_int (int n) := msg ! (n mod 1280 div 2), V_MEM_BASE + u32_int (int n + 1) := RED_CHAR)
     else (painted msg n m)(V_MEM_BASE + u32_int (int n + 1) := GRAY_CHAR)) a"
    using m unfolding painted_def Let_def by (auto simp: e panic_cell_def)
qed

lemma fill_gray_ok:
  assumes "0 < length msg" "length msg \<le> i" "i \<le> 640" "r < 1000"
  shows "fill_gray (int (1280 * r + 2 * i)) (painted msg (1280 * r + 2 * i) m) =
    Some (int (1280 * Suc r), painted msg (1280 * Suc r) m)"
  using assms(2,3)
proof (induction "640 - i" arbitrary: i)
  case 0
  then have i: "i = 640" by simp
  have "int (1280 * r + 2 * i) mod 1280 = 0" unfolding i by simp
  then show ?case unfolding i by (subst fill_gray.simps) (simp add: algebra_simps)
next
  case (Suc c)
  then have i: "i < 640" "0 < i" using assms(1) by linarith+
  let ?n = "1280 * r + 2 * i"
  have n: "?n mod 1280 = 2 * i" using i by simp
  have "int ?n mod 1280 = int (?n mod 1280)" by (simp only: zmod_int of_nat_numeral)
  then have go: "int ?n mod (80 * 16) \<noteq> 0" unfolding n using i(2) by simp
  have step: "painted msg (?n + 2) m = (painted msg ?n m)(V_MEM_BASE + u32_int (int ?n + 1) := GRAY_CHAR)"
    using painted_step[of ?n msg m] n Suc.prems(1) assms(4) i by simp
  have "fill_gray (int ?n) (painted msg ?n m) = fill_gray (int (1280 * r + 2 * Suc i)) (painted msg (1280 * r + 2 * Suc i) m)"
    using go step by (subst fill_gray.simps) (simp add: add.assoc add.commute)
  also have "\<dots> = Some (int (1280 * Suc r), painted msg (1280 * Suc r) m)"
    using Suc.hyps(1)[of "Suc i"] Suc.hyps(2) Suc.prems(1) i by simp
  finally show ?case .
qed

text \<open>The message is at \<open>first\<close>, outside what is painted.\<close>

definition shown_at :: "mem \<Rightarrow> addr \<Rightarrow> byte list \<Rightarrow> bool" where
  "shown_at m first msg = (0 \<notin> set msg \<and> msg \<noteq> [] \<and> length msg \<le> 255 \<and>
     (\<forall>i \<le> length msg. m (first + of_nat i) = (msg @ [0]) ! i \<and> 33280 \<le> unat (first + of_nat i - V_MEM_BASE)))"

lemma painted_keeps: "shown_at m first msg \<Longrightarrow> n \<le> 33280 \<Longrightarrow> i \<le> length msg \<Longrightarrow> painted msg n m (first + of_nat i) = (msg @ [0]) ! i"
  unfolding shown_at_def painted_def Let_def by auto

lemma panic_row:
  assumes "shown_at m first msg" "r < 26" "i < length msg"
  shows "panic_fill first (first + of_nat i) (int (1280 * r + 2 * i)) (painted msg (1280 * r + 2 * i) m) =
    panic_fill first first (int (1280 * Suc r)) (painted msg (1280 * Suc r) m)"
  using assms(3)
proof (induction "length msg - i" arbitrary: i)
  case 0
  then show ?case by simp
next
  case (Suc c)
  let ?n = "1280 * r + 2 * i" and ?L = "length msg"
  note s = assms(1)[unfolded shown_at_def]
  have L: "?L \<le> 255" "0 < ?L" using s by auto
  have n: "?n mod 1280 = 2 * i" "?n < 32768" using Suc.prems L assms(2) by simp_all
  have here: "painted msg ?n m (first + of_nat i) = msg ! i"
    using painted_keeps[OF assms(1), of ?n i] n(2) Suc.prems by (simp add: nth_append)
  have step: "painted msg (?n + 2) m =
      (painted msg ?n m)(V_MEM_BASE + u32_int (int ?n) := msg ! i, V_MEM_BASE + u32_int (int ?n + 1) := RED_CHAR)"
    using painted_step[of ?n msg m] n Suc.prems by simp
  have after: "painted msg (?n + 2) m (first + of_nat i + 1) = (msg @ [0]) ! Suc i"
    using painted_keeps[OF assms(1), of "?n + 2" "Suc i"] n(2) Suc.prems by (simp add: ac_simps)
  have unf: "panic_fill first (first + of_nat i) (int ?n) (painted msg ?n m) =
     (if painted msg (?n + 2) m (first + of_nat i + 1) \<noteq> 0
      then panic_fill first (first + of_nat i + 1) (int ?n + 2) (painted msg (?n + 2) m)
      else (case fill_gray (int ?n + 2) (painted msg (?n + 2) m) of None \<Rightarrow> None | Some r \<Rightarrow> panic_fill first first (fst r) (snd r)))"
    unfolding step using n(2) here by (subst panic_fill.simps) (simp add: Let_def)
  have two: "int ?n + 2 = int (1280 * r + 2 * Suc i)" "?n + 2 = 1280 * r + 2 * Suc i" by simp_all
  show ?case
  proof (cases "Suc i < ?L")
    case True
    have "msg ! Suc i \<noteq> 0" using s nth_mem[OF True] by metis
    then have "(msg @ [0]) ! Suc i \<noteq> 0" using True by (simp add: nth_append)
    then have "panic_fill first (first + of_nat i) (int ?n) (painted msg ?n m) =
        panic_fill first (first + of_nat i + 1) (int ?n + 2) (painted msg (?n + 2) m)"
      unfolding unf after by simp
    also have "\<dots> = panic_fill first (first + of_nat (Suc i)) (int (1280 * r + 2 * Suc i)) (painted msg (1280 * r + 2 * Suc i) m)"
      unfolding two by (simp only: of_nat_Suc ac_simps)
    also have "\<dots> = panic_fill first first (int (1280 * Suc r)) (painted msg (1280 * Suc r) m)"
      by (rule Suc.hyps(1)) (use Suc.hyps(2) True in simp_all)
    finally show ?thesis .
  next
    case False
    then have e: "Suc i = ?L" using Suc.prems by simp
    then have "(msg @ [0]) ! Suc i = 0" by (simp add: nth_append)
    then have "panic_fill first (first + of_nat i) (int ?n) (painted msg ?n m) =
        (case fill_gray (int (1280 * r + 2 * Suc i)) (painted msg (1280 * r + 2 * Suc i) m) of None \<Rightarrow> None
         | Some r \<Rightarrow> panic_fill first first (fst r) (snd r))"
      unfolding unf after unfolding two by simp
    also have "fill_gray (int (1280 * r + 2 * Suc i)) (painted msg (1280 * r + 2 * Suc i) m) =
        Some (int (1280 * Suc r), painted msg (1280 * Suc r) m)"
      by (rule fill_gray_ok) (use L e assms(2) in simp_all)
    finally show ?thesis by simp
  qed
qed

lemma panic_rows:
  assumes "shown_at m first msg" "r \<le> 26"
  shows "panic_fill first first (int (1280 * r)) (painted msg (1280 * r) m) = Some (painted msg 33280 m)"
  using assms(2)
proof (induction "26 - r" arbitrary: r)
  case 0
  then have "r = 26" by simp
  then show ?case by (subst panic_fill.simps) simp
next
  case (Suc c)
  have "0 < length msg" using assms(1) by (auto simp: shown_at_def)
  then show ?case using panic_row[OF assms(1), of r 0 ] Suc.hyps(1)[of "Suc r"] Suc.hyps(2) by simp
qed

lemma panic_fill_ok: "shown_at m first msg \<Longrightarrow> panic_fill first first 0 m = Some (painted msg 33280 m)"
  using panic_rows[of m first msg 0] by simp

text \<open>
  C40. The red screen of a panic ends: the loops of \<open>sys_printx\<close> return for every message of up to
  255 characters that lies outside the area, with the message in red at the head of each group of
  eight lines and grey behind it. But the last group ends 512 bytes behind the 32 KB of the video
  memory, and the bytes there are overwritten as well; nothing else is.
\<close>

theorem panic_paints_past_video:
  assumes "shown_at m first msg"
  shows "\<exists>m'. panic_fill first first 0 m = Some m' \<and>
    (\<forall>x < 33280. m' (V_MEM_BASE + of_nat x) =
       (case panic_cell msg (x mod 1280) of Some b \<Rightarrow> b | None \<Rightarrow> m (V_MEM_BASE + of_nat x))) \<and>
    (\<forall>a. 33280 \<le> unat (a - V_MEM_BASE) \<longrightarrow> m' a = m a) \<and>
    V_MEM_SIZE + 512 = 33280"
proof -
  have "unat (V_MEM_BASE + of_nat x - V_MEM_BASE) = x" if "x < 33280" for x
    using unat_video[of x] that by (simp add: u32_int_def)
  then show ?thesis
    using panic_fill_ok[OF assms] by (simp add: painted_def Let_def)
qed

text \<open>The message PQ: its first letter at the top of the screen, and grey in the last byte.\<close>

theorem panic_paints_past_video_witness:
  "\<exists>m'. panic_fill 0x1000 0x1000 0 (poke_bytes (\<lambda>_. 0) 0x1000 [80, 81]) = Some m' \<and>
    m' (V_MEM_BASE + of_nat 0) = 80 \<and> m' (V_MEM_BASE + of_nat 33279) = GRAY_CHAR"
proof -
  let ?m = "poke_bytes (\<lambda>_. 0) 0x1000 [80, 81]"
  have "?m (0x1000 + of_nat i) = ([80, 81] @ [0]) ! i \<and> 33280 \<le> unat (0x1000 + of_nat i - V_MEM_BASE)" if "i \<le> 2" for i
  proof -
    have "i = 0 \<or> i = Suc 0 \<or> i = Suc (Suc 0)" using that by linarith
    then show ?thesis by (elim disjE) simp_all
  qed
  then have "shown_at ?m 0x1000 [80, 81]" by (simp add: shown_at_def)
  from panic_paints_past_video[OF this] obtain m' where
    m': "panic_fill 0x1000 0x1000 0 (poke_bytes (\<lambda>_. 0) 0x1000 [80, 81]) = Some m'"
    and cells: "\<forall>x < 33280. m' (V_MEM_BASE + of_nat x) = (case panic_cell [80, 81] (x mod 1280) of Some b \<Rightarrow> b
      | None \<Rightarrow> poke_bytes (\<lambda>_. 0) 0x1000 [80, 81] (V_MEM_BASE + of_nat x))"
    by blast
  show ?thesis
    using m' cells[rule_format, of 0] cells[rule_format, of 33279] by (simp add: panic_cell_def)
qed

end
