(* ===== verification/Fs.thy ===== *)
theory Fs
  imports Proc
begin

section \<open>The file system task\<close>

text \<open>
  fs/main.c, fs/misc.c and fs/opera.c. The tables are arrays indexed by number, a pointer
  into one is its index. The block buffer \<open>fsbuf\<close> is the memory at 0x600000, and the
  structures on it (directory entries, inodes, the super block) are read and written there
  little-endian, at the offsets of the C structures. A local character array is the list of
  its bytes. Requests to drivers (\<open>send_recv(BOTH, driver, &msg)\<close>) go through the argument
  \<open>rpc\<close>, which takes the driver's number and the message and returns the reply; the disk
  driver's handlers are modelled in theory \<open>Hd\<close>. Fields of a message that a function leaves
  uninitialised are zero here; no driver reads them. The members behind the macros of
  include/msg.h are \<open>DEVICE\<close> \<open>m3i4\<close>, \<open>POSITION\<close> \<open>m3l1\<close>, \<open>PROC_NR\<close> \<open>m3i3\<close>, \<open>BUF\<close> \<open>m3p2\<close>, \<open>CNT\<close>,
  \<open>NAME_LEN\<close>, \<open>PID\<close> and \<open>REQUEST\<close> \<open>m3i2\<close>, \<open>FD\<close>, \<open>FLAGS\<close>, \<open>RETVAL\<close> and \<open>STATUS\<close> \<open>m3i1\<close>, \<open>PATHNAME\<close> \<open>m3p1\<close>.
\<close>

abbreviation (input) FSBUF :: addr where "FSBUF \<equiv> 0x600000"
abbreviation (input) FSBUF_SIZE :: int where "FSBUF_SIZE \<equiv> 0x100000"
abbreviation (input) SECTOR_SIZE :: int where "SECTOR_SIZE \<equiv> 512"
abbreviation (input) INODE_SIZE :: int where "INODE_SIZE \<equiv> 32"
abbreviation (input) DIR_ENTRY_SIZE :: u32 where "DIR_ENTRY_SIZE \<equiv> 16"
abbreviation (input) MAX_FILENAME_LEN :: nat where "MAX_FILENAME_LEN \<equiv> 12"
abbreviation (input) MAX_PATH_LEN :: int where "MAX_PATH_LEN \<equiv> 128"
abbreviation (input) NR_DEFAULT_FILE_SECTS :: int where "NR_DEFAULT_FILE_SECTS \<equiv> 2048"
abbreviation (input) NR_FILE_DESC :: nat where "NR_FILE_DESC \<equiv> 64"
abbreviation (input) NR_INODE :: nat where "NR_INODE \<equiv> 64"
abbreviation (input) NR_SUPER_BLOCK :: nat where "NR_SUPER_BLOCK \<equiv> 8"
abbreviation (input) I_TYPE_MASK :: u32 where "I_TYPE_MASK \<equiv> 0xF000"
abbreviation (input) I_REGULAR :: u32 where "I_REGULAR \<equiv> 0x8000"
abbreviation (input) I_BLOCK_SPECIAL :: u32 where "I_BLOCK_SPECIAL \<equiv> 0x6000"
abbreviation (input) I_DIRECTORY :: u32 where "I_DIRECTORY \<equiv> 0x4000"
abbreviation (input) I_CHAR_SPECIAL :: u32 where "I_CHAR_SPECIAL \<equiv> 0x2000"
abbreviation (input) ROOT_INODE :: int where "ROOT_INODE \<equiv> 1"
abbreviation (input) INVALID_INODE :: int where "INVALID_INODE \<equiv> 0"
abbreviation (input) NO_DEV :: int where "NO_DEV \<equiv> 0"
abbreviation (input) DEV_HD :: int where "DEV_HD \<equiv> 3"
abbreviation (input) DEV_CHAR_TTY :: int where "DEV_CHAR_TTY \<equiv> 4"
abbreviation (input) ROOT_DEV :: int where "ROOT_DEV \<equiv> 0x320"
abbreviation (input) MAGIC_V1 :: u32 where "MAGIC_V1 \<equiv> 0x111"
abbreviation (input) O_CREAT :: int where "O_CREAT \<equiv> 1"
abbreviation (input) O_RDWR :: int where "O_RDWR \<equiv> 2"
abbreviation (input) NR_CONSOLE :: nat where "NR_CONSOLE \<equiv> 3"
abbreviation (input) DIOCTL_GET_GEO :: int where "DIOCTL_GET_GEO \<equiv> 1"
abbreviation (input) INSTALL_START_SECT :: int where "INSTALL_START_SECT \<equiv> 0x8000"
abbreviation (input) INSTALL_NR_SECTS :: int where "INSTALL_NR_SECTS \<equiv> 0x800"
abbreviation (input) NR_SECTS_FOR_LOG :: int where "NR_SECTS_FOR_LOG \<equiv> 0"

definition MAJOR :: "int \<Rightarrow> int" where "MAJOR x = x div 256 mod 256"
definition MINOR :: "int \<Rightarrow> int" where "MINOR x = x mod 256"
definition MAKE_DEV :: "int \<Rightarrow> int \<Rightarrow> int" where "MAKE_DEV a b = a * 256 + b"

record file_desc =
  fd_mode :: int
  fd_pos :: int
  fd_cnt :: int
  fd_inode :: "nat option"

record super_block =
  magic :: u32
  nr_inodes :: u32
  nr_sects :: u32
  nr_imap_sects :: u32
  nr_smap_sects :: u32
  n_1st_sect :: u32
  nr_inode_sects :: u32
  root_inode :: u32
  inode_size :: u32
  inode_isize_off :: u32
  inode_start_off :: u32
  dir_ent_size :: u32
  dir_ent_inode_off :: u32
  dir_ent_fname_off :: u32
  sb_dev :: int

record inode =
  i_mode :: u32
  i_size :: u32
  i_start_sect :: u32
  i_nr_sects :: u32
  i_dev :: int
  i_cnt :: int
  i_num :: int

record fstate = kstate +
  f_desc_table :: "nat \<Rightarrow> file_desc"
  inode_table :: "nat \<Rightarrow> inode"
  super_blocks :: "nat \<Rightarrow> super_block"
  myroot_inode :: nat
  pcaller :: int
  fs_msg :: message

subsection \<open>Bytes of the buffer\<close>

definition mem_bytes :: "mem \<Rightarrow> addr \<Rightarrow> nat \<Rightarrow> byte list" where
  "mem_bytes m a n = map (\<lambda>k. m (a + of_nat k)) [0..<n]"

fun store_bytes :: "mem \<Rightarrow> addr \<Rightarrow> byte list \<Rightarrow> mem" where
  "store_bytes m a [] = m"
| "store_bytes m a (b # bs) = store_bytes (m(a := b)) (a + 1) bs"

definition fsbuf_byte :: "mem \<Rightarrow> nat \<Rightarrow> byte" where
  "fsbuf_byte m j = m (FSBUF + of_nat j)"

definition set_fsbuf_byte :: "nat \<Rightarrow> byte \<Rightarrow> mem \<Rightarrow> mem" where
  "set_fsbuf_byte j b m = m(FSBUF + of_nat j := b)"

definition modM :: "(mem \<Rightarrow> mem) \<Rightarrow> ('a kstate_scheme, unit) op" where
  "modM f = modE (\<lambda>s. s\<lparr>kmem := f (kmem s)\<rparr>)"

definition updI :: "nat \<Rightarrow> (inode \<Rightarrow> inode) \<Rightarrow> ('a fstate_scheme, unit) op" where
  "updI p f = modE (\<lambda>s. s\<lparr>inode_table := (inode_table s)(p := f (inode_table s p))\<rparr>)"

definition updFD :: "nat \<Rightarrow> (file_desc \<Rightarrow> file_desc) \<Rightarrow> ('a fstate_scheme, unit) op" where
  "updFD p f = modE (\<lambda>s. s\<lparr>f_desc_table := (f_desc_table s)(p := f (f_desc_table s p))\<rparr>)"

subsection \<open>Drivers and sectors\<close>

text \<open>driver/driver.c: the driver of each major device number; the table has six entries.\<close>

definition dd_map :: "int list" where
  "dd_map = [INVALID_DRIVER, INVALID_DRIVER, INVALID_DRIVER, TASK_HD, TASK_TTY, INVALID_DRIVER]"

definition driver_of :: "int \<Rightarrow> ('s, int) op" where
  "driver_of major =
     (if 0 \<le> major \<and> major < int (length dd_map) then
        bindE (assertE ''driver != INVALID_DRIVER'' (\<lambda>_. dd_map ! nat major \<noteq> INVALID_DRIVER)) (\<lambda>_.
        ret (dd_map ! nat major))
      else fail (Bad_access ''dd_map''))"

definition rw_sector ::
    "'a fstate_scheme rpc \<Rightarrow> int \<Rightarrow> u64 \<Rightarrow> int \<Rightarrow> addr \<Rightarrow> int \<Rightarrow> int \<Rightarrow> ('a fstate_scheme, unit) op" where
  "rw_sector rpc device pos proc_nr buf bytes io_type =
     bindE (driver_of (MAJOR device)) (\<lambda>driver.
     bindE (rpc driver (zero_msg\<lparr>m_type := io_type, m3i4 := MINOR device, m3l1 := pos,
       m3i3 := proc_nr, m3p2 := buf, m3i2 := bytes\<rparr>)) (\<lambda>_. ret ()))"

text \<open>The product \<open>sect_nr * SECTOR_SIZE\<close> is an \<open>int\<close> before it becomes a \<open>t_64\<close>.\<close>

definition sect_pos :: "int \<Rightarrow> u64" where
  "sect_pos n = word_of_int (s32 (n * SECTOR_SIZE))"

definition RD_SECT :: "'a fstate_scheme rpc \<Rightarrow> int \<Rightarrow> int \<Rightarrow> ('a fstate_scheme, unit) op" where
  "RD_SECT rpc dev sect_nr = rw_sector rpc dev (sect_pos sect_nr) TASK_FS FSBUF SECTOR_SIZE DEV_READ"

definition WR_SECT :: "'a fstate_scheme rpc \<Rightarrow> int \<Rightarrow> int \<Rightarrow> ('a fstate_scheme, unit) op" where
  "WR_SECT rpc dev sect_nr = rw_sector rpc dev (sect_pos sect_nr) TASK_FS FSBUF SECTOR_SIZE DEV_WRITE"

subsection \<open>The super block\<close>

fun find_super :: "(nat \<Rightarrow> super_block) \<Rightarrow> int \<Rightarrow> nat list \<Rightarrow> nat option" where
  "find_super tab dev [] = None"
| "find_super tab dev (i # is) = (if sb_dev (tab i) = dev then Some i else find_super tab dev is)"

definition get_super_block :: "int \<Rightarrow> ('a fstate_scheme, super_block) op" where
  "get_super_block dev s =
     (case find_super (super_blocks s) dev [0..<NR_SUPER_BLOCK] of
        Some i \<Rightarrow> Inr (super_blocks s i, s)
      | None \<Rightarrow> Inl (Panic ''super block of device not found''))"

text \<open>The first 56 bytes are those on the disk; \<open>sb_dev\<close> is set by the caller.\<close>

definition read_sb :: "mem \<Rightarrow> addr \<Rightarrow> super_block" where
  "read_sb m a = \<lparr> magic = rd32 m a, nr_inodes = rd32 m (a + 4), nr_sects = rd32 m (a + 8),
     nr_imap_sects = rd32 m (a + 12), nr_smap_sects = rd32 m (a + 16), n_1st_sect = rd32 m (a + 20),
     nr_inode_sects = rd32 m (a + 24), root_inode = rd32 m (a + 28), inode_size = rd32 m (a + 32),
     inode_isize_off = rd32 m (a + 36), inode_start_off = rd32 m (a + 40), dir_ent_size = rd32 m (a + 44),
     dir_ent_inode_off = rd32 m (a + 48), dir_ent_fname_off = rd32 m (a + 52),
     sb_dev = sint (rd32 m (a + 56)) \<rparr>"

definition write_sb :: "super_block \<Rightarrow> addr \<Rightarrow> mem \<Rightarrow> mem" where
  "write_sb sb a m = foldl (\<lambda>m (k, v). wr32 m (a + k) v) m
     [(0, magic sb), (4, nr_inodes sb), (8, nr_sects sb), (12, nr_imap_sects sb), (16, nr_smap_sects sb),
      (20, n_1st_sect sb), (24, nr_inode_sects sb), (28, root_inode sb), (32, inode_size sb),
      (36, inode_isize_off sb), (40, inode_start_off sb), (44, dir_ent_size sb), (48, dir_ent_inode_off sb),
      (52, dir_ent_fname_off sb)]"

definition read_super_block :: "'a fstate_scheme rpc \<Rightarrow> int \<Rightarrow> ('a fstate_scheme, unit) op" where
  "read_super_block rpc dev =
     bindE (driver_of (MAJOR dev)) (\<lambda>driver.
     bindE (rpc driver (zero_msg\<lparr>m_type := DEV_READ, m3i4 := MINOR dev, m3l1 := 512 * 1,
       m3p2 := FSBUF, m3i2 := SECTOR_SIZE, m3i3 := TASK_FS\<rparr>)) (\<lambda>_.
     bindE (getsE (\<lambda>s. find_super (super_blocks s) NO_DEV [0..<NR_SUPER_BLOCK])) (\<lambda>slot.
     case slot of
       None \<Rightarrow> fail (Panic ''super_block slots used up'')
     | Some i \<Rightarrow>
         bindE (assertE ''i==0'' (\<lambda>_. i = 0)) (\<lambda>_.
         modE (\<lambda>s. s\<lparr>super_blocks := (super_blocks s)(i := (read_sb (kmem s) FSBUF)\<lparr>sb_dev := dev\<rparr>)\<rparr>)))))"

subsection \<open>Inodes (fs/misc.c)\<close>

text \<open>The scan of \<open>get_inode\<close>: the entry that holds the inode, or the first free one.\<close>

fun inode_scan :: "(nat \<Rightarrow> inode) \<Rightarrow> int \<Rightarrow> int \<Rightarrow> nat list \<Rightarrow> nat option \<Rightarrow> nat + nat option" where
  "inode_scan tab dev num [] q = Inr q"
| "inode_scan tab dev num (p # ps) q =
     (if i_cnt (tab p) \<noteq> 0 then
        if i_dev (tab p) = dev \<and> i_num (tab p) = num then Inl p else inode_scan tab dev num ps q
      else inode_scan tab dev num ps (if q = None then Some p else q))"

definition inode_block :: "super_block \<Rightarrow> int \<Rightarrow> int" where
  "inode_block sb num =
     sint (2 + nr_imap_sects sb + nr_smap_sects sb + u32_int (c_div (num - 1) (c_div SECTOR_SIZE INODE_SIZE)))"

definition inode_slot :: "int \<Rightarrow> addr" where
  "inode_slot num = FSBUF + u32_int (c_mod (num - 1) (c_div SECTOR_SIZE INODE_SIZE) * INODE_SIZE)"

definition get_inode :: "'a fstate_scheme rpc \<Rightarrow> int \<Rightarrow> int \<Rightarrow> ('a fstate_scheme, nat option) op" where
  "get_inode rpc dev num =
     (if num = 0 then ret None
      else bindE (getsE (\<lambda>s. inode_scan (inode_table s) dev num [0..<NR_INODE] None)) (\<lambda>r.
        case r of
          Inl p \<Rightarrow> bindE (updI p (\<lambda>x. x\<lparr>i_cnt := i_cnt x + 1\<rparr>)) (\<lambda>_. ret (Some p))
        | Inr None \<Rightarrow> fail (Panic ''the inode talbe is full'')
        | Inr (Some q) \<Rightarrow>
            bindE (updI q (\<lambda>x. x\<lparr>i_dev := dev, i_num := num, i_cnt := 1\<rparr>)) (\<lambda>_.
            bindE (get_super_block dev) (\<lambda>sb.
            bindE (RD_SECT rpc dev (inode_block sb num)) (\<lambda>_.
            bindE (getsE kmem) (\<lambda>m.
            bindE (updI q (\<lambda>x. x\<lparr>i_mode := rd32 m (inode_slot num), i_size := rd32 m (inode_slot num + 4),
              i_start_sect := rd32 m (inode_slot num + 8), i_nr_sects := rd32 m (inode_slot num + 12)\<rparr>)) (\<lambda>_.
            ret (Some q))))))))"

definition put_inode :: "nat \<Rightarrow> ('a fstate_scheme, unit) op" where
  "put_inode p =
     bindE (assertE ''pinode->i_cnt >0'' (\<lambda>s. 0 < i_cnt (inode_table s p))) (\<lambda>_.
     updI p (\<lambda>x. x\<lparr>i_cnt := i_cnt x - 1\<rparr>))"

definition sync_inode :: "'a fstate_scheme rpc \<Rightarrow> nat \<Rightarrow> ('a fstate_scheme, unit) op" where
  "sync_inode rpc p =
     bindE (getsE (\<lambda>s. inode_table s p)) (\<lambda>x.
     bindE (get_super_block (i_dev x)) (\<lambda>sb.
     let blk_nr = inode_block sb (i_num x) in
     bindE (RD_SECT rpc (i_dev x) blk_nr) (\<lambda>_.
     bindE (getsE (\<lambda>s. inode_table s p)) (\<lambda>x.
     bindE (modM (\<lambda>m. wr32 (wr32 (wr32 (wr32 m (inode_slot (i_num x)) (i_mode x))
       (inode_slot (i_num x) + 4) (i_size x)) (inode_slot (i_num x) + 8) (i_start_sect x))
       (inode_slot (i_num x) + 12) (i_nr_sects x))) (\<lambda>_.
     WR_SECT rpc (i_dev x) blk_nr)))))"

subsection \<open>Paths and the root directory (fs/misc.c)\<close>

text \<open>
  The loop of \<open>strip_path\<close> over the rest of the path; \<open>t\<close> is what it has copied. The local
  array of the path ends where its list of bytes ends.
\<close>

fun strip_loop :: "byte list \<Rightarrow> byte list \<Rightarrow> (fault + byte list option)" where
  "strip_loop [] t = Inl (Bad_access ''pathname'')"
| "strip_loop (c # s) t =
     (if c = 0 then Inr (Some t)
      else if c = 0x2F then Inr None
      else if length (t @ [c]) \<ge> MAX_FILENAME_LEN then Inr (Some (t @ [c]))
      else strip_loop s (t @ [c]))"

text \<open>
  \<open>None\<close> is the result -1. The file name comes without its terminator; the directory is
  always the root.
\<close>

definition strip_path :: "byte list \<Rightarrow> ('a fstate_scheme, (byte list \<times> nat) option) op" where
  "strip_path pathname s =
     (case strip_loop (case pathname of [] \<Rightarrow> [] | c # cs \<Rightarrow> if c = 0x2F then cs else c # cs) [] of
        Inl e \<Rightarrow> Inl e
      | Inr None \<Rightarrow> Inr (None, s)
      | Inr (Some t) \<Rightarrow> Inr (Some (t, myroot_inode s), s))"

text \<open>\<open>memcmp\<close> of a local array with memory.\<close>

fun memcmp_local :: "byte list \<Rightarrow> addr \<Rightarrow> mem \<Rightarrow> int" where
  "memcmp_local [] p m = 0"
| "memcmp_local (b # bs) p m = (if b \<noteq> m p then sint b - sint (m p) else memcmp_local bs (p + 1) m)"

definition dentry :: "nat \<Rightarrow> addr" where
  "dentry j = FSBUF + of_nat (16 * j)"

definition de_inode :: "mem \<Rightarrow> nat \<Rightarrow> int" where
  "de_inode m j = sint (rd32 m (dentry j))"

abbreviation (input) ENTRIES_PER_SECT :: nat where "ENTRIES_PER_SECT \<equiv> 32"

text \<open>The first twelve bytes of the zeroed array the name was copied to.\<close>

definition name_field :: "byte list \<Rightarrow> byte list" where
  "name_field t = take MAX_FILENAME_LEN (t @ replicate MAX_FILENAME_LEN 0)"

text \<open>
  The inner loop of \<open>search_file\<close>: \<open>Inl\<close> is its \<open>return\<close>, \<open>Inr m\<close> the count with which
  it ends, by its bound or by its \<open>break\<close>.
\<close>

fun search_entries :: "mem \<Rightarrow> byte list \<Rightarrow> int \<Rightarrow> nat list \<Rightarrow> int \<Rightarrow> int + int" where
  "search_entries k f nr_dir_dentries [] m = Inr m"
| "search_entries k f nr_dir_dentries (j # js) m =
     (if memcmp_local f (dentry j + 4) k = 0 then Inl (de_inode k j)
      else if m + 1 > nr_dir_dentries then Inr (m + 1)
      else search_entries k f nr_dir_dentries js (m + 1))"

fun search_sects :: "'a fstate_scheme rpc \<Rightarrow> int \<Rightarrow> int \<Rightarrow> byte list \<Rightarrow> int \<Rightarrow> int list \<Rightarrow> int \<Rightarrow>
    ('a fstate_scheme, int) op" where
  "search_sects rpc dev sect0 f nr_dir_dentries [] m = ret 0"
| "search_sects rpc dev sect0 f nr_dir_dentries (i # is) m =
     bindE (RD_SECT rpc dev (sect0 + i)) (\<lambda>_.
     bindE (getsE kmem) (\<lambda>k.
     case search_entries k f nr_dir_dentries [0..<ENTRIES_PER_SECT] m of
       Inl nr \<Rightarrow> ret nr
     | Inr m' \<Rightarrow> if m' > nr_dir_dentries then ret 0
                 else search_sects rpc dev sect0 f nr_dir_dentries is m'))"

definition dir_sects :: "inode \<Rightarrow> int" where
  "dir_sects d = sint ((i_size d + 512 - 1) div 512)"

definition dir_dentries :: "inode \<Rightarrow> int" where
  "dir_dentries d = sint (i_size d div DIR_ENTRY_SIZE)"

definition search_file :: "'a fstate_scheme rpc \<Rightarrow> byte list \<Rightarrow> ('a fstate_scheme, int) op" where
  "search_file rpc path =
     bindE (strip_path path) (\<lambda>r.
     case r of
       None \<Rightarrow> ret 0
     | Some (filename, d) \<Rightarrow>
         bindE (getsE (\<lambda>s. inode_table s d)) (\<lambda>dir.
         if filename = [] then ret (i_num dir)
         else search_sects rpc (i_dev dir) (sint (i_start_sect dir)) (name_field filename)
                (dir_dentries dir) [0..dir_sects dir - 1] 0))"

text \<open>
  \<open>phys_copy(va2la(TASK_FS, pathname), va2la(src, fs_msg.PATHNAME), name_len); pathname[name_len] = 0;\<close>
  into a local array of \<open>MAX_PATH_LEN\<close> bytes.
\<close>

definition get_pathname :: "int \<Rightarrow> addr \<Rightarrow> int \<Rightarrow> ('a kstate_scheme, byte list) op" where
  "get_pathname src p name_len =
     bindE (va2la src p) (\<lambda>la.
     if 0 \<le> name_len \<and> name_len < MAX_PATH_LEN then
       bindE (getsE kmem) (\<lambda>m. ret (mem_bytes m la (nat name_len) @ [0]))
     else fail (Bad_access ''pathname''))"

definition is_special :: "u32 \<Rightarrow> bool" where
  "is_special m = (m AND I_TYPE_MASK = I_BLOCK_SPECIAL \<or> m AND I_TYPE_MASK = I_CHAR_SPECIAL)"

text \<open>\<open>struct stat\<close>: dev, ino, mode, rdev, size.\<close>

definition put_stat :: "inode \<Rightarrow> addr \<Rightarrow> mem \<Rightarrow> mem" where
  "put_stat x a m = wr32 (wr32 (wr32 (wr32 (wr32 m a (u32_int (i_dev x))) (a + 4) (u32_int (i_num x)))
     (a + 8) (i_mode x)) (a + 12) (if is_special (i_mode x) then i_start_sect x else u32_int NO_DEV))
     (a + 16) (i_size x)"

definition do_stat :: "'a fstate_scheme rpc \<Rightarrow> ('a fstate_scheme, int) op" where
  "do_stat rpc =
     bindE (getsE fs_msg) (\<lambda>msg.
     let name_len = msg_NAME_LEN msg; src = m_source msg in
     bindE (assertE ''name_len < MAX_PATH_LEN'' (\<lambda>_. name_len < MAX_PATH_LEN)) (\<lambda>_.
     bindE (get_pathname src (msg_PATHNAME msg) name_len) (\<lambda>pathname.
     bindE (search_file rpc pathname) (\<lambda>inode_nr.
     if inode_nr = INVALID_INODE then ret (-1)
     else
       bindE (strip_path pathname) (\<lambda>r.
       case r of
         None \<Rightarrow> fail (Assert ''0'')
       | Some (_, d) \<Rightarrow>
           bindE (getsE (\<lambda>s. inode_table s d)) (\<lambda>dir.
           bindE (get_inode rpc (i_dev dir) inode_nr) (\<lambda>pin.
           case pin of
             None \<Rightarrow> fail (Bad_access ''pin'')
           | Some p \<Rightarrow>
               bindE (getsE (\<lambda>s. inode_table s p)) (\<lambda>x.
               bindE (put_inode p) (\<lambda>_.
               bindE (va2la src (msg_BUF msg)) (\<lambda>la.
               bindE (modM (put_stat x la)) (\<lambda>_. ret 0)))))))))))"

subsection \<open>The bit maps (fs/opera.c)\<close>

text \<open>\<open>for(k=0; ((fsbuf[j]>>k)&1)!=0; k++);\<close> on a byte that is not 0xff.\<close>

definition skip_ones :: "byte \<Rightarrow> nat" where
  "skip_ones b = length (takeWhile (\<lambda>k. drop_bit k b AND 1 \<noteq> 0) [0..<8])"

text \<open>The byte loop of \<open>alloc_imap_bit\<close>: the first byte with a zero bit.\<close>

fun imap_byte :: "mem \<Rightarrow> nat list \<Rightarrow> nat option" where
  "imap_byte m [] = None"
| "imap_byte m (j # js) = (if fsbuf_byte m j = 0xFF then imap_byte m js else Some j)"

text \<open>The sector loop: its body returns in the first round, whether a bit was found or not.\<close>

fun alloc_imap_loop :: "'a fstate_scheme rpc \<Rightarrow> int \<Rightarrow> int list \<Rightarrow> ('a fstate_scheme, int) op" where
  "alloc_imap_loop rpc dev [] = fail (Panic ''inode-map is probally full.'')"
| "alloc_imap_loop rpc dev (i # is) =
     bindE (RD_SECT rpc dev (2 + i)) (\<lambda>_.
     bindE (getsE kmem) (\<lambda>m.
     case imap_byte m [0..<512] of
       None \<Rightarrow> ret 0
     | Some j \<Rightarrow>
         let k = skip_ones (fsbuf_byte m j) in
         bindE (modM (set_fsbuf_byte j (fsbuf_byte m j OR push_bit k 1))) (\<lambda>_.
         bindE (WR_SECT rpc dev (2 + i)) (\<lambda>_.
         ret ((i * SECTOR_SIZE + int j) * 8 + int k)))))"

definition alloc_imap_bit :: "'a fstate_scheme rpc \<Rightarrow> int \<Rightarrow> ('a fstate_scheme, int) op" where
  "alloc_imap_bit rpc dev =
     bindE (get_super_block dev) (\<lambda>sb.
     alloc_imap_loop rpc dev [0..uint (nr_imap_sects sb) - 1])"

text \<open>The bit loop of \<open>alloc_smap_bit\<close>, from bit \<open>k\<close> of byte \<open>j\<close> on; \<open>left\<close> is \<open>nr_sects_to_alloc\<close>.\<close>

fun smap_bits :: "nat \<Rightarrow> nat list \<Rightarrow> mem \<Rightarrow> int \<Rightarrow> fault + (mem \<times> int)" where
  "smap_bits j [] m left = Inr (m, left)"
| "smap_bits j (k # ks) m left =
     (if drop_bit k (fsbuf_byte m j) AND 1 \<noteq> 0 then Inl (Assert ''((fsbuf[j]>>k)& 1)==0'')
      else
        let m' = set_fsbuf_byte j (fsbuf_byte m j OR push_bit k 1) m in
        if left - 1 = 0 then Inr (m', left - 1) else smap_bits j ks m' (left - 1))"

text \<open>
  The byte loop; \<open>free\<close> is \<open>free_sect_index\<close>, zero until the first free bit is found, and
  \<open>i\<close> the number of the sector in the map.
\<close>

fun smap_bytes :: "super_block \<Rightarrow> int \<Rightarrow> nat list \<Rightarrow> mem \<Rightarrow> int \<Rightarrow> int \<Rightarrow> fault + (mem \<times> int \<times> int)" where
  "smap_bytes sb i [] m left free = Inr (m, left, free)"
| "smap_bytes sb i (j # js) m left free =
     (if left \<le> 0 then Inr (m, left, free)
      else if free = 0 \<and> fsbuf_byte m j = 0xFF then smap_bytes sb i js m left free
      else
        let k = (if free = 0 then skip_ones (fsbuf_byte m j) else 0);
            free' = (if free = 0
              then sint (u32_int ((i * SECTOR_SIZE + int j) * 8 + int k - 1) + n_1st_sect sb) else free)
        in case smap_bits j [k..<8] m left of
          Inl e \<Rightarrow> Inl e
        | Inr (m', left') \<Rightarrow> smap_bytes sb i js m' left' free')"

fun alloc_smap_loop :: "'a fstate_scheme rpc \<Rightarrow> int \<Rightarrow> super_block \<Rightarrow> int list \<Rightarrow> int \<Rightarrow> int \<Rightarrow>
    ('a fstate_scheme, int \<times> int) op" where
  "alloc_smap_loop rpc dev sb [] left free = ret (left, free)"
| "alloc_smap_loop rpc dev sb (i # is) left free =
     (let sect = sint (2 + nr_imap_sects sb) + i in
     bindE (RD_SECT rpc dev sect) (\<lambda>_.
     bindE (getsE kmem) (\<lambda>m.
     case smap_bytes sb i [0..<512] m left free of
       Inl e \<Rightarrow> fail e
     | Inr (m', left', free') \<Rightarrow>
         bindE (modM (\<lambda>_. m')) (\<lambda>_.
         bindE (whenE (free' \<noteq> 0) (WR_SECT rpc dev sect)) (\<lambda>_.
         if left' = 0 then ret (left', free')
         else alloc_smap_loop rpc dev sb is left' free')))))"

definition alloc_smap_bit :: "'a fstate_scheme rpc \<Rightarrow> int \<Rightarrow> int \<Rightarrow> ('a fstate_scheme, int) op" where
  "alloc_smap_bit rpc dev nr_sects_to_alloc =
     bindE (get_super_block dev) (\<lambda>sb.
     bindE (alloc_smap_loop rpc dev sb [0..uint (nr_smap_sects sb) - 1] nr_sects_to_alloc 0) (\<lambda>(left, free).
     bindE (assertE ''nr_sects_to_alloc == 0'' (\<lambda>_. left = 0)) (\<lambda>_.
     ret free)))"

subsection \<open>Creating a file\<close>

definition new_inode :: "'a fstate_scheme rpc \<Rightarrow> int \<Rightarrow> int \<Rightarrow> int \<Rightarrow> ('a fstate_scheme, nat) op" where
  "new_inode rpc dev inode_nr start_sect =
     bindE (get_inode rpc dev inode_nr) (\<lambda>r.
     case r of
       None \<Rightarrow> fail (Bad_access ''new_inode'')
     | Some p \<Rightarrow>
         bindE (updI p (\<lambda>x. x\<lparr>i_mode := I_REGULAR, i_size := 0, i_start_sect := u32_int start_sect,
           i_nr_sects := u32_int NR_DEFAULT_FILE_SECTS, i_dev := dev, i_cnt := 1, i_num := inode_nr\<rparr>)) (\<lambda>_.
         bindE (sync_inode rpc p) (\<lambda>_. ret p)))"

text \<open>
  The inner loop of \<open>new_dir_entry\<close>: the count \<open>m\<close>, the entry that \<open>pde\<close> points to when the
  loop ends, and whether it is a free one.
\<close>

fun free_entry :: "mem \<Rightarrow> int \<Rightarrow> nat list \<Rightarrow> nat \<Rightarrow> int \<Rightarrow> int \<times> nat \<times> bool" where
  "free_entry k nr_dir_entries [] pde m = (m, pde, False)"
| "free_entry k nr_dir_entries (j # js) pde m =
     (if m + 1 > nr_dir_entries then (m + 1, pde, False)
      else if de_inode k j = 0 then (m + 1, pde, True)
      else free_entry k nr_dir_entries js (pde + 1) (m + 1))"

text \<open>The outer loop: the value of \<open>i\<close> after it, \<open>pde\<close>, and whether a free entry was found.\<close>

fun free_entry_sects :: "'a fstate_scheme rpc \<Rightarrow> int \<Rightarrow> int \<Rightarrow> int \<Rightarrow> int list \<Rightarrow> int \<Rightarrow> int \<Rightarrow> nat option \<Rightarrow>
    ('a fstate_scheme, int \<times> nat option \<times> bool) op" where
  "free_entry_sects rpc dev sect0 nr_dir_entries [] i m pde = ret (i, pde, False)"
| "free_entry_sects rpc dev sect0 nr_dir_entries (i # is) _ m pde =
     bindE (RD_SECT rpc dev (sect0 + i)) (\<lambda>_.
     bindE (getsE kmem) (\<lambda>k.
     let (m', pde', found) = free_entry k nr_dir_entries [0..<ENTRIES_PER_SECT] 0 m in
     if m' > nr_dir_entries \<or> found then ret (i, Some pde', found)
     else free_entry_sects rpc dev sect0 nr_dir_entries is (i + 1) m' (Some pde')))"

definition new_dir_entry :: "'a fstate_scheme rpc \<Rightarrow> nat \<Rightarrow> int \<Rightarrow> byte list \<Rightarrow> ('a fstate_scheme, unit) op" where
  "new_dir_entry rpc d inode_nr filename =
     bindE (getsE (\<lambda>s. inode_table s d)) (\<lambda>dir.
     let sect0 = sint (i_start_sect dir) in
     bindE (free_entry_sects rpc (i_dev dir) sect0 (dir_dentries dir) [0..dir_sects dir - 1] 0 0 None)
       (\<lambda>(i, pde, found).
     case pde of
       None \<Rightarrow> fail (Bad_access ''new_de'')
     | Some j \<Rightarrow>
         bindE (whenE (\<not> found) (updI d (\<lambda>x. x\<lparr>i_size := i_size x + DIR_ENTRY_SIZE\<rparr>))) (\<lambda>_.
         bindE (modM (\<lambda>m. wr32 m (dentry j) (u32_int inode_nr))) (\<lambda>_.
         bindE (modM (\<lambda>m. store_bytes m (dentry j + 4) (filename @ [0]))) (\<lambda>_.
         bindE (WR_SECT rpc (i_dev dir) (sect0 + i)) (\<lambda>_.
         sync_inode rpc d))))))"

definition create_file :: "'a fstate_scheme rpc \<Rightarrow> byte list \<Rightarrow> int \<Rightarrow> ('a fstate_scheme, nat option) op" where
  "create_file rpc path flags =
     bindE (strip_path path) (\<lambda>r.
     case r of
       None \<Rightarrow> ret None
     | Some (filename, d) \<Rightarrow>
         bindE (getsE (\<lambda>s. i_dev (inode_table s d))) (\<lambda>dev.
         bindE (alloc_imap_bit rpc dev) (\<lambda>inode_nr.
         bindE (alloc_smap_bit rpc dev NR_DEFAULT_FILE_SECTS) (\<lambda>free_sect_nr.
         bindE (new_inode rpc dev inode_nr free_sect_nr) (\<lambda>p.
         bindE (getsE (\<lambda>s. i_num (inode_table s p))) (\<lambda>num.
         bindE (new_dir_entry rpc d num filename) (\<lambda>_.
         ret (Some p))))))))"

subsection \<open>do_open and do_close\<close>

definition callerE :: "('a fstate_scheme, proc) op" where
  "callerE = bindE (getsE pcaller) procE"

definition set_filp :: "nat \<Rightarrow> nat option \<Rightarrow> ('a fstate_scheme, unit) op" where
  "set_filp fd v = bindE (getsE pcaller) (\<lambda>c. updP c (\<lambda>p. p\<lparr>filp := (filp p)(fd := v)\<rparr>))"

fun first_such :: "(nat \<Rightarrow> bool) \<Rightarrow> nat list \<Rightarrow> nat option" where
  "first_such P [] = None"
| "first_such P (i # is) = (if P i then Some i else first_such P is)"

text \<open>The last part of \<open>do_open\<close>: what opening means for each type of file.\<close>

definition open_by_type :: "'a fstate_scheme rpc \<Rightarrow> inode \<Rightarrow> ('a fstate_scheme, unit) op" where
  "open_by_type rpc x =
     (if i_mode x AND I_TYPE_MASK = I_CHAR_SPECIAL then
        let dev = sint (i_start_sect x) in
        bindE (assertE ''MAJOR(dev) == DEV_CHAR_TTY'' (\<lambda>_. MAJOR dev = DEV_CHAR_TTY)) (\<lambda>_.
        bindE (driver_of (MAJOR dev)) (\<lambda>driver.
        bindE (rpc driver (zero_msg\<lparr>m_type := DEV_OPEN, m3i4 := MINOR dev\<rparr>)) (\<lambda>_. ret ())))
      else if i_mode x AND I_TYPE_MASK = I_DIRECTORY then
        assertE ''pin->i_num == ROOT_INODE'' (\<lambda>_. i_num x = ROOT_INODE)
      else assertE ''pin->i_mode == I_REGULAR'' (\<lambda>_. i_mode x = I_REGULAR))"

definition connect_fd :: "'a fstate_scheme rpc \<Rightarrow> nat \<Rightarrow> nat \<Rightarrow> int \<Rightarrow> nat option \<Rightarrow> ('a fstate_scheme, int) op" where
  "connect_fd rpc fd i flags pin =
     (case pin of
        None \<Rightarrow> ret (-1)
      | Some p \<Rightarrow>
          bindE (set_filp fd (Some i)) (\<lambda>_.
          bindE (updFD i (\<lambda>f. f\<lparr>fd_inode := Some p, fd_mode := flags, fd_cnt := 1, fd_pos := 0\<rparr>)) (\<lambda>_.
          bindE (getsE (\<lambda>s. inode_table s p)) (\<lambda>x.
          bindE (open_by_type rpc x) (\<lambda>_.
          ret (int fd))))))"

definition flag_set :: "int \<Rightarrow> int \<Rightarrow> bool" where
  "flag_set flags b = (and flags b \<noteq> 0)"

definition do_open :: "'a fstate_scheme rpc \<Rightarrow> ('a fstate_scheme, int) op" where
  "do_open rpc =
     bindE (getsE fs_msg) (\<lambda>msg.
     let flags = msg_FLAGS msg; name_len = msg_NAME_LEN msg; src = m_source msg in
     bindE (assertE ''name_len < MAX_PATH_LEN'' (\<lambda>_. name_len < MAX_PATH_LEN)) (\<lambda>_.
     bindE (get_pathname src (msg_PATHNAME msg) name_len) (\<lambda>pathname.
     bindE callerE (\<lambda>caller.
     case first_such (\<lambda>i. filp caller i = None) [0..<NR_FILES] of
       None \<Rightarrow> fail (Panic ''filep[] if full'')
     | Some fd \<Rightarrow>
     bindE (getsE (\<lambda>s. first_such (\<lambda>i. fd_inode (f_desc_table s i) = None) [0..<NR_FILE_DESC])) (\<lambda>slot.
     case slot of
       None \<Rightarrow> fail (Panic ''f_desc_table is full'')
     | Some i \<Rightarrow>
     bindE (search_file rpc pathname) (\<lambda>inode_nr.
     if flag_set flags O_CREAT then
       if inode_nr \<noteq> 0 then ret (-1)
       else bindE (create_file rpc pathname flags) (connect_fd rpc fd i flags)
     else
       bindE (assertE ''flags & O_RDWR'' (\<lambda>_. flag_set flags O_RDWR)) (\<lambda>_.
       bindE (strip_path pathname) (\<lambda>r.
       case r of
         None \<Rightarrow> ret (-1)
       | Some (_, d) \<Rightarrow>
           bindE (getsE (\<lambda>s. i_dev (inode_table s d))) (\<lambda>dev.
           bindE (get_inode rpc dev inode_nr) (connect_fd rpc fd i flags)))))))))) "

definition filp_of :: "int \<Rightarrow> ('a fstate_scheme, nat option) op" where
  "filp_of fd =
     (if 0 \<le> fd \<and> fd < int NR_FILES then bindE callerE (\<lambda>p. ret (filp p (nat fd)))
      else fail (Bad_access ''filp''))"

definition do_close :: "('a fstate_scheme, int) op" where
  "do_close =
     bindE (getsE (\<lambda>s. msg_FD (fs_msg s))) (\<lambda>fd.
     bindE (filp_of fd) (\<lambda>f.
     case f of
       None \<Rightarrow> fail (Assert ''pcaller->filp[fd]!=0'')
     | Some i \<Rightarrow>
         bindE (getsE (\<lambda>s. fd_inode (f_desc_table s i))) (\<lambda>pin.
         case pin of
           None \<Rightarrow> ret 0
         | Some p \<Rightarrow>
             bindE (put_inode p) (\<lambda>_.
             bindE (updFD i (\<lambda>f. f\<lparr>fd_cnt := fd_cnt f - 1\<rparr>)) (\<lambda>_.
             bindE (getsE (\<lambda>s. fd_cnt (f_desc_table s i))) (\<lambda>c.
             bindE (whenE (c = 0) (updFD i (\<lambda>f. f\<lparr>fd_inode := None\<rparr>))) (\<lambda>_.
             bindE (set_filp (nat fd) None) (\<lambda>_. ret 0))))))))"

subsection \<open>do_rw\<close>

text \<open>\<open>min\<close> of an \<open>int\<close> with an unsigned value compares unsigned.\<close>

definition min_u32 :: "u32 \<Rightarrow> u32 \<Rightarrow> u32" where
  "min_u32 a b = (if a < b then a else b)"

definition set_fs_msg :: "message \<Rightarrow> ('a fstate_scheme, unit) op" where
  "set_fs_msg msg = modE (\<lambda>s. s\<lparr>fs_msg := msg\<rparr>)"

definition rw_char :: "'a fstate_scheme rpc \<Rightarrow> inode \<Rightarrow> message \<Rightarrow> ('a fstate_scheme, int) op" where
  "rw_char rpc x msg =
     (let dev = sint (i_start_sect x) in
      bindE (assertE ''MAJOR(dev)==4'' (\<lambda>_. MAJOR dev = 4)) (\<lambda>_.
      bindE (driver_of (MAJOR dev)) (\<lambda>driver.
      bindE (rpc driver (msg\<lparr>m_type := (if m_type msg = READ then DEV_READ else DEV_WRITE),
        m3i4 := MINOR dev, m3i3 := m_source msg\<rparr>)) (\<lambda>reply.
      bindE (set_fs_msg reply) (\<lambda>_.
      bindE (assertE ''fs_msg.CNT==len'' (\<lambda>_. msg_CNT reply = msg_CNT msg)) (\<lambda>_.
      ret (msg_CNT reply)))))))"

text \<open>One round of the sector loop; \<open>i\<close> is the first sector of the chunk.\<close>

definition rw_round :: "'a fstate_scheme rpc \<Rightarrow> int \<Rightarrow> message \<Rightarrow> nat \<Rightarrow> int \<Rightarrow> int \<Rightarrow> int \<Rightarrow> int \<Rightarrow> int \<Rightarrow>
    ('a fstate_scheme, unit) op" where
  "rw_round rpc dev msg f chunk i off bytes_rw bytes =
     bindE (rw_sector rpc dev (sect_pos i) TASK_FS FSBUF (chunk * SECTOR_SIZE) DEV_READ) (\<lambda>_.
     bindE (if m_type msg = READ then
         copy_between (m_source msg) (msg_BUF msg + u32_int bytes_rw) TASK_FS (FSBUF + u32_int off) bytes
       else
         bindE (copy_between TASK_FS (FSBUF + u32_int off) (m_source msg) (msg_BUF msg + u32_int bytes_rw) bytes) (\<lambda>_.
         rw_sector rpc dev (sect_pos i) TASK_FS FSBUF (chunk * SECTOR_SIZE) DEV_WRITE)) (\<lambda>_.
     updFD f (\<lambda>x. x\<lparr>fd_pos := fd_pos x + bytes\<rparr>)))"

fun rw_loop :: "'a fstate_scheme rpc \<Rightarrow> int \<Rightarrow> message \<Rightarrow> nat \<Rightarrow> int \<Rightarrow> int list \<Rightarrow> int \<Rightarrow> int \<Rightarrow> int \<Rightarrow>
    ('a fstate_scheme, int) op" where
  "rw_loop rpc dev msg f chunk [] off bytes_rw bytes_left = ret bytes_rw"
| "rw_loop rpc dev msg f chunk (i # is) off bytes_rw bytes_left =
     (let bytes = min bytes_left (chunk * SECTOR_SIZE - off) in
      bindE (rw_round rpc dev msg f chunk i off bytes_rw bytes) (\<lambda>_.
      rw_loop rpc dev msg f chunk is 0 (bytes_rw + bytes) (bytes_left - bytes)))"

text \<open>\<open>for (i = rw_sect_start; i <= rw_sect_end; i += chunk)\<close>\<close>

definition chunk_starts :: "int \<Rightarrow> int \<Rightarrow> int \<Rightarrow> int list" where
  "chunk_starts lo hi chunk =
     (if lo \<le> hi then map (\<lambda>k. lo + int k * chunk) [0..<Suc (nat ((hi - lo) div chunk))] else [])"

definition rw_file :: "'a fstate_scheme rpc \<Rightarrow> nat \<Rightarrow> nat \<Rightarrow> inode \<Rightarrow> int \<Rightarrow> message \<Rightarrow> ('a fstate_scheme, int) op" where
  "rw_file rpc f p x pos msg =
     bindE (assertE ''pin->i_mode'' (\<lambda>_. i_mode x = I_REGULAR \<or> i_mode x = I_DIRECTORY)) (\<lambda>_.
     bindE (assertE ''fs_msg.type'' (\<lambda>_. m_type msg = READ \<or> m_type msg = WRITE)) (\<lambda>_.
     let len = msg_CNT msg;
         pos_end = sint (if m_type msg = READ then min_u32 (u32_int (pos + len)) (i_size x)
                         else min_u32 (u32_int (pos + len)) (i_nr_sects x * 512));
         off = c_mod pos SECTOR_SIZE;
         rw_sect_start = sint (i_start_sect x + u32_int (pos div 512));
         rw_sect_end = sint (i_start_sect x + u32_int (pos_end div 512));
         chunk = min (rw_sect_end - rw_sect_start + 1) (FSBUF_SIZE div 512)
     in
     bindE (rw_loop rpc (i_dev x) msg f chunk (chunk_starts rw_sect_start rw_sect_end chunk) off 0 len) (\<lambda>bytes_rw.
     bindE (getsE (\<lambda>s. fd_pos (f_desc_table s f))) (\<lambda>fdp.
     bindE (getsE (\<lambda>s. i_size (inode_table s p))) (\<lambda>sz.
     bindE (whenE (u32_int fdp > sz)
       (bindE (updI p (\<lambda>x. x\<lparr>i_size := u32_int fdp\<rparr>)) (\<lambda>_. sync_inode rpc p))) (\<lambda>_.
     ret bytes_rw))))))"

definition do_rw :: "'a fstate_scheme rpc \<Rightarrow> ('a fstate_scheme, int) op" where
  "do_rw rpc =
     bindE (getsE fs_msg) (\<lambda>msg.
     bindE (filp_of (msg_FD msg)) (\<lambda>r.
     case r of
       None \<Rightarrow> fail (Assert ''pcaller->filp[fd]'')
     | Some f \<Rightarrow>
         bindE (assertE ''pcaller->filp[fd]'' (\<lambda>_. f < NR_FILE_DESC)) (\<lambda>_.
         bindE (getsE (\<lambda>s. f_desc_table s f)) (\<lambda>fd.
         if \<not> flag_set (fd_mode fd) O_RDWR then ret (-1)
         else case fd_inode fd of
           None \<Rightarrow> fail (Spin ''do_rw'')
         | Some p \<Rightarrow>
             bindE (assertE ''pin'' (\<lambda>_. p < NR_INODE)) (\<lambda>_.
             bindE (getsE (\<lambda>s. inode_table s p)) (\<lambda>x.
             if i_mode x AND I_TYPE_MASK = I_CHAR_SPECIAL then rw_char rpc x msg
             else rw_file rpc f p x (fd_pos fd) msg))))))"

subsection \<open>do_unlink\<close>

text \<open>\<open>for(i=...;i<8&&bits_to_clear;i++)\<close> on byte \<open>j\<close> of the buffer.\<close>

fun clear_first :: "nat \<Rightarrow> nat list \<Rightarrow> mem \<Rightarrow> int \<Rightarrow> fault + (mem \<times> int)" where
  "clear_first j [] m left = Inr (m, left)"
| "clear_first j (b # bs) m left =
     (if left = 0 then Inr (m, left)
      else if fsbuf_byte m j AND push_bit b 1 = 0 then Inl (Assert ''fsbuf[first_byte_in_sector] & (1<<i)'')
      else clear_first j bs (set_fsbuf_byte j (fsbuf_byte m j AND NOT (push_bit b 1)) m) (left - 1))"

text \<open>\<open>if(i==SECTOR_SIZE)\<close>: on to the next sector of the map.\<close>

definition next_map_sect :: "'a fstate_scheme rpc \<Rightarrow> int \<Rightarrow> nat \<Rightarrow> int \<Rightarrow> ('a fstate_scheme, nat \<times> int) op" where
  "next_map_sect rpc dev i sect =
     (if i = 512 then
        bindE (WR_SECT rpc dev sect) (\<lambda>_. bindE (RD_SECT rpc dev (sect + 1)) (\<lambda>_. ret (0, sect + 1)))
      else ret (i, sect))"

fun clear_bytes :: "'a fstate_scheme rpc \<Rightarrow> int \<Rightarrow> nat \<Rightarrow> nat \<Rightarrow> int \<Rightarrow> int \<Rightarrow>
    ('a fstate_scheme, nat \<times> int \<times> int) op" where
  "clear_bytes rpc dev 0 i sect left = ret (i, sect, left)"
| "clear_bytes rpc dev (Suc n) i sect left =
     bindE (next_map_sect rpc dev i sect) (\<lambda>(i, sect).
     bindE (assertE ''fsbuf[i]==0xff'' (\<lambda>s. fsbuf_byte (kmem s) i = 0xFF)) (\<lambda>_.
     bindE (modM (set_fsbuf_byte i 0)) (\<lambda>_.
     clear_bytes rpc dev n (i + 1) sect (left - 8))))"

fun clear_last :: "nat \<Rightarrow> nat list \<Rightarrow> mem \<Rightarrow> fault + mem" where
  "clear_last i [] m = Inr m"
| "clear_last i (j # js) m =
     (if fsbuf_byte m i AND push_bit j 1 = 0 then Inl (Assert ''fsbuf[i] & (1<<j)'')
      else clear_last i js (set_fsbuf_byte i (fsbuf_byte m i AND NOT (push_bit j 1)) m))"

definition clear_imap :: "'a fstate_scheme rpc \<Rightarrow> int \<Rightarrow> int \<Rightarrow> ('a fstate_scheme, unit) op" where
  "clear_imap rpc dev inode_nr =
     (let byte_index = c_div inode_nr 8; bit_index = nat (c_mod inode_nr 8); j = nat byte_index in
      bindE (assertE ''byte_index<SECTOR_SIZE'' (\<lambda>_. byte_index < SECTOR_SIZE)) (\<lambda>_.
      bindE (RD_SECT rpc dev 2) (\<lambda>_.
      bindE (assertE ''fsbuf[byte_index] & (1<<bit_index)''
        (\<lambda>s. fsbuf_byte (kmem s) j AND push_bit bit_index 1 \<noteq> 0)) (\<lambda>_.
      bindE (modM (\<lambda>m. set_fsbuf_byte j (fsbuf_byte m j AND NOT (push_bit bit_index 1)) m)) (\<lambda>_.
      WR_SECT rpc dev 2)))))"

definition liftM :: "(mem \<Rightarrow> fault + (mem \<times> 'r)) \<Rightarrow> ('a kstate_scheme, 'r) op" where
  "liftM f s = (case f (kmem s) of Inl e \<Rightarrow> Inl e | Inr (m, r) \<Rightarrow> Inr (r, s\<lparr>kmem := m\<rparr>))"

definition clear_smap :: "'a fstate_scheme rpc \<Rightarrow> int \<Rightarrow> super_block \<Rightarrow> inode \<Rightarrow> ('a fstate_scheme, unit) op" where
  "clear_smap rpc dev sb x =
     (let bit_start = sint (i_start_sect x - n_1st_sect sb + 1);
          byte_start = c_div bit_start 8;
          sect = sint (2 + nr_imap_sects sb + u32_int (c_div byte_start SECTOR_SIZE));
          first_byte = nat (c_mod byte_start SECTOR_SIZE);
          first_bit = c_mod bit_start 8;
          bits_to_clear = sint (i_nr_sects x);
          bytes_to_clear = (if first_bit \<noteq> 0 then c_div (bits_to_clear - (8 - first_bit)) 8 else c_div bits_to_clear 8)
      in
      bindE (RD_SECT rpc dev sect) (\<lambda>_.
      bindE (liftM (\<lambda>m. clear_first first_byte [nat first_bit..<8] m bits_to_clear)) (\<lambda>left.
      bindE (clear_bytes rpc dev (nat bytes_to_clear) (first_byte + 1) sect left) (\<lambda>(i, sect, left).
      bindE (next_map_sect rpc dev i sect) (\<lambda>(i, sect).
      bindE (liftM (\<lambda>m. case clear_last i [0..<nat left] m of Inl e \<Rightarrow> Inl e | Inr m' \<Rightarrow> Inr (m', ()))) (\<lambda>_.
      WR_SECT rpc dev sect))))))"

text \<open>
  The inner loop over the directory: the counters \<open>m\<close>, \<open>dir_size\<close> and \<open>lastp\<close>, and the entry
  that holds the inode number, if it is reached.
\<close>

fun unlink_entries :: "mem \<Rightarrow> int \<Rightarrow> int \<Rightarrow> nat list \<Rightarrow> int \<times> u32 \<times> u32 \<Rightarrow> (int \<times> u32 \<times> u32) \<times> nat option" where
  "unlink_entries k inode_nr nr [] c = (c, None)"
| "unlink_entries k inode_nr nr (j # js) (m, dir_size, lastp) =
     (if m + 1 > nr then ((m + 1, dir_size, lastp), None)
      else if de_inode k j = inode_nr then ((m + 1, dir_size, lastp), Some j)
      else unlink_entries k inode_nr nr js
        (m + 1, dir_size + DIR_ENTRY_SIZE, if de_inode k j \<noteq> 0 then dir_size + DIR_ENTRY_SIZE else lastp))"

fun unlink_sects :: "'a fstate_scheme rpc \<Rightarrow> int \<Rightarrow> int \<Rightarrow> int \<Rightarrow> int \<Rightarrow> int list \<Rightarrow> int \<times> u32 \<times> u32 \<Rightarrow>
    ('a fstate_scheme, int \<times> u32 \<times> bool) op" where
  "unlink_sects rpc dev sect0 inode_nr nr [] (m, dir_size, lastp) = ret (m, lastp, False)"
| "unlink_sects rpc dev sect0 inode_nr nr (i # is) c =
     bindE (RD_SECT rpc dev (sect0 + i)) (\<lambda>_.
     bindE (getsE kmem) (\<lambda>k.
     let ((m, dir_size, lastp), r) = unlink_entries k inode_nr nr [0..<ENTRIES_PER_SECT] c in
     case r of
       Some j \<Rightarrow>
         bindE (modM (\<lambda>m. memset 16 (dentry j) 0 m)) (\<lambda>_.
         bindE (WR_SECT rpc dev (sect0 + i)) (\<lambda>_.
         ret (m, lastp, True)))
     | None \<Rightarrow>
         if m > nr then ret (m, lastp, False)
         else unlink_sects rpc dev sect0 inode_nr nr is (m, dir_size, lastp)))"

definition remove_entry :: "'a fstate_scheme rpc \<Rightarrow> nat \<Rightarrow> int \<Rightarrow> ('a fstate_scheme, unit) op" where
  "remove_entry rpc d inode_nr =
     bindE (getsE (\<lambda>s. inode_table s d)) (\<lambda>dir.
     bindE (unlink_sects rpc (i_dev dir) (sint (i_start_sect dir)) inode_nr (dir_dentries dir)
       [0..dir_sects dir - 1] (0, 0, 0)) (\<lambda>(m, lastp, isfound).
     bindE (assertE ''isfound'' (\<lambda>_. isfound)) (\<lambda>_.
     whenE (m = dir_dentries dir) (updI d (\<lambda>x. x\<lparr>i_size := lastp\<rparr>)))))"

definition do_unlink :: "'a fstate_scheme rpc \<Rightarrow> ('a fstate_scheme, int) op" where
  "do_unlink rpc =
     bindE (getsE fs_msg) (\<lambda>msg.
     bindE (get_pathname (m_source msg) (msg_PATHNAME msg) (msg_NAME_LEN msg)) (\<lambda>pathname.
     if takeWhile (\<lambda>b. b \<noteq> 0) pathname = [0x2F] then ret (-1)
     else
       bindE (search_file rpc pathname) (\<lambda>inode_nr.
       bindE (assertE ''inode_nr !=0'' (\<lambda>_. inode_nr \<noteq> 0)) (\<lambda>_.
       bindE (strip_path pathname) (\<lambda>r.
       case r of
         None \<Rightarrow> ret (-1)
       | Some (_, d) \<Rightarrow>
           bindE (getsE (\<lambda>s. i_dev (inode_table s d))) (\<lambda>dev.
           bindE (get_inode rpc dev inode_nr) (\<lambda>pin.
           case pin of
             None \<Rightarrow> fail (Bad_access ''file_inode'')
           | Some p \<Rightarrow>
               bindE (getsE (\<lambda>s. inode_table s p)) (\<lambda>x.
               if i_mode x \<noteq> I_REGULAR then ret (-1)
               else if i_cnt x > 1 then ret (-1)
               else
                 bindE (get_super_block (i_dev x)) (\<lambda>sb.
                 bindE (clear_imap rpc (i_dev x) inode_nr) (\<lambda>_.
                 bindE (clear_smap rpc (i_dev x) sb x) (\<lambda>_.
                 bindE (updI p (\<lambda>x. x\<lparr>i_mode := 0, i_size := 0, i_start_sect := 0, i_nr_sects := 0\<rparr>)) (\<lambda>_.
                 bindE (sync_inode rpc p) (\<lambda>_.
                 bindE (put_inode p) (\<lambda>_.
                 bindE (remove_entry rpc d inode_nr) (\<lambda>_.
                 ret 0)))))))))))))))"

subsection \<open>Processes that fork and exit (fs/main.c)\<close>

definition fs_fork :: "('a fstate_scheme, int) op" where
  "fs_fork =
     bindE (getsE (\<lambda>s. msg_PID (fs_msg s))) (\<lambda>child.
     bindE (forE [0..<NR_FILES] (\<lambda>i.
       bindE (procE child) (\<lambda>p.
       case filp p i of
         None \<Rightarrow> ret ()
       | Some f \<Rightarrow>
           bindE (updFD f (\<lambda>x. x\<lparr>fd_cnt := fd_cnt x + 1\<rparr>)) (\<lambda>_.
           bindE (getsE (\<lambda>s. fd_inode (f_desc_table s f))) (\<lambda>pin.
           case pin of
             None \<Rightarrow> fail (Bad_access ''fd_inode'')
           | Some q \<Rightarrow> updI q (\<lambda>x. x\<lparr>i_cnt := i_cnt x + 1\<rparr>)))))) (\<lambda>_.
     ret 0))"

definition fs_exit :: "('a fstate_scheme, int) op" where
  "fs_exit =
     bindE (getsE (\<lambda>s. msg_PID (fs_msg s))) (\<lambda>p.
     bindE (forE [0..<NR_FILES] (\<lambda>i.
       bindE (procE p) (\<lambda>x.
       case filp x i of
         None \<Rightarrow> ret ()
       | Some f \<Rightarrow>
           bindE (getsE (\<lambda>s. fd_inode (f_desc_table s f))) (\<lambda>pin.
           case pin of
             None \<Rightarrow> fail (Bad_access ''fd_inode'')
           | Some q \<Rightarrow>
               bindE (updI q (\<lambda>x. x\<lparr>i_cnt := i_cnt x - 1\<rparr>)) (\<lambda>_.
               bindE (updFD f (\<lambda>x. x\<lparr>fd_cnt := fd_cnt x - 1\<rparr>)) (\<lambda>_.
               bindE (getsE (\<lambda>s. fd_cnt (f_desc_table s f))) (\<lambda>c.
               bindE (whenE (c = 0) (updFD f (\<lambda>x. x\<lparr>fd_inode := None\<rparr>))) (\<lambda>_.
               updP p (\<lambda>x. x\<lparr>filp := (filp x)(i := None)\<rparr>)))))))) ) (\<lambda>_.
     ret 0))"

subsection \<open>Making the file system\<close>

text \<open>
  The geometry the driver reports is written to \<open>geo\<close>, a local structure whose address on
  the stack of the task is the argument \<open>geo_addr\<close>: base, then size.
\<close>

definition mkfs_super :: "u32 \<Rightarrow> super_block" where
  "mkfs_super geo_size =
     (let bits_per_sect = 512 * 8 :: u32;
          inode_sects = (bits_per_sect * 32) div 512;
          smap = geo_size div bits_per_sect + 1
      in \<lparr> magic = MAGIC_V1, nr_inodes = bits_per_sect, nr_sects = geo_size, nr_imap_sects = 1,
           nr_smap_sects = smap, n_1st_sect = 2 + 1 + smap + inode_sects, nr_inode_sects = inode_sects,
           root_inode = 1, inode_size = 32, inode_isize_off = 4, inode_start_off = 8, dir_ent_size = 16,
           dir_ent_inode_off = 0, dir_ent_fname_off = 4, sb_dev = 0 \<rparr>)"

text \<open>The loop that marks the sectors of cmd.tar in the sector map.\<close>

fun mark_install :: "'a fstate_scheme rpc \<Rightarrow> int \<Rightarrow> nat \<Rightarrow> int \<Rightarrow> int \<Rightarrow> ('a fstate_scheme, int) op" where
  "mark_install rpc map0 0 bit_off_in_sect cur_sect = ret cur_sect"
| "mark_install rpc map0 (Suc bit_left) bit_off_in_sect cur_sect =
     (let byte_off = nat (c_div bit_off_in_sect 8) in
      bindE (modM (\<lambda>m. set_fsbuf_byte byte_off
        (fsbuf_byte m byte_off OR push_bit (nat (c_mod bit_off_in_sect 8)) 1) m)) (\<lambda>_.
      if bit_off_in_sect + 1 = SECTOR_SIZE * 8 then
        bindE (WR_SECT rpc ROOT_DEV (map0 + cur_sect)) (\<lambda>_.
        bindE (RD_SECT rpc ROOT_DEV (map0 + (cur_sect + 1))) (\<lambda>_.
        mark_install rpc map0 bit_left 0 (cur_sect + 1)))
      else mark_install rpc map0 bit_left (bit_off_in_sect + 1) cur_sect))"

definition put_inode_at :: "nat \<Rightarrow> u32 \<Rightarrow> u32 \<Rightarrow> u32 \<Rightarrow> u32 \<Rightarrow> mem \<Rightarrow> mem" where
  "put_inode_at n mode sz start sects m =
     (let a = FSBUF + of_nat (32 * n) in
      wr32 (wr32 (wr32 (wr32 m a mode) (a + 4) sz) (a + 8) start) (a + 12) sects)"

definition put_dentry_at :: "nat \<Rightarrow> u32 \<Rightarrow> byte list \<Rightarrow> mem \<Rightarrow> mem" where
  "put_dentry_at j nr nm m = store_bytes (wr32 m (dentry j) nr) (dentry j + 4) (nm @ [0])"

definition name_dot :: "byte list" where "name_dot = [0x2E]"
definition name_tty :: "nat \<Rightarrow> byte list" where
  "name_tty i = [0x64, 0x65, 0x76, 0x5F, 0x74, 0x74, 0x79] @ [0x30 + of_nat i]"
definition name_cmd_tar :: "byte list" where "name_cmd_tar = [0x63, 0x6D, 0x64, 0x2E, 0x74, 0x61, 0x72]"

definition mkfs :: "'a fstate_scheme rpc \<Rightarrow> addr \<Rightarrow> ('a fstate_scheme, unit) op" where
  "mkfs rpc geo_addr =
     bindE (driver_of (MAJOR ROOT_DEV)) (\<lambda>driver.
     bindE (rpc driver (zero_msg\<lparr>m_type := DEV_IOCTL, m3i4 := MINOR ROOT_DEV, m3i3 := TASK_FS, m3p2 := geo_addr,
       m3i2 := DIOCTL_GET_GEO\<rparr>)) (\<lambda>_.
     bindE (getsE (\<lambda>s. mkfs_super (rd32 (kmem s) (geo_addr + 4)))) (\<lambda>sb.
     let map0 = sint (2 + nr_imap_sects sb);
         bit_offset = sint (u32_int INSTALL_START_SECT - n_1st_sect sb + 1);
         ones = (2048 + 1) div 8
     in
     bindE (blockE [
       modM (memset 512 FSBUF 0x90), modM (write_sb sb FSBUF), WR_SECT rpc ROOT_DEV 1,
       modM (memset 512 FSBUF 0),
       modM (\<lambda>m. foldl (\<lambda>m i. set_fsbuf_byte 0 (fsbuf_byte m 0 OR push_bit i 1) m) m [0..<NR_CONSOLE + 3]),
       assertE ''fsbuf[0]==0x3f'' (\<lambda>s. fsbuf_byte (kmem s) 0 = 0x3F),
       WR_SECT rpc ROOT_DEV 2,
       modM (memset 512 FSBUF 0), modM (memset ones FSBUF 0xFF),
       modM (\<lambda>m. foldl (\<lambda>m j. set_fsbuf_byte ones (fsbuf_byte m ones OR push_bit j 1) m) m [0..<(2048 + 1) mod 8]),
       WR_SECT rpc ROOT_DEV map0,
       modM (memset 512 FSBUF 0),
       forE [1..uint (nr_smap_sects sb) - 1] (\<lambda>i. WR_SECT rpc ROOT_DEV (map0 + i)),
       assertE ''INSTALL_START_SECT + INSTALL_NR_SECTS < sb.nr_sects - NR_SECTS_FOR_LOG''
         (\<lambda>_. u32_int (INSTALL_START_SECT + INSTALL_NR_SECTS) < nr_sects sb - u32_int NR_SECTS_FOR_LOG),
       RD_SECT rpc ROOT_DEV (map0 + c_div bit_offset (SECTOR_SIZE * 8))]) (\<lambda>_.
     bindE (mark_install rpc map0 (nat INSTALL_NR_SECTS) (c_mod bit_offset (SECTOR_SIZE * 8))
       (c_div bit_offset (SECTOR_SIZE * 8))) (\<lambda>cur_sect.
     blockE [
       WR_SECT rpc ROOT_DEV (map0 + cur_sect),
       modM (memset 512 FSBUF 0),
       modM (put_inode_at 0 I_DIRECTORY (DIR_ENTRY_SIZE * 5) (n_1st_sect sb) (u32_int NR_DEFAULT_FILE_SECTS)),
       modM (\<lambda>m. foldl (\<lambda>m i. put_inode_at (i + 1) I_CHAR_SPECIAL 0 (u32_int (MAKE_DEV DEV_CHAR_TTY (int i))) 0 m)
         m [0..<NR_CONSOLE]),
       modM (put_inode_at (NR_CONSOLE + 1) I_REGULAR (u32_int (INSTALL_NR_SECTS * SECTOR_SIZE))
         (u32_int INSTALL_START_SECT) (u32_int INSTALL_NR_SECTS)),
       WR_SECT rpc ROOT_DEV (sint (2 + nr_imap_sects sb + nr_smap_sects sb)),
       modM (memset 512 FSBUF 0),
       modM (put_dentry_at 0 1 name_dot),
       modM (\<lambda>m. foldl (\<lambda>m i. put_dentry_at (i + 1) (of_nat (i + 2)) (name_tty i) m) m [0..<NR_CONSOLE]),
       modM (put_dentry_at (NR_CONSOLE + 1) (of_nat (NR_CONSOLE + 2)) name_cmd_tar),
       WR_SECT rpc ROOT_DEV (sint (n_1st_sect sb))]))))) "

definition init_fs :: "'a fstate_scheme rpc \<Rightarrow> addr \<Rightarrow> ('a fstate_scheme, unit) op" where
  "init_fs rpc geo_addr =
     bindE (modE (\<lambda>s. s\<lparr>
       f_desc_table := (\<lambda>i. if i < NR_FILE_DESC then \<lparr>fd_mode = 0, fd_pos = 0, fd_cnt = 0, fd_inode = None\<rparr>
         else f_desc_table s i),
       inode_table := (\<lambda>i. if i < NR_INODE then \<lparr>i_mode = 0, i_size = 0, i_start_sect = 0, i_nr_sects = 0,
         i_dev = 0, i_cnt = 0, i_num = 0\<rparr> else inode_table s i),
       super_blocks := (\<lambda>i. if i < NR_SUPER_BLOCK then (super_blocks s i)\<lparr>sb_dev := NO_DEV\<rparr>
         else super_blocks s i)\<rparr>)) (\<lambda>_.
     bindE (driver_of (MAJOR ROOT_DEV)) (\<lambda>driver.
     bindE (rpc driver (zero_msg\<lparr>m_type := DEV_OPEN, m3i4 := MINOR ROOT_DEV\<rparr>)) (\<lambda>_.
     bindE (mkfs rpc geo_addr) (\<lambda>_.
     bindE (read_super_block rpc ROOT_DEV) (\<lambda>_.
     bindE (get_super_block ROOT_DEV) (\<lambda>sb.
     bindE (assertE ''sb->magic == MAGIC_V1'' (\<lambda>_. magic sb = MAGIC_V1)) (\<lambda>_.
     bindE (get_inode rpc ROOT_DEV ROOT_INODE) (\<lambda>r.
     case r of
       None \<Rightarrow> fail (Bad_access ''myroot_inode'')
     | Some p \<Rightarrow> modE (\<lambda>s. s\<lparr>myroot_inode := p\<rparr>)))))))))"

subsection \<open>One request of task_fs\<close>

text \<open>
  From the message received in \<open>fs_msg\<close> to the reply: the process to answer and the answer,
  or \<open>None\<close> when the caller stays suspended (the terminal driver answers it later).
\<close>

definition fs_dispatch :: "'a fstate_scheme rpc \<Rightarrow> int \<Rightarrow> ('a fstate_scheme, int) op" where
  "fs_dispatch rpc src =
     bindE (getsE (\<lambda>s. m_type (fs_msg s))) (\<lambda>t.
     if t = OPEN then bindE (do_open rpc) (\<lambda>r. bindE (modE (\<lambda>s. s\<lparr>fs_msg := (fs_msg s)\<lparr>m3i1 := r\<rparr>\<rparr>)) (\<lambda>_. ret src))
     else if t = READ \<or> t = WRITE then
       bindE (do_rw rpc) (\<lambda>r. bindE (modE (\<lambda>s. s\<lparr>fs_msg := (fs_msg s)\<lparr>m3i2 := r\<rparr>\<rparr>)) (\<lambda>_. ret src))
     else if t = RESUME_PROC then getsE (\<lambda>s. msg_PROC_NR (fs_msg s))
     else
       bindE (if t = CLOSE then do_close
              else if t = UNLINK then do_unlink rpc
              else if t = FORK then fs_fork
              else if t = EXIT then fs_exit
              else if t = STAT then do_stat rpc
              else fail (Assert ''0'')) (\<lambda>r.
       bindE (modE (\<lambda>s. s\<lparr>fs_msg := (fs_msg s)\<lparr>m3i1 := r\<rparr>\<rparr>)) (\<lambda>_. ret src)))"

definition fs_request :: "'a fstate_scheme rpc \<Rightarrow> message \<Rightarrow> ('a fstate_scheme, (int \<times> message) option) op" where
  "fs_request rpc msg =
     bindE (set_fs_msg msg) (\<lambda>_.
     bindE (modE (\<lambda>s. s\<lparr>pcaller := m_source msg\<rparr>)) (\<lambda>_.
     bindE (fs_dispatch rpc (m_source msg)) (\<lambda>src.
     bindE (getsE (\<lambda>s. m_type (fs_msg s))) (\<lambda>t.
     if t \<noteq> SUSPEND_PROC then
       bindE (modE (\<lambda>s. s\<lparr>fs_msg := (fs_msg s)\<lparr>m_type := SYSCALL_RET\<rparr>\<rparr>)) (\<lambda>_.
       getsE (\<lambda>s. Some (src, fs_msg s)))
     else ret None))))"

end
