(* ===== verification/Hd.thy ===== *)
theory Hd
  imports Proc
begin

section \<open>The hard disk driver\<close>

text \<open>
  driver/hd.c and include/hd.h. The controller is not part of the repository: it is the
  argument \<open>dev\<close>, a record of what the port instructions, an interrupt and the passing of time
  do to a state \<open>hw\<close> of the controller, about which nothing is assumed here. The sector buffer
  \<open>hdbuf\<close> is a kernel array of its own. Printing is not modelled.
\<close>

abbreviation (input) HD_SECTOR :: int where "HD_SECTOR \<equiv> 512"
abbreviation (input) MAX_DRIVES :: int where "MAX_DRIVES \<equiv> 2"
abbreviation (input) NR_PART_PER_DRIVE :: int where "NR_PART_PER_DRIVE \<equiv> 4"
abbreviation (input) NR_SUB_PER_PART :: int where "NR_SUB_PER_PART \<equiv> 16"
abbreviation (input) NR_SUB_PER_DRIVE :: int where "NR_SUB_PER_DRIVE \<equiv> 64"
abbreviation (input) NR_PRIM_PER_DRIVE :: int where "NR_PRIM_PER_DRIVE \<equiv> 5"
abbreviation (input) MAX_PRIM_INDEX :: int where "MAX_PRIM_INDEX \<equiv> 9"
abbreviation (input) MINOR_hd1a :: int where "MINOR_hd1a \<equiv> 0x10"
abbreviation (input) PARTITION_TABLE_OFFSET :: nat where "PARTITION_TABLE_OFFSET \<equiv> 0x1BE"
abbreviation (input) ATA_IDENTIFY :: byte where "ATA_IDENTIFY \<equiv> 0xEC"
abbreviation (input) ATA_READ :: byte where "ATA_READ \<equiv> 0x20"
abbreviation (input) ATA_WRITE :: byte where "ATA_WRITE \<equiv> 0x30"
abbreviation (input) STATUS_BSY :: byte where "STATUS_BSY \<equiv> 0x80"
abbreviation (input) STATUS_DRQ :: byte where "STATUS_DRQ \<equiv> 0x08"
abbreviation (input) NO_PART :: byte where "NO_PART \<equiv> 0"
abbreviation (input) EXT_PART :: byte where "EXT_PART \<equiv> 5"
abbreviation (input) REG_FEATURES :: u16 where "REG_FEATURES \<equiv> 0x1F1"
abbreviation (input) REG_NSECTOR :: u16 where "REG_NSECTOR \<equiv> 0x1F2"
abbreviation (input) REG_LBA_LOW :: u16 where "REG_LBA_LOW \<equiv> 0x1F3"
abbreviation (input) REG_LBA_MID :: u16 where "REG_LBA_MID \<equiv> 0x1F4"
abbreviation (input) REG_LBA_HIGH :: u16 where "REG_LBA_HIGH \<equiv> 0x1F5"
abbreviation (input) REG_DEVICE :: u16 where "REG_DEVICE \<equiv> 0x1F6"
abbreviation (input) REG_CMD :: u16 where "REG_CMD \<equiv> 0x1F7"
abbreviation (input) REG_DEV_CTRL :: u16 where "REG_DEV_CTRL \<equiv> 0x3F6"

text \<open>
  \<open>in_status\<close> reads the status port, \<open>out\<close> writes a port, \<open>data_in\<close> and \<open>data_out\<close> transfer
  bytes through the data port, \<open>irq\<close> waits for the next interrupt of the controller (\<open>None\<close>:
  it never comes), and \<open>polls\<close> is how often the status can be read before the ten seconds
  of \<open>HD_TIMEOUT\<close> are over.
\<close>

record 'h ata =
  in_status :: "'h \<Rightarrow> byte \<times> 'h"
  out :: "u16 \<Rightarrow> byte \<Rightarrow> 'h \<Rightarrow> 'h"
  data_in :: "nat \<Rightarrow> 'h \<Rightarrow> byte list \<times> 'h"
  data_out :: "byte list \<Rightarrow> 'h \<Rightarrow> 'h"
  irq :: "'h \<Rightarrow> 'h option"
  polls :: nat

record hd_cmd =
  features :: byte
  sector_count :: byte
  lba_low :: byte
  lba_mid :: byte
  lba_high :: byte
  device :: byte
  command :: byte

record part_info =
  base :: u32
  part_size :: u32

record hd_info =
  open_cnt :: int
  primary :: "nat \<Rightarrow> part_info"
  logical :: "nat \<Rightarrow> part_info"

record part_entry =
  boot_ind :: byte
  start_head :: byte
  start_sector :: byte
  start_cyl :: byte
  sys_id :: byte
  end_head :: byte
  end_sector :: byte
  end_cyl :: byte
  start_sect :: u32
  part_sects :: u32

record 'h hdstate = kstate +
  hw :: 'h
  hdbuf :: "nat \<Rightarrow> byte"
  hds_info :: "nat \<Rightarrow> hd_info"

subsection \<open>Device numbers and registers (include/hd.h)\<close>

definition DRV_OF_DEV :: "int \<Rightarrow> int" where
  "DRV_OF_DEV dev = (if dev \<le> MAX_PRIM_INDEX then c_div dev NR_PRIM_PER_DRIVE
     else c_div (dev - MINOR_hd1a) NR_SUB_PER_DRIVE)"

definition MAKE_DEVICE_REG :: "u32 \<Rightarrow> u32 \<Rightarrow> u32 \<Rightarrow> byte" where
  "MAKE_DEVICE_REG lba drv lba_highest =
     ucast (push_bit 6 lba OR push_bit 4 drv OR (lba_highest AND 0xF) OR 0xA0)"

definition lba_cmd :: "u32 \<Rightarrow> byte \<Rightarrow> int \<Rightarrow> byte \<Rightarrow> hd_cmd" where
  "lba_cmd sect count drive cmd =
     \<lparr> features = 0, sector_count = count,
       lba_low = ucast (sect AND 0xFF),
       lba_mid = ucast (drop_bit 8 sect AND 0xFF),
       lba_high = ucast (drop_bit 16 sect AND 0xFF),
       device = MAKE_DEVICE_REG 1 (u32_int drive) (drop_bit 24 sect AND 0xF),
       command = cmd \<rparr>"

subsection \<open>Talking to the controller\<close>

definition modH :: "('h \<Rightarrow> 'h) \<Rightarrow> (('h, 'a) hdstate_scheme, unit) op" where
  "modH f = modE (\<lambda>s. s\<lparr>hw := f (hw s)\<rparr>)"

text \<open>The loop of \<open>waitfor\<close>, for as many status reads as the time-out leaves.\<close>

fun waitfor_loop :: "'h ata \<Rightarrow> nat \<Rightarrow> byte \<Rightarrow> byte \<Rightarrow> (('h, 'a) hdstate_scheme, bool) op" where
  "waitfor_loop dev 0 msk val = ret False"
| "waitfor_loop dev (Suc n) msk val =
     bindE (getsE (\<lambda>s. fst (in_status dev (hw s)))) (\<lambda>status.
     bindE (modH (\<lambda>h. snd (in_status dev h))) (\<lambda>_.
     if status AND msk = val then ret True else waitfor_loop dev n msk val))"

definition waitfor :: "'h ata \<Rightarrow> byte \<Rightarrow> byte \<Rightarrow> (('h, 'a) hdstate_scheme, bool) op" where
  "waitfor dev msk val = waitfor_loop dev (polls dev) msk val"

definition hd_cmd_out :: "'h ata \<Rightarrow> hd_cmd \<Rightarrow> (('h, 'a) hdstate_scheme, unit) op" where
  "hd_cmd_out dev cmd =
     bindE (waitfor dev STATUS_BSY 0) (\<lambda>ok.
     bindE (whenE (\<not> ok) (fail (Panic ''hd error,.''))) (\<lambda>_.
     blockE [
       modH (out dev REG_DEV_CTRL 0),
       modH (out dev REG_FEATURES (features cmd)),
       modH (out dev REG_NSECTOR (sector_count cmd)),
       modH (out dev REG_LBA_LOW (lba_low cmd)),
       modH (out dev REG_LBA_MID (lba_mid cmd)),
       modH (out dev REG_LBA_HIGH (lba_high cmd)),
       modH (out dev REG_DEVICE (device cmd)),
       modH (out dev REG_CMD (command cmd))]))"

text \<open>\<open>interrupt_wait\<close> receives from \<open>INTERRUPT\<close>; \<open>hd_handler\<close> reads the status and notifies the task.\<close>

definition interrupt_wait :: "'h ata \<Rightarrow> (('h, 'a) hdstate_scheme, unit) op" where
  "interrupt_wait dev =
     bindE (getsE hw) (\<lambda>h.
     case irq dev h of
       None \<Rightarrow> fail (Wait ''interrupt_wait'')
     | Some h' \<Rightarrow> modH (\<lambda>_. snd (in_status dev h')))"

text \<open>\<open>port_read(REG_DATA, hdbuf, SECTOR_SIZE)\<close>.\<close>

definition read_hdbuf :: "'h ata \<Rightarrow> (('h, 'a) hdstate_scheme, unit) op" where
  "read_hdbuf dev =
     bindE (getsE (\<lambda>s. data_in dev 512 (hw s))) (\<lambda>(bs, h).
     modE (\<lambda>s. s\<lparr>hw := h, hdbuf := (\<lambda>i. if i < length bs then bs ! i else hdbuf s i)\<rparr>))"

definition hdbuf32 :: "(nat \<Rightarrow> byte) \<Rightarrow> nat \<Rightarrow> u32" where
  "hdbuf32 b i = ucast (b i) OR push_bit 8 (ucast (b (i + 1))) OR push_bit 16 (ucast (b (i + 2)))
     OR push_bit 24 (ucast (b (i + 3)))"

definition infoE :: "int \<Rightarrow> (('h, 'a) hdstate_scheme, hd_info) op" where
  "infoE drive = (if drive = 0 then getsE (\<lambda>s. hds_info s 0) else fail (Bad_access ''hds_info''))"

definition updInfo :: "int \<Rightarrow> (hd_info \<Rightarrow> hd_info) \<Rightarrow> (('h, 'a) hdstate_scheme, unit) op" where
  "updInfo drive f =
     (if drive = 0 then modE (\<lambda>s. s\<lparr>hds_info := (hds_info s)(0 := f (hds_info s 0))\<rparr>)
      else fail (Bad_access ''hds_info''))"

text \<open>Words 60 and 61 of the identify data are the number of sectors.\<close>

definition hd_identify :: "'h ata \<Rightarrow> int \<Rightarrow> hd_cmd \<Rightarrow> (('h, 'a) hdstate_scheme, unit) op" where
  "hd_identify dev drive_no cmd =
     bindE (hd_cmd_out dev (cmd\<lparr>device := MAKE_DEVICE_REG 0 (u32_int drive_no) 0, command := ATA_IDENTIFY\<rparr>)) (\<lambda>_.
     bindE (interrupt_wait dev) (\<lambda>_.
     bindE (read_hdbuf dev) (\<lambda>_.
     bindE (getsE hdbuf) (\<lambda>b.
     updInfo drive_no (\<lambda>hdi. hdi\<lparr>primary := (primary hdi)(0 := \<lparr>base = 0, part_size = hdbuf32 b 120\<rparr>)\<rparr>)))))"

subsection \<open>Partitions\<close>

definition part_entry_at :: "(nat \<Rightarrow> byte) \<Rightarrow> nat \<Rightarrow> part_entry" where
  "part_entry_at b i = (let off = PARTITION_TABLE_OFFSET + 16 * i in
     \<lparr> boot_ind = b off, start_head = b (off + 1), start_sector = b (off + 2), start_cyl = b (off + 3),
       sys_id = b (off + 4), end_head = b (off + 5), end_sector = b (off + 6), end_cyl = b (off + 7),
       start_sect = hdbuf32 b (off + 8), part_sects = hdbuf32 b (off + 12) \<rparr>)"

definition get_part_table :: "'h ata \<Rightarrow> int \<Rightarrow> u32 \<Rightarrow> (('h, 'a) hdstate_scheme, nat \<Rightarrow> part_entry) op" where
  "get_part_table dev drive sector_nr =
     bindE (hd_cmd_out dev (lba_cmd sector_nr 1 drive ATA_READ)) (\<lambda>_.
     bindE (interrupt_wait dev) (\<lambda>_.
     bindE (read_hdbuf dev) (\<lambda>_.
     getsE (\<lambda>s. part_entry_at (hdbuf s)))))"

text \<open>
  \<open>partition(device, P_EXTENDED)\<close>: the chain of extended boot records, at most sixteen.
\<close>

fun partition_extended_loop :: "'h ata \<Rightarrow> int \<Rightarrow> u32 \<Rightarrow> nat \<Rightarrow> nat list \<Rightarrow> u32 \<Rightarrow> (('h, 'a) hdstate_scheme, unit) op" where
  "partition_extended_loop dev drive ext_start nr_1st_sub [] s = ret ()"
| "partition_extended_loop dev drive ext_start nr_1st_sub (i # is) s =
     bindE (get_part_table dev drive s) (\<lambda>tab.
     bindE (updInfo drive (\<lambda>hdi. hdi\<lparr>logical := (logical hdi)(nr_1st_sub + i :=
       \<lparr>base = s + start_sect (tab 0), part_size = part_sects (tab 0)\<rparr>)\<rparr>)) (\<lambda>_.
     if sys_id (tab 1) = NO_PART then ret ()
     else partition_extended_loop dev drive ext_start nr_1st_sub is (ext_start + start_sect (tab 1))))"

definition partition_extended :: "'h ata \<Rightarrow> int \<Rightarrow> (('h, 'a) hdstate_scheme, unit) op" where
  "partition_extended dev d =
     (let drive = DRV_OF_DEV d; j = c_mod d NR_PRIM_PER_DRIVE in
      bindE (infoE drive) (\<lambda>hdi.
      let ext_start = base (primary hdi (nat j)) in
      partition_extended_loop dev drive ext_start (nat ((j - 1) * NR_SUB_PER_PART)) [0..<nat NR_SUB_PER_PART] ext_start))"

text \<open>\<open>partition(device, P_PRIMARY)\<close>: the table of the first sector; \<open>n\<close> counts the entries in use.\<close>

fun partition_primary_loop :: "'h ata \<Rightarrow> int \<Rightarrow> int \<Rightarrow> (nat \<Rightarrow> part_entry) \<Rightarrow> nat list \<Rightarrow> nat \<Rightarrow>
    (('h, 'a) hdstate_scheme, nat) op" where
  "partition_primary_loop dev d drive tab [] n = ret n"
| "partition_primary_loop dev d drive tab (i # is) n =
     (if sys_id (tab i) = NO_PART then partition_primary_loop dev d drive tab is n
      else
        bindE (updInfo drive (\<lambda>hdi. hdi\<lparr>primary := (primary hdi)(i + 1 :=
          \<lparr>base = start_sect (tab i), part_size = part_sects (tab i)\<rparr>)\<rparr>)) (\<lambda>_.
        bindE (whenE (sys_id (tab i) = EXT_PART) (partition_extended dev (d + int (i + 1)))) (\<lambda>_.
        partition_primary_loop dev d drive tab is (n + 1))))"

definition partition_primary :: "'h ata \<Rightarrow> int \<Rightarrow> (('h, 'a) hdstate_scheme, unit) op" where
  "partition_primary dev d =
     (let drive = DRV_OF_DEV d in
      bindE (get_part_table dev drive (u32_int drive)) (\<lambda>tab.
      bindE (partition_primary_loop dev d drive tab [0..<nat NR_PART_PER_DRIVE] 0) (\<lambda>n.
      assertE ''nr_primary_parts != 0'' (\<lambda>_. n \<noteq> 0))))"

text \<open>\<open>cmd\<close> is the local structure of \<open>hd_identify\<close>, whose other registers are not set.\<close>

definition hd_open :: "'h ata \<Rightarrow> hd_cmd \<Rightarrow> int \<Rightarrow> (('h, 'a) hdstate_scheme, unit) op" where
  "hd_open dev cmd d =
     (let drive = DRV_OF_DEV d in
      bindE (assertE ''drive == 0'' (\<lambda>_. drive = 0)) (\<lambda>_.
      bindE (hd_identify dev drive cmd) (\<lambda>_.
      bindE (infoE drive) (\<lambda>hdi.
      bindE (updInfo drive (\<lambda>hdi. hdi\<lparr>open_cnt := open_cnt hdi + 1\<rparr>)) (\<lambda>_.
      whenE (open_cnt hdi = 0) (partition_primary dev (drive * (NR_PART_PER_DRIVE + 1))))))))"

definition hd_close :: "int \<Rightarrow> (('h, 'a) hdstate_scheme, unit) op" where
  "hd_close d =
     (let drive = DRV_OF_DEV d in
      bindE (assertE ''drive_nr==0'' (\<lambda>_. drive = 0)) (\<lambda>_.
      updInfo drive (\<lambda>hdi. hdi\<lparr>open_cnt := open_cnt hdi - 1\<rparr>)))"

subsection \<open>Reading and writing\<close>

text \<open>The partition a minor number names.\<close>

definition part_of :: "int \<Rightarrow> (('h, 'a) hdstate_scheme, part_info) op" where
  "part_of d =
     (let logic_part_index = c_mod (d - MINOR_hd1a) NR_SUB_PER_DRIVE in
      bindE (infoE (DRV_OF_DEV d)) (\<lambda>hdi.
      if d < MAX_PRIM_INDEX then
        (if 0 \<le> d \<and> d < NR_PRIM_PER_DRIVE then ret (primary hdi (nat d)) else fail (Bad_access ''primary''))
      else
        (if 0 \<le> logic_part_index then ret (logical hdi (nat logic_part_index)) else fail (Bad_access ''logical''))))"

text \<open>
  \<open>phys_copy(la, hdbuf, bytes)\<close> with \<open>bytes\<close> at most a sector. \<open>hdbuf\<close> has two. A negative count, which
  \<open>memcpy\<close> takes as one of nearly 4 GB, is an access outside the buffer; \<open>hd_rw\<close> does not come to
  it on a drive that raises no interrupt after its last sector (\<open>hd_rw_partial\<close> in Hd_Disk).
\<close>

definition copy_hdbuf :: "addr \<Rightarrow> int \<Rightarrow> (('h, 'a) hdstate_scheme, unit) op" where
  "copy_hdbuf la bytes =
     (if 0 \<le> bytes \<and> bytes \<le> 2 * HD_SECTOR then
        modE (\<lambda>s. s\<lparr>kmem := (\<lambda>x. if unat (x - la) < nat bytes then hdbuf s (unat (x - la)) else kmem s x)\<rparr>)
      else fail (Bad_access ''hdbuf''))"

definition bytes_at :: "mem \<Rightarrow> addr \<Rightarrow> nat \<Rightarrow> byte list" where
  "bytes_at m a n = map (\<lambda>k. m (a + of_nat k)) [0..<n]"

text \<open>
  One round of the transfer loop; \<open>bytes\<close> is \<open>min(SECTOR_SIZE, byte_left)\<close>. \<open>port_write\<close>
  transfers whole 16-bit words.
\<close>

definition hd_rw_round :: "'h ata \<Rightarrow> bool \<Rightarrow> addr \<Rightarrow> int \<Rightarrow> (('h, 'a) hdstate_scheme, unit) op" where
  "hd_rw_round dev is_read la bytes =
     (if is_read then
        bindE (interrupt_wait dev) (\<lambda>_.
        bindE (read_hdbuf dev) (\<lambda>_.
        copy_hdbuf la bytes))
      else
        bindE (waitfor dev STATUS_DRQ STATUS_DRQ) (\<lambda>ok.
        bindE (whenE (\<not> ok) (fail (Panic ''hd writing error''))) (\<lambda>_.
        bindE (getsE (\<lambda>s. bytes_at (kmem s) la (2 * (unat (u32_int bytes) div 2)))) (\<lambda>bs.
        bindE (modH (data_out dev bs)) (\<lambda>_.
        interrupt_wait dev)))))"

text \<open>
  \<open>while(byte_left)\<close> subtracts a whole sector each time, so it ends only from a multiple of
  the sector size; from any other count it goes below zero and on.
\<close>

partial_function (option) hd_rw_loop ::
    "'h ata \<Rightarrow> bool \<Rightarrow> addr \<Rightarrow> int \<Rightarrow> ('h, 'a) hdstate_scheme \<Rightarrow> (fault + unit \<times> ('h, 'a) hdstate_scheme) option" where
  "hd_rw_loop dev is_read la byte_left s =
     (if byte_left = 0 then Some (Inr ((), s))
      else (case hd_rw_round dev is_read la (min HD_SECTOR byte_left) s of
          Inl e \<Rightarrow> Some (Inl e)
        | Inr (_, t) \<Rightarrow> hd_rw_loop dev is_read (la + 512) (s32 (byte_left - HD_SECTOR)) t))"

definition hd_rw :: "'h ata \<Rightarrow> message \<Rightarrow> (('h, 'a) hdstate_scheme, unit) op" where
  "hd_rw dev msg =
     (let drive_nr = DRV_OF_DEV (msg_DEVICE msg); pos = msg_POSITION msg in
      bindE (assertE ''(pos >> SECTOR_SIZE_SHIFT) < (1<<31)'' (\<lambda>_. drop_bit 9 pos < 0xFFFFFFFF80000000)) (\<lambda>_.
      bindE (assertE ''(pos & 0x1ff) == 0'' (\<lambda>_. pos AND 0x1FF = 0)) (\<lambda>_.
      bindE (part_of (msg_DEVICE msg)) (\<lambda>pt.
      let sect = ucast (drop_bit 9 pos) + base pt in
      bindE (va2la (msg_PROC_NR msg) (msg_BUF msg)) (\<lambda>la.
      bindE (hd_cmd_out dev (lba_cmd sect
        (word_of_int (c_div (msg_CNT msg + HD_SECTOR - 1) HD_SECTOR)) drive_nr
        (if m_type msg = DEV_READ then ATA_READ else ATA_WRITE))) (\<lambda>_.
      (\<lambda>s. case hd_rw_loop dev (m_type msg = DEV_READ) la (msg_CNT msg) s of
          None \<Rightarrow> Inl (Spin ''hd_rw'')
        | Some r \<Rightarrow> r)))))))"

text \<open>\<open>struct part_info\<close> is base, then size.\<close>

definition hd_ioctl :: "message \<Rightarrow> (('h, 'a) hdstate_scheme, unit) op" where
  "hd_ioctl msg =
     (if msg_REQUEST msg = 1 then
        bindE (va2la (msg_PROC_NR msg) (msg_BUF msg)) (\<lambda>dst.
        bindE (part_of (msg_DEVICE msg)) (\<lambda>pt.
        modE (\<lambda>s. s\<lparr>kmem := wr32 (wr32 (kmem s) dst (base pt)) (dst + 4) (part_size pt)\<rparr>)))
      else fail (Assert ''0''))"

text \<open>One request of \<open>task_hd\<close>: the reply is the message itself.\<close>

definition hd_request :: "'h ata \<Rightarrow> hd_cmd \<Rightarrow> message \<Rightarrow> (('h, 'a) hdstate_scheme, message) op" where
  "hd_request dev cmd msg =
     bindE (if m_type msg = DEV_OPEN then hd_open dev cmd (msg_DEVICE msg)
            else if m_type msg = DEV_CLOSE then hd_close (msg_DEVICE msg)
            else if m_type msg = DEV_READ \<or> m_type msg = DEV_WRITE then hd_rw dev msg
            else if m_type msg = DEV_IOCTL then hd_ioctl msg
            else fail (Spin ''FS: main loop (invalid msg,type)'')) (\<lambda>_.
     ret msg)"

end
