(* ===== verification/Hd_Disk.thy ===== *)
theory Hd_Disk
  imports Hd
begin

section \<open>The driver over an ATA disk\<close>

text \<open>
  What the driver of theory \<open>Hd\<close> relies on: the documented behaviour of the controller's PIO
  read and write commands in LBA mode, as the locale \<open>ata_disk\<close>. \<open>sector h n\<close> is the content
  of sector \<open>n\<close>; \<open>idle\<close>, \<open>reading\<close> and \<open>writing\<close> are the phases of a command, with the next
  sector and the number of sectors still to transfer. The client lemmas say what
  \<open>hd_rw\<close> does to the disk and to memory. The controller is not part of the repository;
  \<open>drive_ata\<close> at the end is a small concrete one on which the laws hold.
\<close>

subsection \<open>What the driver makes the controller do\<close>

fun status_wait :: "'h ata \<Rightarrow> nat \<Rightarrow> byte \<Rightarrow> byte \<Rightarrow> 'h \<Rightarrow> 'h option" where
  "status_wait dev 0 msk val h = None"
| "status_wait dev (Suc n) msk val h =
     (if fst (in_status dev h) AND msk = val then Some (snd (in_status dev h))
      else status_wait dev n msk val (snd (in_status dev h)))"

lemma waitfor_loop_Some:
  "status_wait dev n msk val (hw s) = Some h \<Longrightarrow> waitfor_loop dev n msk val s = Inr (True, s\<lparr>hw := h\<rparr>)"
  by (induction n arbitrary: s) (auto simp: bindE_def modH_def op_defs split: if_splits)

definition issue :: "'h ata \<Rightarrow> hd_cmd \<Rightarrow> 'h \<Rightarrow> 'h" where
  "issue dev c h = out dev REG_CMD (command c) (out dev REG_DEVICE (device c) (out dev REG_LBA_HIGH (lba_high c)
     (out dev REG_LBA_MID (lba_mid c) (out dev REG_LBA_LOW (lba_low c) (out dev REG_NSECTOR (sector_count c)
     (out dev REG_FEATURES (features c) (out dev REG_DEV_CTRL 0 h)))))))"

lemma hd_cmd_out_ok:
  assumes "status_wait dev (polls dev) STATUS_BSY 0 (hw s) = Some h"
  shows "hd_cmd_out dev c s = Inr ((), s\<lparr>hw := issue dev c h\<rparr>)"
  using waitfor_loop_Some[OF assms]
  by (simp add: hd_cmd_out_def waitfor_def bindE_def modH_def issue_def op_defs)

text \<open>How the controller reads the registers: a 28-bit sector number, in LBA mode, of the first drive.\<close>

definition cmd_lba :: "hd_cmd \<Rightarrow> nat" where
  "cmd_lba c = unat (lba_low c) + 2 ^ 8 * unat (lba_mid c) + 2 ^ 16 * unat (lba_high c) +
     2 ^ 24 * unat (device c AND 0xF)"

definition lba_first_drive :: "hd_cmd \<Rightarrow> bool" where
  "lba_first_drive c = (device c AND 0x50 = 0x40)"

lemma lba_cmd_fields [simp]:
  "sector_count (lba_cmd sect n drive cmd) = n" "command (lba_cmd sect n drive cmd) = cmd"
  by (simp_all add: lba_cmd_def)

lemma less_8: "n < 8 \<Longrightarrow> n = 0 \<or> n = 1 \<or> n = 2 \<or> n = 3 \<or> n = 4 \<or> n = 5 \<or> n = 6 \<or> n = (7::nat)"
  by linarith

lemma lba_cmd_first_drive: "lba_first_drive (lba_cmd sect n 0 cmd)"
proof -
  have "bit (device (lba_cmd sect n 0 cmd) AND 0x50) i = bit (0x40 :: byte) i" if "i < 8" for i
    using less_8[OF that] by (auto simp: lba_cmd_def MAKE_DEVICE_REG_def u32_int_def bit_simps)
  then show ?thesis
    unfolding lba_first_drive_def by (intro bit_eqI) simp
qed

lemma device_lba_high: "device (lba_cmd sect n 0 cmd) AND 0xF = ucast (drop_bit 24 sect AND 0xF)"
proof -
  have "bit (device (lba_cmd sect n 0 cmd) AND 0xF) i = bit (ucast (drop_bit 24 sect AND 0xF) :: byte) i" if "i < 8" for i
    using less_8[OF that] by (auto simp: lba_cmd_def MAKE_DEVICE_REG_def u32_int_def bit_simps)
  then show ?thesis by (intro bit_eqI) simp
qed

lemma and_masks: "(x :: 'a::len word) AND 0xFF = take_bit 8 x" "x AND 0xF = take_bit 4 x"
  by (simp_all add: take_bit_eq_mask mask_numeral)

lemma nat_bytes:
  fixes n :: nat
  assumes "n < 2 ^ 28"
  shows "n mod 256 + 256 * (n div 256 mod 256) + 65536 * (n div 65536 mod 256) + 16777216 * (n div 16777216 mod 16) = n"
proof -
  have "256 * (n div 256) + n mod 256 = n" by simp
  moreover have "256 * (n div 256 div 256) + n div 256 mod 256 = n div 256" by (rule mult_div_mod_eq)
  moreover have "256 * (n div 65536 div 256) + n div 65536 mod 256 = n div 65536" by (rule mult_div_mod_eq)
  moreover have "n div 65536 = n div 256 div 256" "n div 16777216 = n div 65536 div 256"
    by (simp_all add: div_mult2_eq[symmetric])
  moreover have "n div 16777216 mod 16 = n div 16777216"
    using assms by (intro mod_less) (simp add: div_less_iff_less_mult)
  ultimately show ?thesis by linarith
qed

lemma lba_cmd_lba:
  assumes "sect < 2 ^ 28"
  shows "cmd_lba (lba_cmd sect n 0 cmd) = unat sect"
proof -
  have "unat sect < 2 ^ 28" using assms by (simp add: word_less_nat_alt)
  moreover have "unat (ucast y :: byte) = unat y" if "y < 256" for y :: u32
    using that by (simp add: unsigned_ucast_eq word_less_nat_alt take_bit_eq_mod)
  moreover have "take_bit 8 y < 256" "take_bit 4 y < 256" for y :: u32
    by (simp_all add: word_less_nat_alt unat_mod take_bit_eq_mod)
  ultimately show ?thesis
    using nat_bytes[of "unat sect"]
    unfolding cmd_lba_def device_lba_high
    by (simp add: lba_cmd_def and_masks unsigned_take_bit_eq unat_drop_bit_eq take_bit_eq_mod drop_bit_eq_div
      unat_mod_distrib unat_div_distrib)
qed

text \<open>One sector in, one sector out: the port operations between two interrupts.\<close>

definition take_sector :: "'h ata \<Rightarrow> 'h \<Rightarrow> (byte list \<times> 'h) option" where
  "take_sector dev h = (case irq dev h of None \<Rightarrow> None | Some h1 \<Rightarrow> Some (data_in dev 512 (snd (in_status dev h1))))"

definition give_sector :: "'h ata \<Rightarrow> byte list \<Rightarrow> 'h \<Rightarrow> 'h option" where
  "give_sector dev bs h = (case status_wait dev (polls dev) STATUS_DRQ STATUS_DRQ h of None \<Rightarrow> None
     | Some h1 \<Rightarrow> (case irq dev (data_out dev bs h1) of None \<Rightarrow> None | Some h2 \<Rightarrow> Some (snd (in_status dev h2))))"

lemma read_round_ok:
  assumes "take_sector dev (hw s) = Some (bs, h)" "length bs = 512"
  shows "hd_rw_round dev True la 512 s = Inr ((), s\<lparr>hw := h,
    hdbuf := (\<lambda>i. if i < 512 then bs ! i else hdbuf s i),
    kmem := (\<lambda>x. if unat (x - la) < 512 then bs ! unat (x - la) else kmem s x)\<rparr>)"
  using assms
  by (auto simp: hd_rw_round_def interrupt_wait_def read_hdbuf_def copy_hdbuf_def take_sector_def bindE_def modH_def op_defs
      split: option.splits cong: if_cong)

lemma write_round_ok:
  assumes "give_sector dev (bytes_at (kmem s) la 512) (hw s) = Some h"
  shows "hd_rw_round dev False la 512 s = Inr ((), s\<lparr>hw := h\<rparr>)"
proof -
  obtain h1 h2 where h: "status_wait dev (polls dev) STATUS_DRQ STATUS_DRQ (hw s) = Some h1"
    "irq dev (data_out dev (bytes_at (kmem s) la 512) h1) = Some h2" "h = snd (in_status dev h2)"
    using assms by (auto simp: give_sector_def split: option.splits)
  show ?thesis
    using waitfor_loop_Some[OF h(1)] h(2,3)
    by (simp add: hd_rw_round_def interrupt_wait_def waitfor_def bindE_def modH_def op_defs u32_int_def)
qed

locale ata_disk =
  fixes dev :: "'h ata" and sector :: "'h \<Rightarrow> nat \<Rightarrow> byte list" and idle :: "'h \<Rightarrow> bool"
    and reading writing :: "'h \<Rightarrow> nat \<Rightarrow> nat \<Rightarrow> bool"
  assumes not_busy: "idle h \<Longrightarrow> \<exists>h'. status_wait dev (polls dev) STATUS_BSY 0 h = Some h' \<and> idle h' \<and> sector h' = sector h"
    and read_cmd: "idle h \<Longrightarrow> lba_first_drive c \<Longrightarrow> command c = ATA_READ \<Longrightarrow> sector_count c = of_nat n \<Longrightarrow> 0 < n \<Longrightarrow> n < 256 \<Longrightarrow>
      reading (issue dev c h) (cmd_lba c) n \<and> sector (issue dev c h) = sector h"
    and write_cmd: "idle h \<Longrightarrow> lba_first_drive c \<Longrightarrow> command c = ATA_WRITE \<Longrightarrow> sector_count c = of_nat n \<Longrightarrow> 0 < n \<Longrightarrow> n < 256 \<Longrightarrow>
      writing (issue dev c h) (cmd_lba c) n \<and> sector (issue dev c h) = sector h"
    and read_sector: "reading h lba (Suc n) \<Longrightarrow> \<exists>h'. take_sector dev h = Some (sector h lba, h') \<and> sector h' = sector h \<and>
      (if n = 0 then idle h' else reading h' (lba + 1) n)"
    and sector_length: "length (sector h n) = 512"
    and write_sector: "writing h lba (Suc n) \<Longrightarrow> length bs = 512 \<Longrightarrow>
      \<exists>h'. give_sector dev bs h = Some h' \<and> sector h' = (sector h)(lba := bs) \<and>
      (if n = 0 then idle h' else writing h' (lba + 1) n)"
begin

lemma read_loop:
  assumes "reading (hw s) lba n" "0 < n" "n < 256"
  shows "\<exists>h b. hd_rw_loop dev True la (512 * int n) s = Some (Inr ((), s\<lparr>hw := h, hdbuf := b,
      kmem := (\<lambda>x. if unat (x - la) < 512 * n
        then sector (hw s) (lba + unat (x - la) div 512) ! (unat (x - la) mod 512) else kmem s x)\<rparr>)) \<and>
    sector h = sector (hw s) \<and> idle h"
  using assms
proof (induction n arbitrary: s lba la)
  case (Suc n)
  from read_sector[OF Suc.prems(1)] obtain h where
    h: "take_sector dev (hw s) = Some (sector (hw s) lba, h)" "sector h = sector (hw s)"
      "if n = 0 then idle h else reading h (lba + 1) n" by blast
  define t where "t = s\<lparr>hw := h, hdbuf := (\<lambda>i. if i < 512 then sector (hw s) lba ! i else hdbuf s i),
    kmem := (\<lambda>x. if unat (x - la) < 512 then sector (hw s) lba ! unat (x - la) else kmem s x)\<rparr>"
  have r: "hd_rw_round dev True la 512 s = Inr ((), t)"
    using read_round_ok[OF h(1) sector_length] by (simp add: t_def)
  have step: "hd_rw_loop dev True la (512 * int (Suc n)) s = hd_rw_loop dev True (la + 512) (512 * int n) t"
    using r Suc.prems(3) by (subst hd_rw_loop.simps) (simp add: s32_id)
  show ?case
  proof (cases "n = 0")
    case True
    then have "hd_rw_loop dev True (la + 512) (512 * int n) t = Some (Inr ((), t))"
      by (subst hd_rw_loop.simps) simp
    then show ?thesis using h True step by (auto simp: t_def intro!: exI[of _ h] cong: if_cong)
  next
    case False
    from Suc.IH[of t "lba + 1" "la + 512"] False h Suc.prems(3) obtain g b where
      g: "hd_rw_loop dev True (la + 512) (512 * int n) t = Some (Inr ((), t\<lparr>hw := g, hdbuf := b,
        kmem := (\<lambda>x. if unat (x - (la + 512)) < 512 * n
          then sector (hw t) (lba + 1 + unat (x - (la + 512)) div 512) ! (unat (x - (la + 512)) mod 512) else kmem t x)\<rparr>))"
      "sector g = sector (hw t)" "idle g" by (auto simp: t_def)
    have mem: "(if unat (x - (la + 512)) < 512 * n
          then sector (hw t) (lba + 1 + unat (x - (la + 512)) div 512) ! (unat (x - (la + 512)) mod 512) else kmem t x) =
       (if unat (x - la) < 512 * Suc n
        then sector (hw s) (lba + unat (x - la) div 512) ! (unat (x - la) mod 512) else kmem s x)" for x
    proof (cases "unat (x - la) < 512")
      case True
      then have "unat (x - la - 512) = unat (x - la) + 2 ^ 32 - 512" by (simp add: unat_sub_if')
      then have "\<not> unat (x - (la + 512)) < 512 * n" using Suc.prems(3) by (simp add: diff_diff_eq)
      then show ?thesis using True by (simp add: t_def)
    next
      case ge: False
      then have "unat (x - (la + 512)) = unat (x - la) - 512"
        by (simp add: diff_diff_eq[symmetric] unat_sub word_le_nat_alt)
      then show ?thesis using ge h(2)
        by (auto simp: t_def le_div_geq le_mod_geq)
    qed
    show ?thesis
      unfolding step g(1) mem using g(2,3) h(2) by (auto simp: t_def)
  qed
qed simp


lemma write_loop:
  assumes "writing (hw s) lba n" "0 < n" "n < 256"
  shows "\<exists>h. hd_rw_loop dev False la (512 * int n) s = Some (Inr ((), s\<lparr>hw := h\<rparr>)) \<and> idle h \<and>
    sector h = (\<lambda>j. if lba \<le> j \<and> j < lba + n then bytes_at (kmem s) (la + of_nat (512 * (j - lba))) 512 else sector (hw s) j)"
  using assms
proof (induction n arbitrary: s lba la)
  case (Suc n)
  have len: "length (bytes_at m a k) = k" for m a k by (simp add: bytes_at_def)
  from write_sector[OF Suc.prems(1) len] obtain h where
    h: "give_sector dev (bytes_at (kmem s) la 512) (hw s) = Some h" "sector h = (sector (hw s))(lba := bytes_at (kmem s) la 512)"
      "if n = 0 then idle h else writing h (lba + 1) n" by blast
  have step: "hd_rw_loop dev False la (512 * int (Suc n)) s = hd_rw_loop dev False (la + 512) (512 * int n) (s\<lparr>hw := h\<rparr>)"
    using write_round_ok[OF h(1)] Suc.prems(3) by (subst hd_rw_loop.simps) (simp add: s32_id)
  show ?case
  proof (cases "n = 0")
    case True
    then have "hd_rw_loop dev False (la + 512) (512 * int n) (s\<lparr>hw := h\<rparr>) = Some (Inr ((), s\<lparr>hw := h\<rparr>))"
      by (subst hd_rw_loop.simps) simp
    then show ?thesis unfolding step using h True by (auto intro!: exI[of _ h])
  next
    case False
    from Suc.IH[of "s\<lparr>hw := h\<rparr>" "lba + 1" "la + 512"] False h Suc.prems(3) obtain g where
      g: "hd_rw_loop dev False (la + 512) (512 * int n) (s\<lparr>hw := h\<rparr>) = Some (Inr ((), s\<lparr>hw := g\<rparr>))" "idle g"
      "sector g = (\<lambda>j. if lba + 1 \<le> j \<and> j < lba + 1 + n
        then bytes_at (kmem s) (la + 512 + of_nat (512 * (j - (lba + 1)))) 512 else sector h j)" by (auto cong: if_cong)
    have "la + 512 + of_nat (512 * (j - (lba + 1))) = la + of_nat (512 * (j - lba))" if "lba + 1 \<le> j" for j
    proof -
      have "512 * (j - lba) = 512 + 512 * (j - (lba + 1))" using that by simp
      then show ?thesis by (simp only: of_nat_add) simp
    qed
    then have "sector g = (\<lambda>j. if lba \<le> j \<and> j < lba + Suc n
        then bytes_at (kmem s) (la + of_nat (512 * (j - lba))) 512 else sector (hw s) j)"
      unfolding g(3) h(2) by (auto simp: fun_eq_iff)
    then show ?thesis unfolding step using g(1,2) by blast
  qed
qed simp

end

subsection \<open>hd_rw\<close>

text \<open>
  A request the driver can serve: a partition of the first drive, a position that is a
  multiple of the sector size, between 1 and 255 sectors, and a sector number of 28 bits.
\<close>

definition request_sect :: "('h, 'a) hdstate_scheme \<Rightarrow> message \<Rightarrow> u32" where
  "request_sect s msg = ucast (drop_bit 9 (msg_POSITION msg)) +
     base (if msg_DEVICE msg < MAX_PRIM_INDEX then primary (hds_info s 0) (nat (msg_DEVICE msg))
           else logical (hds_info s 0) (nat (c_mod (msg_DEVICE msg - MINOR_hd1a) NR_SUB_PER_DRIVE)))"

definition good_request :: "('h, 'a) hdstate_scheme \<Rightarrow> message \<Rightarrow> nat \<Rightarrow> bool" where
  "good_request s msg n =
     (DRV_OF_DEV (msg_DEVICE msg) = 0 \<and>
      (0 \<le> msg_DEVICE msg \<and> msg_DEVICE msg < NR_PRIM_PER_DRIVE \<or> MINOR_hd1a \<le> msg_DEVICE msg) \<and>
      msg_POSITION msg AND 0x1FF = 0 \<and> msg_POSITION msg < 2 ^ 40 \<and> request_sect s msg < 2 ^ 28 \<and>
      msg_CNT msg = 512 * int n \<and> 0 < n \<and> n < 256 \<and>
      msg_PROC_NR msg \<in> pids \<and> flat_natives (proc_table s))"

lemma part_of_ok:
  assumes "good_request s msg n"
  shows "\<exists>pt. part_of (msg_DEVICE msg) s = Inr (pt, s) \<and> ucast (drop_bit 9 (msg_POSITION msg)) + base pt = request_sect s msg"
  using assms
  by (auto simp: good_request_def request_sect_def part_of_def infoE_def bindE_def op_defs Let_def c_mod_def)

text \<open>The first assertion of \<open>hd_rw\<close> compares with \<open>1 << 31\<close>, a negative \<open>int\<close>: it never fails.\<close>

lemma position_bound_vacuous: "drop_bit 9 (pos :: u64) < 0xFFFFFFFF80000000"
proof -
  have "unat pos div 512 < 0xFFFFFFFF80000000" using unsigned_less[of pos, where ?'a = nat] by simp
  then show ?thesis by (simp add: word_less_nat_alt unat_drop_bit_eq drop_bit_eq_div unat_div_distrib)
qed

lemma hd_rw_unfold:
  assumes "good_request s msg n" "status_wait dev (polls dev) STATUS_BSY 0 (hw s) = Some h"
    "hd_rw_loop dev (m_type msg = DEV_READ) (linear (proc_table s) (msg_PROC_NR msg) (msg_BUF msg)) (512 * int n)
       (s\<lparr>hw := issue dev (lba_cmd (request_sect s msg) (of_nat n) 0 (if m_type msg = DEV_READ then ATA_READ else ATA_WRITE)) h\<rparr>)
       = Some (Inr ((), t))"
  shows "hd_rw dev msg s = Inr ((), t)"
proof -
  obtain pt where pt: "part_of (msg_DEVICE msg) s = Inr (pt, s)"
    "ucast (drop_bit 9 (msg_POSITION msg)) + base pt = request_sect s msg" using part_of_ok[OF assms(1)] by blast
  have g: "DRV_OF_DEV (msg_DEVICE msg) = 0" "msg_POSITION msg AND 0x1FF = 0" "msg_CNT msg = 512 * int n"
    using assms(1) by (simp_all add: good_request_def)
  have va: "va2la (msg_PROC_NR msg) (msg_BUF msg) s = Inr (linear (proc_table s) (msg_PROC_NR msg) (msg_BUF msg), s)"
    using assms(1) by (intro va2la_ok) (simp_all add: good_request_def)
  note lt = position_bound_vacuous[of "msg_POSITION msg"]
  have cnt: "c_div (512 * int n + HD_SECTOR - 1) HD_SECTOR = int n" by simp
  show ?thesis
    using pt g va lt assms(3) hd_cmd_out_ok[OF assms(2)]
    by (simp add: hd_rw_def Let_def bindE_def op_defs cnt)
qed

context ata_disk begin

lemma hd_rw_reads:
  assumes "idle (hw s)" "good_request s msg n" "m_type msg = DEV_READ"
  shows "\<exists>h b. hd_rw dev msg s = Inr ((), s\<lparr>hw := h, hdbuf := b,
      kmem := (\<lambda>x. let k = unat (x - linear (proc_table s) (msg_PROC_NR msg) (msg_BUF msg)) in
        if k < 512 * n then sector (hw s) (unat (request_sect s msg) + k div 512) ! (k mod 512) else kmem s x)\<rparr>) \<and>
    sector h = sector (hw s) \<and> idle h"
proof -
  obtain h where h: "status_wait dev (polls dev) STATUS_BSY 0 (hw s) = Some h" "idle h" "sector h = sector (hw s)"
    using not_busy[OF assms(1)] by blast
  have n: "0 < n" "n < 256" "request_sect s msg < 2 ^ 28" using assms(2) by (simp_all add: good_request_def)
  let ?c = "lba_cmd (request_sect s msg) (of_nat n) 0 ATA_READ"
  have rd: "reading (issue dev ?c h) (unat (request_sect s msg)) n" "sector (issue dev ?c h) = sector h"
    using read_cmd[OF h(2) lba_cmd_first_drive _ _ n(1,2), of "request_sect s msg" "of_nat n" ATA_READ] lba_cmd_lba[OF n(3)]
    by simp_all
  from read_loop[of "s\<lparr>hw := issue dev ?c h\<rparr>" "unat (request_sect s msg)" n
      "linear (proc_table s) (msg_PROC_NR msg) (msg_BUF msg)"] rd(1) n
  obtain g b where g: "hd_rw_loop dev True (linear (proc_table s) (msg_PROC_NR msg) (msg_BUF msg)) (512 * int n) (s\<lparr>hw := issue dev ?c h\<rparr>)
      = Some (Inr ((), s\<lparr>hw := g, hdbuf := b, kmem := (\<lambda>x. let k = unat (x - linear (proc_table s) (msg_PROC_NR msg) (msg_BUF msg)) in
        if k < 512 * n then sector (hw s) (unat (request_sect s msg) + k div 512) ! (k mod 512) else kmem s x)\<rparr>))"
    "sector g = sector (hw s)" "idle g"
    unfolding Let_def by (auto simp: rd(2) h(3) cong: if_cong)
  show ?thesis
    using hd_rw_unfold[OF assms(2) h(1)] g assms(3) by auto
qed

lemma hd_rw_writes:
  assumes "idle (hw s)" "good_request s msg n" "m_type msg = DEV_WRITE"
  shows "\<exists>h. hd_rw dev msg s = Inr ((), s\<lparr>hw := h\<rparr>) \<and> idle h \<and>
    sector h = (\<lambda>j. let lba = unat (request_sect s msg) in if lba \<le> j \<and> j < lba + n
      then bytes_at (kmem s) (linear (proc_table s) (msg_PROC_NR msg) (msg_BUF msg) + of_nat (512 * (j - lba))) 512
      else sector (hw s) j)"
proof -
  obtain h where h: "status_wait dev (polls dev) STATUS_BSY 0 (hw s) = Some h" "idle h" "sector h = sector (hw s)"
    using not_busy[OF assms(1)] by blast
  have n: "0 < n" "n < 256" "request_sect s msg < 2 ^ 28" using assms(2) by (simp_all add: good_request_def)
  let ?c = "lba_cmd (request_sect s msg) (of_nat n) 0 ATA_WRITE"
  have wr: "writing (issue dev ?c h) (unat (request_sect s msg)) n" "sector (issue dev ?c h) = sector h"
    using write_cmd[OF h(2) lba_cmd_first_drive _ _ n(1,2), of "request_sect s msg" "of_nat n" ATA_WRITE] lba_cmd_lba[OF n(3)]
    by simp_all
  from write_loop[of "s\<lparr>hw := issue dev ?c h\<rparr>" "unat (request_sect s msg)" n
      "linear (proc_table s) (msg_PROC_NR msg) (msg_BUF msg)"] wr(1) n
  obtain g where g: "hd_rw_loop dev False (linear (proc_table s) (msg_PROC_NR msg) (msg_BUF msg)) (512 * int n) (s\<lparr>hw := issue dev ?c h\<rparr>)
      = Some (Inr ((), s\<lparr>hw := g\<rparr>))" "idle g"
    "sector g = (\<lambda>j. let lba = unat (request_sect s msg) in if lba \<le> j \<and> j < lba + n
      then bytes_at (kmem s) (linear (proc_table s) (msg_PROC_NR msg) (msg_BUF msg) + of_nat (512 * (j - lba))) 512
      else sector (hw s) j)"
    unfolding Let_def by (auto simp: wr(2) h(3) cong: if_cong)
  show ?thesis
    using hd_rw_unfold[OF assms(2) h(1)] g assms(3) by auto
qed

end

subsection \<open>A concrete controller\<close>

datatype phase = Idle | Reading nat nat | Writing nat nat

record drive =
  d_regs :: "u16 \<Rightarrow> byte"
  d_data :: "nat \<Rightarrow> nat \<Rightarrow> byte"
  d_phase :: phase

definition drive_sector :: "drive \<Rightarrow> nat \<Rightarrow> byte list" where
  "drive_sector h n = map (d_data h n) [0..<512]"

definition drive_lba :: "(u16 \<Rightarrow> byte) \<Rightarrow> nat" where
  "drive_lba r = unat (r REG_LBA_LOW) + 2 ^ 8 * unat (r REG_LBA_MID) + 2 ^ 16 * unat (r REG_LBA_HIGH) +
     2 ^ 24 * unat (r REG_DEVICE AND 0xF)"

definition drive_out :: "u16 \<Rightarrow> byte \<Rightarrow> drive \<Rightarrow> drive" where
  "drive_out p b h =
     (let r = (d_regs h)(p := b) in h\<lparr>d_regs := r, d_phase :=
       (if p = REG_CMD \<and> b = ATA_READ then Reading (drive_lba r) (unat (r REG_NSECTOR))
        else if p = REG_CMD \<and> b = ATA_WRITE then Writing (drive_lba r) (unat (r REG_NSECTOR))
        else d_phase h)\<rparr>)"

definition next_phase :: "(nat \<Rightarrow> nat \<Rightarrow> phase) \<Rightarrow> nat \<Rightarrow> nat \<Rightarrow> phase" where
  "next_phase c lba n = (if n \<le> 1 then Idle else c (lba + 1) (n - 1))"

definition drive_ata :: "drive ata" where
  "drive_ata = \<lparr>
     in_status = (\<lambda>h. (if d_phase h = Idle then 0x40 else 0x48, h)),
     out = drive_out,
     data_in = (\<lambda>k h. case d_phase h of Reading lba n \<Rightarrow> (take k (drive_sector h lba), h\<lparr>d_phase := next_phase Reading lba n\<rparr>)
       | _ \<Rightarrow> (replicate k 0, h)),
     data_out = (\<lambda>bs h. case d_phase h of Writing lba n \<Rightarrow>
         h\<lparr>d_data := (d_data h)(lba := (\<lambda>i. bs ! i)), d_phase := next_phase Writing lba n\<rparr> | _ \<Rightarrow> h),
     irq = Some,
     polls = 1 \<rparr>"

interpretation drive: ata_disk drive_ata drive_sector "\<lambda>h. d_phase h = Idle"
  "\<lambda>h lba n. 0 < n \<and> d_phase h = Reading lba n" "\<lambda>h lba n. 0 < n \<and> d_phase h = Writing lba n"
proof unfold_locales
  show "length (drive_sector h n) = 512" for h n by (simp add: drive_sector_def)
qed (auto simp: drive_ata_def take_sector_def give_sector_def issue_def drive_out_def Let_def cmd_lba_def drive_lba_def
    drive_sector_def next_phase_def unat_of_nat fun_eq_iff intro!: nth_equalityI)

subsection \<open>What hd_rw does\<close>

text \<open>
  C30. Reading: over a controller that follows the ATA PIO protocol, \<open>hd_rw\<close> answers a good read
  request by filling the caller's buffer with the sectors it asked for, relative to its
  partition, and writes nothing else in memory; the disk is unchanged and the controller is
  idle again.
\<close>

theorem hd_read_fills_buffer:
  assumes "ata_disk dev sector idle reading writing" "idle (hw s)" "good_request s msg n" "m_type msg = DEV_READ"
  shows "\<exists>h b. hd_rw dev msg s = Inr ((), s\<lparr>hw := h, hdbuf := b,
      kmem := (\<lambda>x. let k = unat (x - linear (proc_table s) (msg_PROC_NR msg) (msg_BUF msg)) in
        if k < 512 * n then sector (hw s) (unat (request_sect s msg) + k div 512) ! (k mod 512) else kmem s x)\<rparr>) \<and>
    sector h = sector (hw s) \<and> idle h"
  by (rule ata_disk.hd_rw_reads[OF assms])

text \<open>
  C31. Writing: over such a controller, \<open>hd_rw\<close> answers a good write request by storing the
  caller's buffer in the sectors it names, relative to its partition; every other sector of
  the disk, and memory, stay as they are.
\<close>

theorem hd_write_stores_buffer:
  assumes "ata_disk dev sector idle reading writing" "idle (hw s)" "good_request s msg n" "m_type msg = DEV_WRITE"
  shows "\<exists>h. hd_rw dev msg s = Inr ((), s\<lparr>hw := h\<rparr>) \<and> idle h \<and>
    sector h = (\<lambda>j. let lba = unat (request_sect s msg) in if lba \<le> j \<and> j < lba + n
      then bytes_at (kmem s) (linear (proc_table s) (msg_PROC_NR msg) (msg_BUF msg) + of_nat (512 * (j - lba))) 512
      else sector (hw s) j)"
  by (rule ata_disk.hd_rw_writes[OF assms])

text \<open>A disk whose logical partition hd2a starts at sector 0x1000, and requests for two of its sectors.\<close>

definition hd_example :: "drive hdstate" where
  "hd_example = kstate.extend idle_state \<lparr> hw = \<lparr> d_regs = (\<lambda>_. 0), d_data = (\<lambda>n i. of_nat (n + i)), d_phase = Idle \<rparr>,
     hdbuf = (\<lambda>_. 0), hds_info = (\<lambda>_. \<lparr> open_cnt = 1, primary = (\<lambda>_. \<lparr>base = 0, part_size = 0\<rparr>),
       logical = (\<lambda>_. \<lparr>base = 0x1000, part_size = 0x9000\<rparr>) \<rparr>) \<rparr>"

definition hd_request_example :: "int \<Rightarrow> message" where
  "hd_request_example t = zero_msg\<lparr>m_type := t, m3i4 := 0x20, m3l1 := 512 * 3, m3i3 := TASK_FS, m3p2 := 0x600000, m3i2 := 1024\<rparr>"

lemma hd_example_good: "good_request hd_example (hd_request_example t) 2"
  "request_sect hd_example (hd_request_example t) = 0x1003" "m_type (hd_request_example t) = t"
  "d_phase (hw hd_example) = Idle" "drive_sector (hw hd_example) n = map (\<lambda>i. of_nat (n + i)) [0..<512]"
  "linear (proc_table hd_example) (msg_PROC_NR (hd_request_example t)) (msg_BUF (hd_request_example t)) = 0x600000"
  "kmem hd_example = (\<lambda>_. 0)"
  by (simp_all add: good_request_def request_sect_def hd_example_def hd_request_example_def kstate.defs idle_state_def
      DRV_OF_DEV_def pids_def zero_msg_def drive_sector_def)

theorem hd_read_fills_buffer_witness:
  "\<exists>t. hd_rw drive_ata (hd_request_example DEV_READ) hd_example = Inr ((), t) \<and> kmem t 0x600201 = 5 \<and> kmem t 0x600400 = 0"
  using hd_read_fills_buffer[OF drive.ata_disk_axioms hd_example_good(4,1,3)]
  by (auto simp: hd_example_good)

theorem hd_write_stores_buffer_witness:
  "\<exists>t. hd_rw drive_ata (hd_request_example DEV_WRITE) hd_example = Inr ((), t) \<and> drive_sector (hw t) 0x1004 = replicate 512 0 \<and>
     drive_sector (hw t) 0x1005 = map (\<lambda>i. of_nat (0x1005 + i)) [0..<512]"
  using hd_write_stores_buffer[OF drive.ata_disk_axioms hd_example_good(4,1,3)]
  by (auto simp: hd_example_good bytes_at_def map_replicate_const)

subsection \<open>Counts that are not whole sectors\<close>

text \<open>A controller that has nothing left to transfer raises no interrupt.\<close>

definition quiet :: "'h ata \<Rightarrow> ('h \<Rightarrow> bool) \<Rightarrow> bool" where
  "quiet dev idle = (\<forall>h. idle h \<longrightarrow> irq dev h = None)"

lemma read_round_some:
  assumes "take_sector dev (hw s) = Some (bs, h)" "0 \<le> n" "n \<le> 512"
  shows "\<exists>b m. hd_rw_round dev True la n s = Inr ((), s\<lparr>hw := h, hdbuf := b, kmem := m\<rparr>)"
  using assms
  by (auto simp: hd_rw_round_def interrupt_wait_def read_hdbuf_def copy_hdbuf_def take_sector_def bindE_def modH_def op_defs
      split: option.splits)

lemma read_round_waits:
  "irq dev (hw s) = None \<Longrightarrow> hd_rw_round dev True la n s = Inl (Wait ''interrupt_wait'')"
  by (simp add: hd_rw_round_def interrupt_wait_def bindE_def op_defs)

context ata_disk begin

lemma read_loop_waits:
  assumes "reading (hw s) lba n" "n < 256" "512 * (int n - 1) < left" "left < 512 * int n" "quiet dev idle" "0 < n"
  shows "hd_rw_loop dev True la left s = Some (Inl (Wait ''interrupt_wait''))"
  using assms
proof (induction n arbitrary: s lba la left)
  case (Suc n)
  from read_sector[OF Suc.prems(1)] obtain h where
    h: "take_sector dev (hw s) = Some (sector (hw s) lba, h)" "if n = 0 then idle h else reading h (lba + 1) n" by blast
  have left: "0 < left" using Suc.prems(3) by simp
  from read_round_some[OF h(1), of "min HD_SECTOR left" la] left obtain b m where
    r: "hd_rw_round dev True la (min HD_SECTOR left) s = Inr ((), s\<lparr>hw := h, hdbuf := b, kmem := m\<rparr>)" by auto
  let ?t = "s\<lparr>hw := h, hdbuf := b, kmem := m\<rparr>"
  have step: "hd_rw_loop dev True la left s = hd_rw_loop dev True (la + 512) (left - 512) ?t"
    using r left Suc.prems(2,4) by (subst hd_rw_loop.simps) (simp add: s32_id)
  show ?case
  proof (cases "n = 0")
    case True
    then have "irq dev h = None" "left - 512 \<noteq> 0" using h(2) Suc.prems(4,5) by (auto simp: quiet_def)
    then show ?thesis unfolding step by (subst hd_rw_loop.simps) (simp add: read_round_waits)
  next
    case False
    then show ?thesis unfolding step using h(2) Suc.prems by (intro Suc.IH[of _ "lba + 1"]) auto
  qed
qed simp

lemma hd_rw_partial:
  assumes "quiet dev idle" "idle (hw s)" "good_request s (msg\<lparr>m3i2 := 512 * int n\<rparr>) n"
    "512 * (int n - 1) < msg_CNT msg" "msg_CNT msg < 512 * int n" "m_type msg = DEV_READ"
  shows "hd_rw dev msg s = Inl (Wait ''interrupt_wait'')"
proof -
  let ?msg = "msg\<lparr>m3i2 := 512 * int n\<rparr>"
  let ?la = "linear (proc_table s) (msg_PROC_NR msg) (msg_BUF msg)"
  obtain h where h: "status_wait dev (polls dev) STATUS_BSY 0 (hw s) = Some h" "idle h"
    using not_busy[OF assms(2)] by blast
  have same: "request_sect s ?msg = request_sect s msg" by (simp add: request_sect_def cong: if_cong)
  have n: "0 < n" "n < 256" "request_sect s msg < 2 ^ 28" using assms(3) unfolding good_request_def same by simp_all
  let ?c = "lba_cmd (request_sect s msg) (of_nat n) 0 ATA_READ"
  have rd: "reading (issue dev ?c h) (unat (request_sect s msg)) n"
    using read_cmd[OF h(2) lba_cmd_first_drive _ _ n(1,2), of "request_sect s msg" "of_nat n" ATA_READ] lba_cmd_lba[OF n(3)]
    by simp
  have loop: "hd_rw_loop dev True ?la (msg_CNT msg) (s\<lparr>hw := issue dev ?c h\<rparr>) = Some (Inl (Wait ''interrupt_wait''))"
    using read_loop_waits[of "s\<lparr>hw := issue dev ?c h\<rparr>" _ n] rd n(1,2) assms(1,4,5) by simp
  obtain pt where pt: "part_of (msg_DEVICE msg) s = Inr (pt, s)"
    "ucast (drop_bit 9 (msg_POSITION msg)) + base pt = request_sect s msg"
    using part_of_ok[OF assms(3)] unfolding same by auto
  have g: "DRV_OF_DEV (msg_DEVICE msg) = 0" "msg_POSITION msg AND 0x1FF = 0" using assms(3) by (simp_all add: good_request_def)
  have va: "va2la (msg_PROC_NR msg) (msg_BUF msg) s = Inr (?la, s)"
    using assms(3) by (intro va2la_ok) (simp_all add: good_request_def)
  have "(msg_CNT msg + 511) div 512 = int n"
    using assms(4,5) by (intro int_div_pos_eq[of _ 512 "int n" "msg_CNT msg + 511 - 512 * int n"]) simp_all
  then have cnt: "c_div (511 + msg_CNT msg) HD_SECTOR = int n"
    using assms(4) n(1) by (simp add: c_div_def add.commute)
  show ?thesis
    using pt g va position_bound_vacuous[of "msg_POSITION msg"] loop hd_cmd_out_ok[OF h(1)] assms(6)
    by (simp add: hd_rw_def Let_def bindE_def op_defs cnt)
qed

end

text \<open>
  C32. A read whose count is not a multiple of the sector size never completes: over a controller that
  follows the protocol and raises no interrupt once it has transferred the sectors of the command,
  the driver takes all of them, the last one in part, steps over zero, and waits for an interrupt
  that does not come. The caller gets no answer.
\<close>

theorem hd_read_partial_waits:
  assumes "ata_disk dev sector idle reading writing" "quiet dev idle" "idle (hw s)"
    "good_request s (msg\<lparr>m3i2 := 512 * int n\<rparr>) n" "512 * (int n - 1) < msg_CNT msg" "msg_CNT msg < 512 * int n"
    "m_type msg = DEV_READ"
  shows "hd_rw dev msg s = Inl (Wait ''interrupt_wait'')"
  by (rule ata_disk.hd_rw_partial[OF assms])

text \<open>The controller \<open>drive_ata\<close> with an interrupt line: it is raised once per sector.\<close>

definition quiet_ata :: "(drive \<times> bool) ata" where
  "quiet_ata = \<lparr>
     in_status = (\<lambda>(h, b). (fst (in_status drive_ata h), (h, b))),
     out = (\<lambda>p x (h, b). (drive_out p x h, if p = REG_CMD then x = ATA_READ else b)),
     data_in = (\<lambda>k (h, b). case data_in drive_ata k h of (bs, h') \<Rightarrow> (bs, (h', d_phase h' \<noteq> Idle))),
     data_out = (\<lambda>bs (h, b). (data_out drive_ata bs h, True)),
     irq = (\<lambda>(h, b). if b then Some (h, False) else None),
     polls = 1 \<rparr>"

interpretation quiet: ata_disk quiet_ata "\<lambda>(h, b). drive_sector h" "\<lambda>(h, b). d_phase h = Idle \<and> \<not> b"
  "\<lambda>(h, b) lba n. 0 < n \<and> d_phase h = Reading lba n \<and> b" "\<lambda>(h, b) lba n. 0 < n \<and> d_phase h = Writing lba n \<and> \<not> b"
proof unfold_locales
  show "length ((case h of (h, b) \<Rightarrow> drive_sector h) n) = 512" for h n by (cases h) (simp add: drive_sector_def)
  show "\<exists>h'. take_sector quiet_ata h = Some ((case h of (h, b) \<Rightarrow> drive_sector h) lba, h') \<and>
      (case h' of (h, b) \<Rightarrow> drive_sector h) = (case h of (h, b) \<Rightarrow> drive_sector h) \<and>
      (if n = 0 then case h' of (h, b) \<Rightarrow> d_phase h = Idle \<and> \<not> b
       else (case h' of (h, b) \<Rightarrow> \<lambda>lba n. 0 < n \<and> d_phase h = Reading lba n \<and> b) (lba + 1) n)"
    if "(case h of (h, b) \<Rightarrow> \<lambda>lba n. 0 < n \<and> d_phase h = Reading lba n \<and> b) lba (Suc n)" for h lba n
  proof -
    obtain d b where h: "h = (d, b)" by (cases h)
    then have d: "h = (d, True)" "d_phase d = Reading lba (Suc n)" using that by simp_all
    show ?thesis
      by (rule exI[of _ "(d\<lparr>d_phase := next_phase Reading lba (Suc n)\<rparr>, n \<noteq> 0)"])
        (simp add: d quiet_ata_def drive_ata_def take_sector_def drive_sector_def next_phase_def fun_eq_iff)
  qed
  show "\<exists>h'. give_sector quiet_ata bs h = Some h' \<and>
      (case h' of (h, b) \<Rightarrow> drive_sector h) = (case h of (h, b) \<Rightarrow> drive_sector h)(lba := bs) \<and>
      (if n = 0 then case h' of (h, b) \<Rightarrow> d_phase h = Idle \<and> \<not> b
       else (case h' of (h, b) \<Rightarrow> \<lambda>lba n. 0 < n \<and> d_phase h = Writing lba n \<and> \<not> b) (lba + 1) n)"
    if "(case h of (h, b) \<Rightarrow> \<lambda>lba n. 0 < n \<and> d_phase h = Writing lba n \<and> \<not> b) lba (Suc n)" "length bs = 512" for h lba n bs
  proof -
    obtain d b where h: "h = (d, b)" by (cases h)
    then have d: "h = (d, False)" "d_phase d = Writing lba (Suc n)" using that(1) by simp_all
    have "map ((!) bs) [0..<512] = bs" using that(2) by (intro nth_equalityI) simp_all
    then show ?thesis
      by (intro exI[of _ "(d\<lparr>d_data := (d_data d)(lba := (\<lambda>i. bs ! i)), d_phase := next_phase Writing lba (Suc n)\<rparr>, False)"])
        (simp add: d quiet_ata_def drive_ata_def give_sector_def drive_sector_def next_phase_def fun_eq_iff)
  qed
qed (auto simp: quiet_ata_def drive_ata_def issue_def drive_out_def Let_def cmd_lba_def drive_lba_def drive_sector_def
    unat_of_nat fun_eq_iff)

lemma quiet_quiet: "quiet quiet_ata (\<lambda>(h, b). d_phase h = Idle \<and> \<not> b)"
  by (auto simp: quiet_def quiet_ata_def)

definition quiet_example :: "(drive \<times> bool) hdstate" where
  "quiet_example = kstate.extend idle_state \<lparr> hw = (hw hd_example, False), hdbuf = hdbuf hd_example, hds_info = hds_info hd_example \<rparr>"

lemma quiet_example_good: "good_request quiet_example (hd_request_example t) 2"
  by (simp add: good_request_def request_sect_def quiet_example_def hd_example_def hd_request_example_def kstate.defs idle_state_def
      DRV_OF_DEV_def pids_def zero_msg_def)

theorem hd_read_partial_waits_witness:
  "hd_rw quiet_ata ((hd_request_example DEV_READ)\<lparr>m3i2 := 700\<rparr>) quiet_example = Inl (Wait ''interrupt_wait'')"
proof (rule hd_read_partial_waits[where n = 2, OF quiet.ata_disk_axioms quiet_quiet])
  show "case hw quiet_example of (h, b) \<Rightarrow> d_phase h = Idle \<and> \<not> b"
    using hd_example_good(4) by (simp add: quiet_example_def kstate.defs)
  have "(hd_request_example DEV_READ)\<lparr>m3i2 := 700, m3i2 := 512 * int 2\<rparr> = hd_request_example DEV_READ"
    by (simp add: hd_request_example_def)
  then show "good_request quiet_example ((hd_request_example DEV_READ)\<lparr>m3i2 := 700, m3i2 := 512 * int 2\<rparr>) 2"
    using quiet_example_good by simp
qed (simp_all add: hd_request_example_def)

end
