(* ===== verification/Fs_Disk.thy ===== *)
theory Fs_Disk
  imports Fs Hd_Disk
begin

section \<open>The file system over the disk driver\<close>

text \<open>
  The contract the file system has with its driver, as the locale \<open>block_device\<close>: a request
  for up to 255 sectors of the root device fills the block buffer with them or stores it in
  them, and touches nothing else. \<open>disk\<close> and \<open>ready\<close> read the part of the state that the
  file system does not own. \<open>hd_rpc\<close> is the driver of theory \<open>Hd\<close> as the file system calls it,
  on a state with the globals of both tasks; the interpretation shows that it keeps the
  contract whenever its controller is an ATA disk.
\<close>

subsection \<open>The contract\<close>

definition load_sects :: "(nat \<Rightarrow> byte list) \<Rightarrow> nat \<Rightarrow> nat \<Rightarrow> mem \<Rightarrow> mem" where
  "load_sects d n k m = (\<lambda>a. let j = unat (a - FSBUF) in if j < 512 * k then d (n + j div 512) ! (j mod 512) else m a)"

definition buf_sect :: "mem \<Rightarrow> nat \<Rightarrow> byte list" where
  "buf_sect m i = bytes_at m (FSBUF + of_nat (512 * i)) 512"

definition store_sects :: "mem \<Rightarrow> nat \<Rightarrow> nat \<Rightarrow> (nat \<Rightarrow> byte list) \<Rightarrow> nat \<Rightarrow> byte list" where
  "store_sects m n k d = (\<lambda>j. if n \<le> j \<and> j < n + k then buf_sect m (j - n) else d j)"

text \<open>Nothing of the file system's or the kernel's own state changes but memory.\<close>

definition disk_frame :: "'a fstate_scheme \<Rightarrow> 'a fstate_scheme \<Rightarrow> bool" where
  "disk_frame s t = (fstate.truncate t = (fstate.truncate s)\<lparr>kmem := kmem t\<rparr>)"

lemma disk_frameD:
  assumes "disk_frame s t"
  shows "proc_table t = proc_table s" "inode_table t = inode_table s" "f_desc_table t = f_desc_table s"
    "super_blocks t = super_blocks s" "myroot_inode t = myroot_inode s" "pcaller t = pcaller s" "fs_msg t = fs_msg s"
  using assms unfolding disk_frame_def by (cases s, cases t, simp add: fstate.defs)+

lemma disk_frame_trans: "disk_frame s t \<Longrightarrow> disk_frame t u \<Longrightarrow> disk_frame s u"
  unfolding disk_frame_def by (cases s, cases t, cases u, simp add: fstate.defs)

lemma disk_frame_mem [simp]: "disk_frame s (s\<lparr>kmem := m\<rparr>)"
  unfolding disk_frame_def by (cases s, simp add: fstate.defs)

locale block_device =
  fixes rpc :: "'a fstate_scheme rpc" and disk :: "'a fstate_scheme \<Rightarrow> nat \<Rightarrow> byte list" and ready :: "'a fstate_scheme \<Rightarrow> bool"
  assumes sector_length: "length (disk s n) = 512"
    and own_state: "fstate.more s = fstate.more t \<Longrightarrow> disk s = disk t \<and> ready s = ready t"
    and read_sects: "ready s \<Longrightarrow> flat_natives (proc_table s) \<Longrightarrow> 0 < k \<Longrightarrow> k < 256 \<Longrightarrow> n + k \<le> 2 ^ 22 \<Longrightarrow>
      \<exists>t. rw_sector rpc ROOT_DEV (sect_pos (int n)) TASK_FS FSBUF (512 * int k) DEV_READ s = Inr ((), t) \<and>
        disk_frame s t \<and> kmem t = load_sects (disk s) n k (kmem s) \<and> ready t \<and> disk t = disk s"
    and write_sects: "ready s \<Longrightarrow> flat_natives (proc_table s) \<Longrightarrow> 0 < k \<Longrightarrow> k < 256 \<Longrightarrow> n + k \<le> 2 ^ 22 \<Longrightarrow>
      \<exists>t. rw_sector rpc ROOT_DEV (sect_pos (int n)) TASK_FS FSBUF (512 * int k) DEV_WRITE s = Inr ((), t) \<and>
        disk_frame s t \<and> kmem t = kmem s \<and> ready t \<and> disk t = store_sects (kmem s) n k (disk s)"

subsection \<open>The disk driver as the file system calls it\<close>

record 'h fs_hd = fstate +
  g_hw :: 'h
  g_hdbuf :: "nat \<Rightarrow> byte"
  g_hds_info :: "nat \<Rightarrow> hd_info"

definition hd_view :: "'h fs_hd \<Rightarrow> 'h hdstate" where
  "hd_view s = kstate.extend (kstate.truncate s) \<lparr> hw = g_hw s, hdbuf = g_hdbuf s, hds_info = g_hds_info s \<rparr>"

definition hd_back :: "'h hdstate \<Rightarrow> 'h fs_hd \<Rightarrow> 'h fs_hd" where
  "hd_back t s = s\<lparr> proc_table := proc_table t, p_proc_ready := p_proc_ready t, k_reenter := k_reenter t,
     kticks := kticks t, cnt := cnt t, key_pressed := key_pressed t, int_enabled := int_enabled t, kmem := kmem t,
     g_hw := hw t, g_hdbuf := hdbuf t, g_hds_info := hds_info t \<rparr>"

definition hd_rpc :: "'h ata \<Rightarrow> hd_cmd \<Rightarrow> ('h fs_hd) rpc \<Rightarrow> ('h fs_hd) rpc" where
  "hd_rpc dev cmd other driver msg s =
     (if driver = TASK_HD then
        (case hd_request dev cmd msg (hd_view s) of Inl e \<Rightarrow> Inl e | Inr (m, t) \<Rightarrow> Inr (m, hd_back t s))
      else other driver msg s)"

lemma hd_view_fields [simp]:
  "proc_table (hd_view s) = proc_table s" "kmem (hd_view s) = kmem s" "hw (hd_view s) = g_hw s"
  "hds_info (hd_view s) = g_hds_info s"
  by (simp_all add: hd_view_def kstate.defs)

text \<open>The root partition: logical partition 16 of the first drive.\<close>

definition root_base :: "(nat \<Rightarrow> hd_info) \<Rightarrow> u32" where
  "root_base info = base (logical (info 0) 16)"

definition fs_disk :: "('h \<Rightarrow> nat \<Rightarrow> byte list) \<Rightarrow> 'h fs_hd \<Rightarrow> nat \<Rightarrow> byte list" where
  "fs_disk sector s n = sector (g_hw s) (unat (root_base (g_hds_info s)) + n)"

definition fs_ready :: "('h \<Rightarrow> bool) \<Rightarrow> 'h fs_hd \<Rightarrow> bool" where
  "fs_ready idle s = (idle (g_hw s) \<and> root_base (g_hds_info s) < 0xF000000)"

text \<open>The message of \<open>rw_sector\<close> is a good request.\<close>

lemma sect_pos_sector:
  assumes "n < 2 ^ 22"
  shows "sect_pos (int n) AND 0x1FF = 0" "sect_pos (int n) < 2 ^ 40" "ucast (drop_bit 9 (sect_pos (int n))) = (of_nat n :: u32)"
proof -
  have p: "sect_pos (int n) = of_nat (n * 512)"
    using assms unfolding sect_pos_def by (simp add: s32_id)
  have u: "unat (sect_pos (int n)) = n * 512"
    unfolding p unsigned_of_nat using assms by (simp add: take_bit_eq_mod)
  have "sect_pos (int n) AND 0x1FF = take_bit 9 (sect_pos (int n))" by (simp add: take_bit_eq_mask mask_numeral)
  moreover have "unat (take_bit 9 (sect_pos (int n))) = 0"
    unfolding unsigned_take_bit_eq u by (simp add: take_bit_eq_mod)
  ultimately show "sect_pos (int n) AND 0x1FF = 0" by (metis unat_eq_zero)
  show "sect_pos (int n) < 2 ^ 40" using assms u by (simp add: word_less_nat_alt)
  have "unat (drop_bit 9 (sect_pos (int n))) = n"
    unfolding unat_drop_bit_eq u by (simp add: drop_bit_eq_div)
  then show "ucast (drop_bit 9 (sect_pos (int n))) = (of_nat n :: u32)"
    using assms by (simp add: word_unat_eq_iff unsigned_ucast_eq unat_of_nat take_bit_eq_mod)
qed

text \<open>\<open>ROOT_DEV\<close> is minor 0x20 of the disk.\<close>

lemma rw_sector_root:
  "rw_sector rpc ROOT_DEV pos proc buf bytes io s =
     (case rpc TASK_HD (zero_msg\<lparr>m_type := io, m3i4 := 0x20, m3l1 := pos, m3i3 := proc, m3p2 := buf, m3i2 := bytes\<rparr>) s of
        Inl e \<Rightarrow> Inl e | Inr (m, t) \<Rightarrow> Inr ((), t))"
  by (simp add: rw_sector_def driver_of_def MAJOR_def MINOR_def dd_map_def bindE_def op_defs split: sum.splits)

definition sect_msg :: "int \<Rightarrow> nat \<Rightarrow> nat \<Rightarrow> message" where
  "sect_msg io n k = zero_msg\<lparr>m_type := io, m3i4 := 0x20, m3l1 := sect_pos (int n), m3i3 := TASK_FS, m3p2 := FSBUF,
     m3i2 := 512 * int k\<rparr>"

lemma sect_msg_good:
  fixes s :: "'h fs_hd"
  assumes "fs_ready idle s" "flat_natives (proc_table s)" "0 < k" "k < 256" "n + k \<le> 2 ^ 22"
  shows "good_request (hd_view s) (sect_msg io n k) k"
    "unat (request_sect (hd_view s) (sect_msg io n k)) = unat (root_base (g_hds_info s)) + n"
    "linear (proc_table (hd_view s)) (msg_PROC_NR (sect_msg io n k)) (msg_BUF (sect_msg io n k)) = FSBUF"
    "m_type (sect_msg io n k) = io"
proof -
  have n: "n < 2 ^ 22" using assms by simp
  have r: "request_sect (hd_view s) (sect_msg io n k) = of_nat n + root_base (g_hds_info s)"
    using sect_pos_sector(3)[OF n] by (simp add: request_sect_def sect_msg_def root_base_def)
  have b: "unat (root_base (g_hds_info s)) < 0xF000000"
    using assms(1) by (simp add: fs_ready_def word_less_nat_alt)
  have un: "unat (of_nat n :: u32) = n" using n by (simp add: unat_of_nat)
  show u: "unat (request_sect (hd_view s) (sect_msg io n k)) = unat (root_base (g_hds_info s)) + n"
    unfolding r using b n un by (subst unat_plus_simple[THEN iffD1]) (auto simp: word_le_nat_alt unat_word_ariths)
  show "good_request (hd_view s) (sect_msg io n k) k"
    using u b n assms sect_pos_sector[OF n]
    by (simp add: good_request_def sect_msg_def DRV_OF_DEV_def pids_def word_less_nat_alt)
  show "linear (proc_table (hd_view s)) (msg_PROC_NR (sect_msg io n k)) (msg_BUF (sect_msg io n k)) = FSBUF"
    using assms(2) by (simp add: sect_msg_def linear_def flat_natives_def)
  show "m_type (sect_msg io n k) = io" by (simp add: sect_msg_def)
qed


context ata_disk begin

lemma root_read:
  fixes s :: "'h fs_hd"
  assumes "fs_ready idle s" "flat_natives (proc_table s)" "0 < k" "k < 256" "n + k \<le> 2 ^ 22"
  shows "\<exists>t. rw_sector (hd_rpc dev cmd other) ROOT_DEV (sect_pos (int n)) TASK_FS FSBUF (512 * int k) DEV_READ s = Inr ((), t) \<and>
    disk_frame s t \<and> kmem t = load_sects (fs_disk sector s) n k (kmem s) \<and> fs_ready idle t \<and> fs_disk sector t = fs_disk sector s"
proof -
  note g = sect_msg_good[OF assms]
  have i: "idle (hw (hd_view s))" using assms(1) by (simp add: fs_ready_def)
  obtain h b where h: "hd_rw dev (sect_msg DEV_READ n k) (hd_view s) = Inr ((), (hd_view s)\<lparr>hw := h, hdbuf := b,
      kmem := load_sects (fs_disk sector s) n k (kmem s)\<rparr>)" "sector h = sector (g_hw s)" "idle h"
    using hd_rw_reads[OF i g(1) g(4)] unfolding hd_view_fields g(2) g(3)[unfolded hd_view_fields] load_sects_def fs_disk_def add.assoc
    by (elim exE conjE)
  let ?t = "s\<lparr>kmem := load_sects (fs_disk sector s) n k (kmem s), g_hw := h, g_hdbuf := b\<rparr>"
  have bk: "hd_back ((hd_view s)\<lparr>hw := h, hdbuf := b, kmem := load_sects (fs_disk sector s) n k (kmem s)\<rparr>) s = ?t"
    by (cases s) (simp add: hd_back_def hd_view_def kstate.defs)
  have "rw_sector (hd_rpc dev cmd other) ROOT_DEV (sect_pos (int n)) TASK_FS FSBUF (512 * int k) DEV_READ s = Inr ((), ?t)"
    using h(1) bk by (simp add: rw_sector_root hd_rpc_def hd_request_def sect_msg_def bindE_def op_defs)
  moreover have "disk_frame s ?t" by (cases s) (simp add: disk_frame_def fstate.defs)
  ultimately show ?thesis
    using assms(1) h(2,3) by (intro exI[of _ ?t]) (simp add: fs_ready_def fs_disk_def fun_eq_iff)
qed

lemma root_write:
  fixes s :: "'h fs_hd"
  assumes "fs_ready idle s" "flat_natives (proc_table s)" "0 < k" "k < 256" "n + k \<le> 2 ^ 22"
  shows "\<exists>t. rw_sector (hd_rpc dev cmd other) ROOT_DEV (sect_pos (int n)) TASK_FS FSBUF (512 * int k) DEV_WRITE s = Inr ((), t) \<and>
    disk_frame s t \<and> kmem t = kmem s \<and> fs_ready idle t \<and> fs_disk sector t = store_sects (kmem s) n k (fs_disk sector s)"
proof -
  note g = sect_msg_good[OF assms]
  have i: "idle (hw (hd_view s))" using assms(1) by (simp add: fs_ready_def)
  obtain h where h: "hd_rw dev (sect_msg DEV_WRITE n k) (hd_view s) = Inr ((), (hd_view s)\<lparr>hw := h\<rparr>)" "idle h"
    "sector h = (\<lambda>j. if unat (root_base (g_hds_info s)) + n \<le> j \<and> j < unat (root_base (g_hds_info s)) + n + k
      then bytes_at (kmem s) (FSBUF + of_nat (512 * (j - (unat (root_base (g_hds_info s)) + n)))) 512 else sector (g_hw s) j)"
    using hd_rw_writes[OF i g(1) g(4)] unfolding hd_view_fields g(2) g(3)[unfolded hd_view_fields] Let_def by (elim exE conjE)
  let ?t = "s\<lparr>g_hw := h\<rparr>"
  have bk: "hd_back ((hd_view s)\<lparr>hw := h\<rparr>) s = ?t"
    by (cases s) (simp add: hd_back_def hd_view_def kstate.defs)
  have "rw_sector (hd_rpc dev cmd other) ROOT_DEV (sect_pos (int n)) TASK_FS FSBUF (512 * int k) DEV_WRITE s = Inr ((), ?t)"
    using h(1) bk by (simp add: rw_sector_root hd_rpc_def hd_request_def sect_msg_def bindE_def op_defs)
  moreover have "disk_frame s ?t" by (cases s) (simp add: disk_frame_def fstate.defs)
  ultimately show ?thesis
    using assms(1) h(2,3)
    by (intro exI[of _ ?t]) (simp add: fs_ready_def fs_disk_def fun_eq_iff store_sects_def buf_sect_def)
qed

lemma root_device: "block_device (hd_rpc dev cmd other) (fs_disk sector) (fs_ready idle)"
proof
  fix s t :: "'h fs_hd"
  assume "fstate.more s = fstate.more t"
  then have "g_hw s = g_hw t" "g_hds_info s = g_hds_info t" by (cases s, cases t, simp only: fstate.select_convs fs_hd.select_convs fs_hd.ext_inject)+
  then show "fs_disk sector s = fs_disk sector t \<and> fs_ready idle s = fs_ready idle t"
    by (intro conjI ext) (simp_all add: fs_disk_def fs_ready_def)
qed (use root_read root_write sector_length in \<open>auto simp: fs_disk_def\<close>)

end

interpretation drive_fs: block_device "hd_rpc drive_ata cmd other" "fs_disk drive_sector" "fs_ready (\<lambda>h. d_phase h = Idle)" for cmd other
  by (rule drive.root_device)

subsection \<open>Composition\<close>

text \<open>
  C16. The file system's driver contract holds for the code of the driver: on top of any
  controller that follows the ATA protocol, the requests of \<open>rw_sector\<close> to \<open>task_hd\<close> fill and
  store the block buffer, sector for sector of the root partition, and change nothing else.
\<close>

theorem driver_keeps_contract:
  assumes "ata_disk dev sector idle reading writing"
  shows "block_device (hd_rpc dev cmd other) (fs_disk sector) (fs_ready idle)"
  by (rule ata_disk.root_device[OF assms])

theorem driver_keeps_contract_witness:
  "block_device (hd_rpc drive_ata (lba_cmd 0 0 0 0) (\<lambda>_ _. fail (Spin ''no driver''))) (fs_disk drive_sector)
     (fs_ready (\<lambda>h. d_phase h = Idle))"
  by (rule driver_keeps_contract[OF drive.ata_disk_axioms])

end
