(* ===== verification/Fs_Maps.thy ===== *)
theory Fs_Maps
  imports Fs_Disk
begin

section \<open>Bit maps and inodes on the disk\<close>

text \<open>
  The functions of \<open>Fs\<close> that change the disk, seen through the contract \<open>block_device\<close>:
  sectors are lists of 512 bytes, a map is the bits of its sectors.
\<close>

subsection \<open>The block buffer\<close>

lemma unat_buf: "j < 0x100000 \<Longrightarrow> unat (FSBUF + of_nat j - FSBUF) = j"
  by (simp add: unat_of_nat)

lemma fsbuf_byte_load: "j < 512 * k \<Longrightarrow> j < 0x100000 \<Longrightarrow> fsbuf_byte (load_sects d n k m) j = d (n + j div 512) ! (j mod 512)"
  unfolding fsbuf_byte_def load_sects_def Let_def unat_buf by simp

lemma fsbuf_byte_load1 [simp]: "j < 512 \<Longrightarrow> fsbuf_byte (load_sects d n (Suc 0) m) j = d n ! j"
  by (simp add: fsbuf_byte_load)

lemma buf_sect_length [simp]: "length (buf_sect m i) = 512"
  by (simp add: buf_sect_def bytes_at_def)

lemma buf_sect_nth [simp]: "j < 512 \<Longrightarrow> buf_sect m 0 ! j = fsbuf_byte m j"
  by (simp add: buf_sect_def bytes_at_def fsbuf_byte_def)

lemma buf_sect_load1: "length (d n) = 512 \<Longrightarrow> buf_sect (load_sects d n (Suc 0) m) 0 = d n"
  by (rule nth_equalityI) simp_all

lemma buf_offset_eq: "j < 0x100000 \<Longrightarrow> k < 0x100000 \<Longrightarrow> (FSBUF + of_nat j = FSBUF + of_nat k) = (j = k)"
  unfolding add_left_cancel by (simp add: word_unat_eq_iff unat_of_nat)

lemma fsbuf_byte_set:
  "j < 512 \<Longrightarrow> k < 512 \<Longrightarrow> fsbuf_byte (set_fsbuf_byte j b m) k = (if k = j then b else fsbuf_byte m k)"
  using buf_offset_eq[of j k] by (auto simp: fsbuf_byte_def set_fsbuf_byte_def)

lemma buf_sect_set: "j < 512 \<Longrightarrow> buf_sect (set_fsbuf_byte j b m) 0 = (buf_sect m 0)[j := b]"
  by (rule nth_equalityI) (auto simp: fsbuf_byte_set nth_list_update)

lemma store_sects_1: "store_sects m n (Suc 0) d = d(n := buf_sect m 0)"
  by (auto simp: store_sects_def fun_eq_iff)

text \<open>Bits of a sector.\<close>

definition sbit :: "byte list \<Rightarrow> nat \<Rightarrow> bool" where
  "sbit bs k = bit (bs ! (k div 8)) (k mod 8)"

definition set_sbit :: "nat \<Rightarrow> bool \<Rightarrow> byte list \<Rightarrow> byte list" where
  "set_sbit k v bs = bs[k div 8 := (if v then bs ! (k div 8) OR push_bit (k mod 8) 1
     else bs ! (k div 8) AND NOT (push_bit (k mod 8) 1))]"

lemma set_sbit_length [simp]: "length (set_sbit k v bs) = length bs"
  by (simp add: set_sbit_def)

lemma sbit_set_sbit:
  assumes "k < 8 * length bs"
  shows "sbit (set_sbit k v bs) i = (if i = k then v else sbit bs i)"
proof (cases "i div 8 = k div 8")
  case False
  then show ?thesis by (auto simp: sbit_def set_sbit_def)
next
  case True
  have "i = k \<longleftrightarrow> i mod 8 = k mod 8" using True by (metis div_mult_mod_eq)
  moreover have "k div 8 < length bs" using assms by (simp add: less_mult_imp_div_less mult.commute)
  moreover have "i mod 8 < 8" "k mod 8 < 8" by simp_all
  ultimately show ?thesis using True by (auto simp: sbit_def set_sbit_def bit_simps)
qed

lemma sect_eqI:
  assumes "length as = length bs" "\<And>i. i < 8 * length bs \<Longrightarrow> sbit as i = sbit bs i"
  shows "as = bs"
proof (rule nth_equalityI)
  fix j assume j: "j < length as"
  show "as ! j = bs ! j"
  proof (rule bit_word_eqI)
    fix n assume "n < LENGTH(8)"
    then show "bit (as ! j) n = bit (bs ! j) n"
      using assms(2)[of "8 * j + n"] assms(1) j by (simp add: sbit_def)
  qed
qed fact

lemma set_sbit_same: "k < 8 * length bs \<Longrightarrow> set_sbit k (sbit bs k) (set_sbit k v bs) = bs"
  by (rule sect_eqI) (simp_all add: sbit_set_sbit)

subsection \<open>The search loops\<close>

lemma byte_full: "(b :: byte) = 0xFF \<longleftrightarrow> (\<forall>i < 8. bit b i)"
proof -
  have m: "(0xFF :: byte) = mask 8" by (simp add: mask_numeral)
  show ?thesis unfolding m by (auto simp: bit_mask_iff intro!: bit_word_eqI)
qed

lemma drop_bit_odd: "(drop_bit k (b :: byte) AND 1 \<noteq> 0) = bit b k"
  by (auto simp: bit_iff_odd_drop_bit and_one_eq odd_iff_mod_2_eq_one)

lemma takeWhile_upt:
  fixes P :: "nat \<Rightarrow> bool" and n :: nat
  defines "k \<equiv> length (takeWhile P [0..<n])"
  shows "k \<le> n" "\<forall>i < k. P i" "k < n \<Longrightarrow> \<not> P k"
proof -
  show k: "k \<le> n" unfolding k_def using length_takeWhile_le[of P "[0..<n]"] by simp
  show "\<forall>i < k. P i"
  proof (intro allI impI)
    fix i assume i: "i < k"
    then have "takeWhile P [0..<n] ! i = i" using takeWhile_nth[of i P "[0..<n]"] k by (simp add: k_def)
    then show "P i" using set_takeWhileD[OF nth_mem[OF i[unfolded k_def]]] by simp
  qed
  show "k < n \<Longrightarrow> \<not> P k" using nth_length_takeWhile[of P "[0..<n]"] by (simp add: k_def)
qed

lemma skip_ones_first:
  assumes "b \<noteq> 0xFF"
  shows "skip_ones b < 8" "\<not> bit b (skip_ones b)" "\<forall>i < skip_ones b. bit b i"
proof -
  note tw = takeWhile_upt[of "\<lambda>k. drop_bit k b AND 1 \<noteq> 0" 8, folded skip_ones_def, unfolded drop_bit_odd]
  show "\<forall>i < skip_ones b. bit b i" by (rule tw(2))
  have "\<not> (\<forall>i < 8. bit b i)" using assms byte_full by blast
  with tw(1,2) show "skip_ones b < 8" by (metis le_neq_implies_less)
  then show "\<not> bit b (skip_ones b)" by (rule tw(3))
qed

lemma imap_byte_Some:
  "imap_byte m js = Some j \<Longrightarrow> \<exists>xs ys. js = xs @ j # ys \<and> (\<forall>x \<in> set xs. fsbuf_byte m x = 0xFF) \<and> fsbuf_byte m j \<noteq> 0xFF"
proof (induction js)
  case (Cons a js)
  show ?case
  proof (cases "fsbuf_byte m a = 0xFF")
    case True
    then obtain xs ys where "js = xs @ j # ys" "\<forall>x \<in> set xs. fsbuf_byte m x = 0xFF" "fsbuf_byte m j \<noteq> 0xFF"
      using Cons by auto
    then show ?thesis using True by (intro exI[of _ "a # xs"] exI[of _ ys]) simp
  next
    case False
    then show ?thesis using Cons.prems by (intro exI[of _ "[]"] exI[of _ js]) simp
  qed
qed simp

lemma imap_byte_None: "imap_byte m js = None \<longleftrightarrow> (\<forall>j \<in> set js. fsbuf_byte m j = 0xFF)"
  by (induction js) auto


context block_device begin

lemma RD_ok:
  assumes "ready s" "flat_natives (proc_table s)" "0 \<le> x" "x < 2 ^ 22"
  obtains t where "RD_SECT rpc ROOT_DEV x s = Inr ((), t)" "disk_frame s t"
    "kmem t = load_sects (disk s) (nat x) (Suc 0) (kmem s)" "ready t" "disk t = disk s"
proof -
  have "nat x + 1 \<le> 2 ^ 22" "int (nat x) = x" using assms by simp_all
  with read_sects[OF assms(1,2), of 1 "nat x"] show ?thesis
    using that by (auto simp: RD_SECT_def)
qed

lemma WR_ok:
  assumes "ready s" "flat_natives (proc_table s)" "0 \<le> x" "x < 2 ^ 22"
  obtains t where "WR_SECT rpc ROOT_DEV x s = Inr ((), t)" "disk_frame s t" "kmem t = kmem s" "ready t"
    "disk t = (disk s)(nat x := buf_sect (kmem s) 0)"
proof -
  have "nat x + 1 \<le> 2 ^ 22" "int (nat x) = x" using assms by simp_all
  with write_sects[OF assms(1,2), of 1 "nat x"] show ?thesis
    using that by (auto simp: WR_SECT_def store_sects_1)
qed

lemma mem_own [simp]: "disk (s\<lparr>kmem := m\<rparr>) = disk s" "ready (s\<lparr>kmem := m\<rparr>) = ready s"
  using own_state[of "s\<lparr>kmem := m\<rparr>" s] by simp_all

lemma inode_own [simp]: "disk (s\<lparr>inode_table := m\<rparr>) = disk s" "ready (s\<lparr>inode_table := m\<rparr>) = ready s"
  using own_state[of "s\<lparr>inode_table := m\<rparr>" s] by simp_all

end

subsection \<open>The inode map\<close>

text \<open>The super block the file system has in memory for the root device.\<close>

definition root_sb :: "'a fstate_scheme \<Rightarrow> super_block option" where
  "root_sb s = map_option (super_blocks s) (find_super (super_blocks s) ROOT_DEV [0..<NR_SUPER_BLOCK])"

lemma get_root_sb: "root_sb s = Some sb \<Longrightarrow> get_super_block ROOT_DEV s = Inr (sb, s)"
  by (auto simp: root_sb_def get_super_block_def split: option.splits)

lemma root_sb_frame: "disk_frame s t \<Longrightarrow> root_sb t = root_sb s"
  by (simp add: root_sb_def disk_frameD)

text \<open>The first free bit of a sector.\<close>

definition first_zero :: "byte list \<Rightarrow> nat \<Rightarrow> bool" where
  "first_zero bs k = (k < 4096 \<and> \<not> sbit bs k \<and> (\<forall>i < k. sbit bs i))"

lemma upt_split:
  assumes "[0..<n] = xs @ j # ys"
  shows "xs = [0..<j] \<and> j < n"
proof -
  have "length [0..<n] = length xs + Suc (length ys)" unfolding assms by simp
  then have k: "length xs < n" by simp
  have "[0..<n] ! length xs = j" unfolding assms by simp
  moreover have "take (length xs) [0..<n] = xs" unfolding assms by simp
  ultimately show ?thesis using k by (simp add: take_upt)
qed

lemma imap_scan:
  assumes "length bs = 512" "\<forall>j < 512. fsbuf_byte m j = bs ! j"
  shows "case imap_byte m [0..<512] of None \<Rightarrow> \<forall>k < 4096. sbit bs k
    | Some j \<Rightarrow> j < 512 \<and> first_zero bs (8 * j + skip_ones (bs ! j))"
proof (cases "imap_byte m [0..<512]")
  case None
  then have "bs ! (k div 8) = 0xFF" if "k < 4096" for k
    using that assms(2) by (auto simp: imap_byte_None)
  then show ?thesis using None by (auto simp: sbit_def byte_full)
next
  case (Some j)
  from imap_byte_Some[OF this] obtain xs ys where x: "[0..<512] = xs @ j # ys"
    "\<forall>x \<in> set xs. fsbuf_byte m x = 0xFF" "fsbuf_byte m j \<noteq> 0xFF" by blast
  have xs: "xs = [0..<j]" and j: "j < 512"
    using upt_split[OF x(1)] by simp_all
  let ?k = "skip_ones (bs ! j)"
  have k: "?k < 8" "\<not> bit (bs ! j) ?k" "\<forall>i < ?k. bit (bs ! j) i"
    using skip_ones_first[of "bs ! j"] x(3) assms(2) j by auto
  have "sbit bs i" if "i < 8 * j + ?k" for i
  proof (cases "i div 8 = j")
    case True
    then have "i = 8 * j + i mod 8" by (metis mult_div_mod_eq)
    then have "i mod 8 < ?k" using that by linarith
    then show ?thesis using k(3) True by (simp add: sbit_def)
  next
    case False
    then have "i div 8 < j" using that k(1) by linarith
    then have "bs ! (i div 8) = 0xFF" using x(2) xs assms(2) j by auto
    then show ?thesis by (simp add: sbit_def byte_full)
  qed
  moreover have "\<not> sbit bs (8 * j + ?k)" using k by (simp add: sbit_def)
  ultimately show ?thesis using Some j k(1) by (auto simp: first_zero_def)
qed

context block_device begin

lemma alloc_imap:
  assumes "ready s" "flat_natives (proc_table s)" "root_sb s = Some sb" "0 < nr_imap_sects sb"
  shows "\<exists>t nr. alloc_imap_bit rpc ROOT_DEV s = Inr (nr, t) \<and> disk_frame s t \<and> ready t \<and>
    (if \<forall>k < 4096. sbit (disk s 2) k then nr = 0 \<and> disk t = disk s
     else \<exists>k. nr = int k \<and> first_zero (disk s 2) k \<and> disk t = (disk s)(2 := set_sbit k True (disk s 2)))"
proof -
  obtain u where u: "RD_SECT rpc ROOT_DEV 2 s = Inr ((), u)" "disk_frame s u"
    "kmem u = load_sects (disk s) (nat 2) (Suc 0) (kmem s)" "ready u" "disk u = disk s"
    by (rule RD_ok[OF assms(1,2), of 2]) auto
  have len: "length (disk s 2) = 512" by (rule sector_length)
  have b: "\<forall>j < 512. fsbuf_byte (kmem u) j = disk s 2 ! j" using u(3) by simp
  have "0 < uint (nr_imap_sects sb)" using assms(4) by (simp add: word_less_def)
  then have up: "[0..uint (nr_imap_sects sb) - 1] = 0 # [1..uint (nr_imap_sects sb) - 1]" by (subst upto.simps) simp
  note scan = imap_scan[OF len b]
  show ?thesis
  proof (cases "imap_byte (kmem u) [0..<512]")
    case None
    then have "alloc_imap_bit rpc ROOT_DEV s = Inr (0, u)"
      using u(1) by (simp add: alloc_imap_bit_def get_root_sb[OF assms(3)] up op_defs)
    then show ?thesis using None scan u by auto
  next
    case (Some j)
    with scan have j: "j < 512" "first_zero (disk s 2) (8 * j + skip_ones (disk s 2 ! j))" by simp_all
    let ?k = "skip_ones (disk s 2 ! j)"
    have k8: "?k < 8"
      using Some skip_ones_first(1)[of "disk s 2 ! j"] imap_byte_Some[OF Some] b j by auto
    let ?v = "u\<lparr>kmem := set_fsbuf_byte j (disk s 2 ! j OR push_bit ?k 1) (kmem u)\<rparr>"
    obtain t where t: "WR_SECT rpc ROOT_DEV 2 ?v = Inr ((), t)" "disk_frame ?v t" "ready t"
      "disk t = (disk ?v)(nat 2 := buf_sect (kmem ?v) 0)"
      by (rule WR_ok[of ?v 2]) (use u assms(2) disk_frameD(1)[OF u(2)] in auto)
    have "alloc_imap_bit rpc ROOT_DEV s = Inr (int (8 * j + ?k), t)"
      using u(1) t(1) Some b j(1)
      by (simp add: alloc_imap_bit_def get_root_sb[OF assms(3)] up op_defs Let_def bindE_def modM_def)
    moreover have "disk t = (disk s)(2 := set_sbit (8 * j + ?k) True (disk s 2))"
      using t(4) u(3,5) j(1) k8 len by (simp add: buf_sect_set buf_sect_load1 set_sbit_def)
    moreover have "disk_frame s t"
      by (rule disk_frame_trans[OF u(2) disk_frame_trans[OF disk_frame_mem t(2)]])
    moreover have "\<not> (\<forall>k < 4096. sbit (disk s 2) k)" using j(2) by (auto simp: first_zero_def)
    ultimately show ?thesis
      using j(2) t(3) by (intro exI[of _ t] exI[of _ "int (8 * j + ?k)"]) (simp only: if_False, blast)
  qed
qed


lemma and_single_bit: "(x :: byte) AND push_bit n 1 = 0 \<longleftrightarrow> \<not> bit x n"
  by (simp add: and_exp_eq_0_iff_not_bit)

lemma clear_imap_ok:
  assumes "ready s" "flat_natives (proc_table s)" "k < 4096" "sbit (disk s 2) k"
  shows "\<exists>t. clear_imap rpc ROOT_DEV (int k) s = Inr ((), t) \<and> disk_frame s t \<and> ready t \<and>
    disk t = (disk s)(2 := set_sbit k False (disk s 2))"
proof -
  obtain u where u: "RD_SECT rpc ROOT_DEV 2 s = Inr ((), u)" "disk_frame s u"
    "kmem u = load_sects (disk s) (nat 2) (Suc 0) (kmem s)" "ready u" "disk u = disk s"
    by (rule RD_ok[OF assms(1,2), of 2]) auto
  have len: "length (disk s 2) = 512" by (rule sector_length)
  let ?j = "k div 8"
  have j: "?j < 512" using assms(3) by simp
  then have b: "fsbuf_byte (kmem u) ?j = disk s 2 ! ?j" using u(3) by simp
  have "disk s 2 ! ?j AND push_bit (k mod 8) 1 \<noteq> 0"
    using assms(4) unfolding and_single_bit sbit_def by simp
  let ?v = "u\<lparr>kmem := set_fsbuf_byte ?j (disk s 2 ! ?j AND NOT (push_bit (k mod 8) 1)) (kmem u)\<rparr>"
  obtain t where t: "WR_SECT rpc ROOT_DEV 2 ?v = Inr ((), t)" "disk_frame ?v t" "ready t"
    "disk t = (disk ?v)(nat 2 := buf_sect (kmem ?v) 0)"
    by (rule WR_ok[of ?v 2]) (use u assms(2) disk_frameD(1)[OF u(2)] in auto)
  have ix: "c_div (int k) 8 = int ?j" "c_mod (int k) 8 = int (k mod 8)" by (simp_all add: zdiv_int zmod_int)
  have "clear_imap rpc ROOT_DEV (int k) s = Inr ((), t)"
    using u(1) t(1) b j \<open>disk s 2 ! ?j AND push_bit (k mod 8) 1 \<noteq> 0\<close>
    by (simp add: clear_imap_def ix Let_def bindE_def op_defs modM_def)
  moreover have "disk t = (disk s)(2 := set_sbit k False (disk s 2))"
    using t(4) u(3,5) j len by (simp add: buf_sect_set buf_sect_load1 set_sbit_def)
  moreover have "disk_frame s t"
    by (rule disk_frame_trans[OF u(2) disk_frame_trans[OF disk_frame_mem t(2)]])
  ultimately show ?thesis using t(3) by blast
qed

end

subsection \<open>Inodes on the disk\<close>

definition le32 :: "byte list \<Rightarrow> nat \<Rightarrow> u32" where
  "le32 bs i = ucast (bs ! i) OR push_bit 8 (ucast (bs ! (i + 1))) OR push_bit 16 (ucast (bs ! (i + 2)))
     OR push_bit 24 (ucast (bs ! (i + 3)))"

definition put32 :: "nat \<Rightarrow> u32 \<Rightarrow> byte list \<Rightarrow> byte list" where
  "put32 i v bs = bs[i := ucast v, i + 1 := ucast (drop_bit 8 v), i + 2 := ucast (drop_bit 16 v),
     i + 3 := ucast (drop_bit 24 v)]"

lemma put32_length [simp]: "length (put32 i v bs) = length bs"
  by (simp add: put32_def)

lemma le32_put32 [simp]: "i + 4 \<le> length bs \<Longrightarrow> le32 (put32 i v bs) i = v"
proof -
  assume l: "i + 4 \<le> length bs"
  have "rd32 (wr32 (\<lambda>_. 0) 0 v) 0 = v" by simp
  then show ?thesis using l by (simp add: le32_def put32_def rd32_def wr32_def)
qed

lemma le32_put32_other: "j + 4 \<le> i \<or> i + 4 \<le> j \<Longrightarrow> le32 (put32 i v bs) j = le32 bs j"
  by (auto simp: le32_def put32_def)

lemma rd32_buf: "i + 4 \<le> 512 \<Longrightarrow> rd32 m (FSBUF + of_nat i) = le32 (buf_sect m 0) i"
proof -
  assume "i + 4 \<le> 512"
  then have "buf_sect m 0 ! (i + j) = m (FSBUF + of_nat i + of_nat j)" if "j < 4" for j
    using that by (simp add: buf_sect_def bytes_at_def add.assoc)
  from this[of 0] this[of 1] this[of 2] this[of 3] show ?thesis
    by (simp add: rd32_def le32_def)
qed

lemma buf_sect_upd: "j < 512 \<Longrightarrow> buf_sect (m(FSBUF + of_nat j := b)) 0 = (buf_sect m 0)[j := b]"
  using buf_sect_set[of j b m] by (simp add: set_fsbuf_byte_def)

lemma buf_sect_wr32: "i + 4 \<le> 512 \<Longrightarrow> buf_sect (wr32 m (FSBUF + of_nat i) v) 0 = put32 i v (buf_sect m 0)"
proof -
  assume i: "i + 4 \<le> 512"
  have a: "FSBUF + of_nat i + 1 = FSBUF + of_nat (i + 1)" "FSBUF + of_nat i + 2 = FSBUF + of_nat (i + 2)"
    "FSBUF + of_nat i + 3 = FSBUF + of_nat (i + 3)" by simp_all
  have l: "i < 512" "i + 1 < 512" "i + 2 < 512" "i + 3 < 512" using i by simp_all
  show ?thesis
    unfolding wr32_def a put32_def by (simp only: buf_sect_upd l)
qed

text \<open>The four words of inode number \<open>num\<close>, in its sector.\<close>

definition inode_off :: "nat \<Rightarrow> nat" where
  "inode_off num = 32 * ((num - 1) mod 16)"

definition inode_sect :: "super_block \<Rightarrow> nat \<Rightarrow> nat" where
  "inode_sect sb num = 2 + unat (nr_imap_sects sb) + unat (nr_smap_sects sb) + (num - 1) div 16"

definition dinode :: "super_block \<Rightarrow> (nat \<Rightarrow> byte list) \<Rightarrow> nat \<Rightarrow> u32 \<times> u32 \<times> u32 \<times> u32" where
  "dinode sb d num = (let bs = d (inode_sect sb num); i = inode_off num in
     (le32 bs i, le32 bs (i + 4), le32 bs (i + 8), le32 bs (i + 12)))"

definition put_dinode :: "nat \<Rightarrow> inode \<Rightarrow> byte list \<Rightarrow> byte list" where
  "put_dinode num x bs = (let i = inode_off num in
     put32 (i + 12) (i_nr_sects x) (put32 (i + 8) (i_start_sect x) (put32 (i + 4) (i_size x) (put32 i (i_mode x) bs))))"

definition inode_words :: "inode \<Rightarrow> u32 \<times> u32 \<times> u32 \<times> u32" where
  "inode_words x = (i_mode x, i_size x, i_start_sect x, i_nr_sects x)"

text \<open>A super block whose areas lie in the addressable part of the device, and the inode numbers it has.\<close>

definition good_sb :: "super_block \<Rightarrow> bool" where
  "good_sb sb = (2 + unat (nr_imap_sects sb) + unat (nr_smap_sects sb) + unat (nr_inode_sects sb) < 2 ^ 22)"

definition inode_nr_ok :: "super_block \<Rightarrow> nat \<Rightarrow> bool" where
  "inode_nr_ok sb num = (0 < num \<and> num \<le> 16 * unat (nr_inode_sects sb))"

lemma inode_off_less: "inode_off num + 32 \<le> 512"
  using mod_less_divisor[of 16 "num - 1"] unfolding inode_off_def by linarith

lemma inode_off_apart: "0 < a \<Longrightarrow> 0 < b \<Longrightarrow> a \<noteq> b \<Longrightarrow> inode_sect sb a = inode_sect sb b \<Longrightarrow>
  inode_off a + 32 \<le> inode_off b \<or> inode_off b + 32 \<le> inode_off a"
  unfolding inode_off_def inode_sect_def
  using div_mult_mod_eq[of "a - 1" 16] div_mult_mod_eq[of "b - 1" 16] by linarith

lemma dinode_put:
  assumes "0 < a" "0 < b" "length (d (inode_sect sb a)) = 512"
  shows "dinode sb (d(inode_sect sb a := put_dinode a x (d (inode_sect sb a)))) b =
    (if a = b then inode_words x else dinode sb d b)"
proof (cases "a = b")
  case True
  then show ?thesis
    using inode_off_less[of a] assms(3) by (simp add: dinode_def put_dinode_def inode_words_def Let_def le32_put32_other)
next
  case False
  then show ?thesis
    using inode_off_apart[OF assms(1,2) False, of sb]
    by (auto simp: dinode_def put_dinode_def Let_def le32_put32_other)
qed

lemma inode_slot_off:
  assumes "0 < num"
  shows "inode_slot (int num) = FSBUF + of_nat (inode_off num)"
proof -
  obtain n where n: "num = Suc n" using assms by (cases num) auto
  have "c_mod (int num - 1) (c_div SECTOR_SIZE INODE_SIZE) * INODE_SIZE = int (inode_off num)"
    unfolding n by (simp add: inode_off_def zmod_int)
  then show ?thesis unfolding inode_slot_def by (simp add: u32_int_def)
qed

lemma inode_block_sect:
  assumes "good_sb sb" "inode_nr_ok sb num"
  shows "inode_block sb (int num) = int (inode_sect sb num)" "inode_sect sb num < 2 ^ 22"
proof -
  have n: "0 < num" "(num - 1) div 16 < unat (nr_inode_sects sb)"
    using assms(2) by (auto simp: inode_nr_ok_def less_mult_imp_div_less)
  then show lt: "inode_sect sb num < 2 ^ 22" using assms(1) by (simp add: good_sb_def inode_sect_def)
  have "c_div (int num - 1) (c_div SECTOR_SIZE INODE_SIZE) = int ((num - 1) div 16)"
    using n(1) by (cases num) (simp_all add: zdiv_int)
  then have "2 + nr_imap_sects sb + nr_smap_sects sb + u32_int (c_div (int num - 1) (c_div SECTOR_SIZE INODE_SIZE))
      = of_nat (inode_sect sb num)"
    unfolding inode_sect_def by (simp add: u32_int_def)
  moreover have "sint (of_nat (inode_sect sb num) :: u32) = int (inode_sect sb num)"
    using lt s32_id[of "int (inode_sect sb num)"] by (simp add: s32_def)
  ultimately show "inode_block sb (int num) = int (inode_sect sb num)"
    unfolding inode_block_def by simp
qed


lemma buf_sect_put_dinode:
  "buf_sect (wr32 (wr32 (wr32 (wr32 m (FSBUF + of_nat (inode_off num)) (i_mode x)) (FSBUF + of_nat (inode_off num) + 4) (i_size x))
     (FSBUF + of_nat (inode_off num) + 8) (i_start_sect x)) (FSBUF + of_nat (inode_off num) + 12) (i_nr_sects x)) 0
   = put_dinode num x (buf_sect m 0)"
proof -
  have a: "FSBUF + of_nat (inode_off num) + 4 = FSBUF + of_nat (inode_off num + 4)"
    "FSBUF + of_nat (inode_off num) + 8 = FSBUF + of_nat (inode_off num + 8)"
    "FSBUF + of_nat (inode_off num) + 12 = FSBUF + of_nat (inode_off num + 12)" by simp_all
  have l: "inode_off num + 4 \<le> 512" "inode_off num + 4 + 4 \<le> 512" "inode_off num + 8 + 4 \<le> 512"
    "inode_off num + 12 + 4 \<le> 512" using inode_off_less[of num] by simp_all
  show ?thesis unfolding a put_dinode_def Let_def by (simp only: buf_sect_wr32 l)
qed

lemma rd32_dinode:
  "(rd32 m (FSBUF + of_nat (inode_off num)), rd32 m (FSBUF + of_nat (inode_off num) + 4),
    rd32 m (FSBUF + of_nat (inode_off num) + 8), rd32 m (FSBUF + of_nat (inode_off num) + 12)) =
   (let bs = buf_sect m 0; i = inode_off num in (le32 bs i, le32 bs (i + 4), le32 bs (i + 8), le32 bs (i + 12)))"
proof -
  have a: "FSBUF + of_nat (inode_off num) + 4 = FSBUF + of_nat (inode_off num + 4)"
    "FSBUF + of_nat (inode_off num) + 8 = FSBUF + of_nat (inode_off num + 8)"
    "FSBUF + of_nat (inode_off num) + 12 = FSBUF + of_nat (inode_off num + 12)" by simp_all
  have l: "inode_off num + 4 \<le> 512" "inode_off num + 4 + 4 \<le> 512" "inode_off num + 8 + 4 \<le> 512"
    "inode_off num + 12 + 4 \<le> 512" using inode_off_less[of num] by simp_all
  show ?thesis unfolding a Let_def by (simp only: rd32_buf l)
qed

context block_device begin

lemma sync_inode_ok:
  assumes "ready s" "flat_natives (proc_table s)" "root_sb s = Some sb" "good_sb sb" "inode_nr_ok sb num"
    "i_dev (inode_table s p) = ROOT_DEV" "i_num (inode_table s p) = int num"
  shows "\<exists>t. sync_inode rpc p s = Inr ((), t) \<and> disk_frame s t \<and> ready t \<and>
    disk t = (disk s)(inode_sect sb num := put_dinode num (inode_table s p) (disk s (inode_sect sb num)))"
proof -
  note blk = inode_block_sect[OF assms(4,5)]
  let ?b = "inode_sect sb num"
  have num: "0 < num" using assms(5) by (simp add: inode_nr_ok_def)
  obtain u where u: "RD_SECT rpc ROOT_DEV (int ?b) s = Inr ((), u)" "disk_frame s u"
    "kmem u = load_sects (disk s) (nat (int ?b)) (Suc 0) (kmem s)" "ready u" "disk u = disk s"
    by (rule RD_ok[OF assms(1,2), of "int ?b"]) (use blk(2) in auto)
  define x where "x = inode_table s p"
  define a where "a = FSBUF + of_nat (inode_off num)"
  let ?v = "u\<lparr>kmem := wr32 (wr32 (wr32 (wr32 (kmem u) a (i_mode x)) (a + 4) (i_size x)) (a + 8) (i_start_sect x)) (a + 12) (i_nr_sects x)\<rparr>"
  obtain t where t: "WR_SECT rpc ROOT_DEV (int ?b) ?v = Inr ((), t)" "disk_frame ?v t" "ready t"
    "disk t = (disk ?v)(nat (int ?b) := buf_sect (kmem ?v) 0)"
    by (rule WR_ok[of ?v "int ?b"]) (use u assms(2) disk_frameD(1)[OF u(2)] blk(2) in auto)
  have "sync_inode rpc p s = Inr ((), t)"
    using u(1) t(1) disk_frameD(2)[OF u(2)] assms(6,7) blk(1) get_root_sb[OF assms(3)] inode_slot_off[OF num]
    by (simp add: sync_inode_def Let_def bindE_def op_defs modM_def x_def a_def)
  moreover have "disk t = (disk s)(?b := put_dinode num x (disk s ?b))"
    using t(4) u(3,5) sector_length[of s ?b] buf_sect_put_dinode[of "kmem u" num x] by (simp add: a_def buf_sect_load1)
  moreover have "disk_frame s t"
    by (rule disk_frame_trans[OF u(2) disk_frame_trans[OF disk_frame_mem t(2)]])
  ultimately show ?thesis using t(3) by (auto simp: x_def)
qed

text \<open>An inode that is not in the table is read from the disk into the first free entry.\<close>

lemma get_inode_loads:
  assumes "ready s" "flat_natives (proc_table s)" "root_sb s = Some sb" "good_sb sb" "inode_nr_ok sb num"
    "inode_scan (inode_table s) ROOT_DEV (int num) [0..<NR_INODE] None = Inr (Some q)"
  shows "\<exists>t x. get_inode rpc ROOT_DEV (int num) s = Inr (Some q, t) \<and> ready t \<and> disk t = disk s \<and>
    inode_table t = (inode_table s)(q := x) \<and> inode_words x = dinode sb (disk s) num \<and>
    i_dev x = ROOT_DEV \<and> i_num x = int num \<and> i_cnt x = 1 \<and>
    proc_table t = proc_table s \<and> super_blocks t = super_blocks s \<and> myroot_inode t = myroot_inode s"
proof -
  note blk = inode_block_sect[OF assms(4,5)]
  let ?b = "inode_sect sb num"
  have num: "0 < num" using assms(5) by (simp add: inode_nr_ok_def)
  let ?s = "s\<lparr>inode_table := (inode_table s)(q := (inode_table s q)\<lparr>i_dev := ROOT_DEV, i_num := int num, i_cnt := 1\<rparr>)\<rparr>"
  obtain u where u: "RD_SECT rpc ROOT_DEV (int ?b) ?s = Inr ((), u)" "disk_frame ?s u"
    "kmem u = load_sects (disk ?s) (nat (int ?b)) (Suc 0) (kmem ?s)" "ready u" "disk u = disk ?s"
    by (rule RD_ok[of ?s "int ?b"]) (use assms(1,2) blk(2) in auto)
  have sb: "get_super_block ROOT_DEV ?s = Inr (sb, ?s)"
    by (rule get_root_sb) (use assms(3) in \<open>simp add: root_sb_def\<close>)
  define a where "a = FSBUF + of_nat (inode_off num)"
  define x where "x = (inode_table ?s q)\<lparr>i_mode := rd32 (kmem u) a, i_size := rd32 (kmem u) (a + 4),
    i_start_sect := rd32 (kmem u) (a + 8), i_nr_sects := rd32 (kmem u) (a + 12)\<rparr>"
  let ?t = "u\<lparr>inode_table := (inode_table u)(q := x)\<rparr>"
  have "get_inode rpc ROOT_DEV (int num) s = Inr (Some q, ?t)"
    using u(1) sb assms(6) num disk_frameD(2)[OF u(2)] blk(1) inode_slot_off[OF num]
    by (simp add: get_inode_def updI_def bindE_def op_defs x_def a_def)
  moreover have "inode_words x = dinode sb (disk s) num"
    using rd32_dinode[of "kmem u" num] u(3) sector_length[of s ?b]
    by (simp add: x_def a_def inode_words_def dinode_def buf_sect_load1 Let_def)
  ultimately show ?thesis
    using u(4,5) disk_frameD[OF u(2)] by (intro exI[of _ ?t] exI[of _ x]) (simp add: x_def)
qed

end

subsection \<open>Properties\<close>

text \<open>
  C24. \<open>alloc_imap_bit\<close> takes the first free bit of the first sector of the inode map and sets
  just that bit of the disk. When the sector is full it returns 0, the invalid inode number,
  and changes nothing: the panic that follows its loop is never reached.
\<close>

theorem alloc_imap_first_free:
  assumes "block_device rpc disk ready" "ready s" "flat_natives (proc_table s)" "root_sb s = Some sb" "0 < nr_imap_sects sb"
  shows "\<exists>t nr. alloc_imap_bit rpc ROOT_DEV s = Inr (nr, t) \<and> disk_frame s t \<and> ready t \<and>
    (if \<forall>k < 4096. sbit (disk s 2) k then nr = 0 \<and> disk t = disk s
     else \<exists>k. nr = int k \<and> first_zero (disk s 2) k \<and> disk t = (disk s)(2 := set_sbit k True (disk s 2)))"
  by (rule block_device.alloc_imap[OF assms])

text \<open>
  What \<open>alloc_imap_bit\<close> takes, the first part of \<open>do_unlink\<close> gives back: the inode map on
  the disk is again the one before, bit for bit.
\<close>

lemma imap_alloc_free_roundtrip:
  assumes "block_device rpc disk ready" "ready s" "flat_natives (proc_table s)" "root_sb s = Some sb" "0 < nr_imap_sects sb"
    "alloc_imap_bit rpc ROOT_DEV s = Inr (nr, t)" "\<exists>k < 4096. \<not> sbit (disk s 2) k"
  shows "\<exists>u. clear_imap rpc ROOT_DEV nr t = Inr ((), u) \<and> ready u \<and> disk u = disk s"
proof -
  have ne: "\<not> (\<forall>k < 4096. sbit (disk s 2) k)" using assms(7) by blast
  obtain k where t: "disk_frame s t" "ready t" "nr = int k" "first_zero (disk s 2) k"
    "disk t = (disk s)(2 := set_sbit k True (disk s 2))"
    using block_device.alloc_imap[OF assms(1-5)] assms(6) unfolding if_not_P[OF ne] by auto
  have len: "length (disk s 2) = 512" by (rule block_device.sector_length[OF assms(1)])
  have k: "k < 4096" "\<not> sbit (disk s 2) k" using t(4) by (simp_all add: first_zero_def)
  have "sbit (disk t 2) k" unfolding t(5) using k len by (simp add: sbit_set_sbit)
  with block_device.clear_imap_ok[OF assms(1) t(2) _ k(1)] assms(3) disk_frameD(1)[OF t(1)]
  obtain u where u: "clear_imap rpc ROOT_DEV (int k) t = Inr ((), u)" "ready u"
    "disk u = (disk t)(2 := set_sbit k False (disk t 2))" by auto
  moreover have "disk u = disk s"
    unfolding u(3) t(5) using set_sbit_same[of k "disk s 2" True] k len by simp
  ultimately show ?thesis unfolding t(3) by blast
qed

text \<open>
  C23. Inodes survive the disk: after \<open>sync_inode\<close> wrote an inode, \<open>get_inode\<close> of its number,
  when it is no longer in the table, loads an inode with the same mode, size, start and length;
  and \<open>sync_inode\<close> changes the stored inode of no other number.
\<close>

theorem inode_sync_get_roundtrip:
  assumes "block_device rpc disk ready" "ready s" "flat_natives (proc_table s)" "root_sb s = Some sb" "good_sb sb"
    "inode_nr_ok sb num" "i_dev (inode_table s p) = ROOT_DEV" "i_num (inode_table s p) = int num"
  shows "\<exists>t. sync_inode rpc p s = Inr ((), t) \<and>
    (\<forall>other. inode_nr_ok sb other \<longrightarrow> other \<noteq> num \<longrightarrow> dinode sb (disk t) other = dinode sb (disk s) other) \<and>
    (\<forall>u q. disk u = disk t \<longrightarrow> ready u \<longrightarrow> flat_natives (proc_table u) \<longrightarrow> root_sb u = Some sb \<longrightarrow>
       inode_scan (inode_table u) ROOT_DEV (int num) [0..<NR_INODE] None = Inr (Some q) \<longrightarrow>
       (\<exists>v. get_inode rpc ROOT_DEV (int num) u = Inr (Some q, v) \<and> inode_words (inode_table v q) = inode_words (inode_table s p) \<and>
         i_num (inode_table v q) = int num \<and> i_dev (inode_table v q) = ROOT_DEV \<and> i_cnt (inode_table v q) = 1))"
proof -
  obtain t where t: "sync_inode rpc p s = Inr ((), t)"
    "disk t = (disk s)(inode_sect sb num := put_dinode num (inode_table s p) (disk s (inode_sect sb num)))"
    using block_device.sync_inode_ok[OF assms] by blast
  have d: "dinode sb (disk t) b = (if num = b then inode_words (inode_table s p) else dinode sb (disk s) b)"
    if "inode_nr_ok sb b" for b
    unfolding t(2) by (rule dinode_put) (use that assms(6) block_device.sector_length[OF assms(1)] in \<open>auto simp: inode_nr_ok_def\<close>)
  have "\<exists>v. get_inode rpc ROOT_DEV (int num) u = Inr (Some q, v) \<and> inode_words (inode_table v q) = inode_words (inode_table s p) \<and>
      i_num (inode_table v q) = int num \<and> i_dev (inode_table v q) = ROOT_DEV \<and> i_cnt (inode_table v q) = 1"
    if "disk u = disk t" "ready u" "flat_natives (proc_table u)" "root_sb u = Some sb"
      "inode_scan (inode_table u) ROOT_DEV (int num) [0..<NR_INODE] None = Inr (Some q)" for u q
    using block_device.get_inode_loads[OF assms(1) that(2-4) assms(5,6) that(5)] that(1) d[OF assms(6)] by auto
  then show ?thesis using t(1) d by auto
qed

text \<open>A root device of the size the disk image has, as \<open>mkfs\<close> lays it out, with six inodes in use.\<close>

definition fs_example :: "drive fs_hd" where
  "fs_example = kstate.extend idle_state \<lparr>
     f_desc_table = (\<lambda>_. \<lparr>fd_mode = 0, fd_pos = 0, fd_cnt = 0, fd_inode = None\<rparr>),
     inode_table = (\<lambda>_. \<lparr>i_mode = 0, i_size = 0, i_start_sect = 0, i_nr_sects = 0, i_dev = 0, i_cnt = 0, i_num = 0\<rparr>)
       (0 := \<lparr>i_mode = I_DIRECTORY, i_size = 80, i_start_sect = 300, i_nr_sects = 2048, i_dev = ROOT_DEV, i_cnt = 1, i_num = 1\<rparr>),
     super_blocks = (\<lambda>_. mkfs_super 0)(0 := (mkfs_super 0x9000)\<lparr>sb_dev := ROOT_DEV\<rparr>),
     myroot_inode = 0, pcaller = INIT, fs_msg = zero_msg,
     g_hw = \<lparr> d_regs = (\<lambda>_. 0), d_data = (\<lambda>n i. if n = 0x1002 \<and> i = 0 then 0x3F else 0), d_phase = Idle \<rparr>,
     g_hdbuf = (\<lambda>_. 0), g_hds_info = (\<lambda>_. \<lparr> open_cnt = 1, primary = (\<lambda>_. \<lparr>base = 0, part_size = 0\<rparr>),
       logical = (\<lambda>_. \<lparr>base = 0x1000, part_size = 0x9000\<rparr>) \<rparr>) \<rparr>"

abbreviation (input) example_rpc :: "(drive fs_hd) rpc" where
  "example_rpc \<equiv> hd_rpc drive_ata (lba_cmd 0 0 0 0) (\<lambda>_ _. fail (Spin ''no driver''))"

lemma fs_example_ok:
  "fs_ready (\<lambda>h. d_phase h = Idle) fs_example" "flat_natives (proc_table fs_example)"
  "root_sb fs_example = Some ((mkfs_super 0x9000)\<lparr>sb_dev := ROOT_DEV\<rparr>)"
  "fs_disk drive_sector fs_example 2 = 0x3F # replicate 511 0"
proof -
  have u: "[0..<NR_SUPER_BLOCK] = 0 # [1..<NR_SUPER_BLOCK]" by (simp add: upt_conv_Cons)
  show "root_sb fs_example = Some ((mkfs_super 0x9000)\<lparr>sb_dev := ROOT_DEV\<rparr>)"
    unfolding root_sb_def u by (simp add: fs_example_def kstate.defs)
  show "fs_disk drive_sector fs_example 2 = 0x3F # replicate 511 0"
    by (rule nth_equalityI)
       (auto simp: fs_example_def kstate.defs fs_disk_def drive_sector_def root_base_def nth_Cons split: nat.split)
qed (simp_all add: fs_example_def kstate.defs fs_ready_def root_base_def)

lemma fs_example_bits: "k < 4096 \<Longrightarrow> sbit (fs_disk drive_sector fs_example 2) k = (k < 6)"
proof -
  assume "k < 4096"
  have m: "(0x3F :: byte) = mask 6" by (simp add: mask_numeral)
  show ?thesis
  proof (cases "k div 8 = 0")
    case True
    then show ?thesis unfolding sbit_def fs_example_ok(4) m by (auto simp: bit_mask_iff)
  next
    case False
    then show ?thesis using \<open>k < 4096\<close> unfolding sbit_def fs_example_ok(4) by (simp add: nth_Cons')
  qed
qed

lemma fs_example_first: "first_zero (fs_disk drive_sector fs_example 2) k \<longleftrightarrow> k = 6"
proof
  assume "first_zero (fs_disk drive_sector fs_example 2) k"
  then have "k < 4096" "\<not> sbit (fs_disk drive_sector fs_example 2) k" "6 < k \<longrightarrow> sbit (fs_disk drive_sector fs_example 2) 6"
    unfolding first_zero_def by blast+
  then have "\<not> k < 6" "\<not> 6 < k" using fs_example_bits[of k] fs_example_bits[of 6] by simp_all
  then show "k = 6" by linarith
qed (simp add: first_zero_def fs_example_bits)

lemma fs_example_sb: "good_sb ((mkfs_super 0x9000)\<lparr>sb_dev := ROOT_DEV\<rparr>)"
  "inode_nr_ok ((mkfs_super 0x9000)\<lparr>sb_dev := ROOT_DEV\<rparr>) 1" "0 < nr_imap_sects ((mkfs_super 0x9000)\<lparr>sb_dev := ROOT_DEV\<rparr>)"
  by (simp_all add: good_sb_def inode_nr_ok_def mkfs_super_def)

theorem alloc_imap_first_free_witness:
  "\<exists>t. alloc_imap_bit example_rpc ROOT_DEV fs_example = Inr (6, t)"
proof -
  have ne: "\<not> (\<forall>k < 4096. sbit (fs_disk drive_sector fs_example 2) k)" using fs_example_bits[of 6]
    by (intro notI) (drule spec[of _ 6], simp)
  show ?thesis
    using alloc_imap_first_free[OF drive_fs.block_device_axioms[of "lba_cmd 0 0 0 0" "\<lambda>_ _. fail (Spin ''no driver'')"]
        fs_example_ok(1-3) fs_example_sb(3)]
    unfolding fs_example_first if_not_P[OF ne] by auto
qed

theorem inode_sync_get_roundtrip_witness:
  "\<exists>t. sync_inode example_rpc 0 fs_example = Inr ((), t) \<and>
     (\<forall>u q. fs_disk drive_sector u = fs_disk drive_sector t \<longrightarrow> fs_ready (\<lambda>h. d_phase h = Idle) u \<longrightarrow>
        flat_natives (proc_table u) \<longrightarrow> root_sb u = root_sb fs_example \<longrightarrow>
        inode_scan (inode_table u) ROOT_DEV (int 1) [0..<NR_INODE] None = Inr (Some q) \<longrightarrow>
        (\<exists>v. get_inode example_rpc ROOT_DEV (int 1) u = Inr (Some q, v) \<and> i_size (inode_table v q) = 80))"
proof -
  have p: "i_dev (inode_table fs_example 0) = ROOT_DEV" "i_num (inode_table fs_example 0) = int 1"
    "inode_words (inode_table fs_example 0) = (I_DIRECTORY, 80, 300, 2048)"
    by (simp_all add: fs_example_def kstate.defs inode_words_def)
  have sz: "i_size x = 80" if "inode_words x = inode_words (inode_table fs_example 0)" for x
    using that unfolding p(3) by (simp add: inode_words_def)
  obtain t where t: "sync_inode example_rpc 0 fs_example = Inr ((), t)"
    and r: "\<forall>u q. fs_disk drive_sector u = fs_disk drive_sector t \<longrightarrow> fs_ready (\<lambda>h. d_phase h = Idle) u \<longrightarrow>
       flat_natives (proc_table u) \<longrightarrow> root_sb u = Some ((mkfs_super 0x9000)\<lparr>sb_dev := ROOT_DEV\<rparr>) \<longrightarrow>
       inode_scan (inode_table u) ROOT_DEV (int 1) [0..<NR_INODE] None = Inr (Some q) \<longrightarrow>
       (\<exists>v. get_inode example_rpc ROOT_DEV (int 1) u = Inr (Some q, v) \<and>
         inode_words (inode_table v q) = inode_words (inode_table fs_example 0) \<and>
         i_num (inode_table v q) = int 1 \<and> i_dev (inode_table v q) = ROOT_DEV \<and> i_cnt (inode_table v q) = 1)"
    using inode_sync_get_roundtrip[OF drive_fs.block_device_axioms[of "lba_cmd 0 0 0 0" "\<lambda>_ _. fail (Spin ''no driver'')"]
        fs_example_ok(1-3) fs_example_sb(1,2) p(1,2)]
    by (elim exE conjE)
  show ?thesis
    unfolding fs_example_ok(3)
  proof (rule exI[of _ t], intro conjI allI impI)
    fix u q
    assume "fs_disk drive_sector u = fs_disk drive_sector t" "fs_ready (\<lambda>h. d_phase h = Idle) u"
      "flat_natives (proc_table u)" "root_sb u = Some ((mkfs_super 0x9000)\<lparr>sb_dev := ROOT_DEV\<rparr>)"
      "inode_scan (inode_table u) ROOT_DEV (int 1) [0..<NR_INODE] None = Inr (Some q)"
    with r[rule_format] obtain v where "get_inode example_rpc ROOT_DEV (int 1) u = Inr (Some q, v)"
      "inode_words (inode_table v q) = inode_words (inode_table fs_example 0)" by blast
    with sz show "\<exists>v. get_inode example_rpc ROOT_DEV (int 1) u = Inr (Some q, v) \<and> i_size (inode_table v q) = 80" by blast
  qed fact
qed

end
