(* ===== verification/Fs_Search.thy ===== *)
theory Fs_Search
  imports Fs_Maps
begin

section \<open>Looking up a name\<close>

text \<open>
  \<open>strip_path\<close> and \<open>search_file\<close> against the root directory as a list of entries on the disk.
\<close>

subsection \<open>Paths\<close>

lemma strip_loop_plain:
  assumes "0 \<notin> set nm" "0x2F \<notin> set nm" "length t < MAX_FILENAME_LEN"
  shows "strip_loop (nm @ [0]) t = Inr (Some (take MAX_FILENAME_LEN (t @ nm)))"
  using assms
proof (induction nm arbitrary: t)
  case Nil
  then show ?case by simp
next
  case (Cons c nm)
  show ?case
  proof (cases "length t + 1 \<ge> MAX_FILENAME_LEN")
    case True
    then have "length t = 11" using Cons.prems(3) by simp
    then show ?thesis using Cons.prems by simp
  next
    case False
    then show ?thesis using Cons.IH[of "t @ [c]"] Cons.prems by auto
  qed
qed

lemma strip_loop_slash:
  assumes "0 \<notin> set nm" "0x2F \<notin> set nm" "length t < MAX_FILENAME_LEN"
  shows "strip_loop (nm @ 0x2F # rest) t =
    Inr (if length t + length nm < MAX_FILENAME_LEN then None else Some (take MAX_FILENAME_LEN (t @ nm)))"
  using assms
proof (induction nm arbitrary: t)
  case Nil
  then show ?case by simp
next
  case (Cons c nm)
  show ?case
  proof (cases "length t + 1 \<ge> MAX_FILENAME_LEN")
    case True
    then have "length t = 11" using Cons.prems(3) by simp
    then show ?thesis using Cons.prems by simp
  next
    case False
    then show ?thesis using Cons.IH[of "t @ [c]"] Cons.prems by auto
  qed
qed

text \<open>
  \<open>strip_path\<close> of an absolute path with one component gives the component, cut to twelve
  characters, in the root directory; a path with a second slash is rejected when the slash is
  among the first thirteen characters, and is otherwise taken as the cut component.
\<close>

lemma strip_path_component:
  assumes "0 \<notin> set nm" "0x2F \<notin> set nm"
  shows "strip_path (0x2F # nm @ [0]) s = Inr (Some (take MAX_FILENAME_LEN nm, myroot_inode s), s) \<and>
    strip_path (0x2F # nm @ 0x2F # rest) s =
      Inr (if length nm < MAX_FILENAME_LEN then None else Some (take MAX_FILENAME_LEN nm, myroot_inode s), s)"
  using assms by (simp add: strip_path_def strip_loop_plain strip_loop_slash)

subsection \<open>Directory entries\<close>

definition dent_name :: "(nat \<Rightarrow> byte list) \<Rightarrow> nat \<Rightarrow> nat \<Rightarrow> byte list" where
  "dent_name d sect0 k = take MAX_FILENAME_LEN (drop (16 * (k mod 32) + 4) (d (sect0 + k div 32)))"

definition dent_inode :: "(nat \<Rightarrow> byte list) \<Rightarrow> nat \<Rightarrow> nat \<Rightarrow> int" where
  "dent_inode d sect0 k = sint (le32 (d (sect0 + k div 32)) (16 * (k mod 32)))"

text \<open>The first of \<open>n\<close> entries with a name, and what \<open>search_file\<close> answers.\<close>

definition entry_named :: "(nat \<Rightarrow> byte list) \<Rightarrow> nat \<Rightarrow> byte list \<Rightarrow> nat \<Rightarrow> nat \<Rightarrow> nat option" where
  "entry_named d sect0 f lo n = find (\<lambda>k. dent_name d sect0 k = f) [lo..<n]"

definition inode_of_entry :: "(nat \<Rightarrow> byte list) \<Rightarrow> nat \<Rightarrow> nat option \<Rightarrow> int" where
  "inode_of_entry d sect0 r = (case r of None \<Rightarrow> 0 | Some k \<Rightarrow> dent_inode d sect0 k)"

lemma find_app: "find P (xs @ ys) = (case find P xs of Some k \<Rightarrow> Some k | None \<Rightarrow> find P ys)"
  by (induction xs) auto

lemma memcmp_local_0: "memcmp_local f p m = 0 \<longleftrightarrow> f = map (\<lambda>i. m (p + of_nat i)) [0..<length f]"
proof (induction f arbitrary: p)
  case (Cons b f)
  have e: "map (\<lambda>i. m (p + of_nat i)) [0..<length (b # f)] = m p # map (\<lambda>i. m (p + 1 + of_nat i)) [0..<length f]"
    by (simp add: map_upt_Suc add.assoc del: upt_Suc)
  have "sint b - sint (m p) \<noteq> 0" if "b \<noteq> m p" using that by (metis eq_iff_diff_eq_0 signed_word_eqI)
  then show ?case unfolding e using Cons.IH[of "p + 1"] by auto
qed simp

lemma dentry_bytes:
  assumes "j < 32"
  shows "map (\<lambda>i. m (dentry j + 4 + of_nat i)) [0..<12] = take 12 (drop (16 * j + 4) (buf_sect m 0))"
proof (rule nth_equalityI)
  fix i assume "i < length (map (\<lambda>i. m (dentry j + 4 + of_nat i)) [0..<12])"
  then have i: "i < 12" by simp
  have a: "dentry j + 4 + of_nat i = FSBUF + of_nat (16 * j + 4 + i)" by (simp add: dentry_def)
  have "map (\<lambda>i. m (dentry j + 4 + of_nat i)) [0..<12] ! i = m (dentry j + 4 + of_nat i)" using i by simp
  moreover have "take 12 (drop (16 * j + 4) (buf_sect m 0)) ! i = fsbuf_byte m (16 * j + 4 + i)" using i assms by simp
  ultimately show "map (\<lambda>i. m (dentry j + 4 + of_nat i)) [0..<12] ! i = take 12 (drop (16 * j + 4) (buf_sect m 0)) ! i"
    unfolding a fsbuf_byte_def by (rule trans[OF _ sym])
qed (use assms in simp)

lemma name_field_length [simp]: "length (name_field t) = 12"
  by (simp add: name_field_def)

lemma entry_match:
  assumes "j < 32" "length f = 12" "buf_sect m 0 = d (sect0 + i)"
  shows "(memcmp_local f (dentry j + 4) m = 0) = (dent_name d sect0 (32 * i + j) = f)"
  unfolding memcmp_local_0 assms(2) dentry_bytes[OF assms(1)] assms(3) dent_name_def using assms(1) by auto

lemma entry_inode:
  assumes "j < 32" "buf_sect m 0 = d (sect0 + i)"
  shows "de_inode m j = dent_inode d sect0 (32 * i + j)"
  using rd32_buf[of "16 * j" m] assms by (simp add: de_inode_def dent_inode_def dentry_def)

lemma entry_named_Cons:
  "lo < n \<Longrightarrow> entry_named d sect0 f lo n = (if dent_name d sect0 lo = f then Some lo else entry_named d sect0 f (Suc lo) n)"
  by (simp add: entry_named_def upt_conv_Cons)

lemma search_entries_ok:
  assumes "length f = 12" "buf_sect m 0 = d (sect0 + i)" "j \<le> 32" "32 * i + j \<le> nr"
  shows "search_entries m f (int nr) [j..<32] (int (32 * i + j)) =
    (case entry_named d sect0 f (32 * i + j) (min (Suc nr) (32 * Suc i)) of
       Some k \<Rightarrow> Inl (dent_inode d sect0 k)
     | None \<Rightarrow> Inr (int (min (Suc nr) (32 * Suc i))))"
  using assms(3,4)
proof (induction "32 - j" arbitrary: j)
  case 0
  then show ?case by (simp add: entry_named_def)
next
  case (Suc c)
  then have j: "j < 32" by simp
  then have up: "[j..<32] = j # [Suc j..<32]" by (rule upt_conv_Cons)
  note match = entry_match[where d = d and ?sect0.0 = sect0 and i = i, OF _ assms(1,2)]
  have lt: "32 * i + j < min (Suc nr) (32 * Suc i)" using j Suc.prems(2) by simp
  show ?case
  proof (cases "dent_name d sect0 (32 * i + j) = f")
    case True
    then show ?thesis
      unfolding up entry_named_Cons[OF lt] using match[OF j] entry_inode[where d = d and ?sect0.0 = sect0 and i = i, OF j assms(2)] by simp
  next
    case False
    show ?thesis
    proof (cases "32 * i + j = nr")
      case True
      then have "min (Suc nr) (32 * Suc i) = Suc (32 * i + j)" using j by simp
      then show ?thesis
        unfolding up entry_named_Cons[OF lt] using False True match[OF j] by (simp add: entry_named_def)
    next
      case more: False
      have c: "c = 32 - Suc j" using Suc.hyps(2) by simp
      from Suc.hyps(1)[OF c] more Suc.prems(2) j show ?thesis
        unfolding up entry_named_Cons[OF lt] using False match[OF j] by (simp add: add.commute)
    qed
  qed
qed


subsection \<open>search_file\<close>

context block_device begin

lemma search_sects_ok:
  assumes "ready s" "flat_natives (proc_table s)" "sect0 + n \<le> 2 ^ 22" "length f = 12" "i \<le> n" "32 * i \<le> nr"
  shows "\<exists>t. search_sects rpc ROOT_DEV (int sect0) f (int nr) (map int [i..<n]) (int (32 * i)) s =
      Inr (inode_of_entry (disk s) sect0 (entry_named (disk s) sect0 f (32 * i) (min (Suc nr) (32 * n))), t) \<and>
    disk_frame s t \<and> ready t \<and> disk t = disk s"
  using assms(1,2,5,6)
proof (induction "n - i" arbitrary: i s)
  case 0
  then have "entry_named (disk s) sect0 f (32 * i) (min (Suc nr) (32 * n)) = None" by (simp add: entry_named_def)
  then show ?case using 0 disk_frame_mem[of s "kmem s"] by (intro exI[of _ s]) (simp add: inode_of_entry_def op_defs)
next
  case (Suc c)
  then have i: "i < n" by simp
  then have up: "map int [i..<n] = int i # map int [Suc i..<n]" by (simp add: upt_conv_Cons)
  obtain u where u: "RD_SECT rpc ROOT_DEV (int sect0 + int i) s = Inr ((), u)" "disk_frame s u"
    "kmem u = load_sects (disk s) (nat (int sect0 + int i)) (Suc 0) (kmem s)" "ready u" "disk u = disk s"
    by (rule RD_ok[OF Suc.prems(1,2), of "int sect0 + int i"]) (use i assms(3) in auto)
  have "nat (int sect0 + int i) = sect0 + i" by simp
  then have b: "buf_sect (kmem u) 0 = disk s (sect0 + i)" using u(3) sector_length[of s "sect0 + i"] by (simp add: buf_sect_load1)
  let ?m = "min (Suc nr) (32 * Suc i)"
  have le: "32 * i \<le> ?m" "?m \<le> min (Suc nr) (32 * n)" using Suc.prems(4) i by simp_all
  have "entry_named (disk s) sect0 f (32 * i) (min (Suc nr) (32 * n)) =
      (case entry_named (disk s) sect0 f (32 * i) ?m of Some k \<Rightarrow> Some k
       | None \<Rightarrow> entry_named (disk s) sect0 f ?m (min (Suc nr) (32 * n)))"
    unfolding entry_named_def find_app[symmetric] using le by (metis upt_add_eq_append le_Suc_ex)
  note split = this
  have se: "search_entries (kmem u) f (int nr) [0..<32] (int (32 * i)) =
    (case entry_named (disk s) sect0 f (32 * i) ?m of Some k \<Rightarrow> Inl (dent_inode (disk s) sect0 k) | None \<Rightarrow> Inr (int ?m))"
    using search_entries_ok[where d = "disk s" and ?sect0.0 = sect0 and i = i, OF assms(4) b, of 0 nr] Suc.prems(4) by simp
  show ?case
  proof (cases "entry_named (disk s) sect0 f (32 * i) ?m")
    case (Some k)
    then show ?thesis unfolding up split
      using u se by (intro exI[of _ u]) (simp add: inode_of_entry_def op_defs)
  next
    case None
    then have se: "search_entries (kmem u) f (int nr) [0..<32] (int (32 * i)) = Inr (int ?m)" using se by simp
    show ?thesis
    proof (cases "nr < 32 * Suc i")
      case True
      then have m: "?m = Suc nr" "min (Suc nr) (32 * n) = Suc nr" using i by simp_all
      have "entry_named (disk s) sect0 f ?m (min (Suc nr) (32 * n)) = None" unfolding m by (simp add: entry_named_def)
      then show ?thesis unfolding up split None
        using u se m(1) by (intro exI[of _ u]) (simp add: inode_of_entry_def op_defs)
    next
      case False
      then have m: "?m = 32 * Suc i" by simp
      have c: "c = n - Suc i" "Suc i \<le> n" "32 * Suc i \<le> nr" using Suc.hyps(2) i False by simp_all
      have ft: "flat_natives (proc_table u)" using Suc.prems(2) disk_frameD(1)[OF u(2)] by simp
      from Suc.hyps(1)[OF c(1) u(4) ft c(2,3)] obtain t where
        t: "search_sects rpc ROOT_DEV (int sect0) f (int nr) (map int [Suc i..<n]) (int (32 * Suc i)) u =
          Inr (inode_of_entry (disk u) sect0 (entry_named (disk u) sect0 f (32 * Suc i) (min (Suc nr) (32 * n))), t)"
        "disk_frame u t" "ready t" "disk t = disk u" by (elim exE conjE)
      have "search_sects rpc ROOT_DEV (int sect0) f (int nr) (map int [i..<n]) (int (32 * i)) s =
          search_sects rpc ROOT_DEV (int sect0) f (int nr) (map int [Suc i..<n]) (int (32 * Suc i)) u"
        unfolding up using u(1) se False by (simp only: search_sects.simps m) (simp add: op_defs)
      moreover have "entry_named (disk s) sect0 f (32 * i) (min (Suc nr) (32 * n)) =
          entry_named (disk s) sect0 f (32 * Suc i) (min (Suc nr) (32 * n))"
        unfolding split None option.case unfolding m ..
      ultimately show ?thesis
        using t(1,3,4) u(5) disk_frame_trans[OF u(2) t(2)] by (intro exI[of _ t]) simp
    qed
  qed
qed

end
text \<open>
  The directory in an inode: its first sector, how many sectors it has and how many entries,
  and how many entries \<open>search_file\<close> looks at. The count is tested after the comparison, so
  when the last sector has room for it one entry behind the directory is compared as well.
\<close>

definition dir_ok :: "inode \<Rightarrow> nat \<Rightarrow> nat \<Rightarrow> bool" where
  "dir_ok x sect0 n = (i_dev x = ROOT_DEV \<and> i_start_sect x = of_nat sect0 \<and> n = (unat (i_size x) + 511) div 512 \<and>
     unat (i_size x) < 2 ^ 30 \<and> sect0 + n \<le> 2 ^ 22)"

definition dir_searched :: "inode \<Rightarrow> nat" where
  "dir_searched x = min (Suc (unat (i_size x) div 16)) (32 * ((unat (i_size x) + 511) div 512))"

lemma dir_counts:
  assumes "dir_ok x sect0 n"
  shows "sint (i_start_sect x) = int sect0" "dir_sects x = int n" "dir_dentries x = int (unat (i_size x) div 16)"
proof -
  have sz: "unat (i_size x) < 2 ^ 30" and s0: "sect0 < 2 ^ 31" using assms by (auto simp: dir_ok_def)
  have sint_nat: "sint (w :: u32) = int (unat w)" if "unat w < 2 ^ 31" for w
  proof -
    have "int (unat w) < int (2 ^ 31)" using that by (simp only: of_nat_less_iff)
    then have "s32 (int (unat w)) = int (unat w)" by (intro s32_id order_trans[OF _ of_nat_0_le_iff]) simp_all
    then show ?thesis by (simp add: s32_def)
  qed
  have "unat (of_nat sect0 :: u32) = sect0" using s0 by (simp add: unat_of_nat)
  then show "sint (i_start_sect x) = int sect0"
    using assms s0 sint_nat[of "of_nat sect0"] by (simp add: dir_ok_def)
  have "unat (i_size x + 511) = unat (i_size x) + 511" using sz by (subst unat_plus_simple[THEN iffD1]) (auto simp: word_le_nat_alt unat_word_ariths)
  moreover have "i_size x + 512 - 1 = i_size x + 511" by simp
  ultimately have "unat ((i_size x + 512 - 1) div 512) = n"
    using assms by (simp only: dir_ok_def unat_div_distrib) simp
  moreover have "n < 2 ^ 31" using assms by (simp add: dir_ok_def)
  ultimately show "dir_sects x = int n" using sint_nat unfolding dir_sects_def by metis
  have "unat (i_size x div DIR_ENTRY_SIZE) = unat (i_size x) div 16" by (simp add: unat_div_distrib)
  then show "dir_dentries x = int (unat (i_size x) div 16)"
    using sint_nat[of "i_size x div DIR_ENTRY_SIZE"] sz unfolding dir_dentries_def by simp
qed


context block_device begin

lemma search_file_ok:
  assumes "ready s" "flat_natives (proc_table s)" "0 \<notin> set nm" "0x2F \<notin> set nm" "nm \<noteq> []"
    "dir_ok (inode_table s (myroot_inode s)) sect0 n"
  shows "\<exists>t. search_file rpc (0x2F # nm @ [0]) s =
      Inr (inode_of_entry (disk s) sect0 (entry_named (disk s) sect0 (name_field (take MAX_FILENAME_LEN nm)) 0
        (dir_searched (inode_table s (myroot_inode s)))), t) \<and>
    disk_frame s t \<and> ready t \<and> disk t = disk s"
proof -
  let ?x = "inode_table s (myroot_inode s)"
  note c = dir_counts[OF assms(6)]
  have n: "sect0 + n \<le> 2 ^ 22" "dir_searched ?x = min (Suc (unat (i_size ?x) div 16)) (32 * n)" "i_dev ?x = ROOT_DEV"
    using assms(6) by (simp_all add: dir_ok_def dir_searched_def)
  have up: "[0..int n - 1] = map int [0..<n]"
    by (induction n) (simp_all add: upto_rec2)
  have "strip_path (0x2F # nm @ [0]) s = Inr (Some (take MAX_FILENAME_LEN nm, myroot_inode s), s)"
    using assms(3,4) by (simp add: strip_path_def strip_loop_plain)
  then have "search_file rpc (0x2F # nm @ [0]) s =
      search_sects rpc ROOT_DEV (int sect0) (name_field (take MAX_FILENAME_LEN nm)) (int (unat (i_size ?x) div 16)) (map int [0..<n]) (int (32 * 0)) s"
    using assms(5) c n(3) up by (simp add: search_file_def op_defs)
  then show ?thesis
    using search_sects_ok[where i = 0 and nr = "unat (i_size ?x) div 16", OF assms(1,2) n(1) name_field_length le0]
    unfolding n(2) by simp
qed

end

text \<open>
  C26. \<open>search_file\<close> of a one-component path answers the inode number of the first entry of the
  root directory on the disk that has the name (its first twelve characters), or 0 when none of
  the entries it looks at has it; it changes no table and nothing on the disk.
\<close>

theorem search_file_finds_entry:
  assumes "block_device rpc disk ready" "ready s" "flat_natives (proc_table s)"
    "0 \<notin> set nm" "0x2F \<notin> set nm" "nm \<noteq> []" "dir_ok (inode_table s (myroot_inode s)) sect0 n"
  shows "\<exists>t. search_file rpc (0x2F # nm @ [0]) s =
      Inr (inode_of_entry (disk s) sect0 (entry_named (disk s) sect0 (name_field (take MAX_FILENAME_LEN nm)) 0
        (dir_searched (inode_table s (myroot_inode s)))), t) \<and>
    disk_frame s t \<and> ready t \<and> disk t = disk s"
  using block_device.search_file_ok[OF assms] .

text \<open>The example's root directory, with the entries that \<open>mkfs\<close> writes.\<close>

definition dir_bytes :: "nat \<Rightarrow> byte" where
  "dir_bytes i = (let es = [1 # [0, 0, 0] @ name_dot @ replicate 11 0, 2 # [0, 0, 0] @ name_tty 0 @ replicate 4 0,
       6 # [0, 0, 0] @ name_cmd_tar @ replicate 5 0] in
     if i < 48 then concat es ! i else 0)"

definition dir_example :: "drive fs_hd" where
  "dir_example = fs_example\<lparr>
     inode_table := (inode_table fs_example)(0 := (inode_table fs_example 0)\<lparr>i_size := 48\<rparr>),
     g_hw := (g_hw fs_example)\<lparr>d_data := (d_data (g_hw fs_example))(0x1000 + 300 := dir_bytes)\<rparr>\<rparr>"

lemma dir_example_ok:
  "fs_ready (\<lambda>h. d_phase h = Idle) dir_example" "flat_natives (proc_table dir_example)"
  "dir_ok (inode_table dir_example (myroot_inode dir_example)) 300 1" "dir_searched (inode_table dir_example (myroot_inode dir_example)) = 4"
  "fs_disk drive_sector dir_example 300 = map dir_bytes [0..<512]"
  by (simp_all add: dir_example_def fs_example_def kstate.defs fs_ready_def root_base_def dir_ok_def dir_searched_def fs_disk_def drive_sector_def
      del: upt_rec_numeral)

lemma dir_slice: "i + n \<le> 512 \<Longrightarrow> take n (drop i (map dir_bytes [0..<512])) = map dir_bytes [i..<i + n]"
  by (simp add: drop_map take_map del: upt_Suc upt_rec_numeral)

lemma dir_example_names:
  "dent_name (fs_disk drive_sector dir_example) 300 0 = map dir_bytes [4..<16]"
  "dent_name (fs_disk drive_sector dir_example) 300 1 = map dir_bytes [20..<32]"
  "dent_name (fs_disk drive_sector dir_example) 300 2 = map dir_bytes [36..<48]"
  by (simp_all add: dent_name_def dir_example_ok(5) dir_slice del: upt_Suc upt_rec_numeral)

lemma dir_bytes_low:
  "dir_bytes 4 = 0x2E" "dir_bytes 20 = 0x64" "map dir_bytes [36..<48] = name_cmd_tar @ replicate 5 0"
  by (simp_all add: dir_bytes_def name_cmd_tar_def name_dot_def name_tty_def nth_append numeral_eq_Suc)

lemma dir_example_entry:
  "entry_named (fs_disk drive_sector dir_example) 300 (name_cmd_tar @ replicate 5 0) 0 4 = Some 2"
proof -
  have "map dir_bytes [4..<16] \<noteq> name_cmd_tar @ replicate 5 0" "map dir_bytes [20..<32] \<noteq> name_cmd_tar @ replicate 5 0"
    using dir_bytes_low(1,2) by (simp_all add: name_cmd_tar_def upt_conv_Cons del: upt_Suc upt_rec_numeral)
  then show ?thesis
    by (simp add: entry_named_Cons numeral_2_eq_2[symmetric] dir_example_names dir_example_names(2)[unfolded One_nat_def] dir_bytes_low(3) del: upt_Suc upt_rec_numeral)
qed

lemma dir_example_inode: "inode_of_entry (fs_disk drive_sector dir_example) 300 (Some 2) = 6"
proof -
  have b: "dir_bytes 32 = 6" "dir_bytes 33 = 0" "dir_bytes 34 = 0" "dir_bytes 35 = 0"
    by (simp_all add: dir_bytes_def name_dot_def name_tty_def name_cmd_tar_def nth_append)
  show ?thesis
    by (simp add: inode_of_entry_def dent_inode_def dir_example_ok(5) le32_def b del: upt_Suc upt_rec_numeral)
qed

theorem search_file_finds_entry_witness:
  "\<exists>t. search_file example_rpc (0x2F # name_cmd_tar @ [0]) dir_example = Inr (6, t)"
proof -
  have nm: "0 \<notin> set name_cmd_tar" "0x2F \<notin> set name_cmd_tar" "name_cmd_tar \<noteq> []" by (simp_all add: name_cmd_tar_def)
  have f: "name_field (take MAX_FILENAME_LEN name_cmd_tar) = name_cmd_tar @ replicate 5 0"
    by (simp add: name_field_def name_cmd_tar_def)
  show ?thesis
    using search_file_finds_entry[OF drive_fs.block_device_axioms[of "lba_cmd 0 0 0 0" "\<lambda>_ _. fail (Spin ''no driver'')"]
      dir_example_ok(1,2) nm dir_example_ok(3)]
    unfolding dir_example_ok(4) f dir_example_entry dir_example_inode by (elim exE conjE) (rule exI)
qed

end
