(* ===== verification/Fs_Rw.thy ===== *)
theory Fs_Rw
  imports Fs_Maps
begin

section \<open>Reading and writing files\<close>

text \<open>
  \<open>do_rw\<close> of fs/opera.c against files as lists of bytes. The device is one array of bytes behind
  the contract \<open>block_device\<close>; the contents of a file are the first \<open>i_size\<close> bytes of its
  sectors. The transfers considered need one round of the loop over chunks (the block buffer
  holds more than the 255 sectors one request to the driver can ask for).
\<close>

subsection \<open>The device and the files as bytes\<close>

definition dev_byte :: "(nat \<Rightarrow> byte list) \<Rightarrow> nat \<Rightarrow> byte" where
  "dev_byte d j = d (j div 512) ! (j mod 512)"

definition file_start :: "inode \<Rightarrow> nat" where
  "file_start x = 512 * unat (i_start_sect x)"

definition file_bytes :: "(nat \<Rightarrow> byte list) \<Rightarrow> inode \<Rightarrow> byte list" where
  "file_bytes d x = map (\<lambda>i. dev_byte d (file_start x + i)) [0..<unat (i_size x)]"

text \<open>Overwriting a part of a file, which may extend it.\<close>

definition splice :: "nat \<Rightarrow> 'b list \<Rightarrow> 'b list \<Rightarrow> 'b list" where
  "splice pos new old = take pos old @ new @ drop (pos + length new) old"

lemma dev_byte_sector: "q < 512 \<Longrightarrow> dev_byte d (512 * n + q) = d n ! q"
  by (simp add: dev_byte_def)

lemma load_sects_byte:
  assumes "q < 512 * k" "q < 0x100000"
  shows "load_sects d n k m (FSBUF + of_nat q) = dev_byte d (512 * n + q)"
proof -
  have "unat (of_nat q :: addr) = q" using assms(2) by (simp add: unat_of_nat)
  then show ?thesis using assms(1) by (simp add: load_sects_def dev_byte_def)
qed

lemma load_sects_outside:
  assumes "x \<notin> region FSBUF 0x100000" "k < 256"
  shows "load_sects d n k m x = m x"
proof -
  have "\<not> unat (x - FSBUF) < 0x100000" using assms(1) by (simp only: region_def mem_Collect_eq not_False_eq_True)
  moreover have "512 * k \<le> 0x100000" using assms(2) by simp
  ultimately have "\<not> unat (x - FSBUF) < 512 * k" by linarith
  then show ?thesis by (simp only: load_sects_def Let_def if_False)
qed

lemma dev_byte_store:
  assumes "k < 256"
  shows "dev_byte (store_sects m n k d) j =
    (if 512 * n \<le> j \<and> j < 512 * (n + k) then m (FSBUF + of_nat (j - 512 * n)) else dev_byte d j)"
proof -
  have in_range: "512 * n \<le> j \<and> j < 512 * (n + k) \<longleftrightarrow> n \<le> j div 512 \<and> j div 512 < n + k"
    using less_eq_div_iff_mult_less_eq[of 512 n j] div_less_iff_less_mult[of 512 j "n + k"] by (simp add: mult.commute)
  show ?thesis
  proof (cases "n \<le> j div 512 \<and> j div 512 < n + k")
    case True
    have e: "512 * (j div 512 - n) + j mod 512 = j - 512 * n"
      using True div_mult_mod_eq[of j 512] by (simp add: diff_mult_distrib2)
    have "FSBUF + of_nat (512 * (j div 512 - n)) + of_nat (j mod 512) = FSBUF + (of_nat (j - 512 * n) :: addr)"
      unfolding e[symmetric] by (simp only: add.assoc of_nat_add)
    then have "buf_sect m (j div 512 - n) ! (j mod 512) = m (FSBUF + of_nat (j - 512 * n))"
      unfolding buf_sect_def bytes_at_def by (simp only: length_upt diff_zero mod_less_divisor zero_less_numeral nth_map nth_upt add_0)
    then show ?thesis using True unfolding in_range dev_byte_def store_sects_def by simp
  qed (auto simp: in_range dev_byte_def store_sects_def)
qed

subsection \<open>One round of the loop\<close>

lemma linear_native: "flat_natives pt \<Longrightarrow> linear pt TASK_FS va = va"
  by (simp add: linear_def flat_natives_def)

text \<open>What a transfer leaves as it was.\<close>

definition rw_frame :: "'a fstate_scheme \<Rightarrow> 'a fstate_scheme \<Rightarrow> bool" where
  "rw_frame s t = (proc_table t = proc_table s \<and> inode_table t = inode_table s \<and> super_blocks t = super_blocks s \<and>
     pcaller t = pcaller s \<and> fs_msg t = fs_msg s \<and> myroot_inode t = myroot_inode s)"

definition moved :: "nat \<Rightarrow> nat \<Rightarrow> 'a fstate_scheme \<Rightarrow> nat \<Rightarrow> file_desc" where
  "moved f n s = (f_desc_table s)(f := (f_desc_table s f)\<lparr>fd_pos := fd_pos (f_desc_table s f) + int n\<rparr>)"

lemma buf_part:
  assumes "off + len \<le> 512 * k" "k < 256"
  shows "region (FSBUF + of_nat off) len \<subseteq> region FSBUF 0x100000"
  using assms by (intro region_sub[of _ _ off]) simp_all

lemma len_word: "len < 2 ^ 31 \<Longrightarrow> unat (u32_int (int len)) = len"
  by (simp add: u32_int_def unat_of_nat)

context block_device begin

lemma fd_own [simp]: "disk (s\<lparr>f_desc_table := m\<rparr>) = disk s" "ready (s\<lparr>f_desc_table := m\<rparr>) = ready s"
  using own_state[of "s\<lparr>f_desc_table := m\<rparr>" s] by simp_all

lemma round_read:
  assumes "ready s" "flat_natives (proc_table s)" "0 < k" "k < 256" "n + k \<le> 2 ^ 22" "off + len \<le> 512 * k"
    "m_type msg = READ" "m_source msg \<in> pids" "region (linear (proc_table s) (m_source msg) (msg_BUF msg)) len \<inter> region FSBUF 0x100000 = {}"
  shows "\<exists>t. rw_round rpc ROOT_DEV msg f (int k) (int n) (int off) 0 (int len) s = Inr ((), t) \<and> ready t \<and> disk t = disk s \<and>
    rw_frame s t \<and> f_desc_table t = moved f len s \<and>
    (\<forall>i < len. kmem t (linear (proc_table s) (m_source msg) (msg_BUF msg) + of_nat i) = dev_byte (disk s) (512 * n + off + i)) \<and>
    (\<forall>x. x \<notin> region (linear (proc_table s) (m_source msg) (msg_BUF msg)) len \<union> region FSBUF 0x100000 \<longrightarrow> kmem t x = kmem s x)"
proof -
  let ?L = "linear (proc_table s) (m_source msg) (msg_BUF msg)" and ?F = "FSBUF + of_nat off"
  obtain t where t: "rw_sector rpc ROOT_DEV (sect_pos (int n)) TASK_FS FSBUF (512 * int k) DEV_READ s = Inr ((), t)"
    "disk_frame s t" "kmem t = load_sects (disk s) n k (kmem s)" "ready t" "disk t = disk s"
    using read_sects[OF assms(1-5)] by blast
  let ?m = "phys_copy ?L ?F (int len) (kmem t)"
  let ?u = "t\<lparr>kmem := ?m, f_desc_table := moved f len s\<rparr>"
  have len: "len < 2 ^ 31" using assms(4,6) by simp
  have apart: "region ?L len \<inter> region ?F len = {}" using buf_part[OF assms(6,4)] assms(9) by blast
  have m: "?m = (\<lambda>x. if x \<in> region ?L len then kmem t (?F + (x - ?L)) else kmem t x)"
    unfolding phys_copy_def len_word[OF len] using len apart by (intro memcpy_eq) simp_all
  have "copy_between (m_source msg) (msg_BUF msg) TASK_FS ?F (int len) t = Inr ((), t\<lparr>kmem := ?m\<rparr>)"
    using copy_between_ok[of "m_source msg" TASK_FS t "msg_BUF msg" ?F "int len"] assms(2,8) disk_frameD(1)[OF t(2)]
    by (simp add: linear_native pids_def)
  then have "rw_round rpc ROOT_DEV msg f (int k) (int n) (int off) 0 (int len) s = Inr ((), ?u)"
    using t(1) assms(7) disk_frameD(3)[OF t(2)] by (simp add: rw_round_def op_defs updFD_def moved_def u32_int_def mult.commute)
  moreover have "?m (?L + of_nat i) = dev_byte (disk s) (512 * n + off + i)" if "i < len" for i
  proof -
    have "?L + of_nat i \<in> region ?L len" using that len by (simp add: region_def unat_of_nat)
    then have "?m (?L + of_nat i) = kmem t (?F + of_nat i)" unfolding m by simp
    also have "?F + of_nat i = FSBUF + of_nat (off + i)" by (simp add: add.assoc)
    also have "kmem t (FSBUF + of_nat (off + i)) = dev_byte (disk s) (512 * n + (off + i))"
      unfolding t(3) using that assms(4,6) by (intro load_sects_byte) simp_all
    finally show ?thesis by (simp add: add.assoc)
  qed
  moreover have "?m x = kmem s x" if "x \<notin> region ?L len \<union> region FSBUF 0x100000" for x
  proof -
    have "?m x = kmem t x" unfolding m using that by simp
    then show ?thesis using that assms(4) by (simp add: t(3) load_sects_outside)
  qed
  moreover have "rw_frame s ?u" using disk_frameD[OF t(2)] by (simp add: rw_frame_def)
  ultimately show ?thesis using t(4,5) by (intro exI[of _ ?u]) simp
qed

text \<open>The caller's part put over the sectors read into the buffer.\<close>

lemma part_copied:
  assumes "k < 256" "off + len \<le> 512 * k" "q < 512 * k" "region L len \<inter> region FSBUF 0x100000 = {}"
  shows "phys_copy (FSBUF + of_nat off) L (int len) (load_sects d n k m) (FSBUF + of_nat q) =
    (if off \<le> q \<and> q < off + len then m (L + of_nat (q - off)) else dev_byte d (512 * n + q))"
proof -
  let ?F = "FSBUF + of_nat off" and ?l = "load_sects d n k m"
  have len: "len < 2 ^ 31" using assms(1,2) by simp
  have apart: "region ?F len \<inter> region L len = {}" using buf_part[OF assms(2,1)] assms(4) by blast
  have m: "phys_copy ?F L (int len) ?l = (\<lambda>x. if x \<in> region ?F len then ?l (L + (x - ?F)) else ?l x)"
    unfolding phys_copy_def len_word[OF len] using len apart by (intro memcpy_eq) simp_all
  have un: "unat (of_nat (q - off) :: addr) = q - off" using assms(1,3) by (simp add: unat_of_nat)
  show ?thesis
  proof (cases "off \<le> q \<and> q < off + len")
    case in_part: True
    then have e: "FSBUF + of_nat q = ?F + of_nat (q - off)" by (simp add: of_nat_diff)
    have lt: "q - off < len" using in_part by linarith
    then have "?F + of_nat (q - off) \<in> region ?F len" "L + of_nat (q - off) \<in> region L len" using un by (simp_all add: region_def)
    moreover from this have "L + of_nat (q - off) \<notin> region FSBUF 0x100000" using assms(4) by blast
    ultimately show ?thesis using in_part assms(1) unfolding e m by (simp add: load_sects_outside)
  next
    case out: False
    have "FSBUF + of_nat q \<notin> region ?F len"
    proof
      assume "FSBUF + of_nat q \<in> region ?F len"
      then obtain i where i: "i < len" "FSBUF + of_nat q = ?F + (of_nat i :: addr)" using len region_iff[of len] by auto
      then have "(of_nat q :: addr) = of_nat (off + i)" by (simp add: add.assoc)
      moreover have "unat (of_nat q :: addr) = q" "unat (of_nat (off + i) :: addr) = off + i"
        using assms(1-3) i(1) by (simp_all only: unat_of_nat, simp_all)
      ultimately have "q = off + i" by metis
      then show False using out i(1) by simp
    qed
    then have "phys_copy ?F L (int len) ?l (FSBUF + of_nat q) = ?l (FSBUF + of_nat q)" unfolding m by simp
    also have "\<dots> = dev_byte d (512 * n + q)" using assms(1,3) by (intro load_sects_byte) simp_all
    finally show ?thesis unfolding if_not_P[OF out] .
  qed
qed

lemma round_write:
  assumes "ready s" "flat_natives (proc_table s)" "0 < k" "k < 256" "n + k \<le> 2 ^ 22" "off + len \<le> 512 * k"
    "m_type msg = WRITE" "m_source msg \<in> pids" "region (linear (proc_table s) (m_source msg) (msg_BUF msg)) len \<inter> region FSBUF 0x100000 = {}"
  shows "\<exists>t. rw_round rpc ROOT_DEV msg f (int k) (int n) (int off) 0 (int len) s = Inr ((), t) \<and> ready t \<and>
    rw_frame s t \<and> f_desc_table t = moved f len s \<and>
    (\<forall>j. dev_byte (disk t) j = (if 512 * n + off \<le> j \<and> j < 512 * n + off + len
       then kmem s (linear (proc_table s) (m_source msg) (msg_BUF msg) + of_nat (j - (512 * n + off))) else dev_byte (disk s) j)) \<and>
    (\<forall>x. x \<notin> region FSBUF 0x100000 \<longrightarrow> kmem t x = kmem s x)"
proof -
  let ?L = "linear (proc_table s) (m_source msg) (msg_BUF msg)" and ?F = "FSBUF + of_nat off"
  obtain t where t: "rw_sector rpc ROOT_DEV (sect_pos (int n)) TASK_FS FSBUF (512 * int k) DEV_READ s = Inr ((), t)"
    "disk_frame s t" "kmem t = load_sects (disk s) n k (kmem s)" "ready t" "disk t = disk s"
    using read_sects[OF assms(1-5)] by blast
  let ?m = "phys_copy ?F ?L (int len) (kmem t)"
  let ?t = "t\<lparr>kmem := ?m\<rparr>"
  have len: "len < 2 ^ 31" using assms(4,6) by simp
  have apart: "region ?F len \<inter> region ?L len = {}" using buf_part[OF assms(6,4)] assms(9) by blast
  have m: "?m = (\<lambda>x. if x \<in> region ?F len then kmem t (?L + (x - ?F)) else kmem t x)"
    unfolding phys_copy_def len_word[OF len] using len apart by (intro memcpy_eq) simp_all
  have "ready ?t" "flat_natives (proc_table ?t)" using t(4) assms(2) disk_frameD(1)[OF t(2)] by simp_all
  then obtain v where v: "rw_sector rpc ROOT_DEV (sect_pos (int n)) TASK_FS FSBUF (512 * int k) DEV_WRITE ?t = Inr ((), v)"
    "disk_frame ?t v" "kmem v = ?m" "ready v" "disk v = store_sects ?m n k (disk s)"
    using write_sects[OF _ _ assms(3-5), of ?t] t(5) by auto
  let ?v = "v\<lparr>f_desc_table := moved f len s\<rparr>"
  have frame: "disk_frame s v" by (rule disk_frame_trans[OF t(2) disk_frame_trans[OF disk_frame_mem v(2)]])
  have "copy_between TASK_FS ?F (m_source msg) (msg_BUF msg) (int len) t = Inr ((), ?t)"
    using copy_between_ok[of TASK_FS "m_source msg" t ?F "msg_BUF msg" "int len"] assms(2,8) disk_frameD(1)[OF t(2)]
    by (simp add: linear_native pids_def)
  then have run: "rw_round rpc ROOT_DEV msg f (int k) (int n) (int off) 0 (int len) s = Inr ((), ?v)"
    using t(1) v(1) assms(7) disk_frameD(3)[OF frame] by (simp add: rw_round_def op_defs updFD_def moved_def u32_int_def mult.commute)
  have byte: "dev_byte (disk v) j = (if 512 * n + off \<le> j \<and> j < 512 * n + off + len
       then kmem s (?L + of_nat (j - (512 * n + off))) else dev_byte (disk s) j)" for j
  proof (cases "512 * n \<le> j \<and> j < 512 * (n + k)")
    case True
    then obtain q where q: "j = 512 * n + q" using le_Suc_ex[of "512 * n" j] by blast
    have "512 * (n + k) = 512 * n + 512 * k" by (rule add_mult_distrib2)
    then have q: "j = 512 * n + q" "q < 512 * k" using True q by simp_all
    have "dev_byte (disk v) j = ?m (FSBUF + of_nat q)" using True assms(4) by (simp add: v(5) dev_byte_store q(1))
    also have "\<dots> = (if off \<le> q \<and> q < off + len then kmem s (?L + of_nat (q - off)) else dev_byte (disk s) j)"
      unfolding t(3) q(1) by (rule part_copied[OF assms(4,6) q(2) assms(9)])
    finally show ?thesis using q(1) by auto
  next
    case False
    have "dev_byte (disk v) j = dev_byte (disk s) j" unfolding v(5) dev_byte_store[OF assms(4)] if_not_P[OF False] ..
    moreover have "\<not> (512 * n + off \<le> j \<and> j < 512 * n + off + len)"
    proof
      assume j: "512 * n + off \<le> j \<and> j < 512 * n + off + len"
      have "512 * n + off + len \<le> 512 * (n + k)" using assms(6) by (simp add: add_mult_distrib2)
      then have "512 * n \<le> j" "j < 512 * (n + k)" using j by (blast intro: add_leD1 less_le_trans)+
      then show False using False by blast
    qed
    ultimately show ?thesis by (simp only: if_False)
  qed
  have "kmem v x = kmem s x" if "x \<notin> region FSBUF 0x100000" for x
  proof -
    have "x \<notin> region ?F len" using that buf_part[OF assms(6,4)] by blast
    then have "?m x = kmem t x" unfolding m by simp
    then show ?thesis using that assms(4) unfolding v(3) by (simp add: t(3) load_sects_outside)
  qed
  moreover have "rw_frame s ?v" using disk_frameD[OF frame] by (simp add: rw_frame_def)
  ultimately show ?thesis using run byte v(4) by (intro exI[of _ ?v]) simp
qed

end

subsection \<open>A transfer of one round\<close>

lemma sint_of_nat: "n < 2 ^ 31 \<Longrightarrow> sint (of_nat n :: u32) = int n"
  using s32_id[of "int n"] by (simp add: s32_def)

lemma sint_sector:
  assumes "unat st + c < 2 ^ 31"
  shows "sint (st + u32_int (int c)) = int (unat st + c)"
proof -
  have "st + u32_int (int c) = of_nat (unat st + c)" by (simp add: u32_int_def)
  then show ?thesis using sint_of_nat[OF assms] by simp
qed

lemma one_chunk: "0 < k \<Longrightarrow> chunk_starts (int a) (int a + int k - 1) (int k) = [int a]"
  by (simp add: chunk_starts_def)

text \<open>What follows the loop.\<close>

definition grow_file :: "'a fstate_scheme rpc \<Rightarrow> nat \<Rightarrow> nat \<Rightarrow> int \<Rightarrow> ('a fstate_scheme, int) op" where
  "grow_file rpc f p r =
     bindE (getsE (\<lambda>s. fd_pos (f_desc_table s f))) (\<lambda>fdp.
     bindE (getsE (\<lambda>s. i_size (inode_table s p))) (\<lambda>sz.
     bindE (whenE (u32_int fdp > sz)
       (bindE (updI p (\<lambda>x. x\<lparr>i_size := u32_int fdp\<rparr>)) (\<lambda>_. sync_inode rpc p))) (\<lambda>_.
     ret r)))"

lemma rw_file_one:
  assumes "i_mode x = I_REGULAR" "m_type msg = READ \<or> m_type msg = WRITE" "msg_CNT msg = int len"
    "sint (if m_type msg = READ then min_u32 (u32_int (int pos + int len)) (i_size x)
       else min_u32 (u32_int (int pos + int len)) (i_nr_sects x * 512)) = int e"
    "unat (i_start_sect x) + e div 512 < 2 ^ 22" "e div 512 = pos div 512 + k - 1" "0 < k" "k < 256"
  shows "rw_file rpc f p x (int pos) msg =
    bindE (rw_round rpc (i_dev x) msg f (int k) (int (unat (i_start_sect x) + pos div 512)) (int (pos mod 512)) 0
      (int (min len (512 * k - pos mod 512)))) (\<lambda>_. grow_file rpc f p (int (min len (512 * k - pos mod 512))))"
proof -
  let ?a = "unat (i_start_sect x) + pos div 512"
  have "pos div 512 \<le> e div 512" using assms(6,7) by simp
  then have lo: "sint (i_start_sect x + u32_int (int pos div 512)) = int ?a"
    and hi: "sint (i_start_sect x + u32_int (int e div 512)) = int (unat (i_start_sect x) + e div 512)"
    using assms(5) sint_sector[of "i_start_sect x" "pos div 512"] sint_sector[of "i_start_sect x" "e div 512"] by (simp_all add: zdiv_int)
  have hi_lo: "int (unat (i_start_sect x) + e div 512) = int ?a + int k - 1" using assms(6,7) by simp
  have chunk: "min (int (unat (i_start_sect x) + e div 512) - int ?a + 1) (FSBUF_SIZE div 512) = int k"
    unfolding hi_lo using assms(8) by simp
  have "pos mod 512 \<le> 512 * k" using assms(7) mod_less_divisor[of 512 pos] by linarith
  then have bytes: "min (int len) (int k * SECTOR_SIZE - int (pos mod 512)) = int (min len (512 * k - pos mod 512))"
    by (simp add: of_nat_diff)
  have off: "c_mod (int pos) SECTOR_SIZE = int (pos mod 512)" by (simp add: zmod_int)
  show ?thesis
    unfolding rw_file_def Let_def assms(3,4) lo hi chunk off unfolding hi_lo one_chunk[OF assms(7)] rw_loop.simps bytes grow_file_def Let_def
    using assms(1,2) by (auto simp: bindE_def op_defs fun_eq_iff split: sum.splits)
qed

subsection \<open>The requests considered\<close>

text \<open>
  A request to move \<open>len\<close> bytes at position \<open>pos\<close> of the open file \<open>f\<close>, whose inode is entry \<open>p\<close>
  of the table: a regular file on the root device, opened for reading and writing, at a
  position that is not behind its end, with a buffer outside the block buffer; within the
  sectors that one request can name.
\<close>

abbreviation (input) rw_buf :: "'a fstate_scheme \<Rightarrow> addr" where
  "rw_buf s \<equiv> linear (proc_table s) (m_source (fs_msg s)) (msg_BUF (fs_msg s))"

definition rw_descriptor :: "'a fstate_scheme \<Rightarrow> nat \<Rightarrow> nat \<Rightarrow> nat \<Rightarrow> bool" where
  "rw_descriptor s f p pos = (pcaller s \<in> pids \<and> 0 \<le> msg_FD (fs_msg s) \<and> msg_FD (fs_msg s) < int NR_FILES \<and>
     filp (proc_table s (pcaller s)) (nat (msg_FD (fs_msg s))) = Some f \<and> f < NR_FILE_DESC \<and>
     f_desc_table s f = \<lparr>fd_mode = O_RDWR, fd_pos = int pos, fd_cnt = fd_cnt (f_desc_table s f), fd_inode = Some p\<rparr> \<and> p < NR_INODE)"

definition rw_extent :: "inode \<Rightarrow> nat \<Rightarrow> nat \<Rightarrow> bool" where
  "rw_extent x pos len = (i_mode x = I_REGULAR \<and> i_dev x = ROOT_DEV \<and> unat (i_size x) < 2 ^ 31 \<and> pos \<le> unat (i_size x) \<and>
     pos + len < 2 ^ 31 \<and> (pos + len) div 512 - pos div 512 < 255 \<and> unat (i_start_sect x) + (pos + len) div 512 < 2 ^ 22)"

definition file_request :: "'a fstate_scheme \<Rightarrow> nat \<Rightarrow> nat \<Rightarrow> nat \<Rightarrow> nat \<Rightarrow> bool" where
  "file_request s f p pos len = (rw_descriptor s f p pos \<and> rw_extent (inode_table s p) pos len \<and>
     msg_CNT (fs_msg s) = int len \<and> m_source (fs_msg s) \<in> pids \<and> region (rw_buf s) len \<inter> region FSBUF 0x100000 = {})"

lemma rw_descriptorD:
  assumes "rw_descriptor s f p pos"
  shows "fd_mode (f_desc_table s f) = O_RDWR" "fd_pos (f_desc_table s f) = int pos" "fd_inode (f_desc_table s f) = Some p"
  using assms unfolding rw_descriptor_def by (metis file_desc.select_convs)+

lemma do_rw_file:
  assumes "file_request s f p pos len"
  shows "do_rw rpc s = rw_file rpc f p (inode_table s p) (int pos) (fs_msg s) s"
proof -
  have d: "rw_descriptor s f p pos" using assms by (simp add: file_request_def)
  show ?thesis
    using assms rw_descriptorD[OF d] by (simp add: file_request_def rw_descriptor_def rw_extent_def do_rw_def filp_of_def callerE_def flag_set_def bindE_def op_defs)
qed

lemma request_position:
  "file_request s f p pos len \<Longrightarrow> fd_pos (moved f n s f) = int (pos + n)"
  using rw_descriptorD(2)[of s f p pos] by (simp add: file_request_def moved_def)

text \<open>The last sector of a transfer that ends at \<open>e\<close>.\<close>

lemma chunk_count:
  fixes pos e :: nat
  assumes "pos \<le> e"
  obtains k where "e div 512 = pos div 512 + k - 1" "0 < k" "512 * k - pos mod 512 = 512 * (e div 512 + 1) - pos"
    "k = e div 512 - pos div 512 + 1"
proof -
  have d: "pos div 512 \<le> e div 512" using assms by (rule div_le_mono)
  have "512 * (e div 512 - pos div 512 + 1) = 512 * (e div 512 + 1) - 512 * (pos div 512)" using d by (simp add: diff_mult_distrib2)
  moreover have "512 * (e div 512 + 1) - 512 * (pos div 512) - pos mod 512 = 512 * (e div 512 + 1) - pos"
    unfolding diff_diff_left mult_div_mod_eq ..
  ultimately show ?thesis using d by (intro that[of "e div 512 - pos div 512 + 1"]) simp_all
qed

lemma min_u32_nat: "a < 2 ^ 32 \<Longrightarrow> b < 2 ^ 32 \<Longrightarrow> min_u32 (of_nat a) (of_nat b) = of_nat (min a b)"
  by (simp add: min_u32_def min_def word_less_nat_alt unat_of_nat)

lemma grow_file_same:
  assumes "fd_pos (f_desc_table t f) = int q" "q \<le> unat (i_size (inode_table t p))"
  shows "grow_file rpc f p r t = Inr (r, t)"
proof -
  have "\<not> u32_int (int q) > i_size (inode_table t p)"
    using order_trans[OF mod_less_eq_dividend assms(2), of "2 ^ 32"] by (simp add: word_less_nat_alt u32_int_def unat_of_nat)
  then show ?thesis using assms(1) by (simp add: grow_file_def bindE_def op_defs)
qed

context block_device begin

lemma do_rw_read:
  assumes "ready s" "flat_natives (proc_table s)" "file_request s f p pos len" "m_type (fs_msg s) = READ"
    "e = min (pos + len) (unat (i_size (inode_table s p)))" "n = min len (512 * (e div 512 + 1) - pos)"
  shows "\<exists>t. do_rw rpc s = grow_file rpc f p (int n) t \<and> ready t \<and> disk t = disk s \<and> rw_frame s t \<and> f_desc_table t = moved f n s \<and>
    (\<forall>i < n. kmem t (rw_buf s + of_nat i) = dev_byte (disk s) (file_start (inode_table s p) + pos + i)) \<and>
    (\<forall>x. x \<notin> region (rw_buf s) len \<union> region FSBUF 0x100000 \<longrightarrow> kmem t x = kmem s x)"
proof -
  let ?x = "inode_table s p" and ?msg = "fs_msg s"
  note r = assms(3)[unfolded file_request_def rw_extent_def]
  have e: "pos \<le> e" "e \<le> pos + len" "e < 2 ^ 31" using r assms(5) by auto
  obtain k where k: "e div 512 = pos div 512 + k - 1" "0 < k" "512 * k - pos mod 512 = 512 * (e div 512 + 1) - pos"
    "k = e div 512 - pos div 512 + 1" by (rule chunk_count[OF e(1)])
  have ediv: "e div 512 \<le> (pos + len) div 512" using e(2) by (rule div_le_mono)
  then have k256: "k < 256" using r k(4) by linarith
  have last: "unat (i_start_sect ?x) + e div 512 < 2 ^ 22" using r ediv by linarith
  have "min_u32 (u32_int (int pos + int len)) (i_size ?x) = of_nat e"
    using min_u32_nat[of "pos + len" "unat (i_size ?x)"] r assms(5) by (simp add: u32_int_def)
  then have pe: "sint (if m_type ?msg = READ then min_u32 (u32_int (int pos + int len)) (i_size ?x)
       else min_u32 (u32_int (int pos + int len)) (i_nr_sects ?x * 512)) = int e"
    using assms(4) sint_of_nat[OF e(3)] by simp
  let ?n0 = "unat (i_start_sect ?x) + pos div 512"
  have n: "min len (512 * k - pos mod 512) = n" using assms(6) k(3) by simp
  have sub: "region (rw_buf s) n \<subseteq> region (rw_buf s) len" using assms(6) by (auto simp: region_def)
  then have apart: "region (rw_buf s) n \<inter> region FSBUF 0x100000 = {}" using r by blast
  have fits: "?n0 + k \<le> 2 ^ 22" "pos mod 512 + n \<le> 512 * k"
    using last k(1,2) n mod_less_divisor[of 512 pos] by linarith+
  obtain t where t: "rw_round rpc ROOT_DEV ?msg f (int k) (int ?n0) (int (pos mod 512)) 0 (int n) s = Inr ((), t)" "ready t"
    "disk t = disk s" "rw_frame s t" "f_desc_table t = moved f n s"
    "\<forall>i < n. kmem t (rw_buf s + of_nat i) = dev_byte (disk s) (512 * ?n0 + pos mod 512 + i)"
    "\<forall>x. x \<notin> region (rw_buf s) n \<union> region FSBUF 0x100000 \<longrightarrow> kmem t x = kmem s x"
    using round_read[OF assms(1,2) k(2) k256 fits assms(4) _ apart] r by blast
  have x: "i_mode ?x = I_REGULAR" "m_type ?msg = READ \<or> m_type ?msg = WRITE" "msg_CNT ?msg = int len" "i_dev ?x = ROOT_DEV"
    using r assms(4) by simp_all
  have "do_rw rpc s = grow_file rpc f p (int n) t"
    unfolding do_rw_file[OF assms(3)] rw_file_one[OF x(1-3) pe last k(1,2) k256] n x(4)
    by (simp only: bindE_def t(1) sum.case prod.case)
  moreover have at: "512 * ?n0 + pos mod 512 = file_start ?x + pos" by (simp add: file_start_def add_mult_distrib2)
  ultimately show ?thesis using t(2-5) t(6)[unfolded at] t(7) sub by (intro exI[of _ t]) blast
qed

lemma do_rw_write:
  assumes "ready s" "flat_natives (proc_table s)" "file_request s f p pos len" "m_type (fs_msg s) = WRITE"
    "pos + len \<le> 512 * unat (i_nr_sects (inode_table s p))" "unat (i_nr_sects (inode_table s p)) < 2 ^ 22"
  shows "\<exists>t. do_rw rpc s = grow_file rpc f p (int len) t \<and> ready t \<and> rw_frame s t \<and> f_desc_table t = moved f len s \<and>
    (\<forall>j. dev_byte (disk t) j = (if file_start (inode_table s p) + pos \<le> j \<and> j < file_start (inode_table s p) + pos + len
       then kmem s (rw_buf s + of_nat (j - (file_start (inode_table s p) + pos))) else dev_byte (disk s) j)) \<and>
    (\<forall>x. x \<notin> region FSBUF 0x100000 \<longrightarrow> kmem t x = kmem s x)"
proof -
  let ?x = "inode_table s p" and ?msg = "fs_msg s" and ?e = "pos + len"
  note r = assms(3)[unfolded file_request_def rw_extent_def]
  have e: "pos \<le> ?e" "?e < 2 ^ 31" using r by auto
  obtain k where k: "?e div 512 = pos div 512 + k - 1" "0 < k" "512 * k - pos mod 512 = 512 * (?e div 512 + 1) - pos"
    "k = ?e div 512 - pos div 512 + 1" by (rule chunk_count[OF e(1)])
  have k256: "k < 256" using r k(4) by linarith
  have last: "unat (i_start_sect ?x) + ?e div 512 < 2 ^ 22" using r by linarith
  have "i_nr_sects ?x * 512 = of_nat (512 * unat (i_nr_sects ?x))" by (simp add: mult.commute)
  then have "min_u32 (u32_int (int pos + int len)) (i_nr_sects ?x * 512) = of_nat ?e"
    using min_u32_nat[of ?e "512 * unat (i_nr_sects ?x)"] e(2) assms(5,6) by (simp add: u32_int_def mult.commute)
  then have pe: "sint (if m_type ?msg = READ then min_u32 (u32_int (int pos + int len)) (i_size ?x)
       else min_u32 (u32_int (int pos + int len)) (i_nr_sects ?x * 512)) = int ?e"
    using assms(4) sint_of_nat[OF e(2)] by simp
  let ?n0 = "unat (i_start_sect ?x) + pos div 512"
  have "?e < 512 * (?e div 512 + 1)" using dividend_less_times_div[of 512 ?e] by simp
  then have n: "min len (512 * k - pos mod 512) = len" unfolding k(3) by simp
  have fits: "?n0 + k \<le> 2 ^ 22" "pos mod 512 + len \<le> 512 * k"
    using last k(1,2) n mod_less_divisor[of 512 pos] by linarith+
  obtain t where t: "rw_round rpc ROOT_DEV ?msg f (int k) (int ?n0) (int (pos mod 512)) 0 (int len) s = Inr ((), t)" "ready t"
    "rw_frame s t" "f_desc_table t = moved f len s"
    "\<forall>j. dev_byte (disk t) j = (if 512 * ?n0 + pos mod 512 \<le> j \<and> j < 512 * ?n0 + pos mod 512 + len
       then kmem s (rw_buf s + of_nat (j - (512 * ?n0 + pos mod 512))) else dev_byte (disk s) j)"
    "\<forall>x. x \<notin> region FSBUF 0x100000 \<longrightarrow> kmem t x = kmem s x"
    using round_write[OF assms(1,2) k(2) k256 fits assms(4)] r by blast
  have x: "i_mode ?x = I_REGULAR" "m_type ?msg = READ \<or> m_type ?msg = WRITE" "msg_CNT ?msg = int len" "i_dev ?x = ROOT_DEV"
    using r assms(4) by simp_all
  have run: "do_rw rpc s = grow_file rpc f p (int len) t"
    unfolding do_rw_file[OF assms(3)] rw_file_one[OF x(1-3) pe last k(1,2) k256] n x(4)
    by (simp only: bindE_def t(1) sum.case prod.case)
  have "512 * ?n0 + pos mod 512 = file_start ?x + pos" by (simp add: file_start_def add_mult_distrib2)
  then show ?thesis using t(2-4,6) t(5) run by (intro exI[of _ t]) (simp only: simp_thms)
qed

subsection \<open>The size after a transfer\<close>

lemma grow_file_more:
  assumes "ready t" "flat_natives (proc_table t)" "root_sb t = Some sb" "good_sb sb" "inode_nr_ok sb num"
    "i_dev (inode_table t p) = ROOT_DEV" "i_num (inode_table t p) = int num"
    "fd_pos (f_desc_table t f) = int q" "unat (i_size (inode_table t p)) < q" "q < 2 ^ 32"
  shows "\<exists>u. grow_file rpc f p r t = Inr (r, u) \<and> ready u \<and> f_desc_table u = f_desc_table t \<and>
    inode_table u = (inode_table t)(p := (inode_table t p)\<lparr>i_size := of_nat q\<rparr>) \<and>
    (\<forall>j. j \<noteq> inode_sect sb num \<longrightarrow> disk u j = disk t j)"
proof -
  have more: "u32_int (int q) > i_size (inode_table t p)"
    using assms(9,10) by (simp add: word_less_nat_alt u32_int_def unat_of_nat)
  let ?t = "t\<lparr>inode_table := (inode_table t)(p := (inode_table t p)\<lparr>i_size := of_nat q\<rparr>)\<rparr>"
  have "root_sb ?t = Some sb" using assms(3) by (simp add: root_sb_def)
  then obtain u where u: "sync_inode rpc p ?t = Inr ((), u)" "disk_frame ?t u" "ready u"
    "disk u = (disk ?t)(inode_sect sb num := put_dinode num (inode_table ?t p) (disk ?t (inode_sect sb num)))"
    using sync_inode_ok[of ?t sb num p] assms(1,2,4-7) by auto
  have "grow_file rpc f p r t = Inr (r, u)"
    using more u(1) assms(8) by (simp add: grow_file_def updI_def bindE_def op_defs u32_int_def)
  then show ?thesis using u(3,4) disk_frameD[OF u(2)] by (intro exI[of _ u]) simp
qed

end

subsection \<open>Properties\<close>

lemma mem_bytes_nth [simp]: "i < n \<Longrightarrow> mem_bytes m a n ! i = m (a + of_nat i)" "length (mem_bytes m a n) = n"
  by (simp_all add: mem_bytes_def)

lemma file_bytes_nth [simp]: "i < unat (i_size x) \<Longrightarrow> file_bytes d x ! i = dev_byte d (file_start x + i)"
  "length (file_bytes d x) = unat (i_size x)"
  by (simp_all add: file_bytes_def)

lemma file_bytes_splice:
  assumes "pos \<le> unat (i_size x)" "unat (i_size y) = max (unat (i_size x)) (pos + len)" "file_start y = file_start x"
    "\<And>i. dev_byte d' (file_start x + i) = (if pos \<le> i \<and> i < pos + len then m (a + of_nat (i - pos)) else dev_byte d (file_start x + i))"
  shows "file_bytes d' y = splice pos (mem_bytes m a len) (file_bytes d x)"
proof (rule nth_equalityI)
  show "length (file_bytes d' y) = length (splice pos (mem_bytes m a len) (file_bytes d x))"
    using assms(1,2) by (simp add: splice_def max_def)
  fix i assume "i < length (file_bytes d' y)"
  then have i: "i < unat (i_size y)" by simp
  then have "file_bytes d' y ! i = dev_byte d' (file_start x + i)" by (simp add: assms(3))
  then show "file_bytes d' y ! i = splice pos (mem_bytes m a len) (file_bytes d x) ! i"
    using i assms(1,2) by (auto simp: assms(4) splice_def nth_append max_def split: if_splits)
qed

text \<open>Two files that have no sector in common, each within its sectors.\<close>

definition files_apart :: "inode \<Rightarrow> inode \<Rightarrow> bool" where
  "files_apart x y = (unat (i_size y) \<le> 512 * unat (i_nr_sects y) \<and>
     (unat (i_start_sect y) + unat (i_nr_sects y) \<le> unat (i_start_sect x) \<or>
      unat (i_start_sect x) + unat (i_nr_sects x) \<le> unat (i_start_sect y)))"

lemma file_bytes_cong:
  assumes "\<And>j. file_start y \<le> j \<Longrightarrow> j < file_start y + unat (i_size y) \<Longrightarrow> dev_byte d' j = dev_byte d j"
  shows "file_bytes d' y = file_bytes d y"
  using assms by (intro nth_equalityI) simp_all

lemma dev_byte_behind:
  assumes "\<And>j. j \<noteq> b \<Longrightarrow> d' j = d j" "b < unat (i_start_sect y)"
  shows "dev_byte d' (file_start y + i) = dev_byte d (file_start y + i)"
proof -
  have "b \<noteq> (file_start y + i) div 512" using assms(2) by (simp add: file_start_def)
  then show ?thesis using assms(1) by (simp add: dev_byte_def)
qed

text \<open>The size of the inode after a transfer, and the only sector written for it.\<close>

lemma grow_file_max:
  assumes "block_device rpc disk ready" "ready t" "flat_natives (proc_table t)" "root_sb t = Some sb" "good_sb sb" "inode_nr_ok sb num"
    "i_dev (inode_table t p) = ROOT_DEV" "i_num (inode_table t p) = int num"
    and fp: "fd_pos (f_desc_table t f) = int q" and "q < 2 ^ 32"
  shows "\<exists>u v. grow_file rpc f p n t = Inr (n, u) \<and> ready u \<and> f_desc_table u = f_desc_table t \<and>
    inode_table u = (inode_table t)(p := v) \<and> unat (i_size v) = max (unat (i_size (inode_table t p))) q \<and>
    file_start v = file_start (inode_table t p) \<and> (\<forall>j. j \<noteq> inode_sect sb num \<longrightarrow> disk u j = disk t j)"
proof (cases "q \<le> unat (i_size (inode_table t p))")
  case True
  then show ?thesis
    using grow_file_same[OF fp] assms(2) by (intro exI[of _ t] exI[of _ "inode_table t p"]) (simp add: max_def)
next
  case False
  let ?v = "(inode_table t p)\<lparr>i_size := of_nat q\<rparr>"
  obtain u where u: "grow_file rpc f p n t = Inr (n, u)" "ready u" "f_desc_table u = f_desc_table t"
    "inode_table u = (inode_table t)(p := ?v)" "\<forall>j. j \<noteq> inode_sect sb num \<longrightarrow> disk u j = disk t j"
    using block_device.grow_file_more[OF assms(1-9)] False assms(10) by force
  have "unat (of_nat q :: u32) = q" using assms(10) by (simp only: unat_of_nat) simp
  then have "unat (i_size ?v) = max (unat (i_size (inode_table t p))) q" using False by (simp add: max_def)
  then show ?thesis using u by (intro exI[of _ u] exI[of _ ?v]) (simp add: file_start_def)
qed

text \<open>
  C18. Writing to a file changes its contents as a list of bytes and nothing else: the bytes of
  the caller's buffer replace those from the file's position on, or extend it; the call
  returns their number and moves the position behind them. Every other file keeps its bytes.
\<close>

theorem file_write_splices:
  assumes "block_device rpc disk ready" "ready s" "flat_natives (proc_table s)" "root_sb s = Some sb" "good_sb sb" "inode_nr_ok sb num"
    "i_num (inode_table s p) = int num" "file_request s f p pos len" "m_type (fs_msg s) = WRITE"
    "pos + len \<le> 512 * unat (i_nr_sects (inode_table s p))" "unat (i_nr_sects (inode_table s p)) < 2 ^ 22"
    "inode_sect sb num < unat (i_start_sect (inode_table s p))"
  shows "\<exists>t. do_rw rpc s = Inr (int len, t) \<and> ready t \<and> fd_pos (f_desc_table t f) = int (pos + len) \<and>
    file_bytes (disk t) (inode_table t p) = splice pos (mem_bytes (kmem s) (rw_buf s) len) (file_bytes (disk s) (inode_table s p)) \<and>
    (\<forall>q. q \<noteq> p \<longrightarrow> inode_table t q = inode_table s q) \<and>
    (\<forall>y. files_apart (inode_table s p) y \<longrightarrow> inode_sect sb num < unat (i_start_sect y) \<longrightarrow> file_bytes (disk t) y = file_bytes (disk s) y)"
proof -
  let ?x = "inode_table s p" and ?q = "pos + len"
  note r = assms(8)[unfolded file_request_def rw_extent_def]
  obtain t where t: "do_rw rpc s = grow_file rpc f p (int len) t" "ready t" "rw_frame s t" "f_desc_table t = moved f len s"
    and w: "\<forall>j. dev_byte (disk t) j = (if file_start ?x + pos \<le> j \<and> j < file_start ?x + pos + len
       then kmem s (rw_buf s + of_nat (j - (file_start ?x + pos))) else dev_byte (disk s) j)"
    using block_device.do_rw_write[OF assms(1-3,8-11)] by blast
  have it: "inode_table t p = ?x" "flat_natives (proc_table t)" "root_sb t = Some sb"
    using t(3) assms(3,4) by (simp_all add: rw_frame_def root_sb_def)
  have fp: "fd_pos (f_desc_table t f) = int ?q" using request_position[OF assms(8)] t(4) by simp
  have dev: "i_dev (inode_table t p) = ROOT_DEV" "i_num (inode_table t p) = int num" "?q < 2 ^ 32" using it(1) r assms(7) by simp_all
  obtain u v where u: "grow_file rpc f p (int len) t = Inr (int len, u)" "ready u" "f_desc_table u = f_desc_table t"
    "inode_table u = (inode_table t)(p := v)" "unat (i_size v) = max (unat (i_size ?x)) ?q" "file_start v = file_start ?x"
    "\<And>j. j \<noteq> inode_sect sb num \<Longrightarrow> disk u j = disk t j"
    using grow_file_max[OF assms(1) t(2) it(2,3) assms(5,6) dev(1,2) fp dev(3)] unfolding it(1) by blast
  have at: "dev_byte (disk u) (file_start ?x + i) = (if pos \<le> i \<and> i < pos + len then kmem s (rw_buf s + of_nat (i - pos))
      else dev_byte (disk s) (file_start ?x + i))" for i
    using dev_byte_behind[where d' = "disk u" and d = "disk t", OF u(7) assms(12)] w by simp
  have "file_bytes (disk u) (inode_table u p) = splice pos (mem_bytes (kmem s) (rw_buf s) len) (file_bytes (disk s) ?x)"
    using r u(4,5,6) at by (intro file_bytes_splice) simp_all
  moreover have "file_bytes (disk u) y = file_bytes (disk s) y"
    if y: "files_apart ?x y" "inode_sect sb num < unat (i_start_sect y)" for y
  proof (rule file_bytes_cong)
    fix j assume j: "file_start y \<le> j" "j < file_start y + unat (i_size y)"
    then obtain i where i: "j = file_start y + i" using le_Suc_ex by blast
    have out: "\<not> (file_start ?x + pos \<le> j \<and> j < file_start ?x + pos + len)"
      using y(1) j assms(10) by (auto simp: files_apart_def file_start_def)
    have "dev_byte (disk u) j = dev_byte (disk t) j"
      unfolding i by (rule dev_byte_behind[where d' = "disk u" and d = "disk t", OF u(7) y(2)])
    also have "\<dots> = dev_byte (disk s) j" using w[rule_format, of j] unfolding if_not_P[OF out] .
    finally show "dev_byte (disk u) j = dev_byte (disk s) j" .
  qed
  moreover have "inode_table u q = inode_table s q" if "q \<noteq> p" for q using that u(4) t(3) by (simp add: rw_frame_def)
  ultimately show ?thesis using t(1) u(1-3) fp by (intro exI[of _ u]) simp
qed

text \<open>
  C19. Reading within a file yields its contents: the caller's buffer gets the bytes from the
  position on, the call returns their number and moves the position behind them; no file and
  no other memory of the processes changes.
\<close>

theorem file_read_takes:
  assumes "block_device rpc disk ready" "ready s" "flat_natives (proc_table s)" "file_request s f p pos len" "m_type (fs_msg s) = READ"
    "pos + len \<le> unat (i_size (inode_table s p))"
  shows "\<exists>t. do_rw rpc s = Inr (int len, t) \<and> ready t \<and> fd_pos (f_desc_table t f) = int (pos + len) \<and>
    mem_bytes (kmem t) (rw_buf s) len = take len (drop pos (file_bytes (disk s) (inode_table s p))) \<and>
    disk t = disk s \<and> inode_table t = inode_table s \<and>
    (\<forall>x. x \<notin> region (rw_buf s) len \<union> region FSBUF 0x100000 \<longrightarrow> kmem t x = kmem s x)"
proof -
  let ?x = "inode_table s p" and ?e = "pos + len"
  have e: "?e = min ?e (unat (i_size ?x))" using assms(6) by simp
  have n: "len = min len (512 * (?e div 512 + 1) - pos)" using dividend_less_times_div[of 512 ?e] by simp
  obtain t where t: "do_rw rpc s = grow_file rpc f p (int len) t" "ready t" "disk t = disk s" "rw_frame s t" "f_desc_table t = moved f len s"
    "\<forall>i < len. kmem t (rw_buf s + of_nat i) = dev_byte (disk s) (file_start ?x + pos + i)"
    "\<forall>x. x \<notin> region (rw_buf s) len \<union> region FSBUF 0x100000 \<longrightarrow> kmem t x = kmem s x"
    using block_device.do_rw_read[OF assms(1-5) e n] by blast
  have fp: "fd_pos (f_desc_table t f) = int ?e" using request_position[OF assms(4)] t(5) by simp
  have it: "inode_table t = inode_table s" using t(4) by (simp add: rw_frame_def)
  have "grow_file rpc f p (int len) t = Inr (int len, t)" by (rule grow_file_same[OF fp]) (simp add: it assms(6))
  moreover have "mem_bytes (kmem t) (rw_buf s) len = take len (drop pos (file_bytes (disk s) ?x))"
    using t(6) assms(6) by (intro nth_equalityI) (simp_all add: add.assoc)
  ultimately show ?thesis using t(1-3,7) fp it by (intro exI[of _ t]) simp
qed

text \<open>
  C20. A read that asks for more than the file has left does not stop at its end: it returns
  what was asked for, up to the end of the sector in which the file ends, and because the
  position is then behind the end, the file grows to it.
\<close>

theorem read_past_end_grows:
  assumes "block_device rpc disk ready" "ready s" "flat_natives (proc_table s)" "root_sb s = Some sb" "good_sb sb" "inode_nr_ok sb num"
    "i_num (inode_table s p) = int num" "file_request s f p pos len" "m_type (fs_msg s) = READ"
    "unat (i_size (inode_table s p)) < pos + len"
  shows "\<exists>t n. do_rw rpc s = Inr (int n, t) \<and> n = min len (512 * (unat (i_size (inode_table s p)) div 512 + 1) - pos) \<and>
    unat (i_size (inode_table s p)) < unat (i_size (inode_table t p)) \<and> unat (i_size (inode_table t p)) = pos + n"
proof -
  let ?x = "inode_table s p" and ?e = "unat (i_size (inode_table s p))"
  note r = assms(8)[unfolded file_request_def rw_extent_def]
  define n where "n = min len (512 * (?e div 512 + 1) - pos)"
  have e: "?e = min (pos + len) ?e" using assms(10) by simp
  obtain t where t: "do_rw rpc s = grow_file rpc f p (int n) t" "ready t" "disk t = disk s" "rw_frame s t" "f_desc_table t = moved f n s"
    using block_device.do_rw_read[OF assms(1-3,8,9) e n_def] by blast
  have fp: "fd_pos (f_desc_table t f) = int (pos + n)" using request_position[OF assms(8)] t(5) by simp
  have it: "inode_table t p = ?x" "flat_natives (proc_table t)" "root_sb t = Some sb"
    using t(4) assms(3,4) by (simp_all add: rw_frame_def root_sb_def)
  have dev: "i_dev (inode_table t p) = ROOT_DEV" "i_num (inode_table t p) = int num" using it(1) r assms(7) by simp_all
  have small: "?e < pos + n" using dividend_less_times_div[of 512 ?e] assms(10) r by (simp add: n_def)
  have "n \<le> len" by (simp add: n_def)
  moreover have "pos + len < 2 ^ 31" using r by blast
  ultimately have "pos + n < 2 ^ 32" by simp
  with small obtain u where u: "grow_file rpc f p (int n) t = Inr (int n, u)"
    "inode_table u = (inode_table t)(p := (inode_table t p)\<lparr>i_size := of_nat (pos + n)\<rparr>)"
    using block_device.grow_file_more[OF assms(1) t(2) it(2,3) assms(5,6) dev fp] it(1) by auto
  have "unat (of_nat (pos + n) :: u32) = pos + n" using \<open>pos + n < 2 ^ 32\<close> by (simp only: unat_of_nat) simp
  then have "unat (i_size (inode_table u p)) = pos + n" unfolding u(2) by (simp del: of_nat_add)
  then show ?thesis using t(1) u(1) \<open>?e < pos + n\<close> by (intro exI[of _ u] exI[of _ n]) (simp add: n_def)
qed

subsection \<open>An open file\<close>

text \<open>
  On the root device of \<open>fs_example\<close>: Init's descriptor 0 is a file of five bytes, 0 to 4, at
  sector 2400; the buffer at 0x1000000 holds the bytes 17 to 20.
\<close>

definition rw_message :: "int \<Rightarrow> int \<Rightarrow> message" where
  "rw_message type len = zero_msg\<lparr>m_source := INIT, m_type := type, m3i1 := 0, m3i2 := len, m3p2 := 0x1000000\<rparr>"

definition rw_example :: "int \<Rightarrow> int \<Rightarrow> int \<Rightarrow> drive fs_hd" where
  "rw_example type pos len = fs_example\<lparr>
     proc_table := (\<lambda>_. idle_proc)(INIT := idle_proc\<lparr>filp := (\<lambda>_. None)(0 := Some 7)\<rparr>),
     kmem := (\<lambda>_. 0)(0x1000000 := 17, 0x1000001 := 18, 0x1000002 := 19, 0x1000003 := 20),
     f_desc_table := (f_desc_table fs_example)(7 := \<lparr>fd_mode = O_RDWR, fd_pos = pos, fd_cnt = 1, fd_inode = Some 2\<rparr>),
     inode_table := (inode_table fs_example)(2 := \<lparr>i_mode = I_REGULAR, i_size = 5, i_start_sect = 2400, i_nr_sects = 2048,
       i_dev = ROOT_DEV, i_cnt = 1, i_num = 2\<rparr>),
     fs_msg := rw_message type len,
     g_hw := \<lparr> d_regs = (\<lambda>_. 0), d_data = (\<lambda>n i. if n = 0x1000 + 2400 then of_nat i else 0), d_phase = Idle \<rparr> \<rparr>"

lemma rw_example_fields:
  "inode_table (rw_example ty pos len) 2 = \<lparr>i_mode = I_REGULAR, i_size = 5, i_start_sect = 2400, i_nr_sects = 2048,
     i_dev = ROOT_DEV, i_cnt = 1, i_num = 2\<rparr>"
  "fs_msg (rw_example ty pos len) = rw_message ty len"
  "fs_ready (\<lambda>h. d_phase h = Idle) (rw_example ty pos len)" "flat_natives (proc_table (rw_example ty pos len))"
  "root_sb (rw_example ty pos len) = Some ((mkfs_super 0x9000)\<lparr>sb_dev := ROOT_DEV\<rparr>)"
  "rw_buf (rw_example ty pos len) = 0x1000000"
proof -
  have "root_sb (rw_example ty pos len) = root_sb fs_example" by (simp add: rw_example_def root_sb_def)
  then show "root_sb (rw_example ty pos len) = Some ((mkfs_super 0x9000)\<lparr>sb_dev := ROOT_DEV\<rparr>)" by (simp only: fs_example_ok)
qed (simp_all add: rw_example_def rw_message_def fs_example_def kstate.defs fs_ready_def root_base_def)

lemma rw_example_request:
  assumes "pos \<le> 5" "len \<le> 100"
  shows "file_request (rw_example ty (int pos) (int len)) 7 2 pos len"
proof -
  have "region (FSBUF + of_nat 0) 0x100000 \<inter> region (FSBUF + of_nat 0xA00000) len = {}" using assms(2) by (intro region_apart) simp_all
  then have "region 0x1000000 len \<inter> region FSBUF 0x100000 = {}" by (simp add: Int_commute)
  moreover have "rw_descriptor (rw_example ty (int pos) (int len)) 7 2 pos"
    by (simp add: rw_descriptor_def rw_example_def rw_message_def fs_example_def kstate.defs pids_def)
  moreover have "(pos + len) div 512 = 0" "pos div 512 = 0" using assms by simp_all
  then have "rw_extent (inode_table (rw_example ty (int pos) (int len)) 2) pos len"
    unfolding rw_extent_def rw_example_fields using assms by simp
  moreover have "msg_CNT (fs_msg (rw_example ty (int pos) (int len))) = int len" "m_source (fs_msg (rw_example ty (int pos) (int len))) \<in> pids"
    by (simp_all add: rw_example_fields(2) rw_message_def pids_def)
  ultimately show ?thesis unfolding file_request_def rw_example_fields(6) by simp
qed

lemma rw_example_bytes: "file_bytes (fs_disk drive_sector (rw_example ty pos len)) (inode_table (rw_example ty pos len) 2) = [0, 1, 2, 3, 4]"
proof -
  have "[0..<unat (5 :: u32)] = [0, 1, 2, 3, 4]" by (simp add: upt_rec)
  then show ?thesis
    unfolding file_bytes_def rw_example_fields
    by (simp add: dev_byte_def file_start_def fs_disk_def drive_sector_def rw_example_def root_base_def fs_example_def kstate.defs)
qed

lemma rw_example_sb: "good_sb ((mkfs_super 0x9000)\<lparr>sb_dev := ROOT_DEV\<rparr>)" "inode_nr_ok ((mkfs_super 0x9000)\<lparr>sb_dev := ROOT_DEV\<rparr>) 2"
  "inode_sect ((mkfs_super 0x9000)\<lparr>sb_dev := ROOT_DEV\<rparr>) 2 < 2400"
  by (simp_all add: good_sb_def inode_nr_ok_def inode_sect_def mkfs_super_def)

theorem file_write_splices_witness:
  "\<exists>t. do_rw example_rpc (rw_example WRITE 3 4) = Inr (4, t) \<and>
     file_bytes (fs_disk drive_sector t) (inode_table t 2) = [0, 1, 2, 17, 18, 19, 20]"
proof -
  let ?s = "rw_example WRITE (int 3) (int 4)"
  have m: "mem_bytes (kmem ?s) 0x1000000 4 = [17, 18, 19, 20]" by (simp add: mem_bytes_def rw_example_def upt_rec)
  have "i_num (inode_table ?s 2) = int 2" "m_type (fs_msg ?s) = WRITE" "3 + 4 \<le> 512 * unat (i_nr_sects (inode_table ?s 2))"
    "unat (i_nr_sects (inode_table ?s 2)) < 2 ^ 22" "inode_sect ((mkfs_super 0x9000)\<lparr>sb_dev := ROOT_DEV\<rparr>) 2 < unat (i_start_sect (inode_table ?s 2))"
    using rw_example_sb(3) by (simp_all add: rw_example_fields(1,2) rw_message_def)
  from file_write_splices[OF drive_fs.block_device_axioms[of "lba_cmd 0 0 0 0" "\<lambda>_ _. fail (Spin ''no driver'')"]
      rw_example_fields(3-5) rw_example_sb(1,2) this(1) rw_example_request this(2-)]
  show ?thesis unfolding rw_example_fields(6) rw_example_bytes m by (auto simp: splice_def)
qed

theorem file_read_takes_witness:
  "\<exists>t. do_rw example_rpc (rw_example READ 1 3) = Inr (3, t) \<and> mem_bytes (kmem t) 0x1000000 3 = [1, 2, 3]"
proof -
  let ?s = "rw_example READ (int 1) (int 3)"
  have "m_type (fs_msg ?s) = READ" "1 + 3 \<le> unat (i_size (inode_table ?s 2))"
    by (simp_all add: rw_example_fields(1,2) rw_message_def)
  from file_read_takes[OF drive_fs.block_device_axioms[of "lba_cmd 0 0 0 0" "\<lambda>_ _. fail (Spin ''no driver'')"]
      rw_example_fields(3,4) rw_example_request this]
  show ?thesis unfolding rw_example_fields(6) rw_example_bytes by auto
qed

theorem read_past_end_grows_witness:
  "\<exists>t. do_rw example_rpc (rw_example READ 3 100) = Inr (100, t) \<and> unat (i_size (inode_table t 2)) = 103"
proof -
  let ?s = "rw_example READ (int 3) (int 100)"
  have "i_num (inode_table ?s 2) = int 2" "m_type (fs_msg ?s) = READ" "unat (i_size (inode_table ?s 2)) < 3 + 100"
    by (simp_all add: rw_example_fields(1,2) rw_message_def)
  from read_past_end_grows[OF drive_fs.block_device_axioms[of "lba_cmd 0 0 0 0" "\<lambda>_ _. fail (Spin ''no driver'')"]
      rw_example_fields(3-5) rw_example_sb(1,2) this(1) rw_example_request this(2-)]
  show ?thesis unfolding rw_example_fields(1) by auto
qed

end
