(* ===== verification/Fs_Dir.thy ===== *)
theory Fs_Dir
  imports Fs_Search Fs_Rw
begin

section \<open>Entering a name\<close>

text \<open>
  \<open>new_dir_entry\<close> of fs/opera.c against the root directory on the disk, and what is found in it
  afterwards.
\<close>

subsection \<open>The slot\<close>

text \<open>The slot \<open>new_dir_entry\<close> takes of a directory with \<open>nr\<close> entries: the first free one, or the one behind them.\<close>

definition free_slot :: "(nat \<Rightarrow> byte list) \<Rightarrow> nat \<Rightarrow> nat \<Rightarrow> nat \<Rightarrow> bool" where
  "free_slot d sect0 nr k = (k \<le> nr \<and> (\<forall>q < k. dent_inode d sect0 q \<noteq> 0) \<and> (k < nr \<longrightarrow> dent_inode d sect0 k = 0))"

lemma free_entry_here:
  assumes "buf_sect m 0 = d (sect0 + i)" "free_slot d sect0 nr k" "32 * i + j \<le> k" "k < 32 * Suc i"
  shows "free_entry m (int nr) [j..<32] j (int (32 * i + j)) = (int (Suc k), k - 32 * i, k < nr)"
  using assms(3,4)
proof (induction "k - (32 * i + j)" arbitrary: j)
  case 0
  then have k: "k = 32 * i + j" "j < 32" by simp_all
  then have "[j..<32] = j # [Suc j..<32]" by (simp add: upt_conv_Cons)
  moreover have "de_inode m j = dent_inode d sect0 k" unfolding k(1) by (rule entry_inode[where d = d, OF k(2) assms(1)])
  ultimately show ?case using assms(2) k by (auto simp: free_slot_def)
next
  case (Suc c)
  then have j: "j < 32" "32 * i + j < k" by simp_all
  then have up: "[j..<32] = j # [Suc j..<32]" by (simp add: upt_conv_Cons)
  have "de_inode m j = dent_inode d sect0 (32 * i + j)" by (rule entry_inode[where d = d, OF j(1) assms(1)])
  then have "de_inode m j \<noteq> 0" "k \<le> nr" using assms(2) j(2) by (auto simp: free_slot_def)
  moreover have "c = k - (32 * i + Suc j)" "32 * i + Suc j \<le> k" using Suc.hyps(2) j by simp_all
  ultimately show ?case using Suc.hyps(1)[of "Suc j"] Suc.prems(2) j(2) unfolding up by (simp add: add.commute)
qed

lemma free_entry_further:
  assumes "buf_sect m 0 = d (sect0 + i)" "free_slot d sect0 nr k" "32 * Suc i \<le> k" "j \<le> 32"
  shows "free_entry m (int nr) [j..<32] j (int (32 * i + j)) = (int (32 * Suc i), 32, False)"
  using assms(4)
proof (induction "32 - j" arbitrary: j)
  case (Suc c)
  then have j: "j < 32" by simp
  then have up: "[j..<32] = j # [Suc j..<32]" by (rule upt_conv_Cons)
  have "de_inode m j = dent_inode d sect0 (32 * i + j)" by (rule entry_inode[where d = d, OF j assms(1)])
  then have "de_inode m j \<noteq> 0" "32 * i + j < nr" using assms(2,3) j by (auto simp: free_slot_def)
  moreover have "c = 32 - Suc j" using Suc.hyps(2) by simp
  ultimately show ?case using Suc.hyps(1)[of "Suc j"] j unfolding up by (simp add: add.commute)
qed simp

context block_device begin

lemma free_entry_sects_ok:
  assumes "ready s" "flat_natives (proc_table s)" "sect0 + n \<le> 2 ^ 22" "free_slot (disk s) sect0 nr k" "k < 32 * n" "32 * i \<le> k"
  shows "\<exists>t. free_entry_sects rpc ROOT_DEV (int sect0) (int nr) (map int [i..<n]) x (int (32 * i)) p s =
      Inr ((int (k div 32), Some (k mod 32), k < nr), t) \<and>
    disk_frame s t \<and> ready t \<and> disk t = disk s \<and> buf_sect (kmem t) 0 = disk s (sect0 + k div 32)"
  using assms(1,2,4,6)
proof (induction "n - i" arbitrary: i s x p)
  case 0
  then show ?case using assms(5) by simp
next
  case (Suc c)
  then have i: "i < n" by simp
  then have up: "map int [i..<n] = int i # map int [Suc i..<n]" by (simp add: upt_conv_Cons)
  obtain u where u: "RD_SECT rpc ROOT_DEV (int sect0 + int i) s = Inr ((), u)" "disk_frame s u"
    "kmem u = load_sects (disk s) (nat (int sect0 + int i)) (Suc 0) (kmem s)" "ready u" "disk u = disk s"
    by (rule RD_ok[OF Suc.prems(1,2), of "int sect0 + int i"]) (use i assms(3) in auto)
  have "nat (int sect0 + int i) = sect0 + i" by simp
  then have b: "buf_sect (kmem u) 0 = disk s (sect0 + i)" using u(3) sector_length[of s "sect0 + i"] by (simp add: buf_sect_load1)
  show ?case
  proof (cases "k < 32 * Suc i")
    case True
    then have k: "k div 32 = i" "k mod 32 = k - 32 * i" using Suc.prems(4) by (simp_all add: div_nat_eqI modulo_nat_def)
    have "free_entry (kmem u) (int nr) [0..<32] 0 (int (32 * i)) = (int (Suc k), k mod 32, k < nr)"
      using free_entry_here[where d = "disk s", OF b Suc.prems(3), of 0] Suc.prems(4) True k(2) by simp
    moreover have "k \<le> nr" using Suc.prems(3) by (simp add: free_slot_def)
    ultimately show ?thesis
      unfolding up using u b k(1) by (intro exI[of _ u]) (auto simp: op_defs)
  next
    case False
    then have k: "32 * Suc i \<le> k" by simp
    have "free_entry (kmem u) (int nr) [0..<32] 0 (int (32 * i)) = (int (32 * Suc i), 32, False)"
      using free_entry_further[where d = "disk s", OF b Suc.prems(3) k, of 0] by simp
    moreover have "32 * Suc i \<le> nr" using Suc.prems(3) k by (simp add: free_slot_def)
    ultimately have step: "free_entry_sects rpc ROOT_DEV (int sect0) (int nr) (map int [i..<n]) x (int (32 * i)) p s =
        free_entry_sects rpc ROOT_DEV (int sect0) (int nr) (map int [Suc i..<n]) (int i + 1) (int (32 * Suc i)) (Some 32) u"
      unfolding up using u(1) by (simp add: op_defs)
    have "c = n - Suc i" "flat_natives (proc_table u)" "free_slot (disk u) sect0 nr k"
      using Suc.hyps(2) Suc.prems(2,3) disk_frameD(1)[OF u(2)] u(5) by simp_all
    from Suc.hyps(1)[OF this(1) u(4) this(2,3) k, of "int i + 1" "Some 32"] obtain t where
      "free_entry_sects rpc ROOT_DEV (int sect0) (int nr) (map int [Suc i..<n]) (int i + 1) (int (32 * Suc i)) (Some 32) u =
        Inr ((int (k div 32), Some (k mod 32), k < nr), t)"
      "disk_frame u t" "ready t" "disk t = disk u" "buf_sect (kmem t) 0 = disk u (sect0 + k div 32)" by (elim exE conjE)
    then show ?thesis using step u(5) disk_frame_trans[OF u(2)] by (intro exI[of _ t]) simp
  qed
qed

end

subsection \<open>The entry\<close>

lemma splice_length: "p + length bs \<le> length l \<Longrightarrow> length (splice p bs l) = length l"
  by (simp add: splice_def)

lemma splice_nth: "p + length bs \<le> length l \<Longrightarrow> x < length l \<Longrightarrow>
  splice p bs l ! x = (if p \<le> x \<and> x < p + length bs then bs ! (x - p) else l ! x)"
  by (auto simp: splice_def nth_append)

lemma splice_Cons: "p + Suc (length bs) \<le> length l \<Longrightarrow> splice (Suc p) bs (l[p := b]) = splice p (b # bs) l"
  by (rule nth_equalityI) (auto simp: splice_length splice_nth nth_list_update nth_Cons')

lemma buf_sect_store_bytes: "p + length bs \<le> 512 \<Longrightarrow> buf_sect (store_bytes m (FSBUF + of_nat p) bs) 0 = splice p bs (buf_sect m 0)"
proof (induction bs arbitrary: m p)
  case Nil
  then show ?case by (simp add: splice_def)
next
  case (Cons b bs)
  have a: "FSBUF + of_nat p + 1 = FSBUF + of_nat (Suc p)" by simp
  have "buf_sect (store_bytes m (FSBUF + of_nat p) (b # bs)) 0 = splice (Suc p) bs (buf_sect (m(FSBUF + of_nat p := b)) 0)"
    unfolding store_bytes.simps a using Cons.prems by (intro Cons.IH) simp
  also have "buf_sect (m(FSBUF + of_nat p := b)) 0 = (buf_sect m 0)[p := b]" using Cons.prems by (intro buf_sect_upd) simp
  finally show ?case using Cons.prems by (simp add: splice_Cons)
qed

definition entry_sect :: "nat \<Rightarrow> u32 \<Rightarrow> byte list \<Rightarrow> byte list \<Rightarrow> byte list" where
  "entry_sect j v nm sect = splice (16 * j + 4) (nm @ [0]) (put32 (16 * j) v sect)"

lemma put32_nth: "x < i \<or> i + 4 \<le> x \<Longrightarrow> put32 i v bs ! x = bs ! x"
  by (auto simp: put32_def)

lemma le32_cong: "(\<And>x. x < 4 \<Longrightarrow> as ! (i + x) = bs ! (i + x)) \<Longrightarrow> le32 as i = le32 bs i"
proof -
  assume a: "\<And>x. x < 4 \<Longrightarrow> as ! (i + x) = bs ! (i + x)"
  show "le32 as i = le32 bs i" using a[of 0] a[of 1] a[of 2] a[of 3] by (simp add: le32_def)
qed

lemma entry_sect_facts:
  assumes "j < 32" "length sect = 512" "length nm < 12"
  shows "length (entry_sect j v nm sect) = 512"
    "x < 512 \<Longrightarrow> x < 16 * j \<or> 16 * j + 16 \<le> x \<Longrightarrow> entry_sect j v nm sect ! x = sect ! x"
    "le32 (entry_sect j v nm sect) (16 * j) = v"
    "(\<forall>x < 16. sect ! (16 * j + x) = 0) \<Longrightarrow> take 12 (drop (16 * j + 4) (entry_sect j v nm sect)) = name_field nm"
proof -
  have l: "16 * j + 4 + length (nm @ [0]) \<le> length (put32 (16 * j) v sect)" using assms by simp
  show len: "length (entry_sect j v nm sect) = 512" unfolding entry_sect_def splice_length[OF l] using assms(2) by simp
  have nth: "entry_sect j v nm sect ! x = (if 16 * j + 4 \<le> x \<and> x < 16 * j + 4 + length (nm @ [0]) then (nm @ [0]) ! (x - (16 * j + 4))
      else put32 (16 * j) v sect ! x)" if "x < 512" for x
    unfolding entry_sect_def using that assms(2) by (intro splice_nth[OF l]) simp
  show "entry_sect j v nm sect ! x = sect ! x" if "x < 512" "x < 16 * j \<or> 16 * j + 16 \<le> x"
    using nth[OF that(1)] that(2) assms(3) by (auto simp: put32_nth)
  have "le32 (entry_sect j v nm sect) (16 * j) = le32 (put32 (16 * j) v sect) (16 * j)"
    using assms(1) by (intro le32_cong) (simp add: nth)
  then show "le32 (entry_sect j v nm sect) (16 * j) = v" using assms(1,2) by simp
  show "take 12 (drop (16 * j + 4) (entry_sect j v nm sect)) = name_field nm" if z: "\<forall>x < 16. sect ! (16 * j + x) = 0"
  proof (rule nth_equalityI)
    show "length (take 12 (drop (16 * j + 4) (entry_sect j v nm sect))) = length (name_field nm)" using len assms(1) by simp
    fix i assume "i < length (take 12 (drop (16 * j + 4) (entry_sect j v nm sect)))"
    then have i: "i < 12" by simp
    have "sect ! (16 * j + (4 + i)) = 0" using z i by simp
    then have "put32 (16 * j) v sect ! (16 * j + 4 + i) = 0" by (simp add: put32_nth add.assoc)
    then show "take 12 (drop (16 * j + 4) (entry_sect j v nm sect)) ! i = name_field nm ! i"
      using i assms(1) len nth[of "16 * j + 4 + i"] by (auto simp: name_field_def nth_append nth_Cons')
  qed
qed

lemma dent_cong:
  assumes "length (d (sect0 + q div 32)) = 512" "length (d' (sect0 + q div 32)) = 512"
    "\<And>x. 16 * (q mod 32) \<le> x \<Longrightarrow> x < 16 * (q mod 32) + 16 \<Longrightarrow> d' (sect0 + q div 32) ! x = d (sect0 + q div 32) ! x"
  shows "dent_inode d' sect0 q = dent_inode d sect0 q" "dent_name d' sect0 q = dent_name d sect0 q"
proof -
  have q: "q mod 32 < 32" by simp
  show "dent_inode d' sect0 q = dent_inode d sect0 q"
    unfolding dent_inode_def using assms(3) by (subst le32_cong[where bs = "d (sect0 + q div 32)"]) simp_all
  show "dent_name d' sect0 q = dent_name d sect0 q"
    unfolding dent_name_def using assms q by (intro nth_equalityI) simp_all
qed

text \<open>The directory with a new entry in slot \<open>k\<close>.\<close>

lemma entered:
  assumes "length nm < 12" "\<And>q. length (d q) = 512" "\<And>x. x < 16 \<Longrightarrow> d (sect0 + k div 32) ! (16 * (k mod 32) + x) = 0" "v < 2 ^ 31"
    "d' = d(sect0 + k div 32 := entry_sect (k mod 32) (of_nat v) nm (d (sect0 + k div 32)))"
  shows "dent_inode d' sect0 k = int v" "dent_name d' sect0 k = name_field nm"
    "q \<noteq> k \<Longrightarrow> dent_inode d' sect0 q = dent_inode d sect0 q \<and> dent_name d' sect0 q = dent_name d sect0 q"
proof -
  have k: "k mod 32 < 32" by simp
  note f = entry_sect_facts[OF k assms(2,1)]
  have "sint (of_nat v :: u32) = int v" by (rule sint_of_nat[OF assms(4)])
  then show "dent_inode d' sect0 k = int v" by (simp add: dent_inode_def assms(5) f(3))
  show "dent_name d' sect0 k = name_field nm" using f(4) assms(3) by (simp add: dent_name_def assms(5))
  assume "q \<noteq> k"
  have "d' (sect0 + q div 32) ! x = d (sect0 + q div 32) ! x" if x: "16 * (q mod 32) \<le> x" "x < 16 * (q mod 32) + 16" for x
  proof (cases "q div 32 = k div 32")
    case True
    then have "q mod 32 \<noteq> k mod 32" using \<open>q \<noteq> k\<close> by (metis div_mult_mod_eq)
    moreover have "q mod 32 < 32" by simp
    ultimately have "x < 512" "x < 16 * (k mod 32) \<or> 16 * (k mod 32) + 16 \<le> x" using x by linarith+
    then show ?thesis unfolding assms(5) True by (simp add: f(2))
  qed (simp add: assms(5))
  moreover have "length (d' (sect0 + q div 32)) = 512" using assms(2) f(1) by (simp add: assms(5))
  ultimately show "dent_inode d' sect0 q = dent_inode d sect0 q \<and> dent_name d' sect0 q = dent_name d sect0 q"
    using dent_cong[of d sect0 q d'] assms(2) by blast
qed

subsection \<open>new_dir_entry\<close>

text \<open>The directory \<open>x\<close> of the root device, with whole entries, and the slot that is taken in it.\<close>

definition dir_slot :: "(nat \<Rightarrow> byte list) \<Rightarrow> inode \<Rightarrow> nat \<Rightarrow> nat \<Rightarrow> nat \<Rightarrow> nat \<Rightarrow> bool" where
  "dir_slot d x sect0 n nr k = (dir_ok x sect0 n \<and> unat (i_size x) = 16 * nr \<and> free_slot d sect0 nr k \<and> k < 32 * n \<and> n < 2 ^ 20)"

definition grown_dir :: "inode \<Rightarrow> nat \<Rightarrow> nat \<Rightarrow> inode" where
  "grown_dir x nr k = (if k < nr then x else x\<lparr>i_size := i_size x + DIR_ENTRY_SIZE\<rparr>)"

lemma grown_dir_ok:
  assumes "dir_slot d x sect0 n nr k"
  shows "dir_ok (grown_dir x nr k) sect0 n" "unat (i_size (grown_dir x nr k)) = 16 * max nr (Suc k)"
    "i_dev (grown_dir x nr k) = i_dev x" "i_num (grown_dir x nr k) = i_num x"
proof -
  note a = assms[unfolded dir_slot_def dir_ok_def]
  have k: "k \<le> nr" using a by (simp add: free_slot_def)
  have add: "unat (i_size x + DIR_ENTRY_SIZE) = 16 * Suc nr"
    using a by (subst unat_plus_simple[THEN iffD1]) (auto simp: word_le_nat_alt unat_word_ariths)
  show sz: "unat (i_size (grown_dir x nr k)) = 16 * max nr (Suc k)"
    using a k add by (cases "k < nr") (auto simp: grown_dir_def)
  have n: "nr \<le> 32 * n" "n = (16 * nr + 511) div 512" using a by simp_all
  have "16 * max nr (Suc k) \<le> 512 * n" "16 * nr \<le> 16 * max nr (Suc k)" using a n(1) k by auto
  then have "(16 * max nr (Suc k) + 511) div 512 = n"
    using n(2) by (intro antisym) (auto simp: less_Suc_eq_le[symmetric] div_less_iff_less_mult intro: div_le_mono)
  moreover have "16 * max nr (Suc k) < 2 ^ 30" using \<open>16 * max nr (Suc k) \<le> 512 * n\<close> a by simp
  moreover have "i_dev (grown_dir x nr k) = ROOT_DEV" "i_start_sect (grown_dir x nr k) = of_nat sect0"
    using a by (simp_all add: grown_dir_def)
  moreover have "sect0 + n \<le> 2 ^ 22" using a by (elim conjE)
  ultimately show "dir_ok (grown_dir x nr k) sect0 n" unfolding dir_ok_def sz by blast
qed (simp_all add: grown_dir_def)

definition dir_disk :: "(nat \<Rightarrow> byte list) \<Rightarrow> nat \<Rightarrow> nat \<Rightarrow> nat \<Rightarrow> byte list \<Rightarrow> nat \<Rightarrow> byte list" where
  "dir_disk d sect0 k num nm = d(sect0 + k div 32 := entry_sect (k mod 32) (of_nat num) nm (d (sect0 + k div 32)))"

context block_device begin

lemma new_dir_entry_ok:
  assumes "ready s" "flat_natives (proc_table s)" "root_sb s = Some sb" "good_sb sb" "inode_nr_ok sb rn"
    "i_num (inode_table s d) = int rn" "dir_slot (disk s) (inode_table s d) sect0 n nr k" "inode_sect sb rn < sect0" "length nm < 12"
  shows "\<exists>t. new_dir_entry rpc d (int num) nm s = Inr ((), t) \<and> ready t \<and> proc_table t = proc_table s \<and> myroot_inode t = myroot_inode s \<and>
    inode_table t = (inode_table s)(d := grown_dir (inode_table s d) nr k) \<and>
    super_blocks t = super_blocks s \<and>
    disk t = (dir_disk (disk s) sect0 k num nm)(inode_sect sb rn :=
      put_dinode rn (grown_dir (inode_table s d) nr k) (dir_disk (disk s) sect0 k num nm (inode_sect sb rn)))"
proof -
  let ?x = "inode_table s d" and ?b = "sect0 + k div 32" and ?j = "k mod 32"
  note a = assms(7)[unfolded dir_slot_def]
  have ok: "dir_ok ?x sect0 n" "free_slot (disk s) sect0 nr k" "k < 32 * n" using a by simp_all
  have b: "?b < 2 ^ 22" "sect0 + n \<le> 2 ^ 22" "i_dev ?x = ROOT_DEV" using ok by (auto simp: dir_ok_def less_mult_imp_div_less mult.commute)
  note c = dir_counts[OF ok(1)]
  have nr: "dir_dentries ?x = int nr" using c(3) a by simp
  have up: "[0..int n - 1] = map int [0..<n]" by (induction n) (simp_all add: upto_rec2)
  obtain u where u: "free_entry_sects rpc ROOT_DEV (int sect0) (int nr) (map int [0..<n]) 0 0 None s =
      Inr ((int (k div 32), Some ?j, k < nr), u)" "disk_frame s u" "ready u" "disk u = disk s" "buf_sect (kmem u) 0 = disk s ?b"
    using free_entry_sects_ok[OF assms(1,2) b(2) ok(2,3), of 0 0 None] by auto
  let ?u = "u\<lparr>inode_table := (inode_table s)(d := grown_dir ?x nr k)\<rparr>"
  have grow: "whenE (\<not> k < nr) (updI d (\<lambda>x. x\<lparr>i_size := i_size x + DIR_ENTRY_SIZE\<rparr>)) u = Inr ((), ?u)"
    using disk_frameD(2)[OF u(2)] by (simp add: whenE_def updI_def op_defs grown_dir_def fun_upd_idem)
  let ?m = "store_bytes (wr32 (kmem u) (dentry ?j) (u32_int (int num))) (dentry ?j + 4) (nm @ [0])"
  let ?v = "?u\<lparr>kmem := ?m\<rparr>"
  have j: "16 * ?j + 4 \<le> 512" "16 * ?j + 4 + length (nm @ [0]) \<le> 512"
    using mod_less_divisor[of 32 k] assms(9) by simp_all
  have buf: "buf_sect ?m 0 = entry_sect ?j (of_nat num) nm (disk s ?b)"
    using buf_sect_store_bytes[OF j(2), of "wr32 (kmem u) (dentry ?j) (u32_int (int num))"] buf_sect_wr32[OF j(1), of "kmem u" "of_nat num"] u(5)
    by (simp add: dentry_def entry_sect_def u32_int_def add.assoc)
  have v: "ready ?v" "flat_natives (proc_table ?v)" "disk ?v = disk s" using u(3,4) assms(2) disk_frameD(1)[OF u(2)] by simp_all
  obtain w where w: "WR_SECT rpc ROOT_DEV (int ?b) ?v = Inr ((), w)" "disk_frame ?v w" "ready w"
    "disk w = (disk ?v)(nat (int ?b) := buf_sect (kmem ?v) 0)"
    by (rule WR_ok[OF v(1,2), of "int ?b"]) (use b(1) in auto)
  have g: "i_dev (grown_dir ?x nr k) = ROOT_DEV" "i_num (grown_dir ?x nr k) = int rn"
    using grown_dir_ok(3,4)[OF assms(7)] b(3) assms(6) by simp_all
  have it: "inode_table w = (inode_table s)(d := grown_dir ?x nr k)" "proc_table w = proc_table s" "root_sb w = Some sb"
    "myroot_inode w = myroot_inode s"
    using disk_frameD[OF w(2)] disk_frameD[OF u(2)] assms(3) by (simp_all add: root_sb_def)
  obtain t where t: "sync_inode rpc d w = Inr ((), t)" "disk_frame w t" "ready t"
    "disk t = (disk w)(inode_sect sb rn := put_dinode rn (inode_table w d) (disk w (inode_sect sb rn)))"
    using sync_inode_ok[of w sb rn d] w(3) it assms(2,4,5) g by auto
  have "new_dir_entry rpc d (int num) nm s = Inr ((), t)"
    using u(1) grow w(1) t(1) c(1,2) nr b(3) by (simp add: new_dir_entry_def Let_def up modM_def op_defs)
  moreover have dw: "disk w = dir_disk (disk s) sect0 k num nm"
    using buf unfolding w(4) nat_int v(3) dir_disk_def by simp
  moreover have "super_blocks w = super_blocks s" using disk_frameD[OF w(2)] disk_frameD[OF u(2)] by simp
  moreover have "disk t = (dir_disk (disk s) sect0 k num nm)(inode_sect sb rn :=
      put_dinode rn (grown_dir ?x nr k) (dir_disk (disk s) sect0 k num nm (inode_sect sb rn)))"
    unfolding t(4) it(1) dw by simp
  ultimately show ?thesis using t(3) it disk_frameD[OF t(2)] by (intro exI[of _ t]) simp
qed

end

subsection \<open>The name is found\<close>

lemma entry_named_first:
  "k < n \<Longrightarrow> dent_name d sect0 k = f \<Longrightarrow> (\<And>q. q < k \<Longrightarrow> dent_name d sect0 q \<noteq> f) \<Longrightarrow> entry_named d sect0 f 0 n = Some k"
  by (auto simp: entry_named_def find_Some_iff intro!: exI[of _ k])

lemma entry_named_None: "entry_named d sect0 f 0 n = None \<longleftrightarrow> (\<forall>q < n. dent_name d sect0 q \<noteq> f)"
  by (auto simp: entry_named_def find_None_iff)

lemma dent_behind: "(\<And>j. sect0 \<le> j \<Longrightarrow> d j = d' j) \<Longrightarrow>
    dent_inode d sect0 q = dent_inode d' sect0 q \<and> dent_name d sect0 q = dent_name d' sect0 q"
  by (simp add: dent_inode_def dent_name_def)

text \<open>
  In the directory that \<open>new_dir_entry\<close> leaves, the name is found in the slot, and no other entry
  has changed.
\<close>

lemma entered_found:
  assumes "dir_slot d x sect0 n nr k" "\<forall>y < 16. d (sect0 + k div 32) ! (16 * (k mod 32) + y) = 0" "\<And>q. length (d q) = 512"
    "length nm < MAX_FILENAME_LEN" "num < 2 ^ 31" "entry_named d sect0 (name_field nm) 0 (dir_searched x) = None"
    "\<And>j. sect0 \<le> j \<Longrightarrow> d' j = dir_disk d sect0 k num nm j"
  shows "inode_of_entry d' sect0 (entry_named d' sect0 (name_field (take MAX_FILENAME_LEN nm)) 0 (dir_searched (grown_dir x nr k))) = int num"
    "q \<noteq> k \<Longrightarrow> dent_inode d' sect0 q = dent_inode d sect0 q \<and> dent_name d' sect0 q = dent_name d sect0 q"
proof -
  have nm: "length nm < 12" using assms(4) by simp
  have z: "d (sect0 + k div 32) ! (16 * (k mod 32) + y) = 0" if "y < 16" for y using assms(2) that by blast
  note new = entered[where d = d and ?sect0.0 = sect0 and k = k, OF nm assms(3) z assms(5) dir_disk_def]
  have dt: "dent_inode d' sect0 q = dent_inode (dir_disk d sect0 k num nm) sect0 q \<and>
      dent_name d' sect0 q = dent_name (dir_disk d sect0 k num nm) sect0 q" for q
    by (rule dent_behind[OF assms(7)])
  show other: "dent_inode d' sect0 q = dent_inode d sect0 q \<and> dent_name d' sect0 q = dent_name d sect0 q" if "q \<noteq> k" for q
    using dt new(3) that by simp
  have k: "k \<le> nr" "k < 32 * n" "dir_searched x = min (Suc nr) (32 * n)"
    using assms(1) by (auto simp: dir_slot_def free_slot_def dir_searched_def dir_ok_def)
  note g = grown_dir_ok[OF assms(1)]
  have "k < dir_searched (grown_dir x nr k)"
    using g(1,2) k(1,2) unfolding dir_searched_def by (simp add: dir_ok_def)
  moreover have "\<And>q. q < k \<Longrightarrow> dent_name d' sect0 q \<noteq> name_field nm"
    using assms(6) k other by (simp add: entry_named_None)
  ultimately have "entry_named d' sect0 (name_field nm) 0 (dir_searched (grown_dir x nr k)) = Some k"
    using dt new(2) by (intro entry_named_first) simp_all
  then show "inode_of_entry d' sect0 (entry_named d' sect0 (name_field (take MAX_FILENAME_LEN nm)) 0 (dir_searched (grown_dir x nr k))) = int num"
    using dt new(1) nm by (simp add: inode_of_entry_def)
qed

end
