(* ===== verification/Fs_Smap.thy ===== *)
theory Fs_Smap
  imports Fs_Maps
begin

section \<open>The sector map\<close>

text \<open>
  \<open>alloc_smap_bit\<close>: the three nested loops over sectors, bytes and bits of the map, against
  the map as one sequence of bits. A loop that has found its first free bit takes the bits
  that follow it, whatever byte and sector they are in.
\<close>

subsection \<open>Runs of bits in a sector\<close>

definition set_run :: "nat \<Rightarrow> nat \<Rightarrow> byte list \<Rightarrow> byte list" where
  "set_run lo hi bs = foldl (\<lambda>b k. set_sbit k True b) bs [lo..<hi]"

lemma set_run_length [simp]: "length (set_run lo hi bs) = length bs"
  unfolding set_run_def by (induction hi) auto

lemma set_run_Suc: "lo \<le> hi \<Longrightarrow> set_run lo (Suc hi) bs = set_sbit hi True (set_run lo hi bs)"
  by (simp add: set_run_def)

lemma sbit_set_run: "hi \<le> 8 * length bs \<Longrightarrow> sbit (set_run lo hi bs) i = (sbit bs i \<or> lo \<le> i \<and> i < hi)"
proof (induction hi)
  case 0
  then show ?case by (simp add: set_run_def)
next
  case (Suc hi)
  show ?case
  proof (cases "lo \<le> hi")
    case True
    have "hi < 8 * length (set_run lo hi bs)" using Suc.prems by simp
    then show ?thesis using True Suc by (auto simp: set_run_Suc sbit_set_sbit)
  next
    case False
    then show ?thesis by (auto simp: set_run_def)
  qed
qed

lemma set_run_refl [simp]: "set_run lo lo bs = bs"
  by (simp add: set_run_def)

lemma set_run_first:
  "lo < hi \<Longrightarrow> set_run (Suc lo) hi (set_sbit lo True bs) = set_run lo hi bs"
  unfolding set_run_def by (simp add: upt_rec)

lemma set_run_trans: "lo \<le> mid \<Longrightarrow> mid \<le> hi \<Longrightarrow> set_run mid hi (set_run lo mid bs) = set_run lo hi bs"
  unfolding set_run_def foldl_append[symmetric] by (metis upt_add_eq_append le_Suc_ex)

subsection \<open>One byte, one sector\<close>

lemma buf_bit: "j < 512 \<Longrightarrow> k < 8 \<Longrightarrow> sbit (buf_sect m 0) (8 * j + k) = bit (fsbuf_byte m j) k"
  by (simp add: sbit_def)

lemma buf_set_bit:
  "j < 512 \<Longrightarrow> k < 8 \<Longrightarrow> buf_sect (set_fsbuf_byte j (fsbuf_byte m j OR push_bit k 1) m) 0 = set_sbit (8 * j + k) True (buf_sect m 0)"
  by (simp add: buf_sect_set set_sbit_def)

lemma smap_bits_ok:
  assumes "j < 512" "k \<le> 8" "0 < l" "\<forall>i. k \<le> i \<and> i < 8 \<and> i < k + l \<longrightarrow> \<not> sbit (buf_sect m 0) (8 * j + i)"
  shows "\<exists>m'. smap_bits j [k..<8] m (int l) = Inr (m', int (l - min l (8 - k))) \<and>
    buf_sect m' 0 = set_run (8 * j + k) (8 * j + k + min l (8 - k)) (buf_sect m 0)"
  using assms(2-4)
proof (induction "8 - k" arbitrary: k l m)
  case 0
  then show ?case by simp
next
  case (Suc n)
  then have k: "k < 8" by simp
  then have up: "[k..<8] = k # [Suc k..<8]" by (rule upt_conv_Cons)
  have z: "\<not> sbit (buf_sect m 0) (8 * j + k)" using Suc.prems k by auto
  let ?m = "set_fsbuf_byte j (fsbuf_byte m j OR push_bit k 1) m"
  have b: "buf_sect ?m 0 = set_sbit (8 * j + k) True (buf_sect m 0)" by (rule buf_set_bit[OF assms(1) k])
  have bit: "\<not> bit (fsbuf_byte m j) k" using z buf_bit[OF assms(1) k] by simp
  show ?case
  proof (cases "l = 1")
    case True
    then have "min l (8 - k) = 1" using k by simp
    then show ?thesis using True up bit b by (simp add: drop_bit_odd set_run_Suc)
  next
    case False
    then obtain l' where l: "l = Suc l'" "0 < l'" using Suc.prems(2) by (cases l) auto
    have len: "8 * j + k < 8 * length (buf_sect m 0)" using k assms(1) by simp
    have "\<exists>m'. smap_bits j [Suc k..<8] ?m (int l') = Inr (m', int (l' - min l' (8 - Suc k))) \<and>
        buf_sect m' 0 = set_run (8 * j + Suc k) (8 * j + Suc k + min l' (8 - Suc k)) (buf_sect ?m 0)"
    proof (rule Suc.hyps(1))
      show "\<forall>i. Suc k \<le> i \<and> i < 8 \<and> i < Suc k + l' \<longrightarrow> \<not> sbit (buf_sect ?m 0) (8 * j + i)"
        unfolding b sbit_set_sbit[OF len] using Suc.prems(3) l by auto
    qed (use Suc.hyps(2) l k in auto)
    moreover have "l - min l (8 - k) = l' - min l' (8 - Suc k)" "8 * j + k + min l (8 - k) = 8 * j + Suc k + min l' (8 - Suc k)"
      using l k by (auto simp: min_def)
    moreover have "set_run (Suc (8 * j + k)) hi (set_sbit (8 * j + k) True (buf_sect m 0)) = set_run (8 * j + k) hi (buf_sect m 0)"
      if "8 * j + k < hi" for hi by (rule set_run_first[OF that])
    ultimately show ?thesis using up bit b l k by (simp add: drop_bit_odd)
  qed
qed


text \<open>What is left of \<open>l\<close> bits after the rest of byte \<open>J\<close>, from bit \<open>K\<close>, and of the sector.\<close>

lemma run_parts:
  fixes J K :: nat
  assumes "K < 8" "J < 512"
  shows "4096 - (8 * J + K) = (8 - K) + (4096 - 8 * Suc J)"
  using assms by simp

lemma run_left:
  assumes "K < 8" "J < (512::nat)"
  shows "l - min l (8 - K) - min (l - min l (8 - K)) (4096 - 8 * Suc J) = l - min l (4096 - (8 * J + K))"
proof -
  have "a - min a b - min (a - min a b) c = a - min a (b + c)" for a b c :: nat by (simp add: min_def) 
  then show ?thesis unfolding run_parts[OF assms] .
qed

lemma run_end: assumes "K < 8" "J < (512::nat)" "\<not> l \<le> 8 - K" 
  shows "8 * J + K + min l (8 - K) = 8 * Suc J" "8 * Suc J + min (l - min l (8 - K)) (4096 - 8 * Suc J) = 8 * J + K + min l (4096 - (8 * J + K))"
proof -
  have m: "min l (8 - K) = 8 - K" using assms by simp
  show "8 * J + K + min l (8 - K) = 8 * Suc J" unfolding m using assms by simp
  have "\<not> a \<le> b \<Longrightarrow> min (a - b) c + b = min a (b + c)" for a b c :: nat by (auto simp: min_def) 
  note eq = this[OF assms(3), of "4096 - 8 * Suc J"]
  have shift: "8 * Suc J + x = 8 * J + K + y" if "x + (8 - K) = y" for x y using that assms(1) by simp
  show "8 * Suc J + min (l - min l (8 - K)) (4096 - 8 * Suc J) = 8 * J + K + min l (4096 - (8 * J + K))"
    unfolding m run_parts[OF assms(1,2)] by (rule shift[OF eq])
qed

text \<open>The byte loop once the run has begun: it takes the bits from byte \<open>j\<close> on.\<close>

lemma smap_bytes_run:
  assumes "free \<noteq> 0" "j \<le> 512" "\<forall>k. 8 * j \<le> k \<and> k < 4096 \<and> k < 8 * j + l \<longrightarrow> \<not> sbit (buf_sect m 0) k"
  shows "\<exists>m'. smap_bytes sb i [j..<512] m (int l) free = Inr (m', int (l - min l (4096 - 8 * j)), free) \<and>
    buf_sect m' 0 = set_run (8 * j) (8 * j + min l (4096 - 8 * j)) (buf_sect m 0)"
  using assms(2,3)
proof (induction "512 - j" arbitrary: j l m)
  case 0
  then show ?case by simp
next
  case (Suc n)
  then have j: "j < 512" by simp
  then have up: "[j..<512] = j # [Suc j..<512]" by (rule upt_conv_Cons)
  show ?case
  proof (cases "l = 0")
    case True
    then show ?thesis by (simp add: up)
  next
    case False
    have "\<forall>i. 0 \<le> i \<and> i < 8 \<and> i < 0 + l \<longrightarrow> \<not> sbit (buf_sect m 0) (8 * j + i)"
      using Suc.prems(2) j by auto
    from smap_bits_ok[OF j _ _ this] False obtain m1 where
      m1: "smap_bits j [0..<8] m (int l) = Inr (m1, int (l - min l 8))"
        "buf_sect m1 0 = set_run (8 * j) (8 * j + min l 8) (buf_sect m 0)" by auto
    let ?l = "l - min l 8"
    have len: "8 * j + min l 8 \<le> 8 * length (buf_sect m 0)" using j by simp
    have "\<exists>m'. smap_bytes sb i [Suc j..<512] m1 (int ?l) free = Inr (m', int (?l - min ?l (4096 - 8 * Suc j)), free) \<and>
        buf_sect m' 0 = set_run (8 * Suc j) (8 * Suc j + min ?l (4096 - 8 * Suc j)) (buf_sect m1 0)"
    proof (rule Suc.hyps(1))
      show "\<forall>k. 8 * Suc j \<le> k \<and> k < 4096 \<and> k < 8 * Suc j + ?l \<longrightarrow> \<not> sbit (buf_sect m1 0) k"
        unfolding m1(2) sbit_set_run[OF len] using Suc.prems(2) by auto
    qed (use Suc.hyps(2) j in auto)
    then obtain m' where m': "smap_bytes sb i [Suc j..<512] m1 (int ?l) free = Inr (m', int (?l - min ?l (4096 - 8 * Suc j)), free)"
      "buf_sect m' 0 = set_run (8 * Suc j) (8 * Suc j + min ?l (4096 - 8 * Suc j)) (buf_sect m1 0)" by blast
    have e: "?l - min ?l (4096 - 8 * Suc j) = l - min l (4096 - 8 * j)" using run_left[of 0 j l] j by simp
    have b: "buf_sect m' 0 = set_run (8 * j) (8 * j + min l (4096 - 8 * j)) (buf_sect m 0)"
    proof (cases "l \<le> 8")
      case True
      then have "min l (4096 - 8 * j) = l" "min l 8 = l" using j by simp_all
      then show ?thesis using m'(2) m1(2) by simp
    next
      case False
      have "set_run (8 * Suc j) (8 * Suc j + min ?l (4096 - 8 * Suc j)) (set_run (8 * j) (8 * Suc j) (buf_sect m 0))
          = set_run (8 * j) (8 * Suc j + min ?l (4096 - 8 * Suc j)) (buf_sect m 0)" by (rule set_run_trans) simp_all
      moreover have "8 * j + min l 8 = 8 * Suc j" "8 * Suc j + min ?l (4096 - 8 * Suc j) = 8 * j + min l (4096 - 8 * j)"
        using run_end[of 0 j l] False j by simp_all
      ultimately show ?thesis unfolding m'(2) m1(2) by (simp only:)
    qed
    show ?thesis using m1(1) m'(1) False assms(1) b unfolding up e by simp
  qed
qed

text \<open>The byte loop on a sector whose first free bit is \<open>kk\<close>, and on a full sector.\<close>

definition run_start :: "super_block \<Rightarrow> nat \<Rightarrow> int" where
  "run_start sb k = sint (u32_int (int k - 1) + n_1st_sect sb)"

lemma skip_ones_eq:
  assumes "k < 8" "\<not> bit b k" "\<forall>i < k. bit b i"
  shows "skip_ones b = k" "b \<noteq> 0xFF"
proof -
  show "b \<noteq> 0xFF" using assms byte_full by blast
  from skip_ones_first[OF this] assms show "skip_ones b = k" by (metis linorder_neqE_nat)
qed

lemma smap_bytes_full:
  assumes "\<forall>k. 8 * j \<le> k \<and> k < 8 * n \<longrightarrow> sbit (buf_sect m 0) k" "n \<le> 512" "0 < l"
  shows "smap_bytes sb i ([j..<n] @ js) m (int l) 0 = smap_bytes sb i js m (int l) 0"
  using assms(1)
proof (induction "n - j" arbitrary: j)
  case 0
  then show ?case by simp
next
  case (Suc d)
  then have j: "j < n" by simp
  have "\<forall>k < 8. bit (fsbuf_byte m j) k" using Suc.prems j assms(2) buf_bit[of j _ m] by auto
  then have "fsbuf_byte m j = 0xFF" by (simp add: byte_full)
  moreover have "smap_bytes sb i ([Suc j..<n] @ js) m (int l) 0 = smap_bytes sb i js m (int l) 0"
    using Suc.hyps Suc.prems j by auto
  ultimately show ?case using j assms(3) by (simp add: upt_conv_Cons)
qed

lemma upt_split_at: "j < n \<Longrightarrow> [0..<n] = [0..<j] @ j # [Suc j..<n]"
  using upt_add_eq_append[of 0 j "n - j"] by (simp add: upt_conv_Cons)

lemma smap_bytes_first:
  assumes "first_zero (buf_sect m 0) kk" "0 < l" "\<forall>k. kk \<le> k \<and> k < 4096 \<and> k < kk + l \<longrightarrow> \<not> sbit (buf_sect m 0) k"
    "run_start sb (4096 * i + kk) \<noteq> 0"
  shows "\<exists>m'. smap_bytes sb (int i) [0..<512] m (int l) 0 = Inr (m', int (l - min l (4096 - kk)), run_start sb (4096 * i + kk)) \<and>
    buf_sect m' 0 = set_run kk (kk + min l (4096 - kk)) (buf_sect m 0)"
proof -
  obtain J K where kj: "kk = 8 * J + K" "K < 8"
    using that[of "kk div 8" "kk mod 8"] by simp
  have kk: "kk < 4096" "\<not> sbit (buf_sect m 0) kk" "\<forall>k < kk. sbit (buf_sect m 0) k"
    using assms(1) by (simp_all add: first_zero_def)
  then have j: "J < 512" using kj by linarith
  have sk: "skip_ones (fsbuf_byte m J) = K" "fsbuf_byte m J \<noteq> 0xFF"
  proof (rule_tac [!] skip_ones_eq)
    show "\<not> bit (fsbuf_byte m J) K" "\<not> bit (fsbuf_byte m J) K" using buf_bit[OF j, of K m] kk(2) kj by simp_all
    have "bit (fsbuf_byte m J) i" if "i < K" for i
      using buf_bit[OF j, of i m] kk(3) kj that by simp
    then show "\<forall>i < K. bit (fsbuf_byte m J) i" "\<forall>i < K. bit (fsbuf_byte m J) i" by blast+
  qed (use kj in simp_all)
  have up: "[0..<512] = [0..<J] @ J # [Suc J..<512]"
    using j by (rule upt_split_at)
  have skip: "smap_bytes sb (int i) [0..<512] m (int l) 0 = smap_bytes sb (int i) (J # [Suc J..<512]) m (int l) 0"
    unfolding up by (rule smap_bytes_full) (use kk(3) kj j assms(2) in auto)
  have z: "\<forall>i. K \<le> i \<and> i < 8 \<and> i < K + l \<longrightarrow> \<not> sbit (buf_sect m 0) (8 * J + i)"
  proof (intro allI impI)
    fix i assume "K \<le> i \<and> i < 8 \<and> i < K + l"
    then have "kk \<le> 8 * J + i" "8 * J + i < 4096" "8 * J + i < kk + l" using kj j by linarith+
    then show "\<not> sbit (buf_sect m 0) (8 * J + i)" using assms(3) by blast
  qed
  from smap_bits_ok[OF j less_imp_le[OF kj(2)] assms(2) z] obtain m1 where
    m1: "smap_bits J [K..<8] m (int l) = Inr (m1, int (l - min l (8 - K)))"
      "buf_sect m1 0 = set_run kk (kk + min l (8 - K)) (buf_sect m 0)" unfolding kj(1) by (elim exE conjE)
  let ?l = "l - min l (8 - K)" and ?f = "run_start sb (4096 * i + kk)"
  have len: "kk + min l (8 - K) \<le> 8 * length (buf_sect m 0)"
  proof -
    have "8 * J + 8 \<le> 4096" using j by simp
    moreover have "8 * J + K + x \<le> 8 * J + 8" if "x \<le> 8 - K" for x using that kj(2) by simp
    from this[OF min.cobounded2] have "kk + min l (8 - K) \<le> 8 * J + 8" unfolding kj(1) .
    ultimately show ?thesis by (simp only: buf_sect_length)
  qed
  have z2: "\<forall>k. 8 * Suc J \<le> k \<and> k < 4096 \<and> k < 8 * Suc J + ?l \<longrightarrow> \<not> sbit (buf_sect m1 0) k"
    unfolding m1(2) sbit_set_run[OF len]
  proof (intro allI impI)
    fix k assume k: "8 * Suc J \<le> k \<and> k < 4096 \<and> k < 8 * Suc J + ?l"
    have c: "8 * Suc J = kk + (8 - K)" using kj by simp
    have "k < kk + l" "kk + (8 - K) \<le> k" "kk \<le> k" using k unfolding c by (auto simp: min_def split: if_splits)
    then show "\<not> (sbit (buf_sect m 0) k \<or> kk \<le> k \<and> k < kk + min l (8 - K))" using assms(3) k by auto
  qed
  from smap_bytes_run[OF assms(4) Suc_leI[OF j] z2, of sb "int i"] obtain m' where
    m': "smap_bytes sb (int i) [Suc J..<512] m1 (int ?l) ?f = Inr (m', int (?l - min ?l (4096 - 8 * Suc J)), ?f)"
      "buf_sect m' 0 = set_run (8 * Suc J) (8 * Suc J + min ?l (4096 - 8 * Suc J)) (buf_sect m1 0)"
    by (elim exE conjE)
  have e: "?l - min ?l (4096 - 8 * Suc J) = l - min l (4096 - kk)" unfolding kj(1) by (rule run_left[OF kj(2) j])
  have b: "buf_sect m' 0 = set_run kk (kk + min l (4096 - kk)) (buf_sect m 0)"
  proof (cases "l \<le> 8 - K")
    case True
    then have "?l = 0" "min l (8 - K) = min l (4096 - kk)" using kj j by simp_all
    then show ?thesis using m'(2) m1(2) by simp
  next
    case False
    have s: "kk + min l (8 - K) = 8 * Suc J" "8 * Suc J + min ?l (4096 - 8 * Suc J) = kk + min l (4096 - kk)"
      using run_end[OF kj(2) j False] unfolding kj(1) by simp_all
    have "set_run (8 * Suc J) (8 * Suc J + min ?l (4096 - 8 * Suc J)) (set_run kk (8 * Suc J) (buf_sect m 0))
        = set_run kk (8 * Suc J + min ?l (4096 - 8 * Suc J)) (buf_sect m 0)"
      by (rule set_run_trans) (use kj in simp_all)
    then show ?thesis using m'(2) m1(2) unfolding s by simp
  qed
  have f: "sint (u32_int ((int i * SECTOR_SIZE + int J) * 8 + int K - 1) + n_1st_sect sb) = ?f"
  proof -
    have "(int i * SECTOR_SIZE + int J) * 8 + int K = int (4096 * i + kk)" using kj by simp
    then show ?thesis unfolding run_start_def by (simp only:)
  qed
  show ?thesis
    unfolding skip using sk assms(2) m1(1) m'(1) f e b by (simp add: Let_def)
qed


subsection \<open>The whole map\<close>

text \<open>Bit \<open>k\<close> of the map that begins at sector \<open>b0\<close>, and a disk that differs only in a run of it.\<close>

definition mbit :: "(nat \<Rightarrow> byte list) \<Rightarrow> nat \<Rightarrow> nat \<Rightarrow> bool" where
  "mbit d b0 k = sbit (d (b0 + k div 4096)) (k mod 4096)"

definition map_run :: "nat \<Rightarrow> nat \<Rightarrow> nat \<Rightarrow> nat \<Rightarrow> (nat \<Rightarrow> byte list) \<Rightarrow> (nat \<Rightarrow> byte list) \<Rightarrow> bool" where
  "map_run b0 n lo hi d d' = ((\<forall>k < 4096 * n. mbit d' b0 k = (mbit d b0 k \<or> lo \<le> k \<and> k < hi)) \<and>
     (\<forall>x. x < b0 \<or> b0 + n \<le> x \<longrightarrow> d' x = d x))"

lemma mbit_sector: "k < 4096 \<Longrightarrow> mbit d b0 (4096 * i + k) = sbit (d (b0 + i)) k"
  by (simp add: mbit_def)

lemma map_run_refl: "map_run b0 n lo lo d d"
  by (auto simp: map_run_def)

lemma map_run_trans: "map_run b0 n lo mid d d1 \<Longrightarrow> map_run b0 n mid hi d1 d2 \<Longrightarrow> lo \<le> mid \<Longrightarrow> mid \<le> hi \<Longrightarrow> map_run b0 n lo hi d d2"
  unfolding map_run_def by (intro conjI allI impI) auto

lemma map_run_sector:
  assumes "i < n" "length (d (b0 + i)) = 512" "lo \<le> hi" "hi \<le> 4096"
  shows "map_run b0 n (4096 * i + lo) (4096 * i + hi) d (d(b0 + i := set_run lo hi (d (b0 + i))))"
  unfolding map_run_def
proof (intro conjI allI impI)
  fix k assume "k < 4096 * n"
  let ?d = "d(b0 + i := set_run lo hi (d (b0 + i)))"
  have k: "k = 4096 * (k div 4096) + k mod 4096" "k mod 4096 < 4096" by simp_all
  show "mbit ?d b0 k = (mbit d b0 k \<or> 4096 * i + lo \<le> k \<and> k < 4096 * i + hi)"
  proof (cases "k div 4096 = i")
    case True
    then have "(4096 * i + lo \<le> k \<and> k < 4096 * i + hi) = (lo \<le> k mod 4096 \<and> k mod 4096 < hi)" using k by linarith
    then show ?thesis using True assms by (simp add: mbit_def sbit_set_run)
  next
    case False
    then have "\<not> (4096 * i + lo \<le> k \<and> k < 4096 * i + hi)" using k assms(4) by linarith
    then show ?thesis using False by (auto simp: mbit_def)
  qed
qed (use assms(1) in auto)

context block_device begin

text \<open>One sector of the loop, when bits are taken from it.\<close>

lemma smap_sector:
  assumes "ready s" "flat_natives (proc_table s)" "sint (2 + nr_imap_sects sb) = int b0" "b0 + i < 2 ^ 22"
  obtains u where "RD_SECT rpc ROOT_DEV (int b0 + int i) s = Inr ((), u)" "disk_frame s u" "ready u" "disk u = disk s"
    "buf_sect (kmem u) 0 = disk s (b0 + i)"
proof -
  obtain u where u: "RD_SECT rpc ROOT_DEV (int b0 + int i) s = Inr ((), u)" "disk_frame s u"
    "kmem u = load_sects (disk s) (nat (int b0 + int i)) (Suc 0) (kmem s)" "ready u" "disk u = disk s"
    by (rule RD_ok[OF assms(1,2), of "int b0 + int i"]) (use assms(4) in auto)
  have "nat (int b0 + int i) = b0 + i" by simp
  then have "buf_sect (kmem u) 0 = disk s (b0 + i)"
    using u(3) sector_length[of s "b0 + i"] by (simp add: buf_sect_load1)
  then show ?thesis using that u by blast
qed

lemma smap_take:
  assumes "ready s" "flat_natives (proc_table s)" "sint (2 + nr_imap_sects sb) = int b0" "b0 + n \<le> 2 ^ 22" "i < n"
    "RD_SECT rpc ROOT_DEV (int b0 + int i) s = Inr ((), u)" "disk_frame s u" "ready u" "disk u = disk s"
    "smap_bytes sb (int i) [0..<512] (kmem u) (int l) free = Inr (m', int l', free')" "free' \<noteq> 0"
    "buf_sect m' 0 = set_run lo hi (disk s (b0 + i))" "lo \<le> hi" "hi \<le> 4096"
  obtains t where "alloc_smap_loop rpc ROOT_DEV sb (int i # is) (int l) free s =
      (if l' = 0 then Inr ((0, free'), t) else alloc_smap_loop rpc ROOT_DEV sb is (int l') free' t)"
    "disk_frame s t" "ready t" "map_run b0 n (4096 * i + lo) (4096 * i + hi) (disk s) (disk t)"
proof -
  let ?v = "u\<lparr>kmem := m'\<rparr>"
  obtain t where t: "WR_SECT rpc ROOT_DEV (int b0 + int i) ?v = Inr ((), t)" "disk_frame ?v t" "ready t"
    "disk t = (disk ?v)(nat (int b0 + int i) := buf_sect (kmem ?v) 0)"
    by (rule WR_ok[of ?v "int b0 + int i"]) (use assms disk_frameD(1)[OF assms(7)] in auto)
  have "nat (int b0 + int i) = b0 + i" by simp
  then have d: "disk t = (disk s)(b0 + i := set_run lo hi (disk s (b0 + i)))"
    using t(4) assms(9,12) by simp
  have "alloc_smap_loop rpc ROOT_DEV sb (int i # is) (int l) free s =
      (if l' = 0 then Inr ((0, free'), t) else alloc_smap_loop rpc ROOT_DEV sb is (int l') free' t)"
    using assms(3,6,10,11) t(1) by (simp add: bindE_def op_defs modM_def Let_def)
  moreover have "disk_frame s t"
    by (rule disk_frame_trans[OF assms(7) disk_frame_trans[OF disk_frame_mem t(2)]])
  moreover have "map_run b0 n (4096 * i + lo) (4096 * i + hi) (disk s) (disk t)"
    unfolding d using assms(5,13,14) sector_length by (intro map_run_sector)
  ultimately show ?thesis using that t(3) by blast
qed

lemma smap_loop_run:
  assumes "ready s" "flat_natives (proc_table s)" "sint (2 + nr_imap_sects sb) = int b0" "b0 + n \<le> 2 ^ 22"
    "free \<noteq> 0" "0 < l" "4096 * i + l \<le> 4096 * n" "\<forall>k. 4096 * i \<le> k \<and> k < 4096 * i + l \<longrightarrow> \<not> mbit (disk s) b0 k"
  shows "\<exists>t. alloc_smap_loop rpc ROOT_DEV sb (map int [i..<n]) (int l) free s = Inr ((0, free), t) \<and> disk_frame s t \<and> ready t \<and>
    map_run b0 n (4096 * i) (4096 * i + l) (disk s) (disk t)"
  using assms
proof (induction "n - i" arbitrary: i l s)
  case 0
  then show ?case by simp
next
  case (Suc d)
  then have i: "i < n" by simp
  obtain u where u: "RD_SECT rpc ROOT_DEV (int b0 + int i) s = Inr ((), u)" "disk_frame s u" "ready u" "disk u = disk s"
    "buf_sect (kmem u) 0 = disk s (b0 + i)"
    by (rule smap_sector[OF Suc.prems(1-3), of i]) (use i Suc.prems(4) in auto)
  have "\<forall>k. 8 * 0 \<le> k \<and> k < 4096 \<and> k < 8 * 0 + l \<longrightarrow> \<not> sbit (buf_sect (kmem u) 0) k"
    unfolding u(5)
  proof (intro allI impI)
    fix k assume k: "8 * 0 \<le> k \<and> k < 4096 \<and> k < 8 * 0 + l"
    then have "\<not> mbit (disk s) b0 (4096 * i + k)" using Suc.prems(8) by simp
    then show "\<not> sbit (disk s (b0 + i)) k" using k by (simp add: mbit_sector)
  qed
  from smap_bytes_run[OF Suc.prems(5) _ this] obtain m' where
    m': "smap_bytes sb (int i) [0..<512] (kmem u) (int l) free = Inr (m', int (l - min l 4096), free)"
      "buf_sect m' 0 = set_run 0 (min l 4096) (disk s (b0 + i))" unfolding u(5) by auto
  have up: "map int [i..<n] = int i # map int [Suc i..<n]" using i by (simp add: upt_conv_Cons)
  obtain t where t: "alloc_smap_loop rpc ROOT_DEV sb (map int [i..<n]) (int l) free s =
      (if l - min l 4096 = 0 then Inr ((0, free), t)
       else alloc_smap_loop rpc ROOT_DEV sb (map int [Suc i..<n]) (int (l - min l 4096)) free t)"
    "disk_frame s t" "ready t" "map_run b0 n (4096 * i + 0) (4096 * i + min l 4096) (disk s) (disk t)"
    unfolding up
    by (rule smap_take[OF Suc.prems(1-4) i u(1-4) m'(1) Suc.prems(5) m'(2)]) auto
  show ?case
  proof (cases "l \<le> 4096")
    case True
    then show ?thesis using t by (intro exI[of _ t]) simp
  next
    case False
    have d: "d = n - Suc i" using Suc.hyps(2) by simp
    have z: "\<forall>k. 4096 * Suc i \<le> k \<and> k < 4096 * Suc i + (l - 4096) \<longrightarrow> \<not> mbit (disk t) b0 k"
    proof (intro allI impI)
      fix k assume k: "4096 * Suc i \<le> k \<and> k < 4096 * Suc i + (l - 4096)"
      then have "k < 4096 * n" "\<not> mbit (disk s) b0 k" "\<not> k < 4096 * i + min l 4096"
        using Suc.prems(7,8) False by auto
      then show "\<not> mbit (disk t) b0 k" using t(4) unfolding map_run_def by blast
    qed
    obtain v where v: "alloc_smap_loop rpc ROOT_DEV sb (map int [Suc i..<n]) (int (l - 4096)) free t = Inr ((0, free), v)"
      "disk_frame t v" "ready v" "map_run b0 n (4096 * Suc i) (4096 * Suc i + (l - 4096)) (disk t) (disk v)"
      using Suc.hyps(1)[OF d t(3) _ Suc.prems(3-5), of "l - 4096"] Suc.prems(2,7) False z disk_frameD(1)[OF t(2)] by auto
    have "map_run b0 n (4096 * i) (4096 * i + l) (disk s) (disk v)"
      by (rule map_run_trans[of _ _ _ "4096 * Suc i" _ "disk t"])
         (use t(4) v(4) False in \<open>simp_all add: add.commute\<close>)
    moreover have "disk_frame s v" by (rule disk_frame_trans[OF t(2) v(2)])
    ultimately show ?thesis using t(1) v False by (intro exI[of _ v]) simp
  qed
qed


text \<open>Full sectors before the run are read and left as they are.\<close>

lemma smap_skip:
  assumes "ready s" "flat_natives (proc_table s)" "sint (2 + nr_imap_sects sb) = int b0" "b0 + i < 2 ^ 22" "0 < l"
    "\<forall>k < 4096. mbit (disk s) b0 (4096 * i + k)"
  obtains t where "alloc_smap_loop rpc ROOT_DEV sb (int i # is) (int l) 0 s = alloc_smap_loop rpc ROOT_DEV sb is (int l) 0 t"
    "disk_frame s t" "ready t" "disk t = disk s"
proof -
  obtain u where u: "RD_SECT rpc ROOT_DEV (int b0 + int i) s = Inr ((), u)" "disk_frame s u" "ready u" "disk u = disk s"
    "buf_sect (kmem u) 0 = disk s (b0 + i)"
    by (rule smap_sector[OF assms(1-4)])
  have "smap_bytes sb (int i) ([0..<512] @ []) (kmem u) (int l) 0 = smap_bytes sb (int i) [] (kmem u) (int l) 0"
    by (rule smap_bytes_full) (use assms(5,6) in \<open>simp_all add: u(5) mbit_sector\<close>)
  then have "smap_bytes sb (int i) [0..<512] (kmem u) (int l) 0 = Inr (kmem u, int l, 0)" by simp
  then have "alloc_smap_loop rpc ROOT_DEV sb (int i # is) (int l) 0 s = alloc_smap_loop rpc ROOT_DEV sb is (int l) 0 u"
    using u(1) assms(3,5) by (simp add: bindE_def op_defs modM_def Let_def)
  then show ?thesis using that u(2-4) by blast
qed

text \<open>The sector of the map in which the run begins.\<close>

lemma smap_begin:
  assumes "ready s" "flat_natives (proc_table s)" "sint (2 + nr_imap_sects sb) = int b0" "b0 + n \<le> 2 ^ 22"
    "0 < l" "4096 * i \<le> K" "K + l \<le> 4096 * n" "\<forall>k. 4096 * i \<le> k \<and> k < K \<longrightarrow> mbit (disk s) b0 k"
    "\<forall>k. K \<le> k \<and> k < K + l \<longrightarrow> \<not> mbit (disk s) b0 k" "run_start sb K \<noteq> 0" "i < n" "\<not> 4096 * Suc i \<le> K"
  shows "\<exists>t. alloc_smap_loop rpc ROOT_DEV sb (map int [i..<n]) (int l) 0 s = Inr ((0, run_start sb K), t) \<and> disk_frame s t \<and>
    ready t \<and> map_run b0 n K (K + l) (disk s) (disk t)"
proof -
  note i = assms(11)
  have up: "map int [i..<n] = int i # map int [Suc i..<n]" using i by (simp add: upt_conv_Cons)
  have bi: "b0 + i < 2 ^ 22" using i assms(4) by simp
  define kk where "kk = K - 4096 * i"
  have K: "K = 4096 * i + kk" "kk < 4096" using assms(6,12) by (simp_all add: kk_def)
  obtain u where u: "RD_SECT rpc ROOT_DEV (int b0 + int i) s = Inr ((), u)" "disk_frame s u" "ready u" "disk u = disk s"
    "buf_sect (kmem u) 0 = disk s (b0 + i)"
    by (rule smap_sector[OF assms(1-3) bi])
  have s1: "sbit (disk s (b0 + i)) k" if "k < kk" for k
    using assms(8) that K mbit_sector[of k "disk s" b0 i] by simp
  have s0: "\<not> sbit (disk s (b0 + i)) k" if "kk \<le> k" "k < 4096" "k < kk + l" for k
    using assms(9) that K mbit_sector[of k "disk s" b0 i] by simp
  have fz: "first_zero (buf_sect (kmem u) 0) kk" using s1 s0[of kk] K(2) assms(5) by (simp add: u(5) first_zero_def)
  have z: "\<forall>k. kk \<le> k \<and> k < 4096 \<and> k < kk + l \<longrightarrow> \<not> sbit (buf_sect (kmem u) 0) k" using s0 by (simp add: u(5))
  have nz: "run_start sb (4096 * i + kk) \<noteq> 0" using assms(10) K(1) by simp
  from smap_bytes_first[OF fz assms(5) z nz] obtain m' where
    m': "smap_bytes sb (int i) [0..<512] (kmem u) (int l) 0 = Inr (m', int (l - min l (4096 - kk)), run_start sb (4096 * i + kk))"
      "buf_sect m' 0 = set_run kk (kk + min l (4096 - kk)) (disk s (b0 + i))" unfolding u(5) by (elim exE conjE)
  have hi: "kk + min l (4096 - kk) \<le> 4096" using K(2) by simp
  obtain t where t: "alloc_smap_loop rpc ROOT_DEV sb (map int [i..<n]) (int l) 0 s =
      (if l - min l (4096 - kk) = 0 then Inr ((0, run_start sb K), t)
       else alloc_smap_loop rpc ROOT_DEV sb (map int [Suc i..<n]) (int (l - min l (4096 - kk))) (run_start sb K) t)"
    "disk_frame s t" "ready t" "map_run b0 n (4096 * i + kk) (4096 * i + (kk + min l (4096 - kk))) (disk s) (disk t)"
    unfolding up K(1)
    by (rule smap_take[OF assms(1-4) i u(1-4) m'(1) nz m'(2) le_add1 hi])
  show ?thesis
  proof (cases "l \<le> 4096 - kk")
    case True
    then show ?thesis using t K(1) by (intro exI[of _ t]) (simp add: add.assoc)
  next
    case big: False
    let ?l = "l - (4096 - kk)"
    have e: "min l (4096 - kk) = 4096 - kk" "4096 * i + (kk + min l (4096 - kk)) = 4096 * Suc i" using big K(2) by simp_all
    have z: "\<forall>k. 4096 * Suc i \<le> k \<and> k < 4096 * Suc i + ?l \<longrightarrow> \<not> mbit (disk t) b0 k"
    proof (intro allI impI)
      fix k assume k: "4096 * Suc i \<le> k \<and> k < 4096 * Suc i + ?l"
      then have "k < 4096 * n" "\<not> mbit (disk s) b0 k"
        using assms(7,9) K big by auto
      then show "\<not> mbit (disk t) b0 k" using t(4) k unfolding e(2) map_run_def by auto
    qed
    have l: "0 < ?l" "4096 * Suc i + ?l \<le> 4096 * n" using big K assms(7) by simp_all
    have ft: "flat_natives (proc_table t)" using assms(2) disk_frameD(1)[OF t(2)] by simp
    from smap_loop_run[OF t(3) ft assms(3,4,10) l z] obtain v where
      v: "alloc_smap_loop rpc ROOT_DEV sb (map int [Suc i..<n]) (int ?l) (run_start sb K) t = Inr ((0, run_start sb K), v)"
      "disk_frame t v" "ready v" "map_run b0 n (4096 * Suc i) (4096 * Suc i + ?l) (disk t) (disk v)"
      by (elim exE conjE)
    have m: "4096 * Suc i + ?l = K + l" "K \<le> 4096 * Suc i" "4096 * Suc i \<le> K + l" using big K by simp_all
    have "map_run b0 n K (K + l) (disk s) (disk v)"
      by (rule map_run_trans[OF t(4)[unfolded e(2), folded K(1)] v(4)[unfolded m(1)] m(2,3)])
    moreover have "disk_frame s v" by (rule disk_frame_trans[OF t(2) v(2)])
    ultimately show ?thesis using t(1) v big e(1) by (intro exI[of _ v]) simp
  qed
qed

lemma smap_loop_first:
  assumes "ready s" "flat_natives (proc_table s)" "sint (2 + nr_imap_sects sb) = int b0" "b0 + n \<le> 2 ^ 22"
    "0 < l" "4096 * i \<le> K" "K + l \<le> 4096 * n" "\<forall>k. 4096 * i \<le> k \<and> k < K \<longrightarrow> mbit (disk s) b0 k"
    "\<forall>k. K \<le> k \<and> k < K + l \<longrightarrow> \<not> mbit (disk s) b0 k" "run_start sb K \<noteq> 0"
  shows "\<exists>t. alloc_smap_loop rpc ROOT_DEV sb (map int [i..<n]) (int l) 0 s = Inr ((0, run_start sb K), t) \<and> disk_frame s t \<and>
    ready t \<and> map_run b0 n K (K + l) (disk s) (disk t)"
  using assms
proof (induction "n - i" arbitrary: i s)
  case 0
  then show ?case by simp
next
  case (Suc d)
  then have i: "i < n" by simp
  have d: "d = n - Suc i" using Suc.hyps(2) by simp
  have up: "map int [i..<n] = int i # map int [Suc i..<n]" using i by (simp add: upt_conv_Cons)
  have bi: "b0 + i < 2 ^ 22" using i Suc.prems(4) by simp
  show ?case
  proof (cases "4096 * Suc i \<le> K")
    case True
    have "\<forall>k < 4096. mbit (disk s) b0 (4096 * i + k)" using True Suc.prems(8) by auto
    from smap_skip[OF Suc.prems(1-3) bi Suc.prems(5) this] obtain t where
      t: "alloc_smap_loop rpc ROOT_DEV sb (int i # map int [Suc i..<n]) (int l) 0 s = alloc_smap_loop rpc ROOT_DEV sb (map int [Suc i..<n]) (int l) 0 t"
      "disk_frame s t" "ready t" "disk t = disk s" by metis
    have "\<forall>k. 4096 * Suc i \<le> k \<and> k < K \<longrightarrow> mbit (disk t) b0 k" "\<forall>k. K \<le> k \<and> k < K + l \<longrightarrow> \<not> mbit (disk t) b0 k"
      using Suc.prems(8,9) unfolding t(4) by auto
    from Suc.hyps(1)[OF d t(3) _ Suc.prems(3-5) True Suc.prems(7) this Suc.prems(10)] obtain v where
      "alloc_smap_loop rpc ROOT_DEV sb (map int [Suc i..<n]) (int l) 0 t = Inr ((0, run_start sb K), v)" "disk_frame t v"
      "ready v" "map_run b0 n K (K + l) (disk t) (disk v)"
      using Suc.prems(2) disk_frameD(1)[OF t(2)] by auto
    then show ?thesis unfolding up t(1) t(4)[symmetric] using disk_frame_trans[OF t(2)] by blast
  next
    case False
    then show ?thesis by (rule smap_begin[OF Suc.prems i])
  qed
qed

end

subsection \<open>Properties\<close>

lemma upto_map_int: "[0..int n - 1] = map int [0..<n]"
  by (induction n) (simp_all add: upto_rec2)

context block_device begin

lemma alloc_smap_ok:
  assumes "ready s" "flat_natives (proc_table s)" "root_sb s = Some sb"
    "sint (2 + nr_imap_sects sb) = int b0" "b0 + unat (nr_smap_sects sb) \<le> 2 ^ 22"
    "0 < l" "K + l \<le> 4096 * unat (nr_smap_sects sb)" "\<forall>k < K. mbit (disk s) b0 k"
    "\<forall>k. K \<le> k \<and> k < K + l \<longrightarrow> \<not> mbit (disk s) b0 k" "run_start sb K \<noteq> 0"
  shows "\<exists>t. alloc_smap_bit rpc ROOT_DEV (int l) s = Inr (run_start sb K, t) \<and> disk_frame s t \<and> ready t \<and>
    map_run b0 (unat (nr_smap_sects sb)) K (K + l) (disk s) (disk t)"
proof -
  let ?n = "unat (nr_smap_sects sb)"
  have up: "[0..uint (nr_smap_sects sb) - 1] = map int [0..<?n]"
    using upto_map_int[of ?n] by simp
  have "\<forall>k. 4096 * 0 \<le> k \<and> k < K \<longrightarrow> mbit (disk s) b0 k" using assms(8) by simp
  from smap_loop_first[OF assms(1,2,4-6) _ assms(7) this assms(9,10)] obtain t where
    t: "alloc_smap_loop rpc ROOT_DEV sb (map int [0..<?n]) (int l) 0 s = Inr ((0, run_start sb K), t)" "disk_frame s t" "ready t"
      "map_run b0 ?n K (K + l) (disk s) (disk t)" by auto
  have "alloc_smap_bit rpc ROOT_DEV (int l) s = Inr (run_start sb K, t)"
    using t(1) by (simp add: alloc_smap_bit_def get_root_sb[OF assms(3)] up bindE_def op_defs)
  then show ?thesis using t(2-4) by blast
qed

end

text \<open>
  C25. \<open>alloc_smap_bit\<close>: when the first free bit \<open>K\<close> of the sector map begins a run of as many
  free bits as are asked for, the call takes exactly that run, across bytes and sectors of the
  map, answers the number of the first sector of the run, and changes no other bit of the map
  and no other sector of the disk.
\<close>

theorem alloc_smap_takes_run:
  assumes "block_device rpc disk ready" "ready s" "flat_natives (proc_table s)" "root_sb s = Some sb"
    "sint (2 + nr_imap_sects sb) = int b0" "b0 + unat (nr_smap_sects sb) \<le> 2 ^ 22"
    "0 < l" "K + l \<le> 4096 * unat (nr_smap_sects sb)" "\<forall>k < K. mbit (disk s) b0 k"
    "\<forall>k. K \<le> k \<and> k < K + l \<longrightarrow> \<not> mbit (disk s) b0 k" "run_start sb K \<noteq> 0"
  shows "\<exists>t. alloc_smap_bit rpc ROOT_DEV (int l) s = Inr (run_start sb K, t) \<and> disk_frame s t \<and> ready t \<and>
    map_run b0 (unat (nr_smap_sects sb)) K (K + l) (disk s) (disk t)"
  using block_device.alloc_smap_ok[OF assms] .

lemma fs_example_smap:
  "sint (2 + nr_imap_sects ((mkfs_super 0x9000)\<lparr>sb_dev := ROOT_DEV\<rparr>)) = int 3"
  "nr_smap_sects (mkfs_super 0x9000) = 10"
  "run_start ((mkfs_super 0x9000)\<lparr>sb_dev := ROOT_DEV\<rparr>) 0 = 268"
  by (simp_all add: mkfs_super_def run_start_def u32_int_def)

lemma fs_example_mbit: "\<not> mbit (fs_disk drive_sector fs_example) 3 k"
proof -
  have "fs_disk drive_sector fs_example (3 + i) = replicate 512 0" for i
    by (rule nth_equalityI)
       (auto simp: fs_example_def kstate.defs fs_disk_def drive_sector_def root_base_def)
  then show ?thesis by (simp add: mbit_def sbit_def less_mult_imp_div_less)
qed

theorem alloc_smap_takes_run_witness:
  "\<exists>t. alloc_smap_bit example_rpc ROOT_DEV (int 2048) fs_example = Inr (268, t)"
proof -
  let ?n = "unat (nr_smap_sects ((mkfs_super 0x9000)\<lparr>sb_dev := ROOT_DEV\<rparr>))"
  have b: "3 + ?n \<le> 2 ^ 22" "0 < (2048 :: nat)" "0 + 2048 \<le> 4096 * ?n" "\<forall>k < 0. mbit (fs_disk drive_sector fs_example) 3 k"
    "\<forall>k. 0 \<le> k \<and> k < 0 + 2048 \<longrightarrow> \<not> mbit (fs_disk drive_sector fs_example) 3 k"
    "run_start ((mkfs_super 0x9000)\<lparr>sb_dev := ROOT_DEV\<rparr>) 0 \<noteq> 0"
    using fs_example_mbit by (simp_all add: fs_example_smap)
  from alloc_smap_takes_run[OF drive_fs.block_device_axioms[of "lba_cmd 0 0 0 0" "\<lambda>_ _. fail (Spin ''no driver'')"]
      fs_example_ok(1-3) fs_example_smap(1) b]
  show ?thesis unfolding fs_example_smap(3) by blast
qed

end
