(* ===== verification/Fs_Create.thy ===== *)
theory Fs_Create
  imports Fs_Dir Fs_Smap
begin

section \<open>Creating a file\<close>

text \<open>
  \<open>create_file\<close> of fs/opera.c as a whole: an inode number, a run of sectors, the inode and the
  entry in the directory, and what of the disk is left as it was.
\<close>

subsection \<open>The areas of the device\<close>

definition smap_start :: "super_block \<Rightarrow> nat" where
  "smap_start sb = 2 + unat (nr_imap_sects sb)"

definition area_end :: "super_block \<Rightarrow> nat" where
  "area_end sb = 2 + unat (nr_imap_sects sb) + unat (nr_smap_sects sb) + unat (nr_inode_sects sb)"

lemma area_bounds:
  assumes "good_sb sb" "inode_nr_ok sb num"
  shows "smap_start sb + unat (nr_smap_sects sb) \<le> inode_sect sb num" "inode_sect sb num < area_end sb"
  using assms(2) by (auto simp: inode_nr_ok_def smap_start_def area_end_def inode_sect_def less_mult_imp_div_less)

lemma smap_start_sint: "good_sb sb \<Longrightarrow> sint (2 + nr_imap_sects sb) = int (smap_start sb)"
proof -
  assume "good_sb sb"
  then have i: "2 + unat (nr_imap_sects sb) < 2 ^ 22" by (simp add: good_sb_def)
  then have "2 + nr_imap_sects sb = of_nat (smap_start sb)" by (simp add: smap_start_def)
  moreover have "smap_start sb < 2 ^ 31" using i by (simp add: smap_start_def)
  ultimately show ?thesis by (simp only: sint_of_nat)
qed

lemma dinode_cong: "d (inode_sect sb num) = d' (inode_sect sb num) \<Longrightarrow> dinode sb d num = dinode sb d' num"
  by (simp add: dinode_def)

subsection \<open>The new inode\<close>

definition fresh_inode :: "nat \<Rightarrow> int \<Rightarrow> inode" where
  "fresh_inode num st = \<lparr>i_mode = I_REGULAR, i_size = 0, i_start_sect = u32_int st,
     i_nr_sects = u32_int NR_DEFAULT_FILE_SECTS, i_dev = ROOT_DEV, i_cnt = 1, i_num = int num\<rparr>"

context block_device begin

lemma new_inode_ok:
  assumes "ready s" "flat_natives (proc_table s)" "root_sb s = Some sb" "good_sb sb" "inode_nr_ok sb num"
    "inode_scan (inode_table s) ROOT_DEV (int num) [0..<NR_INODE] None = Inr (Some q)"
  shows "\<exists>t. new_inode rpc ROOT_DEV (int num) st s = Inr (q, t) \<and> ready t \<and>
    proc_table t = proc_table s \<and> super_blocks t = super_blocks s \<and> myroot_inode t = myroot_inode s \<and>
    inode_table t = (inode_table s)(q := fresh_inode num st) \<and>
    disk t = (disk s)(inode_sect sb num := put_dinode num (fresh_inode num st) (disk s (inode_sect sb num)))"
proof -
  obtain u x where u: "get_inode rpc ROOT_DEV (int num) s = Inr (Some q, u)" "ready u" "disk u = disk s"
    "inode_table u = (inode_table s)(q := x)" "proc_table u = proc_table s" "super_blocks u = super_blocks s"
    "myroot_inode u = myroot_inode s"
    using get_inode_loads[OF assms] by blast
  let ?v = "u\<lparr>inode_table := (inode_table s)(q := fresh_inode num st)\<rparr>"
  have up: "updI q (\<lambda>x. x\<lparr>i_mode := I_REGULAR, i_size := 0, i_start_sect := u32_int st,
      i_nr_sects := u32_int NR_DEFAULT_FILE_SECTS, i_dev := ROOT_DEV, i_cnt := 1, i_num := int num\<rparr>) u = Inr ((), ?v)"
    using u(4) by (cases x) (simp add: updI_def op_defs fresh_inode_def)
  have v: "ready ?v" "flat_natives (proc_table ?v)" "root_sb ?v = Some sb" "i_dev (inode_table ?v q) = ROOT_DEV"
    "i_num (inode_table ?v q) = int num"
    using u assms(2,3) by (simp_all add: root_sb_def fresh_inode_def)
  obtain t where t: "sync_inode rpc q ?v = Inr ((), t)" "disk_frame ?v t" "ready t"
    "disk t = (disk ?v)(inode_sect sb num := put_dinode num (inode_table ?v q) (disk ?v (inode_sect sb num)))"
    using sync_inode_ok[OF v(1-3) assms(4,5) v(4,5)] by blast
  have "new_inode rpc ROOT_DEV (int num) st s = Inr (q, t)"
    using u(1) up t(1) by (simp add: new_inode_def bindE_def op_defs)
  then show ?thesis using t(3,4) u(3,5-7) disk_frameD[OF t(2)] by (intro exI[of _ t]) simp
qed

end

subsection \<open>The disk afterwards\<close>

text \<open>The four writes: the bit of the inode, the bits of the sectors, the inode, the directory and its inode.\<close>

definition created :: "super_block \<Rightarrow> nat \<Rightarrow> nat \<Rightarrow> (nat \<Rightarrow> byte list) \<Rightarrow> (nat \<Rightarrow> byte list) \<Rightarrow> bool" where
  "created sb num K d d' =
     ((\<forall>i < 4096. sbit (d' 2) i = (sbit (d 2) i \<or> i = num)) \<and>
      (\<forall>k < 4096 * unat (nr_smap_sects sb). mbit d' (smap_start sb) k = (mbit d (smap_start sb) k \<or> K \<le> k \<and> k < K + 2048)) \<and>
      dinode sb d' num = (I_REGULAR, 0, u32_int (run_start sb K), 2048))"

lemma created_disk:
  assumes "good_sb sb" "0 < nr_imap_sects sb" "inode_nr_ok sb num" "inode_nr_ok sb rn" "num \<noteq> rn" "area_end sb \<le> sect0" "num < 4096"
    "\<And>q. length (d q) = 512" "\<And>q. length (d2 q) = 512" "\<And>q. length (d3 q) = 512"
    "map_run (smap_start sb) (unat (nr_smap_sects sb)) K (K + 2048) (d(2 := set_sbit num True (d 2))) d2"
    "d3 = d2(inode_sect sb num := put_dinode num (fresh_inode num (run_start sb K)) (d2 (inode_sect sb num)))"
    "d4 = (dir_disk d3 sect0 k num nm)(inode_sect sb rn := put_dinode rn gx (dir_disk d3 sect0 k num nm (inode_sect sb rn)))"
  shows "\<And>j. sect0 \<le> j \<Longrightarrow> d3 j = d j" "\<And>j. sect0 \<le> j \<Longrightarrow> d4 j = dir_disk d sect0 k num nm j"
    "created sb num K d d4"
    "\<And>j. inode_nr_ok sb j \<Longrightarrow> j \<noteq> num \<Longrightarrow> j \<noteq> rn \<Longrightarrow> dinode sb d4 j = dinode sb d j"
    "\<And>j. area_end sb \<le> j \<Longrightarrow> j \<noteq> sect0 + k div 32 \<Longrightarrow> d4 j = d j"
proof -
  let ?b = "smap_start sb" and ?n = "unat (nr_smap_sects sb)" and ?D = "dir_disk d3 sect0 k num nm"
  note a = area_bounds[OF assms(1,3)] area_bounds[OF assms(1,4)]
  have b: "2 < ?b" using assms(2) by (simp add: smap_start_def word_less_nat_alt)
  have d2: "d2 x = (d(2 := set_sbit num True (d 2))) x" if "x < ?b \<or> ?b + ?n \<le> x" for x
    using assms(11) that unfolding map_run_def by blast
  have inodes: "d2 (inode_sect sb j) = d (inode_sect sb j)" if "inode_nr_ok sb j" for j
    using d2 area_bounds[OF assms(1) that] b by simp
  have low: "d4 x = d2 x" if "x < ?b + ?n" for x
    using that a assms(6) by (simp add: assms(12,13) dir_disk_def)
  have D: "?D x = d3 x" if "x < area_end sb" for x using that assms(6) by (simp add: dir_disk_def)
  show far: "d3 j = d j" if "sect0 \<le> j" for j
    using that d2[of j] a assms(6) b by (simp add: assms(12))
  then show "d4 j = dir_disk d sect0 k num nm j" if "sect0 \<le> j" for j
    using that a assms(6) by (simp add: assms(13) dir_disk_def)
  have num: "0 < num" "0 < rn" using assms(3,4) by (simp_all add: inode_nr_ok_def)
  have d4: "dinode sb d4 j = (if rn = j then inode_words gx else dinode sb d3 j)" if "inode_nr_ok sb j" for j
  proof -
    have "dinode sb ?D j = dinode sb d3 j" by (rule dinode_cong) (rule D[OF area_bounds(2)[OF assms(1) that]])
    moreover have "length (?D (inode_sect sb rn)) = 512" unfolding D[OF a(4)] by (rule assms(10))
    moreover have "0 < j" using that by (simp add: inode_nr_ok_def)
    ultimately show ?thesis unfolding assms(13) using dinode_put[OF num(2)] by simp
  qed
  have d3: "dinode sb d3 j = (if num = j then inode_words (fresh_inode num (run_start sb K)) else dinode sb d2 j)" if "0 < j" for j
    unfolding assms(12) by (rule dinode_put[OF num(1) that assms(9)])
  show "dinode sb d4 j = dinode sb d j" if j: "inode_nr_ok sb j" "j \<noteq> num" "j \<noteq> rn" for j
  proof -
    have "0 < j" using j(1) by (simp add: inode_nr_ok_def)
    moreover have "dinode sb d2 j = dinode sb d j" by (rule dinode_cong) (rule inodes[OF j(1)])
    ultimately show ?thesis using d4[OF j(1)] d3[of j] j(2,3) by simp
  qed
  have "sbit (d4 2) i = (sbit (d 2) i \<or> i = num)" if "i < 4096" for i
    using low[of 2] d2[of 2] b that assms(7,8) by (auto simp: sbit_set_sbit)
  moreover have "mbit d4 ?b i = (mbit d ?b i \<or> K \<le> i \<and> i < K + 2048)" if "i < 4096 * ?n" for i
  proof -
    have s: "i div 4096 < ?n" using that by (simp add: less_mult_imp_div_less mult.commute)
    have "mbit d4 ?b i = mbit d2 ?b i" using low[of "?b + i div 4096"] s by (simp add: mbit_def)
    moreover have "mbit (d(2 := set_sbit num True (d 2))) ?b i = mbit d ?b i" using b by (simp add: mbit_def)
    ultimately show ?thesis using assms(11) that by (simp add: map_run_def)
  qed
  moreover have "dinode sb d4 num = (I_REGULAR, 0, u32_int (run_start sb K), 2048)"
    using d4[OF assms(3)] d3[OF num(1)] assms(5) by (simp add: inode_words_def fresh_inode_def u32_int_def)
  ultimately show "created sb num K d d4" by (simp add: created_def)
  show "d4 j = d j" if "area_end sb \<le> j" "j \<noteq> sect0 + k div 32" for j
    using that d2[of j] a b by (simp add: assms(12,13) dir_disk_def)
qed

subsection \<open>create_file\<close>

lemma first_zero_unique: "first_zero bs k \<Longrightarrow> first_zero bs j \<Longrightarrow> j = k"
  unfolding first_zero_def by (metis linorder_neqE_nat)

lemma alloc_imap_takes:
  assumes "block_device rpc disk ready" "ready s" "flat_natives (proc_table s)" "root_sb s = Some sb" "0 < nr_imap_sects sb"
    "first_zero (disk s 2) num"
  obtains t where "alloc_imap_bit rpc ROOT_DEV s = Inr (int num, t)" "disk_frame s t" "ready t"
    "disk t = (disk s)(2 := set_sbit num True (disk s 2))"
proof -
  have "\<not> (\<forall>k < 4096. sbit (disk s 2) k)" using assms(6) by (auto simp: first_zero_def)
  then show ?thesis
    using block_device.alloc_imap[OF assms(1-5)] that first_zero_unique[OF assms(6)] by (auto split: if_splits)
qed

text \<open>The two allocations.\<close>

lemma alloc_both:
  assumes "block_device rpc disk ready" "ready s" "flat_natives (proc_table s)" "root_sb s = Some sb" "good_sb sb" "0 < nr_imap_sects sb"
    "first_zero (disk s 2) num" "K + 2048 \<le> 4096 * unat (nr_smap_sects sb)" "\<forall>k < K. mbit (disk s) (smap_start sb) k"
    "\<forall>k. K \<le> k \<and> k < K + 2048 \<longrightarrow> \<not> mbit (disk s) (smap_start sb) k" "run_start sb K \<noteq> 0"
  obtains u t where "alloc_imap_bit rpc ROOT_DEV s = Inr (int num, u)" "alloc_smap_bit rpc ROOT_DEV (int 2048) u = Inr (run_start sb K, t)"
    "disk_frame s t" "ready t"
    "map_run (smap_start sb) (unat (nr_smap_sects sb)) K (K + 2048) ((disk s)(2 := set_sbit num True (disk s 2))) (disk t)"
proof -
  obtain u where u: "alloc_imap_bit rpc ROOT_DEV s = Inr (int num, u)" "disk_frame s u" "ready u"
    "disk u = (disk s)(2 := set_sbit num True (disk s 2))"
    by (rule alloc_imap_takes[OF assms(1-4,6,7)])
  have "2 < smap_start sb" using assms(6) by (simp add: smap_start_def word_less_nat_alt)
  then have mb: "mbit (disk u) (smap_start sb) = mbit (disk s) (smap_start sb)" by (simp add: mbit_def fun_eq_iff u(4))
  have f: "flat_natives (proc_table u)" "root_sb u = Some sb" "smap_start sb + unat (nr_smap_sects sb) \<le> 2 ^ 22"
    using disk_frameD(1)[OF u(2)] root_sb_frame[OF u(2)] assms(3-5) by (simp_all add: good_sb_def smap_start_def)
  obtain t where t: "alloc_smap_bit rpc ROOT_DEV (int 2048) u = Inr (run_start sb K, t)" "disk_frame u t" "ready t"
    "map_run (smap_start sb) (unat (nr_smap_sects sb)) K (K + 2048) (disk u) (disk t)"
    using block_device.alloc_smap_ok[OF assms(1) u(3) f(1,2) smap_start_sint[OF assms(5)] f(3) _ assms(8), unfolded mb, OF _ assms(9-11)]
    by auto
  show ?thesis using that[OF u(1) t(1) disk_frame_trans[OF u(2) t(2)] t(3) t(4)[unfolded u(4)]] .
qed

text \<open>
  C27. \<open>create_file\<close> of a new name in the root directory: it takes the first free inode number and
  the first 2048 free sectors, gives the inode of that number the type of a regular file, size 0
  and those sectors, on the disk and in the table, and enters the name, so that \<open>search_file\<close> of
  the path finds the number. Every other bit of the two maps, every other inode but the
  directory's, every other entry of the directory and every sector of data stay as they were.
\<close>

theorem create_file_found:
  assumes "block_device rpc disk ready" "ready s" "flat_natives (proc_table s)"
    "root_sb s = Some sb" "good_sb sb" "0 < nr_imap_sects sb" "area_end sb \<le> sect0"
    "inode_nr_ok sb rn" "i_num (inode_table s (myroot_inode s)) = int rn"
    "dir_slot (disk s) (inode_table s (myroot_inode s)) sect0 n nr k"
    "\<forall>x < 16. disk s (sect0 + k div 32) ! (16 * (k mod 32) + x) = 0"
    "first_zero (disk s 2) num" "inode_nr_ok sb num" "num \<noteq> rn"
    "inode_scan (inode_table s) ROOT_DEV (int num) [0..<NR_INODE] None = Inr (Some q)" "q \<noteq> myroot_inode s"
    "K + 2048 \<le> 4096 * unat (nr_smap_sects sb)" "\<forall>k < K. mbit (disk s) (smap_start sb) k"
    "\<forall>k. K \<le> k \<and> k < K + 2048 \<longrightarrow> \<not> mbit (disk s) (smap_start sb) k" "run_start sb K \<noteq> 0"
    "0 \<notin> set nm" "0x2F \<notin> set nm" "nm \<noteq> []" "length nm < MAX_FILENAME_LEN"
    "entry_named (disk s) sect0 (name_field nm) 0 (dir_searched (inode_table s (myroot_inode s))) = None"
  shows "\<exists>t u. create_file rpc (0x2F # nm @ [0]) flags s = Inr (Some q, t) \<and>
    search_file rpc (0x2F # nm @ [0]) t = Inr (int num, u) \<and>
    inode_table t q = fresh_inode num (run_start sb K) \<and> created sb num K (disk s) (disk t) \<and>
    (\<forall>j. inode_nr_ok sb j \<and> j \<noteq> num \<and> j \<noteq> rn \<longrightarrow> dinode sb (disk t) j = dinode sb (disk s) j) \<and>
    (\<forall>e. e \<noteq> k \<longrightarrow> dent_inode (disk t) sect0 e = dent_inode (disk s) sect0 e \<and>
      dent_name (disk t) sect0 e = dent_name (disk s) sect0 e) \<and>
    (\<forall>j. area_end sb \<le> j \<and> j \<noteq> sect0 + k div 32 \<longrightarrow> disk t j = disk s j)"
proof -
  let ?x = "inode_table s (myroot_inode s)" and ?g = "fresh_inode num (run_start sb K)"
  have num: "num < 4096" "num < 2 ^ 31" using assms(12) by (simp_all add: first_zero_def)
  have nm: "length nm < 12" using assms(24) by simp
  have strip: "strip_path (0x2F # nm @ [0]) s = Inr (Some (nm, myroot_inode s), s)"
    using assms(21,22) nm by (simp add: strip_path_def strip_loop_plain)
  have dev: "i_dev ?x = ROOT_DEV" using assms(10) by (simp add: dir_slot_def dir_ok_def)
  obtain s1 s2 where s2: "alloc_imap_bit rpc ROOT_DEV s = Inr (int num, s1)" "alloc_smap_bit rpc ROOT_DEV (int 2048) s1 = Inr (run_start sb K, s2)"
    "disk_frame s s2" "ready s2"
    "map_run (smap_start sb) (unat (nr_smap_sects sb)) K (K + 2048) ((disk s)(2 := set_sbit num True (disk s 2))) (disk s2)"
    by (rule alloc_both[OF assms(1-6,12,17-20)])
  note f2 = s2(3)
  have r2: "flat_natives (proc_table s2)" "root_sb s2 = Some sb" "inode_scan (inode_table s2) ROOT_DEV (int num) [0..<NR_INODE] None = Inr (Some q)"
    using disk_frameD[OF f2] root_sb_frame[OF f2] assms(3,4,15) by simp_all
  obtain s3 where s3: "new_inode rpc ROOT_DEV (int num) (run_start sb K) s2 = Inr (q, s3)" "ready s3" "proc_table s3 = proc_table s2"
    "super_blocks s3 = super_blocks s2" "myroot_inode s3 = myroot_inode s2" "inode_table s3 = (inode_table s2)(q := ?g)"
    "disk s3 = (disk s2)(inode_sect sb num := put_dinode num ?g (disk s2 (inode_sect sb num)))"
    using block_device.new_inode_ok[OF assms(1) s2(4) r2(1,2) assms(5,13) r2(3)] by blast
  have it: "inode_table s3 (myroot_inode s) = ?x" "i_num (inode_table s3 q) = int num" "myroot_inode s3 = myroot_inode s"
    "inode_table s3 = (inode_table s)(q := ?g)"
    using s3(5,6) disk_frameD[OF f2] assms(16) by (simp_all add: fresh_inode_def)
  let ?d4 = "(dir_disk (disk s3) sect0 k num nm)(inode_sect sb rn :=
      put_dinode rn (grown_dir ?x nr k) (dir_disk (disk s3) sect0 k num nm (inode_sect sb rn)))"
  note len = block_device.sector_length[OF assms(1)]
  note made = created_disk[where ?d4.0 = ?d4 and k = k and nm = nm and gx = "grown_dir ?x nr k",
      OF assms(5,6,13,8,14,7) num(1) len len len s2(5) s3(7) refl]
  have slot: "dir_slot (disk s3) ?x sect0 n nr k"
    using assms(10) dent_behind[of sect0 "disk s3" "disk s", OF made(1)] by (simp add: dir_slot_def free_slot_def)
  have r3: "flat_natives (proc_table s3)" "root_sb s3 = Some sb" "inode_sect sb rn < sect0"
    using r2 s3(3,4) area_bounds[OF assms(5,8)] assms(7) by (simp_all add: root_sb_def)
  obtain t where t: "new_dir_entry rpc (myroot_inode s) (int num) nm s3 = Inr ((), t)" "ready t" "proc_table t = proc_table s3"
    "myroot_inode t = myroot_inode s3" "inode_table t = (inode_table s3)(myroot_inode s := grown_dir ?x nr k)" "disk t = ?d4"
    using block_device.new_dir_entry_ok[OF assms(1) s3(2) r3(1,2) assms(5,8), of "myroot_inode s" sect0 n nr k nm num] assms(9) slot nm it(1) r3(3)
    by auto
  have "entry_named (disk s3) sect0 (name_field nm) 0 (dir_searched ?x) = None"
    using assms(25) dent_behind[of sect0 "disk s3" "disk s", OF made(1)] by (simp add: entry_named_None)
  note found = entered_found[where d' = "disk t", OF slot _ len assms(24) num(2) this]
  have z: "\<forall>y < 16. disk s3 (sect0 + k div 32) ! (16 * (k mod 32) + y) = 0" using assms(11) made(1) by simp
  have D: "disk t j = dir_disk (disk s3) sect0 k num nm j" if "sect0 \<le> j" for j using t(6) that r3(3) by simp
  have x: "inode_table t (myroot_inode t) = grown_dir ?x nr k" using t(4,5) it(3) by simp
  have "flat_natives (proc_table t)" using t(3) r3(1) by simp
  then obtain u where u: "search_file rpc (0x2F # nm @ [0]) t = Inr (int num, u)"
    using block_device.search_file_ok[OF assms(1) t(2) _ assms(21-23), of sect0 n] grown_dir_ok(1)[OF slot] found(1)[OF z D]
    unfolding x by auto
  have c: "create_file rpc (0x2F # nm @ [0]) flags s = Inr (Some q, t)"
    using strip dev s2(1,2) s3(1) it(2) t(1) by (simp add: create_file_def bindE_def op_defs)
  have q: "inode_table t q = ?g" using t(5) it(4) assms(16) by simp
  have e: "dent_inode (disk t) sect0 e = dent_inode (disk s) sect0 e \<and> dent_name (disk t) sect0 e = dent_name (disk s) sect0 e" if "e \<noteq> k" for e
    using found(2)[OF z D that] dent_behind[of sect0 "disk s3" "disk s" e, OF made(1)] by simp
  show ?thesis
    using c u q made(3-5)[folded t(6)] e by (intro exI[of _ t] exI[of _ u] conjI allI impI) simp_all
qed

text \<open>The directory of the example: three entries, and the slot behind them.\<close>

lemma dir_example_low: "j < 300 \<Longrightarrow> fs_disk drive_sector dir_example j = fs_disk drive_sector fs_example j"
  by (simp add: fs_disk_def drive_sector_def dir_example_def root_base_def fs_example_def kstate.defs)

lemma dir_example_root:
  "myroot_inode dir_example = 0" "root_sb dir_example = Some ((mkfs_super 0x9000)\<lparr>sb_dev := ROOT_DEV\<rparr>)"
  "i_num (inode_table dir_example 0) = int 1"
  using fs_example_ok(3) by (simp_all add: dir_example_def root_sb_def) (simp_all add: fs_example_def kstate.defs)

lemma dir_example_zero: "48 \<le> i \<Longrightarrow> dir_bytes i = 0"
  by (simp add: dir_bytes_def)

lemma dir_example_numbers:
  "dent_inode (fs_disk drive_sector dir_example) 300 0 = 1" "dent_inode (fs_disk drive_sector dir_example) 300 1 = 2"
  "dent_inode (fs_disk drive_sector dir_example) 300 2 = 6"
proof -
  have b: "dir_bytes 0 = 1" "dir_bytes 16 = 2" "dir_bytes 32 = 6"
    by (simp_all add: dir_bytes_def name_dot_def name_tty_def name_cmd_tar_def nth_append)
  have z: "dir_bytes i = 0" if "i \<in> {1, 2, 3, 17, 18, 19, 33, 34, 35}" for i
    using that by (auto simp: dir_bytes_def name_dot_def name_tty_def name_cmd_tar_def nth_append)
  show "dent_inode (fs_disk drive_sector dir_example) 300 0 = 1" "dent_inode (fs_disk drive_sector dir_example) 300 1 = 2"
    "dent_inode (fs_disk drive_sector dir_example) 300 2 = 6"
    by (simp_all add: dent_inode_def dir_example_ok(5) le32_def b z del: upt_Suc upt_rec_numeral)
qed

lemma dir_example_used: "q < 3 \<Longrightarrow> dent_inode (fs_disk drive_sector dir_example) 300 q \<noteq> 0"
proof -
  assume "q < 3"
  then have "q = 0 \<or> q = 1 \<or> q = 2" by linarith
  then show ?thesis using dir_example_numbers by (elim disjE) simp_all
qed

lemma dir_example_slot: "dir_slot (fs_disk drive_sector dir_example) (inode_table dir_example 0) 300 1 3 3"
  using dir_example_ok(3) dir_example_used unfolding dir_example_root(1)
  by (auto simp: dir_slot_def free_slot_def) (simp add: dir_example_def)

lemma dir_example_other:
  assumes "q < 4"
  shows "dent_name (fs_disk drive_sector dir_example) 300 q \<noteq> name_field [0x61, 0x62]"
proof -
  have "dir_bytes 36 = 0x63" by (simp add: dir_bytes_def name_dot_def name_tty_def name_cmd_tar_def nth_append)
  moreover have "q = 0 \<or> q = 1 \<or> q = 2 \<or> q = 3" using assms by linarith
  ultimately have "dir_bytes (16 * q + 4) \<noteq> 0x61" using dir_bytes_low(1,2) dir_example_zero[of 52] by (elim disjE) auto
  moreover have "dent_name (fs_disk drive_sector dir_example) 300 q ! 0 = dir_bytes (16 * q + 4)"
    using assms by (simp add: dent_name_def dir_example_ok(5) del: upt_Suc upt_rec_numeral)
  ultimately show ?thesis by (auto simp: name_field_def)
qed

lemma dir_example_sb:
  "area_end ((mkfs_super 0x9000)\<lparr>sb_dev := ROOT_DEV\<rparr>) = 269" "smap_start ((mkfs_super 0x9000)\<lparr>sb_dev := ROOT_DEV\<rparr>) = 3"
  "inode_nr_ok ((mkfs_super 0x9000)\<lparr>sb_dev := ROOT_DEV\<rparr>) 6" "unat (nr_smap_sects ((mkfs_super 0x9000)\<lparr>sb_dev := ROOT_DEV\<rparr>)) = 10"
  by (simp_all add: area_end_def smap_start_def inode_nr_ok_def mkfs_super_def)

lemma scan_free: "\<forall>p \<in> set ps. i_cnt (tab p) = 0 \<Longrightarrow> inode_scan tab dev num ps (Some q) = Inr (Some q)"
  by (induction ps) auto

lemma dir_example_scan: "inode_scan (inode_table dir_example) ROOT_DEV (int 6) [0..<NR_INODE] None = Inr (Some 1)"
proof -
  have up: "[0..<NR_INODE] = 0 # 1 # [2..<NR_INODE]" by (simp add: upt_conv_Cons del: upt_rec_numeral)
  have "i_cnt (inode_table dir_example p) = 0" if "0 < p" for p
    using that by (simp add: dir_example_def fs_example_def kstate.defs)
  then have "inode_scan (inode_table dir_example) ROOT_DEV (int 6) [2..<NR_INODE] (Some 1) = Inr (Some 1)"
    by (intro scan_free) simp
  then show ?thesis unfolding up
    by (simp add: dir_example_def fs_example_def kstate.defs del: upt_rec_numeral)
qed

theorem create_file_found_witness:
  "\<exists>t u. create_file example_rpc (0x2F # [0x61, 0x62] @ [0]) 1 dir_example = Inr (Some 1, t) \<and>
     search_file example_rpc (0x2F # [0x61, 0x62] @ [0]) t = Inr (6, u) \<and> i_start_sect (inode_table t 1) = 268"
proof -
  let ?sb = "(mkfs_super 0x9000)\<lparr>sb_dev := ROOT_DEV\<rparr>" and ?d = "fs_disk drive_sector dir_example"
  have "\<not> mbit ?d 3 k" if "k < 4096 * 10" for k
    using fs_example_mbit[of k] dir_example_low[of "3 + k div 4096"] that by (simp add: mbit_def)
  then have run: "0 + 2048 \<le> 4096 * unat (nr_smap_sects ?sb)" "\<forall>k < 0. mbit ?d (smap_start ?sb) k"
    "\<forall>k. 0 \<le> k \<and> k < 0 + 2048 \<longrightarrow> \<not> mbit ?d (smap_start ?sb) k" "run_start ?sb 0 \<noteq> 0"
    by (simp_all only: dir_example_sb fs_example_smap(3)) simp_all
  have slot: "\<forall>x < 16. ?d (300 + 3 div 32) ! (16 * (3 mod 32) + x) = 0"
    by (simp add: dir_example_ok(5) dir_example_zero del: upt_Suc upt_rec_numeral)
  have free: "first_zero (?d 2) 6" using fs_example_first dir_example_low[of 2] by simp
  have new: "entry_named ?d 300 (name_field [0x61, 0x62]) 0 (dir_searched (inode_table dir_example 0)) = None"
    using dir_example_ok(4) dir_example_other unfolding dir_example_root(1) by (simp add: entry_named_None)
  have "area_end ?sb \<le> 300" by (simp add: dir_example_sb)
  from create_file_found[OF drive_fs.block_device_axioms[of "lba_cmd 0 0 0 0" "\<lambda>_ _. fail (Spin ''no driver'')"]
      dir_example_ok(1,2) dir_example_root(2) fs_example_sb(1,3) this fs_example_sb(2), unfolded dir_example_root(1),
      OF dir_example_root(3) dir_example_slot slot free dir_example_sb(3) _ dir_example_scan _ run, of "[0x61, 0x62]" 1] new
  show ?thesis by (auto simp: fresh_inode_def fs_example_smap(3) u32_int_def)
qed

end
