(* ===== verification/Fs_Clear.thy ===== *)
theory Fs_Clear
  imports Fs_Create
begin

section \<open>Giving back the sectors of a file\<close>

text \<open>
  The sector map in \<open>do_unlink\<close> of fs/opera.c: the bits of the file are cleared in the first byte,
  whole bytes and the last byte, across the sectors of the map. A run that begins inside a byte
  is cleared exactly; of one that begins a byte, a byte too many is.
\<close>

subsection \<open>Clearing bits of a sector\<close>

definition clear_run :: "nat \<Rightarrow> nat \<Rightarrow> byte list \<Rightarrow> byte list" where
  "clear_run lo hi bs = foldl (\<lambda>b k. set_sbit k False b) bs [lo..<hi]"

lemma clear_run_length [simp]: "length (clear_run lo hi bs) = length bs"
  unfolding clear_run_def by (induction hi) auto

lemma clear_run_Suc: "lo \<le> hi \<Longrightarrow> clear_run lo (Suc hi) bs = set_sbit hi False (clear_run lo hi bs)"
  by (simp add: clear_run_def)

lemma sbit_clear_run: "hi \<le> 8 * length bs \<Longrightarrow> sbit (clear_run lo hi bs) i = (sbit bs i \<and> \<not> (lo \<le> i \<and> i < hi))"
proof (induction hi)
  case 0
  then show ?case by (simp add: clear_run_def)
next
  case (Suc hi)
  show ?case
  proof (cases "lo \<le> hi")
    case True
    have "hi < 8 * length (clear_run lo hi bs)" using Suc.prems by simp
    then show ?thesis using True Suc by (auto simp: clear_run_Suc sbit_set_sbit)
  qed (auto simp: clear_run_def)
qed

lemma clear_run_refl [simp]: "clear_run lo lo bs = bs"
  by (simp add: clear_run_def)

lemma clear_run_first:
  "lo < hi \<Longrightarrow> clear_run (Suc lo) hi (set_sbit lo False bs) = clear_run lo hi bs"
  unfolding clear_run_def by (simp add: upt_rec)

lemma byte_and_bit: "(x :: byte) AND push_bit n 1 = 0 \<longleftrightarrow> \<not> bit x n"
  by (simp add: and_exp_eq_0_iff_not_bit)

lemma buf_clear_bit:
  "j < 512 \<Longrightarrow> k < 8 \<Longrightarrow> buf_sect (set_fsbuf_byte j (fsbuf_byte m j AND NOT (push_bit k 1)) m) 0 = set_sbit (8 * j + k) False (buf_sect m 0)"
  by (simp add: buf_sect_set set_sbit_def)

lemma buf_clear_byte:
  assumes "j < 512"
  shows "buf_sect (set_fsbuf_byte j 0 m) 0 = clear_run (8 * j) (8 * j + 8) (buf_sect m 0)"
proof (rule sect_eqI)
  fix i assume "i < 8 * length (clear_run (8 * j) (8 * j + 8) (buf_sect m 0))"
  then have i: "i < 4096" by simp
  have e: "8 * j \<le> i \<and> i < 8 * j + 8 \<longleftrightarrow> i div 8 = j" by auto
  show "sbit (buf_sect (set_fsbuf_byte j 0 m) 0) i = sbit (clear_run (8 * j) (8 * j + 8) (buf_sect m 0)) i"
    using assms i by (simp add: sbit_clear_run e buf_sect_set) (auto simp: sbit_def nth_list_update)
qed simp

text \<open>The bits from \<open>b\<close> on of byte \<open>j\<close>, and the first \<open>n\<close> bits of byte \<open>i\<close>.\<close>

lemma clear_first_ok:
  assumes "j < 512" "b \<le> 8" "8 - b \<le> l" "\<forall>k. 8 * j + b \<le> k \<and> k < 8 * j + 8 \<longrightarrow> sbit (buf_sect m 0) k"
  shows "\<exists>m'. clear_first j [b..<8] m (int l) = Inr (m', int (l - (8 - b))) \<and>
    buf_sect m' 0 = clear_run (8 * j + b) (8 * j + 8) (buf_sect m 0)"
  using assms(2-4)
proof (induction "8 - b" arbitrary: b l m)
  case 0
  then show ?case by simp
next
  case (Suc n)
  then have b: "b < 8" by simp
  then have up: "[b..<8] = b # [Suc b..<8]" by (rule upt_conv_Cons)
  let ?m = "set_fsbuf_byte j (fsbuf_byte m j AND NOT (push_bit b 1)) m"
  have set: "fsbuf_byte m j AND push_bit b 1 \<noteq> 0"
    unfolding byte_and_bit using Suc.prems(3) b buf_bit[OF assms(1) b, of m] by simp
  have bm: "buf_sect ?m 0 = set_sbit (8 * j + b) False (buf_sect m 0)" by (rule buf_clear_bit[OF assms(1) b])
  have len: "8 * j + b < 8 * length (buf_sect m 0)" using b assms(1) by simp
  have l: "0 < l" "int l - 1 = int (l - 1)" "int l \<noteq> 0" using Suc.prems(2) b by linarith+
  have "\<forall>k. 8 * j + Suc b \<le> k \<and> k < 8 * j + 8 \<longrightarrow> sbit (buf_sect ?m 0) k"
    unfolding bm sbit_set_sbit[OF len] using Suc.prems(3) by auto
  moreover have "n = 8 - Suc b" "Suc b \<le> 8" "8 - Suc b \<le> l - 1" using Suc.hyps(2) b Suc.prems(2) by linarith+
  ultimately obtain m' where m': "clear_first j [Suc b..<8] ?m (int (l - 1)) = Inr (m', int (l - 1 - (8 - Suc b)))"
    "buf_sect m' 0 = clear_run (8 * j + Suc b) (8 * j + 8) (buf_sect ?m 0)"
    using Suc.hyps(1)[of "Suc b" "l - 1" ?m] by blast
  have "l - 1 - (8 - Suc b) = l - (8 - b)" using b by linarith
  then have "clear_first j [b..<8] m (int l) = Inr (m', int (l - (8 - b)))"
    unfolding up clear_first.simps if_not_P[OF l(3)] if_not_P[OF set] l(2) using m'(1) by (simp only:)
  moreover have "buf_sect m' 0 = clear_run (8 * j + b) (8 * j + 8) (buf_sect m 0)"
    unfolding m'(2) bm using clear_run_first[of "8 * j + b" "8 * j + 8"] b by simp
  ultimately show ?case by blast
qed

lemma clear_last_ok:
  assumes "i < 512" "n \<le> 8" "\<forall>k. 8 * i + a \<le> k \<and> k < 8 * i + n \<longrightarrow> sbit (buf_sect m 0) k" "a \<le> n"
  shows "\<exists>m'. clear_last i [a..<n] m = Inr m' \<and> buf_sect m' 0 = clear_run (8 * i + a) (8 * i + n) (buf_sect m 0)"
  using assms(3,4)
proof (induction "n - a" arbitrary: a m)
  case 0
  then show ?case by simp
next
  case (Suc c)
  then have a: "a < n" "a < 8" using assms(2) by simp_all
  then have up: "[a..<n] = a # [Suc a..<n]" by (simp add: upt_conv_Cons)
  let ?m = "set_fsbuf_byte i (fsbuf_byte m i AND NOT (push_bit a 1)) m"
  have set: "fsbuf_byte m i AND push_bit a 1 \<noteq> 0"
    unfolding byte_and_bit using Suc.prems(1) a buf_bit[OF assms(1) a(2), of m] by simp
  have bm: "buf_sect ?m 0 = set_sbit (8 * i + a) False (buf_sect m 0)" by (rule buf_clear_bit[OF assms(1) a(2)])
  have "\<exists>m'. clear_last i [Suc a..<n] ?m = Inr m' \<and> buf_sect m' 0 = clear_run (8 * i + Suc a) (8 * i + n) (buf_sect ?m 0)"
  proof (rule Suc.hyps(1))
    have len: "8 * i + a < 8 * length (buf_sect m 0)" using a assms(1) by simp
    show "\<forall>k. 8 * i + Suc a \<le> k \<and> k < 8 * i + n \<longrightarrow> sbit (buf_sect ?m 0) k"
      unfolding bm sbit_set_sbit[OF len] using Suc.prems(1) by auto
  qed (use Suc.hyps(2) a in auto)
  moreover have "clear_run (Suc (8 * i + a)) (8 * i + n) (set_sbit (8 * i + a) False (buf_sect m 0)) =
      clear_run (8 * i + a) (8 * i + n) (buf_sect m 0)" by (rule clear_run_first) (use a in simp)
  ultimately show ?case using up set bm by simp
qed

subsection \<open>Clearing a run of the sector map\<close>

text \<open>
  A disk that differs from another in that the bits from \<open>lo\<close> to \<open>hi\<close> of the map are clear, and the
  disk as it will be when the buffer is written to sector \<open>x\<close>.
\<close>

definition map_clear :: "nat \<Rightarrow> nat \<Rightarrow> nat \<Rightarrow> (nat \<Rightarrow> byte list) \<Rightarrow> (nat \<Rightarrow> byte list) \<Rightarrow> bool" where
  "map_clear b0 lo hi d d' = ((\<forall>k. mbit d' b0 k = (mbit d b0 k \<and> \<not> (lo \<le> k \<and> k < hi))) \<and> (\<forall>x < b0. d' x = d x))"

lemma map_clear_refl [simp]: "map_clear b0 lo lo d d"
  by (auto simp: map_clear_def)

lemma map_clear_trans: "map_clear b0 lo mid d d1 \<Longrightarrow> map_clear b0 mid hi d1 d2 \<Longrightarrow> lo \<le> mid \<Longrightarrow> mid \<le> hi \<Longrightarrow> map_clear b0 lo hi d d2"
  unfolding map_clear_def by (intro conjI allI impI) auto

lemma map_clear_sector:
  assumes "d (b0 + i) = bs" "length bs = 512" "lo \<le> hi" "hi \<le> 4096"
  shows "map_clear b0 (4096 * i + lo) (4096 * i + hi) d (d(b0 + i := clear_run lo hi bs))"
  unfolding map_clear_def
proof (intro conjI allI impI)
  fix k :: nat
  let ?d = "d(b0 + i := clear_run lo hi bs)"
  have k: "k = 4096 * (k div 4096) + k mod 4096" "k mod 4096 < 4096" by simp_all
  show "mbit ?d b0 k = (mbit d b0 k \<and> \<not> (4096 * i + lo \<le> k \<and> k < 4096 * i + hi))"
  proof (cases "k div 4096 = i")
    case True
    then have "(4096 * i + lo \<le> k \<and> k < 4096 * i + hi) = (lo \<le> k mod 4096 \<and> k mod 4096 < hi)" using k by linarith
    then show ?thesis using True assms by (simp add: mbit_def sbit_clear_run)
  next
    case False
    then have "\<not> (4096 * i + lo \<le> k \<and> k < 4096 * i + hi)" using k assms(4) by linarith
    then show ?thesis using False by (auto simp: mbit_def)
  qed
qed (use assms(1) in auto)

text \<open>The sectors behind the map keep their contents.\<close>

lemma map_clear_behind:
  assumes "map_clear b0 lo hi d d'" "hi \<le> 4096 * n" "b0 + n \<le> x" "length (d x) = 512" "length (d' x) = 512"
  shows "d' x = d x"
proof (rule sect_eqI)
  fix i assume "i < 8 * length (d x)"
  then have i: "i < 4096" using assms(4) by simp
  have x: "x = b0 + (x - b0)" using assms(3) by simp
  have "mbit d' b0 (4096 * (x - b0) + i) = (mbit d b0 (4096 * (x - b0) + i) \<and> \<not> (lo \<le> 4096 * (x - b0) + i \<and> 4096 * (x - b0) + i < hi))"
    using assms(1) unfolding map_clear_def by blast
  moreover have "hi \<le> 4096 * (x - b0) + i" using assms(2,3) by linarith
  ultimately show "sbit (d' x) i = sbit (d x) i" using x i by (simp add: mbit_sector)
qed (use assms in simp)

context block_device begin

abbreviation (input) on_disk :: "'a fstate_scheme \<Rightarrow> nat \<Rightarrow> nat \<Rightarrow> byte list" where
  "on_disk s x \<equiv> (disk s)(x := buf_sect (kmem s) 0)"

text \<open>On to the next sector of the map: what is on the disk and in the buffer does not change.\<close>

lemma next_map_sect_ok:
  assumes "ready s" "flat_natives (proc_table s)" "i \<le> 512" "x + 1 < 2 ^ 22"
  shows "\<exists>t i' x'. next_map_sect rpc ROOT_DEV i (int x) s = Inr ((i', int x'), t) \<and> disk_frame s t \<and> ready t \<and>
    i' < 512 \<and> x \<le> x' \<and> 512 * x' + i' = 512 * x + i \<and> on_disk t x' = on_disk s x"
proof (cases "i = 512")
  case True
  obtain u where u: "WR_SECT rpc ROOT_DEV (int x) s = Inr ((), u)" "disk_frame s u" "kmem u = kmem s" "ready u"
    "disk u = (disk s)(nat (int x) := buf_sect (kmem s) 0)"
    by (rule WR_ok[OF assms(1,2), of "int x"]) (use assms(4) in auto)
  obtain t where t: "RD_SECT rpc ROOT_DEV (int x + 1) u = Inr ((), t)" "disk_frame u t"
    "kmem t = load_sects (disk u) (nat (int x + 1)) (Suc 0) (kmem u)" "ready t" "disk t = disk u"
    by (rule RD_ok[OF u(4), of "int x + 1"]) (use assms(2,4) disk_frameD(1)[OF u(2)] in auto)
  have "buf_sect (kmem t) 0 = disk u (nat (int x + 1))" using t(3) sector_length[of u] by (simp add: buf_sect_load1)
  moreover have "nat (int x + 1) = x + 1" by simp
  ultimately have "on_disk t (x + 1) = on_disk s x" using t(5) u(5) by (simp add: fun_eq_iff)
  moreover have "next_map_sect rpc ROOT_DEV i (int x) s = Inr ((0, int (x + 1)), t)"
    using True u(1) t(1) by (simp add: next_map_sect_def bindE_def op_defs add.commute)
  ultimately show ?thesis using True disk_frame_trans[OF u(2) t(2)] t(4)
    by (intro exI[of _ t] exI[of _ 0] exI[of _ "x + 1"]) simp
next
  case False
  then show ?thesis using assms disk_frame_mem[of s "kmem s"]
    by (intro exI[of _ s] exI[of _ i] exI[of _ x]) (simp add: next_map_sect_def op_defs)
qed

lemma clear_bytes_ok:
  assumes "ready s" "flat_natives (proc_table s)" "i \<le> 512" "b0 \<le> x" "512 * x + i = 512 * b0 + P"
    "\<forall>k. 8 * P \<le> k \<and> k < 8 * (P + n) \<longrightarrow> mbit (on_disk s x) b0 k" "b0 + (P + n) div 512 + 1 < 2 ^ 22"
  shows "\<exists>t i' x'. clear_bytes rpc ROOT_DEV n i (int x) left s = Inr ((i', int x', left - 8 * int n), t) \<and> disk_frame s t \<and> ready t \<and>
    i' \<le> 512 \<and> b0 \<le> x' \<and> 512 * x' + i' = 512 * b0 + P + n \<and> map_clear b0 (8 * P) (8 * (P + n)) (on_disk s x) (on_disk t x')"
  using assms
proof (induction n arbitrary: i x P left s)
  case 0
  then show ?case using disk_frame_mem[of s "kmem s"] by (intro exI[of _ s] exI[of _ i] exI[of _ x]) (simp add: op_defs)
next
  case (Suc n)
  have x: "x + 1 < 2 ^ 22" using Suc.prems(5,7) by linarith
  obtain u j y where u: "next_map_sect rpc ROOT_DEV i (int x) s = Inr ((j, int y), u)" "disk_frame s u" "ready u"
    "j < 512" "x \<le> y" "512 * y + j = 512 * x + i" "on_disk u y = on_disk s x"
    using next_map_sect_ok[OF Suc.prems(1-3) x] by blast
  define D where "D = on_disk s x"
  have P: "P = 512 * (y - b0) + j" "b0 + (y - b0) = y" using u(5,6) Suc.prems(4,5) by linarith+
  have buf: "D (b0 + (y - b0)) = buf_sect (kmem u) 0" unfolding P(2) D_def u(7)[symmetric] by simp
  have bits: "sbit (buf_sect (kmem u) 0) (8 * j + k) = mbit D b0 (8 * P + k)" if "k < 8" for k
    using mbit_sector[of "8 * j + k" D b0 "y - b0"] buf P(1) u(4) that by (simp add: algebra_simps)
  have "bit (fsbuf_byte (kmem u) j) k" if "k < 8" for k
    using bits[OF that] buf_bit[OF u(4) that] Suc.prems(6) that unfolding D_def[symmetric] by simp
  then have ff: "fsbuf_byte (kmem u) j = 0xFF" by (simp add: byte_full)
  let ?v = "u\<lparr>kmem := set_fsbuf_byte j 0 (kmem u)\<rparr>"
  have v: "ready ?v" "flat_natives (proc_table ?v)" using u(3) Suc.prems(2) disk_frameD(1)[OF u(2)] by simp_all
  have rest: "disk u z = D z" if "z \<noteq> y" for z using u(7) that unfolding D_def by (metis fun_upd_other)
  have "on_disk ?v y = D(b0 + (y - b0) := clear_run (8 * j) (8 * j + 8) (buf_sect (kmem u) 0))"
    using rest by (simp add: buf_clear_byte[OF u(4)] P(2) fun_eq_iff)
  then have "map_clear b0 (4096 * (y - b0) + 8 * j) (4096 * (y - b0) + (8 * j + 8)) D (on_disk ?v y)"
    using map_clear_sector[where d = D, OF buf, of "8 * j" "8 * j + 8"] u(4) by simp
  then have one: "map_clear b0 (8 * P) (8 * Suc P) D (on_disk ?v y)" unfolding P(1) by (simp add: algebra_simps)
  have set: "mbit (on_disk ?v y) b0 k" if "8 * Suc P \<le> k \<and> k < 8 * (Suc P + n)" for k
  proof -
    have "mbit D b0 k" using Suc.prems(6)[folded D_def] that by simp
    then show ?thesis using one that unfolding map_clear_def by auto
  qed
  have pre: "Suc j \<le> 512" "b0 \<le> y" "512 * y + Suc j = 512 * b0 + Suc P" using u(4,6) P(2) Suc.prems(5) by linarith+
  have pre2: "\<forall>k. 8 * Suc P \<le> k \<and> k < 8 * (Suc P + n) \<longrightarrow> mbit (on_disk ?v y) b0 k" using set by blast
  have pre3: "b0 + (Suc P + n) div 512 + 1 < 2 ^ 22" using Suc.prems(7) by simp
  obtain t i' x' where t: "clear_bytes rpc ROOT_DEV n (Suc j) (int y) (left - 8) ?v = Inr ((i', int x', left - 8 - 8 * int n), t)"
    "disk_frame ?v t" "ready t" "i' \<le> 512" "b0 \<le> x'" "512 * x' + i' = 512 * b0 + Suc P + n"
    "map_clear b0 (8 * Suc P) (8 * (Suc P + n)) (on_disk ?v y) (on_disk t x')"
    using Suc.IH[OF v pre pre2 pre3, of "left - 8"] by (elim exE conjE)
  have "clear_bytes rpc ROOT_DEV (Suc n) i (int x) left s = Inr ((i', int x', left - 8 * int (Suc n)), t)"
    using u(1) ff t(1) by (simp add: bindE_def op_defs modM_def)
  moreover have "disk_frame s t" by (rule disk_frame_trans[OF u(2) disk_frame_trans[OF disk_frame_mem t(2)]])
  moreover have "map_clear b0 (8 * P) (8 * (P + Suc n)) D (on_disk t x')"
    using map_clear_trans[OF one t(7)] by simp
  moreover have "512 * x' + i' = 512 * b0 + P + Suc n" using t(6) by simp
  ultimately show ?case using t(3-5) unfolding D_def by blast
qed

end

text \<open>Where \<open>clear_smap\<close> begins and how many whole bytes and last bits it clears.\<close>

definition clear_whole :: "nat \<Rightarrow> nat \<Rightarrow> nat" where
  "clear_whole K l = (if K mod 8 \<noteq> 0 then (l - (8 - K mod 8)) div 8 else l div 8)"

definition clear_rest :: "nat \<Rightarrow> nat \<Rightarrow> nat" where
  "clear_rest K l = (if K mod 8 \<noteq> 0 then (l - (8 - K mod 8)) mod 8 else 0)"

definition clear_end :: "nat \<Rightarrow> nat \<Rightarrow> nat" where
  "clear_end K l = 8 * (K div 8 + 1 + clear_whole K l) + clear_rest K l"

lemma clear_end_eq:
  assumes "8 \<le> l"
  shows "clear_end K l = (if K mod 8 \<noteq> 0 then K + l else K + 8 + 8 * (l div 8))"
proof (cases "K mod 8 = 0")
  case False
  have "8 * ((l - (8 - K mod 8)) div 8) + (l - (8 - K mod 8)) mod 8 = l - (8 - K mod 8)" by simp
  moreover have "8 * (K div 8) + K mod 8 = K" "K mod 8 < 8" by simp_all
  ultimately show ?thesis using False assms unfolding clear_end_def clear_whole_def clear_rest_def by simp
qed (auto simp: clear_end_def clear_whole_def clear_rest_def)

lemma clear_smap_numbers:
  assumes "good_sb sb" "i_start_sect x = u32_int (run_start sb K)" "K < 2 ^ 30" "smap_start sb + K div 4096 < 2 ^ 22" "8 \<le> l" "l < 2 ^ 30"
  shows "sint (i_start_sect x - n_1st_sect sb + 1) = int K"
    "sint (2 + nr_imap_sects sb + u32_int (c_div (c_div (int K) 8) SECTOR_SIZE)) = int (smap_start sb + K div 4096)"
    "nat (c_mod (c_div (int K) 8) SECTOR_SIZE) = K div 8 mod 512" "c_mod (int K) 8 = int (K mod 8)"
    "nat (if c_mod (int K) 8 \<noteq> 0 then c_div (int l - (8 - c_mod (int K) 8)) 8 else c_div (int l) 8) = clear_whole K l"
    "nat (int (l - (8 - K mod 8)) - 8 * int (clear_whole K l)) = clear_rest K l"
proof -
  have d8: "c_div (int a) 8 = int (a div 8)" "c_mod (int a) 8 = int (a mod 8)" "c_div (int a) 512 = int (a div 512)"
    "c_mod (int a) 512 = int (a mod 512)" for a by (simp_all add: zdiv_int zmod_int)
  have "u32_int (run_start sb K) = u32_int (int K - 1) + n_1st_sect sb" by (simp add: run_start_def u32_int_def)
  then have "i_start_sect x - n_1st_sect sb + 1 = of_nat K" unfolding assms(2) by (simp add: u32_int_def)
  moreover have "K < 2 ^ 31" using assms(3) by simp
  ultimately show "sint (i_start_sect x - n_1st_sect sb + 1) = int K" by (simp only: sint_of_nat)
  have "2 + nr_imap_sects sb + u32_int (c_div (c_div (int K) 8) SECTOR_SIZE) = of_nat (smap_start sb + K div 4096)"
    by (simp add: d8 smap_start_def u32_int_def div_mult2_eq[symmetric])
  moreover have "smap_start sb + K div 4096 < 2 ^ 31" using assms(4) by simp
  ultimately show "sint (2 + nr_imap_sects sb + u32_int (c_div (c_div (int K) 8) SECTOR_SIZE)) = int (smap_start sb + K div 4096)"
    by (simp only: sint_of_nat)
  show "nat (c_mod (c_div (int K) 8) SECTOR_SIZE) = K div 8 mod 512" by (simp add: d8)
  show m: "c_mod (int K) 8 = int (K mod 8)" by (simp add: d8)
  have sub: "int l - (8 - int (K mod 8)) = int (l - (8 - K mod 8))" using assms(5) mod_less_divisor[of 8 K] by linarith
  show "nat (if c_mod (int K) 8 \<noteq> 0 then c_div (int l - (8 - c_mod (int K) 8)) 8 else c_div (int l) 8) = clear_whole K l"
    unfolding m sub d8 clear_whole_def by (simp only: of_nat_eq_0_iff nat_int if_distrib[of nat])
  show "nat (int (l - (8 - K mod 8)) - 8 * int (clear_whole K l)) = clear_rest K l"
  proof (cases "K mod 8 = 0")
    case False
    have "8 * ((l - (8 - K mod 8)) div 8) + (l - (8 - K mod 8)) mod 8 = l - (8 - K mod 8)" by simp
    then show ?thesis unfolding clear_whole_def clear_rest_def if_P[OF False] by linarith
  next
    case True
    have "l = 8 * (l div 8) + l mod 8" "l mod 8 < 8" by simp_all
    then have "l - 8 < 8 * (l div 8)" using assms(5) by linarith
    then show ?thesis using True unfolding clear_whole_def clear_rest_def by simp
  qed
qed

context block_device begin

text \<open>The three steps of \<open>clear_smap\<close>: the rest of the first byte, whole bytes, the bits of the last.\<close>

lemma first_byte_cleared:
  fixes b0 K :: nat
  assumes "ready s" "flat_natives (proc_table s)" "b0 + K div 4096 < 2 ^ 22" "8 \<le> l"
    "\<forall>k. K \<le> k \<and> k < 8 * (K div 8 + 1) \<longrightarrow> mbit (disk s) b0 k"
  shows "\<exists>u m1. RD_SECT rpc ROOT_DEV (int (b0 + K div 4096)) s = Inr ((), u) \<and> disk_frame s u \<and> ready u \<and>
    clear_first (K div 8 mod 512) [K mod 8..<8] (kmem u) (int l) = Inr (m1, int (l - (8 - K mod 8))) \<and>
    map_clear b0 K (8 * (K div 8 + 1)) (disk s) (on_disk (u\<lparr>kmem := m1\<rparr>) (b0 + K div 4096))"
proof -
  let ?i = "K div 8 mod 512" and ?x = "b0 + K div 4096"
  have K: "8 * ?i + K mod 8 + 4096 * (K div 4096) = K" "K div 8 = 512 * (K div 4096) + ?i" "?i < 512"
  proof -
    have "K div 4096 = K div 8 div 512" by (simp add: div_mult2_eq[symmetric])
    then show "K div 8 = 512 * (K div 4096) + ?i" by simp
    then show "8 * ?i + K mod 8 + 4096 * (K div 4096) = K" using div_mult_mod_eq[of K 8] by linarith
  qed simp
  have pos: "4096 * (K div 4096) + (8 * ?i + K mod 8) = K" "4096 * (K div 4096) + (8 * ?i + 8) = 8 * (K div 8 + 1)"
    using K(1) arg_cong[OF K(2), of "\<lambda>t. 8 * t + 8"] by simp_all
  obtain u where u: "RD_SECT rpc ROOT_DEV (int ?x) s = Inr ((), u)" "disk_frame s u"
    "kmem u = load_sects (disk s) (nat (int ?x)) (Suc 0) (kmem s)" "ready u" "disk u = disk s"
    by (rule RD_ok[OF assms(1,2), of "int ?x"]) (use assms(3) in auto)
  have bu: "buf_sect (kmem u) 0 = disk s ?x" using u(3) sector_length[of s ?x] unfolding nat_int by (simp add: buf_sect_load1)
  have bits: "sbit (buf_sect (kmem u) 0) k" if "8 * ?i + K mod 8 \<le> k \<and> k < 8 * ?i + 8" for k
  proof -
    have "mbit (disk s) b0 (4096 * (K div 4096) + k)" by (rule assms(5)[rule_format]) (use that pos in linarith)
    moreover have "k < 4096" using that K(3) by linarith
    ultimately show ?thesis unfolding bu by (simp add: mbit_sector)
  qed
  have "K mod 8 \<le> 8" "8 - K mod 8 \<le> l" "\<forall>k. 8 * ?i + K mod 8 \<le> k \<and> k < 8 * ?i + 8 \<longrightarrow> sbit (buf_sect (kmem u) 0) k"
    using assms(4) bits by auto
  from clear_first_ok[OF K(3) this] obtain m1 where m1: "clear_first ?i [K mod 8..<8] (kmem u) (int l) = Inr (m1, int (l - (8 - K mod 8)))"
    "buf_sect m1 0 = clear_run (8 * ?i + K mod 8) (8 * ?i + 8) (disk s ?x)"
    unfolding bu by blast
  have "8 * ?i + K mod 8 \<le> 8 * ?i + 8" "8 * ?i + 8 \<le> 4096" using K(3) by simp_all
  from map_clear_sector[where d = "disk s" and i = "K div 4096" and ?b0.0 = b0, OF refl sector_length this]
  have "map_clear b0 K (8 * (K div 8 + 1)) (disk s) (on_disk (u\<lparr>kmem := m1\<rparr>) ?x)"
    unfolding pos by (simp add: m1(2) u(5))
  then show ?thesis using u(1,2,4) m1(1) by blast
qed

lemma last_bits_cleared:
  assumes "ready r" "flat_natives (proc_table r)" "j < 512" "m < 8" "z < 2 ^ 22" "b0 \<le> z" "E = 4096 * (z - b0) + 8 * j"
    "\<forall>k. E \<le> k \<and> k < E + m \<longrightarrow> mbit (on_disk r z) b0 k"
  shows "\<exists>m2 t. clear_last j [0..<m] (kmem r) = Inr m2 \<and> WR_SECT rpc ROOT_DEV (int z) (r\<lparr>kmem := m2\<rparr>) = Inr ((), t) \<and>
    disk_frame r t \<and> ready t \<and> map_clear b0 E (E + m) (on_disk r z) (disk t)"
proof -
  define D where "D = on_disk r z"
  have z: "b0 + (z - b0) = z" using assms(6) by simp
  have buf: "D (b0 + (z - b0)) = buf_sect (kmem r) 0" unfolding z D_def by simp
  have "\<forall>k. 8 * j + 0 \<le> k \<and> k < 8 * j + m \<longrightarrow> sbit (buf_sect (kmem r) 0) k"
  proof (intro allI impI)
    fix k assume k: "8 * j + 0 \<le> k \<and> k < 8 * j + m"
    then have "E \<le> 4096 * (z - b0) + k \<and> 4096 * (z - b0) + k < E + m" "k < 4096"
      using assms(3,4,7) by linarith+
    then show "sbit (buf_sect (kmem r) 0) k" using assms(8) mbit_sector[of k D b0 "z - b0"] buf unfolding D_def by metis
  qed
  from clear_last_ok[OF assms(3) _ this] assms(4) obtain m2 where m2: "clear_last j [0..<m] (kmem r) = Inr m2"
    "buf_sect m2 0 = clear_run (8 * j) (8 * j + m) (buf_sect (kmem r) 0)" by auto
  let ?r = "r\<lparr>kmem := m2\<rparr>"
  obtain t where t: "WR_SECT rpc ROOT_DEV (int z) ?r = Inr ((), t)" "disk_frame ?r t" "ready t"
    "disk t = (disk ?r)(nat (int z) := buf_sect (kmem ?r) 0)"
    by (rule WR_ok[of ?r "int z"]) (use assms(1,2,5) in auto)
  have "8 * j \<le> 8 * j + m" "8 * j + m \<le> 4096" using assms(3,4) by linarith+
  from map_clear_sector[where d = D, OF buf _ this]
  have "map_clear b0 E (E + m) D (disk t)"
    unfolding t(4) nat_int assms(7) using z by (simp add: m2(2) D_def add.assoc)
  then show ?thesis using m2(1) t(1,3) disk_frame_trans[OF disk_frame_mem t(2)] unfolding D_def by blast
qed

lemma clear_smap_ok:
  assumes "ready s" "flat_natives (proc_table s)" "good_sb sb" "i_start_sect x = u32_int (run_start sb K)" "sint (i_nr_sects x) = int l"
    "8 \<le> l" "clear_end K l \<le> 4096 * N" "N < 2 ^ 18" "smap_start sb + N + 1 < 2 ^ 22"
    "\<forall>k. K \<le> k \<and> k < clear_end K l \<longrightarrow> mbit (disk s) (smap_start sb) k"
  shows "\<exists>t. clear_smap rpc ROOT_DEV sb x s = Inr ((), t) \<and> disk_frame s t \<and> ready t \<and>
    map_clear (smap_start sb) K (clear_end K l) (disk s) (disk t)"
proof -
  let ?b0 = "smap_start sb" and ?i = "K div 8 mod 512" and ?n = "clear_whole K l" and ?m = "clear_rest K l"
  let ?x = "?b0 + K div 4096" and ?P = "K div 8 + 1"
  have e: "K + l \<le> clear_end K l" "clear_end K l = 8 * (?P + ?n) + ?m"
    using clear_end_eq[OF assms(6), of K] by (auto simp: clear_end_def)
  have K: "K div 8 = 512 * (K div 4096) + ?i" "?i < 512" "?m < 8" "K < 8 * ?P" "8 * ?P \<le> K + l"
    using div_mult_mod_eq[of "K div 8" 512] dividend_less_times_div[of 8 K] div_times_less_eq_dividend[of K 8] assms(6)
    by (simp_all add: div_mult2_eq[symmetric] clear_rest_def)
  have le: "8 * (?P + ?n) \<le> 4096 * N" "K + l \<le> 4096 * N" using e assms(7) by linarith+
  then have "(?P + ?n) div 512 \<le> N" "K div 4096 \<le> N"
    using div_le_mono[of "?P + ?n" "512 * N" 512] div_le_mono[of K "4096 * N" 4096] by simp_all
  moreover have "4096 * N < 2 ^ 30" using assms(8) by simp
  ultimately have num: "K < 2 ^ 30" "l < 2 ^ 30" "?x < 2 ^ 22" "?b0 + (?P + ?n) div 512 + 1 < 2 ^ 22"
    using le assms(9) by linarith+
  note n = clear_smap_numbers[OF assms(3,4) num(1,3) assms(6) num(2)]
  have "\<forall>k. K \<le> k \<and> k < 8 * ?P \<longrightarrow> mbit (disk s) ?b0 k" using assms(10) K(5) e(1) by simp
  from first_byte_cleared[OF assms(1,2) num(3) assms(6) this] obtain u m1 where
    u: "RD_SECT rpc ROOT_DEV (int ?x) s = Inr ((), u)" "disk_frame s u" "ready u"
    and m1: "clear_first ?i [K mod 8..<8] (kmem u) (int l) = Inr (m1, int (l - (8 - K mod 8)))"
    and one: "map_clear ?b0 K (8 * ?P) (disk s) (on_disk (u\<lparr>kmem := m1\<rparr>) ?x)" by blast
  let ?v = "u\<lparr>kmem := m1\<rparr>"
  have v: "ready ?v" "flat_natives (proc_table ?v)" using u(3) assms(2) disk_frameD(1)[OF u(2)] by simp_all
  have left: "mbit d ?b0 k" if "map_clear ?b0 K E (disk s) d" "K \<le> E" "E \<le> k \<and> k < clear_end K l" for d E k
    using that assms(10) unfolding map_clear_def by auto
  have lin: "512 * (b + a) + Suc c = 512 * b + (k + 1)" if "k = 512 * a + c" for a b c k :: nat using that by simp
  have pre: "Suc ?i \<le> 512" "?b0 \<le> ?x" "512 * ?x + Suc ?i = 512 * ?b0 + ?P"
    using lin[OF K(1)] K(2) by (simp_all add: Suc_le_eq)
  have pre2: "\<forall>k. 8 * ?P \<le> k \<and> k < 8 * (?P + ?n) \<longrightarrow> mbit (on_disk ?v ?x) ?b0 k"
    by (intro allI impI left[OF one]) (use e(2) K(4) in linarith)+
  obtain w i y where w: "clear_bytes rpc ROOT_DEV ?n (Suc ?i) (int ?x) (int (l - (8 - K mod 8))) ?v =
      Inr ((i, int y, int (l - (8 - K mod 8)) - 8 * int ?n), w)" "disk_frame ?v w" "ready w" "i \<le> 512" "?b0 \<le> y"
    "512 * y + i = 512 * ?b0 + ?P + ?n" "map_clear ?b0 (8 * ?P) (8 * (?P + ?n)) (on_disk ?v ?x) (on_disk w y)"
    using clear_bytes_ok[OF v pre pre2 num(4), of "int (l - (8 - K mod 8))"] by (elim exE conjE)
  have fw: "disk_frame s w" by (rule disk_frame_trans[OF u(2) disk_frame_trans[OF disk_frame_mem w(2)]])
  have "flat_natives (proc_table w)" "y + 1 < 2 ^ 22"
    using assms(2) disk_frameD(1)[OF fw] w(4,6) num(4) by (simp, linarith)
  then obtain r j z where r: "next_map_sect rpc ROOT_DEV i (int y) w = Inr ((j, int z), r)" "disk_frame w r" "ready r"
    "j < 512" "y \<le> z" "512 * z + j = 512 * y + i" "on_disk r z = on_disk w y"
    using next_map_sect_ok[OF w(3) _ w(4)] by blast
  have fr: "disk_frame s r" by (rule disk_frame_trans[OF fw r(2)])
  have two: "map_clear ?b0 K (8 * (?P + ?n)) (disk s) (on_disk r z)"
    unfolding r(7) by (rule map_clear_trans[OF one w(7)]) (use less_imp_le[OF K(4)] in simp_all)
  have lin2: "8 * p = 4096 * (z - b) + 8 * j" if "b \<le> z" "512 * z + j = 512 * b + p" for b p using that by linarith
  have z: "?b0 \<le> z" "8 * (?P + ?n) = 4096 * (z - ?b0) + 8 * j" "z < 2 ^ 22" "flat_natives (proc_table r)"
    using w(4-6) r(5,6) num(4) lin2[of ?b0 "?P + ?n"] assms(2) disk_frameD(1)[OF fr] by (simp_all add: add.assoc)
  have "\<forall>k. 8 * (?P + ?n) \<le> k \<and> k < 8 * (?P + ?n) + ?m \<longrightarrow> mbit (on_disk r z) ?b0 k"
    by (intro allI impI left[OF two]) (use e(2) K(4) in simp_all)
  from last_bits_cleared[OF r(3) z(4) r(4) K(3) z(3,1,2) this] obtain m2 t where
    m2: "clear_last j [0..<?m] (kmem r) = Inr m2" and t: "WR_SECT rpc ROOT_DEV (int z) (r\<lparr>kmem := m2\<rparr>) = Inr ((), t)"
    "disk_frame r t" "ready t" and three: "map_clear ?b0 (8 * (?P + ?n)) (clear_end K l) (on_disk r z) (disk t)"
    unfolding e(2) by blast
  have "clear_smap rpc ROOT_DEV sb x s = Inr ((), t)"
    unfolding clear_smap_def Let_def assms(5) n(1) n(2,3,5) unfolding n(4)
    using u(1) m1 w(1) r(1) m2 t(1) n(6) by (simp add: bindE_def liftM_def)
  moreover have "map_clear ?b0 K (clear_end K l) (disk s) (disk t)"
    by (rule map_clear_trans[OF two three]) (use K(4) e(2) in simp_all)
  ultimately show ?thesis using t(3) disk_frame_trans[OF fr t(2)] by blast
qed

end

subsection \<open>A run that begins a byte\<close>

text \<open>
  C29. When the first of a file's sectors has bit 0 of a byte of the sector map, the loop of
  \<open>do_unlink\<close> over the map gives back eight sectors more than the file has, those that follow it,
  whatever file they belong to.
\<close>

theorem clear_smap_byte_too_many:
  assumes "block_device rpc disk ready" "ready s" "flat_natives (proc_table s)" "good_sb sb" "0 < nr_inode_sects sb"
    "i_start_sect x = u32_int (run_start sb K)" "i_nr_sects x = of_nat l" "K mod 8 = 0" "l mod 8 = 0" "0 < l"
    "K + l + 8 \<le> 4096 * unat (nr_smap_sects sb)" "unat (nr_smap_sects sb) < 2 ^ 18"
    "\<forall>k. K \<le> k \<and> k < K + l + 8 \<longrightarrow> mbit (disk s) (smap_start sb) k"
  shows "\<exists>t. clear_smap rpc ROOT_DEV sb x s = Inr ((), t) \<and> disk_frame s t \<and>
    (\<forall>k. mbit (disk t) (smap_start sb) k = (mbit (disk s) (smap_start sb) k \<and> \<not> (K \<le> k \<and> k < K + l + 8)))"
proof -
  have l: "8 \<le> l" using assms(9,10) by (metis dvd_imp_le mod_0_imp_dvd)
  have e: "clear_end K l = K + l + 8" using clear_end_eq[OF l, of K] assms(8,9) by (auto simp: mod_eq_0_iff_dvd)
  have "l < 2 ^ 31" using assms(11,12) by simp
  then have n: "sint (i_nr_sects x) = int l" unfolding assms(7) by (rule sint_of_nat)
  have "smap_start sb + unat (nr_smap_sects sb) + 1 < 2 ^ 22"
    using assms(4,5) by (simp add: good_sb_def smap_start_def word_less_nat_alt)
  from block_device.clear_smap_ok[OF assms(1-4,6) n l _ assms(12) this] assms(11,13)
  show ?thesis unfolding e map_clear_def by (auto simp: mult.commute)
qed

definition full_example :: "drive fs_hd" where
  "full_example = fs_example\<lparr>g_hw := (g_hw fs_example)\<lparr>d_data := (\<lambda>n i. if n = 0x1003 then 0xFF else 0)\<rparr>\<rparr>"

theorem clear_smap_byte_too_many_witness:
  "\<exists>t. clear_smap example_rpc ROOT_DEV ((mkfs_super 0x9000)\<lparr>sb_dev := ROOT_DEV\<rparr>) (fresh_inode 6 276\<lparr>i_nr_sects := 8\<rparr>) full_example = Inr ((), t) \<and>
     mbit (fs_disk drive_sector full_example) 3 16 \<and> \<not> mbit (fs_disk drive_sector t) 3 16"
proof -
  let ?sb = "(mkfs_super 0x9000)\<lparr>sb_dev := ROOT_DEV\<rparr>" and ?x = "fresh_inode 6 276\<lparr>i_nr_sects := 8\<rparr>" and ?d = "fs_disk drive_sector full_example"
  have st: "fs_ready (\<lambda>h. d_phase h = Idle) full_example" "flat_natives (proc_table full_example)"
    using fs_example_ok(1,2) by (simp_all add: full_example_def fs_ready_def root_base_def)
  have d: "?d 3 = replicate 512 0xFF"
    by (rule nth_equalityI) (simp_all add: fs_disk_def drive_sector_def full_example_def fs_example_def kstate.defs root_base_def)
  have m: "mbit ?d 3 k" if "k < 4096" for k
    using that byte_full[THEN iffD1, OF refl] by (simp add: mbit_def sbit_def d)
  have b: "smap_start ?sb = 3" "unat (nr_smap_sects ?sb) = 10" by (rule dir_example_sb)+
  have x: "0 < nr_inode_sects ?sb" "i_start_sect ?x = u32_int (run_start ?sb 8)" "i_nr_sects ?x = of_nat 8"
    by (simp_all add: mkfs_super_def fresh_inode_def run_start_def u32_int_def)
  have n: "(8 :: nat) mod 8 = 0" "(0 :: nat) < 8" "8 + 8 + 8 \<le> 4096 * unat (nr_smap_sects ?sb)" "unat (nr_smap_sects ?sb) < 2 ^ 18"
    "\<forall>k. 8 \<le> k \<and> k < 8 + 8 + 8 \<longrightarrow> mbit ?d (smap_start ?sb) k"
    unfolding b using m by simp_all
  from clear_smap_byte_too_many[OF drive_fs.block_device_axioms[of "lba_cmd 0 0 0 0" "\<lambda>_ _. fail (Spin ''no driver'')"]
      st fs_example_sb(1) x n(1,1,2-5)]
  obtain t where t: "clear_smap example_rpc ROOT_DEV ?sb ?x full_example = Inr ((), t)"
    "\<forall>k. mbit (fs_disk drive_sector t) 3 k = (mbit ?d 3 k \<and> \<not> (8 \<le> k \<and> k < 8 + 8 + 8))" unfolding b by blast
  then show ?thesis using m[of 16] by auto
qed

end
