(* ===== verification/Fs_Unlink.thy ===== *)
theory Fs_Unlink
  imports Fs_Clear
begin

section \<open>Removing a file\<close>

text \<open>
  \<open>do_unlink\<close> of fs/opera.c: the directory entry, and the call as a whole.
\<close>

subsection \<open>The entry\<close>

text \<open>The size of the directory up to its last entry in use, of the first \<open>q\<close>.\<close>

fun used_size :: "(nat \<Rightarrow> byte list) \<Rightarrow> nat \<Rightarrow> nat \<Rightarrow> nat" where
  "used_size d sect0 0 = 0"
| "used_size d sect0 (Suc q) = (if dent_inode d sect0 q \<noteq> 0 then 16 * Suc q else used_size d sect0 q)"

lemma used_size_le: "used_size d sect0 q \<le> 16 * q"
  by (induction q) auto

text \<open>Entry \<open>k\<close> is the first of \<open>nr\<close> that has the number.\<close>

definition first_holder :: "(nat \<Rightarrow> byte list) \<Rightarrow> nat \<Rightarrow> nat \<Rightarrow> int \<Rightarrow> nat \<Rightarrow> bool" where
  "first_holder d sect0 nr num k = (k < nr \<and> dent_inode d sect0 k = num \<and> (\<forall>q < k. dent_inode d sect0 q \<noteq> num))"

definition scanned :: "(nat \<Rightarrow> byte list) \<Rightarrow> nat \<Rightarrow> nat \<Rightarrow> int \<times> u32 \<times> u32" where
  "scanned d sect0 q = (int q, of_nat (16 * q), of_nat (used_size d sect0 q))"

lemma unlink_entries_step:
  assumes "buf_sect m 0 = d (sect0 + i)" "first_holder d sect0 nr num k" "j < 32" "32 * i + j < k"
  shows "unlink_entries m num (int nr) (j # js) (scanned d sect0 (32 * i + j)) =
    unlink_entries m num (int nr) js (scanned d sect0 (32 * i + Suc j))"
proof -
  have "de_inode m j = dent_inode d sect0 (32 * i + j)" by (rule entry_inode[where d = d, OF assms(3,1)])
  moreover have "dent_inode d sect0 (32 * i + j) \<noteq> num" "32 * i + j < nr" using assms(2,4) by (auto simp: first_holder_def)
  ultimately show ?thesis by (simp add: scanned_def ac_simps)
qed

lemma unlink_entries_here:
  assumes "buf_sect m 0 = d (sect0 + i)" "first_holder d sect0 nr num k" "32 * i + j \<le> k" "k < 32 * Suc i"
  shows "unlink_entries m num (int nr) [j..<32] (scanned d sect0 (32 * i + j)) =
    ((int (Suc k), of_nat (16 * k), of_nat (used_size d sect0 k)), Some (k - 32 * i))"
  using assms(3)
proof (induction "k - (32 * i + j)" arbitrary: j)
  case 0
  then have k: "k = 32 * i + j" "j < 32" using assms(4) by simp_all
  then have up: "[j..<32] = j # [Suc j..<32]" by (simp add: upt_conv_Cons)
  have "de_inode m j = dent_inode d sect0 k" unfolding k(1) by (rule entry_inode[where d = d, OF k(2) assms(1)])
  then show ?case using assms(2) k unfolding up by (simp add: first_holder_def scanned_def)
next
  case (Suc c)
  then have j: "j < 32" "32 * i + j < k" using assms(4) by simp_all
  then have up: "[j..<32] = j # [Suc j..<32]" by (simp add: upt_conv_Cons)
  show ?case unfolding up unlink_entries_step[where d = d, OF assms(1,2) j]
    using Suc.hyps(1)[of "Suc j"] Suc.hyps(2) j by simp
qed

lemma unlink_entries_further:
  assumes "buf_sect m 0 = d (sect0 + i)" "first_holder d sect0 nr num k" "32 * Suc i \<le> k" "j \<le> 32"
  shows "unlink_entries m num (int nr) [j..<32] (scanned d sect0 (32 * i + j)) = (scanned d sect0 (32 * Suc i), None)"
  using assms(4)
proof (induction "32 - j" arbitrary: j)
  case 0
  then have "j = 32" using assms(4) by simp
  then show ?case by (simp add: add.commute)
next
  case (Suc c)
  then have j: "j < 32" "32 * i + j < k" using assms(3) by simp_all
  then have up: "[j..<32] = j # [Suc j..<32]" by (simp add: upt_conv_Cons)
  show ?case unfolding up unlink_entries_step[where d = d, OF assms(1,2) j]
    using Suc.hyps(1)[of "Suc j"] Suc.hyps(2) j by simp
qed

lemma memset_store: "memset n a 0 m = store_bytes m a (replicate n 0)"
  by (induction n arbitrary: a m) auto

definition empty_entry :: "nat \<Rightarrow> byte list \<Rightarrow> byte list" where
  "empty_entry j sect = splice (16 * j) (replicate 16 0) sect"

lemma empty_entry_facts:
  assumes "j < 32" "length sect = 512"
  shows "length (empty_entry j sect) = 512"
    "x < 512 \<Longrightarrow> empty_entry j sect ! x = (if 16 * j \<le> x \<and> x < 16 * j + 16 then 0 else sect ! x)"
  using assms by (auto simp: empty_entry_def splice_length splice_nth less_diff_conv2 intro!: nth_replicate)

lemma buf_sect_memset: "j < 32 \<Longrightarrow> buf_sect (memset 16 (dentry j) 0 m) 0 = empty_entry j (buf_sect m 0)"
  using buf_sect_store_bytes[of "16 * j" "replicate 16 0" m]
  unfolding memset_store by (simp add: dentry_def empty_entry_def)

definition freed_disk :: "(nat \<Rightarrow> byte list) \<Rightarrow> nat \<Rightarrow> nat \<Rightarrow> nat \<Rightarrow> byte list" where
  "freed_disk d sect0 k = d(sect0 + k div 32 := empty_entry (k mod 32) (d (sect0 + k div 32)))"

lemma freed_entry:
  assumes "\<And>q. length (d q) = 512"
  shows "dent_inode (freed_disk d sect0 k) sect0 k = 0" "dent_name (freed_disk d sect0 k) sect0 k = replicate 12 0"
    "q \<noteq> k \<Longrightarrow> dent_inode (freed_disk d sect0 k) sect0 q = dent_inode d sect0 q \<and>
      dent_name (freed_disk d sect0 k) sect0 q = dent_name d sect0 q"
    "\<forall>x < 16. freed_disk d sect0 k (sect0 + k div 32) ! (16 * (k mod 32) + x) = 0"
proof -
  let ?d = "freed_disk d sect0 k" and ?j = "k mod 32"
  have j: "?j < 32" by simp
  note f = empty_entry_facts[OF j assms]
  have lt: "16 * ?j + x < 512" if "x < 16" for x using that j by linarith
  show z: "\<forall>x < 16. ?d (sect0 + k div 32) ! (16 * ?j + x) = 0"
    using f(2)[OF lt] by (simp add: freed_disk_def)
  show "dent_inode ?d sect0 k = 0"
    unfolding dent_inode_def le32_def using z[rule_format, of 0] z[rule_format, of 1] z[rule_format, of 2] z[rule_format, of 3] by simp
  show "dent_name ?d sect0 k = replicate 12 0"
  proof (rule nth_equalityI)
    have l: "length (?d (sect0 + k div 32)) = 512" using f(1) by (simp add: freed_disk_def)
    then show "length (dent_name ?d sect0 k) = length (replicate 12 (0 :: byte))" using j by (simp add: dent_name_def)
    fix i assume "i < length (dent_name ?d sect0 k)"
    then have i: "i < 12" by (simp add: dent_name_def)
    then have "?d (sect0 + k div 32) ! (16 * ?j + (4 + i)) = 0" using z by simp
    then show "dent_name ?d sect0 k ! i = replicate 12 0 ! i" using i l j by (simp add: dent_name_def add.assoc)
  qed
  assume "q \<noteq> k"
  have "?d (sect0 + q div 32) ! x = d (sect0 + q div 32) ! x" if x: "16 * (q mod 32) \<le> x" "x < 16 * (q mod 32) + 16" for x
  proof (cases "q div 32 = k div 32")
    case True
    then have "q mod 32 \<noteq> ?j" using \<open>q \<noteq> k\<close> by (metis div_mult_mod_eq)
    moreover have "q mod 32 < 32" by simp
    ultimately have "x < 512" "x < 16 * ?j \<or> 16 * ?j + 16 \<le> x" using x by linarith+
    then show ?thesis using f(2) by (auto simp: freed_disk_def True)
  qed (simp add: freed_disk_def)
  moreover have "length (?d (sect0 + q div 32)) = 512" using assms f(1) by (simp add: freed_disk_def)
  ultimately show "dent_inode ?d sect0 q = dent_inode d sect0 q \<and> dent_name ?d sect0 q = dent_name d sect0 q"
    using dent_cong[of d sect0 q ?d] assms by blast
qed

context block_device begin

lemma unlink_sects_ok:
  assumes "ready s" "flat_natives (proc_table s)" "sect0 + n \<le> 2 ^ 22" "first_holder (disk s) sect0 nr num k" "k < 32 * n" "32 * i \<le> k"
  shows "\<exists>t. unlink_sects rpc ROOT_DEV (int sect0) num (int nr) (map int [i..<n]) (scanned (disk s) sect0 (32 * i)) s =
      Inr ((int (Suc k), of_nat (used_size (disk s) sect0 k), True), t) \<and>
    disk_frame s t \<and> ready t \<and> disk t = freed_disk (disk s) sect0 k"
  using assms(1,2,4,6)
proof (induction "n - i" arbitrary: i s)
  case 0
  then show ?case using assms(5) by simp
next
  case (Suc c)
  then have i: "i < n" using assms(5) by simp
  then have up: "map int [i..<n] = int i # map int [Suc i..<n]" by (simp add: upt_conv_Cons)
  obtain u where u: "RD_SECT rpc ROOT_DEV (int sect0 + int i) s = Inr ((), u)" "disk_frame s u"
    "kmem u = load_sects (disk s) (nat (int sect0 + int i)) (Suc 0) (kmem s)" "ready u" "disk u = disk s"
    by (rule RD_ok[OF Suc.prems(1,2), of "int sect0 + int i"]) (use i assms(3) in auto)
  have "nat (int sect0 + int i) = sect0 + i" by simp
  then have b: "buf_sect (kmem u) 0 = disk s (sect0 + i)" using u(3) sector_length[of s "sect0 + i"] by (simp add: buf_sect_load1)
  show ?case
  proof (cases "k < 32 * Suc i")
    case True
    then have k: "k div 32 = i" "k mod 32 = k - 32 * i" "k - 32 * i < 32" using Suc.prems(4) by (auto simp: div_nat_eqI modulo_nat_def)
    have e: "unlink_entries (kmem u) num (int nr) [0..<32] (scanned (disk s) sect0 (32 * i)) =
        ((int (Suc k), of_nat (16 * k), of_nat (used_size (disk s) sect0 k)), Some (k - 32 * i))"
      using unlink_entries_here[where d = "disk s", OF b Suc.prems(3), of 0] Suc.prems(4) True by simp
    let ?v = "u\<lparr>kmem := memset 16 (dentry (k - 32 * i)) 0 (kmem u)\<rparr>"
    have v: "ready ?v" "flat_natives (proc_table ?v)" using u(4) Suc.prems(2) disk_frameD(1)[OF u(2)] by simp_all
    obtain t where t: "WR_SECT rpc ROOT_DEV (int sect0 + int i) ?v = Inr ((), t)" "disk_frame ?v t" "ready t"
      "disk t = (disk ?v)(nat (int sect0 + int i) := buf_sect (kmem ?v) 0)"
      by (rule WR_ok[OF v, of "int sect0 + int i"]) (use i assms(3) in auto)
    have "disk t = freed_disk (disk s) sect0 k"
      unfolding t(4) \<open>nat (int sect0 + int i) = sect0 + i\<close> using buf_sect_memset[OF k(3), of "kmem u"] b k(1,2) u(5)
      by (simp add: freed_disk_def)
    moreover have "unlink_sects rpc ROOT_DEV (int sect0) num (int nr) (map int [i..<n]) (scanned (disk s) sect0 (32 * i)) s =
        Inr ((int (Suc k), of_nat (used_size (disk s) sect0 k), True), t)"
      unfolding up scanned_def using u(1) e t(1) by (simp add: scanned_def bindE_def op_defs modM_def Let_def)
    ultimately show ?thesis using t(3) disk_frame_trans[OF u(2) disk_frame_trans[OF disk_frame_mem t(2)]] by blast
  next
    case False
    then have k: "32 * Suc i \<le> k" "k < nr" using Suc.prems(3) by (simp_all add: first_holder_def)
    have e: "unlink_entries (kmem u) num (int nr) [0..<32] (scanned (disk s) sect0 (32 * i)) = (scanned (disk s) sect0 (32 * Suc i), None)"
      using unlink_entries_further[where d = "disk s", OF b Suc.prems(3) k(1), of 0] by simp
    have c: "c = n - Suc i" "flat_natives (proc_table u)" "first_holder (disk u) sect0 nr num k"
      using Suc.hyps(2) Suc.prems(2,3) disk_frameD(1)[OF u(2)] u(5) by simp_all
    obtain t where t: "unlink_sects rpc ROOT_DEV (int sect0) num (int nr) (map int [Suc i..<n]) (scanned (disk u) sect0 (32 * Suc i)) u =
        Inr ((int (Suc k), of_nat (used_size (disk u) sect0 k), True), t)"
      "disk_frame u t" "ready t" "disk t = freed_disk (disk u) sect0 k"
      using Suc.hyps(1)[OF c(1) u(4) c(2,3) k(1)] by blast
    have "unlink_sects rpc ROOT_DEV (int sect0) num (int nr) (map int [i..<n]) (scanned (disk s) sect0 (32 * i)) s =
        unlink_sects rpc ROOT_DEV (int sect0) num (int nr) (map int [Suc i..<n]) (scanned (disk s) sect0 (32 * Suc i)) u"
      unfolding up scanned_def using u(1) e k by (simp add: scanned_def bindE_def op_defs Let_def)
    then show ?thesis using t u(5) disk_frame_trans[OF u(2) t(2)] by (intro exI[of _ t]) simp
  qed
qed

end

definition shrunk_dir :: "(nat \<Rightarrow> byte list) \<Rightarrow> inode \<Rightarrow> nat \<Rightarrow> nat \<Rightarrow> nat \<Rightarrow> inode" where
  "shrunk_dir d x sect0 nr k = (if Suc k = nr then x\<lparr>i_size := of_nat (used_size d sect0 k)\<rparr> else x)"

context block_device begin

lemma remove_entry_ok:
  assumes "ready s" "flat_natives (proc_table s)" "dir_ok (inode_table s d) sect0 n" "unat (i_size (inode_table s d)) = 16 * nr"
    "first_holder (disk s) sect0 nr num k"
  shows "\<exists>t. remove_entry rpc d num s = Inr ((), t) \<and> ready t \<and> proc_table t = proc_table s \<and> myroot_inode t = myroot_inode s \<and>
    inode_table t = (inode_table s)(d := shrunk_dir (disk s) (inode_table s d) sect0 nr k) \<and> disk t = freed_disk (disk s) sect0 k"
proof -
  let ?x = "inode_table s d"
  note c = dir_counts[OF assms(3)]
  have nr: "dir_dentries ?x = int nr" using c(3) assms(4) by simp
  have dev: "i_dev ?x = ROOT_DEV" "sect0 + n \<le> 2 ^ 22" "k < 32 * n"
    using assms(3-5) by (auto simp: dir_ok_def first_holder_def)
  have z: "scanned (disk s) sect0 (32 * 0) = (0, 0, 0)" by (simp add: scanned_def)
  obtain u where u: "unlink_sects rpc ROOT_DEV (int sect0) num (int nr) (map int [0..<n]) (0, 0, 0) s =
      Inr ((int (Suc k), of_nat (used_size (disk s) sect0 k), True), u)" "disk_frame s u" "ready u" "disk u = freed_disk (disk s) sect0 k"
    using unlink_sects_ok[OF assms(1,2) dev(2) assms(5) dev(3), of 0, unfolded z] by auto
  let ?t = "u\<lparr>inode_table := (inode_table s)(d := shrunk_dir (disk s) ?x sect0 nr k)\<rparr>"
  have e: "(int (Suc k) = int nr) = (Suc k = nr)" by linarith
  have w: "whenE (int (Suc k) = int nr) (updI d (\<lambda>x. x\<lparr>i_size := of_nat (used_size (disk s) sect0 k)\<rparr>)) u = Inr ((), ?t)"
    unfolding e using disk_frameD(2)[OF u(2)] by (simp add: whenE_def updI_def op_defs shrunk_dir_def fun_upd_idem)
  have up: "[0..int n - 1] = map int [0..<n]" by (rule upto_map_int)
  have "dir_dentries (inode_table u d) = int nr" using nr disk_frameD(2)[OF u(2)] by simp
  then have "remove_entry rpc d num s = Inr ((), ?t)"
    using u(1) w c(1,2) nr dev(1) by (simp add: remove_entry_def up bindE_def assertE_def op_defs)
  then show ?thesis using u(3,4) disk_frameD[OF u(2)] by (intro exI[of _ ?t]) simp
qed

end

subsection \<open>The inode and the maps\<close>

definition blank_inode :: "inode \<Rightarrow> inode" where
  "blank_inode x = x\<lparr>i_mode := 0, i_size := 0, i_start_sect := 0, i_nr_sects := 0\<rparr>"

text \<open>A file of \<open>l\<close> sectors from bit \<open>K\<close> of the map on, a bit that does not begin a byte.\<close>

definition file_run :: "super_block \<Rightarrow> (nat \<Rightarrow> byte list) \<Rightarrow> nat \<Rightarrow> nat \<Rightarrow> bool" where
  "file_run sb d K l = (8 \<le> l \<and> K mod 8 \<noteq> 0 \<and> K + l \<le> 4096 * unat (nr_smap_sects sb) \<and> unat (nr_smap_sects sb) < 2 ^ 18 \<and>
     (\<forall>k. K \<le> k \<and> k < K + l \<longrightarrow> mbit d (smap_start sb) k))"

context block_device begin

lemma release_ok:
  assumes "ready s" "flat_natives (proc_table s)" "root_sb s = Some sb" "good_sb sb" "0 < nr_imap_sects sb" "inode_nr_ok sb num"
    "num < 4096" "sbit (disk s 2) num" "inode_table s q = x" "i_dev x = ROOT_DEV" "i_num x = int num" "i_cnt x = 1"
    "i_start_sect x = u32_int (run_start sb K)" "i_nr_sects x = of_nat l" "file_run sb (disk s) K l"
  shows "\<exists>t d2. (\<forall>f :: _ \<Rightarrow> (_, int) op. bindE (clear_imap rpc ROOT_DEV (int num)) (\<lambda>_. bindE (clear_smap rpc ROOT_DEV sb x) (\<lambda>_.
      bindE (updI q (\<lambda>x. x\<lparr>i_mode := 0, i_size := 0, i_start_sect := 0, i_nr_sects := 0\<rparr>)) (\<lambda>_.
      bindE (sync_inode rpc q) (\<lambda>_. bindE (put_inode q) f)))) s = f () t) \<and>
    ready t \<and> proc_table t = proc_table s \<and> myroot_inode t = myroot_inode s \<and>
    inode_table t = (inode_table s)(q := (blank_inode x)\<lparr>i_cnt := 0\<rparr>) \<and>
    map_clear (smap_start sb) K (K + l) ((disk s)(2 := set_sbit num False (disk s 2))) d2 \<and> (\<forall>j. length (d2 j) = 512) \<and>
    disk t = d2(inode_sect sb num := put_dinode num (blank_inode x) (d2 (inode_sect sb num)))"
proof -
  obtain a where a: "clear_imap rpc ROOT_DEV (int num) s = Inr ((), a)" "disk_frame s a" "ready a"
    "disk a = (disk s)(2 := set_sbit num False (disk s 2))"
    using clear_imap_ok[OF assms(1,2,7,8)] by blast
  note r = assms(15)[unfolded file_run_def]
  let ?N = "unat (nr_smap_sects sb)"
  have b: "2 < smap_start sb" "smap_start sb + ?N + 1 < 2 ^ 22"
    using assms(4-6) by (simp_all add: smap_start_def word_less_nat_alt good_sb_def inode_nr_ok_def)
  have e: "clear_end K l = K + l" using clear_end_eq[of l K] r by simp
  have "l < 2 ^ 31" using r by simp
  then have l: "sint (i_nr_sects x) = int l" unfolding assms(14) by (rule sint_of_nat)
  have "mbit (disk a) (smap_start sb) = mbit (disk s) (smap_start sb)" using b(1) by (simp add: mbit_def fun_eq_iff a(4))
  then obtain c where c: "clear_smap rpc ROOT_DEV sb x a = Inr ((), c)" "disk_frame a c" "ready c"
    "map_clear (smap_start sb) K (K + l) (disk a) (disk c)"
    using clear_smap_ok[OF a(3) _ assms(4,13) l, of ?N] assms(2) disk_frameD(1)[OF a(2)] r b(2) unfolding e by auto
  note f = disk_frame_trans[OF a(2) c(2)]
  let ?v = "c\<lparr>inode_table := (inode_table s)(q := blank_inode x)\<rparr>"
  have up: "updI q (\<lambda>x. x\<lparr>i_mode := 0, i_size := 0, i_start_sect := 0, i_nr_sects := 0\<rparr>) c = Inr ((), ?v)"
    using disk_frameD(2)[OF f] assms(9) by (simp add: updI_def op_defs blank_inode_def)
  have v: "ready ?v" "flat_natives (proc_table ?v)" "root_sb ?v = Some sb" "i_dev (inode_table ?v q) = ROOT_DEV" "i_num (inode_table ?v q) = int num"
    using c(3) assms(2,3,10,11) disk_frameD[OF f] by (simp_all add: root_sb_def blank_inode_def)
  obtain w where w: "sync_inode rpc q ?v = Inr ((), w)" "disk_frame ?v w" "ready w"
    "disk w = (disk ?v)(inode_sect sb num := put_dinode num (inode_table ?v q) (disk ?v (inode_sect sb num)))"
    using sync_inode_ok[OF v(1-3) assms(4,6) v(4,5)] by blast
  let ?t = "w\<lparr>inode_table := (inode_table s)(q := (blank_inode x)\<lparr>i_cnt := 0\<rparr>)\<rparr>"
  have "put_inode q w = Inr ((), ?t)"
    using disk_frameD(2)[OF w(2)] assms(12) by (simp add: put_inode_def assertE_def updI_def bindE_def op_defs blank_inode_def)
  then have "bindE (clear_imap rpc ROOT_DEV (int num)) (\<lambda>_. bindE (clear_smap rpc ROOT_DEV sb x) (\<lambda>_.
      bindE (updI q (\<lambda>x. x\<lparr>i_mode := 0, i_size := 0, i_start_sect := 0, i_nr_sects := 0\<rparr>)) (\<lambda>_.
      bindE (sync_inode rpc q) (\<lambda>_. bindE (put_inode q) g)))) s = g () ?t" for g :: "_ \<Rightarrow> (_, int) op"
    using a(1) c(1) up w(1) by (simp add: bindE_def)
  then show ?thesis
    using w(3,4) c(4) a(4) disk_frameD[OF f] disk_frameD[OF w(2)] sector_length
    by (intro exI[of _ ?t] exI[of _ "disk c"]) simp
qed

end

text \<open>The disk afterwards.\<close>

definition unlinked :: "super_block \<Rightarrow> nat \<Rightarrow> nat \<Rightarrow> nat \<Rightarrow> (nat \<Rightarrow> byte list) \<Rightarrow> (nat \<Rightarrow> byte list) \<Rightarrow> bool" where
  "unlinked sb num K l d d' =
     ((\<forall>i < 4096. sbit (d' 2) i = (sbit (d 2) i \<and> i \<noteq> num)) \<and>
      (\<forall>k < 4096 * unat (nr_smap_sects sb). mbit d' (smap_start sb) k = (mbit d (smap_start sb) k \<and> \<not> (K \<le> k \<and> k < K + l))) \<and>
      dinode sb d' num = (0, 0, 0, 0))"

lemma unlinked_disk:
  assumes "good_sb sb" "0 < nr_imap_sects sb" "inode_nr_ok sb num" "area_end sb \<le> sect0" "num < 4096" "K + l \<le> 4096 * unat (nr_smap_sects sb)"
    "\<And>q. length (d q) = 512" "\<And>q. length (d2 q) = 512"
    "map_clear (smap_start sb) K (K + l) (d(2 := set_sbit num False (d 2))) d2"
    "d3 = d2(inode_sect sb num := put_dinode num (blank_inode x) (d2 (inode_sect sb num)))"
    "d4 = freed_disk d3 sect0 k"
  shows "\<And>j. area_end sb \<le> j \<Longrightarrow> d3 j = d j" "unlinked sb num K l d d4"
    "\<And>j. inode_nr_ok sb j \<Longrightarrow> j \<noteq> num \<Longrightarrow> dinode sb d4 j = dinode sb d j"
proof -
  let ?b = "smap_start sb" and ?n = "unat (nr_smap_sects sb)" and ?d1 = "d(2 := set_sbit num False (d 2))"
  note a = area_bounds[OF assms(1,3)]
  have b: "2 < ?b" using assms(2) by (simp add: smap_start_def word_less_nat_alt)
  have len: "length (?d1 x) = 512" for x using assms(7) by simp
  have d2: "d2 x = ?d1 x" if "x < ?b \<or> ?b + ?n \<le> x" for x
    using that assms(9) map_clear_behind[OF assms(9,6) _ len assms(8), of x] by (auto simp: map_clear_def)
  have inodes: "d2 (inode_sect sb j) = d (inode_sect sb j)" if "inode_nr_ok sb j" for j
    using d2 area_bounds[OF assms(1) that] b by simp
  show "d3 j = d j" if "area_end sb \<le> j" for j using that d2[of j] a b by (simp add: assms(10))
  have low: "d4 x = d3 x" if "x < area_end sb" for x using that assms(4) by (simp add: assms(11) freed_disk_def)
  have num: "0 < num" using assms(3) by (simp add: inode_nr_ok_def)
  have dino: "dinode sb d4 j = (if num = j then inode_words (blank_inode x) else dinode sb d2 j)" if "inode_nr_ok sb j" for j
  proof -
    have "dinode sb d4 j = dinode sb d3 j" by (rule dinode_cong) (rule low[OF area_bounds(2)[OF assms(1) that]])
    moreover have "0 < j" using that by (simp add: inode_nr_ok_def)
    ultimately show ?thesis unfolding assms(10) using dinode_put[where d = d2, OF num _ assms(8)] by simp
  qed
  show "dinode sb d4 j = dinode sb d j" if j: "inode_nr_ok sb j" "j \<noteq> num" for j
  proof -
    have "dinode sb d2 j = dinode sb d j" by (rule dinode_cong) (rule inodes[OF j(1)])
    then show ?thesis using dino[OF j(1)] j(2) by simp
  qed
  have lowd2: "d4 x = d2 x" if "x < ?b + ?n" for x using low[of x] that a by (simp add: assms(10))
  have "sbit (d4 2) i = (sbit (d 2) i \<and> i \<noteq> num)" if "i < 4096" for i
    using lowd2[of 2] d2[of 2] b that assms(5,7) by (auto simp: sbit_set_sbit)
  moreover have "mbit d4 ?b i = (mbit d ?b i \<and> \<not> (K \<le> i \<and> i < K + l))" if "i < 4096 * ?n" for i
  proof -
    have s: "i div 4096 < ?n" using that by (simp add: less_mult_imp_div_less mult.commute)
    have "mbit d4 ?b i = mbit d2 ?b i" using lowd2[of "?b + i div 4096"] s by (simp add: mbit_def)
    moreover have "mbit ?d1 ?b i = mbit d ?b i" using b by (simp add: mbit_def)
    ultimately show ?thesis using assms(9) by (simp add: map_clear_def)
  qed
  ultimately show "unlinked sb num K l d d4"
    using dino[OF assms(3)] by (simp add: unlinked_def inode_words_def blank_inode_def)
qed

subsection \<open>do_unlink\<close>

lemma dir_searched_le: "unat (i_size y) \<le> unat (i_size x) \<Longrightarrow> dir_searched y \<le> dir_searched x"
  unfolding dir_searched_def by (intro min.mono) (simp_all add: div_le_mono)

lemma shrunk_dir_ok:
  assumes "dir_ok x sect0 n" "unat (i_size x) = 16 * nr" "k < nr"
  shows "\<exists>m. dir_ok (shrunk_dir d x sect0 nr k) sect0 m" "dir_searched (shrunk_dir d x sect0 nr k) \<le> dir_searched x"
proof -
  have "used_size d sect0 k \<le> 16 * nr" using used_size_le[of d sect0 k] assms(3) by linarith
  moreover have "16 * nr < 2 ^ 30" using assms(1,2) by (simp add: dir_ok_def)
  ultimately have "unat (i_size (shrunk_dir d x sect0 nr k)) \<le> 16 * nr"
    using assms(2) by (auto simp: shrunk_dir_def unat_of_nat)
  then have le: "unat (i_size (shrunk_dir d x sect0 nr k)) \<le> unat (i_size x)" using assms(2) by simp
  then show "dir_searched (shrunk_dir d x sect0 nr k) \<le> dir_searched x" by (rule dir_searched_le)
  have "(unat (i_size (shrunk_dir d x sect0 nr k)) + 511) div 512 \<le> (unat (i_size x) + 511) div 512"
    using le by (simp add: div_le_mono)
  then show "\<exists>m. dir_ok (shrunk_dir d x sect0 nr k) sect0 m"
    using assms(1) le unfolding dir_ok_def by (auto simp: shrunk_dir_def)
qed

text \<open>The request: the caller's path is a slash and the name.\<close>

definition unlink_request :: "'a fstate_scheme \<Rightarrow> byte list \<Rightarrow> bool" where
  "unlink_request s nm = (m_source (fs_msg s) \<in> pids \<and> msg_NAME_LEN (fs_msg s) = int (Suc (length nm)) \<and>
     mem_bytes (kmem s) (linear (proc_table s) (m_source (fs_msg s)) (msg_PATHNAME (fs_msg s))) (Suc (length nm)) = 0x2F # nm)"

lemma unlink_pathname:
  assumes "unlink_request s nm" "flat_natives (proc_table s)" "length nm < MAX_FILENAME_LEN"
  shows "get_pathname (m_source (fs_msg s)) (msg_PATHNAME (fs_msg s)) (msg_NAME_LEN (fs_msg s)) s = Inr (0x2F # nm @ [0], s)"
proof -
  note r = assms(1)[unfolded unlink_request_def]
  have n: "nat (msg_NAME_LEN (fs_msg s)) = Suc (length nm)" "0 \<le> msg_NAME_LEN (fs_msg s)" "msg_NAME_LEN (fs_msg s) < MAX_PATH_LEN"
    using r assms(3) by simp_all
  have m: "mem_bytes (kmem s) (linear (proc_table s) (m_source (fs_msg s)) (msg_PATHNAME (fs_msg s))) (Suc (length nm)) = 0x2F # nm"
    using r by blast
  show ?thesis
    using va2la_ok[of "m_source (fs_msg s)" s "msg_PATHNAME (fs_msg s)"] r assms(2) n(2,3) m
    by (simp only: get_pathname_def n(1)) (simp add: bindE_def op_defs nat_add_distrib)
qed

text \<open>The search and the inode: what the call has in hand before it changes anything.\<close>

lemma unlink_opened:
  assumes "block_device rpc disk ready" "ready s" "flat_natives (proc_table s)" "root_sb s = Some sb" "good_sb sb"
    "0 \<notin> set nm" "0x2F \<notin> set nm" "nm \<noteq> []" "length nm < MAX_FILENAME_LEN"
    "dir_ok (inode_table s (myroot_inode s)) sect0 n" "unat (i_size (inode_table s (myroot_inode s))) = 16 * nr"
    "first_holder (disk s) sect0 nr (int num) k"
    "\<forall>e < dir_searched (inode_table s (myroot_inode s)). (dent_name (disk s) sect0 e = name_field nm) = (e = k)"
    "inode_nr_ok sb num" "inode_scan (inode_table s) ROOT_DEV (int num) [0..<NR_INODE] None = Inr (Some q)"
  obtains u t y where "search_file rpc (0x2F # nm @ [0]) s = Inr (int num, u)"
    "strip_path (0x2F # nm @ [0]) u = Inr (Some (nm, myroot_inode s), u)" "i_dev (inode_table u (myroot_inode s)) = ROOT_DEV"
    "get_inode rpc ROOT_DEV (int num) u = Inr (Some q, t)" "ready t" "disk t = disk s"
    "inode_table t = (inode_table s)(q := y)" "inode_words y = dinode sb (disk s) num" "i_dev y = ROOT_DEV" "i_num y = int num"
    "i_cnt y = 1" "proc_table t = proc_table s" "root_sb t = Some sb" "myroot_inode t = myroot_inode s"
proof -
  let ?x = "inode_table s (myroot_inode s)" and ?path = "0x2F # nm @ [0]"
  have k: "k < nr" "dent_inode (disk s) sect0 k = int num" using assms(12) by (simp_all add: first_holder_def)
  have ks: "k < dir_searched ?x" using k(1) assms(11) by (simp add: dir_searched_def)
  have f: "name_field (take MAX_FILENAME_LEN nm) = name_field nm" using assms(9) by simp
  have found: "entry_named (disk s) sect0 (name_field nm) 0 (dir_searched ?x) = Some k"
    by (rule entry_named_first) (use ks assms(13) in auto)
  obtain u where u: "search_file rpc ?path s = Inr (int num, u)" "disk_frame s u" "ready u" "disk u = disk s"
    using block_device.search_file_ok[OF assms(1-3,6-8,10)] unfolding f found by (auto simp: inode_of_entry_def k(2))
  have r: "flat_natives (proc_table u)" "root_sb u = Some sb" "inode_scan (inode_table u) ROOT_DEV (int num) [0..<NR_INODE] None = Inr (Some q)"
    "myroot_inode u = myroot_inode s" "inode_table u = inode_table s"
    using disk_frameD[OF u(2)] root_sb_frame[OF u(2)] assms(3,4,15) by simp_all
  have strip: "strip_path ?path u = Inr (Some (nm, myroot_inode s), u)"
    using assms(6-9) r(4) by (simp add: strip_path_def strip_loop_plain)
  obtain t y where t: "get_inode rpc ROOT_DEV (int num) u = Inr (Some q, t)" "ready t" "disk t = disk s"
    "inode_table t = (inode_table s)(q := y)" "inode_words y = dinode sb (disk s) num" "i_dev y = ROOT_DEV" "i_num y = int num"
    "i_cnt y = 1" "proc_table t = proc_table u" "super_blocks t = super_blocks u" "myroot_inode t = myroot_inode s"
    using block_device.get_inode_loads[OF assms(1) u(3) r(1,2) assms(5,14) r(3)] u(4) r(4,5) by auto
  have "i_dev (inode_table u (myroot_inode s)) = ROOT_DEV" "proc_table t = proc_table s" "root_sb t = Some sb"
    using assms(10) r(2,5) t(9,10) disk_frameD(1)[OF u(2)] by (simp_all add: dir_ok_def root_sb_def)
  then show ?thesis using that[OF u(1) strip _ t(1-8)] t(11) by blast
qed

text \<open>The search afterwards, in the directory without the entry.\<close>

lemma removed_not_found:
  assumes "block_device rpc disk ready" "ready t" "flat_natives (proc_table t)" "inode_table t (myroot_inode t) = shrunk_dir d3 x sect0 nr k"
    "disk t = freed_disk d3 sect0 k" "\<And>j. length (d3 j) = 512" "\<And>e. dent_name d3 sect0 e = dent_name d sect0 e"
    "dir_ok x sect0 n" "unat (i_size x) = 16 * nr" "k < nr" "0 \<notin> set nm" "0x2F \<notin> set nm" "nm \<noteq> []" "length nm < MAX_FILENAME_LEN"
    "\<forall>e < dir_searched x. (dent_name d sect0 e = name_field nm) = (e = k)"
  obtains u where "search_file rpc (0x2F # nm @ [0]) t = Inr (0, u)"
proof -
  have f: "name_field (take MAX_FILENAME_LEN nm) = name_field nm" using assms(14) by simp
  note ent = freed_entry[where d = d3 and k = k and ?sect0.0 = sect0, OF assms(6), folded assms(5)]
  obtain m where m: "dir_ok (shrunk_dir d3 x sect0 nr k) sect0 m" using shrunk_dir_ok(1)[OF assms(8-10)] by blast
  have "name_field nm \<noteq> replicate 12 0" using assms(11,13) by (cases nm) (auto simp: name_field_def dest!: arg_cong[where f = hd])
  then have "entry_named (disk t) sect0 (name_field nm) 0 (dir_searched (shrunk_dir d3 x sect0 nr k)) = None"
    unfolding entry_named_None using assms(7,15) ent(2,3) shrunk_dir_ok(2)[OF assms(8-10), of d3] by (metis less_le_trans)
  then show ?thesis
    using that block_device.search_file_ok[OF assms(1-3,11-13), of sect0 m] m unfolding f assms(4) by (auto simp: inode_of_entry_def)
qed

text \<open>
  C28. \<open>do_unlink\<close> of a regular file that nobody has open and whose sectors begin inside a byte of
  the sector map: it returns 0, gives back the file's inode number and exactly its sectors, blanks
  its inode, and clears its entry, so that \<open>search_file\<close> of the path finds nothing. Every other bit
  of the two maps, every other inode on the disk, every other entry of the directory and every
  sector of data stay as they were.
\<close>

theorem do_unlink_removes:
  assumes "block_device rpc disk ready" "ready s" "flat_natives (proc_table s)"
    "root_sb s = Some sb" "good_sb sb" "0 < nr_imap_sects sb" "area_end sb \<le> sect0" "unlink_request s nm"
    "0 \<notin> set nm" "0x2F \<notin> set nm" "nm \<noteq> []" "length nm < MAX_FILENAME_LEN"
    "dir_ok (inode_table s (myroot_inode s)) sect0 n" "unat (i_size (inode_table s (myroot_inode s))) = 16 * nr"
    "first_holder (disk s) sect0 nr (int num) k"
    "\<forall>e < dir_searched (inode_table s (myroot_inode s)). (dent_name (disk s) sect0 e = name_field nm) = (e = k)"
    "inode_nr_ok sb num" "num < 4096" "sbit (disk s 2) num"
    "inode_scan (inode_table s) ROOT_DEV (int num) [0..<NR_INODE] None = Inr (Some q)" "q \<noteq> myroot_inode s"
    "dinode sb (disk s) num = (I_REGULAR, sz, u32_int (run_start sb K), of_nat l)" "file_run sb (disk s) K l"
  shows "\<exists>t u. do_unlink rpc s = Inr (0, t) \<and> search_file rpc (0x2F # nm @ [0]) t = Inr (0, u) \<and>
    unlinked sb num K l (disk s) (disk t) \<and>
    (\<forall>j. inode_nr_ok sb j \<and> j \<noteq> num \<longrightarrow> dinode sb (disk t) j = dinode sb (disk s) j) \<and>
    (\<forall>e. e \<noteq> k \<longrightarrow> dent_inode (disk t) sect0 e = dent_inode (disk s) sect0 e \<and>
      dent_name (disk t) sect0 e = dent_name (disk s) sect0 e) \<and>
    (\<forall>j. area_end sb \<le> j \<and> j \<noteq> sect0 + k div 32 \<longrightarrow> disk t j = disk s j)"
proof -
  let ?r = "myroot_inode s" and ?x = "inode_table s (myroot_inode s)" and ?path = "0x2F # nm @ [0]"
  have k: "k < nr" and num: "0 < num" using assms(15,17) by (simp_all add: first_holder_def inode_nr_ok_def)
  obtain s1 s2 y where s1: "search_file rpc ?path s = Inr (int num, s1)" "strip_path ?path s1 = Inr (Some (nm, ?r), s1)"
    "i_dev (inode_table s1 ?r) = ROOT_DEV" and s2: "get_inode rpc ROOT_DEV (int num) s1 = Inr (Some q, s2)" "ready s2" "disk s2 = disk s"
    "inode_table s2 = (inode_table s)(q := y)" "inode_words y = dinode sb (disk s) num" "i_dev y = ROOT_DEV" "i_num y = int num"
    "i_cnt y = 1" "proc_table s2 = proc_table s" "root_sb s2 = Some sb" "myroot_inode s2 = ?r"
    by (rule unlink_opened[OF assms(1-5,9-17,20)])
  have y: "i_mode y = I_REGULAR" "i_start_sect y = u32_int (run_start sb K)" "i_nr_sects y = of_nat l"
    using s2(5) assms(22) by (simp_all add: inode_words_def)
  have r2: "flat_natives (proc_table s2)" "root_sb s2 = Some sb" "sbit (disk s2 2) num" "inode_table s2 q = y" "file_run sb (disk s2) K l"
    using s2(3,4,9,10) assms(3,19,23) by simp_all
  obtain s3 d2 where s3: "\<And>g :: _ \<Rightarrow> (_, int) op. bindE (clear_imap rpc ROOT_DEV (int num)) (\<lambda>_. bindE (clear_smap rpc ROOT_DEV sb y) (\<lambda>_.
      bindE (updI q (\<lambda>x. x\<lparr>i_mode := 0, i_size := 0, i_start_sect := 0, i_nr_sects := 0\<rparr>)) (\<lambda>_.
      bindE (sync_inode rpc q) (\<lambda>_. bindE (put_inode q) g)))) s2 = g () s3" "ready s3" "proc_table s3 = proc_table s2"
    "myroot_inode s3 = ?r" "inode_table s3 = (inode_table s2)(q := (blank_inode y)\<lparr>i_cnt := 0\<rparr>)"
    "map_clear (smap_start sb) K (K + l) ((disk s)(2 := set_sbit num False (disk s 2))) d2" "\<And>j. length (d2 j) = 512"
    "disk s3 = d2(inode_sect sb num := put_dinode num (blank_inode y) (d2 (inode_sect sb num)))"
    using block_device.release_ok[OF assms(1) s2(2) r2(1,2) assms(5,6,17,18) r2(3,4) s2(6,7,8) y(2,3) r2(5)]
    unfolding s2(3,11) by blast
  note len = block_device.sector_length[OF assms(1)]
  have run: "K + l \<le> 4096 * unat (nr_smap_sects sb)" using assms(23) by (simp add: file_run_def)
  note gone = unlinked_disk[where k = k, OF assms(5,6,17,7,18) run len s3(7) s3(6) s3(8) refl]
  have root: "inode_table s3 ?r = ?x" using s3(5) s2(4) assms(21) by simp
  have far: "disk s3 j = disk s j" if "sect0 \<le> j" for j by (rule gone(1)) (use that assms(7) in simp)
  note same = dent_behind[of sect0 "disk s3" "disk s", OF far]
  have holder: "first_holder (disk s3) sect0 nr (int num) k" using assms(15) same by (simp add: first_holder_def)
  obtain t where t: "remove_entry rpc ?r (int num) s3 = Inr ((), t)" "ready t" "proc_table t = proc_table s3" "myroot_inode t = ?r"
    "inode_table t = (inode_table s3)(?r := shrunk_dir (disk s3) ?x sect0 nr k)" "disk t = freed_disk (disk s3) sect0 k"
    using block_device.remove_entry_ok[OF assms(1) s3(2), of ?r sect0 n nr "int num" k] assms(13,14) holder r2(1)
    unfolding s3(3,4) root by auto
  have path: "takeWhile (\<lambda>b. b \<noteq> 0) (0x2F # nm @ [0]) \<noteq> [0x2F]" using assms(9,11) by (cases nm) auto
  have nz: "assertE ''inode_nr !=0'' (\<lambda>_. int num \<noteq> 0) s1 = Inr ((), s1)" using num by (simp add: assertE_def op_defs)
  have c: "do_unlink rpc s = Inr (0, t)"
    using unlink_pathname[OF assms(8,3,12)] path s1 nz s2(1,6,8) r2(4) y(1) get_root_sb[OF r2(2)] s3(1) t(1)
    by (simp add: do_unlink_def getsE_def ret_def)
  have e: "dent_inode (disk t) sect0 e = dent_inode (disk s) sect0 e \<and> dent_name (disk t) sect0 e = dent_name (disk s) sect0 e" if "e \<noteq> k" for e
    using freed_entry(3)[where d = "disk s3" and k = k and ?sect0.0 = sect0, OF len that] same unfolding t(6) by simp
  have "inode_table t (myroot_inode t) = shrunk_dir (disk s3) ?x sect0 nr k" "flat_natives (proc_table t)"
    using t(3-5) s3(3) r2(1) by simp_all
  then obtain u where u: "search_file rpc ?path t = Inr (0, u)"
    using removed_not_found[where d = "disk s", OF assms(1) t(2) _ _ t(6) len conjunct2[OF same] assms(13,14) k assms(9-12,16)] by blast
  have "disk t j = disk s j" if "area_end sb \<le> j" "j \<noteq> sect0 + k div 32" for j
    using gone(1)[OF that(1)] that(2) unfolding t(6) freed_disk_def by simp
  then show ?thesis using c u gone(2,3)[folded t(6)] e by blast
qed

subsection \<open>An example\<close>

text \<open>The directory of \<open>dir_example\<close> with \<open>cmd.tar\<close> as inode 6, which has eight sectors from bit 1 on.\<close>

definition unlink_bytes :: "nat \<Rightarrow> nat \<Rightarrow> byte" where
  "unlink_bytes n i =
     (if n = 0x1000 + 300 then dir_bytes i
      else if n = 0x1002 \<and> i = 0 then 0x7F
      else if n = 0x1003 \<and> i = 0 then 0xFE
      else if n = 0x1003 \<and> i = 1 then 0x01
      else if n = 0x100D \<and> i = 161 then 0x80
      else if n = 0x100D \<and> i = 168 then 0x0D
      else if n = 0x100D \<and> i = 169 then 0x01
      else if n = 0x100D \<and> i = 172 then 0x08 else 0)"

definition unlink_example :: "drive fs_hd" where
  "unlink_example = dir_example\<lparr>
     g_hw := (g_hw dir_example)\<lparr>d_data := unlink_bytes\<rparr>,
     kmem := store_bytes (kmem dir_example) 0x1000 (0x2F # name_cmd_tar),
     fs_msg := zero_msg\<lparr>m3i2 := 8, m3p1 := 0x1000\<rparr>\<rparr>"

lemma unlink_example_disk: "fs_disk drive_sector unlink_example n = map (unlink_bytes (0x1000 + n)) [0..<512]"
  by (simp add: fs_disk_def drive_sector_def unlink_example_def dir_example_def root_base_def fs_example_def kstate.defs del: upt_rec_numeral)

lemma unlink_example_request: "unlink_request unlink_example name_cmd_tar"
proof -
  have "linear (proc_table unlink_example) 0 0x1000 = 0x1000"
    using dir_example_ok(2) by (simp add: linear_def unlink_example_def flat_natives_def)
  moreover have "Suc (length name_cmd_tar) = 8" by (simp add: name_cmd_tar_def)
  ultimately show ?thesis
    unfolding unlink_request_def by (simp only: mem_bytes_def) (simp add: pids_def unlink_example_def name_cmd_tar_def zero_msg_def upt_rec)
qed

lemma unlink_example_state:
  "fs_ready (\<lambda>h. d_phase h = Idle) unlink_example" "flat_natives (proc_table unlink_example)"
  "root_sb unlink_example = Some ((mkfs_super 0x9000)\<lparr>sb_dev := ROOT_DEV\<rparr>)" "myroot_inode unlink_example = 0"
  "inode_table unlink_example = inode_table dir_example"
  using dir_example_ok(1,2) dir_example_root(1,2) by (simp_all add: unlink_example_def fs_ready_def root_base_def root_sb_def)

lemma unlink_example_300: "fs_disk drive_sector unlink_example 300 = fs_disk drive_sector dir_example 300"
  unfolding unlink_example_disk dir_example_ok(5) by (simp add: unlink_bytes_def)

lemma unlink_example_dents:
  "dent_inode (fs_disk drive_sector unlink_example) 300 e = dent_inode (fs_disk drive_sector dir_example) 300 e"
  "dent_name (fs_disk drive_sector unlink_example) 300 e = dent_name (fs_disk drive_sector dir_example) 300 e" if "e < 4"
  using that by (simp_all add: dent_inode_def dent_name_def unlink_example_300)

lemma unlink_example_holder: "first_holder (fs_disk drive_sector unlink_example) 300 3 6 2"
proof -
  have "dent_inode (fs_disk drive_sector dir_example) 300 q \<noteq> 6" if "q < 2" for q
  proof -
    have "q = 0 \<or> q = 1" using that by linarith
    then show ?thesis using dir_example_numbers(1,2) by (elim disjE) simp_all
  qed
  then show ?thesis using dir_example_numbers(3) by (simp add: first_holder_def unlink_example_dents)
qed

lemma unlink_example_named:
  assumes "e < 4"
  shows "(dent_name (fs_disk drive_sector unlink_example) 300 e = name_field name_cmd_tar) = (e = 2)"
proof -
  have f: "name_field name_cmd_tar = name_cmd_tar @ replicate 5 0" by (simp add: name_field_def name_cmd_tar_def)
  have "entry_named (fs_disk drive_sector dir_example) 300 (name_cmd_tar @ replicate 5 0) 0 4 = Some 2" by (rule dir_example_entry)
  then have "dent_name (fs_disk drive_sector dir_example) 300 2 = name_field name_cmd_tar"
    "\<forall>q < 2. dent_name (fs_disk drive_sector dir_example) 300 q \<noteq> name_field name_cmd_tar"
    unfolding entry_named_def find_Some_iff f by auto
  moreover have "dent_name (fs_disk drive_sector dir_example) 300 3 ! 0 \<noteq> name_field name_cmd_tar ! 0"
    unfolding f by (simp add: dent_name_def dir_example_ok(5) dir_example_zero name_cmd_tar_def del: upt_Suc upt_rec_numeral)
  moreover have "e < 2 \<or> e = 2 \<or> e = 3" using assms by linarith
  ultimately show ?thesis using assms by (auto simp: unlink_example_dents)
qed

lemma unlink_example_file:
  "sbit (fs_disk drive_sector unlink_example 2) 6"
  "dinode ((mkfs_super 0x9000)\<lparr>sb_dev := ROOT_DEV\<rparr>) (fs_disk drive_sector unlink_example) 6 =
    (I_REGULAR, 0, u32_int (run_start ((mkfs_super 0x9000)\<lparr>sb_dev := ROOT_DEV\<rparr>) 1), of_nat 8)"
  "file_run ((mkfs_super 0x9000)\<lparr>sb_dev := ROOT_DEV\<rparr>) (fs_disk drive_sector unlink_example) 1 8"
proof -
  let ?sb = "(mkfs_super 0x9000)\<lparr>sb_dev := ROOT_DEV\<rparr>" and ?d = "fs_disk drive_sector unlink_example"
  have b: "bit (0x7F :: byte) 6" by simp
  show "sbit (?d 2) 6"
    unfolding unlink_example_disk using b by (simp add: sbit_def unlink_bytes_def del: upt_rec_numeral)
  have o: "inode_sect ?sb 6 = 13" "inode_off 6 = 160" by (simp_all add: inode_sect_def inode_off_def mkfs_super_def)
  have run: "run_start ?sb 1 = 269" by (simp add: mkfs_super_def run_start_def u32_int_def)
  show "dinode ?sb ?d 6 = (I_REGULAR, 0, u32_int (run_start ?sb 1), of_nat 8)"
    unfolding dinode_def o unlink_example_disk run Let_def
    by (simp add: le32_def unlink_bytes_def u32_int_def del: upt_rec_numeral)
  have m: "mbit ?d 3 k" if "1 \<le> k" "k < 9" for k
  proof -
    have "k = 1 \<or> k = 2 \<or> k = 3 \<or> k = 4 \<or> k = 5 \<or> k = 6 \<or> k = 7 \<or> k = 8" using that by linarith
    then show ?thesis unfolding mbit_def unlink_example_disk sbit_def
      by (elim disjE) (simp_all add: unlink_bytes_def del: upt_rec_numeral)
  qed
  have "smap_start ?sb = 3" "unat (nr_smap_sects ?sb) = 10" by (rule dir_example_sb)+
  then show "file_run ?sb ?d 1 8" using m by (simp add: file_run_def)
qed

theorem do_unlink_removes_witness:
  "\<exists>t u. do_unlink example_rpc unlink_example = Inr (0, t) \<and> search_file example_rpc (0x2F # name_cmd_tar @ [0]) t = Inr (0, u) \<and>
     \<not> sbit (fs_disk drive_sector t 2) 6"
proof -
  let ?sb = "(mkfs_super 0x9000)\<lparr>sb_dev := ROOT_DEV\<rparr>" and ?d = "fs_disk drive_sector unlink_example"
  have nm: "0 \<notin> set name_cmd_tar" "0x2F \<notin> set name_cmd_tar" "name_cmd_tar \<noteq> []" "length name_cmd_tar < MAX_FILENAME_LEN"
    by (simp_all add: name_cmd_tar_def)
  have "area_end ?sb \<le> 300" by (simp add: dir_example_sb)
  note pre = fs_example_sb(1,3) this unlink_example_request nm
  have dir: "dir_ok (inode_table dir_example 0) 300 1" "unat (i_size (inode_table dir_example 0)) = 16 * 3"
    "\<forall>e < dir_searched (inode_table dir_example 0). (dent_name ?d 300 e = name_field name_cmd_tar) = (e = 2)"
    using dir_example_ok(3,4) unlink_example_named unfolding dir_example_root(1) by (simp_all add: dir_example_def)
  have num: "first_holder ?d 300 3 (int 6) 2" "(6 :: nat) < 4096" "(1 :: nat) \<noteq> 0" using unlink_example_holder by simp_all
  from do_unlink_removes[OF drive_fs.block_device_axioms[of "lba_cmd 0 0 0 0" "\<lambda>_ _. fail (Spin ''no driver'')"]
      unlink_example_state(1-3) pre, unfolded unlink_example_state(4,5),
      OF dir(1,2) num(1) dir(3) dir_example_sb(3) num(2) unlink_example_file(1) dir_example_scan num(3) unlink_example_file(2,3)]
  show ?thesis by (elim exE conjE) (auto simp: unlinked_def)
qed

end
