(* ===== verification/Unistd.thy ===== *)
theory Unistd
  imports Stdio
begin

section \<open>The user library\<close>

text \<open>
  lib/unistd.c, lib/ipc.c and the task of kernel/systask.c. A library call fills a message and
  sends it to the task that serves it; the argument \<open>rpc\<close> is the call as the process sees it.
  The calls run in the address space of a process: \<open>base\<close> is the linear address of its virtual
  address 0, pointers are virtual. Fields of a message that a call leaves uninitialised are
  zero here; no server reads them.
\<close>

abbreviation (input) PROC_ORIGIN_STACK :: nat where "PROC_ORIGIN_STACK \<equiv> 0x400"

subsection \<open>send_recv (lib/ipc.c)\<close>

text \<open>\<open>sendrec\<close> is the trap into \<open>sys_sendrec\<close>; \<open>m\<close> is the linear address of the message.\<close>

definition send_recv :: "(int \<Rightarrow> int \<Rightarrow> addr \<Rightarrow> ('a kstate_scheme, int) op) \<Rightarrow> int \<Rightarrow> int \<Rightarrow> addr \<Rightarrow> ('a kstate_scheme, int) op" where
  "send_recv sendrec func src_dest m =
     bindE (whenE (func = F_RECEIVE) (modE (\<lambda>s. s\<lparr>kmem := memset MESSAGE_SIZE m 0 (kmem s)\<rparr>))) (\<lambda>_.
     if func = F_BOTH then
       bindE (sendrec F_SEND src_dest m) (\<lambda>r. if r = 0 then sendrec F_RECEIVE src_dest m else ret r)
     else if func = F_SEND \<or> func = F_RECEIVE then sendrec func src_dest m
     else fail (Assert ''function''))"

subsection \<open>Calls of the file system\<close>

definition strlenE :: "addr \<Rightarrow> ('a kstate_scheme, int) op" where
  "strlenE la = (\<lambda>s. case strlen la (kmem s) of None \<Rightarrow> Inl (Spin ''strlen'') | Some n \<Rightarrow> Inr (sint n, s))"

definition is_ret :: "message \<Rightarrow> ('s, unit) op" where
  "is_ret msg = assertE ''msg.type == SYSCALL_RET'' (\<lambda>_. m_type msg = SYSCALL_RET)"

definition u_open :: "'a kstate_scheme rpc \<Rightarrow> addr \<Rightarrow> addr \<Rightarrow> int \<Rightarrow> ('a kstate_scheme, int) op" where
  "u_open rpc base pathname flags =
     bindE (strlenE (base + pathname)) (\<lambda>n.
     bindE (rpc TASK_FS (zero_msg\<lparr>m_type := OPEN, m3p1 := pathname, m3i1 := flags, m3i2 := n\<rparr>)) (\<lambda>msg.
     bindE (is_ret msg) (\<lambda>_. ret (m3i1 msg))))"

definition u_close :: "'a kstate_scheme rpc \<Rightarrow> int \<Rightarrow> ('a kstate_scheme, int) op" where
  "u_close rpc fd = bindE (rpc TASK_FS (zero_msg\<lparr>m_type := CLOSE, m3i1 := fd\<rparr>)) (\<lambda>msg. ret (m3i1 msg))"

definition u_read :: "'a kstate_scheme rpc \<Rightarrow> int \<Rightarrow> addr \<Rightarrow> int \<Rightarrow> ('a kstate_scheme, int) op" where
  "u_read rpc fd buf count =
     bindE (rpc TASK_FS (zero_msg\<lparr>m_type := READ, m3i1 := fd, m3p2 := buf, m3i2 := count\<rparr>)) (\<lambda>msg. ret (m3i2 msg))"

definition u_write :: "'a kstate_scheme rpc \<Rightarrow> int \<Rightarrow> addr \<Rightarrow> int \<Rightarrow> ('a kstate_scheme, int) op" where
  "u_write rpc fd buf count =
     bindE (rpc TASK_FS (zero_msg\<lparr>m_type := WRITE, m3i1 := fd, m3p2 := buf, m3i2 := count\<rparr>)) (\<lambda>msg. ret (m3i2 msg))"

definition u_unlink :: "'a kstate_scheme rpc \<Rightarrow> addr \<Rightarrow> addr \<Rightarrow> ('a kstate_scheme, int) op" where
  "u_unlink rpc base pathname =
     bindE (strlenE (base + pathname)) (\<lambda>n.
     bindE (rpc TASK_FS (zero_msg\<lparr>m_type := UNLINK, m3p1 := pathname, m3i2 := n\<rparr>)) (\<lambda>msg. ret (m3i1 msg)))"

text \<open>\<open>stat\<close> does not look at the reply's return value.\<close>

definition u_stat :: "'a kstate_scheme rpc \<Rightarrow> addr \<Rightarrow> addr \<Rightarrow> addr \<Rightarrow> ('a kstate_scheme, int) op" where
  "u_stat rpc base pathname statp =
     bindE (strlenE (base + pathname)) (\<lambda>n.
     bindE (rpc TASK_FS (zero_msg\<lparr>m_type := STAT, m3p2 := statp, m3i2 := n, m3p1 := pathname\<rparr>)) (\<lambda>msg.
     bindE (is_ret msg) (\<lambda>_. ret 0)))"

subsection \<open>Calls of the memory manager and the system task\<close>

definition u_fork :: "'a kstate_scheme rpc \<Rightarrow> ('a kstate_scheme, int) op" where
  "u_fork rpc =
     bindE (rpc TASK_MM (zero_msg\<lparr>m_type := FORK\<rparr>)) (\<lambda>msg.
     bindE (is_ret msg) (\<lambda>_.
     bindE (assertE ''msg.RETVAL == 0'' (\<lambda>_. m3i1 msg = 0)) (\<lambda>_. ret (m3i2 msg))))"

definition u_getpid :: "'a kstate_scheme rpc \<Rightarrow> ('a kstate_scheme, int) op" where
  "u_getpid rpc =
     bindE (rpc TASK_SYS (zero_msg\<lparr>m_type := GET_PID\<rparr>)) (\<lambda>msg. bindE (is_ret msg) (\<lambda>_. ret (m3i2 msg)))"

definition u_wait :: "'a kstate_scheme rpc \<Rightarrow> addr \<Rightarrow> addr \<Rightarrow> ('a kstate_scheme, int) op" where
  "u_wait rpc base re =
     bindE (rpc TASK_MM (zero_msg\<lparr>m_type := WAIT\<rparr>)) (\<lambda>msg.
     bindE (modE (\<lambda>s. s\<lparr>kmem := wr32 (kmem s) (base + re) (u32_int (m3i1 msg))\<rparr>)) (\<lambda>_.
     ret (if m3i2 msg = NO_TASK then -1 else m3i2 msg)))"

definition u_exit :: "'a kstate_scheme rpc \<Rightarrow> int \<Rightarrow> ('a kstate_scheme, unit) op" where
  "u_exit rpc status =
     bindE (rpc TASK_MM (zero_msg\<lparr>m_type := EXIT, m3i1 := status\<rparr>)) (\<lambda>msg.
     assertE ''msg.RETVAL == SYSCALL_RET'' (\<lambda>_. m3i1 msg = SYSCALL_RET))"

definition get_ticks :: "'a kstate_scheme rpc \<Rightarrow> ('a kstate_scheme, int) op" where
  "get_ticks rpc = bindE (rpc TASK_SYS (zero_msg\<lparr>m_type := GET_TICKS\<rparr>)) (\<lambda>msg. ret (m3i1 msg))"

subsection \<open>execv\<close>

text \<open>
  The first loop counts the arguments, four bytes each; the assertion ends it inside the array.
\<close>

function exec_count :: "mem \<Rightarrow> addr \<Rightarrow> nat \<Rightarrow> fault + nat" where
  "exec_count m p stack_len =
     (if rd32 m p = 0 then Inr stack_len
      else if stack_len + 2 * 4 < PROC_ORIGIN_STACK then exec_count m (p + 4) (stack_len + 4)
      else Inl (Assert ''stack_len''))"
  by auto
termination by (relation "measure (\<lambda>(m, p, n). PROC_ORIGIN_STACK - n)") auto

declare exec_count.simps [simp del]

text \<open>
  The second loop copies the strings behind the pointers; \<open>st\<close> is the virtual address of
  \<open>arg_stack\<close>, \<open>q\<close> the pointer stored next and \<open>p\<close> the argument read next.
\<close>

function exec_copy :: "addr \<Rightarrow> addr \<Rightarrow> addr \<Rightarrow> addr \<Rightarrow> nat \<Rightarrow> mem \<Rightarrow> fault + (nat \<times> mem)" where
  "exec_copy base st p q stack_len m =
     (if rd32 m (base + p) = 0 then Inr (stack_len, m)
      else
        let m1 = wr32 m (base + q) (st + of_nat stack_len); arg = base + rd32 m1 (base + p)
        in (case strlen arg m1 of
              None \<Rightarrow> Inl (Spin ''strlen'')
            | Some n \<Rightarrow>
                if int stack_len + sint n + 1 < int PROC_ORIGIN_STACK then
                  (case strcpy (base + st + of_nat stack_len) arg m1 of
                     None \<Rightarrow> Inl (Spin ''strcpy'')
                   | Some m2 \<Rightarrow>
                       (case strlen (base + rd32 m2 (base + p)) m2 of
                          None \<Rightarrow> Inl (Spin ''strlen'')
                        | Some n2 \<Rightarrow>
                            if stack_len + unat n2 < PROC_ORIGIN_STACK then
                              exec_copy base st (p + 4) (q + 4) (stack_len + unat n2 + 1)
                                (m2(base + st + of_nat (stack_len + unat n2) := 0))
                            else Inl (Bad_access ''arg_stack'')))
                else Inl (Assert ''stack_len'')))"
  by auto
termination
  by (relation "measure (\<lambda>(base, st, p, q, n, m). PROC_ORIGIN_STACK - n)") auto

declare exec_copy.simps [simp del]

definition build_stack :: "addr \<Rightarrow> addr \<Rightarrow> addr \<Rightarrow> mem \<Rightarrow> fault + (nat \<times> mem)" where
  "build_stack base st argv m =
     (case exec_count m (base + argv) 0 of
        Inl e \<Rightarrow> Inl e
      | Inr n \<Rightarrow> exec_copy base st argv st (n + 4) (wr32 m (base + st + of_nat n) 0))"

definition u_execv :: "'a kstate_scheme rpc \<Rightarrow> addr \<Rightarrow> addr \<Rightarrow> addr \<Rightarrow> addr \<Rightarrow> ('a kstate_scheme, int) op" where
  "u_execv rpc base st path argv =
     bindE (\<lambda>s. case build_stack base st argv (kmem s) of
         Inl e \<Rightarrow> Inl e
       | Inr (len, m) \<Rightarrow> Inr (len, s\<lparr>kmem := m\<rparr>)) (\<lambda>stack_len.
     bindE (strlenE (base + path)) (\<lambda>n.
     bindE (rpc TASK_MM (zero_msg\<lparr>m_type := EXEC, m3p1 := path, m3i2 := n, m3p2 := st, m3i3 := int stack_len\<rparr>)) (\<lambda>msg.
     bindE (is_ret msg) (\<lambda>_. ret (m3i1 msg)))))"

subsection \<open>The system task (kernel/systask.c)\<close>

text \<open>One round: the answer to the message received, if there is one.\<close>

definition task_sys_round :: "message \<Rightarrow> ('a kstate_scheme, (int \<times> message) option) op" where
  "task_sys_round msg =
     (let src = m_source msg in
      if m_type msg = GET_TICKS then getsE (\<lambda>s. Some (src, msg\<lparr>m3i1 := kticks s\<rparr>))
      else if m_type msg = HARD_INT then ret None
      else if m_type msg = GET_PID then ret (Some (src, msg\<lparr>m_type := SYSCALL_RET, m3i2 := src\<rparr>))
      else fail (Panic ''is unknown msg type in task_sys''))"

subsection \<open>What execv builds\<close>

text \<open>A null-terminated array of pointers to strings, and the memory it occupies.\<close>

fun args_at :: "mem \<Rightarrow> addr \<Rightarrow> addr \<Rightarrow> byte list list \<Rightarrow> bool" where
  "args_at m base p [] = (rd32 m (base + p) = 0)"
| "args_at m base p (s # ss) =
     (rd32 m (base + p) \<noteq> 0 \<and> cstr m (base + rd32 m (base + p)) s \<and> args_at m base (p + 4) ss)"

fun args_area :: "mem \<Rightarrow> addr \<Rightarrow> addr \<Rightarrow> byte list list \<Rightarrow> addr set" where
  "args_area m base p [] = region (base + p) 4"
| "args_area m base p (s # ss) =
     region (base + p) 4 \<union> region (base + rd32 m (base + p)) (Suc (length s)) \<union> args_area m base (p + 4) ss"

text \<open>
  The block that \<open>execv\<close> hands over: pointers from word \<open>k\<close> on, strings from offset \<open>off\<close> on,
  one after the other; the block lies at linear address \<open>la\<close> and its pointers take it to
  lie at \<open>st\<close>.
\<close>

fun stack_at :: "mem \<Rightarrow> addr \<Rightarrow> addr \<Rightarrow> nat \<Rightarrow> nat \<Rightarrow> byte list list \<Rightarrow> bool" where
  "stack_at m la st k off [] = True"
| "stack_at m la st k off (s # ss) =
     (rd32 m (la + of_nat (4 * k)) = st + of_nat off \<and> cstr m (la + of_nat off) s \<and>
      stack_at m la st (Suc k) (off + Suc (length s)) ss)"

definition strs_size :: "byte list list \<Rightarrow> nat" where
  "strs_size ss = (\<Sum>s \<leftarrow> ss. Suc (length s))"

definition stack_size :: "byte list list \<Rightarrow> nat" where
  "stack_size ss = 4 * Suc (length ss) + strs_size ss"

definition arg_block :: "mem \<Rightarrow> addr \<Rightarrow> addr \<Rightarrow> byte list list \<Rightarrow> bool" where
  "arg_block m la st ss =
     (stack_at m la st 0 (4 * Suc (length ss)) ss \<and> rd32 m (la + of_nat (4 * length ss)) = 0)"

lemma strs_size_simps [simp]: "strs_size [] = 0" "strs_size (s # ss) = Suc (length s) + strs_size ss"
  by (simp_all add: strs_size_def)

lemma args_at_cong:
  assumes "args_at m base p ss" "\<forall>x \<in> args_area m base p ss. m' x = m x"
  shows "args_at m' base p ss \<and> args_area m' base p ss = args_area m base p ss"
  using assms
proof (induction ss arbitrary: p)
  case Nil
  then show ?case using rd32_region[of "base + p" m' m] by simp
next
  case (Cons s ss)
  have "rd32 m' (base + p) = rd32 m (base + p)" using Cons.prems(2) by (intro rd32_region) simp
  moreover have "cstr m' (base + rd32 m (base + p)) s"
  proof (rule cstr_region)
    show "cstr m (base + rd32 m (base + p)) s" using Cons.prems(1) by simp
    show "\<forall>x \<in> region (base + rd32 m (base + p)) (Suc (length s)). m' x = m x" using Cons.prems(2) by simp
  qed
  moreover have "args_at m' base (p + 4) ss \<and> args_area m' base (p + 4) ss = args_area m base (p + 4) ss"
    using Cons.prems by (intro Cons.IH) simp_all
  ultimately show ?case using Cons.prems(1) by simp
qed

lemma stack_at_cong:
  assumes "stack_at m la st k off ss"
    and "\<forall>x \<in> region (la + of_nat (4 * k)) (4 * length ss) \<union> region (la + of_nat off) (strs_size ss). m' x = m x"
    and "4 * (k + length ss) \<le> 2 ^ 32" "off + strs_size ss \<le> 2 ^ 32"
  shows "stack_at m' la st k off ss"
  using assms
proof (induction ss arbitrary: k off)
  case (Cons s ss)
  have r: "region (la + of_nat (4 * k)) 4 \<subseteq> region (la + of_nat (4 * k)) (4 * length (s # ss))"
    using Cons.prems(3) by (intro region_sub[of _ _ 0]) simp_all
  have r2: "region (la + of_nat off) (Suc (length s)) \<subseteq> region (la + of_nat off) (strs_size (s # ss))"
    using Cons.prems(4) by (intro region_sub[of _ _ 0]) simp_all
  have r3: "region (la + of_nat (4 * Suc k)) (4 * length ss) \<subseteq> region (la + of_nat (4 * k)) (4 * length (s # ss))"
    using Cons.prems(3) by (intro region_sub[of _ _ 4]) (simp_all add: algebra_simps)
  have r4: "region (la + of_nat (off + Suc (length s))) (strs_size ss) \<subseteq> region (la + of_nat off) (strs_size (s # ss))"
    using Cons.prems(4) by (intro region_sub[of _ _ "Suc (length s)"]) (simp_all add: algebra_simps)
  have "rd32 m' (la + of_nat (4 * k)) = rd32 m (la + of_nat (4 * k))"
    using Cons.prems(2) r by (intro rd32_region) blast
  moreover have "cstr m' (la + of_nat off) s"
  proof (rule cstr_region)
    show "cstr m (la + of_nat off) s" using Cons.prems(1) by simp
    show "\<forall>x \<in> region (la + of_nat off) (Suc (length s)). m' x = m x" using Cons.prems(2) r2 by blast
  qed
  moreover have "stack_at m' la st (Suc k) (off + Suc (length s)) ss"
  proof (rule Cons.IH)
    show "\<forall>x \<in> region (la + of_nat (4 * Suc k)) (4 * length ss) \<union> region (la + of_nat (off + Suc (length s))) (strs_size ss). m' x = m x"
      using Cons.prems(2) r3 r4 by blast
  qed (use Cons.prems in simp_all)
  ultimately show ?case using Cons.prems(1) by simp
qed simp

lemma exec_count_ok:
  "args_at m base p ss \<Longrightarrow> n + 4 * length ss + 4 < PROC_ORIGIN_STACK \<Longrightarrow>
   exec_count m (base + p) n = Inr (n + 4 * length ss)"
proof (induction ss arbitrary: p n)
  case Nil
  then show ?case by (simp add: exec_count.simps)
next
  case (Cons s ss)
  then show ?case using Cons.IH[of "p + 4" "n + 4"] by (subst exec_count.simps) (simp add: add.assoc)
qed

lemma word_off_eq: "(of_nat (4 * Suc k) :: addr) = of_nat (4 * k) + 4"
  by simp

lemma exec_copy_step:
  fixes base st p :: addr and k off :: nat
  defines "la \<equiv> base + st"
  assumes arg: "rd32 m (base + p) \<noteq> 0" "cstr m (base + rd32 m (base + p)) s"
    and out: "region (base + p) 4 \<inter> region la PROC_ORIGIN_STACK = {}"
      "region (base + rd32 m (base + p)) (Suc (length s)) \<inter> region la PROC_ORIGIN_STACK = {}"
    and fit: "4 * k + 4 \<le> off" "off + Suc (length s) < PROC_ORIGIN_STACK"
  obtains m' where
    "exec_copy base st p (st + of_nat (4 * k)) off m =
       exec_copy base st (p + 4) (st + of_nat (4 * Suc k)) (off + Suc (length s)) m'"
    "rd32 m' (la + of_nat (4 * k)) = st + of_nat off" "cstr m' (la + of_nat off) s"
    "\<And>x. x \<notin> region (la + of_nat (4 * k)) 4 \<Longrightarrow> x \<notin> region (la + of_nat off) (Suc (length s)) \<Longrightarrow> m' x = m x"
proof -
  let ?P = "rd32 m (base + p)"
  let ?m1 = "wr32 m (la + of_nat (4 * k)) (st + of_nat off)"
  have in1: "region (la + of_nat (4 * k)) 4 \<subseteq> region la PROC_ORIGIN_STACK"
    using fit by (intro region_sub[of _ _ "4 * k"]) simp_all
  have in2: "region (la + of_nat off) (Suc (length s)) \<subseteq> region la PROC_ORIGIN_STACK"
    using fit by (intro region_sub[of _ _ off]) simp_all
  have P1: "rd32 ?m1 (base + p) = ?P" using in1 out(1) by (intro rd32_region ballI wr32_other) blast
  have s1: "cstr ?m1 (base + ?P) s" using arg(2) in1 out(2) by (elim cstr_region) (intro ballI wr32_other, blast)
  have "region (la + of_nat off) (Suc (length s)) \<inter> region (base + ?P) (Suc (length s)) = {}" using in2 out(2) by blast
  from strcpy_cstr[OF s1 this] obtain m2 where m2: "strcpy (la + of_nat off) (base + ?P) ?m1 = Some m2"
    "cstr m2 (la + of_nat off) s" "\<forall>x. x \<notin> region (la + of_nat off) (Suc (length s)) \<longrightarrow> m2 x = ?m1 x" by blast
  have P2: "rd32 m2 (base + p) = ?P"
    using m2(3) in2 out(1) rd32_region[of "base + p" m2 ?m1] P1 by fastforce
  have s2: "cstr m2 (base + ?P) s" using s1 m2(3) in2 out(2) by (elim cstr_region) blast
  have z: "m2(la + of_nat (off + length s) := 0) = m2" using cstr_end[OF m2(2)] by (intro ext) (simp add: add.assoc)
  have len: "unat (of_nat (length s) :: addr) = length s" "sint (of_nat (length s) :: addr) = int (length s)"
    using fit s32_id[of "int (length s)"] by (simp_all add: unat_of_nat s32_def)
  have "exec_copy base st p (st + of_nat (4 * k)) off m =
      exec_copy base st (p + 4) (st + of_nat (4 * Suc k)) (off + Suc (length s)) m2"
  proof (subst exec_copy.simps)
    have e: "base + (st + of_nat (4 * k)) = la + of_nat (4 * k)" "base + st + of_nat off = la + of_nat off"
      "base + st + of_nat (off + length s) = la + of_nat (off + length s)"
      "st + of_nat (4 * k) + 4 = st + of_nat (4 * Suc k)" by (simp_all add: la_def algebra_simps)
    show "(if rd32 m (base + p) = 0 then Inr (off, m)
      else
        let m1 = wr32 m (base + (st + of_nat (4 * k))) (st + of_nat off); arg = base + rd32 m1 (base + p)
        in (case strlen arg m1 of
              None \<Rightarrow> Inl (Spin ''strlen'')
            | Some n \<Rightarrow>
                if int off + sint n + 1 < int PROC_ORIGIN_STACK then
                  (case strcpy (base + st + of_nat off) arg m1 of
                     None \<Rightarrow> Inl (Spin ''strcpy'')
                   | Some m2 \<Rightarrow>
                       (case strlen (base + rd32 m2 (base + p)) m2 of
                          None \<Rightarrow> Inl (Spin ''strlen'')
                        | Some n2 \<Rightarrow>
                            if off + unat n2 < PROC_ORIGIN_STACK then
                              exec_copy base st (p + 4) (st + of_nat (4 * k) + 4) (off + unat n2 + 1)
                                (m2(base + st + of_nat (off + unat n2) := 0))
                            else Inl (Bad_access ''arg_stack'')))
                else Inl (Assert ''stack_len''))) =
      exec_copy base st (p + 4) (st + of_nat (4 * Suc k)) (off + Suc (length s)) m2"
      unfolding e(1,2,4) Let_def P1 m2(1) option.case
      using arg(1) fit(2) by (simp only: P2 strlen_cstr[OF s1] strlen_cstr[OF s2] option.case len z e(3) if_False if_True) simp
  qed
  moreover have "rd32 m2 (la + of_nat (4 * k)) = st + of_nat off"
  proof -
    have "region (la + of_nat (4 * k)) 4 \<inter> region (la + of_nat off) (Suc (length s)) = {}"
      using fit by (intro region_apart) simp_all
    then have "rd32 m2 (la + of_nat (4 * k)) = rd32 ?m1 (la + of_nat (4 * k))" using m2(3) by (intro rd32_region) blast
    then show ?thesis by simp
  qed
  moreover have "m2 x = m x" if "x \<notin> region (la + of_nat (4 * k)) 4" "x \<notin> region (la + of_nat off) (Suc (length s))" for x
    using m2(3) that by (simp add: wr32_other)
  ultimately show thesis using that m2(2) by blast
qed

lemma exec_copy_ok:
  fixes base st :: addr
  defines "la \<equiv> base + st"
  assumes "args_at m base p ss" "args_area m base p ss \<inter> region la PROC_ORIGIN_STACK = {}"
    and "4 * (k + length ss) \<le> off" "off + strs_size ss < PROC_ORIGIN_STACK"
  shows "\<exists>m'. exec_copy base st p (st + of_nat (4 * k)) off m = Inr (off + strs_size ss, m') \<and>
    stack_at m' la st k off ss \<and>
    (\<forall>x. x \<notin> region (la + of_nat (4 * k)) (4 * length ss) \<longrightarrow> x \<notin> region (la + of_nat off) (strs_size ss) \<longrightarrow> m' x = m x)"
  using assms(2-)
proof (induction ss arbitrary: p k off m)
  case Nil
  then show ?case by (simp add: exec_copy.simps)
next
  case (Cons s ss)
  let ?ptr = "la + of_nat (4 * k)" and ?str = "la + of_nat off"
  have arg: "rd32 m (base + p) \<noteq> 0" "cstr m (base + rd32 m (base + p)) s" "args_at m base (p + 4) ss"
    using Cons.prems(1) by simp_all
  have out: "region (base + p) 4 \<inter> region (base + st) PROC_ORIGIN_STACK = {}"
    "region (base + rd32 m (base + p)) (Suc (length s)) \<inter> region (base + st) PROC_ORIGIN_STACK = {}"
    "args_area m base (p + 4) ss \<inter> region la PROC_ORIGIN_STACK = {}" using Cons.prems(2) by (auto simp: la_def)
  have fit: "4 * k + 4 \<le> off" "off + Suc (length s) < PROC_ORIGIN_STACK" using Cons.prems(3,4) by simp_all
  from exec_copy_step[OF arg(1,2) out(1,2) fit] obtain m1 where m1:
    "exec_copy base st p (st + of_nat (4 * k)) off m =
       exec_copy base st (p + 4) (st + of_nat (4 * Suc k)) (off + Suc (length s)) m1"
    "rd32 m1 ?ptr = st + of_nat off" "cstr m1 ?str s"
    "\<And>x. x \<notin> region ?ptr 4 \<Longrightarrow> x \<notin> region ?str (Suc (length s)) \<Longrightarrow> m1 x = m x"
    unfolding la_def by blast
  have in1: "region ?ptr (4 * length (s # ss)) \<subseteq> region la PROC_ORIGIN_STACK"
    using Cons.prems(3,4) by (intro region_sub[of _ _ "4 * k"]) simp_all
  have in2: "region ?str (strs_size (s # ss)) \<subseteq> region la PROC_ORIGIN_STACK"
    using Cons.prems(4) by (intro region_sub[of _ _ off]) simp_all
  have p1: "region ?ptr 4 \<subseteq> region ?ptr (4 * length (s # ss))" by (auto simp: region_def)
  have p2: "region ?str (Suc (length s)) \<subseteq> region ?str (strs_size (s # ss))" by (auto simp: region_def)
  have p3: "region (la + of_nat (4 * Suc k)) (4 * length ss) \<subseteq> region ?ptr (4 * length (s # ss))"
    using Cons.prems(3,4) by (intro region_sub[of _ _ 4]) (simp_all add: algebra_simps)
  have p4: "region (la + of_nat (off + Suc (length s))) (strs_size ss) \<subseteq> region ?str (strs_size (s # ss))"
    using Cons.prems(4) by (intro region_sub[of _ _ "Suc (length s)"]) (simp_all add: algebra_simps)
  have "\<forall>x \<in> args_area m base (p + 4) ss. m1 x = m x" using m1(4) out(3) in1 in2 p1 p2 by blast
  from args_at_cong[OF arg(3) this] out(3) have
    args: "args_at m1 base (p + 4) ss" "args_area m1 base (p + 4) ss \<inter> region la PROC_ORIGIN_STACK = {}" by simp_all
  have fits: "4 * (Suc k + length ss) \<le> off + Suc (length s)" "off + Suc (length s) + strs_size ss < PROC_ORIGIN_STACK"
    using Cons.prems(3,4) by simp_all
  from Cons.IH[OF args fits] obtain m2 where m2:
    "exec_copy base st (p + 4) (st + of_nat (4 * Suc k)) (off + Suc (length s)) m1 = Inr (off + Suc (length s) + strs_size ss, m2)"
    "stack_at m2 la st (Suc k) (off + Suc (length s)) ss"
    "\<forall>x. x \<notin> region (la + of_nat (4 * Suc k)) (4 * length ss) \<longrightarrow>
      x \<notin> region (la + of_nat (off + Suc (length s))) (strs_size ss) \<longrightarrow> m2 x = m1 x"
    by blast
  have "rd32 m2 ?ptr = rd32 m1 ?ptr"
  proof (rule rd32_region)
    have "region ?ptr 4 \<inter> region (la + of_nat (4 * Suc k)) (4 * length ss) = {}"
      "region ?ptr 4 \<inter> region (la + of_nat (off + Suc (length s))) (strs_size ss) = {}"
      using Cons.prems(3,4) by (intro region_apart; simp)+
    then show "\<forall>x \<in> region ?ptr 4. m2 x = m1 x" using m2(3) by blast
  qed
  moreover have "cstr m2 ?str s"
  proof (rule cstr_region[OF m1(3)])
    have "region (la + of_nat (4 * Suc k)) (4 * length ss) \<inter> region ?str (Suc (length s)) = {}"
      "region ?str (Suc (length s)) \<inter> region (la + of_nat (off + Suc (length s))) (strs_size ss) = {}"
      using Cons.prems(3,4) by (intro region_apart; simp)+
    then show "\<forall>x \<in> region ?str (Suc (length s)). m2 x = m1 x" using m2(3) by blast
  qed
  moreover have "\<forall>x. x \<notin> region ?ptr (4 * length (s # ss)) \<longrightarrow> x \<notin> region ?str (strs_size (s # ss)) \<longrightarrow> m2 x = m x"
  proof (intro allI impI)
    fix x assume x: "x \<notin> region ?ptr (4 * length (s # ss))" "x \<notin> region ?str (strs_size (s # ss))"
    show "m2 x = m x"
      using m2(3)[rule_format, OF contra_subsetD[OF p3 x(1)] contra_subsetD[OF p4 x(2)]]
        m1(4)[OF contra_subsetD[OF p1 x(1)] contra_subsetD[OF p2 x(2)]] by (rule trans)
  qed
  ultimately have "exec_copy base st p (st + of_nat (4 * k)) off m = Inr (off + strs_size (s # ss), m2) \<and>
    stack_at m2 la st k off (s # ss) \<and>
    (\<forall>x. x \<notin> region ?ptr (4 * length (s # ss)) \<longrightarrow> x \<notin> region ?str (strs_size (s # ss)) \<longrightarrow> m2 x = m x)"
    using m1(1,2) m2(1,2) by (simp only: stack_at.simps strs_size_simps simp_thms add.assoc)
  then show ?case by (intro exI[of _ m2])
qed

text \<open>
  \<open>execv\<close> puts the arguments it is given, in order, into one block that fits its array: a
  null-terminated array of pointers into the block followed by the strings, and writes nothing
  else; it does so whenever the block is smaller than \<open>PROC_ORIGIN_STACK\<close> and the arguments do
  not lie in the array.
\<close>

lemma build_stack_block:
  assumes "args_at m base argv ss" "args_area m base argv ss \<inter> region (base + st) PROC_ORIGIN_STACK = {}"
    and "stack_size ss < PROC_ORIGIN_STACK"
  shows "\<exists>m'. build_stack base st argv m = Inr (stack_size ss, m') \<and> arg_block m' (base + st) st ss \<and>
    (\<forall>x. x \<notin> region (base + st) PROC_ORIGIN_STACK \<longrightarrow> m' x = m x)"
proof -
  let ?la = "base + st" and ?n = "4 * length ss"
  let ?m0 = "wr32 m (?la + of_nat ?n) 0"
  have size: "?n + 4 + strs_size ss < PROC_ORIGIN_STACK" using assms(3) by (simp add: stack_size_def)
  have count: "exec_count m (base + argv) 0 = Inr ?n"
    using exec_count_ok[OF assms(1), of 0] size by simp
  have in0: "region (?la + of_nat ?n) 4 \<subseteq> region ?la PROC_ORIGIN_STACK"
    using size by (intro region_sub[of _ _ ?n]) simp_all
  have m0: "?m0 x = m x" if "x \<notin> region ?la PROC_ORIGIN_STACK" for x using that in0 by (intro wr32_other) blast
  have "\<forall>x \<in> args_area m base argv ss. ?m0 x = m x" using m0 assms(2) by blast
  from args_at_cong[OF assms(1) this] assms(2) have
    args: "args_at ?m0 base argv ss" "args_area ?m0 base argv ss \<inter> region ?la PROC_ORIGIN_STACK = {}" by simp_all
  have "4 * (0 + length ss) \<le> ?n + 4" by simp
  from exec_copy_ok[OF args this size] obtain m' where m':
    "exec_copy base st argv (st + of_nat (4 * 0)) (?n + 4) ?m0 = Inr (?n + 4 + strs_size ss, m')"
    "stack_at m' ?la st 0 (?n + 4) ss"
    "\<forall>x. x \<notin> region (?la + of_nat (4 * 0)) ?n \<longrightarrow> x \<notin> region (?la + of_nat (?n + 4)) (strs_size ss) \<longrightarrow> m' x = ?m0 x"
    by blast
  have "rd32 m' (?la + of_nat ?n) = rd32 ?m0 (?la + of_nat ?n)"
  proof (rule rd32_region)
    have "region (?la + of_nat 0) ?n \<inter> region (?la + of_nat ?n) 4 = {}"
      "region (?la + of_nat ?n) 4 \<inter> region (?la + of_nat (?n + 4)) (strs_size ss) = {}"
      using size by (intro region_apart; simp)+
    then show "\<forall>x \<in> region (?la + of_nat ?n) 4. m' x = ?m0 x" using m'(3) by auto
  qed
  moreover have "region (?la + of_nat (4 * 0)) ?n \<subseteq> region ?la PROC_ORIGIN_STACK"
    using size by (intro region_sub[of _ _ 0]) simp_all
  moreover have "region (?la + of_nat (?n + 4)) (strs_size ss) \<subseteq> region ?la PROC_ORIGIN_STACK"
    using size by (intro region_sub[of _ _ "?n + 4"]) simp_all
  ultimately show ?thesis
    using m' m0 count size by (intro exI[of _ m'])
      (auto simp: build_stack_def arg_block_def stack_size_def algebra_simps)
qed

end
