(* ===== verification/Fs_Refs.thy ===== *)
theory Fs_Refs
  imports Fs
begin

section \<open>Reference counts\<close>

text \<open>
  A file descriptor counts the processes that hold it, an inode the descriptors that hold it.
  \<open>counts_ok P s\<close> says that every descriptor in use counts its references from the processes
  in \<open>P\<close>; \<open>held s q\<close> is how often inode \<open>q\<close> is held by anything else than descriptors (the
  root directory by the task itself). \<open>do_close\<close>, \<open>fs_fork\<close> and \<open>fs_exit\<close> keep both.
\<close>

declare upt_rec_numeral [simp del]

subsection \<open>Counting\<close>

definition slots :: "proc_tab \<Rightarrow> int set \<Rightarrow> nat \<Rightarrow> (int \<times> nat) set" where
  "slots pt P f = {(p, i). p \<in> P \<and> i < NR_FILES \<and> filp (pt p) i = Some f}"

definition icount :: "(nat \<Rightarrow> file_desc) \<Rightarrow> nat \<Rightarrow> int" where
  "icount fds q = (\<Sum>f < NR_FILE_DESC. if fd_inode (fds f) = Some q then fd_cnt (fds f) else 0)"

definition held :: "'a fstate_scheme \<Rightarrow> nat \<Rightarrow> int" where
  "held s q = i_cnt (inode_table s q) - icount (f_desc_table s) q"

definition counts_ok :: "int set \<Rightarrow> 'a fstate_scheme \<Rightarrow> bool" where
  "counts_ok P s =
     ((\<forall>p \<in> P. \<forall>i < NR_FILES. \<forall>f. filp (proc_table s p) i = Some f \<longrightarrow> f < NR_FILE_DESC) \<and>
      (\<forall>f < NR_FILE_DESC. case fd_inode (f_desc_table s f) of
         None \<Rightarrow> slots (proc_table s) P f = {}
       | Some q \<Rightarrow> fd_cnt (f_desc_table s f) = int (card (slots (proc_table s) P f)) \<and> slots (proc_table s) P f \<noteq> {}))"

lemma finite_slots [simp]: "finite P \<Longrightarrow> finite (slots pt P f)"
  by (rule finite_subset[of _ "P \<times> {..<NR_FILES}"]) (auto simp: slots_def)

lemma icount_upd:
  assumes "f < NR_FILE_DESC"
  shows "icount (fds(f := x)) q = icount fds q
    + (if fd_inode x = Some q then fd_cnt x else 0) - (if fd_inode (fds f) = Some q then fd_cnt (fds f) else 0)"
proof -
  have f: "f \<in> {..<NR_FILE_DESC}" using assms by simp
  have "icount g q = (if fd_inode (g f) = Some q then fd_cnt (g f) else 0) +
      (\<Sum>k \<in> {..<NR_FILE_DESC} - {f}. if fd_inode (g k) = Some q then fd_cnt (g k) else 0)" for g :: "nat \<Rightarrow> file_desc"
    unfolding icount_def using f by (rule sum.remove[OF finite_lessThan])
  note split = this
  have "(\<Sum>k \<in> {..<NR_FILE_DESC} - {f}. if fd_inode ((fds(f := x)) k) = Some q then fd_cnt ((fds(f := x)) k) else 0)
      = (\<Sum>k \<in> {..<NR_FILE_DESC} - {f}. if fd_inode (fds k) = Some q then fd_cnt (fds k) else 0)"
    by (rule sum.cong) auto
  then show ?thesis using split[of fds] split[of "fds(f := x)"] by (simp only: fun_upd_same)
qed

text \<open>An open descriptor holds its inode.\<close>

lemma icount_pos:
  assumes "counts_ok P s" "f < NR_FILE_DESC" "fd_inode (f_desc_table s f) = Some q" "finite P"
  shows "0 < icount (f_desc_table s) q"
proof -
  have nn: "0 \<le> (if fd_inode (f_desc_table s k) = Some q then fd_cnt (f_desc_table s k) else 0)" if "k < NR_FILE_DESC" for k
    using assms(1) that by (auto simp: counts_ok_def)
  have "0 < fd_cnt (f_desc_table s f)"
    using assms by (auto simp: counts_ok_def card_gt_0_iff)
  then show ?thesis
    unfolding icount_def using assms(2,3) nn by (intro sum_pos2[of _ f]) auto
qed

subsection \<open>Dropping one reference\<close>

definition drop_desc :: "file_desc \<Rightarrow> file_desc" where
  "drop_desc x = (if fd_cnt x = 1 then x\<lparr>fd_cnt := 0, fd_inode := None\<rparr> else x\<lparr>fd_cnt := fd_cnt x - 1\<rparr>)"

definition drop_ref :: "int \<Rightarrow> nat \<Rightarrow> nat \<Rightarrow> nat \<Rightarrow> 'a fstate_scheme \<Rightarrow> 'a fstate_scheme" where
  "drop_ref p i f q s = s\<lparr>
     inode_table := (inode_table s)(q := (inode_table s q)\<lparr>i_cnt := i_cnt (inode_table s q) - 1\<rparr>),
     f_desc_table := (f_desc_table s)(f := drop_desc (f_desc_table s f)),
     proc_table := (proc_table s)(p := (proc_table s p)\<lparr>filp := (filp (proc_table s p))(i := None)\<rparr>)\<rparr>"

lemma slots_drop:
  "filp (pt p) i = Some f \<Longrightarrow>
   slots (pt(p := (pt p)\<lparr>filp := (filp (pt p))(i := None)\<rparr>)) P g = (if g = f then slots pt P g - {(p, i)} else slots pt P g)"
  by (auto simp: slots_def split: if_splits)

lemma drop_ref_counts:
  assumes "counts_ok P s" "finite P" "p \<in> P" "i < NR_FILES" "filp (proc_table s p) i = Some f"
    "fd_inode (f_desc_table s f) = Some q"
  shows "counts_ok P (drop_ref p i f q s)"
proof -
  have f: "f < NR_FILE_DESC" using assms by (auto simp: counts_ok_def)
  note sd = slots_drop[where pt = "proc_table s" and p = p and i = i, OF assms(5)]
  have c: "fd_cnt (f_desc_table s f) = int (card (slots (proc_table s) P f))"
    using assms(1,6) f by (auto simp: counts_ok_def)
  have mem: "(p, i) \<in> slots (proc_table s) P f" using assms by (simp add: slots_def)
  have card: "card (slots (proc_table s) P f - {(p, i)}) = card (slots (proc_table s) P f) - 1"
    using mem assms(2) by simp
  have pos: "0 < card (slots (proc_table s) P f)" using mem assms(2) by (auto simp: card_gt_0_iff)
  have last: "slots (proc_table s) P f - {(p, i)} = {} \<longleftrightarrow> card (slots (proc_table s) P f) = 1"
    using card pos assms(2) by (metis One_nat_def card_0_eq diff_is_0_eq finite_Diff finite_slots le_antisym less_eq_Suc_le order_refl)
  show ?thesis
    unfolding counts_ok_def
  proof (intro conjI allI impI ballI)
    fix g assume g: "g < NR_FILE_DESC"
    show "case fd_inode (f_desc_table (drop_ref p i f q s) g) of
         None \<Rightarrow> slots (proc_table (drop_ref p i f q s)) P g = {}
       | Some r \<Rightarrow> fd_cnt (f_desc_table (drop_ref p i f q s) g) = int (card (slots (proc_table (drop_ref p i f q s)) P g)) \<and>
           slots (proc_table (drop_ref p i f q s)) P g \<noteq> {}"
    proof (cases "g = f")
      case True
      then show ?thesis
        using c last card pos assms(6) by (auto simp: drop_ref_def sd drop_desc_def of_nat_diff)
    next
      case False
      then have "f_desc_table (drop_ref p i f q s) g = f_desc_table s g"
        "slots (proc_table (drop_ref p i f q s)) P g = slots (proc_table s) P g" by (simp_all add: drop_ref_def sd)
      then show ?thesis using assms(1) g unfolding counts_ok_def by presburger
    qed
  next
    fix p' i' g assume "p' \<in> P" "i' < NR_FILES" "filp (proc_table (drop_ref p i f q s) p') i' = Some g"
    then show "g < NR_FILE_DESC" using assms(1) by (auto simp: drop_ref_def counts_ok_def split: if_splits)
  qed
qed

lemma drop_ref_held:
  assumes "f < NR_FILE_DESC" "fd_inode (f_desc_table s f) = Some q"
  shows "held (drop_ref p i f q s) = held s"
  using assms by (auto simp: held_def drop_ref_def icount_upd drop_desc_def fun_eq_iff)


subsection \<open>do_close and fs_exit\<close>

lemma filp_bound: "counts_ok P s \<Longrightarrow> p \<in> P \<Longrightarrow> i < NR_FILES \<Longrightarrow> filp (proc_table s p) i = Some f \<Longrightarrow>
  f < NR_FILE_DESC \<and> fd_inode (f_desc_table s f) \<noteq> None"
proof -
  assume c: "counts_ok P s" and p: "p \<in> P" "i < NR_FILES" "filp (proc_table s p) i = Some f"
  note c1 = c[unfolded counts_ok_def, THEN conjunct1, rule_format]
  note c2 = c[unfolded counts_ok_def, THEN conjunct2, rule_format]
  have f: "f < NR_FILE_DESC" by (rule c1[OF p])
  have "(p, i) \<in> slots (proc_table s) P f" using p by (simp add: slots_def)
  then have "fd_inode (f_desc_table s f) \<noteq> None" using c2[OF f] by (cases "fd_inode (f_desc_table s f)") auto
  with f show ?thesis by simp
qed

lemma close_step:
  assumes "fd_inode (f_desc_table s f) = Some q" "filp (proc_table s p) i = Some f" "p \<in> pids"
  shows "bindE (updI q (\<lambda>x. x\<lparr>i_cnt := i_cnt x - 1\<rparr>)) (\<lambda>_.
      bindE (updFD f (\<lambda>x. x\<lparr>fd_cnt := fd_cnt x - 1\<rparr>)) (\<lambda>_.
      bindE (getsE (\<lambda>s. fd_cnt (f_desc_table s f))) (\<lambda>c.
      bindE (whenE (c = 0) (updFD f (\<lambda>x. x\<lparr>fd_inode := None\<rparr>))) (\<lambda>_.
      updP p (\<lambda>x. x\<lparr>filp := (filp x)(i := None)\<rparr>))))) s = Inr ((), drop_ref p i f q s)"
  by (simp add: updI_def updFD_def updP_def bindE_def op_defs drop_ref_def drop_desc_def)

text \<open>What these operations change: the files of one process, the descriptors and the inodes.\<close>

definition fd_frame :: "int \<Rightarrow> 'a fstate_scheme \<Rightarrow> 'a fstate_scheme \<Rightarrow> bool" where
  "fd_frame p s t = (\<exists>fl ft it. t = s\<lparr>proc_table := (proc_table s)(p := (proc_table s p)\<lparr>filp := fl\<rparr>),
     f_desc_table := ft, inode_table := it\<rparr>)"

lemma fd_frame_refl [simp]: "fd_frame p s s"
  unfolding fd_frame_def
  by (rule exI[of _ "filp (proc_table s p)"], rule exI[of _ "f_desc_table s"], rule exI[of _ "inode_table s"]) simp

lemma fd_frame_trans: "fd_frame p s t \<Longrightarrow> fd_frame p t u \<Longrightarrow> fd_frame p s u"
  unfolding fd_frame_def by (elim exE) (simp, intro exI, rule refl)

lemma fd_frame_other: "fd_frame p s t \<Longrightarrow> p' \<noteq> p \<Longrightarrow> proc_table t p' = proc_table s p'"
  by (auto simp: fd_frame_def)

lemma fd_frame_drop: "fd_frame p s (drop_ref p i f q s)"
  unfolding fd_frame_def
  by (rule exI[of _ "(filp (proc_table s p))(i := None)"], rule exI[of _ "(f_desc_table s)(f := drop_desc (f_desc_table s f))"],
    rule exI[of _ "(inode_table s)(q := (inode_table s q)\<lparr>i_cnt := i_cnt (inode_table s q) - 1\<rparr>)"]) (simp add: drop_ref_def)

definition exit_slot :: "int \<Rightarrow> nat \<Rightarrow> ('a fstate_scheme, unit) op" where
  "exit_slot p i = bindE (procE p) (\<lambda>x.
     case filp x i of
       None \<Rightarrow> ret ()
     | Some f \<Rightarrow>
         bindE (getsE (\<lambda>s. fd_inode (f_desc_table s f))) (\<lambda>pin.
         case pin of
           None \<Rightarrow> fail (Bad_access ''fd_inode'')
         | Some q \<Rightarrow>
             bindE (updI q (\<lambda>x. x\<lparr>i_cnt := i_cnt x - 1\<rparr>)) (\<lambda>_.
             bindE (updFD f (\<lambda>x. x\<lparr>fd_cnt := fd_cnt x - 1\<rparr>)) (\<lambda>_.
             bindE (getsE (\<lambda>s. fd_cnt (f_desc_table s f))) (\<lambda>c.
             bindE (whenE (c = 0) (updFD f (\<lambda>x. x\<lparr>fd_inode := None\<rparr>))) (\<lambda>_.
             updP p (\<lambda>x. x\<lparr>filp := (filp x)(i := None)\<rparr>)))))))"

lemma exit_slot_ok:
  assumes "counts_ok P s" "finite P" "p \<in> P" "p \<in> pids" "i < NR_FILES"
  shows "\<exists>t. exit_slot p i s = Inr ((), t) \<and> counts_ok P t \<and> held t = held s \<and> filp (proc_table t p) i = None \<and>
    (\<forall>k. k \<noteq> i \<longrightarrow> filp (proc_table t p) k = filp (proc_table s p) k) \<and> fd_frame p s t"
proof (cases "filp (proc_table s p) i")
  case None
  then show ?thesis using assms by (intro exI[of _ s]) (simp add: exit_slot_def op_defs)
next
  case (Some f)
  then obtain q where f: "f < NR_FILE_DESC" "fd_inode (f_desc_table s f) = Some q"
    using filp_bound[OF assms(1,3,5)] by auto
  have "exit_slot p i s = Inr ((), drop_ref p i f q s)"
    using close_step[OF f(2) Some assms(4)] Some f(2) assms(4) by (simp add: exit_slot_def op_defs)
  then show ?thesis
    using drop_ref_counts[OF assms(1-3,5) Some f(2)] drop_ref_held[OF f] fd_frame_drop[of p s i f q]
    by (intro exI[of _ "drop_ref p i f q s"] conjI) (simp_all add: drop_ref_def)
qed

lemma all_less_0: "\<forall>k < (0 :: nat). P k"
  by simp

lemma fs_exit_eq:
  "fs_exit = bindE (getsE (\<lambda>s. msg_PID (fs_msg s))) (\<lambda>p. bindE (forE [0..<NR_FILES] (exit_slot p)) (\<lambda>_. ret 0))"
  by (simp only: fs_exit_def exit_slot_def[abs_def])

lemma exit_loop_ok:
  assumes "counts_ok P s" "finite P" "p \<in> P" "p \<in> pids" "n \<le> NR_FILES" "\<forall>k < n. filp (proc_table s p) k = None"
  shows "\<exists>t. forE [n..<NR_FILES] (exit_slot p) s = Inr ((), t) \<and> counts_ok P t \<and> held t = held s \<and>
    (\<forall>k. filp (proc_table t p) k = (if k < NR_FILES then None else filp (proc_table s p) k)) \<and> fd_frame p s t"
  using assms(1,5,6)
proof (induction "NR_FILES - n" arbitrary: n s)
  case 0
  then have "NR_FILES \<le> n" by simp
  then show ?case using 0 by (intro exI[of _ s]) (auto simp: op_defs)
next
  case (Suc d)
  then have n: "n < NR_FILES" by simp
  then have up: "[n..<NR_FILES] = n # [Suc n..<NR_FILES]" by (rule upt_conv_Cons)
  obtain u where u: "exit_slot p n s = Inr ((), u)" "counts_ok P u" "held u = held s" "filp (proc_table u p) n = None"
    "\<forall>k. k \<noteq> n \<longrightarrow> filp (proc_table u p) k = filp (proc_table s p) k" "fd_frame p s u"
    using exit_slot_ok[OF Suc.prems(1) assms(2-4) n] by blast
  have d: "d = NR_FILES - Suc n" using Suc.hyps(2) by simp
  have "\<forall>k < Suc n. filp (proc_table u p) k = None" using u(4,5) Suc.prems(3) by (simp add: less_Suc_eq)
  from Suc.hyps(1)[OF d u(2) Suc_leI[OF n] this] obtain t where
    "forE [Suc n..<NR_FILES] (exit_slot p) u = Inr ((), t)" "counts_ok P t" "held t = held u"
    "\<forall>k. filp (proc_table t p) k = (if k < NR_FILES then None else filp (proc_table u p) k)" "fd_frame p u t"
    by (elim exE conjE)
  then show ?case using u(1,3,5) n fd_frame_trans[OF u(6)] unfolding up by (intro exI[of _ t]) simp
qed

lemma fs_exit_ok:
  assumes "counts_ok P s" "P \<subseteq> pids" "msg_PID (fs_msg s) \<in> P"
  shows "\<exists>t. fs_exit s = Inr (0, t) \<and> counts_ok P t \<and> held t = held s \<and>
    (\<forall>i. filp (proc_table t (msg_PID (fs_msg s))) i = (if i < NR_FILES then None else filp (proc_table s (msg_PID (fs_msg s))) i)) \<and>
    fd_frame (msg_PID (fs_msg s)) s t"
proof -
  have fin: "finite P" by (rule finite_subset[OF assms(2) finite_pids])
  have "msg_PID (fs_msg s) \<in> pids" using assms(2,3) by blast
  from exit_loop_ok[OF assms(1) fin assms(3) this le0 all_less_0] obtain t where
    t: "forE [0..<NR_FILES] (exit_slot (msg_PID (fs_msg s))) s = Inr ((), t)" "counts_ok P t" "held t = held s"
      "\<forall>k. filp (proc_table t (msg_PID (fs_msg s))) k = (if k < NR_FILES then None else filp (proc_table s (msg_PID (fs_msg s))) k)"
      "fd_frame (msg_PID (fs_msg s)) s t"
    by (elim exE conjE)
  have "fs_exit s = Inr (0, t)"
    using t(1) by (simp add: fs_exit_eq op_defs)
  then show ?thesis using t(2-5) by (intro exI[of _ t] conjI)
qed

text \<open>
  C21. When a process exits, the file system drops every descriptor it holds: \<open>fs_exit\<close> returns
  0, the process has no open file left, every count is again the number of references, no inode
  loses or gains a reference that is not a descriptor's, and no other process changes.
\<close>

theorem fs_exit_keeps_counts:
  assumes "counts_ok P s" "P \<subseteq> pids" "msg_PID (fs_msg s) \<in> P"
  shows "\<exists>t. fs_exit s = Inr (0, t) \<and> counts_ok P t \<and> held t = held s \<and>
    (\<forall>i < NR_FILES. filp (proc_table t (msg_PID (fs_msg s))) i = None) \<and>
    (\<forall>p. p \<noteq> msg_PID (fs_msg s) \<longrightarrow> proc_table t p = proc_table s p)"
proof -
  from fs_exit_ok[OF assms] obtain t where t: "fs_exit s = Inr (0, t)" "counts_ok P t" "held t = held s"
    "\<forall>i. filp (proc_table t (msg_PID (fs_msg s))) i = (if i < NR_FILES then None else filp (proc_table s (msg_PID (fs_msg s))) i)"
    "fd_frame (msg_PID (fs_msg s)) s t"
    by (elim exE conjE)
  show ?thesis using t(1-4) fd_frame_other[OF t(5)] by (intro exI[of _ t] conjI) simp_all
qed

text \<open>
  \<open>do_close\<close> of an open descriptor returns 0 and frees the caller's slot; every count is
  again the number of references, whether other processes share the descriptor or not, and its
  assertions on the counts do not fail.
\<close>

lemma do_close_keeps_counts:
  assumes "counts_ok P s" "P \<subseteq> pids" "pcaller s \<in> P" "0 \<le> msg_FD (fs_msg s)" "msg_FD (fs_msg s) < int NR_FILES"
    "filp (proc_table s (pcaller s)) (nat (msg_FD (fs_msg s))) = Some f" "\<forall>q. 0 \<le> held s q"
  shows "\<exists>t. do_close s = Inr (0, t) \<and> counts_ok P t \<and> held t = held s \<and>
    filp (proc_table t (pcaller s)) (nat (msg_FD (fs_msg s))) = None"
proof -
  let ?i = "nat (msg_FD (fs_msg s))"
  have fin: "finite P" by (rule finite_subset[OF assms(2) finite_pids])
  have pid: "pcaller s \<in> pids" using assms(2,3) by blast
  have i: "?i < NR_FILES" using assms(4,5) by simp
  obtain q where f: "f < NR_FILE_DESC" "fd_inode (f_desc_table s f) = Some q"
    using filp_bound[OF assms(1,3) i assms(6)] by auto
  have "0 < i_cnt (inode_table s q)"
    using icount_pos[OF assms(1) f fin] assms(7)[rule_format, of q] by (simp add: held_def)
  then have "do_close s = Inr (0, drop_ref (pcaller s) ?i f q s)"
    using assms(4-6) pid f(2)
    by (simp add: do_close_def filp_of_def callerE_def put_inode_def updI_def updFD_def updP_def set_filp_def bindE_def op_defs
        drop_ref_def drop_desc_def)
  then show ?thesis
    using drop_ref_counts[OF assms(1) fin assms(3) i assms(6) f(2)] drop_ref_held[OF f]
    by (intro exI[of _ "drop_ref (pcaller s) ?i f q s"]) (simp add: drop_ref_def)
qed


subsection \<open>fs_fork\<close>

definition fork_slot :: "int \<Rightarrow> nat \<Rightarrow> ('a fstate_scheme, unit) op" where
  "fork_slot child i =
     bindE (procE child) (\<lambda>p.
     case filp p i of
       None \<Rightarrow> ret ()
     | Some f \<Rightarrow>
         bindE (updFD f (\<lambda>x. x\<lparr>fd_cnt := fd_cnt x + 1\<rparr>)) (\<lambda>_.
         bindE (getsE (\<lambda>s. fd_inode (f_desc_table s f))) (\<lambda>pin.
         case pin of
           None \<Rightarrow> fail (Bad_access ''fd_inode'')
         | Some q \<Rightarrow> updI q (\<lambda>x. x\<lparr>i_cnt := i_cnt x + 1\<rparr>))))"

lemma fs_fork_eq:
  "fs_fork = bindE (getsE (\<lambda>s. msg_PID (fs_msg s))) (\<lambda>child. bindE (forE [0..<NR_FILES] (fork_slot child)) (\<lambda>_. ret 0))"
  by (simp only: fs_fork_def fork_slot_def[abs_def])

definition held_from :: "proc \<Rightarrow> nat \<Rightarrow> nat \<Rightarrow> nat set" where
  "held_from p n f = {k. n \<le> k \<and> k < NR_FILES \<and> filp p k = Some f}"

lemma held_from_step: "n < NR_FILES \<Longrightarrow> held_from p n f = (if filp p n = Some f then insert n (held_from p (Suc n) f) else held_from p (Suc n) f)"
  unfolding held_from_def by (cases "filp p n = Some f") (auto simp: Suc_le_eq le_less)

lemma finite_held_from [simp]: "finite (held_from p n f)"
  by (rule finite_subset[of _ "{..<NR_FILES}"]) (auto simp: held_from_def)

lemma card_held_from_step:
  "n < NR_FILES \<Longrightarrow> card (held_from p n f) = (if filp p n = Some f then 1 else 0) + card (held_from p (Suc n) f)"
proof -
  assume n: "n < NR_FILES"
  have "n \<notin> held_from p (Suc n) f" by (simp add: held_from_def)
  then show ?thesis unfolding held_from_step[OF n] by simp
qed

definition fork_frame :: "'a fstate_scheme \<Rightarrow> 'a fstate_scheme \<Rightarrow> bool" where
  "fork_frame s t = (held t = held s \<and> (\<forall>f. fd_inode (f_desc_table t f) = fd_inode (f_desc_table s f)) \<and>
     (\<exists>ft it. t = s\<lparr>f_desc_table := ft, inode_table := it\<rparr>))"

lemma fork_frame_refl [simp]: "fork_frame s s"
  unfolding fork_frame_def by (intro conjI exI[of _ "f_desc_table s"] exI[of _ "inode_table s"]) simp_all

lemma fork_frame_trans: "fork_frame s t \<Longrightarrow> fork_frame t u \<Longrightarrow> fork_frame s u"
  unfolding fork_frame_def by (elim conjE exE) (simp, intro exI, rule refl)

lemma fork_frame_fields: "fork_frame s t \<Longrightarrow> proc_table t = proc_table s"
  "fork_frame s t \<Longrightarrow> fd_inode (f_desc_table t f) = fd_inode (f_desc_table s f)" "fork_frame s t \<Longrightarrow> held t = held s"
  by (auto simp: fork_frame_def)

lemma fork_slot_ok:
  assumes "child \<in> pids" "\<forall>f. filp (proc_table s child) i = Some f \<longrightarrow> f < NR_FILE_DESC \<and> fd_inode (f_desc_table s f) \<noteq> None"
  shows "\<exists>t. fork_slot child i s = Inr ((), t) \<and> fork_frame s t \<and>
    (\<forall>f. fd_cnt (f_desc_table t f) = fd_cnt (f_desc_table s f) + (if filp (proc_table s child) i = Some f then 1 else 0))"
proof (cases "filp (proc_table s child) i")
  case None
  then show ?thesis using assms(1) by (intro exI[of _ s]) (simp add: fork_slot_def op_defs)
next
  case (Some f)
  then obtain q where f: "f < NR_FILE_DESC" "fd_inode (f_desc_table s f) = Some q" using assms(2) by auto
  let ?t = "s\<lparr>f_desc_table := (f_desc_table s)(f := (f_desc_table s f)\<lparr>fd_cnt := fd_cnt (f_desc_table s f) + 1\<rparr>),
    inode_table := (inode_table s)(q := (inode_table s q)\<lparr>i_cnt := i_cnt (inode_table s q) + 1\<rparr>)\<rparr>"
  have "fork_slot child i s = Inr ((), ?t)"
    using Some f(2) assms(1) by (simp add: fork_slot_def updFD_def updI_def bindE_def op_defs)
  moreover have "held ?t = held s"
    using f by (auto simp: held_def icount_upd fun_eq_iff)
  moreover have "\<exists>ft it. ?t = s\<lparr>f_desc_table := ft, inode_table := it\<rparr>" by (intro exI) (rule refl)
  ultimately show ?thesis using Some by (intro exI[of _ ?t]) (simp add: fork_frame_def)
qed

lemma fork_loop_ok:
  assumes "child \<in> pids" "n \<le> NR_FILES"
    "\<forall>i < NR_FILES. \<forall>f. filp (proc_table s child) i = Some f \<longrightarrow> f < NR_FILE_DESC \<and> fd_inode (f_desc_table s f) \<noteq> None"
  shows "\<exists>t. forE [n..<NR_FILES] (fork_slot child) s = Inr ((), t) \<and> fork_frame s t \<and>
    (\<forall>f. fd_cnt (f_desc_table t f) = fd_cnt (f_desc_table s f) + int (card (held_from (proc_table s child) n f)))"
  using assms(2,3)
proof (induction "NR_FILES - n" arbitrary: n s)
  case 0
  then have "held_from p n f = {}" for p f by (auto simp: held_from_def)
  then show ?case using 0 by (intro exI[of _ s]) (simp add: op_defs)
next
  case (Suc d)
  then have n: "n < NR_FILES" by simp
  then have up: "[n..<NR_FILES] = n # [Suc n..<NR_FILES]" by (rule upt_conv_Cons)
  obtain u where u: "fork_slot child n s = Inr ((), u)" "fork_frame s u"
    "\<forall>f. fd_cnt (f_desc_table u f) = fd_cnt (f_desc_table s f) + (if filp (proc_table s child) n = Some f then 1 else 0)"
    using fork_slot_ok[OF assms(1), of s n] Suc.prems(2) n by blast
  have d: "d = NR_FILES - Suc n" using Suc.hyps(2) by simp
  have pr: "\<forall>i < NR_FILES. \<forall>f. filp (proc_table u child) i = Some f \<longrightarrow> f < NR_FILE_DESC \<and> fd_inode (f_desc_table u f) \<noteq> None"
    using Suc.prems(2) fork_frame_fields[OF u(2)] by simp
  from Suc.hyps(1)[OF d Suc_leI[OF n] pr] obtain t where
    t: "forE [Suc n..<NR_FILES] (fork_slot child) u = Inr ((), t)" "fork_frame u t"
    "\<forall>f. fd_cnt (f_desc_table t f) = fd_cnt (f_desc_table u f) + int (card (held_from (proc_table u child) (Suc n) f))"
    by (elim exE conjE)
  have "fork_frame s t" using u(2) t(2) by (rule fork_frame_trans)
  moreover have "\<forall>f. fd_cnt (f_desc_table t f) = fd_cnt (f_desc_table s f) + int (card (held_from (proc_table s child) n f))"
    using t(3) u(3) fork_frame_fields[OF u(2)] by (simp add: card_held_from_step[OF n])
  ultimately show ?case using u(1) t(1) unfolding up by (intro exI[of _ t]) simp
qed

lemma slots_insert: "slots pt (insert c P) f = slots pt P f \<union> Pair c ` held_from (pt c) 0 f"
  by (auto simp: slots_def held_from_def)

lemma card_slots_insert:
  assumes "c \<notin> P" "finite P"
  shows "card (slots pt (insert c P) f) = card (slots pt P f) + card (held_from (pt c) 0 f)"
proof -
  have "slots pt P f \<inter> Pair c ` held_from (pt c) 0 f = {}" using assms(1) by (auto simp: slots_def)
  then show ?thesis
    unfolding slots_insert using assms(2) by (simp add: card_Un_disjoint card_image inj_on_def)
qed

lemma fs_fork_ok:
  assumes "counts_ok P s" "P \<subseteq> pids" "parent \<in> P" "msg_PID (fs_msg s) \<in> pids" "msg_PID (fs_msg s) \<notin> P"
    "filp (proc_table s (msg_PID (fs_msg s))) = filp (proc_table s parent)"
  shows "\<exists>t. fs_fork s = Inr (0, t) \<and> counts_ok (insert (msg_PID (fs_msg s)) P) t \<and> fork_frame s t"
proof -
  let ?c = "msg_PID (fs_msg s)"
  have fin: "finite P" by (rule finite_subset[OF assms(2) finite_pids])
  have open_: "\<forall>i < NR_FILES. \<forall>f. filp (proc_table s ?c) i = Some f \<longrightarrow> f < NR_FILE_DESC \<and> fd_inode (f_desc_table s f) \<noteq> None"
    using filp_bound[OF assms(1,3)] assms(6) by simp
  from fork_loop_ok[OF assms(4) le0 this] obtain t where
    t: "forE [0..<NR_FILES] (fork_slot ?c) s = Inr ((), t)" "fork_frame s t"
      "\<forall>f. fd_cnt (f_desc_table t f) = fd_cnt (f_desc_table s f) + int (card (held_from (proc_table s ?c) 0 f))"
    by (elim exE conjE)
  have "fs_fork s = Inr (0, t)" using t(1) by (simp add: fs_fork_eq op_defs)
  moreover have "counts_ok (insert ?c P) t"
    unfolding counts_ok_def
  proof (intro conjI allI impI ballI)
    fix f assume f: "f < NR_FILE_DESC"
    note c = assms(1)[unfolded counts_ok_def, THEN conjunct2, rule_format, OF f]
    have pt: "proc_table t = proc_table s" "fd_inode (f_desc_table t f) = fd_inode (f_desc_table s f)"
      using fork_frame_fields[OF t(2)] by simp_all
    show "case fd_inode (f_desc_table t f) of
         None \<Rightarrow> slots (proc_table t) (insert ?c P) f = {}
       | Some q \<Rightarrow> fd_cnt (f_desc_table t f) = int (card (slots (proc_table t) (insert ?c P) f)) \<and>
           slots (proc_table t) (insert ?c P) f \<noteq> {}"
    proof (cases "fd_inode (f_desc_table s f)")
      case None
      then have "held_from (proc_table s ?c) 0 f = {}" using open_ by (auto simp: held_from_def)
      then show ?thesis using None c unfolding pt slots_insert by (simp only: option.case image_empty Un_empty_right)
    next
      case (Some q)
      then show ?thesis using c t(3) card_slots_insert[OF assms(5) fin, of "proc_table s" f] unfolding pt
        by (simp add: slots_insert)
    qed
  next
    fix p i f assume p: "p \<in> insert ?c P" "i < NR_FILES" "filp (proc_table t p) i = Some f"
    then have "filp (proc_table s p) i = Some f" using fork_frame_fields[OF t(2)] by simp
    then show "f < NR_FILE_DESC"
      using open_[rule_format, OF p(2)] filp_bound[OF assms(1) _ p(2)] p(1) by (cases "p = ?c") simp_all
  qed
  ultimately show ?thesis using t(2) by (intro exI[of _ t] conjI)
qed

text \<open>
  C22. After a fork, when the child's entry of the process table is a copy of its parent's,
  \<open>fs_fork\<close> returns 0 and makes every count cover the child's references as well: the two
  processes share their open files, and no inode gains a reference that is not a descriptor's.
\<close>

theorem fs_fork_keeps_counts:
  assumes "counts_ok P s" "P \<subseteq> pids" "parent \<in> P" "msg_PID (fs_msg s) \<in> pids" "msg_PID (fs_msg s) \<notin> P"
    "filp (proc_table s (msg_PID (fs_msg s))) = filp (proc_table s parent)"
  shows "\<exists>t. fs_fork s = Inr (0, t) \<and> counts_ok (insert (msg_PID (fs_msg s)) P) t \<and> held t = held s \<and> proc_table t = proc_table s"
  using fs_fork_ok[OF assms] fork_frame_fields by blast

subsection \<open>A descriptor in use\<close>

text \<open>\<open>n\<close> processes share descriptor 3 as their first file, on inode 7; inode 0 is the root directory.\<close>

definition open_example :: "int list \<Rightarrow> int list \<Rightarrow> message \<Rightarrow> fstate" where
  "open_example holders counted msg = kstate.extend (idle_state\<lparr>proc_table := (\<lambda>p.
       if p \<in> set holders then idle_proc\<lparr>filp := (filp idle_proc)(0 := Some 3)\<rparr> else idle_proc)\<rparr>) \<lparr>
     f_desc_table = (\<lambda>_. \<lparr>fd_mode = 0, fd_pos = 0, fd_cnt = 0, fd_inode = None\<rparr>)
       (3 := \<lparr>fd_mode = O_RDWR, fd_pos = 0, fd_cnt = int (length counted), fd_inode = Some 7\<rparr>),
     inode_table = (\<lambda>_. \<lparr>i_mode = 0, i_size = 0, i_start_sect = 0, i_nr_sects = 0, i_dev = 0, i_cnt = 0, i_num = 0\<rparr>)
       (0 := \<lparr>i_mode = I_DIRECTORY, i_size = 80, i_start_sect = 269, i_nr_sects = 2048, i_dev = ROOT_DEV, i_cnt = 1, i_num = 1\<rparr>,
        7 := \<lparr>i_mode = I_REGULAR, i_size = 10, i_start_sect = 2317, i_nr_sects = 2048, i_dev = ROOT_DEV, i_cnt = int (length counted), i_num = 6\<rparr>),
     super_blocks = (\<lambda>_. mkfs_super 0x9000), myroot_inode = 0, pcaller = INIT, fs_msg = msg \<rparr>"

lemma open_example_ok:
  assumes "set counted \<subseteq> set holders" "distinct counted" "counted \<noteq> []"
  shows "counts_ok (set counted) (open_example holders counted msg)" "\<forall>q. 0 \<le> held (open_example holders counted msg) q"
proof -
  let ?s = "open_example holders counted msg"
  have f: "proc_table ?s p = (if p \<in> set holders then idle_proc\<lparr>filp := (filp idle_proc)(0 := Some 3)\<rparr> else idle_proc)"
    "f_desc_table ?s = (\<lambda>_. \<lparr>fd_mode = 0, fd_pos = 0, fd_cnt = 0, fd_inode = None\<rparr>)
       (3 := \<lparr>fd_mode = O_RDWR, fd_pos = 0, fd_cnt = int (length counted), fd_inode = Some 7\<rparr>)" for p
    by (simp_all add: open_example_def kstate.defs)
  have sl: "slots (proc_table ?s) (set counted) k = (if k = 3 then (\<lambda>p. (p, 0)) ` set counted else {})" for k
    using assms(1) by (auto simp: slots_def f split: if_splits)
  have "card ((\<lambda>p. (p, 0 :: nat)) ` set counted) = length counted"
    using assms(2) by (simp add: card_image inj_on_def distinct_card)
  then show "counts_ok (set counted) ?s"
    using assms(3) by (auto simp: counts_ok_def sl f(2)) (auto simp: f(1) split: if_splits)
  have z: "icount (\<lambda>_. \<lparr>fd_mode = 0, fd_pos = 0, fd_cnt = 0, fd_inode = None\<rparr>) q = 0" for q by (simp add: icount_def)
  show "\<forall>q. 0 \<le> held ?s q"
    unfolding held_def f(2) by (auto simp: icount_upd z open_example_def kstate.defs)
qed

theorem fs_fork_keeps_counts_witness:
  "\<exists>t. fs_fork (open_example [INIT, 9] [INIT] (zero_msg\<lparr>m3i2 := 9\<rparr>)) = Inr (0, t) \<and> counts_ok {9, INIT} t"
  using fs_fork_keeps_counts[of "{INIT}" "open_example [INIT, 9] [INIT] (zero_msg\<lparr>m3i2 := 9\<rparr>)" INIT]
    open_example_ok(1)[of "[INIT]" "[INIT, 9]"]
  by (auto simp: open_example_def kstate.defs pids_def)

theorem fs_exit_keeps_counts_witness:
  "\<exists>t. fs_exit (open_example [INIT, 9] [INIT, 9] (zero_msg\<lparr>m3i2 := 9\<rparr>)) = Inr (0, t) \<and> counts_ok {INIT, 9} t"
  using fs_exit_keeps_counts[of "{INIT, 9}" "open_example [INIT, 9] [INIT, 9] (zero_msg\<lparr>m3i2 := 9\<rparr>)"]
    open_example_ok(1)[of "[INIT, 9]" "[INIT, 9]"]
  by (auto simp: open_example_def kstate.defs pids_def)

end
