(* ===== verification/Mm.thy ===== *)
theory Mm
  imports Ipc_Sys Unistd Fs_Refs
begin

section \<open>The memory manager task\<close>

text \<open>
  mm/main.c, mm/fork2exit.c and mm/exec.c. The task shares the process table, the memory and
  the file system's state with the rest. A message to a process goes through \<open>sys_sendrec\<close>
  of the kernel; the calls to the file system run its request handler (\<open>fs_request\<close>), whose
  own drivers are the argument \<open>drv\<close>. The addresses of the task's local variables are fields
  of the state. Messages that are printed are left out.
\<close>

abbreviation (input) PROC_BASE :: int where "PROC_BASE \<equiv> 0xA00000"
abbreviation (input) PROC_IMAGE_SIZE_DEFAULT :: int where "PROC_IMAGE_SIZE_DEFAULT \<equiv> 0x100000"
abbreviation (input) LIMIT_4K_SHIFT :: nat where "LIMIT_4K_SHIFT \<equiv> 12"
abbreviation (input) MMBUF :: addr where "MMBUF \<equiv> 0x700000"
abbreviation (input) MMBUF_LEN :: int where "MMBUF_LEN \<equiv> 0x100000"

record mstate = fstate +
  mm_msg :: message
  memory_size :: int
  at_msg :: addr
  at_path :: addr
  at_stat :: addr
  at_stack :: addr

definition modMM :: "(message \<Rightarrow> message) \<Rightarrow> ('a mstate_scheme, unit) op" where
  "modMM f = modE (\<lambda>s. s\<lparr>mm_msg := f (mm_msg s)\<rparr>)"

subsection \<open>Messages of the task\<close>

text \<open>A system call that does not block; the task waits when it does.\<close>

definition sendrec_now :: "int \<Rightarrow> int \<Rightarrow> int \<Rightarrow> addr \<Rightarrow> ('a kstate_scheme, int) op" where
  "sendrec_now p func d m =
     bindE (sys_sendrec func d m p) (\<lambda>r.
     bindE (procE p) (\<lambda>x. if p_flags x = 0 then ret r else fail (Wait ''sendrec'')))"

definition mm_send :: "int \<Rightarrow> message \<Rightarrow> ('a mstate_scheme, unit) op" where
  "mm_send dest msg =
     bindE (getsE at_msg) (\<lambda>a.
     bindE (modM (\<lambda>m. put_msg m a msg)) (\<lambda>_.
     bindE (send_recv (sendrec_now TASK_MM) F_SEND dest a) (\<lambda>_. ret ())))"

text \<open>\<open>send_recv(BOTH, TASK_FS, &msg)\<close>: the file system serves the request and answers.\<close>

definition fs_call :: "('a mstate_scheme) rpc \<Rightarrow> ('a mstate_scheme) rpc" where
  "fs_call drv task msg =
     bindE (fs_request drv (msg\<lparr>m_source := TASK_MM\<rparr>)) (\<lambda>r.
     case r of
       Some (d, reply) \<Rightarrow> if task = TASK_FS \<and> d = TASK_MM then ret (reply\<lparr>m_source := TASK_FS\<rparr>) else fail (Wait ''sendrec'')
     | None \<Rightarrow> fail (Wait ''sendrec''))"

subsection \<open>Memory (mm/main.c)\<close>

text \<open>\<open>BOOT_PARAM_ADDR\<close> is 0x900; the words there are the magic number, the memory size and the kernel file.\<close>

definition get_boot_params :: "('a kstate_scheme, int \<times> addr) op" where
  "get_boot_params =
     bindE (getsE kmem) (\<lambda>m.
     bindE (assertE ''p[BI_MAG] == BOOT_PARAM_MAGIC'' (\<lambda>_. rd32 m 0x900 = 0xB007)) (\<lambda>_.
     let mem_size = sint (rd32 m 0x904); kernel_file = rd32 m 0x908 in
     bindE (assertE ''memcmp(bootp->kernel_file, ELFMAG, SELFMAG) == 0''
       (\<lambda>_. kernel_file \<noteq> 0 \<and> mem_bytes m kernel_file 4 = [0x7F, 0x45, 0x4C, 0x46])) (\<lambda>_.
     ret (mem_size, kernel_file))))"

definition init_mm :: "('a mstate_scheme, unit) op" where
  "init_mm = bindE get_boot_params (\<lambda>bp. modE (\<lambda>s. s\<lparr>memory_size := fst bp\<rparr>))"

definition alloc_mem :: "int \<Rightarrow> int \<Rightarrow> ('a mstate_scheme, int) op" where
  "alloc_mem p memsize =
     bindE (assertE ''pid >= NR_TASKS + NR_NATIVE_PROCS'' (\<lambda>_. NR_TASKS + NR_NATIVE_PROCS \<le> p)) (\<lambda>_.
     bindE (whenE (memsize > PROC_IMAGE_SIZE_DEFAULT) (fail (Panic ''unsupported memory request''))) (\<lambda>_.
     let base = PROC_BASE + (p - NR_TASKS - NR_NATIVE_PROCS) * PROC_IMAGE_SIZE_DEFAULT in
     bindE (getsE memory_size) (\<lambda>memsz.
     if base + memsize \<ge> memsz then fail (Panic ''memory allocation failed'') else ret base)))"

subsection \<open>Fork (mm/fork2exit.c)\<close>

definition free_slot :: "proc_tab \<Rightarrow> int" where
  "free_slot pt = (case find (\<lambda>i. p_flags (pt i) = FREE_SLOT) proc_list of Some i \<Rightarrow> i | None \<Rightarrow> NR_PROCS)"

text \<open>
  \<open>sprintf(child_procp->name, "%s_%d", parent's name, child_pid)\<close>: the name of the parent, as a
  memory of its own, is the string argument; the field has 16 bytes.
\<close>

definition fork_name :: "byte list \<Rightarrow> int \<Rightarrow> fault + byte list" where
  "fork_name nm child_pid =
     (case vsprintf (\<lambda>a. if unat a < length nm then nm ! unat a else 0) [0x25, 0x73, 0x5F, 0x25, 0x64] [0, u32_int child_pid] of
        Inl e \<Rightarrow> Inl e
      | Inr cs \<Rightarrow> if length cs < 16 then Inr cs else Inl (Bad_access ''name''))"

definition copy_entry :: "int \<Rightarrow> int \<Rightarrow> ('a kstate_scheme, unit) op" where
  "copy_entry child_pid parent_pid =
     bindE (procE child_pid) (\<lambda>c.
     bindE (procE parent_pid) (\<lambda>p.
     bindE (updP child_pid (\<lambda>_. p)) (\<lambda>_.
     bindE (updP child_pid (\<lambda>x. x\<lparr>ldt_sel := ldt_sel c\<rparr>)) (\<lambda>_.
     bindE (updP child_pid (\<lambda>x. x\<lparr>p_parent := parent_pid\<rparr>)) (\<lambda>_.
     case fork_name (p_name p) child_pid of
       Inl e \<Rightarrow> fail e
     | Inr nm \<Rightarrow> updP child_pid (\<lambda>x. x\<lparr>p_name := nm\<rparr>))))))"

definition duplicate_image :: "int \<Rightarrow> int \<Rightarrow> ('a mstate_scheme, unit) op" where
  "duplicate_image child_pid parent_pid =
     bindE (procE parent_pid) (\<lambda>p.
     let c = ldts p INDEX_LDT_C; d = ldts p INDEX_LDT_RW;
         T_base = reassembled_base c; T_limit = reassembled_limit c; T_size = segment_size c
     in
     bindE (assertE ''caller_T_base == caller_D2S_base'' (\<lambda>_. T_base = reassembled_base d)) (\<lambda>_.
     bindE (assertE ''caller_T_limit == caller_D2S_limit'' (\<lambda>_. T_limit = reassembled_limit d)) (\<lambda>_.
     bindE (assertE ''caller_T_size == caller_D2S_size'' (\<lambda>_. T_size = segment_size d)) (\<lambda>_.
     bindE (alloc_mem child_pid (sint T_size)) (\<lambda>child_base.
     bindE (modM (phys_copy (u32_int child_base) T_base (sint T_size))) (\<lambda>_.
     bindE (updP child_pid (\<lambda>x. x\<lparr>ldts := (ldts x)(INDEX_LDT_C :=
       init_descriptor (u32_int child_base) (drop_bit LIMIT_4K_SHIFT (u32_int (PROC_IMAGE_SIZE_DEFAULT - 1)))
         (DA_LIMIT_4K OR DA_32 OR DA_C OR push_bit 5 (ucast PRIVILEGE_USER)))\<rparr>)) (\<lambda>_.
     updP child_pid (\<lambda>x. x\<lparr>ldts := (ldts x)(INDEX_LDT_RW :=
       init_descriptor (u32_int child_base) (drop_bit LIMIT_4K_SHIFT (u32_int (PROC_IMAGE_SIZE_DEFAULT - 1)))
         (DA_LIMIT_4K OR DA_32 OR DA_DRW OR push_bit 5 (ucast PRIVILEGE_USER)))\<rparr>))))))))"

definition do_fork :: "('a mstate_scheme) rpc \<Rightarrow> ('a mstate_scheme, int) op" where
  "do_fork drv =
     bindE (getsE (\<lambda>s. free_slot (proc_table s))) (\<lambda>child_pid.
     bindE (assertE ''child_pid >= NR_TASKS + NR_NATIVE_PROCS'' (\<lambda>_. NR_TASKS + NR_NATIVE_PROCS \<le> child_pid)) (\<lambda>_.
     if child_pid = NR_PROCS then ret (-1)
     else
       bindE (getsE (\<lambda>s. m_source (mm_msg s))) (\<lambda>parent_pid.
       bindE (copy_entry child_pid parent_pid) (\<lambda>_.
       bindE (duplicate_image child_pid parent_pid) (\<lambda>_.
       bindE (fs_call drv TASK_FS (zero_msg\<lparr>m_type := FORK, m3i2 := child_pid\<rparr>)) (\<lambda>_.
       bindE (modMM (\<lambda>m. m\<lparr>m3i2 := child_pid\<rparr>)) (\<lambda>_.
       bindE (mm_send child_pid (zero_msg\<lparr>m_type := SYSCALL_RET, m3i1 := 0, m3i2 := 0\<rparr>)) (\<lambda>_.
       ret 0))))))))"

subsection \<open>Exit and wait (mm/fork2exit.c)\<close>

definition cleanup :: "int \<Rightarrow> ('a mstate_scheme, unit) op" where
  "cleanup p =
     bindE (procE p) (\<lambda>x.
     bindE (mm_send (p_parent x) (zero_msg\<lparr>m_type := SYSCALL_RET, m3i2 := p, m3i1 := exit_status x\<rparr>)) (\<lambda>_.
     updP p (\<lambda>x. x\<lparr>p_flags := FREE_SLOT\<rparr>)))"

definition reparent :: "int \<Rightarrow> int \<Rightarrow> ('a mstate_scheme, unit) op" where
  "reparent gone i =
     bindE (procE i) (\<lambda>x.
     whenE (p_parent x = gone)
       (bindE (updP i (\<lambda>x. x\<lparr>p_parent := INIT\<rparr>)) (\<lambda>_.
        bindE (procE INIT) (\<lambda>ini.
        bindE (procE i) (\<lambda>x.
        whenE (p_flags ini = WAITING \<and> p_flags x = HANGING)
          (bindE (updP i (\<lambda>x. x\<lparr>p_flags := p_flags x AND NOT HANGING\<rparr>)) (\<lambda>_. cleanup i)))))))"

definition do_exit :: "('a mstate_scheme) rpc \<Rightarrow> int \<Rightarrow> ('a mstate_scheme, unit) op" where
  "do_exit drv status =
     bindE (getsE (\<lambda>s. m_source (mm_msg s))) (\<lambda>src.
     bindE (procE src) (\<lambda>x.
     let parent_pid = p_parent x in
     bindE (fs_call drv TASK_FS (zero_msg\<lparr>m_type := EXIT, m3i2 := src\<rparr>)) (\<lambda>_.
     bindE (updP src (\<lambda>x. x\<lparr>exit_status := status\<rparr>)) (\<lambda>_.
     bindE (procE parent_pid) (\<lambda>par.
     bindE (if p_flags par AND WAITING \<noteq> 0 then
              bindE (updP parent_pid (\<lambda>x. x\<lparr>p_flags := p_flags x AND NOT WAITING\<rparr>)) (\<lambda>_. cleanup src)
            else updP src (\<lambda>x. x\<lparr>p_flags := p_flags x OR HANGING\<rparr>)) (\<lambda>_.
     forE proc_list (reparent src)))))))"

text \<open>The loop of \<open>do_wait\<close>: \<open>None\<close> when it has cleaned up a child, else the number of children.\<close>

fun wait_scan :: "int \<Rightarrow> int list \<Rightarrow> int \<Rightarrow> ('a mstate_scheme, int option) op" where
  "wait_scan src [] children = ret (Some children)"
| "wait_scan src (i # is) children =
     bindE (procE i) (\<lambda>x.
     if p_parent x = src then
       if p_flags x AND HANGING \<noteq> 0 then bindE (cleanup i) (\<lambda>_. ret None)
       else wait_scan src is (children + 1)
     else wait_scan src is children)"

definition do_wait :: "('a mstate_scheme, unit) op" where
  "do_wait =
     bindE (getsE (\<lambda>s. m_source (mm_msg s))) (\<lambda>src.
     bindE (wait_scan src proc_list 0) (\<lambda>r.
     case r of
       None \<Rightarrow> ret ()
     | Some children \<Rightarrow>
         if children \<noteq> 0 then bindE (procE src) (\<lambda>_. updP src (\<lambda>x. x\<lparr>p_flags := p_flags x OR WAITING\<rparr>))
         else mm_send src (zero_msg\<lparr>m_type := SYSCALL_RET, m3i2 := NO_TASK\<rparr>)))"

subsection \<open>Exec (mm/exec.c)\<close>

text \<open>Fields of the ELF file at \<open>mmbuf\<close>, at the offsets of \<open>Elf32_Ehdr\<close> and \<open>Elf32_Phdr\<close>.\<close>

definition e_entry :: "mem \<Rightarrow> u32" where "e_entry m = rd32 m (MMBUF + 24)"
definition e_phnum :: "mem \<Rightarrow> u16" where "e_phnum m = rd16 m (MMBUF + 44)"

definition prog_hdr :: "mem \<Rightarrow> nat \<Rightarrow> addr" where
  "prog_hdr m i = MMBUF + rd32 m (MMBUF + 28) + of_nat i * ucast (rd16 m (MMBUF + 42))"

definition load_segment :: "int \<Rightarrow> addr \<Rightarrow> ('a mstate_scheme, unit) op" where
  "load_segment src ph =
     bindE (getsE kmem) (\<lambda>m.
     let p_type = rd32 m ph; p_offset = rd32 m (ph + 4); p_vaddr = rd32 m (ph + 8);
         p_filesz = rd32 m (ph + 16); p_memsz = rd32 m (ph + 20)
     in whenE (p_type = 1)
       (bindE (assertE ''p_vaddr + p_memsz < PROC_IMAGE_SIZE_DEFAULT''
          (\<lambda>_. p_vaddr + p_memsz < u32_int PROC_IMAGE_SIZE_DEFAULT)) (\<lambda>_.
        copy_between src p_vaddr TASK_MM (MMBUF + p_offset) (sint p_filesz))))"

text \<open>The loop over the program headers; \<open>e_phnum\<close> has 16 bits, so 65536 rounds end it.\<close>

fun load_loop :: "int \<Rightarrow> nat \<Rightarrow> nat \<Rightarrow> ('a mstate_scheme, unit) op" where
  "load_loop src 0 i = ret ()"
| "load_loop src (Suc k) i =
     bindE (getsE (\<lambda>s. e_phnum (kmem s))) (\<lambda>n.
     if i < unat n then
       bindE (getsE (\<lambda>s. prog_hdr (kmem s) i)) (\<lambda>ph.
       bindE (load_segment src ph) (\<lambda>_. load_loop src k (Suc i)))
     else ret ())"

text \<open>\<open>for (; *q != 0; q++, argc++) *q += delta;\<close> on the array \<open>stackcopy\<close> at \<open>sc\<close>.\<close>

fun relocate :: "addr \<Rightarrow> u32 \<Rightarrow> nat list \<Rightarrow> int \<Rightarrow> mem \<Rightarrow> fault + (int \<times> mem)" where
  "relocate sc delta [] argc m = Inl (Bad_access ''stackcopy'')"
| "relocate sc delta (k # ks) argc m =
     (let q = sc + of_nat (4 * k) in
      if rd32 m q = 0 then Inr (argc, m)
      else relocate sc delta ks (argc + 1) (wr32 m q (rd32 m q + delta)))"

definition exec_pathname :: "message \<Rightarrow> ('a mstate_scheme, unit) op" where
  "exec_pathname msg =
     (let name_len = m3i2 msg in
      bindE (assertE ''name_len < MAX_PATH_LEN'' (\<lambda>_. name_len < MAX_PATH_LEN)) (\<lambda>_.
      if name_len < 0 then fail (Bad_access ''pathname'')
      else
        bindE (getsE at_path) (\<lambda>path.
        bindE (copy_between TASK_MM path (m_source msg) (m3p1 msg) name_len) (\<lambda>_.
        modM (\<lambda>m. m(path + of_nat (nat name_len) := 0))))))"

text \<open>The stack that the new image starts with, below the end of the image.\<close>

abbreviation (input) orig_stack :: addr where "orig_stack \<equiv> 0x100000 - 0x400"

definition exec_stack :: "message \<Rightarrow> ('a mstate_scheme, int) op" where
  "exec_stack msg =
     (let src = m_source msg; orig_stack_len = m3i3 msg in
      if orig_stack_len < 0 \<or> orig_stack_len > int PROC_ORIGIN_STACK then fail (Bad_access ''stackcopy'')
      else
        bindE (getsE at_stack) (\<lambda>sc.
        bindE (copy_between TASK_MM sc src (m3p2 msg) orig_stack_len) (\<lambda>_.
        bindE (if orig_stack_len \<noteq> 0 then
                 (\<lambda>s. case relocate sc (orig_stack - m3p2 msg) [0..<256] 0 (kmem s) of
                    Inl e \<Rightarrow> Inl e
                  | Inr (argc, m) \<Rightarrow> Inr (argc, s\<lparr>kmem := m\<rparr>))
               else ret 0) (\<lambda>argc.
        bindE (copy_between src orig_stack TASK_MM sc orig_stack_len) (\<lambda>_.
        ret argc)))))"

definition exec_regs :: "int \<Rightarrow> int \<Rightarrow> ('a mstate_scheme, unit) op" where
  "exec_regs src argc =
     bindE (procE src) (\<lambda>_.
     bindE (updP src (\<lambda>x. x\<lparr>regs := (regs x)\<lparr>reg_ecx := u32_int argc, reg_eax := orig_stack\<rparr>\<rparr>)) (\<lambda>_.
     bindE (getsE (\<lambda>s. e_entry (kmem s))) (\<lambda>entry.
     updP src (\<lambda>x. x\<lparr>regs := (regs x)\<lparr>reg_eip := entry, reg_esp := orig_stack\<rparr>\<rparr>))))"

definition exec_name :: "int \<Rightarrow> ('a mstate_scheme, unit) op" where
  "exec_name src =
     bindE (getsE at_path) (\<lambda>path.
     bindE (strlenE path) (\<lambda>n.
     if 0 \<le> n \<and> n < 16 then
       bindE (getsE (\<lambda>s. str_at (kmem s) path (nat n))) (\<lambda>nm. updP src (\<lambda>x. x\<lparr>p_name := nm\<rparr>))
     else fail (Bad_access ''name'')))"

definition do_exec :: "('a mstate_scheme) rpc \<Rightarrow> ('a mstate_scheme, int) op" where
  "do_exec drv =
     bindE (getsE mm_msg) (\<lambda>msg.
     bindE (exec_pathname msg) (\<lambda>_.
     bindE (getsE at_path) (\<lambda>path.
     bindE (getsE at_stat) (\<lambda>st.
     bindE (u_stat (fs_call drv) 0 path st) (\<lambda>r.
     if r \<noteq> 0 then ret (-1)
     else
       bindE (u_open (fs_call drv) 0 path O_RDWR) (\<lambda>fd.
       if fd = -1 then ret (-1)
       else
         bindE (getsE (\<lambda>s. sint (rd32 (kmem s) (st + 16)))) (\<lambda>sz.
         bindE (assertE ''s.size < MMBUF_LEN'' (\<lambda>_. sz < MMBUF_LEN)) (\<lambda>_.
         bindE (u_read (fs_call drv) fd MMBUF sz) (\<lambda>_.
         bindE (u_close (fs_call drv) fd) (\<lambda>_.
         bindE (load_loop (m_source msg) 65536 0) (\<lambda>_.
         bindE (exec_stack msg) (\<lambda>argc.
         bindE (exec_regs (m_source msg) argc) (\<lambda>_.
         bindE (exec_name (m_source msg)) (\<lambda>_.
         ret 0))))))))))))))"

subsection \<open>One request of task_mm (mm/main.c)\<close>

text \<open>A message of an unknown type is answered as it came, with the type \<open>SYSCALL_RET\<close>.\<close>

definition mm_reply :: "int \<Rightarrow> ('a mstate_scheme, unit) op" where
  "mm_reply src =
     bindE (modMM (\<lambda>m. m\<lparr>m_type := SYSCALL_RET\<rparr>)) (\<lambda>_.
     bindE (getsE mm_msg) (\<lambda>msg. mm_send src msg))"

definition mm_request :: "('a mstate_scheme) rpc \<Rightarrow> message \<Rightarrow> ('a mstate_scheme, unit) op" where
  "mm_request drv msg =
     (let src = m_source msg in
      bindE (modMM (\<lambda>_. msg)) (\<lambda>_.
      if m_type msg = FORK then
        bindE (do_fork drv) (\<lambda>r. bindE (modMM (\<lambda>m. m\<lparr>m3i1 := r\<rparr>)) (\<lambda>_. mm_reply src))
      else if m_type msg = EXEC then
        bindE (do_exec drv) (\<lambda>r. bindE (modMM (\<lambda>m. m\<lparr>m3i1 := r\<rparr>)) (\<lambda>_. mm_reply src))
      else if m_type msg = WAIT then do_wait
      else if m_type msg = EXIT then do_exit drv (m3i1 msg)
      else mm_reply src))"

end
