(* ===== verification/Mm_Fork.thy ===== *)
theory Mm_Fork
  imports Mm Ipc_Reach
begin

section \<open>Fork makes a process\<close>

text \<open>
  What the memory manager's answers do to the process that waits for them, where the images
  lie, and that a fork gives the child an entry, an image, its files and its first message.
\<close>

subsection \<open>Answers reach a process that waits for them\<close>

text \<open>The task runs, and a process waits for its answer.\<close>

definition mm_ready :: "'a mstate_scheme \<Rightarrow> bool" where
  "mm_ready s = (flat_natives (proc_table s) \<and> p_flags (proc_table s TASK_MM) = 0 \<and> p_msg (proc_table s TASK_MM) = 0 \<and>
     p_recvfrom (proc_table s TASK_MM) = NO_TASK \<and> p_sendto (proc_table s TASK_MM) = NO_TASK \<and> at_msg s \<noteq> 0)"

definition awaits_mm :: "proc \<Rightarrow> bool" where
  "awaits_mm x = (p_flags x = RECEIVING \<and> p_msg x \<noteq> 0 \<and> p_sendto x = NO_TASK \<and> p_recvfrom x \<in> {TASK_MM, ANY})"

text \<open>Its entry and the memory after the answer.\<close>

definition woken :: "proc \<Rightarrow> proc" where
  "woken x = x\<lparr>p_msg := 0, p_flags := 0, p_recvfrom := NO_TASK\<rparr>"

definition answered :: "int \<Rightarrow> mem \<Rightarrow> 'a mstate_scheme \<Rightarrow> 'a mstate_scheme" where
  "answered dest m s = s\<lparr>int_enabled := False, proc_table := (proc_table s)(dest := woken (proc_table s dest)), kmem := m\<rparr>"

definition msg_area :: "proc_tab \<Rightarrow> int \<Rightarrow> addr set" where
  "msg_area pt i = region (linear pt i (p_msg (pt i))) MESSAGE_SIZE"

definition msg_of :: "'a mstate_scheme \<Rightarrow> int \<Rightarrow> mem \<Rightarrow> message" where
  "msg_of s i m = get_msg m (linear (proc_table s) i (p_msg (proc_table s i)))"

lemma sendrec_now_ok:
  assumes "p \<in> pids" "dest \<in> pids" "p \<noteq> dest" "flat_natives (proc_table s)" "m \<noteq> 0"
    and "p_flags (proc_table s p) = 0" "p_msg (proc_table s p) = 0" "p_recvfrom (proc_table s p) = NO_TASK" "p_sendto (proc_table s p) = NO_TASK"
    and "p_flags (proc_table s dest) = RECEIVING" "p_msg (proc_table s dest) \<noteq> 0" "p_sendto (proc_table s dest) = NO_TASK"
      "p_recvfrom (proc_table s dest) \<in> {p, ANY}"
  shows "sendrec_now p F_SEND dest m s = Inr (0, delivered dest p m (stamped p m s))"
proof -
  let ?s = "stamped p m s"
  have "deadlock p dest ?s = Inr (False, ?s)"
    using assms(2,10) by (simp add: deadlock_def loopE_def deadlock_loop.simps sending_def)
  moreover have "deliver_to dest p m (?s\<lparr>int_enabled := False\<rparr>) = Inr ((), delivered dest p m ?s)"
    unfolding delivered_def using assms by (subst deliver_to_eq) simp_all
  ultimately have "msg_send_enter p dest m ?s = Inr (False, delivered dest p m ?s)"
    using assms by (simp add: msg_send_enter_def disable_int_def op_defs receiving_def)
  moreover have "p_flags (proc_table (delivered dest p m ?s) p) = 0" using assms(3,6) by (simp add: delivered_def)
  ultimately show ?thesis
    using assms(1-4) sys_sendrec_eq[of p s dest F_SEND m] by (simp add: sendrec_now_def msg_send_def op_defs)
qed

text \<open>The memory after an answer, and what it holds.\<close>

definition answer_mem :: "'a mstate_scheme \<Rightarrow> int \<Rightarrow> message \<Rightarrow> mem" where
  "answer_mem s dest msg =
     phys_copy (linear (proc_table s) dest (p_msg (proc_table s dest))) (at_msg s) (int MESSAGE_SIZE)
       (wr32 (put_msg (kmem s) (at_msg s) msg) (at_msg s) (u32_int TASK_MM))"

lemma mm_send_eq:
  assumes "mm_ready s" "dest \<in> pids" "dest \<noteq> TASK_MM" "awaits_mm (proc_table s dest)"
  shows "mm_send dest msg s = Inr ((), answered dest (answer_mem s dest msg) s)"
proof -
  let ?a = "at_msg s" and ?s = "s\<lparr>kmem := put_msg (kmem s) (at_msg s) msg\<rparr>"
  have mm: "TASK_MM \<in> pids" by (simp add: pids_def)
  have lin: "linear (proc_table s) TASK_MM ?a = ?a"
    using assms(1) by (simp add: mm_ready_def linear_def flat_natives_def)
  have "sendrec_now TASK_MM F_SEND dest ?a ?s = Inr (0, delivered dest TASK_MM ?a (stamped TASK_MM ?a ?s))"
    using assms mm by (intro sendrec_now_ok) (auto simp: mm_ready_def awaits_mm_def)
  also have "delivered dest TASK_MM ?a (stamped TASK_MM ?a ?s) = answered dest (answer_mem s dest msg) s"
    by (simp add: delivered_def stamped_def answered_def lin woken_def answer_mem_def)
  finally show ?thesis by (simp add: mm_send_def send_recv_def op_defs modM_def)
qed

lemma answer_mem_ok:
  assumes "msg_area (proc_table s) dest \<inter> region (at_msg s) MESSAGE_SIZE = {}"
  shows "msg_ok msg \<Longrightarrow> msg_of s dest (answer_mem s dest msg) = msg\<lparr>m_source := TASK_MM\<rparr>"
    and "x \<notin> msg_area (proc_table s) dest \<Longrightarrow> x \<notin> region (at_msg s) MESSAGE_SIZE \<Longrightarrow> answer_mem s dest msg x = kmem s x"
proof -
  let ?a = "at_msg s" and ?d = "linear (proc_table s) dest (p_msg (proc_table s dest))"
  let ?m1 = "wr32 (put_msg (kmem s) ?a msg) ?a (u32_int TASK_MM)"
  have dis: "region ?d MESSAGE_SIZE \<inter> region ?a MESSAGE_SIZE = {}" using assms by (simp add: msg_area_def)
  have m: "answer_mem s dest msg = memcpy MESSAGE_SIZE ?d ?a ?m1" by (simp add: answer_mem_def phys_copy_def u32_int_def)
  show "msg_of s dest (answer_mem s dest msg) = msg\<lparr>m_source := TASK_MM\<rparr>" if "msg_ok msg"
    using get_msg_memcpy[OF dis, of ?m1] get_msg_stamp[of TASK_MM "put_msg (kmem s) ?a msg" ?a] get_put_msg[OF that]
    by (simp add: msg_of_def m pids_def)
  show "answer_mem s dest msg x = kmem s x"
    if x: "x \<notin> msg_area (proc_table s) dest" "x \<notin> region ?a MESSAGE_SIZE"
    using x(1) dis put_msg_other[OF x(2)] wr32_outside[OF x(2), of 0] by (simp add: m memcpy_eq msg_area_def)
qed

lemma mm_send_ok:
  assumes "mm_ready s" "dest \<in> pids" "dest \<noteq> TASK_MM" "awaits_mm (proc_table s dest)" "msg_ok msg"
    and "msg_area (proc_table s) dest \<inter> region (at_msg s) MESSAGE_SIZE = {}"
  shows "\<exists>m. mm_send dest msg s = Inr ((), answered dest m s) \<and> msg_of s dest m = msg\<lparr>m_source := TASK_MM\<rparr> \<and>
    (\<forall>x. x \<notin> msg_area (proc_table s) dest \<longrightarrow> x \<notin> region (at_msg s) MESSAGE_SIZE \<longrightarrow> m x = kmem s x)"
  using mm_send_eq[OF assms(1-4), of msg] answer_mem_ok[OF assms(6)] assms(5) by blast

subsection \<open>Calls to the file system\<close>

text \<open>What a call to fork or exit changes besides the process table.\<close>

definition fs_side :: "'a mstate_scheme \<Rightarrow> 'a mstate_scheme \<Rightarrow> bool" where
  "fs_side s t = (\<exists>ft it pc fm. t = s\<lparr>f_desc_table := ft, inode_table := it, pcaller := pc, fs_msg := fm\<rparr>)"

lemma counts_ok_req [simp]:
  "counts_ok P (s\<lparr>fs_msg := fm\<rparr>) = counts_ok P s" "counts_ok P (s\<lparr>pcaller := pc\<rparr>) = counts_ok P s"
  by (simp_all add: counts_ok_def cong: option.case_cong)

lemma fs_call_fork:
  assumes "counts_ok P s" "P \<subseteq> pids" "parent \<in> P" "child \<in> pids" "child \<notin> P"
    "filp (proc_table s child) = filp (proc_table s parent)"
  shows "\<exists>r t. fs_call drv TASK_FS (zero_msg\<lparr>m_type := FORK, m3i2 := child\<rparr>) s = Inr (r, t) \<and>
    counts_ok (insert child P) t \<and> fs_side s t"
proof -
  let ?msg = "zero_msg\<lparr>m_type := FORK, m3i2 := child, m_source := TASK_MM\<rparr>"
  let ?s = "s\<lparr>fs_msg := ?msg, pcaller := TASK_MM\<rparr>"
  have "\<exists>t. fs_fork ?s = Inr (0, t) \<and> counts_ok (insert (msg_PID (fs_msg ?s)) P) t \<and> fork_frame ?s t"
    using assms by (intro fs_fork_ok) simp_all
  then obtain t where t: "fs_fork ?s = Inr (0, t)" "counts_ok (insert child P) t" "fork_frame ?s t" by auto
  from t(3) obtain ft it where f: "t = ?s\<lparr>f_desc_table := ft, inode_table := it\<rparr>" by (auto simp: fork_frame_def)
  let ?u = "t\<lparr>fs_msg := ?msg\<lparr>m3i1 := 0, m_type := SYSCALL_RET\<rparr>\<rparr>"
  have "fs_call drv TASK_FS (zero_msg\<lparr>m_type := FORK, m3i2 := child\<rparr>) s =
      Inr (?msg\<lparr>m3i1 := 0, m_type := SYSCALL_RET, m_source := TASK_FS\<rparr>, ?u)"
    using t(1) by (simp add: fs_call_def fs_request_def fs_dispatch_def set_fs_msg_def bindE_def op_defs f)
  moreover have "fs_side s ?u" unfolding fs_side_def f
    by (rule exI[of _ ft], rule exI[of _ it], rule exI[of _ TASK_MM],
        rule exI[of _ "?msg\<lparr>m3i1 := 0, m_type := SYSCALL_RET\<rparr>"]) simp
  ultimately show ?thesis using t(2) by (intro exI conjI) simp_all
qed

definition no_files :: "proc \<Rightarrow> proc" where
  "no_files x = x\<lparr>filp := (\<lambda>i. if i < NR_FILES then None else filp x i)\<rparr>"

lemma fs_call_exit:
  assumes "counts_ok P s" "P \<subseteq> pids" "p \<in> P"
  shows "\<exists>r t. fs_call drv TASK_FS (zero_msg\<lparr>m_type := EXIT, m3i2 := p\<rparr>) s = Inr (r, t) \<and> counts_ok P t \<and>
    fs_side (s\<lparr>proc_table := (proc_table s)(p := no_files (proc_table s p))\<rparr>) t"
proof -
  let ?msg = "zero_msg\<lparr>m_type := EXIT, m3i2 := p, m_source := TASK_MM\<rparr>"
  let ?s = "s\<lparr>fs_msg := ?msg, pcaller := TASK_MM\<rparr>"
  have "\<exists>t. fs_exit ?s = Inr (0, t) \<and> counts_ok P t \<and> held t = held ?s \<and>
    (\<forall>i. filp (proc_table t (msg_PID (fs_msg ?s))) i = (if i < NR_FILES then None else filp (proc_table ?s (msg_PID (fs_msg ?s))) i)) \<and>
    fd_frame (msg_PID (fs_msg ?s)) ?s t"
    using assms by (intro fs_exit_ok) simp_all
  then obtain t where t: "fs_exit ?s = Inr (0, t)" "counts_ok P t"
    "\<forall>i. filp (proc_table t p) i = (if i < NR_FILES then None else filp (proc_table s p) i)" "fd_frame p ?s t" by auto
  from t(4) obtain fl ft it where "t = ?s\<lparr>proc_table := (proc_table ?s)(p := (proc_table ?s p)\<lparr>filp := fl\<rparr>),
     f_desc_table := ft, inode_table := it\<rparr>" unfolding fd_frame_def by (elim exE)
  moreover from this have "fl = (\<lambda>i. if i < NR_FILES then None else filp (proc_table s p) i)" using t(3) by (intro ext) simp
  ultimately have f: "t = ?s\<lparr>proc_table := (proc_table s)(p := no_files (proc_table s p)), f_desc_table := ft, inode_table := it\<rparr>"
    by (simp add: no_files_def)
  let ?u = "t\<lparr>fs_msg := ?msg\<lparr>m3i1 := 0, m_type := SYSCALL_RET\<rparr>\<rparr>"
  have "fs_call drv TASK_FS (zero_msg\<lparr>m_type := EXIT, m3i2 := p\<rparr>) s =
      Inr (?msg\<lparr>m3i1 := 0, m_type := SYSCALL_RET, m_source := TASK_FS\<rparr>, ?u)"
    using t(1) by (simp add: fs_call_def fs_request_def fs_dispatch_def set_fs_msg_def bindE_def op_defs f)
  moreover have "fs_side (s\<lparr>proc_table := (proc_table s)(p := no_files (proc_table s p))\<rparr>) ?u" unfolding fs_side_def f
    by (rule exI[of _ ft], rule exI[of _ it], rule exI[of _ TASK_MM],
        rule exI[of _ "?msg\<lparr>m3i1 := 0, m_type := SYSCALL_RET\<rparr>"]) simp
  ultimately show ?thesis using t(2) by (intro exI conjI) simp_all
qed

subsection \<open>Where the images lie\<close>

lemma u32_int_nat: "0 \<le> i \<Longrightarrow> u32_int i = of_nat (nat i)"
  by (simp add: u32_int_def)

lemma unat_u32_int: "0 \<le> i \<Longrightarrow> i < 2 ^ 32 \<Longrightarrow> unat (u32_int i) = nat i"
proof -
  assume i: "0 \<le> i" "i < 2 ^ 32"
  then have "nat i mod 2 ^ 32 = nat i" by simp
  then show ?thesis using unat_of_nat[of "nat i", where 'a = 32] by (simp only: u32_int_nat[OF i(1)], simp)
qed

definition image_base :: "int \<Rightarrow> int" where
  "image_base p = PROC_BASE + (p - (NR_TASKS + NR_NATIVE_PROCS)) * PROC_IMAGE_SIZE_DEFAULT"

definition imaged :: "int \<Rightarrow> bool" where
  "imaged p = (NR_TASKS + NR_NATIVE_PROCS \<le> p \<and> p < NR_PROCS)"

lemma alloc_mem_eq: "imaged p \<Longrightarrow> alloc_mem p n s =
    (if PROC_IMAGE_SIZE_DEFAULT < n then Inl (Panic ''unsupported memory request'')
     else if memory_size s \<le> image_base p + n then Inl (Panic ''memory allocation failed'') else Inr (image_base p, s))"
  by (simp add: alloc_mem_def image_base_def imaged_def op_defs Let_def)

lemma image_base_bounds: "imaged p \<Longrightarrow> PROC_BASE \<le> image_base p \<and> image_base p \<le> PROC_BASE + 27 * PROC_IMAGE_SIZE_DEFAULT"
  by (simp add: image_base_def imaged_def)

lemma image_base_unat: "imaged p \<Longrightarrow> unat (u32_int (image_base p)) = nat (image_base p)"
  using image_base_bounds[of p] by (intro unat_u32_int) simp_all

lemma image_base_less: "p < q \<Longrightarrow> image_base p + PROC_IMAGE_SIZE_DEFAULT \<le> image_base q"
  by (simp add: image_base_def)

lemma images_apart:
  assumes "imaged p" "imaged q" "p < q" "0 \<le> n" "n \<le> PROC_IMAGE_SIZE_DEFAULT" "0 \<le> k" "k \<le> PROC_IMAGE_SIZE_DEFAULT"
  shows "region (u32_int (image_base p)) (nat n) \<inter> region (u32_int (image_base q)) (nat k) = {}"
proof -
  have b: "0 \<le> image_base p" "0 \<le> image_base q" "image_base q + k < 2 ^ 32"
    using image_base_bounds[OF assms(1)] image_base_bounds[OF assms(2)] assms(7) by simp_all
  have "nat (image_base p) + nat n \<le> nat (image_base q)" using image_base_less[OF assms(3)] assms(4-7) b by linarith
  moreover have "nat (image_base q) + nat k \<le> 2 ^ 32" using assms(6,7) b by (simp add: nat_add_distrib [symmetric])
  ultimately
  show ?thesis
    using region_apart[of "nat (image_base p)" "nat n" "nat (image_base q)" "nat k" 0]
    by (simp only: add_0 u32_int_nat[OF b(1)] u32_int_nat[OF b(2)])
qed

text \<open>
  C35. \<open>alloc_mem\<close> gives two processes images that do not overlap, whatever the order and the
  sizes; every image lies above the first 10 MB, where the kernel and the buffers of the
  servers are, below the end of memory, and does not wrap around. A request fails exactly when
  its image would reach or pass the end of memory, or is larger than 1 MB.
\<close>

theorem alloc_mem_images:
  fixes s :: "'a mstate_scheme" and t :: "'b mstate_scheme"
  assumes "imaged p" "imaged q" "0 \<le> n" "0 \<le> k"
  shows "(\<forall>b s'. alloc_mem p n s = Inr (b, s') \<longrightarrow> s' = s \<and> PROC_BASE \<le> b \<and> b + n < memory_size s \<and> unat (u32_int b) + nat n < 2 ^ 32) \<and>
    ((\<exists>e. alloc_mem p n s = Inl e) \<longleftrightarrow> PROC_IMAGE_SIZE_DEFAULT < n \<or> memory_size s \<le> image_base p + n) \<and>
    (\<forall>b c s' t'. p \<noteq> q \<longrightarrow> alloc_mem p n s = Inr (b, s') \<longrightarrow> alloc_mem q k t = Inr (c, t') \<longrightarrow>
       region (u32_int b) (nat n) \<inter> region (u32_int c) (nat k) = {})"
proof (intro conjI allI impI)
  fix b s' assume "alloc_mem p n s = Inr (b, s')"
  then have a: "b = image_base p" "s' = s" "b + n < memory_size s" "n \<le> PROC_IMAGE_SIZE_DEFAULT"
    using alloc_mem_eq[OF assms(1), of n s] by (auto split: if_splits)
  then show "s' = s" "PROC_BASE \<le> b" "b + n < memory_size s" using image_base_bounds[OF assms(1)] by simp_all
  show "unat (u32_int b) + nat n < 2 ^ 32"
    using image_base_unat[OF assms(1)] image_base_bounds[OF assms(1)] a(1,4) assms(3) by (simp add: nat_add_distrib [symmetric] nat_less_iff)
next
  show "(\<exists>e. alloc_mem p n s = Inl e) \<longleftrightarrow> PROC_IMAGE_SIZE_DEFAULT < n \<or> memory_size s \<le> image_base p + n"
    using alloc_mem_eq[OF assms(1), of n s] by auto
next
  fix b c s' t' assume "p \<noteq> q" "alloc_mem p n s = Inr (b, s')" "alloc_mem q k t = Inr (c, t')"
  then have "b = image_base p" "c = image_base q" "n \<le> PROC_IMAGE_SIZE_DEFAULT" "k \<le> PROC_IMAGE_SIZE_DEFAULT" "p \<noteq> q"
    using alloc_mem_eq[OF assms(1), of n s] alloc_mem_eq[OF assms(2), of k t] by (auto split: if_splits)
  then show "region (u32_int b) (nat n) \<inter> region (u32_int c) (nat k) = {}"
    using images_apart[of p q n k] images_apart[of q p k n] assms by (cases "p < q") (auto simp: Int_commute)
qed

subsection \<open>Fork\<close>

lemma fork_name_ok:
  assumes "0 \<notin> set nm" "length (nm @ [0x5F] @ i2a c 10) < 16" "0 \<le> c" "c < 2 ^ 31"
  shows "fork_name nm c = Inr (nm @ [0x5F] @ i2a c 10)"
proof -
  let ?m = "\<lambda>a :: addr. if unat a < length nm then nm ! unat a else 0"
  have u: "unat (of_nat i :: addr) = i" if "i < 16" for i using that by (simp add: unat_of_nat)
  have "cstr ?m 0 nm"
  proof (rule cstrI)
    fix i assume i: "i < length nm"
    then have "i < 16" using assms(2) by simp
    from u[OF this] show "?m (0 + of_nat i) = nm ! i \<and> nm ! i \<noteq> 0" using i assms(1) by (auto simp: in_set_conv_nth)
  next
    show "?m (0 + of_nat (length nm)) = 0" using u[of "length nm"] assms(2) by simp
  qed
  from vsprintf_name_number[OF this _ assms(3,4)] assms(2) show ?thesis by (simp add: fork_name_def)
qed

definition child_of :: "proc_tab \<Rightarrow> int \<Rightarrow> int \<Rightarrow> proc" where
  "child_of pt parent child = (pt parent)\<lparr>ldt_sel := ldt_sel (pt child), p_parent := parent,
     p_name := p_name (pt parent) @ [0x5F] @ i2a child 10,
     ldts := (ldts (pt parent))(INDEX_LDT_C := init_descriptor (u32_int (image_base child)) 0xFF 0xC0F8,
       INDEX_LDT_RW := init_descriptor (u32_int (image_base child)) 0xFF 0xC0F2)\<rparr>"

text \<open>
  A process of \<open>n\<close> bytes can fork: it waits for the task, there is a free slot for the child, the
  name fits, its segments are one image of at most 1 MB, there is memory for the copy, the
  images and the task's message do not overlap, and it waits with a message in its image.
\<close>

definition can_fork :: "'a mstate_scheme \<Rightarrow> int \<Rightarrow> int \<Rightarrow> int \<Rightarrow> bool" where
  "can_fork s parent child n =
     (let pt = proc_table s; x = pt parent; c = ldts x INDEX_LDT_C; d = ldts x INDEX_LDT_RW;
          P = region (descriptor_base c) (nat n); C = region (u32_int (image_base child)) (nat n)
      in mm_ready s \<and> parent \<in> pids \<and> parent \<noteq> TASK_MM \<and> awaits_mm x \<and> free_slot pt = child \<and> imaged child \<and>
         0 \<notin> set (p_name x) \<and> length (p_name x @ [0x5F] @ i2a child 10) < 16 \<and>
         descriptor_base d = descriptor_base c \<and> reassembled_limit d = reassembled_limit c \<and>
         segment_size c = u32_int n \<and> segment_size d = u32_int n \<and> 0 \<le> n \<and> n \<le> PROC_IMAGE_SIZE_DEFAULT \<and>
         image_base child + n < memory_size s \<and> P \<inter> C = {} \<and> region (at_msg s) MESSAGE_SIZE \<inter> (P \<union> C) = {} \<and>
         unat (p_msg x) + MESSAGE_SIZE \<le> nat n)"

lemma free_slot_flags: "free_slot pt = c \<Longrightarrow> imaged c \<Longrightarrow> c \<in> pids \<and> p_flags (pt c) = FREE_SLOT"
  by (auto simp: free_slot_def imaged_def find_Some_iff set_conv_nth [symmetric] split: option.splits)
     (metis nth_mem set_proc_list)

lemma copy_entry_ok:
  assumes "child \<in> pids" "parent \<in> pids" "child \<noteq> parent" "0 \<notin> set (p_name (proc_table s parent))"
    "length (p_name (proc_table s parent) @ [0x5F] @ i2a child 10) < 16"
  shows "copy_entry child parent s = Inr ((), s\<lparr>proc_table := (proc_table s)(child := (proc_table s parent)\<lparr>
    ldt_sel := ldt_sel (proc_table s child), p_parent := parent, p_name := p_name (proc_table s parent) @ [0x5F] @ i2a child 10\<rparr>)\<rparr>)"
proof -
  have "0 \<le> child" "child < 2 ^ 31" using assms(1) by (simp_all add: pids_def)
  from fork_name_ok[OF assms(4,5) this] show ?thesis
    using assms(1-3) by (simp add: copy_entry_def bindE_def updP_apply)
qed

text \<open>
  The memory manager's writes to the table are steps of \<open>kstep\<close>: the copy of an entry, and the flags.
  When a process is queued at the parent, the copy leaves two entries with the same queue, and the
  table is out of the invariant of message passing: this is the run that \<open>kstep\<close> leaves out.
\<close>

lemma copy_entry_fields:
  assumes "copy_entry child parent s = Inr ((), t)"
  shows "child \<in> pids" "parent \<in> pids"
    "\<exists>x. t = s\<lparr>proc_table := (proc_table s)(child := x)\<rparr> \<and> ipc_part x = ipc_part (proc_table s parent)"
proof -
  show c: "child \<in> pids" and p: "parent \<in> pids"
    using assms by (auto simp: copy_entry_def bindE_def procE_def split: if_splits)
  then show "\<exists>x. t = s\<lparr>proc_table := (proc_table s)(child := x)\<rparr> \<and> ipc_part x = ipc_part (proc_table s parent)"
    using assms by (auto simp: copy_entry_def bindE_def updP_apply op_defs ipc_part_def split: sum.splits)
qed

lemma copy_entry_step:
  assumes "copy_entry child parent s = Inr ((), t)" "p_proc_ready s = TASK_MM" "NR_TASKS + NR_NATIVE_PROCS \<le> child"
    "p_flags (proc_table s child) = FREE_SLOT" "q_sending (proc_table s child) = None"
    "\<not> sending (proc_table s parent)" "q_sending (proc_table s parent) = None"
  shows "kstep s t"
proof -
  obtain x where x: "t = s\<lparr>proc_table := (proc_table s)(child := x)\<rparr>" "ipc_part x = ipc_part (proc_table s parent)"
    using copy_entry_fields(3)[OF assms(1)] by blast
  have "child \<in> {NR_TASKS + NR_NATIVE_PROCS..<NR_PROCS}" using copy_entry_fields(1)[OF assms(1)] assms(3) by (simp add: pids_def)
  then show ?thesis unfolding x(1) using copy_entry_fields(2)[OF assms(1)] assms x(2) by (intro step_fork[where parent = parent]) simp_all
qed

lemma copy_entry_shares_queue:
  assumes "copy_entry child parent s = Inr ((), t)" "child \<noteq> parent" "q_sending (proc_table s parent) = Some p"
  shows "\<not> ipc_wf (proc_table t) Q"
proof
  assume "ipc_wf (proc_table t) Q"
  then have q: "queues (proc_table t) Q" by (rule ipc_wfD(1))
  note c = copy_entry_fields[OF assms(1)]
  from c(3) obtain x where x: "t = s\<lparr>proc_table := (proc_table s)(child := x)\<rparr>" "q_sending x = Some p"
    using assms(3) ipc_part_fields(6) by metis
  have "q_sending (proc_table t child) = Some p" "q_sending (proc_table t parent) = Some p"
    using x assms(2,3) by simp_all
  then have "p \<in> set (Q child)" "p \<in> set (Q parent)"
    using queue_head[OF q c(1)] queue_head[OF q c(2)] by (metis hd_in_set option.distinct(1) option.inject)+
  then show False using q c(1,2) assms(2) unfolding queues_def by blast
qed

lemma mm_flags_step:
  assumes "p_proc_ready s = TASK_MM" "i \<in> pids" "i \<noteq> TASK_MM" "\<not> sending (proc_table s i)"
  shows "updP i (\<lambda>x. x\<lparr>p_flags := FREE_SLOT\<rparr>) s = Inr ((), t) \<Longrightarrow> kstep s t"
    "p_flags (proc_table s i) \<noteq> FREE_SLOT \<Longrightarrow> b \<in> {WAITING, HANGING} \<Longrightarrow>
       updP i (\<lambda>x. x\<lparr>p_flags := p_flags x OR b\<rparr>) s = Inr ((), t) \<Longrightarrow> kstep s t"
    "p_flags (proc_table s i) \<noteq> FREE_SLOT \<Longrightarrow> b \<in> {WAITING, HANGING} \<Longrightarrow>
       updP i (\<lambda>x. x\<lparr>p_flags := p_flags x AND NOT b\<rparr>) s = Inr ((), t) \<Longrightarrow> kstep s t"
  using step_free[OF assms] step_mark[OF assms, of b] step_unmark[OF assms, of b] by (auto simp: updP_apply set_flags_def)

lemma sint_size: "0 \<le> n \<Longrightarrow> n \<le> PROC_IMAGE_SIZE_DEFAULT \<Longrightarrow> sint (u32_int n) = n"
  using s32_id[of n] by (simp add: s32_def u32_int_def)

lemma duplicate_image_ok:
  assumes "child \<in> pids" "parent \<in> pids" "child \<noteq> parent" "imaged child"
    "descriptor_base (ldts (proc_table s parent) 1) = descriptor_base (ldts (proc_table s parent) 0)"
    "reassembled_limit (ldts (proc_table s parent) 1) = reassembled_limit (ldts (proc_table s parent) 0)"
    "segment_size (ldts (proc_table s parent) 0) = u32_int n" "segment_size (ldts (proc_table s parent) 1) = u32_int n"
    "0 \<le> n" "n \<le> PROC_IMAGE_SIZE_DEFAULT" "image_base child + n < memory_size s"
  shows "duplicate_image child parent s = Inr ((), s\<lparr>kmem := memcpy (nat n) (u32_int (image_base child)) (descriptor_base (ldts (proc_table s parent) 0)) (kmem s),
    proc_table := (proc_table s)(child := (proc_table s child)\<lparr>ldts := (ldts (proc_table s child))(0 := init_descriptor (u32_int (image_base child)) 0xFF 0xC0F8,
       1 := init_descriptor (u32_int (image_base child)) 0xFF 0xC0F2)\<rparr>)\<rparr>)"
proof -
  have a: "alloc_mem child n t = Inr (image_base child, t)" if "memory_size t = memory_size s" for t :: "'a mstate_scheme"
    using that assms(10,11) by (simp add: alloc_mem_eq[OF assms(4)])
  have w: "drop_bit 12 (u32_int 1048575) = 0xFF" by (simp add: u32_int_def)
  have n: "unat (u32_int n) = nat n" using assms(9,10) by (intro unat_u32_int) simp_all
  show ?thesis
    using assms(1-3) a by (simp add: duplicate_image_def Let_def bindE_def updP_apply op_defs modM_def
      assms(5-8)[simplified] sint_size[OF assms(9,10)] w phys_copy_def n)
qed

lemma counts_ok_cong:
  assumes "counts_ok P s" "f_desc_table t = f_desc_table s" "\<And>p. p \<in> P \<Longrightarrow> filp (proc_table t p) = filp (proc_table s p)"
  shows "counts_ok P t"
proof -
  have "slots (proc_table t) P f = slots (proc_table s) P f" for f using assms(3) by (auto simp: slots_def)
  then show ?thesis using assms unfolding counts_ok_def by (simp cong: option.case_cong)
qed

lemma fs_side_fields: "fs_side s t \<Longrightarrow> proc_table t = proc_table s \<and> kmem t = kmem s \<and> mm_msg t = mm_msg s \<and>
    at_msg t = at_msg s \<and> memory_size t = memory_size s"
  by (auto simp: fs_side_def)

lemma woken_fields [simp]: "filp (woken x) = filp x" "ldts (woken x) = ldts x" "p_parent (woken x) = p_parent x"
  "exit_status (woken x) = exit_status x" "p_flags (woken x) = 0" "p_sendto (woken x) = p_sendto x"
  by (simp_all add: woken_def)

lemma can_forkD:
  assumes "can_fork s parent child n"
  shows "mm_ready s" "parent \<in> pids" "parent \<noteq> TASK_MM" "awaits_mm (proc_table s parent)" "free_slot (proc_table s) = child"
    "imaged child" "0 \<le> n" "n \<le> PROC_IMAGE_SIZE_DEFAULT"
    "region (descriptor_base (ldts (proc_table s parent) 0)) (nat n) \<inter> region (u32_int (image_base child)) (nat n) = {}"
    "region (u32_int (image_base child)) (nat n) \<inter> region (at_msg s) MESSAGE_SIZE = {}"
    "unat (p_msg (proc_table s parent)) + MESSAGE_SIZE \<le> nat n" "child \<in> pids" "child \<noteq> parent" "child \<noteq> TASK_MM"
proof -
  show f: "mm_ready s" "awaits_mm (proc_table s parent)" "free_slot (proc_table s) = child" "imaged child"
    "parent \<in> pids" "parent \<noteq> TASK_MM" "0 \<le> n" "n \<le> PROC_IMAGE_SIZE_DEFAULT"
    "region (descriptor_base (ldts (proc_table s parent) 0)) (nat n) \<inter> region (u32_int (image_base child)) (nat n) = {}"
    "unat (p_msg (proc_table s parent)) + MESSAGE_SIZE \<le> nat n"
    using assms by (simp_all add: can_fork_def Let_def)
  show "region (u32_int (image_base child)) (nat n) \<inter> region (at_msg s) MESSAGE_SIZE = {}"
    using assms unfolding can_fork_def Let_def by blast
  note c = free_slot_flags[OF f(3,4)]
  show "child \<in> pids" using c by simp
  show "child \<noteq> parent" "child \<noteq> TASK_MM" using c f(1,2) by (auto simp: awaits_mm_def mm_ready_def)
qed

text \<open>Everything up to the child's first message.\<close>

lemma fork_before_birth:
  fixes s :: "'a mstate_scheme"
  assumes can: "can_fork s parent child n" and parent: "parent = m_source (mm_msg s)"
    and counts: "counts_ok P s" "P \<subseteq> pids" "parent \<in> P" "child \<notin> P"
  shows "\<exists>t. do_fork drv s = bindE (mm_send child (zero_msg\<lparr>m_type := SYSCALL_RET\<rparr>)) (\<lambda>_. ret 0) t \<and>
    proc_table t = (proc_table s)(child := child_of (proc_table s) parent child) \<and>
    kmem t = memcpy (nat n) (u32_int (image_base child)) (descriptor_base (ldts (proc_table s parent) 0)) (kmem s) \<and>
    at_msg t = at_msg s \<and> mm_msg t = (mm_msg s)\<lparr>m3i2 := child\<rparr> \<and> counts_ok (insert child P) t"
proof -
  let ?pt = "proc_table s" and ?x = "proc_table s parent" and ?cb = "u32_int (image_base child)"
  let ?pb = "descriptor_base (ldts ?x 0)" and ?c = "child_of (proc_table s) parent child"
  note f = can_forkD[OF can]
  have imaged: "NR_TASKS + NR_NATIVE_PROCS \<le> child" "child \<noteq> NR_PROCS" using f(6) by (simp_all add: imaged_def)
  have nm: "0 \<notin> set (p_name ?x)" "length (p_name ?x @ [0x5F] @ i2a child 10) < 16"
    using can by (simp_all add: can_fork_def Let_def)
  define s1 where "s1 = s\<lparr>proc_table := ?pt(child := ?x\<lparr>ldt_sel := ldt_sel (?pt child), p_parent := parent,
    p_name := p_name ?x @ [0x5F] @ i2a child 10\<rparr>)\<rparr>"
  have e1: "copy_entry child parent s = Inr ((), s1)"
    unfolding s1_def using copy_entry_ok[OF f(12,2,13) nm] .
  define s2 where "s2 = s\<lparr>kmem := memcpy (nat n) ?cb ?pb (kmem s), proc_table := ?pt(child := ?c)\<rparr>"
  have e2: "duplicate_image child parent s1 = Inr ((), s2)"
  proof -
    have "duplicate_image child parent s1 = Inr ((), s1\<lparr>kmem := memcpy (nat n) ?cb (descriptor_base (ldts (proc_table s1 parent) 0)) (kmem s1),
      proc_table := (proc_table s1)(child := (proc_table s1 child)\<lparr>ldts := (ldts (proc_table s1 child))(0 := init_descriptor ?cb 0xFF 0xC0F8,
       1 := init_descriptor ?cb 0xFF 0xC0F2)\<rparr>)\<rparr>)"
      using can f by (intro duplicate_image_ok) (simp_all add: s1_def can_fork_def Let_def)
    then show ?thesis using f(13) by (simp add: s1_def s2_def child_of_def)
  qed
  have "\<exists>r t. fs_call drv TASK_FS (zero_msg\<lparr>m_type := FORK, m3i2 := child\<rparr>) s2 = Inr (r, t) \<and>
    counts_ok (insert child P) t \<and> fs_side s2 t"
  proof (rule fs_call_fork[OF _ counts(2,3) f(12) counts(4)])
    show "counts_ok P s2" using counts(1) counts(4) by (elim counts_ok_cong) (auto simp: s2_def)
    show "filp (proc_table s2 child) = filp (proc_table s2 parent)" using f(13) by (simp add: s2_def child_of_def)
  qed
  then obtain r s3 where e3: "fs_call drv TASK_FS (zero_msg\<lparr>m_type := FORK, m3i2 := child\<rparr>) s2 = Inr (r, s3)"
    and c3: "counts_ok (insert child P) s3" and side: "fs_side s2 s3" by blast
  note s3 = fs_side_fields[OF side]
  define s4 where "s4 = s3\<lparr>mm_msg := (mm_msg s)\<lparr>m3i2 := child\<rparr>\<rparr>"
  have e4: "modMM (\<lambda>m. m\<lparr>m3i2 := child\<rparr>) s3 = Inr ((), s4)" using s3 by (simp add: modMM_def op_defs s4_def s2_def)
  have "counts_ok (insert child P) s4" using c3 by (elim counts_ok_cong) (simp_all add: s4_def)
  moreover have "zero_msg\<lparr>m_type := SYSCALL_RET, m3i1 := 0, m3i2 := 0\<rparr> = zero_msg\<lparr>m_type := SYSCALL_RET\<rparr>" by (simp add: zero_msg_def)
  ultimately show ?thesis
    using e1 e2 e3 e4 imaged parent f(5) s3 by (intro exI[of _ s4] conjI) (simp_all add: do_fork_def op_defs s4_def s2_def)
qed

text \<open>
  C33. \<open>do_fork\<close> of a waiting process that can fork returns 0 and makes one new process: an
  entry that is the parent's except for its own descriptors and name, ready to run, on a copy of
  the parent's image in its own memory; the child finds the answer 0 in the copy of the buffer
  its parent waits with, the parent will be answered the child's number, the file system counts
  the child's references, and no other process or memory changes.
\<close>

theorem do_fork_child:
  fixes s :: "'a mstate_scheme"
  assumes can: "can_fork s parent child n" and parent: "parent = m_source (mm_msg s)"
    and counts: "counts_ok P s" "P \<subseteq> pids" "parent \<in> P" "child \<notin> P"
  shows "\<exists>t. do_fork drv s = Inr (0, t) \<and>
    proc_table t = (proc_table s)(child := woken (child_of (proc_table s) parent child)) \<and>
    mm_msg t = (mm_msg s)\<lparr>m3i2 := child\<rparr> \<and> counts_ok (insert child P) t \<and>
    get_msg (kmem t) (u32_int (image_base child) + p_msg (proc_table s parent)) = zero_msg\<lparr>m_source := TASK_MM, m_type := SYSCALL_RET\<rparr> \<and>
    (\<forall>x. x \<in> region (u32_int (image_base child)) (nat n) \<longrightarrow>
       x \<notin> region (u32_int (image_base child) + p_msg (proc_table s parent)) MESSAGE_SIZE \<longrightarrow>
       kmem t x = kmem s (ldt_reg_linear (proc_table s parent) INDEX_LDT_C + (x - u32_int (image_base child)))) \<and>
    (\<forall>x. x \<notin> region (u32_int (image_base child)) (nat n) \<longrightarrow> x \<notin> region (at_msg s) MESSAGE_SIZE \<longrightarrow> kmem t x = kmem s x)"
proof -
  let ?pt = "proc_table s" and ?x = "proc_table s parent" and ?cb = "u32_int (image_base child)"
  let ?pb = "descriptor_base (ldts ?x 0)" and ?c = "child_of (proc_table s) parent child"
  let ?M = "region (?cb + p_msg ?x) MESSAGE_SIZE" and ?A = "region (at_msg s) MESSAGE_SIZE"
  note f = can_forkD[OF can]
  from fork_before_birth[OF can parent counts, of drv] obtain u where
    u: "do_fork drv s = bindE (mm_send child (zero_msg\<lparr>m_type := SYSCALL_RET\<rparr>)) (\<lambda>_. ret 0) u"
      "proc_table u = ?pt(child := ?c)" "kmem u = memcpy (nat n) ?cb ?pb (kmem s)" "at_msg u = at_msg s"
      "mm_msg u = (mm_msg s)\<lparr>m3i2 := child\<rparr>" "counts_ok (insert child P) u" by (elim exE conjE)
  have lin: "linear (proc_table u) child a = ?cb + a" for a
    by (simp add: u linear_def ldt_reg_linear_def child_of_def)
  have cmsg: "p_msg ?c = p_msg ?x" by (simp add: child_of_def)
  have area: "msg_area (proc_table u) child = ?M" using lin by (simp add: msg_area_def u(2) cmsg)
  have M: "?M \<subseteq> region ?cb (nat n)" using f(8,11) by (intro region_sub[of _ _ "unat (p_msg ?x)"]) simp_all
  then have dis: "?M \<inter> ?A = {}" using f(10) by blast
  have ready: "mm_ready u" using f(1,6,14) unfolding mm_ready_def u by (auto simp: flat_natives_def imaged_def)
  have "\<exists>m. mm_send child (zero_msg\<lparr>m_type := SYSCALL_RET\<rparr>) u = Inr ((), answered child m u) \<and>
    msg_of u child m = (zero_msg\<lparr>m_type := SYSCALL_RET\<rparr>)\<lparr>m_source := TASK_MM\<rparr> \<and>
    (\<forall>x. x \<notin> msg_area (proc_table u) child \<longrightarrow> x \<notin> region (at_msg u) MESSAGE_SIZE \<longrightarrow> m x = kmem u x)"
  proof (rule mm_send_ok[OF ready f(12,14)])
    show "awaits_mm (proc_table u child)" using f(4) by (simp add: u child_of_def awaits_mm_def)
    show "msg_ok (zero_msg\<lparr>m_type := SYSCALL_RET\<rparr>)" by (simp add: msg_ok_def zero_msg_def s32_id)
    show "msg_area (proc_table u) child \<inter> region (at_msg u) MESSAGE_SIZE = {}" using dis by (simp only: area u(4))
  qed
  then obtain m where e: "mm_send child (zero_msg\<lparr>m_type := SYSCALL_RET\<rparr>) u = Inr ((), answered child m u)"
    and msg: "msg_of u child m = zero_msg\<lparr>m_type := SYSCALL_RET, m_source := TASK_MM\<rparr>"
    and frame: "\<forall>x. x \<notin> ?M \<longrightarrow> x \<notin> ?A \<longrightarrow> m x = memcpy (nat n) ?cb ?pb (kmem s) x"
    unfolding area u(3,4) by (elim exE conjE)
  have copy: "memcpy (nat n) ?cb ?pb (kmem s) x = (if x \<in> region ?cb (nat n) then kmem s (?pb + (x - ?cb)) else kmem s x)" for x
    using f(8,9) by (simp add: memcpy_eq Int_commute)
  let ?t = "answered child m u"
  show ?thesis
  proof (rule exI[of _ ?t], intro conjI allI impI)
    show "do_fork drv s = Inr (0, ?t)" using u(1) e by (simp add: op_defs)
    show "proc_table ?t = ?pt(child := woken ?c)" "mm_msg ?t = (mm_msg s)\<lparr>m3i2 := child\<rparr>" by (simp_all add: answered_def u)
    show "counts_ok (insert child P) ?t" using u(6) by (elim counts_ok_cong) (simp_all add: answered_def u(2))
    show "get_msg (kmem ?t) (?cb + p_msg ?x) = zero_msg\<lparr>m_source := TASK_MM, m_type := SYSCALL_RET\<rparr>"
      using msg lin by (simp add: msg_of_def answered_def u(2) cmsg)
  next
    fix x assume x: "x \<in> region ?cb (nat n)" "x \<notin> ?M"
    then have "x \<notin> ?A" using f(10) by blast
    then show "kmem ?t x = kmem s (ldt_reg_linear ?x INDEX_LDT_C + (x - ?cb))"
      using frame x copy[of x] by (simp add: answered_def ldt_reg_linear_def)
  next
    fix x assume x: "x \<notin> region ?cb (nat n)" "x \<notin> ?A"
    then show "kmem ?t x = kmem s x" using frame copy[of x] M by (auto simp: answered_def)
  qed
qed

subsection \<open>Concrete states\<close>

lemma INIT_pid [simp]: "INIT \<in> pids" by (simp add: pids_def)
lemma MM_pid [simp]: "TASK_MM \<in> pids" by (simp add: pids_def)

text \<open>\<open>Init\<close> waits for the task with one file open; process 9 is a free slot, or its child.\<close>

definition waiting_proc :: proc where
  "waiting_proc = idle_proc\<lparr>p_flags := RECEIVING, p_msg := 0x1000, p_recvfrom := TASK_MM, filp := (filp idle_proc)(0 := Some 3)\<rparr>"

definition mm_example :: "int list \<Rightarrow> proc \<Rightarrow> message \<Rightarrow> mstate" where
  "mm_example holders nine msg = fstate.extend
     ((open_example holders holders zero_msg)\<lparr>proc_table := (\<lambda>_. idle_proc)(INIT := waiting_proc, 9 := nine)\<rparr>)
     \<lparr>mm_msg = msg, memory_size = 0x4000000, at_msg = 0x500000, at_path = 0x501000, at_stat = 0x502000, at_stack = 0x503000\<rparr>"

lemma mm_example_fields [simp]:
  "proc_table (mm_example hs nine msg) = (\<lambda>_. idle_proc)(INIT := waiting_proc, 9 := nine)"
  "f_desc_table (mm_example hs nine msg) = f_desc_table (open_example hs hs zero_msg)"
  "mm_msg (mm_example hs nine msg) = msg" "memory_size (mm_example hs nine msg) = 0x4000000" "at_msg (mm_example hs nine msg) = 0x500000"
  by (simp_all add: mm_example_def fstate.defs)

lemma waiting_proc_fields [simp]: "p_flags waiting_proc = RECEIVING" "p_msg waiting_proc = 0x1000" "p_recvfrom waiting_proc = TASK_MM"
  "p_sendto waiting_proc = NO_TASK" "p_parent waiting_proc = 0" "ldts waiting_proc = ldts idle_proc" "p_name waiting_proc = []"
  "filp waiting_proc = (filp idle_proc)(0 := Some 3)"
  by (simp_all add: waiting_proc_def idle_proc_def)

lemma idle_ldts: "ldts idle_proc i = init_descriptor 0 0xFFFFF DA_DRW"
  by (simp add: idle_proc_def)

lemma mm_example_counts:
  assumes "distinct hs" "hs \<noteq> []" "set hs \<subseteq> {INIT, 9}" "9 \<in> set hs \<Longrightarrow> filp nine = (filp idle_proc)(0 := Some 3)"
  shows "counts_ok (set hs) (mm_example hs nine msg)"
proof (rule counts_ok_cong[OF open_example_ok(1)[OF subset_refl assms(1,2), of zero_msg]])
  fix p assume "p \<in> set hs"
  then show "filp (proc_table (mm_example hs nine msg) p) = filp (proc_table (open_example hs hs zero_msg) p)"
    using assms(3,4) by (auto simp: open_example_def kstate.defs)
qed simp

lemma mm_example_ready: "mm_ready (mm_example hs nine msg)"
  by (simp add: mm_ready_def flat_natives_def ldt_reg_linear_def idle_ldts)

lemma far_apart: "a + n \<le> b \<Longrightarrow> b + k \<le> 2 ^ 32 \<Longrightarrow> region (of_nat a) n \<inter> region (of_nat b) k = {}"
  using region_apart[of a n b k 0] by simp

lemma can_fork_example: "can_fork (mm_example [INIT] (idle_proc\<lparr>p_flags := FREE_SLOT\<rparr>) msg) INIT 9 0x100000"
proof -
  let ?s = "mm_example [INIT] (idle_proc\<lparr>p_flags := FREE_SLOT\<rparr>) msg"
  have slot: "free_slot (proc_table ?s) = 9" by (simp add: free_slot_def proc_list_def upto_rec1)
  have "region 0 0x100000 \<inter> region (0xA00000 :: addr) 0x100000 = {}" "region 0x500000 48 \<inter> region (0xA00000 :: addr) 0x100000 = {}"
    "region 0x500000 48 \<inter> region (0 :: addr) 0x100000 = {}"
    using far_apart[of 0 "0x100000" "0xA00000" "0x100000"] far_apart[of "0x500000" 48 "0xA00000" "0x100000"]
      far_apart[of 0 "0x100000" "0x500000" 48] by (simp_all add: Int_commute)
  moreover have "length (i2a 9 10) = 1" by (subst i2a.simps) (simp add: Let_def)
  moreover have "u32_int (image_base 9) = 0xA00000" "image_base 9 = 0xA00000" by (simp_all add: image_base_def u32_int_def)
  moreover have "segment_size (init_descriptor 0 0xFFFFF DA_DRW) = u32_int 0x100000" by (simp add: segment_size_init u32_int_def)
  ultimately show ?thesis
    using mm_example_ready slot
    by (simp add: can_fork_def Let_def idle_ldts awaits_mm_def imaged_def pids_def Int_Un_distrib)
qed

theorem do_fork_child_witness:
  "\<exists>t. do_fork (\<lambda>_ _. fail (Wait ''drv'')) (mm_example [INIT] (idle_proc\<lparr>p_flags := FREE_SLOT\<rparr>) (zero_msg\<lparr>m_source := INIT\<rparr>)) = Inr (0, t) \<and>
    p_parent (proc_table t 9) = INIT \<and> p_flags (proc_table t 9) = 0 \<and> m3i2 (mm_msg t) = 9 \<and> counts_ok {9, INIT} t"
  using do_fork_child[OF can_fork_example, of "zero_msg\<lparr>m_source := INIT\<rparr>" "{INIT}" "\<lambda>_ _. fail (Wait ''drv'')"]
    mm_example_counts[of "[INIT]" "idle_proc\<lparr>p_flags := FREE_SLOT\<rparr>" "zero_msg\<lparr>m_source := INIT\<rparr>"]
  by (auto simp: child_of_def)

theorem alloc_mem_images_witness:
  "region (u32_int (image_base 9)) 0x100000 \<inter> region (u32_int (image_base 10)) 4096 = {} \<and>
   alloc_mem 9 0x100000 (mm_example [INIT] idle_proc zero_msg) = Inr (image_base 9, mm_example [INIT] idle_proc zero_msg)"
  using alloc_mem_images[of 9 10 "0x100000" 4096 "mm_example [INIT] idle_proc zero_msg" "mm_example [INIT] idle_proc zero_msg"]
    alloc_mem_eq[of 9 "0x100000" "mm_example [INIT] idle_proc zero_msg"] alloc_mem_eq[of 10 "4096" "mm_example [INIT] idle_proc zero_msg"]
  by (simp add: imaged_def image_base_def)

end
