(* ===== verification/Mm_Exec.thy ===== *)
theory Mm_Exec
  imports Mm_Fork
begin

section \<open>The arguments of exec\<close>

text \<open>
  The argument block that \<open>execv\<close> builds in the caller's memory is moved by \<open>do_exec\<close> to the end of
  the new image, and its pointers with it.
\<close>

subsection \<open>A block at another address\<close>

definition same_bytes :: "nat \<Rightarrow> mem \<Rightarrow> addr \<Rightarrow> mem \<Rightarrow> addr \<Rightarrow> bool" where
  "same_bytes n m a m' a' = (\<forall>j < n. m' (a' + of_nat j) = m (a + of_nat j))"

lemma same_bytes_rd32: "same_bytes n m a m' a' \<Longrightarrow> k + 4 \<le> n \<Longrightarrow> rd32 m' (a' + of_nat k) = rd32 m (a + of_nat k)"
proof (rule rd32_cong)
  assume s: "same_bytes n m a m' a'" "k + 4 \<le> n"
  have at: "m' (a' + of_nat (k + i)) = m (a + of_nat (k + i))" if "i < 4" for i using s that by (simp add: same_bytes_def del: of_nat_add)
  show "m' (a' + of_nat k) = m (a + of_nat k)" using at[of 0] by simp
  show "m' (a' + of_nat k + 1) = m (a + of_nat k + 1)" using at[of 1] by (simp add: algebra_simps)
  show "m' (a' + of_nat k + 2) = m (a + of_nat k + 2)" using at[of 2] by (simp add: algebra_simps)
  show "m' (a' + of_nat k + 3) = m (a + of_nat k + 3)" using at[of 3] by (simp add: algebra_simps)
qed

lemma same_bytes_cstr: "same_bytes n m a m' a' \<Longrightarrow> k + Suc (length s) \<le> n \<Longrightarrow> cstr m (a + of_nat k) s \<Longrightarrow> cstr m' (a' + of_nat k) s"
proof (rule cstrI)
  assume s: "same_bytes n m a m' a'" "k + Suc (length s) \<le> n" "cstr m (a + of_nat k) s"
  have at: "m' (a' + of_nat k + of_nat i) = m (a + of_nat k + of_nat i)" if "i \<le> length s" for i
    using s(1,2) that by (simp add: same_bytes_def add.assoc of_nat_add [symmetric] del: of_nat_add)
  show "m' (a' + of_nat k + of_nat i) = s ! i \<and> s ! i \<noteq> 0" if "i < length s" for i
    using at[of i] cstr_nth[OF s(3) that] that by simp
  show "m' (a' + of_nat k + of_nat (length s)) = 0" using at[of "length s"] cstr_end[OF s(3)] by simp
qed

lemma same_bytes_stack:
  "same_bytes n m a m' a' \<Longrightarrow> 4 * (k + length ss) \<le> n \<Longrightarrow> off + strs_size ss \<le> n \<Longrightarrow> stack_at m a st k off ss \<Longrightarrow>
   stack_at m' a' st k off ss"
proof (induction ss arbitrary: k off)
  case (Cons s ss)
  have "rd32 m' (a' + of_nat (4 * k)) = rd32 m (a + of_nat (4 * k))" using Cons.prems(2) by (intro same_bytes_rd32[OF Cons.prems(1)]) simp
  moreover have "cstr m' (a' + of_nat off) s" using Cons.prems(3,4) by (intro same_bytes_cstr[OF Cons.prems(1)]) simp_all
  moreover have "stack_at m' a' st (Suc k) (off + Suc (length s)) ss" using Cons.prems by (intro Cons.IH) simp_all
  ultimately show ?case using Cons.prems(4) by simp
qed simp

lemma same_bytes_block: "same_bytes (stack_size ss) m a m' a' \<Longrightarrow> arg_block m a st ss \<Longrightarrow> arg_block m' a' st ss"
  using same_bytes_stack[of "stack_size ss" m a m' a' 0 ss "4 * Suc (length ss)" st]
    same_bytes_rd32[of "stack_size ss" m a m' a' "4 * length ss"]
  by (simp add: arg_block_def stack_size_def)

lemma same_bytes_memcpy:
  assumes "n \<le> 2 ^ 32" "region d n \<inter> region a n = {}"
  shows "same_bytes n m a (memcpy n d a m) d"
  using assms by (auto simp: same_bytes_def memcpy_eq region_def unat_of_nat)

subsection \<open>The pointers\<close>

lemma stack_at_nonzero: "stack_at m la st k off ss \<Longrightarrow> unat st + off + strs_size ss \<le> 2 ^ 32 \<Longrightarrow> 0 < off \<Longrightarrow> ss \<noteq> [] \<Longrightarrow>
  rd32 m (la + of_nat (4 * k)) \<noteq> 0"
proof -
  assume s: "stack_at m la st k off ss" "unat st + off + strs_size ss \<le> 2 ^ 32" "0 < off" "ss \<noteq> []"
  then obtain x xs where ss: "ss = x # xs" by (cases ss) auto
  then have "unat st + off < 2 ^ 32" using s(2) by simp
  then have "unat (of_nat off + st) = off + unat st" by (intro unat_of_nat_add) simp
  then show ?thesis using s(1,3) ss by (auto simp: add.commute)
qed

lemma relocate_ok:
  assumes "stack_at m sc st k off ss" "rd32 m (sc + of_nat (4 * (k + length ss))) = 0" "k + length ss < N"
    "4 * (k + length ss) + 4 \<le> off" "off + strs_size ss \<le> 2 ^ 32" "unat st + off + strs_size ss \<le> 2 ^ 32"
  shows "\<exists>m'. relocate sc d [k..<N] argc m = Inr (argc + int (length ss), m') \<and> stack_at m' sc (st + d) k off ss \<and>
    (\<forall>x. x \<notin> region (sc + of_nat (4 * k)) (4 * length ss) \<longrightarrow> m' x = m x)"
  using assms
proof (induction ss arbitrary: k off argc m)
  case Nil
  then have "[k..<N] = k # [Suc k..<N]" by (simp add: upt_conv_Cons)
  then show ?case using Nil by simp
next
  case (Cons s ss)
  let ?q = "sc + of_nat (4 * k)" and ?str = "sc + of_nat off"
  have up: "[k..<N] = k # [Suc k..<N]" using Cons.prems(3) by (simp add: upt_conv_Cons)
  have nz: "rd32 m ?q \<noteq> 0" using stack_at_nonzero[OF Cons.prems(1,6)] Cons.prems(4) by simp
  have q: "rd32 m ?q = st + of_nat off" using Cons.prems(1) by simp
  let ?m = "wr32 m ?q (rd32 m ?q + d)"
  have apart: "region ?q 4 \<inter> region (sc + of_nat (4 * Suc k)) (4 * length ss) = {}"
    "region ?q 4 \<inter> region (sc + of_nat (off + Suc (length s))) (strs_size ss) = {}"
    "region ?q 4 \<inter> region (sc + of_nat (4 * (Suc k + length ss))) 4 = {}"
    "region ?q 4 \<inter> region ?str (Suc (length s)) = {}"
    "region (sc + of_nat (4 * Suc k)) (4 * length ss) \<inter> region ?str (Suc (length s)) = {}"
    using Cons.prems(4,5) by (intro region_apart; simp)+
  have out: "?m x = m x" if "x \<notin> region ?q 4" for x using that by (rule wr32_other)
  have st: "stack_at ?m sc st (Suc k) (off + Suc (length s)) ss"
  proof (rule stack_at_cong)
    show "stack_at m sc st (Suc k) (off + Suc (length s)) ss" using Cons.prems(1) by simp
    show "\<forall>x \<in> region (sc + of_nat (4 * Suc k)) (4 * length ss) \<union> region (sc + of_nat (off + Suc (length s))) (strs_size ss). ?m x = m x"
      using out apart(1,2) by blast
  qed (use Cons.prems in simp_all)
  have z: "rd32 ?m (sc + of_nat (4 * (Suc k + length ss))) = 0"
  proof -
    have "rd32 ?m (sc + of_nat (4 * (Suc k + length ss))) = rd32 m (sc + of_nat (4 * (Suc k + length ss)))"
      using out apart(3) by (intro rd32_region) blast
    then show ?thesis using Cons.prems(2) by simp
  qed
  have fits: "Suc k + length ss < N" "4 * (Suc k + length ss) + 4 \<le> off + Suc (length s)"
    "off + Suc (length s) + strs_size ss \<le> 2 ^ 32" "unat st + (off + Suc (length s)) + strs_size ss \<le> 2 ^ 32"
    using Cons.prems by simp_all
  from Cons.IH[OF st z fits, of "argc + 1"] obtain m' where m':
    "relocate sc d [Suc k..<N] (argc + 1) ?m = Inr (argc + 1 + int (length ss), m')"
    "stack_at m' sc (st + d) (Suc k) (off + Suc (length s)) ss"
    "\<forall>x. x \<notin> region (sc + of_nat (4 * Suc k)) (4 * length ss) \<longrightarrow> m' x = ?m x" by (elim exE conjE)
  have "rd32 m' ?q = rd32 ?m ?q" using m'(3) apart(1) by (intro rd32_region) blast
  then have ptr: "rd32 m' ?q = st + d + of_nat off" by (simp only: rd32_wr32_same q add_ac)
  have str: "cstr m' ?str s"
  proof (rule cstr_region)
    show "cstr m ?str s" using Cons.prems(1) by simp
    show "\<forall>x \<in> region ?str (Suc (length s)). m' x = m x"
    proof
      fix x assume x: "x \<in> region ?str (Suc (length s))"
      have "x \<notin> region (sc + of_nat (4 * Suc k)) (4 * length ss)" using x apart(5) by blast
      moreover have "x \<notin> region ?q 4" using x apart(4) by blast
      ultimately show "m' x = m x" using m'(3)[rule_format] out by (rule_tac trans)
    qed
  qed
  have p: "region ?q 4 \<subseteq> region ?q (4 * length (s # ss))" by (auto simp: region_def)
  have p3: "region (sc + of_nat (4 * Suc k)) (4 * length ss) \<subseteq> region ?q (4 * length (s # ss))"
    using Cons.prems(4,5) by (intro region_sub[of _ _ 4]) (simp_all add: algebra_simps)
  have "\<forall>x. x \<notin> region ?q (4 * length (s # ss)) \<longrightarrow> m' x = m x"
  proof (intro allI impI)
    fix x assume x: "x \<notin> region ?q (4 * length (s # ss))"
    show "m' x = m x" using m'(3)[rule_format, OF contra_subsetD[OF p3 x]] out[OF contra_subsetD[OF p x]] by (rule trans)
  qed
  then show ?case using m'(1,2) ptr str nz unfolding up by (intro exI[of _ m']) simp
qed

subsection \<open>The new stack\<close>

text \<open>
  The block of \<open>n\<close> bytes at \<open>st\<close> in the caller, the task's copy of it and the place it goes to do
  not overlap.
\<close>

definition stacks_apart :: "'a mstate_scheme \<Rightarrow> int \<Rightarrow> addr \<Rightarrow> bool" where
  "stacks_apart s src st =
     (let A = region (linear (proc_table s) src st) PROC_ORIGIN_STACK; B = region (at_stack s) PROC_ORIGIN_STACK;
          C = region (linear (proc_table s) src orig_stack) PROC_ORIGIN_STACK
      in A \<inter> B = {} \<and> B \<inter> C = {} \<and> unat st + PROC_ORIGIN_STACK \<le> 2 ^ 32)"

lemma region_le: "n \<le> N \<Longrightarrow> region a n \<subseteq> region a N"
  by (auto simp: region_def)

lemma exec_stack_ok:
  assumes blk: "arg_block (kmem s) (linear (proc_table s) src st) st ss" and n: "stack_size ss < PROC_ORIGIN_STACK"
    and src: "src \<in> pids" "flat_natives (proc_table s)" and apart: "stacks_apart s src st"
    and msg: "m_source msg = src" "m3p2 msg = st" "m3i3 msg = int (stack_size ss)"
  shows "\<exists>t. exec_stack msg s = Inr (int (length ss), t) \<and>
    arg_block (kmem t) (linear (proc_table s) src orig_stack) orig_stack ss \<and> proc_table t = proc_table s \<and>
    (\<forall>x. x \<notin> region (at_stack s) PROC_ORIGIN_STACK \<longrightarrow>
       x \<notin> region (linear (proc_table s) src orig_stack) PROC_ORIGIN_STACK \<longrightarrow> kmem t x = kmem s x)"
proof -
  let ?n = "stack_size ss" and ?la = "linear (proc_table s) src st" and ?sc = "at_stack s"
  let ?to = "linear (proc_table s) src orig_stack"
  have sz: "4 * Suc (length ss) \<le> ?n" "?n = 4 * Suc (length ss) + strs_size ss" by (simp_all add: stack_size_def)
  have lin: "linear (proc_table s) TASK_MM a = a" for a using src(2) by (simp add: linear_def flat_natives_def)
  have N: "?n \<le> PROC_ORIGIN_STACK" "unat (u32_int (int ?n)) = ?n" using n unat_u32_int[of "int ?n"] by simp_all
  note sub = region_le[OF N(1)]
  have d: "region ?sc ?n \<inter> region ?la ?n = {}" "region ?to ?n \<inter> region ?sc ?n = {}"
    using apart sub[of ?sc] sub[of ?la] sub[of ?to] unfolding stacks_apart_def Let_def by blast+
  define m1 where "m1 = memcpy ?n ?sc ?la (kmem s)"
  have b1: "arg_block m1 ?sc st ss"
    using same_bytes_block[OF same_bytes_memcpy[OF _ d(1)] blk] n by (simp add: m1_def)
  have "unat st + 4 * Suc (length ss) + strs_size ss \<le> 2 ^ 32"
    using apart n sz(2) by (simp add: stacks_apart_def Let_def)
  with b1 n sz obtain m2 where m2: "relocate ?sc (orig_stack - st) [0..<256] 0 m1 = Inr (0 + int (length ss), m2)"
    "stack_at m2 ?sc (st + (orig_stack - st)) 0 (4 * Suc (length ss)) ss"
    "\<forall>x. x \<notin> region (?sc + of_nat (4 * 0)) (4 * length ss) \<longrightarrow> m2 x = m1 x"
    using relocate_ok[of m1 ?sc st 0 "4 * Suc (length ss)" ss 256 "orig_stack - st" 0] by (auto simp: arg_block_def)
  have "rd32 m2 (?sc + of_nat (4 * length ss)) = rd32 m1 (?sc + of_nat (4 * length ss))"
  proof (rule rd32_region)
    have "region (?sc + of_nat 0) (4 * length ss) \<inter> region (?sc + of_nat (4 * length ss)) 4 = {}"
      using n sz by (intro region_apart) simp_all
    then show "\<forall>x \<in> region (?sc + of_nat (4 * length ss)) 4. m2 x = m1 x" using m2(3) by auto
  qed
  then have b2: "arg_block m2 ?sc orig_stack ss" using m2(2) b1 by (simp add: arg_block_def)
  let ?m3 = "memcpy ?n ?to ?sc m2"
  have b3: "arg_block ?m3 ?to orig_stack ss"
    using same_bytes_block[OF same_bytes_memcpy[OF _ d(2)] b2] n by simp
  let ?t = "s\<lparr>kmem := ?m3\<rparr>"
  have run: "exec_stack msg s = Inr (int (length ss), ?t)"
  proof -
    have c1: "copy_between TASK_MM ?sc src st (int ?n) s = Inr ((), s\<lparr>kmem := m1\<rparr>)"
      using src by (simp add: copy_between_ok MM_pid lin phys_copy_def N m1_def)
    have c2: "copy_between src orig_stack TASK_MM ?sc (int ?n) (s\<lparr>kmem := m2\<rparr>) = Inr ((), ?t)"
      using src by (simp add: copy_between_ok MM_pid lin phys_copy_def N)
    show ?thesis using n sz c1 c2 m2(1) by (simp add: exec_stack_def msg Let_def op_defs)
  qed
  have out: "?m3 x = kmem s x" if x: "x \<notin> region ?sc PROC_ORIGIN_STACK" "x \<notin> region ?to PROC_ORIGIN_STACK" for x
  proof -
    have x': "x \<notin> region ?sc ?n" "x \<notin> region ?to ?n" using x sub by blast+
    have "?m3 x = m2 x" using x'(2) d(2) n by (simp add: memcpy_eq)
    also have "m2 x = m1 x" using m2(3) x'(1) region_le[of "4 * length ss" ?n ?sc] sz by auto
    also have "\<dots> = kmem s x" using x'(1) d(1) n by (simp add: m1_def memcpy_eq)
    finally show ?thesis .
  qed
  show ?thesis using run b3 out by (intro exI[of _ ?t]) simp
qed

text \<open>
  C36. The arguments given to \<open>execv\<close> are the arguments the new program starts with: from an argument
  vector \<open>ss\<close> in the caller's memory, the library's block and the task's relocation leave, below
  the end of the new image, a null-terminated vector of pointers into the image to the same
  strings, with \<open>length ss\<close> as the count; only the library's array, the task's copy and
  the new stack are written.
\<close>

theorem exec_args_arrive:
  assumes args: "args_at (kmem s) base argv ss" "args_area (kmem s) base argv ss \<inter> region (base + st) PROC_ORIGIN_STACK = {}"
    and n: "stack_size ss < PROC_ORIGIN_STACK"
    and src: "src \<in> pids" "flat_natives (proc_table s)" "base = ldt_reg_linear (proc_table s src) INDEX_LDT_RW"
    and apart: "stacks_apart s src st"
  shows "\<exists>len m t. build_stack base st argv (kmem s) = Inr (len, m) \<and>
    exec_stack (zero_msg\<lparr>m_source := src, m3p2 := st, m3i3 := int len\<rparr>) (s\<lparr>kmem := m\<rparr>) = Inr (int (length ss), t) \<and>
    arg_block (kmem t) (base + orig_stack) orig_stack ss \<and> proc_table t = proc_table s \<and>
    (\<forall>x. x \<notin> region (base + st) PROC_ORIGIN_STACK \<longrightarrow> x \<notin> region (at_stack s) PROC_ORIGIN_STACK \<longrightarrow>
       x \<notin> region (base + orig_stack) PROC_ORIGIN_STACK \<longrightarrow> kmem t x = kmem s x)"
proof -
  from build_stack_block[OF args n] obtain m where m: "build_stack base st argv (kmem s) = Inr (stack_size ss, m)"
    "arg_block m (base + st) st ss" "\<forall>x. x \<notin> region (base + st) PROC_ORIGIN_STACK \<longrightarrow> m x = kmem s x" by (elim exE conjE)
  let ?s = "s\<lparr>kmem := m\<rparr>"
  have lin: "linear (proc_table s) src a = base + a" for a using src(3) by (simp add: linear_def)
  have "\<exists>t. exec_stack (zero_msg\<lparr>m_source := src, m3p2 := st, m3i3 := int (stack_size ss)\<rparr>) ?s = Inr (int (length ss), t) \<and>
    arg_block (kmem t) (linear (proc_table ?s) src orig_stack) orig_stack ss \<and> proc_table t = proc_table ?s \<and>
    (\<forall>x. x \<notin> region (at_stack ?s) PROC_ORIGIN_STACK \<longrightarrow>
       x \<notin> region (linear (proc_table ?s) src orig_stack) PROC_ORIGIN_STACK \<longrightarrow> kmem t x = kmem ?s x)"
    using m(2) n src apart lin by (intro exec_stack_ok) (simp_all add: stacks_apart_def)
  then obtain t where t: "exec_stack (zero_msg\<lparr>m_source := src, m3p2 := st, m3i3 := int (stack_size ss)\<rparr>) ?s = Inr (int (length ss), t)"
    "arg_block (kmem t) (base + orig_stack) orig_stack ss" "proc_table t = proc_table s"
    "\<forall>x. x \<notin> region (at_stack s) PROC_ORIGIN_STACK \<longrightarrow> x \<notin> region (base + orig_stack) PROC_ORIGIN_STACK \<longrightarrow> kmem t x = m x"
    by (auto simp: lin)
  show ?thesis
    by (rule exI[of _ "stack_size ss"], rule exI[of _ m], rule exI[of _ t], intro conjI m(1) t(1-3) allI impI)
       (simp add: t(4) m(3))
qed

definition exec_mem :: mem where
  "exec_mem = (wr32 (\<lambda>_. 0) 0x3000 0x4000)(0x4000 := 0x41)"

lemma exec_mem_words: "rd32 exec_mem 0x3000 = 0x4000" "rd32 exec_mem 0x3004 = 0" "exec_mem 0x4000 = 0x41" "exec_mem 0x4001 = 0"
  by (simp_all add: exec_mem_def rd32_def wr32_def)

lemma mm_example_stack [simp]: "at_stack (mm_example hs nine msg) = 0x503000"
  by (simp add: mm_example_def fstate.defs)

lemma exec_example_areas:
  "region (0x3000 :: addr) 4 \<inter> region 0x2000 0x400 = {}" "region (0x3004 :: addr) 4 \<inter> region 0x2000 0x400 = {}"
  "region (0x4000 :: addr) 2 \<inter> region 0x2000 0x400 = {}" "region (0x2000 :: addr) 0x400 \<inter> region 0x503000 0x400 = {}"
  "region (0x503000 :: addr) 0x400 \<inter> region 0xFFC00 0x400 = {}"
  using far_apart[of "0x2000" "0x400" "0x3000" 4] far_apart[of "0x2000" "0x400" "0x3004" 4] far_apart[of "0x2000" "0x400" "0x4000" 2]
    far_apart[of "0x2000" "0x400" "0x503000" "0x400"] far_apart[of "0xFFC00" "0x400" "0x503000" "0x400"]
  by (simp_all add: Int_commute)

theorem exec_args_arrive_witness:
  "\<exists>len m t. build_stack 0 0x2000 0x3000 exec_mem = Inr (len, m) \<and>
    exec_stack (zero_msg\<lparr>m_source := INIT, m3p2 := 0x2000, m3i3 := int len\<rparr>) (mm_example [INIT] idle_proc zero_msg\<lparr>kmem := m\<rparr>) = Inr (1, t) \<and>
    arg_block (kmem t) 0xFFC00 0xFFC00 [[0x41]]"
proof -
  let ?s = "mm_example [INIT] idle_proc zero_msg\<lparr>kmem := exec_mem\<rparr>"
  have "args_at (kmem ?s) 0 0x3000 [[0x41]]" by (simp add: exec_mem_words)
  moreover have "args_area (kmem ?s) 0 0x3000 [[0x41]] \<inter> region (0 + 0x2000) PROC_ORIGIN_STACK = {}"
    using exec_example_areas by (simp add: exec_mem_words Int_Un_distrib2 numeral_2_eq_2)
  moreover have "stack_size [[0x41]] < PROC_ORIGIN_STACK" by (simp add: stack_size_def)
  moreover have "flat_natives (proc_table ?s)" using mm_example_ready[of "[INIT]" idle_proc zero_msg] by (simp add: mm_ready_def)
  moreover have "stacks_apart ?s INIT 0x2000"
    using exec_example_areas by (simp add: stacks_apart_def Let_def linear_def ldt_reg_linear_def idle_ldts)
  ultimately show ?thesis
    using exec_args_arrive[of ?s 0 "0x3000" "[[0x41]]" "0x2000" INIT]
    by (simp add: ldt_reg_linear_def idle_ldts) blast
qed

end
