(* ===== verification/Mm_Exit.thy ===== *)
theory Mm_Exit
  imports Mm_Fork
begin

section \<open>Exit and wait\<close>

text \<open>
  A child that exits and a parent that waits meet whichever comes first; orphans go to \<open>Init\<close>.
\<close>

definition hanging :: "proc \<Rightarrow> bool" where
  "hanging x = (p_flags x AND HANGING \<noteq> 0)"

definition orphans :: "int \<Rightarrow> proc_tab \<Rightarrow> proc_tab" where
  "orphans gone pt = (\<lambda>i. if i \<in> pids \<and> p_parent (pt i) = gone then (pt i)\<lparr>p_parent := INIT\<rparr> else pt i)"

lemma reparent_loop:
  assumes "set is \<subseteq> pids" "p_flags (proc_table s INIT) \<noteq> WAITING"
  shows "forE is (reparent gone) s = Inr ((), s\<lparr>proc_table := (\<lambda>i. if i \<in> set is \<and> p_parent (proc_table s i) = gone
    then (proc_table s i)\<lparr>p_parent := INIT\<rparr> else proc_table s i)\<rparr>)"
  using assms
proof (induction "is" arbitrary: s)
  case Nil
  then show ?case by (simp add: op_defs)
next
  case (Cons i "is")
  let ?s = "s\<lparr>proc_table := (proc_table s)(i := (proc_table s i)\<lparr>p_parent := INIT\<rparr>)\<rparr>"
  have i: "i \<in> pids" using Cons.prems(1) by simp
  show ?case
  proof (cases "p_parent (proc_table s i) = gone")
    case True
    have "p_flags (proc_table ?s INIT) \<noteq> WAITING" using Cons.prems(2) by simp
    note IH = Cons.IH[OF _ this]
    have "reparent gone i s = Inr ((), ?s)"
      using True i Cons.prems(2) by (simp add: reparent_def bindE_def op_defs updP_apply)
    then show ?thesis using IH Cons.prems(1) True by (auto intro!: arg_cong[where f = "\<lambda>pt. s\<lparr>proc_table := pt\<rparr>"] simp: fun_eq_iff)
  next
    case False
    then have "reparent gone i s = Inr ((), s)" using i by (simp add: reparent_def bindE_def op_defs)
    then show ?thesis using Cons.IH[of s] Cons.prems False by (auto intro!: arg_cong[where f = "\<lambda>pt. s\<lparr>proc_table := pt\<rparr>"] simp: fun_eq_iff)
  qed
qed

lemma reparent_all:
  assumes "p_flags (proc_table s INIT) \<noteq> WAITING"
  shows "forE proc_list (reparent gone) s = Inr ((), s\<lparr>proc_table := orphans gone (proc_table s)\<rparr>)"
  using reparent_loop[OF _ assms, of proc_list gone] by (simp add: orphans_def)

lemma wait_scan_miss:
  "set is \<subseteq> pids \<Longrightarrow> \<forall>i \<in> set is. p_parent (proc_table s i) = p \<longrightarrow> \<not> hanging (proc_table s i) \<Longrightarrow>
   wait_scan p is n s = Inr (Some (n + int (length (filter (\<lambda>i. p_parent (proc_table s i) = p) is))), s)"
  by (induction "is" arbitrary: n) (auto simp: op_defs hanging_def)

lemma wait_scan_hit:
  "set us \<subseteq> pids \<Longrightarrow> c \<in> pids \<Longrightarrow> \<forall>i \<in> set us. p_parent (proc_table s i) = p \<longrightarrow> \<not> hanging (proc_table s i) \<Longrightarrow>
   p_parent (proc_table s c) = p \<Longrightarrow> hanging (proc_table s c) \<Longrightarrow>
   wait_scan p (us @ c # vs) n s = bindE (cleanup c) (\<lambda>_. ret None) s"
  by (induction us arbitrary: n) (auto simp: hanging_def)

text \<open>The table after a child's slot has been freed and its parent has been answered.\<close>

definition reaped :: "int \<Rightarrow> int \<Rightarrow> proc_tab \<Rightarrow> proc_tab" where
  "reaped p c pt = pt(p := woken (pt p), c := (pt c)\<lparr>p_flags := FREE_SLOT\<rparr>)"

definition death_msg :: "int \<Rightarrow> int \<Rightarrow> message" where
  "death_msg c v = zero_msg\<lparr>m_type := SYSCALL_RET, m3i2 := c, m3i1 := v\<rparr>"

lemma cleanup_eq:
  assumes "mm_ready s" "c \<in> pids" "p_parent (proc_table s c) = p" "p \<in> pids" "p \<noteq> TASK_MM" "p \<noteq> c" "awaits_mm (proc_table s p)"
  shows "cleanup c s = Inr ((), s\<lparr>int_enabled := False, proc_table := reaped p c (proc_table s),
    kmem := answer_mem s p (death_msg c (exit_status (proc_table s c)))\<rparr>)"
  using mm_send_eq[OF assms(1,4,5,7), of "death_msg c (exit_status (proc_table s c))"] assms(2-6)
  by (simp add: cleanup_def updP_apply answered_def reaped_def death_msg_def)

text \<open>
  A parent \<open>p\<close> that waits for the task and its child \<open>c\<close>: no other child is a zombie already, and
  nobody is in the state \<open>INIT\<close> is never in.
\<close>

definition can_reap :: "'a mstate_scheme \<Rightarrow> int \<Rightarrow> int \<Rightarrow> bool" where
  "can_reap s p c =
     (mm_ready s \<and> p \<in> pids \<and> c \<in> pids \<and> p \<noteq> c \<and> p \<noteq> TASK_MM \<and> c \<noteq> TASK_MM \<and> p_parent (proc_table s c) = p \<and>
      awaits_mm (proc_table s p) \<and> p_flags (proc_table s c) = RECEIVING \<and> p_flags (proc_table s INIT) \<noteq> WAITING \<and>
      (\<forall>i \<in> pids. i \<noteq> c \<longrightarrow> p_parent (proc_table s i) \<in> {p, c} \<longrightarrow> \<not> hanging (proc_table s i)) \<and>
      msg_area (proc_table s) p \<inter> region (at_msg s) MESSAGE_SIZE = {})"

definition exited :: "int \<Rightarrow> int \<Rightarrow> proc_tab \<Rightarrow> proc_tab" where
  "exited c v pt = pt(c := (no_files (pt c))\<lparr>exit_status := v\<rparr>)"

definition after_reap :: "int \<Rightarrow> int \<Rightarrow> int \<Rightarrow> proc_tab \<Rightarrow> proc_tab" where
  "after_reap p c v pt = orphans c (reaped p c (exited c v pt))"

lemma do_exit_front:
  assumes "counts_ok P s" "P \<subseteq> pids" "c \<in> P" "m_source (mm_msg s) = c" "p_parent (proc_table s c) = p" "p \<in> pids" "p \<noteq> c"
  shows "\<exists>u. do_exit drv v s =
      bindE (if p_flags (proc_table s p) AND WAITING \<noteq> 0
             then bindE (updP p (\<lambda>x. x\<lparr>p_flags := p_flags x AND NOT WAITING\<rparr>)) (\<lambda>_. cleanup c)
             else updP c (\<lambda>x. x\<lparr>p_flags := p_flags x OR HANGING\<rparr>)) (\<lambda>_. forE proc_list (reparent c)) u \<and>
    proc_table u = exited c v (proc_table s) \<and> kmem u = kmem s \<and> at_msg u = at_msg s \<and> counts_ok P u"
proof -
  have c: "c \<in> pids" using assms(2,3) by blast
  from fs_call_exit[OF assms(1-3), of drv] obtain r t where
    t: "fs_call drv TASK_FS (zero_msg\<lparr>m_type := EXIT, m3i2 := c\<rparr>) s = Inr (r, t)" "counts_ok P t"
      "fs_side (s\<lparr>proc_table := (proc_table s)(c := no_files (proc_table s c))\<rparr>) t" by (elim exE conjE)
  note side = fs_side_fields[OF t(3)]
  let ?u = "t\<lparr>proc_table := exited c v (proc_table s)\<rparr>"
  have "counts_ok P ?u" using t(2) by (elim counts_ok_cong) (simp_all add: exited_def side)
  then show ?thesis
    using t(1) side c assms(4-7)
    by (intro exI[of _ ?u] conjI) (simp_all add: do_exit_def op_defs updP_apply exited_def no_files_def)
qed

lemma mm_ready_cong:
  assumes "mm_ready s" "at_msg t = at_msg s" "\<And>i. i < NR_TASKS + NR_NATIVE_PROCS \<Longrightarrow> ldts (proc_table t i) = ldts (proc_table s i)"
    "p_flags (proc_table t TASK_MM) = p_flags (proc_table s TASK_MM)" "p_msg (proc_table t TASK_MM) = p_msg (proc_table s TASK_MM)"
    "p_recvfrom (proc_table t TASK_MM) = p_recvfrom (proc_table s TASK_MM)" "p_sendto (proc_table t TASK_MM) = p_sendto (proc_table s TASK_MM)"
  shows "mm_ready t"
  using assms by (auto simp: mm_ready_def flat_natives_def ldt_reg_linear_def)

lemma answer_mem_cong:
  "kmem t = kmem s \<Longrightarrow> at_msg t = at_msg s \<Longrightarrow> ldts (proc_table t p) = ldts (proc_table s p) \<Longrightarrow>
   p_msg (proc_table t p) = p_msg (proc_table s p) \<Longrightarrow> answer_mem t p m = answer_mem s p m"
  by (simp add: answer_mem_def linear_def ldt_reg_linear_def)

lemma orphans_fields [simp]: "p_flags (orphans g pt i) = p_flags (pt i)" "p_msg (orphans g pt i) = p_msg (pt i)"
  "p_recvfrom (orphans g pt i) = p_recvfrom (pt i)" "p_sendto (orphans g pt i) = p_sendto (pt i)"
  "ldts (orphans g pt i) = ldts (pt i)" "filp (orphans g pt i) = filp (pt i)" "exit_status (orphans g pt i) = exit_status (pt i)"
  by (simp_all add: orphans_def)

lemma flag_facts [simp]: "(RECEIVING OR WAITING) AND NOT WAITING = RECEIVING" "RECEIVING OR HANGING \<noteq> WAITING"
  "(RECEIVING OR WAITING) AND WAITING \<noteq> 0" "RECEIVING AND WAITING = 0" "(RECEIVING OR HANGING) AND HANGING \<noteq> 0"
  by simp_all

text \<open>The child exits first: it becomes a zombie, which the parent's wait finds.\<close>

lemma exit_then_wait:
  assumes can: "can_reap s p c" and counts: "counts_ok P s" "P \<subseteq> pids" "c \<in> P"
    and ex: "m_source ex = c" and wt: "m_source wt = p"
  shows "\<exists>t. bindE (modMM (\<lambda>_. ex)) (\<lambda>_. bindE (do_exit drv v) (\<lambda>_. bindE (modMM (\<lambda>_. wt)) (\<lambda>_. do_wait))) s = Inr ((), t) \<and>
    proc_table t = after_reap p c v (proc_table s) \<and> kmem t = answer_mem s p (death_msg c v) \<and> counts_ok P t"
proof -
  let ?pt = "proc_table s"
  have f: "mm_ready s" "p \<in> pids" "c \<in> pids" "p \<noteq> c" "p \<noteq> TASK_MM" "c \<noteq> TASK_MM" "p_parent (?pt c) = p" "awaits_mm (?pt p)"
    "p_flags (?pt c) = RECEIVING" "p_flags (?pt INIT) \<noteq> WAITING"
    "\<forall>i \<in> pids. i \<noteq> c \<longrightarrow> p_parent (?pt i) \<in> {p, c} \<longrightarrow> \<not> hanging (?pt i)"
    using can by (simp_all add: can_reap_def)
  let ?s1 = "s\<lparr>mm_msg := ex\<rparr>"
  have "counts_ok P ?s1" using counts(1) by (rule counts_ok_cong) simp_all
  from do_exit_front[OF this counts(2,3), of p drv v] ex f(2,4,7) f(8)[unfolded awaits_mm_def] obtain u where
    u: "do_exit drv v ?s1 = bindE (updP c (\<lambda>x. x\<lparr>p_flags := p_flags x OR HANGING\<rparr>)) (\<lambda>_. forE proc_list (reparent c)) u"
      "proc_table u = exited c v ?pt" "kmem u = kmem s" "at_msg u = at_msg s" "counts_ok P u" by auto
  let ?pt2 = "(exited c v ?pt)(c := (exited c v ?pt c)\<lparr>p_flags := RECEIVING OR HANGING\<rparr>)"
  have fc: "p_flags (exited c v ?pt c) = RECEIVING" using f(9) by (simp add: exited_def no_files_def)
  let ?u2 = "u\<lparr>proc_table := ?pt2\<rparr>"
  have "p_flags (proc_table ?u2 INIT) \<noteq> WAITING" using f(10) by (simp add: exited_def)
  then have e1: "do_exit drv v ?s1 = Inr ((), u\<lparr>proc_table := orphans c ?pt2\<rparr>)"
    using reparent_all[of ?u2 c] fc by (simp add: u(1) updP_apply u(2) bindE_def)
  let ?w = "u\<lparr>proc_table := orphans c ?pt2, mm_msg := wt\<rparr>"
  obtain us vs where pl: "proc_list = us @ c # vs" "c \<notin> set us" using f(3) split_list_first[of c proc_list] by auto
  have us: "set us \<subseteq> pids" using pl(1) set_proc_list by (metis Un_upper1 set_append)
  have par: "p_parent (proc_table ?w c) = p" using f(4,7) by (simp add: orphans_def exited_def no_files_def)
  have scan: "wait_scan p proc_list 0 ?w = bindE (cleanup c) (\<lambda>_. ret None) ?w"
    unfolding pl(1)
  proof (rule wait_scan_hit[OF us f(3) _ par])
    show "\<forall>i \<in> set us. p_parent (proc_table ?w i) = p \<longrightarrow> \<not> hanging (proc_table ?w i)"
      using f(11) us pl(2) by (auto simp: orphans_def exited_def hanging_def split: if_splits)
    show "hanging (proc_table ?w c)" using fc by (simp add: hanging_def)
  qed
  let ?t = "?w\<lparr>int_enabled := False, proc_table := reaped p c (proc_table ?w), kmem := answer_mem ?w p (death_msg c (exit_status (proc_table ?w c)))\<rparr>"
  have clean: "cleanup c ?w = Inr ((), ?w\<lparr>int_enabled := False, proc_table := reaped p c (proc_table ?w),
    kmem := answer_mem ?w p (death_msg c (exit_status (proc_table ?w c)))\<rparr>)"
  proof (rule cleanup_eq[OF _ f(3) par f(2,5,4)])
    show "mm_ready ?w" using f(1) f(6) by (rule_tac mm_ready_cong[of s]) (auto simp: u exited_def no_files_def)
    show "awaits_mm (proc_table ?w p)" using f(4,8) by (simp add: awaits_mm_def exited_def)
  qed
  have e2: "do_wait ?w = Inr ((), ?t)"
  proof -
    have "m_source (mm_msg ?w) = p" using wt by simp
    then show ?thesis unfolding do_wait_def getsE_def bindE_def using scan clean by (simp only: bindE_def prod.case sum.case ret_def option.case)
  qed
  show ?thesis
  proof (rule exI[of _ ?t], intro conjI)
    show "bindE (modMM (\<lambda>_. ex)) (\<lambda>_. bindE (do_exit drv v) (\<lambda>_. bindE (modMM (\<lambda>_. wt)) (\<lambda>_. do_wait))) s = Inr ((), ?t)"
      using e1 e2 by (simp add: modMM_def op_defs)
    show "proc_table ?t = after_reap p c v ?pt"
      using f(2-4,7) by (intro ext) (auto simp: after_reap_def reaped_def orphans_def exited_def no_files_def woken_def)
    have "exit_status (proc_table ?w c) = v" by (simp add: exited_def)
    moreover have "answer_mem ?w p m = answer_mem s p m" for m
      using f(4) by (intro answer_mem_cong) (simp_all add: u(3,4) exited_def)
    ultimately show "kmem ?t = answer_mem s p (death_msg c v)" by simp
    show "counts_ok P ?t" using u(5) by (elim counts_ok_cong) (simp_all add: u(2) reaped_def)
  qed
qed

text \<open>The parent waits first: it is marked, and the child's exit wakes it.\<close>

lemma wait_then_exit:
  assumes can: "can_reap s p c" and counts: "counts_ok P s" "P \<subseteq> pids" "c \<in> P"
    and ex: "m_source ex = c" and wt: "m_source wt = p"
  shows "\<exists>t. bindE (modMM (\<lambda>_. wt)) (\<lambda>_. bindE do_wait (\<lambda>_. bindE (modMM (\<lambda>_. ex)) (\<lambda>_. do_exit drv v))) s = Inr ((), t) \<and>
    proc_table t = after_reap p c v (proc_table s) \<and> kmem t = answer_mem s p (death_msg c v) \<and> counts_ok P t"
proof -
  let ?pt = "proc_table s"
  have f: "mm_ready s" "p \<in> pids" "c \<in> pids" "p \<noteq> c" "p \<noteq> TASK_MM" "c \<noteq> TASK_MM" "p_parent (?pt c) = p" "awaits_mm (?pt p)"
    "p_flags (?pt c) = RECEIVING" "p_flags (?pt INIT) \<noteq> WAITING"
    "\<forall>i \<in> pids. i \<noteq> c \<longrightarrow> p_parent (?pt i) \<in> {p, c} \<longrightarrow> \<not> hanging (?pt i)"
    using can by (simp_all add: can_reap_def)
  have pf: "p_flags (?pt p) = RECEIVING" using f(8) by (simp add: awaits_mm_def)
  let ?s1 = "s\<lparr>mm_msg := wt\<rparr>"
  let ?n = "int (length (filter (\<lambda>i. p_parent (proc_table ?s1 i) = p) proc_list))"
  have "c \<in> set (filter (\<lambda>i. p_parent (?pt i) = p) proc_list)" using f(3,7) by simp
  then have n: "?n \<noteq> 0" using length_pos_if_in_set[of c "filter (\<lambda>i. p_parent (?pt i) = p) proc_list"] by simp
  have scan: "wait_scan p proc_list 0 ?s1 = Inr (Some (0 + ?n), ?s1)"
  proof (rule wait_scan_miss)
    show "\<forall>i \<in> set proc_list. p_parent (proc_table ?s1 i) = p \<longrightarrow> \<not> hanging (proc_table ?s1 i)"
      using f(9,11) by (auto simp: hanging_def)
  qed simp
  let ?ptw = "?pt(p := (?pt p)\<lparr>p_flags := RECEIVING OR WAITING\<rparr>)"
  let ?s2 = "s\<lparr>proc_table := ?ptw, mm_msg := ex\<rparr>"
  have e1: "do_wait ?s1 = Inr ((), ?s1\<lparr>proc_table := ?ptw\<rparr>)"
    using scan n wt f(2) pf by (simp add: do_wait_def op_defs updP_apply)
  have "counts_ok P ?s2" using counts(1) by (rule counts_ok_cong) simp_all
  from do_exit_front[OF this counts(2,3), of p drv v] ex f(2,4,7) obtain u where
    u: "do_exit drv v ?s2 = bindE (bindE (updP p (\<lambda>x. x\<lparr>p_flags := p_flags x AND NOT WAITING\<rparr>)) (\<lambda>_. cleanup c)) (\<lambda>_. forE proc_list (reparent c)) u"
      "proc_table u = exited c v ?ptw" "kmem u = kmem s" "at_msg u = at_msg s" "counts_ok P u" by auto
  let ?w = "u\<lparr>proc_table := exited c v ?pt\<rparr>"
  have up: "updP p (\<lambda>x. x\<lparr>p_flags := p_flags x AND NOT WAITING\<rparr>) u = Inr ((), ?w)"
  proof -
    have "(exited c v ?ptw)(p := (exited c v ?ptw p)\<lparr>p_flags := p_flags (exited c v ?ptw p) AND NOT WAITING\<rparr>) = exited c v ?pt"
      using f(4) pf by (intro ext) (auto simp: exited_def)
    then show ?thesis by (simp only: updP_apply u(2))
  qed
  have par: "p_parent (proc_table ?w c) = p" using f(7) by (simp add: exited_def no_files_def)
  let ?x = "?w\<lparr>int_enabled := False, proc_table := reaped p c (proc_table ?w), kmem := answer_mem ?w p (death_msg c (exit_status (proc_table ?w c)))\<rparr>"
  have clean: "cleanup c ?w = Inr ((), ?x)"
  proof (rule cleanup_eq[OF _ f(3) par f(2,5,4)])
    show "mm_ready ?w" using f(1) f(6) by (rule_tac mm_ready_cong[of s]) (auto simp: u exited_def no_files_def)
    show "awaits_mm (proc_table ?w p)" using f(4,8) by (simp add: awaits_mm_def exited_def)
  qed
  have "p_flags (proc_table ?x INIT) \<noteq> WAITING" using f(10) by (auto simp: reaped_def exited_def)
  note orph = reparent_all[OF this, of c]
  let ?t = "?x\<lparr>proc_table := orphans c (proc_table ?x)\<rparr>"
  have e2: "do_exit drv v ?s2 = Inr ((), ?t)"
  proof -
    have b: "bindE (updP p (\<lambda>x. x\<lparr>p_flags := p_flags x AND NOT WAITING\<rparr>)) (\<lambda>_. cleanup c) u = Inr ((), ?x)"
      by (subst bindE_Inr[where x = "()" and t = ?w], rule up, rule clean)
    show ?thesis unfolding u(1) by (subst bindE_Inr[where x = "()" and t = ?x], rule b, rule orph)
  qed
  show ?thesis
  proof (rule exI[of _ ?t], intro conjI)
    show "bindE (modMM (\<lambda>_. wt)) (\<lambda>_. bindE do_wait (\<lambda>_. bindE (modMM (\<lambda>_. ex)) (\<lambda>_. do_exit drv v))) s = Inr ((), ?t)"
      using e1 e2 by (simp add: modMM_def op_defs)
    show "proc_table ?t = after_reap p c v ?pt" by (simp add: after_reap_def)
    have "exit_status (proc_table ?w c) = v" by (simp add: exited_def)
    moreover have "answer_mem ?w p m = answer_mem s p m" for m
      using f(4) by (intro answer_mem_cong) (simp_all add: u(3,4) exited_def)
    ultimately show "kmem ?t = answer_mem s p (death_msg c v)" by simp
    show "counts_ok P ?t" using u(5) f(4) by (elim counts_ok_cong) (auto simp: u(2) reaped_def exited_def no_files_def)
  qed
qed

text \<open>
  C34. The order in which a child's exit and its parent's wait reach the task does not matter: both
  requests are served, and both orders give the same process table and the same memory. The
  parent goes on, with the child's number and its exit status in its buffer; the child's slot
  is free; the child's files are closed in the sense that all counts are right again; its own
  children belong to \<open>Init\<close>.
\<close>

theorem exit_wait_any_order:
  assumes can: "can_reap s p c" and counts: "counts_ok P s" "P \<subseteq> pids" "c \<in> P"
    and v: "s32 v = v" and ex: "ex = zero_msg\<lparr>m_source := c, m_type := EXIT, m3i1 := v\<rparr>"
    and wt: "wt = zero_msg\<lparr>m_source := p, m_type := WAIT\<rparr>"
  shows "\<exists>t u. bindE (mm_request drv ex) (\<lambda>_. mm_request drv wt) s = Inr ((), t) \<and>
    bindE (mm_request drv wt) (\<lambda>_. mm_request drv ex) s = Inr ((), u) \<and>
    proc_table t = proc_table u \<and> kmem t = kmem u \<and> counts_ok P t \<and> counts_ok P u \<and>
    p_flags (proc_table t p) = 0 \<and> p_flags (proc_table t c) = FREE_SLOT \<and>
    msg_of s p (kmem t) = zero_msg\<lparr>m_source := TASK_MM, m_type := SYSCALL_RET, m3i2 := c, m3i1 := v\<rparr> \<and>
    (\<forall>i \<in> pids. p_parent (proc_table s i) = c \<longrightarrow> p_parent (proc_table t i) = INIT)"
proof -
  have src: "m_source ex = c" "m_source wt = p" by (simp_all add: ex wt)
  from exit_then_wait[OF can counts src, of drv v] obtain t where
    t: "bindE (modMM (\<lambda>_. ex)) (\<lambda>_. bindE (do_exit drv v) (\<lambda>_. bindE (modMM (\<lambda>_. wt)) (\<lambda>_. do_wait))) s = Inr ((), t)"
      "proc_table t = after_reap p c v (proc_table s)" "kmem t = answer_mem s p (death_msg c v)" "counts_ok P t" by (elim exE conjE)
  from wait_then_exit[OF can counts src, of drv v] obtain u where
    u: "bindE (modMM (\<lambda>_. wt)) (\<lambda>_. bindE do_wait (\<lambda>_. bindE (modMM (\<lambda>_. ex)) (\<lambda>_. do_exit drv v))) s = Inr ((), u)"
      "proc_table u = after_reap p c v (proc_table s)" "kmem u = answer_mem s p (death_msg c v)" "counts_ok P u" by (elim exE conjE)
  have f: "p \<noteq> c" "c \<in> pids" "msg_area (proc_table s) p \<inter> region (at_msg s) MESSAGE_SIZE = {}" "p_parent (proc_table s c) = p"
    using can by (simp_all add: can_reap_def)
  have ok: "msg_ok (death_msg c v)"
    using v f(2) s32_id[of c] by (simp add: msg_ok_def death_msg_def zero_msg_def pids_def s32_id)
  note msg = answer_mem_ok(1)[OF f(3) ok]
  have req: "mm_request drv ex = bindE (modMM (\<lambda>_. ex)) (\<lambda>_. do_exit drv v)" "mm_request drv wt = bindE (modMM (\<lambda>_. wt)) (\<lambda>_. do_wait)"
    by (simp_all add: mm_request_def ex wt)
  show ?thesis
  proof (rule exI[of _ t], rule exI[of _ u], intro conjI ballI impI)
    show "bindE (mm_request drv ex) (\<lambda>_. mm_request drv wt) s = Inr ((), t)"
      using t(1) by (simp add: req bindE_assoc)
    show "bindE (mm_request drv wt) (\<lambda>_. mm_request drv ex) s = Inr ((), u)"
      using u(1) by (simp add: req bindE_assoc)
    show "proc_table t = proc_table u" "kmem t = kmem u" "counts_ok P t" "counts_ok P u" using t u by simp_all
    show "p_flags (proc_table t p) = 0" "p_flags (proc_table t c) = FREE_SLOT"
      using f(1) by (simp_all add: t(2) after_reap_def reaped_def)
    show "msg_of s p (kmem t) = zero_msg\<lparr>m_source := TASK_MM, m_type := SYSCALL_RET, m3i2 := c, m3i1 := v\<rparr>"
      using msg by (simp add: t(3) death_msg_def)
    fix i assume "i \<in> pids" "p_parent (proc_table s i) = c"
    then show "p_parent (proc_table t i) = INIT"
      using f(1,4) by (auto simp: t(2) after_reap_def orphans_def reaped_def exited_def no_files_def)
  qed
qed

text \<open>
  A slot that has been freed still names its parent, and \<open>do_wait\<close> counts it: a process all of
  whose children have been reaped is marked as waiting, and gets no answer.
\<close>

lemma wait_counts_free_slots:
  assumes "m_source msg = p" "m_type msg = WAIT" "p \<in> pids" "c \<in> pids" "p_parent (proc_table s c) = p"
    and free: "\<forall>i \<in> pids. p_parent (proc_table s i) = p \<longrightarrow> p_flags (proc_table s i) = FREE_SLOT"
  shows "mm_request drv msg s = Inr ((), s\<lparr>mm_msg := msg,
    proc_table := (proc_table s)(p := (proc_table s p)\<lparr>p_flags := p_flags (proc_table s p) OR WAITING\<rparr>)\<rparr>)"
proof -
  let ?s = "s\<lparr>mm_msg := msg\<rparr>"
  let ?n = "int (length (filter (\<lambda>i. p_parent (proc_table ?s i) = p) proc_list))"
  have "c \<in> set (filter (\<lambda>i. p_parent (proc_table ?s i) = p) proc_list)" using assms(4,5) by simp
  then have "?n \<noteq> 0" using length_pos_if_in_set[of c] by fastforce
  moreover have "wait_scan p proc_list 0 ?s = Inr (Some (0 + ?n), ?s)"
    using free by (intro wait_scan_miss) (auto simp: hanging_def)
  ultimately show ?thesis using assms(1-3) by (simp add: mm_request_def modMM_def do_wait_def op_defs updP_apply)
qed

definition child_proc :: proc where
  "child_proc = waiting_proc\<lparr>p_parent := INIT\<rparr>"

lemma can_reap_example: "can_reap (mm_example [INIT, 9] child_proc msg) INIT 9"
proof -
  have "region (0x1000 :: addr) 48 \<inter> region 0x500000 48 = {}" using far_apart[of "0x1000" 48 "0x500000" 48] by simp
  then show ?thesis
    using mm_example_ready
    by (auto simp: can_reap_def awaits_mm_def pids_def child_proc_def hanging_def msg_area_def linear_def ldt_reg_linear_def idle_ldts)
qed

theorem exit_wait_any_order_witness:
  "\<exists>t. bindE (mm_request (\<lambda>_ _. fail (Wait ''drv'')) (zero_msg\<lparr>m_source := 9, m_type := EXIT, m3i1 := 7\<rparr>))
      (\<lambda>_. mm_request (\<lambda>_ _. fail (Wait ''drv'')) (zero_msg\<lparr>m_source := INIT, m_type := WAIT\<rparr>)) (mm_example [INIT, 9] child_proc zero_msg) = Inr ((), t) \<and>
    p_flags (proc_table t 9) = FREE_SLOT"
proof -
  have "counts_ok {INIT, 9} (mm_example [INIT, 9] child_proc zero_msg)" "{INIT, 9} \<subseteq> pids" "(9 :: int) \<in> {INIT, 9}" "s32 7 = 7"
    using mm_example_counts[of "[INIT, 9]" child_proc zero_msg] by (simp_all add: child_proc_def s32_id pids_def)
  from exit_wait_any_order[OF can_reap_example this refl refl, of "\<lambda>_ _. fail (Wait ''drv'')"] show ?thesis by blast
qed

end
