(* ===== verification/Boot.thy ===== *)
theory Boot
  imports Keyboard Mm
begin

section \<open>From the boot loader to the first process\<close>

text \<open>
  \<open>cstart\<close> (kernel/start.c), \<open>init_prot\<close> (kernel/protect.c), \<open>get_kernel_map\<close> (lib/klib.c) and
  \<open>tinix_main\<close> (kernel/main.c) with the task tables of kernel/global.c. Link-time addresses are
  the record \<open>link\<close>. What is printed is left out; \<open>restart\<close>, the assembly that enters the first
  process and does not come back, is the end of \<open>tinix_main\<close>. The theorem shows that the state
  handed over is the one the theorems on the running kernel start from.
\<close>

datatype entry_point = E_task_tty | E_task_sys | E_task_hd | E_task_fs | E_task_mm | E_Init | E_TestA | E_TestB | E_TestC

record link =
  gdt_addr :: addr
  idt_addr :: addr
  tss_addr :: addr
  ldts_addr :: "nat \<Rightarrow> addr"
  task_stack :: addr
  handler_addr :: "handler \<Rightarrow> addr"
  entry_addr :: "entry_point \<Rightarrow> addr"

text \<open>\<open>gdt_ptr\<close> and \<open>idt_ptr\<close> are a limit and a base; of the TSS only the fields that are set.\<close>

record bstate = tstate +
  gdt_table :: gdt
  idt_table :: "nat \<Rightarrow> gate"
  tss_ss0 :: u32
  tss_iobase :: u16
  gdt_ptr :: "u16 \<times> addr"
  idt_ptr :: "u16 \<times> addr"

definition gdtE :: "(gdt, unit) op \<Rightarrow> ('a bstate_scheme, unit) op" where
  "gdtE m = (\<lambda>s. case m (gdt_table s) of Inl e \<Rightarrow> Inl e | Inr (_, g) \<Rightarrow> Inr ((), s\<lparr>gdt_table := g\<rparr>))"

subsection \<open>init_prot\<close>

text \<open>\<open>memset(&proc_table[i], 0, sizeof(struct proc))\<close>.\<close>

definition zero_frame :: stackframe where
  "zero_frame = \<lparr> reg_gs = 0, reg_fs = 0, reg_es = 0, reg_ds = 0, reg_edi = 0, reg_esi = 0, reg_ebp = 0,
     reg_kernel_esp = 0, reg_ebx = 0, reg_edx = 0, reg_ecx = 0, reg_eax = 0, reg_retaddr = 0, reg_eip = 0,
     reg_cs = 0, reg_eflags = 0, reg_esp = 0, reg_ss = 0 \<rparr>"

definition zero_descriptor :: descriptor where
  "zero_descriptor = \<lparr> limit_low = 0, base_low = 0, base_mid = 0, attr1 = 0, limit_high_attr2 = 0, base_high = 0 \<rparr>"

definition zero_proc :: proc where
  "zero_proc = \<lparr> regs = zero_frame, ldt_sel = 0, ldts = (\<lambda>_. zero_descriptor), p_ticks = 0, priority = 0,
     pid = 0, p_parent = 0, p_name = [], is_msg_critical_allowed = 0, exit_status = 0, p_flags = 0,
     p_msg = 0, p_recvfrom = 0, p_sendto = 0, has_int_msg = 0, q_sending = None, next_sending = None,
     filp = (\<lambda>_. None) \<rparr>"

definition init_prot_proc :: "link \<Rightarrow> nat \<Rightarrow> ('a bstate_scheme, unit) op" where
  "init_prot_proc lk i = blockE [
     updP (int i) (\<lambda>_. zero_proc),
     updP (int i) (\<lambda>p. p\<lparr>ldt_sel := ldt_sel_of i\<rparr>),
     gdtE (init_ldt_descs (ldts_addr lk) [i])]"

definition init_prot :: "link \<Rightarrow> ('a bstate_scheme, unit) op" where
  "init_prot lk = blockE [
     init_8259A,
     modE (\<lambda>s. s\<lparr>idt_table := init_prot_idt (handler_addr lk) (idt_table s)\<rparr>),
     modE (\<lambda>s. s\<lparr>tss_ss0 := ucast SELECTOR_KERNEL_DS\<rparr>),
     gdtE (modE (\<lambda>gdt. gdt(INDEX_TSS :=
       init_descriptor (virt2linear gdt SELECTOR_KERNEL_DS (tss_addr lk)) (TSS_SIZE - 1) DA_386TSS))),
     modE (\<lambda>s. s\<lparr>tss_iobase := ucast TSS_SIZE\<rparr>),
     forE [0..<NR_PROCS_nat] (init_prot_proc lk)]"

subsection \<open>cstart\<close>

text \<open>
  The copy of the loader's table, byte by byte: \<open>old\<close> is its address and \<open>n\<close> the number of bytes;
  a copy longer than the new table would leave the array.
\<close>

definition descriptor_bytes :: "descriptor \<Rightarrow> byte list" where
  "descriptor_bytes d = [ucast (limit_low d), ucast (drop_bit 8 (limit_low d)),
     ucast (base_low d), ucast (drop_bit 8 (base_low d)), base_mid d, attr1 d, limit_high_attr2 d, base_high d]"

definition bytes_descriptor :: "byte list \<Rightarrow> descriptor" where
  "bytes_descriptor b = \<lparr> limit_low = ucast (b ! 0) OR push_bit 8 (ucast (b ! 1)),
     base_low = ucast (b ! 2) OR push_bit 8 (ucast (b ! 3)),
     base_mid = b ! 4, attr1 = b ! 5, limit_high_attr2 = b ! 6, base_high = b ! 7 \<rparr>"

definition copy_gdt :: "mem \<Rightarrow> addr \<Rightarrow> nat \<Rightarrow> gdt \<Rightarrow> gdt" where
  "copy_gdt m old n g = (\<lambda>i. bytes_descriptor (map (\<lambda>k.
     if 8 * i + k < n then m (old + of_nat (8 * i + k)) else descriptor_bytes (g i) ! k) [0..<8]))"

definition cstart :: "link \<Rightarrow> ('a bstate_scheme, unit) op" where
  "cstart lk =
     bindE (getsE gdt_ptr) (\<lambda>(limit, old).
     bindE (if unat limit + 1 \<le> 8 * GDT_SIZE
       then modE (\<lambda>s. s\<lparr>gdt_table := copy_gdt (kmem s) old (unat limit + 1) (gdt_table s)\<rparr>)
       else fail (Bad_access ''gdt'')) (\<lambda>_.
     bindE (modE (\<lambda>s. s\<lparr>gdt_ptr := (of_nat (GDT_SIZE * 8 - 1), gdt_addr lk)\<rparr>)) (\<lambda>_.
     bindE (modE (\<lambda>s. s\<lparr>idt_ptr := (of_nat (256 * 8 - 1), idt_addr lk)\<rparr>)) (\<lambda>_.
     init_prot lk))))"

subsection \<open>The map of the kernel\<close>

text \<open>
  The section headers of the kernel's ELF file (the offsets of the standard elf.h): the lowest
  address and the end of the sections that are loaded. All comparisons are unsigned. \<open>None\<close> is the
  return value -1.
\<close>

abbreviation (input) SHF_ALLOC :: u32 where "SHF_ALLOC \<equiv> 2"

definition section_hdr :: "mem \<Rightarrow> addr \<Rightarrow> nat \<Rightarrow> addr" where
  "section_hdr m elf i = elf + rd32 m (elf + 32) + of_nat i * ucast (rd16 m (elf + 46))"

definition kernel_map_step :: "mem \<Rightarrow> addr \<Rightarrow> nat \<Rightarrow> u32 \<times> u32 \<Rightarrow> u32 \<times> u32" where
  "kernel_map_step m elf i = (\<lambda>(b, t).
     let sh = section_hdr m elf i in
     if rd32 m (sh + 8) AND SHF_ALLOC \<noteq> 0 then
       let bottom = rd32 m (sh + 12); top = rd32 m (sh + 12) + rd32 m (sh + 20) in
       (if b > bottom then bottom else b, if t < top then top else t)
     else (b, t))"

definition get_kernel_map :: "('a kstate_scheme, (u32 \<times> u32) option) op" where
  "get_kernel_map =
     bindE get_boot_params (\<lambda>(_, elf).
     bindE (getsE kmem) (\<lambda>m.
     if mem_bytes m elf 4 \<noteq> [0x7F, 0x45, 0x4C, 0x46] then ret None
     else
       let (b, t) = fold (kernel_map_step m elf) [0..<unat (rd16 m (elf + 48))] (NOT 0, 0) in
       bindE (assertE ''*b<t'' (\<lambda>_. b < t)) (\<lambda>_.
       ret (Some (b, t - b - 1)))))"

subsection \<open>tinix_main\<close>

record task =
  initial_eip :: entry_point
  stacksize :: u32
  t_name :: "byte list"

abbreviation (input) STACK_SIZE_DEFAULT :: u32 where "STACK_SIZE_DEFAULT \<equiv> 0x4000"
abbreviation (input) STACK_SIZE_TOTAL :: u32 where "STACK_SIZE_TOTAL \<equiv> 0x24000"

definition task_table :: "task list" where
  "task_table = map (\<lambda>(e, n). \<lparr> initial_eip = e, stacksize = STACK_SIZE_DEFAULT, t_name = ascii n \<rparr>)
     [(E_task_tty, ''tty''), (E_task_sys, ''sys''), (E_task_hd, ''hd''), (E_task_fs, ''fs''), (E_task_mm, ''mm'')]"

definition user_proc_table :: "task list" where
  "user_proc_table = map (\<lambda>(e, n). \<lparr> initial_eip = e, stacksize = STACK_SIZE_DEFAULT, t_name = ascii n \<rparr>)
     [(E_Init, ''Init''), (E_TestA, ''TestA''), (E_TestB, ''TestB''), (E_TestC, ''TestC'')]"

text \<open>Task, privilege and requested privilege level, flags and priority of entry \<open>i\<close>.\<close>

definition boot_task :: "int \<Rightarrow> task \<times> byte \<times> u32 \<times> u32 \<times> int" where
  "boot_task i = (if i < NR_TASKS then (task_table ! nat i, PRIVILEGE_TASK, 1, 0x1202, 100)
     else (user_proc_table ! nat (i - NR_TASKS), PRIVILEGE_USER, 3, 0x0202, 3))"

definition boot_ldts :: "task \<Rightarrow> byte \<Rightarrow> ('a bstate_scheme, descriptor \<times> descriptor) op" where
  "boot_ldts tk privilege =
     (if t_name tk \<noteq> ascii ''Init'' then
        bindE (getsE gdt_table) (\<lambda>gdt.
        ret ((gdt 1)\<lparr>attr1 := ucast (DA_C OR push_bit 5 (ucast privilege))\<rparr>,
             (gdt 2)\<lparr>attr1 := ucast (DA_DRW OR push_bit 5 (ucast privilege))\<rparr>))
      else
        bindE get_kernel_map (\<lambda>r. case r of
          None \<Rightarrow> fail (Assert ''ret == 0'')
        | Some (k_base, k_limit) \<Rightarrow>
            ret (init_descriptor 0 (drop_bit LIMIT_4K_SHIFT (k_base + k_limit))
                   (DA_32 OR DA_LIMIT_4K OR DA_C OR push_bit 5 (ucast privilege)),
                 init_descriptor 0 (drop_bit LIMIT_4K_SHIFT (k_base + k_limit))
                   (DA_32 OR DA_LIMIT_4K OR DA_DRW OR push_bit 5 (ucast privilege)))))"

definition boot_regs :: "u32 \<Rightarrow> addr \<Rightarrow> addr \<Rightarrow> u32 \<Rightarrow> stackframe \<Rightarrow> stackframe" where
  "boot_regs rpl eip stack eflags r =
     r\<lparr>reg_cs := 0x0 OR 4 OR rpl, reg_ds := 0x8 OR 4 OR rpl, reg_es := 0x8 OR 4 OR rpl,
       reg_fs := 0x8 OR 4 OR rpl, reg_ss := 0x8 OR 4 OR rpl, reg_gs := (0x1B AND 0xFFFC) OR rpl,
       reg_eip := eip, reg_esp := stack, reg_eflags := eflags\<rparr>"

definition boot_entry :: "link \<Rightarrow> int \<Rightarrow> addr \<Rightarrow> descriptor \<times> descriptor \<Rightarrow> proc \<Rightarrow> proc" where
  "boot_entry lk i stack = (\<lambda>(c, rw) p.
     let (tk, privilege, rpl, eflags, prio) = boot_task i in
     p\<lparr>p_name := t_name tk, pid := i, p_parent := 0,
       ldts := (ldts p)(INDEX_LDT_C := c, INDEX_LDT_RW := rw),
       regs := boot_regs rpl (entry_addr lk (initial_eip tk)) stack eflags (regs p),
       is_msg_critical_allowed := 1, p_flags := 0, p_msg := 0, p_recvfrom := NO_TASK, p_sendto := NO_TASK,
       has_int_msg := 0, q_sending := None, next_sending := None, p_ticks := prio, priority := prio,
       filp := (\<lambda>j. if j < NR_FILES then None else filp p j)\<rparr>)"

text \<open>The loop over the table; \<open>stack\<close> is \<open>p_task_stack\<close>, the top of the stack still free.\<close>

fun boot_procs :: "link \<Rightarrow> int list \<Rightarrow> addr \<Rightarrow> ('a bstate_scheme, unit) op" where
  "boot_procs lk [] stack = ret ()"
| "boot_procs lk (i # is) stack =
     (if i \<ge> NR_TASKS + NR_NATIVE_PROCS then
        bindE (updP i (\<lambda>p. p\<lparr>p_flags := FREE_SLOT\<rparr>)) (\<lambda>_. boot_procs lk is stack)
      else
        bindE (boot_ldts (fst (boot_task i)) (fst (snd (boot_task i)))) (\<lambda>d.
        bindE (updP i (boot_entry lk i stack d)) (\<lambda>_.
        boot_procs lk is (stack - stacksize (fst (boot_task i))))))"

definition set_proc_prio :: "int \<Rightarrow> int \<Rightarrow> ('a kstate_scheme, unit) op" where
  "set_proc_prio i myprio = updP i (\<lambda>p. p\<lparr>p_ticks := myprio, priority := myprio\<rparr>)"

definition shutdown_proc :: "int \<Rightarrow> ('a kstate_scheme, unit) op" where
  "shutdown_proc n = updP n (\<lambda>p. p\<lparr>p_ticks := 0, priority := 0\<rparr>)"

definition tinix_main :: "link \<Rightarrow> hardware \<Rightarrow> ('a bstate_scheme, unit) op" where
  "tinix_main lk hw = blockE [
     boot_procs lk proc_list (task_stack lk + STACK_SIZE_TOTAL),
     modE (\<lambda>s. s\<lparr>k_reenter := 0\<rparr>),
     modE (\<lambda>s. s\<lparr>kticks := 0\<rparr>),
     modE (\<lambda>s. s\<lparr>p_proc_ready := 0\<rparr>),
     shutdown_proc 6, shutdown_proc 7, shutdown_proc 8,
     init_clock hw, init_keyboard hw]"

subsection \<open>The table after \<open>init_prot\<close>\<close>

lemma gdtE_apply: "gdtE m s = (case m (gdt_table s) of Inl e \<Rightarrow> Inl e | Inr (_, g) \<Rightarrow> Inr ((), s\<lparr>gdt_table := g\<rparr>))"
  by (simp add: gdtE_def)

lemma init_prot_loop:
  assumes "\<forall>i \<in> set is. i < NR_PROCS_nat"
  shows "\<exists>g. forE is (init_prot_proc lk) s = Inr ((), s\<lparr>proc_table := (\<lambda>i. if 0 \<le> i \<and> nat i \<in> set is
       then zero_proc\<lparr>ldt_sel := ldt_sel_of (nat i)\<rparr> else proc_table s i), gdt_table := g\<rparr>) \<and>
     (\<forall>j < INDEX_LDT_FIRST. g j = gdt_table s j)"
  using assms
proof (induction "is" arbitrary: s)
  case Nil
  then show ?case by (intro exI[of _ "gdt_table s"]) (simp add: op_defs)
next
  case (Cons i "is")
  let ?g = "(gdt_table s)(INDEX_LDT_FIRST + i :=
    init_descriptor (virt2linear (gdt_table s) SELECTOR_KERNEL_DS (ldts_addr lk i)) (2 * 8 - 1) DA_LDT)"
  let ?s = "s\<lparr>proc_table := (proc_table s)(int i := zero_proc\<lparr>ldt_sel := ldt_sel_of i\<rparr>), gdt_table := ?g\<rparr>"
  have "INDEX_LDT_FIRST + i < GDT_SIZE" using Cons.prems by simp
  then have first: "init_prot_proc lk i s = Inr ((), ?s)"
    by (simp add: init_prot_proc_def bindE_def op_defs updP_apply gdtE_apply)
  have "\<forall>i \<in> set is. i < NR_PROCS_nat" using Cons.prems by simp
  from Cons.IH[OF this, of ?s] obtain g where
    g: "forE is (init_prot_proc lk) ?s = Inr ((), ?s\<lparr>proc_table := (\<lambda>i. if 0 \<le> i \<and> nat i \<in> set is
       then zero_proc\<lparr>ldt_sel := ldt_sel_of (nat i)\<rparr> else proc_table ?s i), gdt_table := g\<rparr>)"
      "\<forall>j < INDEX_LDT_FIRST. g j = gdt_table ?s j" by blast
  have "forE (i # is) (init_prot_proc lk) s = Inr ((), ?s\<lparr>proc_table := (\<lambda>i. if 0 \<le> i \<and> nat i \<in> set is
       then zero_proc\<lparr>ldt_sel := ldt_sel_of (nat i)\<rparr> else proc_table ?s i), gdt_table := g\<rparr>)"
    using first g(1) by simp
  moreover have "(\<lambda>j. if 0 \<le> j \<and> nat j \<in> set is then zero_proc\<lparr>ldt_sel := ldt_sel_of (nat j)\<rparr> else proc_table ?s j) =
    (\<lambda>j. if 0 \<le> j \<and> nat j \<in> set (i # is) then zero_proc\<lparr>ldt_sel := ldt_sel_of (nat j)\<rparr> else proc_table s j)"
    by (rule ext) auto
  ultimately show ?case using g(2) by (intro exI[of _ g]) simp
qed

lemma init_prot_ok:
  obtains t where "init_prot lk s = Inr ((), t)" "kmem t = kmem s" "kb_in t = kb_in s"
    "\<forall>i \<in> pids. proc_table t i = zero_proc\<lparr>ldt_sel := ldt_sel_of (nat i)\<rparr>"
    "\<forall>j < INDEX_TSS. gdt_table t j = gdt_table s j"
    "last_out INT_M_CTLMASK (io_log t) = Some 0xFF" "last_out INT_S_CTLMASK (io_log t) = Some 0xFF"
    "\<forall>j < NR_IRQ. irq_table t j = Spurious_irq"
proof -
  obtain a where a: "init_8259A s = Inr ((), a)" "last_out INT_M_CTLMASK (io_log a) = Some 0xFF"
    "last_out INT_S_CTLMASK (io_log a) = Some 0xFF" "\<forall>j < NR_IRQ. irq_table a j = Spurious_irq"
    "kmem a = kmem s" "gdt_table a = gdt_table s" "kb_in a = kb_in s"
    by (simp add: init_8259A_ok)
  let ?b = "a\<lparr>idt_table := init_prot_idt (handler_addr lk) (idt_table a), tss_ss0 := ucast SELECTOR_KERNEL_DS,
    gdt_table := (gdt_table a)(INDEX_TSS := init_descriptor
      (virt2linear (gdt_table a) SELECTOR_KERNEL_DS (tss_addr lk)) (TSS_SIZE - 1) DA_386TSS),
    tss_iobase := ucast TSS_SIZE\<rparr>"
  have "\<forall>i \<in> set [0..<NR_PROCS_nat]. i < NR_PROCS_nat" by simp
  from init_prot_loop[OF this, of lk ?b] obtain g where
    g: "forE [0..<NR_PROCS_nat] (init_prot_proc lk) ?b = Inr ((), ?b\<lparr>proc_table :=
         (\<lambda>i. if 0 \<le> i \<and> nat i \<in> set [0..<NR_PROCS_nat] then zero_proc\<lparr>ldt_sel := ldt_sel_of (nat i)\<rparr>
          else proc_table ?b i), gdt_table := g\<rparr>)" "\<forall>j < INDEX_LDT_FIRST. g j = gdt_table ?b j"
    by blast
  let ?t = "?b\<lparr>proc_table := (\<lambda>i. if 0 \<le> i \<and> nat i \<in> set [0..<NR_PROCS_nat]
    then zero_proc\<lparr>ldt_sel := ldt_sel_of (nat i)\<rparr> else proc_table ?b i), gdt_table := g\<rparr>"
  have "init_prot lk s = Inr ((), ?t)"
    unfolding init_prot_def using a(1) g(1) by (simp add: op_defs gdtE_apply del: forE.simps)
  moreover have "\<forall>i \<in> pids. proc_table ?t i = zero_proc\<lparr>ldt_sel := ldt_sel_of (nat i)\<rparr>"
    by (auto simp: pids_def nat_less_iff)
  moreover have "\<forall>j < INDEX_TSS. gdt_table ?t j = gdt_table s j" using g(2) a(6) by simp
  ultimately show ?thesis using a by (intro that[of ?t]) simp_all
qed

subsection \<open>What the map of the kernel covers\<close>

definition allocated :: "mem \<Rightarrow> addr \<Rightarrow> nat \<Rightarrow> bool" where
  "allocated m elf i = (rd32 m (section_hdr m elf i + 8) AND SHF_ALLOC \<noteq> 0)"

definition sh_bottom :: "mem \<Rightarrow> addr \<Rightarrow> nat \<Rightarrow> u32" where
  "sh_bottom m elf i = rd32 m (section_hdr m elf i + 12)"

definition sh_top :: "mem \<Rightarrow> addr \<Rightarrow> nat \<Rightarrow> u32" where
  "sh_top m elf i = rd32 m (section_hdr m elf i + 12) + rd32 m (section_hdr m elf i + 20)"

text \<open>
  What the loader leaves: the boot parameters, and an ELF file with a section to load, every
  such section neither empty nor beyond the end of the address space.
\<close>

definition kernel_ok :: "mem \<Rightarrow> bool" where
  "kernel_ok m = (rd32 m 0x900 = 0xB007 \<and>
     (let elf = rd32 m 0x908; n = unat (rd16 m (elf + 48)) in
        elf \<noteq> 0 \<and> mem_bytes m elf 4 = [0x7F, 0x45, 0x4C, 0x46] \<and> (\<exists>i < n. allocated m elf i) \<and>
        (\<forall>i < n. allocated m elf i \<longrightarrow> sh_bottom m elf i < sh_top m elf i)))"

lemma kernel_map_fold:
  assumes "fold (kernel_map_step m elf) is (b, t) = (b', t')"
  shows "b' \<le> b \<and> t \<le> t' \<and>
    (\<forall>i \<in> set is. allocated m elf i \<longrightarrow> b' \<le> sh_bottom m elf i \<and> sh_top m elf i \<le> t')"
  using assms
proof (induction "is" arbitrary: b t)
  case Nil
  then show ?case by simp
next
  case (Cons i "is")
  obtain b1 t1 where s: "kernel_map_step m elf i (b, t) = (b1, t1)" by fastforce
  then have f: "fold (kernel_map_step m elf) is (b1, t1) = (b', t')" using Cons.prems by simp
  have "b1 \<le> b \<and> t \<le> t1 \<and> (allocated m elf i \<longrightarrow> b1 \<le> sh_bottom m elf i \<and> sh_top m elf i \<le> t1)"
    using s by (auto simp: kernel_map_step_def Let_def allocated_def sh_bottom_def sh_top_def split: if_splits)
  then show ?case using Cons.IH[OF f] by auto
qed

lemma get_kernel_map_ok:
  assumes "kernel_ok (kmem s)"
  obtains b t where "\<And>x. get_kernel_map (s\<lparr>proc_table := x\<rparr>) = Inr (Some (b, t - b - 1), s\<lparr>proc_table := x\<rparr>)" "b < t"
    "\<forall>i < unat (rd16 (kmem s) (rd32 (kmem s) 0x908 + 48)). allocated (kmem s) (rd32 (kmem s) 0x908) i \<longrightarrow>
       b \<le> sh_bottom (kmem s) (rd32 (kmem s) 0x908) i \<and> sh_top (kmem s) (rd32 (kmem s) 0x908) i \<le> t"
proof -
  let ?m = "kmem s" let ?elf = "rd32 ?m 0x908" let ?n = "unat (rd16 ?m (?elf + 48))"
  have k: "rd32 ?m 0x900 = 0xB007" "?elf \<noteq> 0" "mem_bytes ?m ?elf 4 = [0x7F, 0x45, 0x4C, 0x46]"
    "\<exists>i < ?n. allocated ?m ?elf i" "\<forall>i < ?n. allocated ?m ?elf i \<longrightarrow> sh_bottom ?m ?elf i < sh_top ?m ?elf i"
    using assms by (simp_all add: kernel_ok_def Let_def)
  obtain b t where f: "fold (kernel_map_step ?m ?elf) [0..<?n] (NOT 0, 0) = (b, t)" by fastforce
  have c: "\<forall>i < ?n. allocated ?m ?elf i \<longrightarrow> b \<le> sh_bottom ?m ?elf i \<and> sh_top ?m ?elf i \<le> t"
    using kernel_map_fold[OF f] by simp
  then have "b < t" using k(4,5) by (meson le_less_trans less_le_trans)
  moreover have "get_kernel_map (s\<lparr>proc_table := x\<rparr>) = Inr (Some (b, t - b - 1), s\<lparr>proc_table := x\<rparr>)" for x
    using k f \<open>b < t\<close> by (simp add: get_kernel_map_def get_boot_params_def bindE_def op_defs Let_def)
  ultimately show ?thesis using c that by blast
qed

subsection \<open>The table after \<open>tinix_main\<close>\<close>

lemma boot_task_fields:
  assumes "i \<in> {0..<NR_TASKS + NR_NATIVE_PROCS}"
  shows "stacksize (fst (boot_task i)) = STACK_SIZE_DEFAULT"
    "t_name (fst (boot_task i)) = ascii ''Init'' \<longleftrightarrow> i = INIT"
    "fst (snd (boot_task i)) = (if i < NR_TASKS then PRIVILEGE_TASK else PRIVILEGE_USER)"
    "snd (snd (snd (snd (boot_task i)))) = (if i < NR_TASKS then 100 else 3)"
proof -
  have "i \<in> {0, 1, 2, 3, 4, 5, 6, 7, 8}" using assms by auto
  then show "stacksize (fst (boot_task i)) = STACK_SIZE_DEFAULT"
    "t_name (fst (boot_task i)) = ascii ''Init'' \<longleftrightarrow> i = INIT"
    "fst (snd (boot_task i)) = (if i < NR_TASKS then PRIVILEGE_TASK else PRIVILEGE_USER)"
    "snd (snd (snd (snd (boot_task i)))) = (if i < NR_TASKS then 100 else 3)"
    by (auto simp: boot_task_def task_table_def user_proc_table_def ascii_def)
qed

definition boot_desc :: "gdt \<Rightarrow> u32 \<Rightarrow> int \<Rightarrow> descriptor \<times> descriptor" where
  "boot_desc gdt limit i =
     (let privilege = (if i < NR_TASKS then PRIVILEGE_TASK else PRIVILEGE_USER) in
      if i \<noteq> INIT then ((gdt 1)\<lparr>attr1 := ucast (DA_C OR push_bit 5 (ucast privilege))\<rparr>,
             (gdt 2)\<lparr>attr1 := ucast (DA_DRW OR push_bit 5 (ucast privilege))\<rparr>)
      else (init_descriptor 0 (drop_bit LIMIT_4K_SHIFT limit) (DA_32 OR DA_LIMIT_4K OR DA_C OR push_bit 5 (ucast privilege)),
            init_descriptor 0 (drop_bit LIMIT_4K_SHIFT limit) (DA_32 OR DA_LIMIT_4K OR DA_DRW OR push_bit 5 (ucast privilege))))"

lemma boot_ldts_ok:
  assumes "i \<in> {0..<NR_TASKS + NR_NATIVE_PROCS}" "get_kernel_map s = Inr (Some (b, l), s)"
  shows "boot_ldts (fst (boot_task i)) (fst (snd (boot_task i))) s = Inr (boot_desc (gdt_table s) (b + l) i, s)"
  using assms boot_task_fields(2,3)[OF assms(1)]
  by (cases "i = INIT") (simp_all add: boot_ldts_def boot_desc_def op_defs Let_def)

lemma boot_procs_natives:
  assumes "\<And>x. get_kernel_map (s\<lparr>proc_table := x\<rparr>) = Inr (Some (b, l), s\<lparr>proc_table := x\<rparr>)"
    "set is \<subseteq> {0..<NR_TASKS + NR_NATIVE_PROCS}" "distinct is"
  shows "boot_procs lk (is @ js) stack (s\<lparr>proc_table := x\<rparr>) =
    boot_procs lk js (stack - of_nat (length is) * STACK_SIZE_DEFAULT) (s\<lparr>proc_table := (\<lambda>i.
      if i \<in> set is then boot_entry lk i (stack - of_nat (length (takeWhile (\<lambda>j. j \<noteq> i) is)) * STACK_SIZE_DEFAULT)
        (boot_desc (gdt_table s) (b + l) i) (x i) else x i)\<rparr>)"
  using assms(2,3)
proof (induction "is" arbitrary: stack x)
  case Nil
  then show ?case by simp
next
  case (Cons i "is")
  let ?x = "x(i := boot_entry lk i stack (boot_desc (gdt_table s) (b + l) i) (x i))"
  have i: "i \<in> {0..<NR_TASKS + NR_NATIVE_PROCS}" using Cons.prems by simp
  have "boot_procs lk ((i # is) @ js) stack (s\<lparr>proc_table := x\<rparr>) =
    boot_procs lk (is @ js) (stack - STACK_SIZE_DEFAULT) (s\<lparr>proc_table := ?x\<rparr>)"
    using i boot_ldts_ok[OF i assms(1)[of x]] boot_task_fields(1)[OF i] by (simp add: updP_apply)
  also have "\<dots> = boot_procs lk js (stack - STACK_SIZE_DEFAULT - of_nat (length is) * STACK_SIZE_DEFAULT)
    (s\<lparr>proc_table := (\<lambda>j. if j \<in> set is then boot_entry lk j (stack - STACK_SIZE_DEFAULT -
        of_nat (length (takeWhile (\<lambda>k. k \<noteq> j) is)) * STACK_SIZE_DEFAULT) (boot_desc (gdt_table s) (b + l) j) (?x j) else ?x j)\<rparr>)"
    by (rule Cons.IH) (use Cons.prems in auto)
  also have "(\<lambda>j. if j \<in> set is then boot_entry lk j (stack - STACK_SIZE_DEFAULT -
        of_nat (length (takeWhile (\<lambda>k. k \<noteq> j) is)) * STACK_SIZE_DEFAULT) (boot_desc (gdt_table s) (b + l) j) (?x j) else ?x j) =
    (\<lambda>j. if j \<in> set (i # is) then boot_entry lk j (stack -
        of_nat (length (takeWhile (\<lambda>k. k \<noteq> j) (i # is))) * STACK_SIZE_DEFAULT) (boot_desc (gdt_table s) (b + l) j) (x j) else x j)"
    using Cons.prems by (auto simp: fun_eq_iff algebra_simps)
  finally show ?case by (simp add: algebra_simps)
qed

lemma boot_procs_free:
  assumes "\<forall>i \<in> set is. NR_TASKS + NR_NATIVE_PROCS \<le> i"
  shows "boot_procs lk is stack (s\<lparr>proc_table := x\<rparr>) = Inr ((), s\<lparr>proc_table := (\<lambda>i.
    if i \<in> set is then (x i)\<lparr>p_flags := FREE_SLOT\<rparr> else x i)\<rparr>)"
  using assms
proof (induction "is" arbitrary: x)
  case Nil
  then show ?case by (simp add: op_defs)
next
  case (Cons i "is")
  let ?x = "x(i := (x i)\<lparr>p_flags := FREE_SLOT\<rparr>)"
  have "boot_procs lk (i # is) stack (s\<lparr>proc_table := x\<rparr>) = boot_procs lk is stack (s\<lparr>proc_table := ?x\<rparr>)"
    using Cons.prems by (simp add: updP_apply)
  also have "\<dots> = Inr ((), s\<lparr>proc_table := (\<lambda>j. if j \<in> set is then (?x j)\<lparr>p_flags := FREE_SLOT\<rparr> else ?x j)\<rparr>)"
    using Cons.IH Cons.prems by simp
  also have "(\<lambda>j. if j \<in> set is then (?x j)\<lparr>p_flags := FREE_SLOT\<rparr> else ?x j) =
    (\<lambda>j. if j \<in> set (i # is) then (x j)\<lparr>p_flags := FREE_SLOT\<rparr> else x j)" by (rule ext) auto
  finally show ?case .
qed

text \<open>The table of \<open>tinix_main\<close>, entry by entry, over a table \<open>x\<close> before it.\<close>

definition boot_table :: "link \<Rightarrow> gdt \<Rightarrow> u32 \<Rightarrow> proc_tab \<Rightarrow> proc_tab" where
  "boot_table lk gdt limit x = (\<lambda>i. if i \<notin> pids then x i
     else if i < NR_TASKS + NR_NATIVE_PROCS then
       boot_entry lk i (task_stack lk + STACK_SIZE_TOTAL - u32_int i * STACK_SIZE_DEFAULT) (boot_desc gdt limit i) (x i)
     else (x i)\<lparr>p_flags := FREE_SLOT\<rparr>)"

lemma proc_list_split: "proc_list = [0..8] @ [9..36]"
  unfolding proc_list_def by (simp add: upto_split2[of 0 8 36])

lemma takeWhile_upto: "0 \<le> i \<Longrightarrow> i \<le> n \<Longrightarrow> length (takeWhile (\<lambda>j. j \<noteq> i) [0..n]) = nat i"
proof -
  assume i: "0 \<le> i" "i \<le> n"
  have "takeWhile (\<lambda>j. j \<noteq> i) ([0..i - 1] @ [i..n]) = [0..i - 1] @ takeWhile (\<lambda>j. j \<noteq> i) [i..n]"
    by (rule takeWhile_append2) simp
  moreover have "[0..n] = [0..i - 1] @ [i..n]" using i by (simp add: upto_split1)
  moreover have "takeWhile (\<lambda>j. j \<noteq> i) [i..n] = []" using i by (simp add: upto_rec1)
  ultimately show ?thesis by simp
qed

lemma boot_procs_ok:
  assumes "\<And>x. get_kernel_map (s\<lparr>proc_table := x\<rparr>) = Inr (Some (b, l), s\<lparr>proc_table := x\<rparr>)"
  shows "boot_procs lk proc_list (task_stack lk + STACK_SIZE_TOTAL) s =
    Inr ((), s\<lparr>proc_table := boot_table lk (gdt_table s) (b + l) (proc_table s)\<rparr>)"
proof -
  let ?x = "proc_table s" let ?st = "task_stack lk + STACK_SIZE_TOTAL"
  let ?y = "\<lambda>i. if i \<in> set [0..8] then boot_entry lk i (?st - of_nat (length (takeWhile (\<lambda>j. j \<noteq> i) [0..8])) * STACK_SIZE_DEFAULT)
        (boot_desc (gdt_table s) (b + l) i) (?x i) else ?x i"
  have "set [0..8] \<subseteq> {0..<NR_TASKS + NR_NATIVE_PROCS}" "distinct [0..8::int]" by auto
  from boot_procs_natives[OF assms this, of lk "[9..36]" ?st ?x]
  have "boot_procs lk proc_list ?st s = boot_procs lk [9..36] (?st - of_nat (length [0..8::int]) * STACK_SIZE_DEFAULT) (s\<lparr>proc_table := ?y\<rparr>)"
    unfolding proc_list_split by simp
  also have "\<dots> = Inr ((), s\<lparr>proc_table := (\<lambda>i. if i \<in> set [9..36] then (?y i)\<lparr>p_flags := FREE_SLOT\<rparr> else ?y i)\<rparr>)"
    by (rule boot_procs_free) simp
  also have "(\<lambda>i. if i \<in> set [9..36] then (?y i)\<lparr>p_flags := FREE_SLOT\<rparr> else ?y i) = boot_table lk (gdt_table s) (b + l) ?x"
  proof (rule ext)
    fix i
    have len: "0 \<le> i \<and> i \<le> 8 \<Longrightarrow> word_of_nat (length (takeWhile (\<lambda>j. j \<noteq> i) [0..8])) = u32_int i"
      using takeWhile_upto[of i 8] by (simp add: u32_int_def del: upto_rec_numeral)
    have sets: "i \<in> set [9..36] \<longleftrightarrow> 9 \<le> i \<and> i \<le> 36" "i \<in> set [0..8] \<longleftrightarrow> 0 \<le> i \<and> i \<le> 8"
      by (simp_all only: set_upto atLeastAtMost_iff)
    have pid: "i \<in> pids \<longleftrightarrow> 0 \<le> i \<and> i < 37" by (simp add: pids_def)
    show "(if i \<in> set [9..36] then (?y i)\<lparr>p_flags := FREE_SLOT\<rparr> else ?y i) = boot_table lk (gdt_table s) (b + l) ?x i"
      unfolding boot_table_def sets pid using len by (simp del: upto_rec_numeral)
  qed
  finally show ?thesis .
qed

subsection \<open>The interrupt lines of the clock and the keyboard\<close>

lemma install_irq:
  assumes "pic_ok hw" "last_out (ctlmask i) (io_log s) = Some v" "v AND irq_bit i \<noteq> 0" "i < NR_IRQ"
  obtains l where "bindE (put_irq_handler hw i h) (\<lambda>_. enable_irq hw i) s =
      Inr ((), s\<lparr>io_log := l, irq_table := (irq_table s)(i := h)\<rparr>)"
    "\<And>j x. j < NR_IRQ \<Longrightarrow> masked (s\<lparr>io_log := l, irq_table := x\<rparr>) j = (j \<noteq> i \<and> masked s j)"
    "last_out (ctlmask i) l = Some (v AND NOT (irq_bit i))"
proof -
  let ?c = "s\<lparr>io_log := In (ctlmask i) # io_log s, irq_table := (irq_table s)(i := h)\<rparr>"
  let ?l = "Out (ctlmask i) (v AND NOT (irq_bit i)) # In (ctlmask i) # In (ctlmask i) # io_log s"
  have put: "put_irq_handler hw i h s = Inr ((), ?c)"
    using irq_line_disabled[OF assms(1-3)] assms(4) by (simp add: put_irq_handler_def bindE_def op_defs)
  have lc: "last_out (ctlmask i) (io_log ?c) = Some v" using assms(2) by simp
  have en: "enable_irq hw i ?c = Inr ((), ?c\<lparr>io_log := ?l\<rparr>)"
    using pic_okD[OF assms(1) lc] by (simp add: enable_irq_def bindE_def io_defs)
  have "masked (s\<lparr>io_log := ?l, irq_table := x\<rparr>) j = (j \<noteq> i \<and> masked s j)" if j: "j < NR_IRQ" for j x
  proof -
    obtain t where "enable_irq hw i ?c = Inr ((), t)" "masked t j = (j \<noteq> i \<and> masked ?c j)"
      by (rule enable_irq_masks[OF assms(1) lc assms(4) j]) blast
    then have "masked (?c\<lparr>io_log := ?l\<rparr>) j = (j \<noteq> i \<and> masked ?c j)" using en by simp
    then show ?thesis by (simp add: masked_def)
  qed
  then show ?thesis using put en by (intro that[of ?l]) simp_all
qed

text \<open>
  The documented behaviour of the 8042: its input buffer empties, and the keyboard answers a
  byte written to it with an acknowledgement.
\<close>

definition kbc_ok :: "hardware \<Rightarrow> bool" where
  "kbc_ok hw = (\<forall>l. (\<exists>n. hw (replicate n (In PORT_8042_CONTROL) @ l) PORT_8042_CONTROL AND 0x02 = 0) \<and>
     (\<forall>v. \<exists>n. hw (replicate n (In PORT_8042_DATA) @ Out PORT_8042_DATA v # l) PORT_8042_DATA = KB_ACK))"

lemma poll_loop_ends:
  "ready (hw (replicate n (In p) @ l) p) \<Longrightarrow> \<exists>k. poll_loop hw p ready l = Some (replicate k (In p) @ l)"
proof (induction n arbitrary: l)
  case 0
  then show ?case by (intro exI[of _ 1]) (simp add: poll_loop.simps)
next
  case (Suc n)
  show ?case
  proof (cases "ready (hw l p)")
    case True
    then show ?thesis by (intro exI[of _ 1]) (simp add: poll_loop.simps)
  next
    case False
    have "replicate (Suc n) (In p) @ l = replicate n (In p) @ In p # l"
      by (metis append.assoc append_Cons append_Nil replicate_Suc replicate_append_same)
    then have "ready (hw (replicate n (In p) @ In p # l) p)" using Suc.prems by simp
    from Suc.IH[OF this] obtain k where "poll_loop hw p ready (In p # l) = Some (replicate k (In p) @ In p # l)" ..
    moreover have "replicate k (In p) @ In p # l = replicate (Suc k) (In p) @ l"
      by (metis append.assoc append_Cons append_Nil replicate_Suc replicate_append_same)
    ultimately show ?thesis using False by (metis poll_loop.simps)
  qed
qed

lemma last_out_ins [simp]: "last_out q (replicate k (In p) @ l) = last_out q l"
  by (induction k) auto

lemma set_leds_ok:
  assumes "kbc_ok hw"
  obtains l where "set_leds hw s = Inr ((), s\<lparr>io_log := l\<rparr>)" "\<And>p. p \<noteq> PORT_8042_DATA \<Longrightarrow> last_out p l = last_out p (io_log s)"
proof -
  have wait: "\<exists>k. kb_wait hw x = Inr ((), x\<lparr>io_log := replicate k (In PORT_8042_CONTROL) @ io_log x\<rparr>)" for x :: "'a tstate_scheme"
  proof -
    obtain n where "hw (replicate n (In PORT_8042_CONTROL) @ io_log x) PORT_8042_CONTROL AND 0x02 = 0"
      using assms unfolding kbc_ok_def by blast
    then have "\<exists>k. poll_loop hw PORT_8042_CONTROL (\<lambda>b. b AND 0x02 = 0) (io_log x) =
      Some (replicate k (In PORT_8042_CONTROL) @ io_log x)" by (rule poll_loop_ends)
    then show ?thesis by (auto simp: kb_wait_def poll_def)
  qed
  have send: "\<exists>l. bindE (out_byte PORT_8042_DATA v) (\<lambda>_. kb_ack hw) x = Inr ((), x\<lparr>io_log := l\<rparr>) \<and>
     (\<forall>p. p \<noteq> PORT_8042_DATA \<longrightarrow> last_out p l = last_out p (io_log x))" for x :: "'a tstate_scheme" and v
  proof -
    obtain n where "hw (replicate n (In PORT_8042_DATA) @ Out PORT_8042_DATA v # io_log x) PORT_8042_DATA = KB_ACK"
      using assms unfolding kbc_ok_def by blast
    then have "\<exists>k. poll_loop hw PORT_8042_DATA (\<lambda>b. b = KB_ACK) (Out PORT_8042_DATA v # io_log x) =
       Some (replicate k (In PORT_8042_DATA) @ Out PORT_8042_DATA v # io_log x)" by (rule poll_loop_ends)
    then obtain k where "poll_loop hw PORT_8042_DATA (\<lambda>b. b = KB_ACK) (Out PORT_8042_DATA v # io_log x) =
       Some (replicate k (In PORT_8042_DATA) @ Out PORT_8042_DATA v # io_log x)" ..
    then show ?thesis
      by (intro exI[of _ "replicate k (In PORT_8042_DATA) @ Out PORT_8042_DATA v # io_log x"])
        (simp add: kb_ack_def poll_def bindE_def io_defs)
  qed
  have round: "\<exists>l. bindE (kb_wait hw) (\<lambda>_. bindE (out_byte PORT_8042_DATA v) (\<lambda>_. kb_ack hw)) x = Inr ((), x\<lparr>io_log := l\<rparr>) \<and>
     (\<forall>p. p \<noteq> PORT_8042_DATA \<longrightarrow> last_out p l = last_out p (io_log x))" for x :: "'a tstate_scheme" and v
  proof -
    obtain k where k: "kb_wait hw x = Inr ((), x\<lparr>io_log := replicate k (In PORT_8042_CONTROL) @ io_log x\<rparr>)" using wait by blast
    from send[of v "x\<lparr>io_log := replicate k (In PORT_8042_CONTROL) @ io_log x\<rparr>"] show ?thesis using k by auto
  qed
  obtain l where l: "bindE (kb_wait hw) (\<lambda>_. bindE (out_byte PORT_8042_DATA LED_CODE) (\<lambda>_. kb_ack hw)) s = Inr ((), s\<lparr>io_log := l\<rparr>)"
    "\<forall>p. p \<noteq> PORT_8042_DATA \<longrightarrow> last_out p l = last_out p (io_log s)" using round by blast
  obtain l2 where l2: "bindE (kb_wait hw) (\<lambda>_. bindE (out_byte PORT_8042_DATA (leds s)) (\<lambda>_. kb_ack hw)) (s\<lparr>io_log := l\<rparr>) = Inr ((), s\<lparr>io_log := l2\<rparr>)"
    "\<forall>p. p \<noteq> PORT_8042_DATA \<longrightarrow> last_out p l2 = last_out p l" using round[of "leds s" "s\<lparr>io_log := l\<rparr>"] by auto
  have "set_leds hw s = bindE (bindE (kb_wait hw) (\<lambda>_. bindE (out_byte PORT_8042_DATA LED_CODE) (\<lambda>_. kb_ack hw)))
     (\<lambda>_. bindE (bindE (kb_wait hw) (\<lambda>_. bindE (out_byte PORT_8042_DATA (leds s)) (\<lambda>_. kb_ack hw))) ret) s"
    by (simp add: set_leds_def op_defs bindE_assoc)
  also have "\<dots> = Inr ((), s\<lparr>io_log := l2\<rparr>)" using l(1) l2(1) by (simp add: op_defs)
  finally show ?thesis using l(2) l2(2) by (intro that[of l2]) simp_all
qed

subsection \<open>The kernel that starts\<close>

lemma init_clock_install:
  assumes "pic_ok hw" "last_out INT_M_CTLMASK (io_log s) = Some 0xFF"
  obtains l where "init_clock hw s = Inr ((), s\<lparr>io_log := l, irq_table := (irq_table s)(CLOCK_IRQ := Clock_handler)\<rparr>)"
    "\<And>j x. j < NR_IRQ \<Longrightarrow> masked (s\<lparr>io_log := l, irq_table := x\<rparr>) j = (j \<noteq> CLOCK_IRQ \<and> masked s j)"
    "last_out INT_M_CTLMASK l = Some 0xFE"
proof -
  let ?s = "s\<lparr>io_log := [Out TIMER0 46, Out TIMER0 11931, Out TIMER_MODE RATE_GENERATOR] @ io_log s\<rparr>"
  have c: "ctlmask CLOCK_IRQ = INT_M_CTLMASK" by (simp add: ctlmask_def)
  have last: "last_out (ctlmask CLOCK_IRQ) (io_log ?s) = Some 0xFF" using assms(2) c by simp
  have bit: "(0xFF :: byte) AND irq_bit CLOCK_IRQ \<noteq> 0" "CLOCK_IRQ < NR_IRQ" by simp_all
  obtain l where l: "bindE (put_irq_handler hw CLOCK_IRQ Clock_handler) (\<lambda>_. enable_irq hw CLOCK_IRQ) ?s =
      Inr ((), ?s\<lparr>io_log := l, irq_table := (irq_table ?s)(CLOCK_IRQ := Clock_handler)\<rparr>)"
    "\<And>j x. j < NR_IRQ \<Longrightarrow> masked (?s\<lparr>io_log := l, irq_table := x\<rparr>) j = (j \<noteq> CLOCK_IRQ \<and> masked ?s j)"
    "last_out (ctlmask CLOCK_IRQ) l = Some (0xFF AND NOT (irq_bit CLOCK_IRQ))"
    by (rule install_irq[OF assms(1) last bit]) blast
  have m: "masked ?s j = masked s j" for j by (simp add: masked_def ctlmask_def)
  have "init_clock hw s = bindE (put_irq_handler hw CLOCK_IRQ Clock_handler) (\<lambda>_. bindE (enable_irq hw CLOCK_IRQ) ret) ?s"
    by (simp add: init_clock_def bindE_def io_defs)
  also have "\<dots> = bindE (bindE (put_irq_handler hw CLOCK_IRQ Clock_handler) (\<lambda>_. enable_irq hw CLOCK_IRQ)) ret ?s"
    by (simp add: bindE_assoc)
  also have "\<dots> = Inr ((), s\<lparr>io_log := l, irq_table := (irq_table s)(CLOCK_IRQ := Clock_handler)\<rparr>)"
    using l(1) by (simp add: op_defs)
  finally show ?thesis
    using l(2,3) m c by (intro that[of l]) (simp_all add: irq_bit_def)
qed

lemma init_keyboard_install:
  assumes "pic_ok hw" "kbc_ok hw" "last_out INT_M_CTLMASK (io_log s) = Some 0xFE"
    "length (r_buf (kb_in s)) = KB_IN_BYTES"
  obtains t where "init_keyboard hw s = Inr ((), t)" "proc_table t = proc_table s" "p_proc_ready t = p_proc_ready s"
    "kb_ok t" "kb_items t = []" "irq_table t = (irq_table s)(KEYBOARD_IRQ := Keyboard_handler)"
    "\<And>j. j < NR_IRQ \<Longrightarrow> masked t j = (j \<noteq> KEYBOARD_IRQ \<and> masked s j)"
proof -
  let ?a = "s\<lparr>kb_in := (kb_in s)\<lparr>r_count := 0, r_head := 0, r_tail := 0\<rparr>,
       shift_l := False, shift_r := False, alt_l := False, alt_r := False, ctrl_l := False, ctrl_r := False,
       caps_lock := True, num_lock := False, scroll_lock := False\<rparr>"
  obtain l where l: "set_leds hw ?a = Inr ((), ?a\<lparr>io_log := l\<rparr>)"
    "\<And>p. p \<noteq> PORT_8042_DATA \<Longrightarrow> last_out p l = last_out p (io_log ?a)"
    by (rule set_leds_ok[OF assms(2)]) blast
  let ?b = "?a\<lparr>io_log := l\<rparr>"
  have c: "ctlmask KEYBOARD_IRQ = INT_M_CTLMASK" by (simp add: ctlmask_def)
  have last: "last_out (ctlmask KEYBOARD_IRQ) (io_log ?b) = Some 0xFE" using l(2)[of INT_M_CTLMASK] assms(3) c by simp
  have bit: "(0xFE :: byte) AND irq_bit KEYBOARD_IRQ \<noteq> 0" "KEYBOARD_IRQ < NR_IRQ" by (simp_all add: irq_bit_def)
  obtain l2 where l2: "bindE (put_irq_handler hw KEYBOARD_IRQ Keyboard_handler) (\<lambda>_. enable_irq hw KEYBOARD_IRQ) ?b =
      Inr ((), ?b\<lparr>io_log := l2, irq_table := (irq_table ?b)(KEYBOARD_IRQ := Keyboard_handler)\<rparr>)"
    "\<And>j x. j < NR_IRQ \<Longrightarrow> masked (?b\<lparr>io_log := l2, irq_table := x\<rparr>) j = (j \<noteq> KEYBOARD_IRQ \<and> masked ?b j)"
    by (rule install_irq[OF assms(1) last bit]) blast
  let ?t = "?b\<lparr>io_log := l2, irq_table := (irq_table ?b)(KEYBOARD_IRQ := Keyboard_handler)\<rparr>"
  have m: "masked ?b j = masked s j" for j
    using l(2)[of "ctlmask j"] by (simp add: masked_def ctlmask_def)
  have "init_keyboard hw s = bindE (bindE (put_irq_handler hw KEYBOARD_IRQ Keyboard_handler) (\<lambda>_. enable_irq hw KEYBOARD_IRQ)) ret ?b"
    using l(1) by (simp add: init_keyboard_def op_defs bindE_assoc)
  also have "\<dots> = Inr ((), ?t)" using l2(1) by (simp add: op_defs)
  finally show ?thesis
    using l2(2) m assms(4) by (intro that[of ?t]) (simp_all add: kb_ok_def kb_items_def ring_ok_def ring_items_def)
qed

lemma copy_gdt_base:
  assumes "8 * i + 8 \<le> n" "\<forall>k \<in> {2, 3, 4, 7}. m (old + of_nat (8 * i + k)) = 0"
  shows "descriptor_base (copy_gdt m old n g i) = 0"
proof -
  have "[0..<8] = [0, 1, 2, 3, 4, 5, 6, 7 :: nat]" by (simp add: upt_rec)
  then show ?thesis using assms by (simp add: copy_gdt_def bytes_descriptor_def descriptor_base_def add_ac)
qed

lemma cstart_ok:
  assumes "unat (fst (gdt_ptr s)) \<in> {23..<8 * GDT_SIZE}"
    "\<forall>k \<in> {2, 3, 4, 7}. kmem s (snd (gdt_ptr s) + of_nat (8 * 2 + k)) = 0"
  obtains t where "cstart lk s = Inr ((), t)" "kmem t = kmem s" "kb_in t = kb_in s"
    "\<forall>i \<in> pids. proc_table t i = zero_proc\<lparr>ldt_sel := ldt_sel_of (nat i)\<rparr>"
    "descriptor_base (gdt_table t 2) = 0"
    "last_out INT_M_CTLMASK (io_log t) = Some 0xFF" "last_out INT_S_CTLMASK (io_log t) = Some 0xFF"
proof -
  obtain limit old where p: "gdt_ptr s = (limit, old)" by fastforce
  let ?a = "s\<lparr>gdt_table := copy_gdt (kmem s) old (unat limit + 1) (gdt_table s),
    gdt_ptr := (of_nat (GDT_SIZE * 8 - 1), gdt_addr lk), idt_ptr := (of_nat (256 * 8 - 1), idt_addr lk)\<rparr>"
  have b: "descriptor_base (gdt_table ?a 2) = 0"
    using copy_gdt_base[of 2 "unat limit + 1" "kmem s" old "gdt_table s"] assms p by simp
  obtain t where t: "init_prot lk ?a = Inr ((), t)" "kmem t = kmem ?a" "kb_in t = kb_in ?a"
    "\<forall>i \<in> pids. proc_table t i = zero_proc\<lparr>ldt_sel := ldt_sel_of (nat i)\<rparr>"
    "\<forall>j < INDEX_TSS. gdt_table t j = gdt_table ?a j"
    "last_out INT_M_CTLMASK (io_log t) = Some 0xFF" "last_out INT_S_CTLMASK (io_log t) = Some 0xFF"
    by (rule init_prot_ok) blast
  have "cstart lk s = Inr ((), t)"
    using t(1) p assms(1) by (simp add: cstart_def op_defs)
  moreover have "descriptor_base (gdt_table t 2) = 0" using t(5) b by simp
  ultimately show ?thesis using t by (intro that[of t]) simp_all
qed

lemma tinix_main_ok:
  assumes "kernel_ok (kmem s)" "pic_ok hw" "kbc_ok hw" "length (r_buf (kb_in s)) = KB_IN_BYTES"
    "last_out INT_M_CTLMASK (io_log s) = Some 0xFF" "last_out INT_S_CTLMASK (io_log s) = Some 0xFF"
  obtains t limit where "tinix_main lk hw s = Inr ((), t)"
    "proc_table t = (\<lambda>i. if i \<in> {6, 7, 8} then (boot_table lk (gdt_table s) limit (proc_table s) i)\<lparr>p_ticks := 0, priority := 0\<rparr>
       else boot_table lk (gdt_table s) limit (proc_table s) i)"
    "\<forall>k < unat (rd16 (kmem s) (rd32 (kmem s) 0x908 + 48)). allocated (kmem s) (rd32 (kmem s) 0x908) k \<longrightarrow>
       sh_bottom (kmem s) (rd32 (kmem s) 0x908) k < sh_top (kmem s) (rd32 (kmem s) 0x908) k \<and>
       sh_top (kmem s) (rd32 (kmem s) 0x908) k - 1 \<le> limit"
    "p_proc_ready t = 0" "kb_ok t" "kb_items t = []"
    "\<forall>j < NR_IRQ. masked t j = (j \<notin> {CLOCK_IRQ, KEYBOARD_IRQ})"
    "irq_table t CLOCK_IRQ = Clock_handler" "irq_table t KEYBOARD_IRQ = Keyboard_handler"
proof -
  let ?m = "kmem s" let ?elf = "rd32 ?m 0x908"
  obtain b e where k: "\<And>x. get_kernel_map (s\<lparr>proc_table := x\<rparr>) = Inr (Some (b, e - b - 1), s\<lparr>proc_table := x\<rparr>)" "b < e"
    "\<forall>i < unat (rd16 ?m (?elf + 48)). allocated ?m ?elf i \<longrightarrow> b \<le> sh_bottom ?m ?elf i \<and> sh_top ?m ?elf i \<le> e"
    by (rule get_kernel_map_ok[OF assms(1)]) blast
  let ?x = "boot_table lk (gdt_table s) (e - 1) (proc_table s)"
  let ?y = "\<lambda>i. if i \<in> {6, 7, 8} then (?x i)\<lparr>p_ticks := 0, priority := 0\<rparr> else ?x i"
  let ?a = "s\<lparr>k_reenter := 0, kticks := 0, p_proc_ready := 0, proc_table := ?y\<rparr>"
  have procs: "boot_procs lk proc_list (task_stack lk + STACK_SIZE_TOTAL) s = Inr ((), s\<lparr>proc_table := ?x\<rparr>)"
    using boot_procs_ok[OF k(1), of lk] by (simp add: algebra_simps)
  have y: "?x(6 := (?x 6)\<lparr>p_ticks := 0, priority := 0\<rparr>, 7 := (?x 7)\<lparr>p_ticks := 0, priority := 0\<rparr>,
    8 := (?x 8)\<lparr>p_ticks := 0, priority := 0\<rparr>) = ?y" by (rule ext) simp
  have last: "last_out INT_M_CTLMASK (io_log ?a) = Some 0xFF" using assms(5) by simp
  obtain l where l: "init_clock hw ?a = Inr ((), ?a\<lparr>io_log := l, irq_table := (irq_table ?a)(CLOCK_IRQ := Clock_handler)\<rparr>)"
    "\<And>j x. j < NR_IRQ \<Longrightarrow> masked (?a\<lparr>io_log := l, irq_table := x\<rparr>) j = (j \<noteq> CLOCK_IRQ \<and> masked ?a j)"
    "last_out INT_M_CTLMASK l = Some 0xFE"
    by (rule init_clock_install[OF assms(2) last]) blast
  let ?c = "?a\<lparr>io_log := l, irq_table := (irq_table ?a)(CLOCK_IRQ := Clock_handler)\<rparr>"
  have "last_out INT_M_CTLMASK (io_log ?c) = Some 0xFE" "length (r_buf (kb_in ?c)) = KB_IN_BYTES"
    using l(3) assms(4) by simp_all
  then obtain t where t: "init_keyboard hw ?c = Inr ((), t)" "proc_table t = proc_table ?c" "p_proc_ready t = p_proc_ready ?c"
    "kb_ok t" "kb_items t = []" "irq_table t = (irq_table ?c)(KEYBOARD_IRQ := Keyboard_handler)"
    "\<And>j. j < NR_IRQ \<Longrightarrow> masked t j = (j \<noteq> KEYBOARD_IRQ \<and> masked ?c j)"
    by (rule init_keyboard_install[OF assms(2,3)]) blast
  have "masked ?a j" for j using assms(5,6) by (simp add: masked_def ctlmask_def)
  then have "\<forall>j < NR_IRQ. masked t j = (j \<notin> {CLOCK_IRQ, KEYBOARD_IRQ})" using t(7) l(2) by auto
  moreover have "tinix_main lk hw s = Inr ((), t)"
    using procs l(1) t(1) y by (simp add: tinix_main_def shutdown_proc_def updP_apply op_defs)
  moreover have "\<forall>i < unat (rd16 ?m (?elf + 48)). allocated ?m ?elf i \<longrightarrow>
      sh_bottom ?m ?elf i < sh_top ?m ?elf i \<and> sh_top ?m ?elf i - 1 \<le> e - 1"
  proof (intro allI impI)
    fix i assume i: "i < unat (rd16 ?m (?elf + 48))" "allocated ?m ?elf i"
    then have lt: "sh_bottom ?m ?elf i < sh_top ?m ?elf i" using assms(1) by (simp add: kernel_ok_def Let_def)
    moreover have "sh_top ?m ?elf i \<le> e" using k(3) i by blast
    ultimately show "sh_bottom ?m ?elf i < sh_top ?m ?elf i \<and> sh_top ?m ?elf i - 1 \<le> e - 1"
      by (auto simp: word_le_nat_alt word_less_nat_alt unat_sub_if')
  qed
  ultimately show ?thesis using t by (intro that[of t "e - 1"]) simp_all
qed

lemma boot_entry_fields:
  assumes "i \<in> {0..<NR_TASKS + NR_NATIVE_PROCS}"
  shows "p_flags (boot_entry lk i st d p) = 0" "p_msg (boot_entry lk i st d p) = 0"
    "p_recvfrom (boot_entry lk i st d p) = NO_TASK" "p_sendto (boot_entry lk i st d p) = NO_TASK"
    "q_sending (boot_entry lk i st d p) = None" "p_ticks (boot_entry lk i st d p) = (if i < NR_TASKS then 100 else 3)"
    "ldts (boot_entry lk i st d p) INDEX_LDT_C = fst d" "ldts (boot_entry lk i st d p) INDEX_LDT_RW = snd d"
    "reg_esp (regs (boot_entry lk i st d p)) = st"
  using boot_task_fields(4)[OF assms]
  by (cases "boot_task i"; cases d; simp add: boot_entry_def boot_regs_def Let_def)+

lemmas boot_entry_simps = boot_entry_fields boot_entry_fields(8)[unfolded One_nat_def]

lemma attr1_init: "attr1 (init_descriptor base limit attribute) = ucast (attribute AND 0xFF)"
  by (simp add: init_descriptor_def)

lemma boot_desc_fields:
  assumes "descriptor_base (gdt 2) = 0" "i \<in> {0..<NR_TASKS + NR_NATIVE_PROCS}"
  shows "descriptor_base (snd (boot_desc gdt limit i)) = 0"
    "descriptor_dpl (fst (boot_desc gdt limit i)) = (if i < NR_TASKS then 1 else 3)"
    "descriptor_dpl (snd (boot_desc gdt limit i)) = (if i < NR_TASKS then 1 else 3)"
  using assms(1)
  by (simp_all add: boot_desc_def Let_def descriptor_dpl_def descriptor_base_def[of "_\<lparr>attr1 := _\<rparr>"]
      descriptor_base_def[of "gdt 2"] attr1_init)

text \<open>The table that \<open>tinix_main\<close> leaves, its three unused processes shut down.\<close>

definition final_table :: "proc_tab \<Rightarrow> proc_tab" where
  "final_table x = (\<lambda>i. if i \<in> {6, 7, 8} then (x i)\<lparr>p_ticks := 0, priority := 0\<rparr> else x i)"

lemma final_table_fields [simp]:
  "p_flags (final_table x i) = p_flags (x i)" "p_msg (final_table x i) = p_msg (x i)"
  "p_recvfrom (final_table x i) = p_recvfrom (x i)" "p_sendto (final_table x i) = p_sendto (x i)"
  "q_sending (final_table x i) = q_sending (x i)" "ldts (final_table x i) = ldts (x i)"
  "regs (final_table x i) = regs (x i)" "p_ticks (final_table x i) = (if i \<in> {6, 7, 8} then 0 else p_ticks (x i))"
  by (simp_all add: final_table_def)

lemma boot_table_native:
  "i \<in> {0..<NR_TASKS + NR_NATIVE_PROCS} \<Longrightarrow> boot_table lk gdt limit x i =
     boot_entry lk i (task_stack lk + STACK_SIZE_TOTAL - u32_int i * STACK_SIZE_DEFAULT) (boot_desc gdt limit i) (x i)"
  by (simp add: boot_table_def pids_def)

lemma boot_table_free:
  "i \<in> pids \<Longrightarrow> i \<notin> {0..<NR_TASKS + NR_NATIVE_PROCS} \<Longrightarrow> boot_table lk gdt limit x i = (x i)\<lparr>p_flags := FREE_SLOT\<rparr>"
  by (simp add: boot_table_def pids_def)

lemma boot_table_runnable:
  "{i \<in> pids. runnable (final_table (boot_table lk gdt limit x) i)} = {TASK_TTY..INIT}"
proof (rule set_eqI)
  fix i
  show "i \<in> {i \<in> pids. runnable (final_table (boot_table lk gdt limit x) i)} \<longleftrightarrow> i \<in> {TASK_TTY..INIT}"
  proof (cases "i \<in> {0..<NR_TASKS + NR_NATIVE_PROCS}")
    case True
    then show ?thesis by (auto simp: runnable_def boot_table_native boot_entry_fields pids_def)
  next
    case False
    then show ?thesis by (auto simp: runnable_def boot_table_free)
  qed
qed

lemma boot_table_ok:
  assumes "descriptor_base (gdt 2) = 0" "\<forall>i \<in> pids. q_sending (x i) = None"
    "proc_table s = final_table (boot_table lk gdt limit x)" "p_proc_ready s = 0"
  shows "boot_ok s"
proof -
  have "q_sending (proc_table s i) = None \<and> (p_flags (proc_table s i) = 0 \<and> p_msg (proc_table s i) = 0 \<and>
     p_recvfrom (proc_table s i) = NO_TASK \<and> p_sendto (proc_table s i) = NO_TASK \<or> p_flags (proc_table s i) = FREE_SLOT)"
    if "i \<in> pids" for i
  proof (cases "i \<in> {0..<NR_TASKS + NR_NATIVE_PROCS}")
    case True
    then show ?thesis by (simp add: assms(3) boot_table_native boot_entry_fields)
  next
    case False
    then show ?thesis using that assms(2) by (simp add: assms(3) boot_table_free)
  qed
  moreover have "flat_natives (proc_table s)"
    using boot_desc_fields(1)[where gdt = gdt, OF assms(1)]
    by (simp add: flat_natives_def ldt_reg_linear_def assms(3) boot_table_native boot_entry_simps)
  moreover have "current_ok s"
    by (simp add: current_ok_def assms(3,4) boot_table_native boot_entry_fields) (simp add: pids_def)
  ultimately show ?thesis by (simp add: boot_ok_def)
qed

lemma limit_20_bits: "drop_bit 12 (x :: u32) AND mask 20 = drop_bit 12 x"
  by (rule bit_word_eqI) (auto simp: bit_simps dest: bit_imp_le_length)

lemma boot_desc_reach:
  "reassembled_limit (fst (boot_desc gdt limit INIT)) = drop_bit LIMIT_4K_SHIFT limit"
  "reassembled_limit (snd (boot_desc gdt limit INIT)) = drop_bit LIMIT_4K_SHIFT limit"
  by (simp_all add: boot_desc_def limit_20_bits)

text \<open>
  C37. Booting establishes what the theorems on the running kernel start from. From a loader that
  leaves flat segments in its descriptor table, the kernel's ELF file in memory, and interrupt
  and keyboard controllers that behave as documented, \<open>cstart\<close> and \<open>tinix_main\<close> run through to
  the entry of the first process. Then no message is in transit and the native processes are
  flat (\<open>boot_ok\<close>); exactly the five tasks and Init can run; tasks have privilege 1, processes 3,
  and every one its own 16 KB of stack; Init's segments reach every byte of the kernel's loaded
  sections; and exactly the clock and the keyboard can interrupt, each with its own handler and
  the scan code ring empty.
\<close>

theorem boot_hands_over:
  assumes "unat (fst (gdt_ptr s)) \<in> {23..<8 * GDT_SIZE}"
    "\<forall>k \<in> {2, 3, 4, 7}. kmem s (snd (gdt_ptr s) + of_nat (8 * 2 + k)) = 0"
    "kernel_ok (kmem s)" "pic_ok hw" "kbc_ok hw" "length (r_buf (kb_in s)) = KB_IN_BYTES"
  shows "\<exists>t. bindE (cstart lk) (\<lambda>_. tinix_main lk hw) s = Inr ((), t) \<and> boot_ok t \<and>
    {i \<in> pids. runnable (proc_table t i)} = {TASK_TTY..INIT} \<and>
    (\<forall>i \<in> {0..<NR_TASKS + NR_NATIVE_PROCS}.
       descriptor_dpl (ldts (proc_table t i) INDEX_LDT_C) = (if i < NR_TASKS then 1 else 3) \<and>
       descriptor_dpl (ldts (proc_table t i) INDEX_LDT_RW) = (if i < NR_TASKS then 1 else 3) \<and>
       reg_esp (regs (proc_table t i)) = task_stack lk + u32_int (9 - i) * 0x4000) \<and>
    (\<forall>k < unat (rd16 (kmem s) (rd32 (kmem s) 0x908 + 48)). \<forall>a. allocated (kmem s) (rd32 (kmem s) 0x908) k \<and>
       sh_bottom (kmem s) (rd32 (kmem s) 0x908) k \<le> a \<and> a < sh_top (kmem s) (rd32 (kmem s) 0x908) k \<longrightarrow>
       drop_bit LIMIT_4K_SHIFT a \<le> reassembled_limit (ldts (proc_table t INIT) INDEX_LDT_C) \<and>
       drop_bit LIMIT_4K_SHIFT a \<le> reassembled_limit (ldts (proc_table t INIT) INDEX_LDT_RW)) \<and>
    (\<forall>j < NR_IRQ. masked t j = (j \<notin> {CLOCK_IRQ, KEYBOARD_IRQ})) \<and>
    irq_table t CLOCK_IRQ = Clock_handler \<and> irq_table t KEYBOARD_IRQ = Keyboard_handler \<and>
    kb_ok t \<and> kb_items t = []"
proof -
  obtain a where a: "cstart lk s = Inr ((), a)" "kmem a = kmem s" "kb_in a = kb_in s"
    "\<forall>i \<in> pids. proc_table a i = zero_proc\<lparr>ldt_sel := ldt_sel_of (nat i)\<rparr>" "descriptor_base (gdt_table a 2) = 0"
    "last_out INT_M_CTLMASK (io_log a) = Some 0xFF" "last_out INT_S_CTLMASK (io_log a) = Some 0xFF"
    by (rule cstart_ok[OF assms(1,2)]) blast
  have pre: "kernel_ok (kmem a)" "length (r_buf (kb_in a)) = KB_IN_BYTES" using a(2,3) assms(3,6) by simp_all
  obtain t limit where t: "tinix_main lk hw a = Inr ((), t)"
    "proc_table t = final_table (boot_table lk (gdt_table a) limit (proc_table a))"
    and cover: "\<forall>k < unat (rd16 (kmem a) (rd32 (kmem a) 0x908 + 48)). allocated (kmem a) (rd32 (kmem a) 0x908) k \<longrightarrow>
       sh_bottom (kmem a) (rd32 (kmem a) 0x908) k < sh_top (kmem a) (rd32 (kmem a) 0x908) k \<and>
       sh_top (kmem a) (rd32 (kmem a) 0x908) k - 1 \<le> limit"
    and rest: "p_proc_ready t = 0" "kb_ok t" "kb_items t = []"
    "\<forall>j < NR_IRQ. masked t j = (j \<notin> {CLOCK_IRQ, KEYBOARD_IRQ})"
    "irq_table t CLOCK_IRQ = Clock_handler" "irq_table t KEYBOARD_IRQ = Keyboard_handler"
    unfolding final_table_def by (rule tinix_main_ok[OF pre(1) assms(4,5) pre(2) a(6,7), of lk]) blast
  note e = t(2) boot_table_native boot_entry_simps
  have ok: "boot_ok t"
    by (rule boot_table_ok[OF a(5) _ t(2) rest(1)]) (simp add: a(4) zero_proc_def)
  have run: "{i \<in> pids. runnable (proc_table t i)} = {TASK_TTY..INIT}" unfolding t(2) by (rule boot_table_runnable)
  have priv: "\<forall>i \<in> {0..<NR_TASKS + NR_NATIVE_PROCS}.
       descriptor_dpl (ldts (proc_table t i) INDEX_LDT_C) = (if i < NR_TASKS then 1 else 3) \<and>
       descriptor_dpl (ldts (proc_table t i) INDEX_LDT_RW) = (if i < NR_TASKS then 1 else 3) \<and>
       reg_esp (regs (proc_table t i)) = task_stack lk + u32_int (9 - i) * 0x4000"
    using boot_desc_fields(2,3)[where gdt = "gdt_table a", OF a(5)] by (simp add: e) (simp add: u32_int_def algebra_simps)
  have reach: "drop_bit LIMIT_4K_SHIFT x \<le> reassembled_limit (ldts (proc_table t INIT) INDEX_LDT_C) \<and>
       drop_bit LIMIT_4K_SHIFT x \<le> reassembled_limit (ldts (proc_table t INIT) INDEX_LDT_RW)"
    if "k < unat (rd16 (kmem s) (rd32 (kmem s) 0x908 + 48))" "allocated (kmem s) (rd32 (kmem s) 0x908) k"
      "x < sh_top (kmem s) (rd32 (kmem s) 0x908) k" for k x
  proof -
    have "sh_top (kmem s) (rd32 (kmem s) 0x908) k - 1 \<le> limit" using cover that(1,2) a(2) by simp
    then have "unat x \<le> unat limit" using that(3) by (simp add: word_le_nat_alt word_less_nat_alt unat_sub_if' split: if_splits)
    then have "drop_bit LIMIT_4K_SHIFT x \<le> drop_bit LIMIT_4K_SHIFT limit"
      by (simp add: word_le_nat_alt drop_bit_eq_div unat_div div_le_mono)
    then show ?thesis by (simp add: e boot_desc_reach)
  qed
  have "bindE (cstart lk) (\<lambda>_. tinix_main lk hw) s = Inr ((), t)" using a(1) t(1) by simp
  then show ?thesis using ok run priv reach rest by blast
qed

text \<open>A kernel file at 0x10000 with one section of 4 KB at 0x30400, over an idle machine.\<close>

definition boot_mem :: mem where
  "boot_mem = (\<lambda>_. 0)(0x900 := 0x07, 0x901 := 0xB0, 0x90A := 0x01,
     0x10000 := 0x7F, 0x10001 := 0x45, 0x10002 := 0x4C, 0x10003 := 0x46, 0x10020 := 0x40, 0x1002E := 0x28,
     0x10030 := 0x01, 0x10048 := 0x02, 0x1004D := 0x04, 0x1004E := 0x03, 0x10055 := 0x10)"

definition boot_start :: bstate where
  "boot_start = tstate.extend (idle_ts\<lparr>kmem := boot_mem\<rparr>)
     (bstate.fields (\<lambda>_. zero_descriptor) (\<lambda>_. init_idt_desc 0 0 0) 0 0 (0x1F, 0x90100) (0, 0))"

definition boot_link :: link where
  "boot_link = \<lparr> gdt_addr = 0x40000, idt_addr = 0x40400, tss_addr = 0x41000, ldts_addr = (\<lambda>i. 0x42000 + 0x200 * of_nat i),
     task_stack = 0x50000, handler_addr = (\<lambda>_. 0x31000), entry_addr = (\<lambda>_. 0x32000) \<rparr>"

definition ready_hw :: hardware where
  "ready_hw l p = (if p = PORT_8042_CONTROL then 0 else if p = PORT_8042_DATA then KB_ACK
     else case last_out p l of None \<Rightarrow> 0 | Some v \<Rightarrow> v)"

lemma ready_hw_ok: "pic_ok ready_hw" "kbc_ok ready_hw"
  by (simp add: pic_ok_def ready_hw_def) (simp add: kbc_ok_def ready_hw_def)

lemma boot_start_fields:
  "kmem boot_start = boot_mem" "gdt_ptr boot_start = (0x1F, 0x90100)" "kb_in boot_start = empty_ring KB_IN_BYTES 0"
proof -
  have "kb_in boot_start = kb_in idle_ts"
    by (simp add: boot_start_def tstate.defs)
  then show "kb_in boot_start = empty_ring KB_IN_BYTES 0" by simp
qed (simp_all add: boot_start_def tstate.defs bstate.defs)

lemma boot_mem_words:
  "rd32 boot_mem 0x900 = 0xB007" "rd32 boot_mem 0x908 = 0x10000" "rd16 boot_mem 0x10030 = 1"
  "rd32 boot_mem 0x10020 = 0x40" "rd16 boot_mem 0x1002E = 0x28" "rd32 boot_mem 0x10048 = 2"
  "rd32 boot_mem 0x1004C = 0x30400" "rd32 boot_mem 0x10054 = 0x1000"
  by (simp_all add: rd32_def rd16_def boot_mem_def)

lemma boot_mem_magic: "mem_bytes boot_mem 0x10000 4 = [0x7F, 0x45, 0x4C, 0x46]"
proof -
  have "[0..<4] = [0, 1, 2, 3 :: nat]" by (simp add: upt_rec)
  then show ?thesis by (simp add: mem_bytes_def boot_mem_def)
qed

lemma boot_mem_section:
  "allocated boot_mem 0x10000 0" "sh_bottom boot_mem 0x10000 0 = 0x30400" "sh_top boot_mem 0x10000 0 = 0x31400"
proof -
  have s: "section_hdr boot_mem 0x10000 0 = 0x10040"
    by (simp add: section_hdr_def boot_mem_words)
  show "allocated boot_mem 0x10000 0" "sh_bottom boot_mem 0x10000 0 = 0x30400" "sh_top boot_mem 0x10000 0 = 0x31400"
    by (simp_all add: allocated_def sh_bottom_def sh_top_def s boot_mem_words)
qed

theorem boot_hands_over_witness:
  "\<exists>t. bindE (cstart boot_link) (\<lambda>_. tinix_main boot_link ready_hw) boot_start = Inr ((), t) \<and> boot_ok t \<and>
     drop_bit LIMIT_4K_SHIFT 0x313FF \<le> reassembled_limit (ldts (proc_table t INIT) INDEX_LDT_RW) \<and>
     \<not> masked t KEYBOARD_IRQ \<and> masked t 14"
proof -
  have k: "kernel_ok boot_mem" by (simp add: kernel_ok_def Let_def boot_mem_words boot_mem_magic boot_mem_section)
  have lt: "KEYBOARD_IRQ < NR_IRQ" "14 < NR_IRQ" "(0::nat) < unat (rd16 boot_mem (0x10000 + 48))"
    by (simp_all add: boot_mem_words)
  have p: "unat (fst (gdt_ptr boot_start)) \<in> {23..<8 * GDT_SIZE}"
    "\<forall>k \<in> {2, 3, 4, 7}. kmem boot_start (snd (gdt_ptr boot_start) + of_nat (8 * 2 + k)) = 0"
    "kernel_ok (kmem boot_start)" "length (r_buf (kb_in boot_start)) = KB_IN_BYTES"
    unfolding boot_start_fields using k by (simp_all add: boot_mem_def empty_ring_def)
  note b = boot_hands_over[OF p(1,2,3) ready_hw_ok p(4), of boot_link, unfolded boot_start_fields boot_mem_words]
  obtain t where
    t: "bindE (cstart boot_link) (\<lambda>_. tinix_main boot_link ready_hw) boot_start = Inr ((), t)" "boot_ok t"
    "\<forall>j < NR_IRQ. masked t j = (j \<notin> {CLOCK_IRQ, KEYBOARD_IRQ})"
    "\<forall>k < unat (rd16 boot_mem (0x10000 + 48)). \<forall>a. allocated boot_mem 0x10000 k \<and>
       sh_bottom boot_mem 0x10000 k \<le> a \<and> a < sh_top boot_mem 0x10000 k \<longrightarrow>
       drop_bit LIMIT_4K_SHIFT a \<le> reassembled_limit (ldts (proc_table t INIT) INDEX_LDT_C) \<and>
       drop_bit LIMIT_4K_SHIFT a \<le> reassembled_limit (ldts (proc_table t INIT) INDEX_LDT_RW)"
    using b by (elim exE conjE) (rule that; assumption)
  have "drop_bit LIMIT_4K_SHIFT 0x313FF \<le> reassembled_limit (ldts (proc_table t INIT) INDEX_LDT_RW)"
    using t(4)[rule_format, OF lt(3), of "0x313FF"] by (simp add: boot_mem_section)
  then show ?thesis using t(1,2,3) lt by auto
qed

end
