(* ===== verification/Shell.thy ===== *)
theory Shell
  imports Unistd
begin

section \<open>The programs linked into the kernel\<close>

text \<open>
  The processes of kernel/main.c: \<open>Init\<close>, which unpacks /cmd.tar and starts a shell, the shell
  itself, \<open>untar\<close>, and the test processes; \<open>printf\<close> of lib/stdio.c and \<open>milli_delay\<close> of
  kernel/clock.c. They run in the address space of their process (\<open>base\<close>) and reach the rest of
  the system through \<open>rpc\<close>. The addresses of their local variables and string literals are the
  record \<open>ulocals\<close>. A program that never returns gives a \<open>fault option\<close>: \<open>None\<close> when it runs
  for ever. What \<open>printl\<close> writes to the kernel's console is left out.
\<close>

abbreviation (input) O_CREAT :: int where "O_CREAT \<equiv> 1"
abbreviation (input) O_RDWR :: int where "O_RDWR \<equiv> 2"
abbreviation (input) HZ :: int where "HZ \<equiv> 100"

record ulocals =
  l_print :: addr
  l_name :: addr
  l_buf :: addr
  l_argv :: addr
  l_status :: addr
  l_stack :: addr
  l_lit :: "string \<Rightarrow> addr"

text \<open>A loop \<open>while (1)\<close> around a body.\<close>

partial_function (option) forever :: "('s \<Rightarrow> fault + unit \<times> 's) \<Rightarrow> 's \<Rightarrow> fault option" where
  "forever body s = (case body s of Inl e \<Rightarrow> Some e | Inr r \<Rightarrow> forever body (snd r))"

definition run_forever :: "('s, unit) op \<Rightarrow> ('s, unit) op \<Rightarrow> 's \<Rightarrow> fault option" where
  "run_forever before body s = (case before s of Inl e \<Rightarrow> Some e | Inr r \<Rightarrow> forever body (snd r))"

subsection \<open>printf\<close>

definition u_printf :: "'a kstate_scheme rpc \<Rightarrow> addr \<Rightarrow> addr \<Rightarrow> byte list \<Rightarrow> u32 list \<Rightarrow> ('a kstate_scheme, unit) op" where
  "u_printf rpc base buf fmt args =
     bindE (\<lambda>s. case vsprintf (\<lambda>a. kmem s (base + a)) fmt args of Inl e \<Rightarrow> Inl e | Inr out \<Rightarrow> Inr (out, s)) (\<lambda>out.
     if length out \<ge> 256 then fail (Bad_access ''buf'')
     else
       bindE (modE (\<lambda>s. s\<lparr>kmem := poke_bytes (kmem s) (base + buf) (out @ [0])\<rparr>)) (\<lambda>_.
       bindE (u_write rpc 1 buf (int (length out))) (\<lambda>c.
       assertE ''c == i'' (\<lambda>_. c = int (length out)))))"

subsection \<open>milli_delay\<close>

partial_function (option) delay_loop :: "('s, int) op \<Rightarrow> int \<Rightarrow> int \<Rightarrow> 's \<Rightarrow> (fault + unit \<times> 's) option" where
  "delay_loop ticks t milli_sec s =
     (case ticks s of
        Inl e \<Rightarrow> Some (Inl e)
      | Inr r \<Rightarrow>
          if c_div (s32 (s32 (fst r - t) * 1000)) HZ < milli_sec then delay_loop ticks t milli_sec (snd r)
          else Some (Inr ((), snd r)))"

definition milli_delay :: "'a kstate_scheme rpc \<Rightarrow> int \<Rightarrow> ('a kstate_scheme, unit) op" where
  "milli_delay rpc milli_sec =
     bindE (get_ticks rpc) (\<lambda>t s. case delay_loop (get_ticks rpc) t milli_sec s of
       None \<Rightarrow> Inl (Spin ''milli_delay'') | Some r \<Rightarrow> r)"

subsection \<open>untar\<close>

text \<open>
  The size field of the header, octal up to a null byte; the address is that of its first digit.
\<close>

partial_function (option) octal :: "mem \<Rightarrow> addr \<Rightarrow> int \<Rightarrow> int option" where
  "octal m p f_len =
     (if m p = 0 then Some f_len else octal m (p + 1) (s32 (s32 (f_len * 8) + (sint (m p) - 0x30))))"

definition octalE :: "addr \<Rightarrow> ('a kstate_scheme, int) op" where
  "octalE p = (\<lambda>s. case octal (kmem s) p 0 of None \<Rightarrow> Inl (Spin ''untar'') | Some n \<Rightarrow> Inr (n, s))"

abbreviation (input) SECTOR_SIZE :: int where "SECTOR_SIZE \<equiv> 512"
abbreviation (input) chunk :: int where "chunk \<equiv> 8192"

function untar_copy :: "'a kstate_scheme rpc \<Rightarrow> addr \<Rightarrow> int \<Rightarrow> int \<Rightarrow> int \<Rightarrow> ('a kstate_scheme, unit) op" where
  "untar_copy rpc buf fd fd_out bytes_left =
     (if bytes_left = 0 then ret ()
      else
        let iobytes = (if chunk < bytes_left then chunk else bytes_left) in
        bindE (u_read rpc fd buf ((c_div (iobytes - 1) SECTOR_SIZE + 1) * SECTOR_SIZE)) (\<lambda>_.
        bindE (u_write rpc fd_out buf iobytes) (\<lambda>_.
        untar_copy rpc buf fd fd_out (bytes_left - iobytes))))"
  by auto
termination by (relation "measure (\<lambda>(rpc, buf, fd, fd_out, bytes_left). nat \<bar>bytes_left\<bar>)") auto

declare untar_copy.simps [simp del]

datatype untar_end = U_end | U_abort | U_next

text \<open>One round: a header, and the file behind it. The name is the first field, at offset 0.\<close>

definition untar_file :: "'a kstate_scheme rpc \<Rightarrow> addr \<Rightarrow> ulocals \<Rightarrow> int \<Rightarrow> ('a kstate_scheme, untar_end) op" where
  "untar_file rpc base L fd =
     bindE (u_read rpc fd (l_buf L) SECTOR_SIZE) (\<lambda>_.
     bindE (getsE (\<lambda>s. kmem s (base + l_buf L))) (\<lambda>c.
     if c = 0 then ret U_end
     else
       bindE (octalE (base + l_buf L + 124)) (\<lambda>f_len.
       bindE (u_open rpc base (l_buf L) (O_CREAT + O_RDWR)) (\<lambda>fd_out.
       if fd_out = -1 then
         bindE (u_printf rpc base (l_print L) (ascii ''failed to extract file: %s'' @ [0x0A]) [l_buf L]) (\<lambda>_.
         bindE (u_printf rpc base (l_print L) (ascii ''aborted]'' @ [0x0A]) []) (\<lambda>_.
         ret U_abort))
       else
         bindE (u_printf rpc base (l_print L) (ascii ''    %s (%d bytes)'' @ [0x0A]) [l_buf L, u32_int f_len]) (\<lambda>_.
         bindE (untar_copy rpc (l_buf L) fd fd_out f_len) (\<lambda>_.
         bindE (u_close rpc fd_out) (\<lambda>_.
         ret U_next)))))))"

partial_function (option) untar_loop :: "('s, untar_end) op \<Rightarrow> 's \<Rightarrow> (fault + untar_end \<times> 's) option" where
  "untar_loop file s =
     (case file s of
        Inl e \<Rightarrow> Some (Inl e)
      | Inr r \<Rightarrow> if fst r = U_next then untar_loop file (snd r) else Some (Inr r))"

definition untar :: "'a kstate_scheme rpc \<Rightarrow> addr \<Rightarrow> ulocals \<Rightarrow> addr \<Rightarrow> ('a kstate_scheme, unit) op" where
  "untar rpc base L filename =
     bindE (u_printf rpc base (l_print L) (ascii ''[extract------ '' @ [0x27] @ ascii ''%s'' @ [0x27, 0x0A]) [filename]) (\<lambda>_.
     bindE (u_open rpc base filename O_RDWR) (\<lambda>fd.
     bindE (assertE ''fd!=-1'' (\<lambda>_. fd \<noteq> -1)) (\<lambda>_.
     bindE (\<lambda>s. case untar_loop (untar_file rpc base L fd) s of None \<Rightarrow> Inl (Spin ''untar'') | Some r \<Rightarrow> r) (\<lambda>r.
     if r = U_abort then ret ()
     else
       bindE (u_close rpc fd) (\<lambda>_.
       u_printf rpc base (l_print L) (ascii ''done!]'' @ [0x0A]) [])))))"

subsection \<open>The shell\<close>

text \<open>Standard input and output: the first two descriptors of the process.\<close>

definition std_files :: "'a kstate_scheme rpc \<Rightarrow> addr \<Rightarrow> addr \<Rightarrow> ('a kstate_scheme, unit) op" where
  "std_files rpc base tty_name =
     bindE (u_open rpc base tty_name O_RDWR) (\<lambda>fd_stdin.
     bindE (assertE ''fd_stdin == 0'' (\<lambda>_. fd_stdin = 0)) (\<lambda>_.
     bindE (u_open rpc base tty_name O_RDWR) (\<lambda>fd_stdout.
     assertE ''fd_stdout == 1'' (\<lambda>_. fd_stdout = 1))))"

text \<open>
  The \<open>do\<close> loop that cuts the line in \<open>rdbuf\<close> into words, in place: \<open>i\<close> is the offset of \<open>p\<close>,
  \<open>w\<close> the flag \<open>word\<close>, \<open>sp\<close> the pointer \<open>s\<close>. Both arrays are bounded.
\<close>

function shell_words :: "addr \<Rightarrow> addr \<Rightarrow> addr \<Rightarrow> nat \<Rightarrow> bool \<Rightarrow> addr \<Rightarrow> nat \<Rightarrow> mem \<Rightarrow> fault + (nat \<times> mem)" where
  "shell_words base rdbuf argv i w sp argc m =
     (if i \<ge> 128 then Inl (Bad_access ''rdbuf'')
      else
        let p = rdbuf + of_nat i;
            ch = m (base + p);
            start = (ch \<noteq> 0x20 \<and> ch \<noteq> 0 \<and> \<not> w);
            sp1 = (if start then p else sp);
            w1 = (w \<or> start)
        in if (ch = 0x20 \<or> ch = 0) \<and> w1 then
             if argc < PROC_ORIGIN_STACK then
               let m1 = (wr32 m (base + argv + of_nat (4 * argc)) sp1)(base + p := 0)
               in if ch \<noteq> 0 then shell_words base rdbuf argv (i + 1) False sp1 (argc + 1) m1 else Inr (argc + 1, m1)
             else Inl (Bad_access ''argv'')
           else if ch \<noteq> 0 then shell_words base rdbuf argv (i + 1) w1 sp1 argc m
           else Inr (argc, m))"
  by auto
termination by (relation "measure (\<lambda>(base, rdbuf, argv, i, w, sp, argc, m). 128 - i)") auto

declare shell_words.simps [simp del]

definition shell_args :: "addr \<Rightarrow> ulocals \<Rightarrow> ('a kstate_scheme, nat) op" where
  "shell_args base L = (\<lambda>s. case shell_words base (l_buf L) (l_argv L) 0 False 0 0 (kmem s) of
     Inl e \<Rightarrow> Inl e
   | Inr (argc, m) \<Rightarrow>
       if argc < PROC_ORIGIN_STACK then Inr (argc, s\<lparr>kmem := wr32 m (base + l_argv L + of_nat (4 * argc)) 0\<rparr>)
       else Inl (Bad_access ''argv''))"

definition shell_round :: "'a kstate_scheme rpc \<Rightarrow> addr \<Rightarrow> ulocals \<Rightarrow> ('a kstate_scheme, unit) op" where
  "shell_round rpc base L =
     bindE (u_write rpc 1 (l_lit L ''$:'') 2) (\<lambda>_.
     bindE (u_read rpc 0 (l_buf L) 70) (\<lambda>r.
     bindE (if 0 \<le> r \<and> r < 128 then modE (\<lambda>s. s\<lparr>kmem := (kmem s)(base + l_buf L + u32_int r := 0)\<rparr>)
       else fail (Bad_access ''rdbuf'')) (\<lambda>_.
     bindE (shell_args base L) (\<lambda>_.
     bindE (getsE (\<lambda>s. rd32 (kmem s) (base + l_argv L))) (\<lambda>arg0.
     bindE (u_open rpc base arg0 O_RDWR) (\<lambda>fd.
     if fd = -1 then
       bindE (getsE (\<lambda>s. kmem s (base + l_buf L))) (\<lambda>c.
       if c \<noteq> 0 then
         bindE (u_write rpc 1 (l_lit L ''{'') 1) (\<lambda>_.
         bindE (u_write rpc 1 (l_buf L) r) (\<lambda>_.
         bindE (u_write rpc 1 (l_lit L ''}'') 2) (\<lambda>_. ret ())))
       else ret ())
     else
       bindE (u_close rpc fd) (\<lambda>_.
       bindE (u_fork rpc) (\<lambda>pid.
       if pid \<noteq> 0 then bindE (u_wait rpc base (l_status L)) (\<lambda>_. ret ())
       else
         bindE (u_getpid rpc) (\<lambda>_.
         bindE (getsE (\<lambda>s. rd32 (kmem s) (base + l_argv L))) (\<lambda>path.
         bindE (u_execv rpc base (l_stack L) path (l_argv L)) (\<lambda>_. ret ())))))))))))"

definition shabby_shell :: "'a kstate_scheme rpc \<Rightarrow> addr \<Rightarrow> ulocals \<Rightarrow> addr \<Rightarrow> 'a kstate_scheme \<Rightarrow> fault option" where
  "shabby_shell rpc base L tty_name = run_forever (std_files rpc base tty_name) (shell_round rpc base L)"

subsection \<open>Init and the test processes\<close>

text \<open>The start of a process: its own copy of the terminal's name, and its two files.\<close>

definition open_tty :: "'a kstate_scheme rpc \<Rightarrow> addr \<Rightarrow> ulocals \<Rightarrow> string \<Rightarrow> ('a kstate_scheme, unit) op" where
  "open_tty rpc base L name =
     bindE (modE (\<lambda>s. s\<lparr>kmem := poke_bytes (kmem s) (base + l_name L) (ascii name @ [0])\<rparr>)) (\<lambda>_.
     std_files rpc base (l_name L))"

text \<open>
  The loop over the terminals runs up to \<open>count - 1\<close>, that is once. In the parent it is followed
  by the loop that collects orphans, in the child (\<open>pid = 0\<close>) it becomes the shell.
\<close>

definition init_wait :: "'a kstate_scheme rpc \<Rightarrow> addr \<Rightarrow> ulocals \<Rightarrow> ('a kstate_scheme, unit) op" where
  "init_wait rpc base L = bindE (u_wait rpc base (l_status L)) (\<lambda>_. ret ())"

definition init_start :: "'a kstate_scheme rpc \<Rightarrow> addr \<Rightarrow> ulocals \<Rightarrow> ('a kstate_scheme, int) op" where
  "init_start rpc base L =
     bindE (open_tty rpc base L ''/dev_tty0'') (\<lambda>_.
     bindE (untar rpc base L (l_lit L ''/cmd.tar'')) (\<lambda>_.
     u_fork rpc))"

definition init_child :: "'a kstate_scheme rpc \<Rightarrow> ('a kstate_scheme, unit) op" where
  "init_child rpc =
     bindE (u_getpid rpc) (\<lambda>_.
     bindE (u_close rpc 1) (\<lambda>_.
     bindE (u_close rpc 0) (\<lambda>_. ret ())))"

definition Init :: "'a kstate_scheme rpc \<Rightarrow> addr \<Rightarrow> ulocals \<Rightarrow> 'a kstate_scheme \<Rightarrow> fault option" where
  "Init rpc base L s =
     (case init_start rpc base L s of
        Inl e \<Rightarrow> Some e
      | Inr (n, t) \<Rightarrow>
          if n \<noteq> 0 then forever (init_wait rpc base L) t
          else (case init_child rpc t of
                  Inl e \<Rightarrow> Some e
                | Inr (_, u) \<Rightarrow> shabby_shell rpc base L (l_lit L ''/dev_tty1'') u))"

definition testA_create :: "'a kstate_scheme rpc \<Rightarrow> addr \<Rightarrow> ulocals \<Rightarrow> string \<Rightarrow> ('a kstate_scheme, unit) op" where
  "testA_create rpc base L name =
     bindE (u_open rpc base (l_lit L name) (O_CREAT + O_RDWR)) (\<lambda>fd.
     bindE (assertE ''fd!=-1'' (\<lambda>_. fd \<noteq> -1)) (\<lambda>_.
     bindE (u_printf rpc base (l_print L) (ascii ''%s '') [l_lit L name]) (\<lambda>_.
     bindE (u_close rpc fd) (\<lambda>r.
     assertE ''close(fd)==0'' (\<lambda>_. r = 0)))))"

definition testA_remove :: "'a kstate_scheme rpc \<Rightarrow> addr \<Rightarrow> ulocals \<Rightarrow> string \<Rightarrow> ('a kstate_scheme, unit) op" where
  "testA_remove rpc base L name =
     bindE (u_unlink rpc base (l_lit L name)) (\<lambda>r.
     if r = 0 then u_printf rpc base (l_print L) (ascii ''%s '') [l_lit L name]
     else u_printf rpc base (l_print L) (ascii ''Faild removing file '' @ [0x22] @ ascii ''%s'' @ [0x22]) [l_lit L name])"

definition TestA :: "'a kstate_scheme rpc \<Rightarrow> addr \<Rightarrow> ulocals \<Rightarrow> ('a kstate_scheme, unit) op" where
  "TestA rpc base L = blockE [
     open_tty rpc base L ''/dev_tty0'',
     u_printf rpc base (l_print L) (ascii ''Created file :'') [],
     forE [''/foo'', ''/bar'', ''/test''] (testA_create rpc base L),
     u_printf rpc base (l_print L) [0x0A] [],
     u_printf rpc base (l_print L) (ascii ''file removed:'') [],
     forE [''/bar'', ''/test'', ''/foo''] (testA_remove rpc base L),
     u_printf rpc base (l_print L) [0x0A] [],
     fail (Spin ''Test A'')]"

definition strcmpE :: "addr \<Rightarrow> addr \<Rightarrow> ('a kstate_scheme, int) op" where
  "strcmpE a b = (\<lambda>s. case strcmp a b (kmem s) of None \<Rightarrow> Inl (Spin ''strcmp'') | Some n \<Rightarrow> Inr (n, s))"

definition testB_round :: "'a kstate_scheme rpc \<Rightarrow> addr \<Rightarrow> ulocals \<Rightarrow> ('a kstate_scheme, unit) op" where
  "testB_round rpc base L =
     bindE (u_printf rpc base (l_print L) (ascii ''$:'') []) (\<lambda>_.
     bindE (u_read rpc 0 (l_buf L) 70) (\<lambda>r.
     bindE (if 0 \<le> r \<and> r < 128 then modE (\<lambda>s. s\<lparr>kmem := (kmem s)(base + l_buf L + u32_int r := 0)\<rparr>)
       else fail (Bad_access ''rdbuf'')) (\<lambda>_.
     bindE (strcmpE (base + l_buf L) (base + l_lit L ''hello'')) (\<lambda>d.
     if d = 0 then u_printf rpc base (l_print L) (ascii ''hello world'' @ [0x0A]) []
     else
       bindE (getsE (\<lambda>s. kmem s (base + l_buf L))) (\<lambda>c.
       if c \<noteq> 0 then u_printf rpc base (l_print L) (ascii ''{%s}'' @ [0x0A]) [l_buf L] else ret ())))))"

definition TestB :: "'a kstate_scheme rpc \<Rightarrow> addr \<Rightarrow> ulocals \<Rightarrow> 'a kstate_scheme \<Rightarrow> fault option" where
  "TestB rpc base L =
     run_forever
       (bindE (open_tty rpc base L ''/dev_tty1'') (\<lambda>_.
        u_printf rpc base (l_print L) (ascii ''In TestB:>>>'' @ [0x0A]) []))
       (testB_round rpc base L)"

definition TestC :: "('s, unit) op" where
  "TestC = fail (Spin ''Test C'')"

subsection \<open>The words of a line\<close>

text \<open>The words of a line, cut at blanks; the first argument is the word being read.\<close>

fun words_from :: "byte list \<Rightarrow> byte list \<Rightarrow> byte list list" where
  "words_from w [] = (if w = [] then [] else [w])"
| "words_from w (c # cs) =
     (if c = 0x20 then (if w = [] then words_from [] cs else w # words_from [] cs)
      else words_from (w @ [c]) cs)"

definition line_words :: "byte list \<Rightarrow> byte list list" where
  "line_words = words_from []"

lemma words_from_length: "length (words_from w cs) \<le> Suc (length cs)"
  by (induction w cs rule: words_from.induct) auto

lemma words_from_blank: "0x20 \<notin> set w \<Longrightarrow> words_from v (w @ cs) = words_from (v @ w) cs"
  by (induction w arbitrary: v) auto

text \<open>Cutting a line into words and joining words with single blanks are inverse on lists of words.\<close>

fun join_words :: "byte list list \<Rightarrow> byte list" where
  "join_words [] = []"
| "join_words [w] = w"
| "join_words (w # ws) = w @ 0x20 # join_words ws"

lemma line_words_join: "\<forall>w \<in> set ws. w \<noteq> [] \<and> 0x20 \<notin> set w \<Longrightarrow> line_words (join_words ws) = ws"
proof (induction ws rule: join_words.induct)
  case (2 w)
  then show ?case using words_from_blank[of w "[]" "[]"] by (simp add: line_words_def)
qed (simp_all add: line_words_def words_from_blank)

text \<open>A word ends at offset \<open>i\<close>: its pointer goes into the array, its end becomes a null byte.\<close>

definition cut_word :: "addr \<Rightarrow> addr \<Rightarrow> nat \<Rightarrow> addr \<Rightarrow> nat \<Rightarrow> mem \<Rightarrow> mem" where
  "cut_word la a i sp argc m = (wr32 m (a + of_nat (4 * argc)) sp)(la + of_nat i := 0)"

lemma shell_words_space:
  assumes "i < 128" "m (base + rdbuf + of_nat i) = 0x20"
  shows "shell_words base rdbuf argv i False sp argc m = shell_words base rdbuf argv (Suc i) False sp argc m"
  using assms by (simp add: shell_words.simps[of base rdbuf argv i] add.assoc)

lemma shell_words_char:
  assumes "i < 128" "m (base + rdbuf + of_nat i) \<noteq> 0x20" "m (base + rdbuf + of_nat i) \<noteq> 0"
  shows "shell_words base rdbuf argv i w sp argc m =
    shell_words base rdbuf argv (Suc i) True (if w then sp else rdbuf + of_nat i) argc m"
  using assms by (simp add: shell_words.simps[of base rdbuf argv i] add.assoc)

lemma shell_words_cut:
  assumes "i < 128" "m (base + rdbuf + of_nat i) = 0x20" "argc < PROC_ORIGIN_STACK"
  shows "shell_words base rdbuf argv i True sp argc m =
    shell_words base rdbuf argv (Suc i) False sp (Suc argc) (cut_word (base + rdbuf) (base + argv) i sp argc m)"
  using assms by (simp add: shell_words.simps[of base rdbuf argv i] add.assoc cut_word_def Let_def)

lemma shell_words_end:
  assumes "i < 128" "m (base + rdbuf + of_nat i) = 0" "argc < PROC_ORIGIN_STACK"
  shows "shell_words base rdbuf argv i w sp argc m =
    (if w then Inr (Suc argc, cut_word (base + rdbuf) (base + argv) i sp argc m) else Inr (argc, m))"
  using assms by (simp add: shell_words.simps[of base rdbuf argv i] add.assoc cut_word_def Let_def)

text \<open>The part of the line not read yet, and the word being read, at offset \<open>i\<close> of the line at \<open>la\<close>.\<close>

definition rest_at :: "mem \<Rightarrow> addr \<Rightarrow> nat \<Rightarrow> byte list \<Rightarrow> bool" where
  "rest_at m la i cs = cstr m (la + of_nat i) cs"

definition word_at :: "mem \<Rightarrow> addr \<Rightarrow> nat \<Rightarrow> byte list \<Rightarrow> bool" where
  "word_at m la i w = (length w \<le> i \<and>
     (\<forall>k \<in> {i - length w..<i}. m (la + of_nat k) = w ! (k - (i - length w)) \<and> w ! (k - (i - length w)) \<noteq> 0))"

lemma rest_at_Cons: "rest_at m la i (c # cs) \<longleftrightarrow> m (la + of_nat i) = c \<and> c \<noteq> 0 \<and> rest_at m la (Suc i) cs"
  by (auto simp: rest_at_def algebra_simps)

lemma word_at_snoc:
  assumes "word_at m la i w" "m (la + of_nat i) = c" "c \<noteq> 0"
  shows "word_at m la (Suc i) (w @ [c])"
  unfolding word_at_def
proof (intro conjI ballI)
  show "length (w @ [c]) \<le> Suc i" using assms(1) by (simp add: word_at_def)
  fix k assume k: "k \<in> {Suc i - length (w @ [c])..<Suc i}"
  let ?j = "k - (Suc i - length (w @ [c]))"
  have l: "length w \<le> i" using assms(1) by (simp add: word_at_def)
  have "m (la + of_nat k) = (w @ [c]) ! ?j \<and> (w @ [c]) ! ?j \<noteq> 0"
  proof (cases "k = i")
    case True
    then show ?thesis using assms(2,3) l by simp
  next
    case False
    then have "k \<in> {i - length w..<i}" "?j = k - (i - length w)" "?j < length w" using k l by auto
    then show ?thesis using assms(1) by (simp add: word_at_def nth_append del: Nat.diff_diff_right)
  qed
  then show "m (la + of_nat k) = (w @ [c]) ! ?j" "(w @ [c]) ! ?j \<noteq> 0" by simp_all
qed

lemma cut_word_other:
  assumes "region la 128 \<inter> region a 0x1000 = {}" "i < 128" "argc < PROC_ORIGIN_STACK"
  shows "x \<noteq> la + of_nat i \<Longrightarrow> x \<notin> region (a + of_nat (4 * argc)) 4 \<Longrightarrow> cut_word la a i sp argc m x = m x"
    and "rd32 (cut_word la a i sp argc m) (a + of_nat (4 * argc)) = sp"
    and "cut_word la a i sp argc m (la + of_nat i) = 0"
proof -
  have "la + of_nat i \<in> region la 128" using assms(2) by (auto simp: region_iff)
  moreover have "region (a + of_nat (4 * argc)) 4 \<subseteq> region a 0x1000" 
    using assms(3) by (intro region_sub[of _ _ "4 * argc"]) simp_all
  ultimately have n: "la + of_nat i \<notin> region (a + of_nat (4 * argc)) 4" using assms(1) by blast
  then have "rd32 (cut_word la a i sp argc m) (a + of_nat (4 * argc)) = rd32 (wr32 m (a + of_nat (4 * argc)) sp) (a + of_nat (4 * argc))"
    by (intro rd32_region) (auto simp: cut_word_def)
  then show "rd32 (cut_word la a i sp argc m) (a + of_nat (4 * argc)) = sp" by simp
qed (simp_all add: cut_word_def wr32_other)


text \<open>A finished word is a string at its pointer, as long as its bytes are left alone.\<close>

lemma word_at_cstr:
  assumes "word_at m la i w" "i < 128" "\<forall>k \<in> {i - length w..<i}. m' (la + of_nat k) = m (la + of_nat k)" "m' (la + of_nat i) = 0"
  shows "cstr m' (la + of_nat (i - length w)) w"
proof (rule cstrI)
  have l: "length w \<le> i" using assms(1) by (simp add: word_at_def)
  fix j assume j: "j < length w"
  have "i - length w + j \<in> {i - length w..<i}" using j l by auto
  moreover have "la + of_nat (i - length w) + of_nat j = la + of_nat (i - length w + j)" by (simp add: add.assoc)
  ultimately show "m' (la + of_nat (i - length w) + of_nat j) = w ! j \<and> w ! j \<noteq> 0"
    using assms(1,3) unfolding word_at_def by (metis (no_types, lifting) add_diff_cancel_left')
next
  have "la + of_nat (i - length w) + of_nat (length w) = la + of_nat i"
    using assms(1) by (simp add: word_at_def add.assoc flip: of_nat_add)
  then show "m' (la + of_nat (i - length w) + of_nat (length w)) = 0" by (simp only: assms(4))
qed

lemma word_at_cong:
  "word_at m la i w \<Longrightarrow> \<forall>k < i. m' (la + of_nat k) = m (la + of_nat k) \<Longrightarrow> word_at m' la i w"
  by (auto simp: word_at_def simp del: Nat.diff_diff_right)

lemma rest_at_cong:
  assumes "rest_at m la i cs" "\<forall>x \<in> region (la + of_nat i) (Suc (length cs)). m' x = m x"
  shows "rest_at m' la i cs"
  using assms unfolding rest_at_def by (rule cstr_region)

text \<open>Where the loop may still write: pointers from slot \<open>argc\<close> on, and the line from offset \<open>i\<close> on.\<close>

definition cut_area :: "addr \<Rightarrow> addr \<Rightarrow> nat \<Rightarrow> nat \<Rightarrow> nat \<Rightarrow> addr set" where
  "cut_area la a i argc n = region (la + of_nat i) (128 - i) \<union> region (a + of_nat (4 * argc)) (4 * n)"

lemma line_offset_apart:
  assumes "region la 128 \<inter> region a 0x1000 = {}" "k < i" "i \<le> 128" "argc + n \<le> PROC_ORIGIN_STACK"
  shows "la + of_nat k \<notin> cut_area la a i argc n"
proof -
  have "region (la + of_nat k) 1 \<inter> region (la + of_nat i) (128 - i) = {}"
    using assms(2,3) by (intro region_apart) simp_all
  moreover have "la + of_nat k \<in> region (la + of_nat k) 1" by (simp add: region_def)
  moreover have "la + of_nat k \<in> region la 128" using assms(2,3) by (simp add: region_def unat_of_nat)
  moreover have "region (a + of_nat (4 * argc)) (4 * n) \<subseteq> region a 0x1000"
    using assms(4) by (intro region_sub[of _ _ "4 * argc"]) simp_all
  ultimately show ?thesis using assms(1) unfolding cut_area_def by blast
qed

lemma slot_apart:
  assumes "region la 128 \<inter> region a 0x1000 = {}" "i \<le> 128" "Suc argc + n \<le> PROC_ORIGIN_STACK"
  shows "region (a + of_nat (4 * argc)) 4 \<inter> cut_area la a i (Suc argc) n = {}"
proof -
  have "region (a + of_nat (4 * argc)) 4 \<inter> region (a + of_nat (4 * Suc argc)) (4 * n) = {}"
    using assms(3) by (intro region_apart) simp_all
  moreover have "region (a + of_nat (4 * argc)) 4 \<subseteq> region a 0x1000"
    using assms(3) by (intro region_sub[of _ _ "4 * argc"]) simp_all
  moreover have "region (la + of_nat i) (128 - i) \<subseteq> region la 128"
    using assms(2) by (intro region_sub[of _ _ i]) simp_all
  ultimately show ?thesis using assms(1) unfolding cut_area_def by blast
qed

lemma cut_area_mono:
  assumes "j \<le> i" "i \<le> 128" "b \<le> argc" "argc + n \<le> b + k" "b + k \<le> PROC_ORIGIN_STACK"
  shows "cut_area la a i argc n \<subseteq> cut_area la a j b k"
proof -
  have "region (la + of_nat i) (128 - i) \<subseteq> region (la + of_nat j) (128 - j)"
    using assms(1,2) by (intro region_sub[of _ _ "i - j"]) (simp_all add: add.assoc flip: of_nat_add)
  moreover have "region (a + of_nat (4 * argc)) (4 * n) \<subseteq> region (a + of_nat (4 * b)) (4 * k)"
  proof (rule region_sub)
    show "a + of_nat (4 * argc) = a + of_nat (4 * b) + of_nat (4 * (argc - b))"
      using assms(3) by (simp only: add.assoc of_nat_add[symmetric]) simp
  qed (use assms in simp_all)
  ultimately show ?thesis unfolding cut_area_def by blast
qed

text \<open>After a word has been cut, whatever happens to the rest of the line leaves it in place.\<close>

lemma cut_word_arg:
  assumes ap: "region (base + rdbuf) 128 \<inter> region (base + argv) 0x1000 = {}" and i: "i < 128"
    and b: "Suc argc + n \<le> PROC_ORIGIN_STACK" and w: "word_at m (base + rdbuf) i w" "w \<noteq> []"
    and nz: "rdbuf \<noteq> 0" "unat rdbuf + 128 \<le> 2 ^ 32"
    and m': "\<forall>x. x \<notin> cut_area (base + rdbuf) (base + argv) (Suc i) (Suc argc) n \<longrightarrow>
       m' x = cut_word (base + rdbuf) (base + argv) i (rdbuf + of_nat (i - length w)) argc m x"
    and rest: "args_at m' base (argv + of_nat (4 * Suc argc)) ws"
      "args_area m' base (argv + of_nat (4 * Suc argc)) ws \<subseteq> region (base + rdbuf) 128 \<union> region (base + argv) 0x1000"
  shows "args_at m' base (argv + of_nat (4 * argc)) (w # ws) \<and>
    args_area m' base (argv + of_nat (4 * argc)) (w # ws) \<subseteq> region (base + rdbuf) 128 \<union> region (base + argv) 0x1000"
proof -
  let ?la = "base + rdbuf" let ?a = "base + argv" let ?sp = "rdbuf + of_nat (i - length w) :: addr"
  let ?m1 = "cut_word ?la ?a i ?sp argc m"
  have a: "argc < PROC_ORIGIN_STACK" using b by simp
  have "rd32 m' (?a + of_nat (4 * argc)) = rd32 ?m1 (?a + of_nat (4 * argc))"
    using slot_apart[OF ap _ b, of "Suc i"] i m' by (intro rd32_region) auto
  then have ptr: "rd32 m' (base + (argv + of_nat (4 * argc))) = ?sp"
    using cut_word_other(2)[OF ap i a] by (simp add: add.assoc)
  have le: "length w \<le> i" using w(1) by (simp add: word_at_def)
  have old: "?la + of_nat k \<noteq> ?la + of_nat i" "?la + of_nat k \<notin> region (?a + of_nat (4 * argc)) 4" if "k < i" for k
  proof -
    show "?la + of_nat k \<noteq> ?la + of_nat i"
      using that i by (simp add: of_nat_eq_iff word_of_nat_eq_iff take_bit_nat_eq_self)
    show "?la + of_nat k \<notin> region (?a + of_nat (4 * argc)) 4"
      using line_offset_apart[OF ap, of k "Suc k" argc 1] that i a by (simp add: cut_area_def)
  qed
  have line: "m' (?la + of_nat k) = ?m1 (?la + of_nat k)" if "k \<le> i" for k
    using line_offset_apart[OF ap, of k "Suc i" "Suc argc" n] that i b m' by simp
  have "cstr m' (?la + of_nat (i - length w)) w"
  proof (rule word_at_cstr[OF w(1) i])
    show "\<forall>k \<in> {i - length w..<i}. m' (?la + of_nat k) = m (?la + of_nat k)"
      using line cut_word_other(1)[OF ap i a old] by simp
    show "m' (?la + of_nat i) = 0" using line[of i] cut_word_other(3)[OF ap i a] by simp
  qed
  moreover have "unat ?sp = unat rdbuf + (i - length w)"
    using nz(2) i by (simp add: unat_word_ariths unat_of_nat)
  then have "?sp \<noteq> 0" using nz(1) unat_eq_0 by fastforce
  moreover have next_: "argv + of_nat (4 * Suc argc) = argv + of_nat (4 * argc) + 4" by simp
  moreover have "region (base + ?sp) (Suc (length w)) \<subseteq> region ?la 128"
    using i le by (intro region_sub[of _ _ "i - length w"]) (simp_all add: add.assoc)
  moreover have "region (base + (argv + of_nat (4 * argc))) 4 \<subseteq> region ?a 0x1000"
    using a by (intro region_sub[of _ _ "4 * argc"]) (simp_all add: add.assoc)
  ultimately show ?thesis
    using ptr rest unfolding next_ by (simp only: args_at.simps args_area.simps add.assoc) blast
qed


lemma terminator_outside:
  assumes "x \<notin> cut_area la a i argc (Suc n)" "argc + Suc n \<le> PROC_ORIGIN_STACK" "i \<le> 128"
  shows "x \<notin> cut_area la a i argc n" "x \<notin> region (a + of_nat (4 * (argc + n))) 4"
proof -
  show "x \<notin> cut_area la a i argc n"
    using cut_area_mono[of i i argc argc n "Suc n" la a] assms by (auto dest: contra_subsetD)
  have "region (a + of_nat (4 * (argc + n))) 4 \<subseteq> region (a + of_nat (4 * argc)) (4 * Suc n)"
  proof (rule region_sub)
    show "a + of_nat (4 * (argc + n)) = a + of_nat (4 * argc) + of_nat (4 * n)" by (simp add: algebra_simps)
  qed (use assms(2) in simp_all)
  then show "x \<notin> region (a + of_nat (4 * (argc + n))) 4" using assms(1) unfolding cut_area_def by blast
qed

text \<open>
  What the loop leaves when the words \<open>ws\<close> were still to come at offset \<open>i\<close>: it has written only
  the rest of the line and the slots of the new words, and after the final null pointer is stored
  the vector from slot \<open>argc\<close> on holds them.
\<close>

definition words_done :: "addr \<Rightarrow> addr \<Rightarrow> addr \<Rightarrow> nat \<Rightarrow> nat \<Rightarrow> mem \<Rightarrow> byte list list \<Rightarrow> mem \<Rightarrow> bool" where
  "words_done base rdbuf argv i argc m ws m' =
     (let m2 = wr32 m' (base + argv + of_nat (4 * (argc + length ws))) 0 in
      (\<forall>x. x \<notin> cut_area (base + rdbuf) (base + argv) i argc (length ws) \<longrightarrow> m' x = m x) \<and>
      args_at m2 base (argv + of_nat (4 * argc)) ws \<and>
      args_area m2 base (argv + of_nat (4 * argc)) ws \<subseteq> region (base + rdbuf) 128 \<union> region (base + argv) 0x1000)"

lemma words_done_Nil:
  assumes "argc < PROC_ORIGIN_STACK"
  shows "words_done base rdbuf argv i argc m [] m"
proof -
  have "region (base + (argv + of_nat (4 * argc))) 4 \<subseteq> region (base + argv) 0x1000"
    using assms by (intro region_sub[of _ _ "4 * argc"]) (simp_all add: add.assoc)
  then show ?thesis unfolding words_done_def Let_def by (auto simp: add.assoc)
qed

lemma words_done_later:
  assumes "words_done base rdbuf argv (Suc i) argc m ws m'" "i < 128" "argc + length ws \<le> PROC_ORIGIN_STACK"
  shows "words_done base rdbuf argv i argc m ws m'"
proof -
  have "cut_area (base + rdbuf) (base + argv) (Suc i) argc (length ws) \<subseteq> cut_area (base + rdbuf) (base + argv) i argc (length ws)"
    using assms(2,3) by (intro cut_area_mono) simp_all
  then show ?thesis using assms(1) unfolding words_done_def Let_def by blast
qed

lemma words_done_Cons:
  assumes ap: "region (base + rdbuf) 128 \<inter> region (base + argv) 0x1000 = {}"
    and i: "i < 128" and b: "Suc argc + Suc (length ws) \<le> PROC_ORIGIN_STACK"
    and w: "word_at m (base + rdbuf) i w" "w \<noteq> []" "sp = rdbuf + of_nat (i - length w)"
    and nz: "rdbuf \<noteq> 0" "unat rdbuf + 128 \<le> 2 ^ 32"
    and done_: "words_done base rdbuf argv (Suc i) (Suc argc) (cut_word (base + rdbuf) (base + argv) i sp argc m) ws m'"
  shows "words_done base rdbuf argv i argc m (w # ws) m'"
proof -
  let ?la = "base + rdbuf" let ?a = "base + argv" let ?m1 = "cut_word ?la ?a i sp argc m"
  let ?m2 = "wr32 m' (?a + of_nat (4 * (Suc argc + length ws))) 0"
  have a: "argc < PROC_ORIGIN_STACK" using b by simp
  have m': "\<forall>x. x \<notin> cut_area ?la ?a (Suc i) (Suc argc) (length ws) \<longrightarrow> m' x = ?m1 x"
    "args_at ?m2 base (argv + of_nat (4 * Suc argc)) ws"
    "args_area ?m2 base (argv + of_nat (4 * Suc argc)) ws \<subseteq> region ?la 128 \<union> region ?a 0x1000"
    using done_ unfolding words_done_def Let_def by blast+
  have fr: "\<forall>x. x \<notin> cut_area ?la ?a (Suc i) (Suc argc) (Suc (length ws)) \<longrightarrow>
      ?m2 x = cut_word ?la ?a i (rdbuf + of_nat (i - length w)) argc m x"
    using terminator_outside[OF _ b, of _ ?la ?a "Suc i"] i m'(1) w(3) by (metis Suc_leI wr32_other)
  have "args_at ?m2 base (argv + of_nat (4 * argc)) (w # ws) \<and>
    args_area ?m2 base (argv + of_nat (4 * argc)) (w # ws) \<subseteq> region ?la 128 \<union> region ?a 0x1000"
    by (rule cut_word_arg[OF ap i b w(1,2) nz fr m'(2,3)])
  moreover have "m' x = m x" if x: "x \<notin> cut_area ?la ?a i argc (Suc (length ws))" for x
  proof -
    have "x \<notin> cut_area ?la ?a (Suc i) (Suc argc) (length ws)"
      using cut_area_mono[of i "Suc i" argc "Suc argc" "length ws" "Suc (length ws)" ?la ?a] i b x by auto
    moreover have "x \<noteq> ?la + of_nat i" using x i by (auto simp: cut_area_def region_def)
    moreover have "x \<notin> region (?a + of_nat (4 * argc)) 4"
      using x region_sub[of "?a + of_nat (4 * argc)" "?a + of_nat (4 * argc)" 0 4 "4 * Suc (length ws)"] b
      by (auto simp: cut_area_def)
    ultimately show ?thesis using m'(1) cut_word_other(1)[OF ap i a] by simp
  qed
  ultimately show ?thesis unfolding words_done_def Let_def by simp
qed

lemma rest_at_cut:
  assumes "region la 128 \<inter> region a 0x1000 = {}" "argc < PROC_ORIGIN_STACK"
    "rest_at m la (Suc i) cs" "Suc i + length cs < 128"
  shows "rest_at (cut_word la a i sp argc m) la (Suc i) cs"
proof (rule rest_at_cong[OF assms(3)], intro ballI)
  fix x assume x: "x \<in> region (la + of_nat (Suc i)) (Suc (length cs))"
  have in_line: "x \<in> region la (Suc i + Suc (length cs))"
    using x assms(4) by (intro region_tail(1)) simp_all
  have "x \<noteq> la + of_nat i"
    using region_tail(2)[of "Suc i" "Suc (length cs)" x la i] x assms(4) by simp
  moreover have "x \<in> region la 128" using in_line assms(4) by (simp add: region_def)
  then have "x \<notin> region (a + of_nat (4 * argc)) 4"
    using assms(1,2) region_sub[of "a + of_nat (4 * argc)" a "4 * argc" 4 "0x1000"] by auto
  moreover have "i < 128" using assms(4) by simp
  ultimately show "cut_word la a i sp argc m x = m x" using cut_word_other(1)[OF assms(1) _ assms(2)] by blast
qed

lemma shell_words_ok:
  assumes ap: "region (base + rdbuf) 128 \<inter> region (base + argv) 0x1000 = {}"
    and nz: "rdbuf \<noteq> 0" "unat rdbuf + 128 \<le> 2 ^ 32"
    and "rest_at m (base + rdbuf) i cs" "i + length cs < 128" "argc + length cs + 2 \<le> PROC_ORIGIN_STACK"
      "w \<noteq> [] \<longrightarrow> word_at m (base + rdbuf) i w \<and> sp = rdbuf + of_nat (i - length w)"
  shows "\<exists>m'. shell_words base rdbuf argv i (w \<noteq> []) sp argc m = Inr (argc + length (words_from w cs), m') \<and>
    words_done base rdbuf argv i argc m (words_from w cs) m'"
  using assms(4-)
proof (induction cs arbitrary: i w sp argc m)
  case Nil
  have i: "i < 128" "argc < PROC_ORIGIN_STACK" "Suc argc < PROC_ORIGIN_STACK" "m (base + rdbuf + of_nat i) = 0"
    using Nil by (simp_all add: rest_at_def)
  note end_ = shell_words_end[where m = m and base = base and rdbuf = rdbuf and argv = argv and sp = sp, OF i(1,4,2)]
  show ?case
  proof (cases "w = []")
    case True
    then show ?thesis using end_ words_done_Nil[OF i(2)] by simp
  next
    case False
    then show ?thesis
      using Nil end_ words_done_Cons[OF ap i(1) _ _ False _ nz words_done_Nil[OF i(3)], where m = m and sp = sp] i(3) by simp
  qed
next
  case (Cons c cs)
  let ?la = "base + rdbuf"
  have i: "i < 128" "argc < PROC_ORIGIN_STACK" "m (?la + of_nat i) = c" "c \<noteq> 0" "rest_at m ?la (Suc i) cs"
    using Cons.prems by (simp_all add: rest_at_Cons)
  have n: "argc + length (words_from v cs) < PROC_ORIGIN_STACK" for v
    using words_from_length[of v cs] Cons.prems(3) by simp
  show ?case
  proof (cases "c = 0x20")
    case blank: True
    show ?thesis
    proof (cases "w = []")
      case True
      obtain m' where "shell_words base rdbuf argv (Suc i) False sp argc m = Inr (argc + length (words_from [] cs), m')"
        "words_done base rdbuf argv (Suc i) argc m (words_from [] cs) m'"
        using Cons.IH[of m "Suc i" argc "[]" sp] Cons.prems i(5) by auto
      then show ?thesis
        using True blank shell_words_space[OF i(1), of m base rdbuf argv sp argc] i(3) words_done_later[OF _ i(1)] n[of "[]"] by auto
    next
      case False
      let ?m1 = "cut_word ?la (base + argv) i sp argc m"
      have w: "word_at m ?la i w" "sp = rdbuf + of_nat (i - length w)" using Cons.prems False by simp_all
      have b: "Suc argc + Suc (length (words_from [] cs)) \<le> PROC_ORIGIN_STACK"
        using Cons.prems words_from_length[of "[]" cs] by simp
      have "rest_at ?m1 ?la (Suc i) cs" using rest_at_cut[OF ap i(2,5)] Cons.prems(2) by simp
      then obtain m' where
        m': "shell_words base rdbuf argv (Suc i) False sp (Suc argc) ?m1 = Inr (Suc argc + length (words_from [] cs), m')"
          "words_done base rdbuf argv (Suc i) (Suc argc) ?m1 (words_from [] cs) m'"
        using Cons.IH[of ?m1 "Suc i" "Suc argc" "[]" sp] Cons.prems by auto
      then show ?thesis
        using False blank words_done_Cons[OF ap i(1) b w(1) False w(2) nz m'(2)]
          shell_words_cut[OF i(1) _ i(2), of m base rdbuf argv sp] i(3) by (intro exI[of _ m']) simp
    qed
  next
    case char: False
    let ?w = "w @ [c]" let ?sp = "if w \<noteq> [] then sp else rdbuf + of_nat i"
    have "word_at m ?la i w" using Cons.prems(4) by (cases "w = []") (simp add: word_at_def, simp)
    then have "word_at m ?la (Suc i) ?w" using word_at_snoc[of m ?la i w c] i(3,4) by simp
    moreover have "?sp = rdbuf + of_nat (Suc i - length ?w)" using Cons.prems by simp
    ultimately obtain m' where "shell_words base rdbuf argv (Suc i) True ?sp argc m = Inr (argc + length (words_from ?w cs), m')"
      "words_done base rdbuf argv (Suc i) argc m (words_from ?w cs) m'"
      using Cons.IH[of m "Suc i" argc ?w ?sp] Cons.prems i(5) by auto
    then show ?thesis
      using char shell_words_char[OF i(1), of m base rdbuf argv "w \<noteq> []" sp argc] i(3,4) words_done_later[OF _ i(1)] n[of ?w] by auto
  qed
qed

lemma strs_size_words: "strs_size (words_from w cs) \<le> length w + length cs + 1"
  by (induction w cs rule: words_from.induct) auto

text \<open>
  C38. What is typed at the shell is what the program gets. The shell cuts the line it has read
  into words in place, without leaving its two arrays; the vector it builds holds exactly the
  words of the line, in order, its length is the count, and \<open>execv\<close> packs it, without running
  into its size limit, into an argument block with the same words.
\<close>

theorem shell_words_reach_exec:
  assumes "region (base + l_buf L) 128 \<inter> region (base + l_argv L) 0x1000 = {}"
    "(region (base + l_buf L) 128 \<union> region (base + l_argv L) 0x1000) \<inter> region (base + l_stack L) PROC_ORIGIN_STACK = {}"
    "l_buf L \<noteq> 0" "unat (l_buf L) + 128 \<le> 2 ^ 32"
    "cstr (kmem s) (base + l_buf L) line" "length line < 128"
  shows "\<exists>t m. shell_args base L s = Inr (length (line_words line), t) \<and>
    args_at (kmem t) base (l_argv L) (line_words line) \<and>
    (\<forall>x. x \<notin> region (base + l_buf L) 128 \<union> region (base + l_argv L) 0x1000 \<longrightarrow> kmem t x = kmem s x) \<and>
    build_stack base (l_stack L) (l_argv L) (kmem t) = Inr (stack_size (line_words line), m) \<and>
    arg_block m (base + l_stack L) (l_stack L) (line_words line)"
proof -
  let ?la = "base + l_buf L" let ?a = "base + l_argv L" let ?ws = "line_words line"
  have n: "length ?ws \<le> 128" "strs_size ?ws \<le> 128"
    using words_from_length[of "[]" line] strs_size_words[of "[]" line] assms(6) by (simp_all add: line_words_def)
  have "rest_at (kmem s) ?la 0 line" using assms(5) by (simp add: rest_at_def)
  from shell_words_ok[OF assms(1,3,4) this, of 0 "[]" 0] assms(6) obtain m1 where
    m1: "shell_words base (l_buf L) (l_argv L) 0 False 0 0 (kmem s) = Inr (length ?ws, m1)"
      "\<forall>x. x \<notin> cut_area ?la ?a 0 0 (length ?ws) \<longrightarrow> m1 x = kmem s x"
      "args_at (wr32 m1 (?a + of_nat (4 * length ?ws)) 0) base (l_argv L) ?ws"
      "args_area (wr32 m1 (?a + of_nat (4 * length ?ws)) 0) base (l_argv L) ?ws \<subseteq> region ?la 128 \<union> region ?a 0x1000"
    by (auto simp: line_words_def words_done_def Let_def)
  let ?t = "s\<lparr>kmem := wr32 m1 (?a + of_nat (4 * length ?ws)) 0\<rparr>"
  have run: "shell_args base L s = Inr (length ?ws, ?t)" using m1(1) n(1) by (simp add: shell_args_def)
  have frame: "kmem ?t x = kmem s x" if "x \<notin> region ?la 128 \<union> region ?a 0x1000" for x
  proof -
    have "region (?a + of_nat (4 * length ?ws)) 4 \<subseteq> region ?a 0x1000" "region ?a (4 * length ?ws) \<subseteq> region ?a 0x1000"
      using n(1) by (intro region_sub[of _ _ "4 * length ?ws"] region_sub[of _ _ 0]; simp)+
    then have "x \<notin> region (?a + of_nat (4 * length ?ws)) 4" "x \<notin> cut_area ?la ?a 0 0 (length ?ws)"
      using that by (auto simp: cut_area_def)
    then show ?thesis using wr32_other[of x "?a + of_nat (4 * length ?ws)" m1 0] m1(2) by simp
  qed
  have small: "stack_size ?ws < PROC_ORIGIN_STACK" using n by (simp add: stack_size_def)
  have apart: "args_area (kmem ?t) base (l_argv L) ?ws \<inter> region (base + l_stack L) PROC_ORIGIN_STACK = {}"
    using m1(4) assms(2) by auto
  have args: "args_at (kmem ?t) base (l_argv L) ?ws" using m1(3) by simp
  from build_stack_block[OF args apart] small obtain m where
    "build_stack base (l_stack L) (l_argv L) (kmem ?t) = Inr (stack_size ?ws, m)"
    "arg_block m (base + l_stack L) (l_stack L) ?ws" by blast
  then show ?thesis using run args frame by (intro exI[of _ ?t] exI[of _ m]) simp
qed

text \<open>The line "a  b", typed at a shell with its arrays at 0x1000, 0x2000 and 0x4000.\<close>

definition shell_locals :: ulocals where
  "shell_locals = \<lparr> l_print = 0x5000, l_name = 0x5100, l_buf = 0x1000, l_argv = 0x2000, l_status = 0x5200,
     l_stack = 0x4000, l_lit = (\<lambda>_. 0x6000) \<rparr>"

theorem shell_words_reach_exec_witness:
  "\<exists>t m. shell_args 0 shell_locals (idle_state\<lparr>kmem := (\<lambda>_. 0)(0x1000 := 0x61, 0x1001 := 0x20, 0x1002 := 0x20, 0x1003 := 0x62)\<rparr>)
       = Inr (2, t) \<and> args_at (kmem t) 0 0x2000 [[0x61], [0x62]] \<and>
     build_stack 0 0x4000 0x2000 (kmem t) = Inr (stack_size [[0x61], [0x62]], m) \<and>
     arg_block m 0x4000 0x4000 [[0x61], [0x62]]"
proof -
  let ?s = "idle_state\<lparr>kmem := (\<lambda>_. 0)(0x1000 := 0x61, 0x1001 := 0x20, 0x1002 := 0x20, 0x1003 := 0x62)\<rparr>"
  have "region (0 + of_nat 0x1000) 128 \<inter> region (0 + of_nat 0x2000) 0x1000 = {}"
    "region (0 + of_nat 0x1000) 128 \<inter> region (0 + of_nat 0x4000) PROC_ORIGIN_STACK = {}"
    "region (0 + of_nat 0x2000) 0x1000 \<inter> region (0 + of_nat 0x4000) PROC_ORIGIN_STACK = {}"
    by (rule region_apart; simp)+
  then have r: "region 0x1000 128 \<inter> region 0x2000 0x1000 = {}" "region 0x1000 128 \<inter> region 0x4000 PROC_ORIGIN_STACK = {}"
    "region 0x2000 0x1000 \<inter> region 0x4000 PROC_ORIGIN_STACK = {}" by simp_all
  have c: "cstr (kmem ?s) 0x1000 [0x61, 0x20, 0x20, 0x62]" by simp
  have w: "line_words [0x61, 0x20, 0x20, 0x62] = [[0x61], [0x62]]" by (simp add: line_words_def)
  have l: "l_buf shell_locals = 0x1000" "l_argv shell_locals = 0x2000" "l_stack shell_locals = 0x4000"
    by (simp_all add: shell_locals_def)
  have h: "region (0 + l_buf shell_locals) 128 \<inter> region (0 + l_argv shell_locals) 0x1000 = {}"
    "(region (0 + l_buf shell_locals) 128 \<union> region (0 + l_argv shell_locals) 0x1000) \<inter>
       region (0 + l_stack shell_locals) PROC_ORIGIN_STACK = {}"
    "l_buf shell_locals \<noteq> 0" "unat (l_buf shell_locals) + 128 \<le> 2 ^ 32"
    "cstr (kmem ?s) (0 + l_buf shell_locals) [0x61, 0x20, 0x20, 0x62]" "length [0x61, 0x20, 0x20, 0x62 :: byte] < 128"
    unfolding l add_0 Int_Un_distrib2 r using c by simp_all
  obtain t m where "shell_args 0 shell_locals ?s = Inr (length [[0x61], [0x62 :: byte]], t)"
    "args_at (kmem t) 0 0x2000 [[0x61], [0x62]]"
    "build_stack 0 0x4000 0x2000 (kmem t) = Inr (stack_size [[0x61], [0x62 :: byte]], m)"
    "arg_block m 0x4000 0x4000 [[0x61], [0x62]]"
    using shell_words_reach_exec[OF h, unfolded l w add_0] by (elim exE conjE) (rule that; assumption)
  then show ?thesis by (intro exI[of _ t] exI[of _ m] conjI) simp_all
qed

subsection \<open>The size field of an archive\<close>

text \<open>A number as \<open>k\<close> octal digits, the way an archive holds the size of a file.\<close>

primrec octal_digits :: "nat \<Rightarrow> nat \<Rightarrow> byte list" where
  "octal_digits 0 n = []"
| "octal_digits (Suc k) n = octal_digits k (n div 8) @ [0x30 + of_nat (n mod 8)]"

definition octal_step :: "int \<Rightarrow> byte \<Rightarrow> int" where
  "octal_step v d = s32 (s32 (v * 8) + (sint d - 0x30))"

lemma octal_cstr: "cstr m p ds \<Longrightarrow> octal m p v = Some (foldl octal_step v ds)"
  by (induction ds arbitrary: p v) (simp_all add: octal.simps[of m] octal_step_def)

lemma less_8_cases: "(d::nat) < 8 \<Longrightarrow> d \<in> {0, 1, 2, 3, 4, 5, 6, 7}"
  by auto

lemma octal_digit:
  assumes "d < 8"
  shows "sint (0x30 + of_nat d :: byte) - 0x30 = int d" "(0x30 + of_nat d :: byte) \<noteq> 0"
  using less_8_cases[OF assms] by auto

lemma length_octal_digits [simp]: "length (octal_digits k n) = k"
  by (induction k arbitrary: n) simp_all

lemma octal_digits_nonzero: "0 \<notin> set (octal_digits k n)"
proof (induction k arbitrary: n)
  case (Suc k)
  have "(0x30 + of_nat (n mod 8) :: byte) \<noteq> 0" by (rule octal_digit) simp
  then show ?case using Suc.IH[of "n div 8"] by (metis Un_iff empty_iff empty_set list.set_intros(1) octal_digits.simps(2) set_ConsD set_append)
qed simp

lemma octal_digits_value: "n < 8 ^ k \<Longrightarrow> n < 2 ^ 31 \<Longrightarrow> foldl octal_step 0 (octal_digits k n) = int n"
proof (induction k arbitrary: n)
  case (Suc k)
  have "n div 8 < 8 ^ k" "n div 8 < 2 ^ 31" using Suc.prems by (simp_all add: less_mult_imp_div_less)
  then have "foldl octal_step 0 (octal_digits k (n div 8)) = int (n div 8)" by (rule Suc.IH)
  moreover have "s32 (int (n div 8) * 8) = int (n div 8) * 8" using Suc.prems(2) by (intro s32_id) simp_all
  moreover have "int (n div 8) * 8 + int (n mod 8) = int n" by (simp add: zdiv_int zmod_int)
  moreover have "s32 (int n) = int n" using Suc.prems(2) by (intro s32_id) simp_all
  ultimately have "octal_step (int (n div 8)) (0x30 + of_nat (n mod 8)) = int n"
    using octal_digit(1)[of "n mod 8"] by (simp add: octal_step_def)
  then show ?case using \<open>foldl octal_step 0 (octal_digits k (n div 8)) = int (n div 8)\<close> by simp
qed simp

text \<open>\<open>untar\<close> reads the size field of a header as the number whose digits it holds.\<close>

lemma octal_reads_size:
  assumes "cstr (kmem s) p (octal_digits k n)" "n < 8 ^ k" "n < 2 ^ 31"
  shows "octalE p s = Inr (int n, s)"
  using octal_cstr[OF assms(1), of 0] octal_digits_value[OF assms(2,3)] by (simp add: octalE_def)

end
