(* ===== verification/Display.thy ===== *)
theory Display
  imports Ports Disp
begin

section \<open>Exceptions and unexpected interrupts on the screen\<close>

text \<open>
  What the kernel prints on the first rows of the screen: \<open>exception_handler\<close> of
  kernel/protect.c and \<open>spurious_irq\<close> of kernel/i8259.c.
\<close>

subsection \<open>Exceptions and unexpected interrupts\<close>

definition err_description :: "byte list list" where
  "err_description = [ascii ''#DE Divide Error'', ascii ''#DB RESERVED'', [0xA1, 0xAA] @ ascii ''  NMI Interrupt'',
     ascii ''#BP Breakpoint'', ascii ''#OF Overflow'', ascii ''#BR BOUND Range Exceeded'',
     ascii ''#UD Invalid Opcode (Undefined Opcode)'', ascii ''#NM Device Not Available (No Math Coprocessor)'',
     ascii ''#DF Double Fault'', ascii ''    Coprocessor Segment Overrun (reserved)'', ascii ''#TS Invalid TSS'',
     ascii ''#NP Segment Not Present'', ascii ''#SS Stack-Segment Fault'', ascii ''#GP General Protection'',
     ascii ''#PF Page Fault'', [0xA1, 0xAA] @ ascii ''  (Intel reserved. Do not use.)'',
     ascii ''#MF x87 FPU Floating-Point Error (Math Fault)'', ascii ''#AC Alignment Check'', ascii ''#MC Machine Check'',
     ascii ''#XF SIMD Floating-Point Exception'']"

definition exception_handler :: "int \<Rightarrow> int \<Rightarrow> int \<Rightarrow> int \<Rightarrow> int \<Rightarrow> ('a iostate_scheme, unit) op" where
  "exception_handler vec_no err_code eip cs eflags =
     (let text_color = 0x74 in blockE [
        modE (\<lambda>s. s\<lparr>disp_pos := 0\<rparr>),
        forE [0..<80 * 5] (\<lambda>i. disp_str (ascii '' '')),
        modE (\<lambda>s. s\<lparr>disp_pos := 0\<rparr>),
        disp_color_str (ascii ''Exception! --> '') text_color,
        (if 0 \<le> vec_no \<and> vec_no < int (length err_description) then disp_color_str (err_description ! nat vec_no) text_color
         else fail (Bad_access ''err_description'')),
        disp_color_str [0x0A, 0x0A] text_color,
        disp_color_str (ascii ''EFLAGS:'') text_color,
        disp_int eflags,
        disp_color_str (ascii ''CS:'') text_color,
        disp_int cs,
        disp_color_str (ascii ''EIP:'') text_color,
        disp_int eip,
        whenE (u32_int err_code \<noteq> 0xFFFFFFFF) (blockE [
          disp_color_str (ascii ''Error code:'') text_color,
          disp_int err_code])])"

definition spurious_irq :: "int \<Rightarrow> ('a iostate_scheme, unit) op" where
  "spurious_irq irq = blockE [disp_str (ascii ''spurious_irq: ''), disp_int irq, disp_str [0x0A]]"

lemma printed_blanks:
  assumes "printed s p bs t" "p + 2 * (length bs + length xs) < 0xFFF0"
  shows "\<exists>u. forE xs (\<lambda>_. disp_str (ascii '' '')) t = Inr ((), u) \<and> printed s p (bs @ replicate (length xs) 0x20) u"
  using assms
proof (induction xs arbitrary: bs t)
  case (Cons x xs)
  have "\<exists>u. disp_str (ascii '' '') t = Inr ((), u) \<and> printed s p (bs @ [0x20]) u"
    using printed_text[OF Cons.prems(1), of "[0x20]" "0x0F"] Cons.prems(2) by (simp add: disp_str_def ascii_def plain_text_def)
  then obtain u where u: "disp_str (ascii '' '') t = Inr ((), u)" "printed s p (bs @ [0x20]) u" by blast
  from Cons.IH[OF u(2)] Cons.prems(2) show ?case by (auto simp: u(1))
qed (simp add: op_defs)

subsection \<open>The screen of an exception\<close>

lemma err_description_ok:
  assumes "v < length err_description"
  shows "plain_text (err_description ! v)" "length (err_description ! v) \<le> 47"
proof -
  have "list_all (\<lambda>bs. plain_text bs \<and> length bs \<le> 47) err_description"
    by (simp add: err_description_def plain_text_def ascii_def)
  then show "plain_text (err_description ! v)" "length (err_description ! v) \<le> 47"
    using assms by (simp_all add: list_all_length)
qed

lemma two_newlines:
  assumes "disp_pos t = int q" "q < 160"
  shows "disp_color_str [0x0A, 0x0A] col t = Inr ((), t\<lparr>disp_pos := 320\<rparr>)"
proof -
  have "(of_nat q :: u32) < 160" using assms(2) by (simp add: word_less_nat_alt unat_of_nat)
  then have "(of_nat q AND 0xFFFF :: u32) < 160" by (rule le_less_trans[OF word_and_le2])
  then have "(of_nat q AND 0xFFFF :: u32) div 160 = 0" by (rule div_word_less)
  then show ?thesis using assms(1) by (simp add: disp_color_str_def u32_int_def)
qed

lemma bindE_ret: "bindE m ret = m" "bindE (ret x) f = f x"
  by (auto simp: bindE_def ret_def fun_eq_iff split: sum.splits)

lemma cells_cong: "cells m p bs \<Longrightarrow> \<forall>x. x \<in> region (VIDEO + of_nat p) (2 * length bs) \<longrightarrow> m' x = m x \<Longrightarrow> 2 * length bs \<le> 2 ^ 32 \<Longrightarrow> cells m' p bs"
proof -
  assume c: "cells m p bs" and e: "\<forall>x. x \<in> region (VIDEO + of_nat p) (2 * length bs) \<longrightarrow> m' x = m x" and l: "2 * length bs \<le> 2 ^ 32"
  have "VIDEO + of_nat (p + 2 * i) \<in> region (VIDEO + of_nat p) (2 * length bs)" if "i < length bs" for i
  proof -
    have "2 * i < 2 * length bs" using that by simp
    then show ?thesis unfolding region_iff[OF l] by (intro exI[of _ "2 * i"]) simp
  qed
  then show "cells m' p bs" using c e by (simp add: cells_def del: of_nat_add)
qed

lemma cell_outside:
  assumes "q < p \<or> p + 2 * n \<le> q" "p + 2 * n < 0x10000" "q < 0x10000"
  shows "VIDEO + of_nat q \<notin> region (VIDEO + of_nat p) (2 * n)"
proof
  have l: "2 * n \<le> 2 ^ 32" using assms(2) by simp
  assume "VIDEO + of_nat q \<in> region (VIDEO + of_nat p) (2 * n)"
  then obtain j where j: "j < 2 * n" "VIDEO + of_nat q = VIDEO + of_nat p + (of_nat j :: addr)"
    unfolding region_iff[OF l] by blast
  then have "VIDEO + of_nat q = VIDEO + (of_nat (p + j) :: addr)" by simp
  then have "q = p + j" using video_apart[of q "p + j"] assms j(1) by force
  then show False using assms(1) j(1) by auto
qed

text \<open>
  C39. Whatever exception the processor raises, with any error code and any registers, the report
  fits the five rows that are cleared for it: the first has the name of the exception, the third
  the flags, the code segment and the instruction pointer in hexadecimal, and the error code if
  there is one; every other cell of the five rows is blank, and no other memory changes.
\<close>

theorem exception_screen:
  assumes "0 \<le> v" "v < int (length err_description)"
  shows "\<exists>t. exception_handler v err_code eip cs eflags s = Inr ((), t) \<and>
    cells (kmem t) 0 (ascii ''Exception! --> '' @ err_description ! nat v) \<and>
    cells (kmem t) 320 (ascii ''EFLAGS:'' @ itoa eflags @ ascii ''CS:'' @ itoa cs @ ascii ''EIP:'' @ itoa eip @
      (if u32_int err_code \<noteq> 0xFFFFFFFF then ascii ''Error code:'' @ itoa err_code else [])) \<and>
    (\<forall>i < 400. length (ascii ''Exception! --> '' @ err_description ! nat v) \<le> i \<longrightarrow> i < 160 \<or>
       160 + length (ascii ''EFLAGS:'' @ itoa eflags @ ascii ''CS:'' @ itoa cs @ ascii ''EIP:'' @ itoa eip @
         (if u32_int err_code \<noteq> 0xFFFFFFFF then ascii ''Error code:'' @ itoa err_code else [])) \<le> i \<longrightarrow>
       kmem t (VIDEO + of_nat (2 * i)) = 0x20) \<and>
    (\<forall>x. x \<notin> region VIDEO 800 \<longrightarrow> kmem t x = kmem s x)"
proof -
  let ?desc = "err_description ! nat v"
  have lits: "plain_text (ascii ''Exception! --> '')" "plain_text (ascii ''EFLAGS:'')" "plain_text (ascii ''CS:'')"
    "plain_text (ascii ''EIP:'')" "plain_text (ascii ''Error code:'')" "length (ascii ''Exception! --> '') = 15"
    "length (ascii ''EFLAGS:'') = 7" "length (ascii ''CS:'') = 3" "length (ascii ''EIP:'') = 4" "length (ascii ''Error code:'') = 11"
    by (simp_all add: plain_text_def ascii_def)
  have "nat v < length err_description" using assms by simp
  note desc = err_description_ok[OF this]
  let ?s0 = "s\<lparr>disp_pos := 0\<rparr>"
  have "printed ?s0 0 [] ?s0" by (rule printed_Nil) simp
  from printed_blanks[OF this, of "[0..<80 * 5]"] obtain a where
    a: "forE [0..<80 * 5] (\<lambda>_. disp_str (ascii '' '')) ?s0 = Inr ((), a)" "printed ?s0 0 (replicate 400 0x20) a" by auto
  let ?a = "a\<lparr>disp_pos := 0\<rparr>"
  have "printed ?a 0 [] ?a" by (rule printed_Nil) simp
  from printed_block[OF this, of "[(ascii ''Exception! --> '', 0x74), (?desc, 0x74)]" "[]"] lits(1,6) desc obtain c where
    "blockE [disp_color_str (ascii ''Exception! --> '') 0x74, disp_color_str ?desc 0x74] ?a = blockE [] c"
    and c: "printed ?a 0 (ascii ''Exception! --> '' @ ?desc) c" by auto
  then have row0: "bindE (disp_color_str (ascii ''Exception! --> '') 0x74) (\<lambda>_. bindE (disp_color_str ?desc 0x74) (\<lambda>_. m)) ?a = m c" for m
    by (auto simp: bindE_def op_defs split: sum.splits)
  have nl: "disp_color_str [0x0A, 0x0A] 0x74 c = Inr ((), c\<lparr>disp_pos := 320\<rparr>)"
    by (rule two_newlines[of c "2 * length (ascii ''Exception! --> '' @ ?desc)"]) (use c lits(6) desc(2) in \<open>simp_all add: printed_def\<close>)
  let ?c = "c\<lparr>disp_pos := 320\<rparr>"
  let ?regs = "[(ascii ''EFLAGS:'', 0x74), (itoa eflags, 0x0F), (ascii ''CS:'', 0x74), (itoa cs, 0x0F), (ascii ''EIP:'', 0x74), (itoa eip, 0x0F :: byte)]"
  let ?ps = "?regs @ (if u32_int err_code \<noteq> 0xFFFFFFFF then [(ascii ''Error code:'', 0x74), (itoa err_code, 0x0F)] else [])"
  let ?row = "concat (map fst ?ps)"
  have "length ?row \<le> 65"
    using itoa_value(3)[of eflags] itoa_value(3)[of cs] itoa_value(3)[of eip] itoa_value(3)[of err_code] lits(7-10) by simp
  moreover have "printed ?c 320 [] ?c" by (rule printed_Nil) simp
  ultimately obtain d where d: "blockE (map (\<lambda>(cs, col). disp_color_str cs col) ?ps) ?c = Inr ((), d)" "printed ?c 320 ?row d"
    using printed_block[of ?c 320 "[]" ?c ?ps "[]"] lits(2-5) itoa_plain by (auto simp: op_defs)
  have "exception_handler v err_code eip cs eflags s = blockE (map (\<lambda>(cs, col). disp_color_str cs col) ?ps) ?c"
    using assms a(1) nl by (simp add: exception_handler_def Let_def op_defs row0 disp_int_def disp_str_def bindE_assoc bindE_ret)
  then have run: "exception_handler v err_code eip cs eflags s = Inr ((), d)" using d(1) by simp
  have mem_d: "kmem d x = kmem c x" if "x \<notin> region (VIDEO + of_nat 320) (2 * length ?row)" for x
    using d(2) that by (simp add: printed_def del: concat.simps map_append)
  let ?text = "ascii ''Exception! --> '' @ ?desc"
  have row: "2 * length ?row \<le> 130" using \<open>length ?row \<le> 65\<close> by linarith
  have low: "2 * length ?text \<le> 124" using lits(6) desc(2) by simp
  have "region (VIDEO + of_nat 0) (2 * length ?text) \<inter> region (VIDEO + of_nat 320) (2 * length ?row) = {}"
  proof (rule region_apart)
    show "320 + 2 * length ?row \<le> 2 ^ 32" by (rule order_trans[OF add_left_mono[OF row]]) simp
  qed (use low in linarith)
  then have keep: "\<forall>x. x \<in> region (VIDEO + of_nat 0) (2 * length ?text) \<longrightarrow> kmem d x = kmem c x"
    using mem_d by blast
  have "cells (kmem c) 0 ?text" using c unfolding printed_def by blast
  then have "cells (kmem d) 0 ?text" by (rule cells_cong[OF _ keep]) (rule order_trans[OF low], simp)
  moreover have "cells (kmem d) 320 ?row" using d(2) unfolding printed_def by blast
  moreover have "kmem d x = kmem s x" if x: "x \<notin> region VIDEO 800" for x
  proof -
    have "region (VIDEO + of_nat 320) (2 * length ?row) \<subseteq> region VIDEO 800"
      by (rule region_sub[of _ _ 320]) (use row in \<open>simp_all del: concat.simps map_append\<close>)
    moreover have "region (VIDEO + of_nat 0) (2 * length ?text) \<subseteq> region VIDEO 800"
      by (rule region_sub[of _ _ 0]) (use low in simp_all)
    ultimately have "kmem d x = kmem c x" "kmem c x = kmem ?a x" using x mem_d c unfolding printed_def by blast+
    moreover have "kmem a x = kmem ?s0 x" using a(2) x by (simp add: printed_def)
    ultimately show ?thesis by simp
  qed
  moreover have "kmem d (VIDEO + of_nat (2 * i)) = 0x20"
    if i: "i < 400" "length ?text \<le> i" "i < 160 \<or> 160 + length ?row \<le> i" for i
  proof -
    have "VIDEO + of_nat (2 * i) \<notin> region (VIDEO + of_nat 0) (2 * length ?text)"
      "VIDEO + of_nat (2 * i) \<notin> region (VIDEO + of_nat 320) (2 * length ?row)"
      using i row low by (intro cell_outside; linarith)+
    then have "kmem d (VIDEO + of_nat (2 * i)) = kmem ?a (VIDEO + of_nat (2 * i))"
      using mem_d c unfolding printed_def by metis
    moreover have "kmem a (VIDEO + of_nat (2 * i)) = 0x20"
      using a(2) i(1) by (simp add: printed_def cells_def)
    ultimately show ?thesis by simp
  qed
  moreover have rw: "?row = ascii ''EFLAGS:'' @ itoa eflags @ ascii ''CS:'' @ itoa cs @ ascii ''EIP:'' @ itoa eip @
      (if u32_int err_code \<noteq> 0xFFFFFFFF then ascii ''Error code:'' @ itoa err_code else [])" by simp
  ultimately show ?thesis using run unfolding rw by blast
qed

text \<open>A general protection fault with error code 24.\<close>

theorem exception_screen_witness:
  "\<exists>t. exception_handler 13 24 0x1234 8 0x202 idle_io = Inr ((), t) \<and>
    cells (kmem t) 0 (ascii ''Exception! --> #GP General Protection'') \<and> kmem t (VIDEO + 200) = 0x20"
proof -
  have v: "(0 :: int) \<le> 13" "13 < int (length err_description)" by (simp_all add: err_description_def)
  have title: "ascii ''Exception! --> '' @ err_description ! nat 13 = ascii ''Exception! --> #GP General Protection''"
    by (simp add: err_description_def ascii_def)
  have len: "length (ascii ''Exception! --> #GP General Protection'') \<le> 100" by (simp add: ascii_def)
  obtain u where u: "exception_handler 13 24 0x1234 8 0x202 idle_io = Inr ((), u)"
    "cells (kmem u) 0 (ascii ''Exception! --> #GP General Protection'')"
    "\<forall>i < 400. length (ascii ''Exception! --> #GP General Protection'') \<le> i \<longrightarrow> i < 160 \<or>
       160 + length (ascii ''EFLAGS:'' @ itoa 0x202 @ ascii ''CS:'' @ itoa 8 @ ascii ''EIP:'' @ itoa 0x1234 @
         (if u32_int 24 \<noteq> 0xFFFFFFFF then ascii ''Error code:'' @ itoa 24 else [])) \<le> i \<longrightarrow>
       kmem u (VIDEO + of_nat (2 * i)) = 0x20"
    using exception_screen[OF v, of 24 "0x1234" 8 "0x202" idle_io] unfolding title by (elim exE conjE)
  have "kmem u (VIDEO + of_nat (2 * 100)) = 0x20"
    using u(3)[rule_format, of 100] len by simp
  then show ?thesis using u(1,2) by auto
qed

end
