(* ===== verification/Hd_Init.thy ===== *)
theory Hd_Init
  imports Hd Ports Ipc
begin

section \<open>The disk driver's interrupt\<close>

text \<open>
  \<open>init_hd\<close> and \<open>hd_handler\<close> of driver/hd.c, on the state with the interrupt controller. The
  table \<open>hds_info\<close>, which \<open>init_hd\<close> fills with zeros, is its result.
\<close>

abbreviation (input) CASCADE_IRQ :: nat where "CASCADE_IRQ \<equiv> 2"
abbreviation (input) AT_WINI_IRQ :: nat where "AT_WINI_IRQ \<equiv> 14"

definition zero_hd_info :: hd_info where
  "zero_hd_info = \<lparr> open_cnt = 0, primary = (\<lambda>_. \<lparr>base = 0, part_size = 0\<rparr>), logical = (\<lambda>_. \<lparr>base = 0, part_size = 0\<rparr>) \<rparr>"

definition init_hd :: "hardware \<Rightarrow> ('a iostate_scheme, nat \<Rightarrow> hd_info) op" where
  "init_hd io =
     bindE (assertE ''*Nr_Drivers_p'' (\<lambda>s. kmem s 0x475 \<noteq> 0)) (\<lambda>_.
     bindE (put_irq_handler io AT_WINI_IRQ Hd_handler) (\<lambda>_.
     bindE (enable_irq io CASCADE_IRQ) (\<lambda>_.
     bindE (enable_irq io AT_WINI_IRQ) (\<lambda>_.
     ret (\<lambda>drive. zero_hd_info)))))"

text \<open>Reading the status register ends the drive's request; its value goes to \<open>hd_status\<close>, the result.\<close>

definition hd_handler :: "hardware \<Rightarrow> ('a iostate_scheme, byte) op" where
  "hd_handler io =
     bindE (in_byte io REG_CMD) (\<lambda>hd_status.
     bindE (inform_int TASK_HD) (\<lambda>_. ret hd_status))"

text \<open>
  From a controller with the disk's line closed, \<open>init_hd\<close> installs the handler, opens that line
  and the cascade's, and leaves every other line and handler as it was.
\<close>

lemma init_hd_lines:
  assumes "pic_ok io" "last_out INT_M_CTLMASK (io_log s) = Some v" "last_out INT_S_CTLMASK (io_log s) = Some w"
    "w AND irq_bit AT_WINI_IRQ \<noteq> 0" "kmem s 0x475 \<noteq> 0"
  shows "\<exists>t. init_hd io s = Inr (\<lambda>_. zero_hd_info, t) \<and> irq_table t = (irq_table s)(AT_WINI_IRQ := Hd_handler) \<and>
    (\<forall>j < NR_IRQ. masked t j = (j \<noteq> CASCADE_IRQ \<and> j \<noteq> AT_WINI_IRQ \<and> masked s j))"
proof -
  have c: "ctlmask AT_WINI_IRQ = INT_S_CTLMASK" "ctlmask CASCADE_IRQ = INT_M_CTLMASK" by (simp_all add: ctlmask_def)
  let ?a = "s\<lparr>io_log := In INT_S_CTLMASK # io_log s, irq_table := (irq_table s)(AT_WINI_IRQ := Hd_handler)\<rparr>"
  have put: "put_irq_handler io AT_WINI_IRQ Hd_handler s = Inr ((), ?a)"
    using irq_line_disabled[OF assms(1), of AT_WINI_IRQ s w] assms(3,4) c(1) by (simp add: put_irq_handler_def bindE_def op_defs)
  let ?b = "?a\<lparr>io_log := Out INT_M_CTLMASK (v AND NOT (irq_bit CASCADE_IRQ)) # In INT_M_CTLMASK # io_log ?a\<rparr>"
  have b: "enable_irq io CASCADE_IRQ ?a = Inr ((), ?b)"
    using pic_okD[OF assms(1), of CASCADE_IRQ "io_log ?a" v] assms(2) c(2) by (simp add: enable_irq_def bindE_def io_defs)
  have lb: "last_out (ctlmask CASCADE_IRQ) (io_log ?a) = Some v" "last_out (ctlmask AT_WINI_IRQ) (io_log ?b) = Some w"
    using assms(2,3) c by simp_all
  let ?c = "?b\<lparr>io_log := Out INT_S_CTLMASK (w AND NOT (irq_bit AT_WINI_IRQ)) # In INT_S_CTLMASK # io_log ?b\<rparr>"
  have e: "enable_irq io AT_WINI_IRQ ?b = Inr ((), ?c)"
    using pic_okD[OF assms(1) lb(2)] c(1) by (simp add: enable_irq_def bindE_def io_defs)
  have "masked ?c j = (j \<noteq> AT_WINI_IRQ \<and> masked ?b j)" "masked ?b j = (j \<noteq> CASCADE_IRQ \<and> masked ?a j)" if "j < NR_IRQ" for j
    using enable_irq_masks[OF assms(1) lb(2) _ that] enable_irq_masks[OF assms(1) lb(1) _ that] b e by auto
  moreover have "masked ?a j = masked s j" for j by (simp add: masked_def)
  moreover have "init_hd io s = Inr (\<lambda>_. zero_hd_info, ?c)"
    using put b e assms(5) by (simp add: init_hd_def op_defs)
  ultimately show ?thesis by (intro exI[of _ ?c]) auto
qed

end
