(* ===== verification/Spec2Isabelle.thy ===== *)
theory Spec2Isabelle
  imports Ipc_Reach Clock Err Fs_Unlink Mm_Exec Mm_Exit Boot Shell Display Hd_Init
begin

text \<open>
  A model of DIY_kernel, a small message-passing kernel for the i386: a kernel that switches
  processes and passes messages, five tasks that serve system calls (terminal, system, disk,
  file system, memory manager), and the programs linked with it. The model is a set of HOL
  functions translated from the C code, component by component; the theorems are about them.

  \<^bold>\<open>How the program is put together.\<close> \<open>cstart\<close> and \<open>tinix_main\<close> (kernel/start.c, kernel/main.c)
  set up the descriptor tables, the process table and the two interrupts and enter the first
  process. Processes and tasks reach each other only through \<open>sys_sendrec\<close> (kernel/proc.c), a
  rendezvous: a sender waits in the receiver's queue, a receiver waits for a sender, for anybody
  or for an interrupt. The clock (kernel/clock.c) takes the slices that \<open>schedule\<close> hands out.
  The library (lib/unistd.c) turns calls into messages: files go to the file system (fs/), which
  asks the disk driver (driver/hd.c) or the terminal (kernel/tty.c), fork, exec, exit and wait go
  to the memory manager (mm/), which asks the file system.

  \<^bold>\<open>Conventions.\<close> A piece of kernel code is an operation on a state that fails or returns
  (\<open>('s, 'a) op\<close> in Prelude); the failures are the values of \<open>fault\<close>: a failed assertion, a
  panic, a wait for an interrupt, a loop that does not end, and an access outside an object. The
  state is a record; the servers' states extend the kernel's (\<open>kstate\<close>), which holds the process
  table and one flat memory of bytes, and every operation is polymorphic in what the others add.
  Words have their width (\<open>u32\<close>, \<open>u16\<close>, \<open>byte\<close>) where the code computes modulo it; C \<open>int\<close>s are
  HOL integers, cut to 32 bits (\<open>s32\<close>) where the code can overflow. Pointers into the process
  table, the inode table and the table of open files are indices, other pointers addresses.
  Loops without a bound are \<open>partial_function (option)\<close>, where \<open>None\<close> is the loop that does not
  end. The bounds that appear as numbers are the code's: 37 processes, 64 files a process, 0x400
  bytes of arguments (the measure of the loops of \<open>execv\<close>), 65536 program headers (the field has
  sixteen bits, so \<open>load_loop\<close> looks at every one). Code that is not C is a parameter with its
  documented behaviour as a hypothesis where a theorem needs it: the ports (\<open>hardware\<close>, with
  \<open>pic_ok\<close> and \<open>kbc_ok\<close>), the disk controller (the record \<open>ata\<close> and the locale \<open>ata_disk\<close>),
  link-time addresses (\<open>link\<close>).

  \<^bold>\<open>The theories and what they show.\<close>

  \<^item> Prelude, Memory: operations and failures; lib/string.asm, lib/memstring.c, \<open>MESSAGE\<close>.
  \<^item> Protect (kernel/protect.c, include/protect.h): descriptors read back what was put into them,
    every vector has the gate that the processor's and the interrupt controllers' numbering asks
    for (\<open>gate_handler\<close>), the descriptor table stays in bounds.
  \<^item> Disp (lib/klib.asm, lib/klib.c): what the kernel writes to the screen beside the consoles.
  \<^item> Proc, Sched, Clock (include/proc.h, kernel/proc.c, kernel/clock.c): \<open>schedule\<close> picks the first
    process with the greatest slice, shows its idle counter when it has to refill the slices, and
    returns exactly when there is a process to run; round robin under the clock starves nobody.
  \<^item> Ipc, Ipc_Inv, Ipc_Sys (kernel/proc.c): sending and receiving implement an abstract mailbox
    (queues, expectations, pending interrupts) and deliver the message with its sender's number.
  \<^item> Ipc_Reach (kernel/proc.c, mm/fork2exit.c): the runs of the step relation \<open>kstep\<close> from boot,
    whose steps are the system calls, the interrupts, the scheduler and the writes that the servers
    and the memory manager make to the process table themselves. In every state of such a run the
    waits-for relation is acyclic and the queues hold exactly the blocked senders, and every outcome
    of a system call is classified: it returns 0, idles, stops at the deadlock test, or was not well
    formed, or was sent to a process that waits under a mark of the memory manager, where the kernel
    asserts. The conditions on a run are those of \<open>kstep\<close>: a call passes a message; nobody is queued
    at a process when its entry is copied for a fork, nor at the free slot; and the processes that
    are copied, marked or freed are not blocked in a send. They are assumed of the servers, not
    proved: the copy of a queue that is not empty breaks the invariant (\<open>copy_entry_shares_queue\<close> in
    Mm_Fork, where \<open>copy_entry\<close> and the marks are also shown to be such steps).
  \<^item> Ports, Console, Ring, Keyboard, Tty (kernel/i8259.c, kernel/clock.c, kernel/console.c,
    kernel/keyboard.c, kernel/tty.c): only the clock line is open; \<open>out_char\<close> writes a screen; the
    two rings are bounded queues (locale \<open>bounded_fifo\<close>); a scan code types the character that the
    key has on an American keyboard (\<open>us_char\<close>); reading a line is the line editor of \<open>line_step\<close>,
    and the screen shows what \<open>line_echo\<close> says.
  \<^item> Display (kernel/protect.c, kernel/i8259.c): the report of an exception, with its text at its
    places, stays in the five rows cleared for it.
  \<^item> Err (lib/err.c, lib/stdio.c): panics and failed assertions as programs that print; the red
    screen ends, and runs 512 bytes past the video memory.
  \<^item> Hd, Hd_Disk, Hd_Init (driver/hd.c, include/hd.h): a transfer moves exactly the sectors asked
    for, and a read of a part of a sector waits for ever; the driver opens its interrupt and no other.
  \<^item> Fs, Fs_Disk, Fs_Maps, Fs_Smap, Fs_Rw, Fs_Search, Fs_Dir, Fs_Create, Fs_Clear, Fs_Unlink,
    Fs_Refs (fs/): the file system over the contract \<open>block_device\<close>, which the disk driver meets;
    inodes read back as written; the two allocators; reading and writing as operations on a file's
    list of bytes (for transfers of up to 255 sectors, what one request to the driver can name);
    the search of the directory; a file that is created is found, one that is removed is not, and
    nothing else on the disk changes (for files whose sectors begin inside a byte of the map; of
    the others a byte too many is given back); the reference counts of descriptors and inodes
    under close, exit and fork.
  \<^item> Stdio, Unistd (lib/stdio.c, lib/unistd.c, lib/ipc.c, kernel/systask.c): numbers printed and
    read back; the argument block that \<open>execv\<close> builds.
  \<^item> Mm, Mm_Fork, Mm_Exec, Mm_Exit (mm/): images do not overlap; fork makes one copy of its
    caller and nothing else; exec's arguments arrive; exit and wait give the same result in
    either order.
  \<^item> Boot (kernel/start.c, kernel/main.c, kernel/global.c, lib/klib.c): booting ends in a state
    that satisfies \<open>boot_ok\<close>, where the theorems of Ipc_Reach start.
  \<^item> Shell (kernel/main.c): Init, the shell, untar and the test processes; the words of a line
    typed at the shell are the arguments of the program; the size field of an archive's header
    reads as its octal number.

  \<^bold>\<open>Not modelled.\<close> The assembly (boot/, kernel/kernel.asm, kernel/syscall.asm), but for the
  memory and string routines and the port accesses, whose effect is that of Memory and Ports:
  interrupt entry, \<open>restart\<close> and the trap show only as steps of \<open>kstep\<close>. The messages that are
  printed on the way (calls of \<open>printl\<close>, \<open>dump_msg\<close>, the partition listing, and of \<open>disp_str\<close>
  during the boot), for nothing reads them back; \<open>sys_printx\<close> itself is in Tty. Where a component
  calls \<open>panic\<close>, \<open>spin\<close> or \<open>assert\<close>, its model fails with a value of \<open>fault\<close>, where the functions
  of Err end after their message. Code that nothing calls or links: drive/,
  kernel/hd.c, fs/open.c, kernel/nostdio.c, main.c, \<open>hykdo_stat\<close>, \<open>syn_cursor\<close>; and the programs
  of command/, which only print. An interrupt comes between system calls, not inside them: the
  kernel runs with interrupts disabled there, except in the idle loop of \<open>schedule\<close>.
\<close>

end
